(* ===== verification/Prelude.thy ===== *)
theory Prelude
  imports Main "HOL-Library.AList" "HOL-Library.Word"
begin

unbundle bit_operations_syntax

text \<open>
  Shared vocabulary of the development: results that may be a thrown error, the insertion
  ordered \<open>Map\<close> of JavaScript as an association list, slicing of byte arrays, the loop that
  collects numbered parts, and the capped replay caches the relay node keeps. Every
  component theory imports this one.
\<close>

named_theorems res_simps \<open>results that may be thrown errors\<close>
named_theorems jsmap \<open>the insertion ordered map of JavaScript\<close>

section \<open>Results and thrown errors\<close>

text \<open>
  \<open>Err m\<close> is a thrown \<open>Error\<close> whose message (or code) is \<open>m\<close>; \<open>TypeErr\<close> and \<open>RangeErr\<close> are the
  errors the language raises itself; \<open>LibErr\<close> is an error thrown inside a third-party library.
\<close>

datatype js_error = Err string | TypeErr | RangeErr | LibErr

type_synonym 'a res = "js_error + 'a"

definition rbind :: "'a res \<Rightarrow> ('a \<Rightarrow> 'b res) \<Rightarrow> 'b res" where
  "rbind r f = (case r of Inl e \<Rightarrow> Inl e | Inr x \<Rightarrow> f x)"

definition of_lib :: "'a option \<Rightarrow> 'a res" where
  "of_lib x = (case x of None \<Rightarrow> Inl LibErr | Some y \<Rightarrow> Inr y)"

definition or_null :: "'a res \<Rightarrow> 'a option" where
  "or_null r = (case r of Inl _ \<Rightarrow> None | Inr x \<Rightarrow> Some x)"

definition guard :: "bool \<Rightarrow> js_error \<Rightarrow> unit res" where
  "guard b e = (if b then Inr () else Inl e)"

fun rmap :: "('a \<Rightarrow> 'b res) \<Rightarrow> 'a list \<Rightarrow> 'b list res" where
  "rmap f [] = Inr []"
| "rmap f (x # xs) = rbind (f x) (\<lambda>y. rbind (rmap f xs) (\<lambda>ys. Inr (y # ys)))"

lemma rbind_simps [simp, res_simps]:
  "rbind (Inl e) f = Inl e" "rbind (Inr x) f = f x"
  by (simp_all add: rbind_def)

lemma rbind_Inr_iff [res_simps]: "rbind r f = Inr y \<longleftrightarrow> (\<exists>x. r = Inr x \<and> f x = Inr y)"
  by (cases r) auto

lemma of_lib_simps [simp, res_simps]:
  "of_lib None = Inl LibErr" "of_lib (Some x) = Inr x"
  "of_lib z = Inr y \<longleftrightarrow> z = Some y"
  by (simp_all add: of_lib_def split: option.splits)

lemma or_null_simps [simp, res_simps]:
  "or_null (Inl e) = None" "or_null (Inr x) = Some x"
  "or_null r = Some y \<longleftrightarrow> r = Inr y"
  by (simp_all add: or_null_def split: sum.splits)

lemma guard_simps [simp, res_simps]:
  "guard True e = Inr ()" "guard False e = Inl e" "guard b e = Inr u \<longleftrightarrow> b"
  by (simp_all add: guard_def)

lemma rmap_Inr_map: "(\<And>x. x \<in> set xs \<Longrightarrow> f x = Inr (g x)) \<Longrightarrow> rmap f xs = Inr (map g xs)"
  by (induction xs) auto

lemma rmap_length: "rmap f xs = Inr ys \<Longrightarrow> length ys = length xs"
  by (induction xs arbitrary: ys) (auto simp: res_simps)

section \<open>The JavaScript Map\<close>

text \<open>
  A JavaScript \<open>Map\<close> iterates in insertion order; setting an existing key keeps its place, setting
  a new one appends it, deleting removes it. That is \<open>AList.update\<close> and \<open>AList.delete\<close> on an
  association list with distinct keys. Deleting during iteration, as the code's purge loops do,
  visits every entry once: such a loop is a \<open>filter\<close>.
\<close>

type_synonym ('k, 'v) jsmap = "('k \<times> 'v) list"

definition wf_map :: "('k, 'v) jsmap \<Rightarrow> bool" where
  "wf_map m \<longleftrightarrow> distinct (map fst m)"

abbreviation mget :: "('k, 'v) jsmap \<Rightarrow> 'k \<Rightarrow> 'v option" where
  "mget \<equiv> map_of"

abbreviation mset_at :: "'k \<Rightarrow> 'v \<Rightarrow> ('k, 'v) jsmap \<Rightarrow> ('k, 'v) jsmap" where
  "mset_at \<equiv> AList.update"

abbreviation mdel :: "'k \<Rightarrow> ('k, 'v) jsmap \<Rightarrow> ('k, 'v) jsmap" where
  "mdel \<equiv> AList.delete"

definition mhas :: "('k, 'v) jsmap \<Rightarrow> 'k \<Rightarrow> bool" where
  "mhas m k \<longleftrightarrow> mget m k \<noteq> None"

definition mget_or :: "('k, 'v) jsmap \<Rightarrow> 'k \<Rightarrow> 'v \<Rightarrow> 'v" where
  "mget_or m k d = (case mget m k of None \<Rightarrow> d | Some v \<Rightarrow> v)"

lemma wf_map_simps [simp, jsmap]:
  "wf_map []" "wf_map ((k, v) # m) \<longleftrightarrow> k \<notin> fst ` set m \<and> wf_map m"
  by (simp_all add: wf_map_def)

lemma wf_map_set [simp, jsmap]: "wf_map m \<Longrightarrow> wf_map (mset_at k v m)"
  unfolding wf_map_def by (rule distinct_update)

lemma wf_map_del [simp, jsmap]: "wf_map m \<Longrightarrow> wf_map (mdel k m)"
  unfolding wf_map_def by (rule distinct_delete)

lemma wf_map_filter [simp, jsmap]: "wf_map m \<Longrightarrow> wf_map (filter P m)"
  unfolding wf_map_def by (rule distinct_map_filter)

lemma mget_set [simp, jsmap]: "mget (mset_at k v m) k' = (if k' = k then Some v else mget m k')"
  by (simp add: update_conv')

lemma mget_del [simp, jsmap]: "mget (mdel k m) k' = (if k' = k then None else mget m k')"
  by (simp add: delete_conv')

lemma mhas_iff [jsmap]: "mhas m k \<longleftrightarrow> k \<in> fst ` set m"
  by (simp add: mhas_def map_of_eq_None_iff)

lemma length_set [jsmap]: "length (mset_at k v m) = (if mhas m k then length m else Suc (length m))"
  by (induction m) (auto simp: mhas_def)

lemma length_del_le [jsmap]: "length (mdel k m) \<le> length m"
  by (rule length_delete_le)

lemma length_del_head: "wf_map ((k, v) # m) \<Longrightarrow> length (mdel k ((k, v) # m)) = length m"
  by simp

lemma mget_filter_Some:
  "wf_map m \<Longrightarrow> mget (filter P m) k = Some v \<longleftrightarrow> mget m k = Some v \<and> P (k, v)"
  unfolding wf_map_def by (induction m) (auto simp: map_of_eq_None_iff image_iff dest: map_of_SomeD)

lemma set_mset_at_subset: "set (mset_at k v m) \<subseteq> insert (k, v) (set m)"
  by (induction m) auto

lemma in_set_mdel: "x \<in> set (mdel k m) \<longleftrightarrow> x \<in> set m \<and> fst x \<noteq> k"
  by (auto simp: AList.delete_eq)

lemma mget_Some_iff: "wf_map m \<Longrightarrow> mget m k = Some v \<longleftrightarrow> (k, v) \<in> set m"
  by (simp add: wf_map_def)

lemma wf_map_unique: "wf_map m \<Longrightarrow> (k, v) \<in> set m \<Longrightarrow> (k, w) \<in> set m \<Longrightarrow> v = w"
  by (metis mget_Some_iff option.inject)

lemma in_set_mset_at:
  "wf_map m \<Longrightarrow> (k', v') \<in> set (mset_at k v m) \<longleftrightarrow> (if k' = k then v' = v else (k', v') \<in> set m)"
  by (auto simp flip: mget_Some_iff simp: wf_map_set)

section \<open>Capped replay caches\<close>

text \<open>
  The relay node bounds three maps the same way (\<open>routing.ts\<close>, \<open>recordPendingAck\<close>, the seen
  advertisements and the seen sync packets): when the map is full the oldest key is deleted, then
  the new key is set.
\<close>

definition bounded_set :: "nat \<Rightarrow> 'k \<Rightarrow> 'v \<Rightarrow> ('k, 'v) jsmap \<Rightarrow> ('k, 'v) jsmap" where
  "bounded_set cap k v m =
     mset_at k v
       (if cap \<le> length m then (case m of [] \<Rightarrow> m | (oldest, _) # _ \<Rightarrow> mdel oldest m) else m)"

lemma bounded_set_wf [simp]: "wf_map m \<Longrightarrow> wf_map (bounded_set cap k v m)"
  by (auto simp: bounded_set_def split: list.splits)

lemma bounded_set_get [simp]: "mget (bounded_set cap k v m) k = Some v"
  by (simp add: bounded_set_def)

lemma bounded_set_length:
  assumes "wf_map m" "length m \<le> cap" "0 < cap"
  shows "length (bounded_set cap k v m) \<le> cap"
proof (cases "cap \<le> length m")
  case True
  with assms obtain o' x m' where m: "m = (o', x) # m'" by (cases m) auto
  with assms(1) have "length (mdel o' m) = length m'" by (metis length_del_head)
  with True assms(2) m show ?thesis
    by (simp add: bounded_set_def length_set del: AList.delete_simps)
next
  case False
  with assms show ?thesis by (auto simp: bounded_set_def length_set)
qed

section \<open>Ledgers\<close>

text \<open>
  Two components charge what they hold to the neighbour it came from: a map of entries, and a
  map from neighbours to running totals that is adjusted with every insertion and removal
  (\<open>store.ts\<close>, \<open>fragment.ts\<close>). \<open>tally m owner weight p\<close> is the total the entries of \<open>p\<close> really have.
  \<open>release\<close> is the decrement both use: a total that falls to zero is deleted.
\<close>

definition tally :: "('e \<Rightarrow> 'p) \<Rightarrow> ('e \<Rightarrow> int) \<Rightarrow> ('k, 'e) jsmap \<Rightarrow> 'p \<Rightarrow> int" where
  "tally owner weight m p = (\<Sum>(k, e)\<leftarrow>m. if owner e = p then weight e else 0)"

definition release :: "'p \<Rightarrow> int \<Rightarrow> ('p, int) jsmap \<Rightarrow> ('p, int) jsmap" where
  "release p n m =
     (let remaining = mget_or m p 0 - n in if remaining \<le> 0 then mdel p m else mset_at p remaining m)"

lemma mget_or_simps [simp, jsmap]:
  "mget_or [] k d = d"
  "mget_or (mset_at k v m) k' d = (if k' = k then v else mget_or m k' d)"
  "mget_or (mdel k m) k' d = (if k' = k then d else mget_or m k' d)"
  by (simp_all add: mget_or_def)

lemma mhas_set_del [simp, jsmap]:
  "\<not> mhas [] k'" "mhas (mset_at k v m) k' \<longleftrightarrow> k' = k \<or> mhas m k'" "mhas (mdel k m) k' \<longleftrightarrow> k' \<noteq> k \<and> mhas m k'"
  by (simp_all add: mhas_def)

lemma mset_at_append_new: "\<not> mhas m k \<Longrightarrow> mset_at k v m = m @ [(k, v)]"
  by (induction m) (auto simp: mhas_def split: if_splits)

lemma mset_at_append_last: "\<not> mhas m k \<Longrightarrow> mset_at k v (m @ [(k, w)]) = m @ [(k, v)]"
  by (induction m) (auto simp: mhas_def split: if_splits)

lemma mdel_append_last: "\<not> mhas m k \<Longrightarrow> mdel k (m @ [(k, w)]) = m"
  by (induction m) (auto simp: mhas_def split: if_splits)

lemma mset_at_twice: "mset_at k v (mset_at k w m) = mset_at k v m"
  by (induction m) auto

lemma release_get:
  "0 \<le> mget_or m p 0 - n \<Longrightarrow> mget_or (release p n m) q 0 = mget_or m q 0 - (if q = p then n else 0)"
  by (simp add: release_def Let_def)

lemma release_wf [simp]: "wf_map m \<Longrightarrow> wf_map (release p n m)"
  by (simp add: release_def Let_def)

lemma release_has: "mhas (release p n m) q \<Longrightarrow> q = p \<or> mhas m q"
  by (auto simp: release_def Let_def split: if_splits)

locale ledger =
  fixes owner :: "'e \<Rightarrow> 'p" and weight :: "'e \<Rightarrow> int"
  assumes weight_nonneg: "0 \<le> weight e"
begin

lemma tally_Nil [simp]: "tally owner weight [] p = 0"
  by (simp add: tally_def)

lemma tally_nonneg: "0 \<le> tally owner weight m p"
  unfolding tally_def by (rule sum_list_nonneg) (auto simp: weight_nonneg)

lemma tally_new:
  "\<not> mhas m k \<Longrightarrow>
    tally owner weight (mset_at k e m) p = tally owner weight m p + (if owner e = p then weight e else 0)"
  by (simp add: tally_def mset_at_append_new)

lemma tally_Cons: "tally owner weight ((k, e) # m) p = (if owner e = p then weight e else 0) + tally owner weight m p"
  by (simp add: tally_def)

lemma tally_update:
  "mget m k = Some e \<Longrightarrow> owner e' = owner e \<Longrightarrow>
    tally owner weight (mset_at k e' m) p
      = tally owner weight m p + (if owner e = p then weight e' - weight e else 0)"
proof (induction m)
  case (Cons x m)
  then show ?case by (cases x) (auto simp: tally_Cons split: if_splits)
qed simp

lemma tally_del:
  "wf_map m \<Longrightarrow> mget m k = Some e \<Longrightarrow>
    tally owner weight (mdel k m) p = tally owner weight m p - (if owner e = p then weight e else 0)"
proof (induction m)
  case (Cons x m)
  obtain k' e' where x: "x = (k', e')" by (cases x)
  show ?case
  proof (cases "k' = k")
    case True
    with Cons.prems x have "\<not> mhas m k" by (simp add: mhas_iff)
    then have "mdel k m = m" by (auto simp: mhas_iff delete_id)
    with True Cons.prems x show ?thesis by (simp add: tally_Cons)
  next
    case False
    with Cons x show ?thesis by (simp add: tally_Cons)
  qed
qed simp

lemma weight_le_tally:
  "wf_map m \<Longrightarrow> mget m k = Some e \<Longrightarrow> weight e \<le> tally owner weight m (owner e)"
  using tally_del [of m k e "owner e"] tally_nonneg [of "mdel k m" "owner e"] by simp

text \<open>A map of totals that agrees with the tally still agrees after an entry is removed and released.\<close>

lemma release_tally:
  assumes "wf_map m" "mget m k = Some e" "\<And>p. Q p \<Longrightarrow> mget_or t p 0 = tally owner weight m p" "Q (owner e)" "Q p"
  shows "mget_or (release (owner e) (weight e) t) p 0 = tally owner weight (mdel k m) p"
proof -
  have "0 \<le> mget_or t (owner e) 0 - weight e"
    using weight_le_tally [OF assms(1,2)] assms(3) [OF assms(4)] by simp
  from release_get [OF this] show ?thesis
    using assms(3) [OF assms(5)] by (simp add: tally_del [OF assms(1,2)])
qed

end

section \<open>Stores that expire their entries\<close>

text \<open>
  The purge loops: every entry is visited once in the order it was inserted, a stale one is removed
  and counted. \<open>remove\<close> is the component's own removal, which also keeps its counters.
\<close>

definition sweep :: "('k \<Rightarrow> 'v \<Rightarrow> bool) \<Rightarrow> ('k \<Rightarrow> 'v \<Rightarrow> 's \<Rightarrow> 's) \<Rightarrow> ('k, 'v) jsmap \<Rightarrow> 's \<Rightarrow> nat \<times> 's" where
  "sweep stale remove m s =
     foldl (\<lambda>(purged, s) (k, v). if stale k v then (purged + 1, remove k v s) else (purged, s)) (0, s) m"

locale expiring_store =
  fixes view :: "'s \<Rightarrow> ('k, 'v) jsmap" and remove :: "'k \<Rightarrow> 'v \<Rightarrow> 's \<Rightarrow> 's" and inv :: "'s \<Rightarrow> bool"
  assumes view_remove: "view (remove k v s) = mdel k (view s)"
    and inv_wf: "inv s \<Longrightarrow> wf_map (view s)"
    and inv_remove: "inv s \<Longrightarrow> mget (view s) k = Some v \<Longrightarrow> inv (remove k v s)"
begin

abbreviation visit :: "('k \<Rightarrow> 'v \<Rightarrow> bool) \<Rightarrow> nat \<times> 's \<Rightarrow> 'k \<times> 'v \<Rightarrow> nat \<times> 's" where
  "visit stale \<equiv> (\<lambda>(purged, s) (k, v). if stale k v then (purged + 1, remove k v s) else (purged, s))"

lemma visit_all_inv:
  assumes "wf_map m" "inv s" "\<And>k v. (k, v) \<in> set m \<Longrightarrow> mget (view s) k = Some v"
  shows "inv (snd (foldl (visit stale) (n, s) m))"
  using assms
proof (induction m arbitrary: n s)
  case (Cons x m)
  obtain k v where x: "x = (k, v)" by (cases x)
  have "inv (remove k v s)" using Cons.prems x by (intro inv_remove) auto
  moreover have "mget (view (remove k v s)) k' = Some v'" if "(k', v') \<in> set m" for k' v'
    using that Cons.prems(1) Cons.prems(3) [of k' v'] x by (auto simp: view_remove image_iff)
  ultimately show ?case using Cons.prems x by (auto intro!: Cons.IH)
qed simp

lemma sweep_inv: "inv s \<Longrightarrow> inv (snd (sweep stale remove (view s) s))"
  unfolding sweep_def by (rule visit_all_inv) (auto simp: inv_wf mget_Some_iff [OF inv_wf])

lemma visit_all_view:
  "view (snd (foldl (visit stale) (n, s) m)) = filter (\<lambda>(k, v). \<not> (\<exists>v'. (k, v') \<in> set m \<and> stale k v')) (view s)"
proof (induction m arbitrary: n s)
  case (Cons x m)
  then show ?case by (cases x) (auto simp: view_remove AList.delete_eq intro!: filter_cong)
qed simp

lemma sweep_view: "inv s \<Longrightarrow> view (snd (sweep stale remove (view s) s)) = filter (\<lambda>(k, v). \<not> stale k v) (view s)"
  unfolding sweep_def visit_all_view
proof (rule filter_cong)
  fix x assume "inv s" and x: "x \<in> set (view s)"
  obtain k v where kv: "x = (k, v)" by (cases x)
  have "(\<exists>v'. (k, v') \<in> set (view s) \<and> stale k v') \<longleftrightarrow> stale k v"
    using wf_map_unique [OF inv_wf [OF \<open>inv s\<close>]] x kv by metis
  then show "(case x of (k, v) \<Rightarrow> \<not> (\<exists>v'. (k, v') \<in> set (view s) \<and> stale k v')) = (case x of (k, v) \<Rightarrow> \<not> stale k v)"
    by (simp only: kv prod.case)
qed simp

lemma sweep_none:
  assumes "\<And>k v. (k, v) \<in> set (view s) \<Longrightarrow> \<not> stale k v"
  shows "sweep stale remove (view s) s = (0, s)"
proof -
  have "foldl (visit stale) (n, s) m = (n, s)" if "\<And>k v. (k, v) \<in> set m \<Longrightarrow> \<not> stale k v" for n m
    using that by (induction m) (auto split: prod.splits)
  then show ?thesis using assms by (simp add: sweep_def)
qed

lemma sweep_mget: "inv s \<Longrightarrow> mget (view (snd (sweep stale remove (view s) s))) k = Some v \<longleftrightarrow>
    mget (view s) k = Some v \<and> \<not> stale k v"
  by (simp add: sweep_view mget_filter_Some [OF inv_wf])

lemma sweep_length: "inv s \<Longrightarrow> length (view (snd (sweep stale remove (view s) s))) \<le> length (view s)"
  by (simp add: sweep_view)

end

section \<open>Slices and numbered parts\<close>

text \<open>\<open>slice i j\<close> is \<open>xs.slice(i, j)\<close> for non-negative bounds: out of range bounds are clamped.\<close>

definition slice :: "nat \<Rightarrow> nat \<Rightarrow> 'a list \<Rightarrow> 'a list" where
  "slice i j xs = take (j - i) (drop i xs)"

definition ceil_div :: "nat \<Rightarrow> nat \<Rightarrow> nat" where
  "ceil_div n k = (n + k - 1) div k"

definition slices :: "nat \<Rightarrow> nat \<Rightarrow> 'a list \<Rightarrow> 'a list list" where
  "slices sz count xs = map (\<lambda>i. slice (i * sz) ((i + 1) * sz) xs) [0..<count]"

lemma ceil_div_bounds:
  assumes "0 < k"
  shows "n \<le> k * ceil_div n k" and "0 < n \<Longrightarrow> k * (ceil_div n k - 1) < n"
proof -
  have m: "k * ((n + k - 1) div k) + (n + k - 1) mod k = n + k - 1" by simp
  have r: "(n + k - 1) mod k < k" using assms by simp
  show "n \<le> k * ceil_div n k" using m r unfolding ceil_div_def by linarith
  show "k * (ceil_div n k - 1) < n" if "0 < n"
  proof -
    have "k * ((n + k - 1) div k) < n + k" using m that by linarith
    then show ?thesis using that assms unfolding ceil_div_def by (simp add: diff_mult_distrib2)
  qed
qed

lemma ceil_div_pos: "0 < k \<Longrightarrow> 0 < n \<Longrightarrow> 0 < ceil_div n k"
  by (simp add: ceil_div_def div_greater_zero_iff)

lemma length_slices [simp]: "length (slices sz count xs) = count"
  by (simp add: slices_def)

lemma length_slice_le: "length (slice i j xs) \<le> j - i"
  by (simp add: slice_def)

lemma slices_length_le: "x \<in> set (slices sz count xs) \<Longrightarrow> length x \<le> sz"
  by (auto simp: slices_def slice_def)

lemma concat_slices_take: "concat (slices sz count xs) = take (count * sz) xs"
proof (induction count)
  case 0
  then show ?case by (simp add: slices_def)
next
  case (Suc n)
  have "concat (slices sz (Suc n) xs) = concat (slices sz n xs) @ slice (n * sz) ((n + 1) * sz) xs"
    by (simp add: slices_def)
  also have "\<dots> = take (n * sz) xs @ take sz (drop (n * sz) xs)"
    by (simp add: Suc slice_def)
  also have "\<dots> = take (Suc n * sz) xs" by (metis add.commute mult_Suc take_add)
  finally show ?case .
qed

lemma concat_slices: "length xs \<le> sz * count \<Longrightarrow> concat (slices sz count xs) = xs"
  by (simp add: concat_slices_take mult.commute)

text \<open>
  The reassembly loop of \<open>fragment.ts\<close> and \<open>file.ts\<close>: for \<open>i\<close> from 0 below the count the part at
  \<open>i\<close> is read, a missing part gives \<open>null\<close>.
\<close>

definition gather :: "('k, 'a) jsmap \<Rightarrow> (nat \<Rightarrow> 'k) \<Rightarrow> nat \<Rightarrow> 'a list option" where
  "gather m key count = those (map (\<lambda>i. mget m (key i)) [0..<count])"

lemma those_map_Some: "(\<And>x. x \<in> set xs \<Longrightarrow> f x = Some (g x)) \<Longrightarrow> those (map f xs) = Some (map g xs)"
  by (induction xs) auto

lemma those_Some_iff: "those xs = Some ys \<longleftrightarrow> xs = map Some ys"
proof (induction xs arbitrary: ys)
  case Nil
  then show ?case by auto
next
  case (Cons x xs)
  then show ?case by (cases x; cases ys) auto
qed

lemma gather_slices:
  assumes "\<And>i. i < length parts \<Longrightarrow> mget m (key i) = Some (parts ! i)"
  shows "gather m key (length parts) = Some parts"
proof -
  have "those (map (\<lambda>i. mget m (key i)) [0..<length parts]) = Some (map ((!) parts) [0..<length parts])"
    by (rule those_map_Some) (simp add: assms)
  then show ?thesis by (simp add: gather_def map_nth)
qed

section \<open>Wire formats\<close>

text \<open>
  The contract of an encoder and its decoder: what the decoder gives back on the encodings of
  admissible values. Clients use that encodings of different values differ.
\<close>

locale wire_format =
  fixes enc :: "'a \<Rightarrow> 'b"
    and dec :: "'b \<Rightarrow> 'a option"
    and ok :: "'a \<Rightarrow> bool"
  assumes dec_enc: "ok x \<Longrightarrow> dec (enc x) = Some x"
begin

lemma enc_eq_iff: "ok x \<Longrightarrow> ok y \<Longrightarrow> enc x = enc y \<longleftrightarrow> x = y"
  by (metis dec_enc option.inject)

lemma inj_on_enc: "inj_on enc {x. ok x}"
  by (rule inj_onI) (simp add: enc_eq_iff)

lemma map_enc_eq_iff: "list_all ok xs \<Longrightarrow> list_all ok ys \<Longrightarrow> map enc xs = map enc ys \<longleftrightarrow> xs = ys"
proof (induction xs arbitrary: ys)
  case (Cons x xs)
  then show ?case by (cases ys) (auto simp: enc_eq_iff)
qed auto

end

section \<open>Truthiness\<close>

text \<open>A text that is missing, \<open>null\<close> or empty is falsy.\<close>

definition truthy :: "string option \<Rightarrow> string option" where
  "truthy x = (case x of Some [] \<Rightarrow> None | _ \<Rightarrow> x)"

end
