(* ===== verification/Effects.thy ===== *)
theory Effects
  imports Prelude
begin

text \<open>
  Operations that read and change a state and may throw: the state changes made before a throw stay, as
  they do in the code. \<open>chain\<close> is sequencing, \<open>each\<close> a \<open>for .. of\<close> loop, \<open>attempt\<close> a \<open>try .. catch\<close> that
  returns from the catch block. The locale \<open>evolution\<close> proves once that an operation built from such
  steps only moves the state along a preorder; an invariant is the preorder \<open>P s \<longrightarrow> P s'\<close>.
\<close>

type_synonym ('s, 'a) op = "'s \<Rightarrow> 'a res \<times> 's"

definition ret :: "'a \<Rightarrow> ('s, 'a) op" where
  "ret x s = (Inr x, s)"

definition throw :: "js_error \<Rightarrow> ('s, 'a) op" where
  "throw e s = (Inl e, s)"

definition chain :: "('s, 'a) op \<Rightarrow> ('a \<Rightarrow> ('s, 'b) op) \<Rightarrow> ('s, 'b) op" where
  "chain m f s = (case m s of (Inl e, s1) \<Rightarrow> (Inl e, s1) | (Inr x, s1) \<Rightarrow> f x s1)"

definition look :: "('s \<Rightarrow> 'a) \<Rightarrow> ('s, 'a) op" where
  "look f s = (Inr (f s), s)"

definition change :: "('s \<Rightarrow> 's) \<Rightarrow> ('s, unit) op" where
  "change f s = (Inr (), f s)"

definition lift_res :: "'a res \<Rightarrow> ('s, 'a) op" where
  "lift_res r s = (r, s)"

definition attempt :: "('s, 'a) op \<Rightarrow> ('s, 'a) op \<Rightarrow> ('s, 'a) op" where
  "attempt m h s = (case m s of (Inl e, s1) \<Rightarrow> h s1 | (Inr x, s1) \<Rightarrow> (Inr x, s1))"

text \<open>A part of the state as the state of an inner operation that does not throw, or that may.\<close>

definition on_part :: "('s \<Rightarrow> 'p) \<Rightarrow> ('p \<Rightarrow> 's \<Rightarrow> 's) \<Rightarrow> ('p \<Rightarrow> 'a \<times> 'p) \<Rightarrow> ('s, 'a) op" where
  "on_part get put f s = (case f (get s) of (x, p) \<Rightarrow> (Inr x, put p s))"

definition on_part_res :: "('s \<Rightarrow> 'p) \<Rightarrow> ('p \<Rightarrow> 's \<Rightarrow> 's) \<Rightarrow> ('p \<Rightarrow> 'a res \<times> 'p) \<Rightarrow> ('s, 'a) op" where
  "on_part_res get put f s = (case f (get s) of (x, p) \<Rightarrow> (x, put p s))"

fun each :: "('a \<Rightarrow> ('s, unit) op) \<Rightarrow> 'a list \<Rightarrow> ('s, unit) op" where
  "each f [] = ret ()"
| "each f (x # xs) = chain (f x) (\<lambda>_. each f xs)"

lemma op_simps [simp]:
  "ret x s = (Inr x, s)" "throw e s = (Inl e, s)" "look f s = (Inr (f s), s)" "change g s = (Inr (), g s)"
  "lift_res r s = (r, s)"
  by (simp_all add: ret_def throw_def look_def change_def lift_res_def)

lemma chain_Inr: "m s = (Inr x, s1) \<Longrightarrow> chain m f s = f x s1"
  by (simp add: chain_def)

lemma chain_Inl: "m s = (Inl e, s1) \<Longrightarrow> chain m f s = (Inl e, s1)"
  by (simp add: chain_def)

lemma chain_simps [simp]:
  "chain (ret x) f = f x" "chain (look g) f s = f (g s) s" "chain (change h) k s = k () (h s)" "chain (throw e) f s = (Inl e, s)"
  "chain (lift_res (Inr x)) f = f x" "chain (lift_res (Inl e)) f s = (Inl e, s)"
  by (auto simp: chain_def fun_eq_iff)

lemma chain_on_part [simp]:
  "chain (on_part get put h) f s = (case h (get s) of (x, p) \<Rightarrow> f x (put p s))"
  by (simp add: chain_def on_part_def split: prod.splits)

text \<open>\<open>yields P m\<close>: every value \<open>m\<close> returns without throwing satisfies \<open>P\<close>.\<close>

definition yields :: "('a \<Rightarrow> bool) \<Rightarrow> ('s, 'a) op \<Rightarrow> bool" where
  "yields P m \<longleftrightarrow> (\<forall>s x. fst (m s) = Inr x \<longrightarrow> P x)"

lemma yieldsD: "yields P m \<Longrightarrow> m s = (Inr x, s') \<Longrightarrow> P x"
  unfolding yields_def by (metis fst_conv)

lemma yields_ret: "P x \<Longrightarrow> yields P (ret x)"
  by (simp add: yields_def)

lemma yields_throw: "yields P (throw e)"
  by (simp add: yields_def)

lemma yields_chain: "(\<And>x. yields P (f x)) \<Longrightarrow> yields P (chain m f)"
  by (auto simp: yields_def chain_def split: prod.splits sum.splits)

lemma yields_chain_of: "yields Q m \<Longrightarrow> (\<And>x. Q x \<Longrightarrow> yields P (f x)) \<Longrightarrow> yields P (chain m f)"
  by (auto simp: yields_def chain_def split: prod.splits sum.splits) (metis fst_conv)

lemma yields_attempt: "yields P m \<Longrightarrow> yields P h \<Longrightarrow> yields P (attempt m h)"
  by (auto simp: yields_def attempt_def split: prod.splits sum.splits) (metis fst_conv)+

lemma yields_if: "yields P m \<Longrightarrow> yields P m' \<Longrightarrow> yields P (if b then m else m')"
  by simp

lemma yields_option: "yields P m \<Longrightarrow> (\<And>x. yields P (f x)) \<Longrightarrow> yields P (case o' of None \<Rightarrow> m | Some x \<Rightarrow> f x)"
  by (cases o') simp_all

lemma yields_prod: "(\<And>x y. yields P (f x y)) \<Longrightarrow> yields P (case p of (x, y) \<Rightarrow> f x y)"
  by (cases p) simp

lemmas yields_intros = yields_ret yields_throw yields_chain yields_attempt yields_if yields_option yields_prod

locale evolution =
  fixes R :: "'s \<Rightarrow> 's \<Rightarrow> bool"
  assumes R_refl: "R s s" and R_trans: "R s s' \<Longrightarrow> R s' s'' \<Longrightarrow> R s s''"
begin

definition evolves :: "('s, 'a) op \<Rightarrow> bool" where
  "evolves m \<longleftrightarrow> (\<forall>s. R s (snd (m s)))"

lemma evolvesD: "evolves m \<Longrightarrow> m s = (r, s') \<Longrightarrow> R s s'"
  unfolding evolves_def by (metis snd_conv)

lemma evolves_ret: "evolves (ret x)"
  by (simp add: evolves_def R_refl)

lemma evolves_throw: "evolves (throw e)"
  by (simp add: evolves_def R_refl)

lemma evolves_look: "evolves (look f)"
  by (simp add: evolves_def R_refl)

lemma evolves_lift: "evolves (lift_res r)"
  by (simp add: evolves_def R_refl)

lemma evolves_change: "(\<And>s. R s (f s)) \<Longrightarrow> evolves (change f)"
  by (simp add: evolves_def)

lemma evolves_on_part: "(\<And>s. R s (put (snd (f (get s))) s)) \<Longrightarrow> evolves (on_part get put f)"
  by (simp add: evolves_def on_part_def case_prod_beta)

lemma evolves_on_part_res: "(\<And>s. R s (put (snd (f (get s))) s)) \<Longrightarrow> evolves (on_part_res get put f)"
  by (simp add: evolves_def on_part_res_def case_prod_beta)

lemma evolves_chain:
  assumes "evolves m" "\<And>x. evolves (f x)"
  shows "evolves (chain m f)"
  unfolding evolves_def
proof
  fix s
  obtain r s1 where m: "m s = (r, s1)" by (cases "m s")
  have 1: "R s s1" by (rule evolvesD [OF assms(1) m])
  show "R s (snd (chain m f s))"
  proof (cases r)
    case (Inl e)
    with m 1 show ?thesis by (simp add: chain_def)
  next
    case (Inr x)
    have "R s1 (snd (f x s1))" using assms(2) by (simp add: evolves_def)
    with m 1 Inr show ?thesis using R_trans by (simp add: chain_def)
  qed
qed

text \<open>When the continuation depends on what was read, the reading is part of the premise.\<close>

lemma evolves_chain_look:
  assumes "\<And>s. R s (snd (f (g s) s))"
  shows "evolves (chain (look g) f)"
  using assms by (simp add: evolves_def)

lemma evolves_attempt:
  assumes "evolves m" "evolves h"
  shows "evolves (attempt m h)"
  unfolding evolves_def
proof
  fix s
  obtain r s1 where m: "m s = (r, s1)" by (cases "m s")
  have "R s s1" by (rule evolvesD [OF assms(1) m])
  moreover have "R s1 (snd (h s1))" using assms(2) by (simp add: evolves_def)
  ultimately show "R s (snd (attempt m h s))" using m R_trans by (cases r) (auto simp: attempt_def)
qed

lemma evolves_each: "(\<And>x. evolves (f x)) \<Longrightarrow> evolves (each f xs)"
  by (induction xs) (auto intro: evolves_ret evolves_chain)

lemma evolves_if: "evolves m \<Longrightarrow> evolves m' \<Longrightarrow> evolves (if b then m else m')"
  by simp

lemma evolves_option: "evolves m \<Longrightarrow> (\<And>x. evolves (f x)) \<Longrightarrow> evolves (case o' of None \<Rightarrow> m | Some x \<Rightarrow> f x)"
  by (cases o') simp_all

lemma evolves_prod: "(\<And>x y. evolves (f x y)) \<Longrightarrow> evolves (case p of (x, y) \<Rightarrow> f x y)"
  by (cases p) simp

lemmas evolves_intros = evolves_ret evolves_throw evolves_look evolves_lift evolves_chain evolves_attempt evolves_each
  evolves_if evolves_option evolves_prod

end

end
