(* ===== verification/JsValues.thy ===== *)
theory JsValues
  imports Prelude
begin

text \<open>
  The values a decoder can hand to the program, and what the language does with them. The
  TypeScript casts (\<open>cbor.decode(..) as EncodedEnvelopeTuple\<close>) check nothing at run time, so a
  hostile frame can put any value at any position: the decoders of the model run on \<open>jsval\<close> and
  index, convert and compare as JavaScript does.

  Numbers: \<open>Num i\<close> is an integral double, \<open>Frac i\<close> a fractional one strictly between \<open>i\<close> and
  \<open>i + 1\<close>, which decides every comparison with an integer; arithmetic is exact, the rounding of
  doubles beyond 2^53 is not modelled. Strings are lists of ASCII characters; a string used as a
  number is read as a decimal integer, any other numeral counts as \<open>NaN\<close>.
\<close>

section \<open>Numbers\<close>

datatype jsnum = Num int | Frac int | NaN | PosInf | NegInf

fun num_lt :: "jsnum \<Rightarrow> jsnum \<Rightarrow> bool" where
  "num_lt NaN _ = False"
| "num_lt _ NaN = False"
| "num_lt NegInf y = (y \<noteq> NegInf)"
| "num_lt _ NegInf = False"
| "num_lt PosInf _ = False"
| "num_lt _ PosInf = True"
| "num_lt (Num a) (Num b) = (a < b)"
| "num_lt (Num a) (Frac b) = (a \<le> b)"
| "num_lt (Frac a) (Num b) = (a < b)"
| "num_lt (Frac a) (Frac b) = (a < b)"

text \<open>\<open>a <= b\<close> is false when either side is \<open>NaN\<close>.\<close>

instantiation jsnum :: ord
begin

definition less_jsnum :: "jsnum \<Rightarrow> jsnum \<Rightarrow> bool" where
  "less_jsnum a b = num_lt a b"

definition less_eq_jsnum :: "jsnum \<Rightarrow> jsnum \<Rightarrow> bool" where
  "less_eq_jsnum a b = (a \<noteq> NaN \<and> b \<noteq> NaN \<and> \<not> num_lt b a)"

instance ..

end

fun num_sub :: "jsnum \<Rightarrow> jsnum \<Rightarrow> jsnum" where
  "num_sub NaN _ = NaN"
| "num_sub _ NaN = NaN"
| "num_sub PosInf PosInf = NaN"
| "num_sub NegInf NegInf = NaN"
| "num_sub PosInf _ = PosInf"
| "num_sub NegInf _ = NegInf"
| "num_sub _ PosInf = NegInf"
| "num_sub _ NegInf = PosInf"
| "num_sub (Num a) (Num b) = Num (a - b)"
| "num_sub (Num a) (Frac b) = Frac (a - b - 1)"
| "num_sub (Frac a) (Num b) = Frac (a - b)"
| "num_sub (Frac a) (Frac b) = Frac (a - b)"

definition is_safe_integer :: "jsnum \<Rightarrow> bool" where
  "is_safe_integer n = (case n of Num i \<Rightarrow> \<bar>i\<bar> \<le> 2 ^ 53 - 1 | _ \<Rightarrow> False)"

definition is_integer :: "jsnum \<Rightarrow> bool" where
  "is_integer n = (case n of Num _ \<Rightarrow> True | _ \<Rightarrow> False)"

text \<open>Truncation towards zero, then modulo the width: \<open>ToUint8\<close>, \<open>ToUint32\<close>.\<close>

definition num_trunc :: "jsnum \<Rightarrow> int" where
  "num_trunc n = (case n of Num i \<Rightarrow> i | Frac i \<Rightarrow> if 0 \<le> i then i else i + 1 | _ \<Rightarrow> 0)"

definition to_uint8 :: "jsnum \<Rightarrow> 8 word" where
  "to_uint8 n = word_of_int (num_trunc n)"

definition to_uint32 :: "jsnum \<Rightarrow> 32 word" where
  "to_uint32 n = word_of_int (num_trunc n)"

text \<open>\<open>setBigUint64(.., BigInt(n))\<close>: \<open>BigInt\<close> throws a \<open>RangeError\<close> unless \<open>n\<close> is integral.\<close>

definition to_biguint64 :: "jsnum \<Rightarrow> 64 word res" where
  "to_biguint64 n = (case n of Num i \<Rightarrow> Inr (word_of_int i) | _ \<Rightarrow> Inl RangeErr)"

text \<open>The number of iterations of \<open>for (let i = 0; i < n; i++)\<close>, for a count that is not infinite.\<close>

definition loop_bound :: "jsnum \<Rightarrow> nat" where
  "loop_bound n = (case n of Num i \<Rightarrow> nat i | Frac i \<Rightarrow> nat (i + 1) | _ \<Rightarrow> 0)"

lemma num_less_simps [simp]:
  "Num a < Num b \<longleftrightarrow> a < b" "\<not> NaN < y" "\<not> x < NaN"
  "Num a < PosInf" "\<not> PosInf < Num a" "NegInf < Num a" "\<not> Num a < NegInf"
  "Num a < Frac b \<longleftrightarrow> a \<le> b" "Frac b < Num a \<longleftrightarrow> b < a" "\<not> PosInf < x"
  by (auto simp: less_jsnum_def) (cases x; simp)+

lemma num_le_simps [simp]:
  "Num a \<le> Num b \<longleftrightarrow> a \<le> b" "\<not> NaN \<le> y" "\<not> x \<le> NaN"
  "Num a \<le> PosInf" "\<not> PosInf \<le> Num a" "NegInf \<le> Num a" "\<not> Num a \<le> NegInf"
  "Num a \<le> Frac b \<longleftrightarrow> a \<le> b" "Frac b \<le> Num a \<longleftrightarrow> b < a"
  by (auto simp: less_eq_jsnum_def)

lemma is_safe_integer_iff: "is_safe_integer n \<longleftrightarrow> (\<exists>i. n = Num i \<and> \<bar>i\<bar> \<le> 2 ^ 53 - 1)"
  by (auto simp: is_safe_integer_def split: jsnum.splits)

lemma is_safe_integer_Num [simp]: "is_safe_integer (Num i) \<longleftrightarrow> \<bar>i\<bar> \<le> 9007199254740991"
  by (simp add: is_safe_integer_def)

lemma to_biguint64_Inr: "to_biguint64 n = Inr w \<longleftrightarrow> (\<exists>i. n = Num i \<and> w = word_of_int i)"
  by (auto simp: to_biguint64_def split: jsnum.splits)

section \<open>Decoded values\<close>

datatype jsval =
    JUndef
  | JNull
  | JBool bool
  | JNum jsnum
  | JStr string
  | JBytes "8 word list"
  | JArr "jsval list"
  | JObj "(string \<times> jsval) list"

definition is_digit :: "char \<Rightarrow> bool" where
  "is_digit c \<longleftrightarrow> 48 \<le> (of_char c :: nat) \<and> (of_char c :: nat) \<le> 57"

definition decimal :: "string \<Rightarrow> int" where
  "decimal s = foldl (\<lambda>n c. 10 * n + (of_char c - 48)) 0 s"

definition str_number :: "string \<Rightarrow> jsnum" where
  "str_number s =
     (if s = [] then Num 0
      else if list_all is_digit s then Num (decimal s)
      else if hd s = CHR ''-'' \<and> tl s \<noteq> [] \<and> list_all is_digit (tl s) then Num (- decimal (tl s))
      else NaN)"

text \<open>\<open>ToNumber\<close>: an array or byte array is converted through its comma-joined string.\<close>

fun to_number :: "jsval \<Rightarrow> jsnum" where
  "to_number JUndef = NaN"
| "to_number JNull = Num 0"
| "to_number (JBool b) = Num (if b then 1 else 0)"
| "to_number (JNum n) = n"
| "to_number (JStr s) = str_number s"
| "to_number (JBytes []) = Num 0"
| "to_number (JBytes [b]) = Num (uint b)"
| "to_number (JBytes (_ # _ # _)) = NaN"
| "to_number (JArr []) = Num 0"
| "to_number (JArr [JUndef]) = Num 0"
| "to_number (JArr [JNull]) = Num 0"
| "to_number (JArr [JBool b]) = NaN"
| "to_number (JArr [v]) = to_number v"
| "to_number (JArr (_ # _ # _)) = NaN"
| "to_number (JObj _) = NaN"

text \<open>A value compared with \<open>===\<close> against a number: anything that is not a number is unequal.\<close>

definition strict_number :: "jsval \<Rightarrow> jsnum" where
  "strict_number v = (case v of JNum n \<Rightarrow> n | _ \<Rightarrow> NaN)"

definition obj_get :: "(string \<times> jsval) list \<Rightarrow> string \<Rightarrow> jsval" where
  "obj_get fs k = (case map_of fs k of None \<Rightarrow> JUndef | Some v \<Rightarrow> v)"

fun nat_string :: "nat \<Rightarrow> string" where
  "nat_string n = (if n < 10 then [char_of (48 + n)] else nat_string (n div 10) @ [char_of (48 + n mod 10)])"

declare nat_string.simps [simp del]

text \<open>\<open>v[i]\<close> and \<open>v.name\<close>; reading a property of \<open>undefined\<close> or \<open>null\<close> throws.\<close>

definition js_index :: "jsval \<Rightarrow> nat \<Rightarrow> jsval res" where
  "js_index v i = (case v of
      JUndef \<Rightarrow> Inl TypeErr
    | JNull \<Rightarrow> Inl TypeErr
    | JArr xs \<Rightarrow> Inr (if i < length xs then xs ! i else JUndef)
    | JBytes bs \<Rightarrow> Inr (if i < length bs then JNum (Num (uint (bs ! i))) else JUndef)
    | JStr s \<Rightarrow> Inr (if i < length s then JStr [s ! i] else JUndef)
    | JObj fs \<Rightarrow> Inr (obj_get fs (nat_string i))
    | _ \<Rightarrow> Inr JUndef)"

definition js_prop :: "jsval \<Rightarrow> string \<Rightarrow> jsval res" where
  "js_prop v k = (case v of
      JUndef \<Rightarrow> Inl TypeErr
    | JNull \<Rightarrow> Inl TypeErr
    | JObj fs \<Rightarrow> Inr (obj_get fs k)
    | _ \<Rightarrow> Inr JUndef)"

text \<open>
  \<open>Uint8Array.from(v)\<close>: byte strings are copied, arrays, strings and array-like objects converted
  element by element, numbers and booleans give an empty array, \<open>undefined\<close> and \<open>null\<close> throw. An
  object whose length does not fit an allocation throws a \<open>RangeError\<close>.
\<close>

definition uint8_from :: "jsval \<Rightarrow> 8 word list res" where
  "uint8_from v = (case v of
      JUndef \<Rightarrow> Inl TypeErr
    | JNull \<Rightarrow> Inl TypeErr
    | JBytes bs \<Rightarrow> Inr bs
    | JArr xs \<Rightarrow> Inr (map (to_uint8 \<circ> to_number) xs)
    | JStr s \<Rightarrow> Inr (map (\<lambda>c. to_uint8 (str_number [c])) s)
    | JObj fs \<Rightarrow>
        (let n = num_trunc (to_number (obj_get fs ''length''))
         in if n < 2 ^ 32 then Inr (map (\<lambda>i. to_uint8 (to_number (obj_get fs (nat_string i)))) [0..<nat n])
            else Inl RangeErr)
    | _ \<Rightarrow> Inr [])"

definition is_array :: "jsval \<Rightarrow> bool" where
  "is_array v = (case v of JArr _ \<Rightarrow> True | _ \<Rightarrow> False)"

definition arr_length :: "jsval \<Rightarrow> nat" where
  "arr_length v = (case v of JArr xs \<Rightarrow> length xs | _ \<Rightarrow> 0)"

text \<open>A value that passes \<open>Number.isSafeInteger\<close>.\<close>

definition safe_int :: "jsval \<Rightarrow> int option" where
  "safe_int v = (case v of JNum (Num i) \<Rightarrow> if is_safe_integer (Num i) then Some i else None | _ \<Rightarrow> None)"

lemma safe_int_Num [simp]: "safe_int (JNum (Num i)) = (if \<bar>i\<bar> \<le> 9007199254740991 then Some i else None)"
  by (simp add: safe_int_def is_safe_integer_def)

lemma js_index_arr [simp]: "js_index (JArr xs) i = Inr (if i < length xs then xs ! i else JUndef)"
  by (simp add: js_index_def)

lemma uint8_from_simps [simp]:
  "uint8_from (JBytes bs) = Inr bs" "uint8_from JUndef = Inl TypeErr" "uint8_from JNull = Inl TypeErr"
  by (simp_all add: uint8_from_def)

lemma strict_number_simps [simp]: "strict_number (JNum n) = n" "strict_number (JBytes b) = NaN"
  by (simp_all add: strict_number_def)

lemma is_array_iff: "is_array v \<longleftrightarrow> (\<exists>xs. v = JArr xs)"
  by (auto simp: is_array_def split: jsval.splits)

lemma is_array_arr [simp]: "is_array (JArr xs)" "arr_length (JArr xs) = length xs"
  by (simp_all add: is_array_def arr_length_def)

end
