(* ===== verification/Bytes.thy ===== *)
theory Bytes
  imports JsValues
begin

text \<open>
  \<open>src/util.ts\<close>: byte helpers shared by the whole code base. A \<open>Uint8Array\<close> is a list of 8-bit
  words. The properties: the constant-time comparison decides equality, hexadecimal text is an
  injective encoding, and the little endian counters are injective below their width.
\<close>

type_synonym byte = "8 word"
type_synonym bytes = "8 word list"

section \<open>Definitions\<close>

text \<open>\<open>concatBytes\<close> copies each array at a running offset into one array of the total length.\<close>

fun set_at :: "bytes \<Rightarrow> nat \<Rightarrow> bytes \<Rightarrow> bytes" where
  "set_at out off a = take off out @ a @ drop (off + length a) out"

fun concat_loop :: "bytes \<Rightarrow> nat \<Rightarrow> bytes list \<Rightarrow> bytes" where
  "concat_loop out off [] = out"
| "concat_loop out off (a # as) = concat_loop (set_at out off a) (off + length a) as"

definition concatBytes :: "bytes list \<Rightarrow> bytes" where
  "concatBytes arrays =
     concat_loop (replicate (foldl (\<lambda>sum a. sum + length a) 0 arrays) 0) 0 arrays"

fun diff_loop :: "byte \<Rightarrow> bytes \<Rightarrow> bytes \<Rightarrow> byte" where
  "diff_loop d (x # xs) (y # ys) = diff_loop (d OR (x XOR y)) xs ys"
| "diff_loop d _ _ = d"

definition bytesEqual :: "bytes \<Rightarrow> bytes \<Rightarrow> bool" where
  "bytesEqual a b \<longleftrightarrow> (if length a \<noteq> length b then False else diff_loop 0 a b = 0)"

definition hex_digit :: "nat \<Rightarrow> char" where
  "hex_digit n = (if n < 10 then char_of (48 + n) else char_of (87 + n))"

text \<open>\<open>n.toString(16)\<close> and \<open>padStart(2, '0')\<close>.\<close>

fun toString16 :: "nat \<Rightarrow> string" where
  "toString16 n = (if n < 16 then [hex_digit n] else toString16 (n div 16) @ [hex_digit (n mod 16)])"

declare toString16.simps [simp del]

definition padStart :: "nat \<Rightarrow> char \<Rightarrow> string \<Rightarrow> string" where
  "padStart n c s = replicate (n - length s) c @ s"

definition bytesToHex :: "bytes \<Rightarrow> string" where
  "bytesToHex bs = concat (map (\<lambda>b. padStart 2 (CHR ''0'') (toString16 (unat b))) bs)"

definition le_bytes :: "nat \<Rightarrow> 'a::len word \<Rightarrow> bytes" where
  "le_bytes n w = map (\<lambda>i. ucast (drop_bit (8 * i) w)) [0..<n]"

definition u32le :: "jsnum \<Rightarrow> bytes" where
  "u32le n = le_bytes 4 (to_uint32 n)"

definition u64le :: "jsnum \<Rightarrow> bytes res" where
  "u64le n = rbind (to_biguint64 n) (\<lambda>w. Inr (le_bytes 8 w))"

definition buildNonce :: "jsnum \<Rightarrow> bytes res" where
  "buildNonce counter = rbind (to_biguint64 counter) (\<lambda>w. Inr (replicate 16 0 @ le_bytes 8 w))"

text \<open>\<open>new TextEncoder().encode(s)\<close> on ASCII text, and back.\<close>

definition text_encode :: "string \<Rightarrow> bytes" where
  "text_encode s = map of_char s"

definition text_decode :: "bytes \<Rightarrow> string" where
  "text_decode bs = map (\<lambda>b. char_of (unat b)) bs"

section \<open>Concatenation and comparison\<close>

lemma concat_loop_append:
  "concat_loop (pre @ replicate (sum_list (map length as)) 0) (length pre) as = pre @ concat as"
proof (induction as arbitrary: pre)
  case Nil
  then show ?case by simp
next
  case (Cons a as)
  from Cons [of "pre @ a"] show ?case by (simp add: drop_replicate)
qed

lemma foldl_length: "foldl (\<lambda>sum a. sum + length a) n as = n + sum_list (map length as)"
  by (induction as arbitrary: n) auto

lemma concatBytes_eq [simp]: "concatBytes as = concat as"
  using concat_loop_append [of "[]" as] by (simp add: concatBytes_def foldl_length)

lemma or_eq_0_iff: "(a :: 'a::len word) OR b = 0 \<longleftrightarrow> a = 0 \<and> b = 0"
  by (auto simp: bit_eq_iff bit_or_iff)

lemma xor_eq_0_iff: "(a :: 'a::len word) XOR b = 0 \<longleftrightarrow> a = b"
  by (auto simp: bit_eq_iff bit_xor_iff)

lemma diff_loop_0: "length a = length b \<Longrightarrow> diff_loop d a b = 0 \<longleftrightarrow> d = 0 \<and> a = b"
  by (induction d a b rule: diff_loop.induct) (auto simp: or_eq_0_iff xor_eq_0_iff)

lemma bytesEqual_iff [simp]: "bytesEqual a b \<longleftrightarrow> a = b"
  by (auto simp: bytesEqual_def diff_loop_0)

section \<open>Hexadecimal\<close>

lemma unat_byte [simp]: "unat (b :: byte) < 256"
  by (rule order_less_le_trans [OF unsigned_less]) simp

lemma of_hex_digit: "n < 16 \<Longrightarrow> (of_char (hex_digit n) :: nat) = (if n < 10 then 48 + n else 87 + n)"
  by (simp add: hex_digit_def)

lemma hex_digit_inj:
  assumes "m < 16" "n < 16"
  shows "hex_digit m = hex_digit n \<longleftrightarrow> m = n"
proof -
  have "(of_char (hex_digit m) :: nat) = of_char (hex_digit n) \<longleftrightarrow> m = n"
    using assms by (cases "m < 10"; cases "n < 10") (simp_all only: of_hex_digit if_True if_False, linarith+)
  then show ?thesis by simp
qed

lemma char_of_48: "char_of (48 :: nat) = CHR ''0''"
  by code_simp

lemma hex_byte:
  "padStart 2 (CHR ''0'') (toString16 (unat (b :: byte))) = [hex_digit (unat b div 16), hex_digit (unat b mod 16)]"
proof -
  have b: "unat b < 256" by simp
  show ?thesis
  proof (cases "unat b < 16")
    case True
    then show ?thesis by (simp add: toString16.simps [of "unat b"] padStart_def hex_digit_def char_of_48)
  next
    case False
    have "unat b div 16 < 16" using b by linarith
    with False show ?thesis
      by (simp add: toString16.simps [of "unat b"] toString16.simps [of "unat b div 16"] padStart_def)
  qed
qed

lemma bytesToHex_Nil [simp]: "bytesToHex [] = []"
  by (simp add: bytesToHex_def)

lemma bytesToHex_Cons [simp]:
  "bytesToHex (b # bs) = hex_digit (unat b div 16) # hex_digit (unat b mod 16) # bytesToHex bs"
  by (simp add: bytesToHex_def hex_byte)

lemma bytesToHex_append: "bytesToHex (a @ b) = bytesToHex a @ bytesToHex b"
  by (induction a) auto

lemma length_bytesToHex [simp]: "length (bytesToHex bs) = 2 * length bs"
  by (induction bs) auto

lemma bytesToHex_eq_iff [simp]: "bytesToHex a = bytesToHex b \<longleftrightarrow> a = b"
proof (induction a arbitrary: b)
  case Nil
  then show ?case by (cases b) auto
next
  case (Cons x xs)
  have digits: "hex_digit (unat x div 16) = hex_digit (unat y div 16) \<and>
      hex_digit (unat x mod 16) = hex_digit (unat y mod 16) \<longleftrightarrow> x = y" for y :: byte
  proof -
    have "unat x div 16 < 16" "unat y div 16 < 16"
      using unat_byte [of x] unat_byte [of y] by linarith+
    then show ?thesis
      by (simp add: hex_digit_inj) (metis div_mult_mod_eq word_unat_eq_iff)
  qed
  show ?case
  proof (cases b)
    case (Cons y ys)
    with digits [of y] Cons.IH [of ys] show ?thesis by auto
  qed simp
qed

section \<open>Little endian integers\<close>

lemma length_le_bytes [simp]: "length (le_bytes n w) = n"
  by (simp add: le_bytes_def)

lemma le_bytes_inj:
  fixes v w :: "'a::len word"
  assumes "LENGTH('a) = 8 * n" "le_bytes n v = le_bytes n w"
  shows "v = w"
proof (rule bit_word_eqI)
  fix k assume k: "k < LENGTH('a)"
  with assms(1) have i: "k div 8 < n" by simp
  have "le_bytes n v ! (k div 8) = le_bytes n w ! (k div 8)" using assms(2) by simp
  with i have "bit (ucast (drop_bit (8 * (k div 8)) v) :: byte) (k mod 8)
      = bit (ucast (drop_bit (8 * (k div 8)) w) :: byte) (k mod 8)"
    by (simp add: le_bytes_def)
  then show "bit v k = bit w k" by (simp add: bit_unsigned_iff bit_drop_bit_eq)
qed

lemma le_bytes_32_eq [simp]: "le_bytes 4 (v :: 32 word) = le_bytes 4 w \<longleftrightarrow> v = w"
  using le_bytes_inj [of 4 v w] by auto

lemma le_bytes_64_eq [simp]: "le_bytes 8 (v :: 64 word) = le_bytes 8 w \<longleftrightarrow> v = w"
  using le_bytes_inj [of 8 v w] by auto

lemma length_u32le [simp]: "length (u32le n) = 4"
  by (simp add: u32le_def)

lemma u64le_Num [simp]: "u64le (Num i) = Inr (le_bytes 8 (word_of_int i :: 64 word))"
  by (simp add: u64le_def to_biguint64_def)

lemma length_u64le: "u64le n = Inr bs \<Longrightarrow> length bs = 8"
  by (auto simp: u64le_def res_simps)

lemma word_of_int_inj_below:
  "0 \<le> i \<Longrightarrow> i < 2 ^ LENGTH('a) \<Longrightarrow> 0 \<le> j \<Longrightarrow> j < 2 ^ LENGTH('a) \<Longrightarrow>
    (word_of_int i :: 'a::len word) = word_of_int j \<longleftrightarrow> i = j"
  by (simp add: word_of_int_eq_iff take_bit_int_eq_self)

lemma u64le_eq_iff:
  assumes "0 \<le> i" "i < 2 ^ 64" "0 \<le> j" "j < 2 ^ 64"
  shows "u64le (Num i) = u64le (Num j) \<longleftrightarrow> i = j"
  using assms word_of_int_inj_below [where 'a = 64, of i j] by simp

lemma buildNonce_Num [simp]:
  "buildNonce (Num i) = Inr (replicate 16 0 @ le_bytes 8 (word_of_int i :: 64 word))"
  by (simp add: buildNonce_def to_biguint64_def)

lemma buildNonce_length: "buildNonce n = Inr nonce \<Longrightarrow> length nonce = 24"
  by (auto simp: buildNonce_def res_simps)

lemma of_char_word_inj: "(of_char c :: byte) = of_char d \<longleftrightarrow> c = d"
proof
  assume "(of_char c :: byte) = of_char d"
  then have "unat (of_char c :: byte) = unat (of_char d :: byte)" by simp
  moreover have "unat (of_char e :: byte) = (of_char e :: nat)" for e
  proof -
    have "(of_char e :: byte) = of_nat (of_char e)" by (simp only: of_nat_of_char)
    moreover have "(of_char e :: nat) < 256" by simp
    ultimately show ?thesis by (simp only: unat_of_nat) simp
  qed
  ultimately show "c = d" by simp
qed simp

lemma text_encode_eq_iff [simp]: "text_encode s = text_encode t \<longleftrightarrow> s = t"
  unfolding text_encode_def by (rule inj_map_eq_map) (auto intro!: injI simp: of_char_word_inj)

lemma length_text_encode [simp]: "length (text_encode s) = length s"
  by (simp add: text_encode_def)

lemma text_decode_encode [simp]: "text_decode (text_encode s) = s"
proof -
  have "char_of (unat (of_char c :: byte)) = c" for c :: char
  proof -
    have "(of_char c :: byte) = of_nat (of_char c)" by (simp only: of_nat_of_char)
    moreover have "(of_char c :: nat) < 256" by simp
    ultimately have "unat (of_char c :: byte) = (of_char c :: nat)"
      by (simp only: unat_of_nat) simp
    then show ?thesis by simp
  qed
  then show ?thesis by (simp add: text_decode_def text_encode_def comp_def)
qed

end
