(* ===== verification/Lib.thy ===== *)
theory Lib
  imports Bytes
begin

text \<open>
  The third-party code as a parameter. \<open>lib\<close> holds the functions of \<open>@noble/hashes\<close>,
  \<open>@noble/ciphers\<close>, \<open>@noble/curves\<close> and \<open>cbor-x\<close> the program calls; every definition that calls one
  takes a \<open>lib\<close> as its first argument. \<open>None\<close> is a thrown error. What the program relies on is
  stated as named laws, each a documented fact of the library: a theorem that needs one has it
  as a hypothesis. \<open>src/crypto/keys.ts\<close>, the thin wrapper over the curves, is modelled here.
\<close>

section \<open>The library functions\<close>

text \<open>
  \<open>aead_encrypt k n a p\<close> is \<open>xchacha20poly1305(k, n, a).encrypt(p)\<close>; \<open>ed_verify\<close> takes signature,
  message, public key; \<open>random_bytes i n\<close> is the \<open>i\<close>-th draw of the process, of \<open>n\<close> bytes.
\<close>

record lib =
  sha256 :: "bytes \<Rightarrow> bytes"
  hmac_sha256 :: "bytes \<Rightarrow> bytes \<Rightarrow> bytes"
  hkdf_sha256 :: "bytes \<Rightarrow> bytes \<Rightarrow> bytes \<Rightarrow> nat \<Rightarrow> bytes"
  aead_encrypt :: "bytes \<Rightarrow> bytes \<Rightarrow> bytes \<Rightarrow> bytes \<Rightarrow> bytes option"
  aead_decrypt :: "bytes \<Rightarrow> bytes \<Rightarrow> bytes \<Rightarrow> bytes \<Rightarrow> bytes option"
  ed_public :: "bytes \<Rightarrow> bytes"
  ed_sign :: "bytes \<Rightarrow> bytes \<Rightarrow> bytes option"
  ed_verify :: "bytes \<Rightarrow> bytes \<Rightarrow> bytes \<Rightarrow> bool option"
  x_public :: "bytes \<Rightarrow> bytes"
  x_shared :: "bytes \<Rightarrow> bytes \<Rightarrow> bytes option"
  cbor_encode :: "jsval \<Rightarrow> bytes"
  cbor_decode :: "bytes \<Rightarrow> jsval option"
  random_bytes :: "nat \<Rightarrow> nat \<Rightarrow> bytes"

section \<open>\<open>src/crypto/keys.ts\<close>\<close>

record X25519KeyPair =
  xPrivateKey :: bytes
  xPublicKey :: bytes

record Ed25519KeyPair =
  edPrivateKey :: bytes
  edPublicKey :: bytes

text \<open>The key generators draw 32 random bytes; \<open>i\<close> is the index of the draw.\<close>

definition generateX25519KeyPair :: "lib \<Rightarrow> nat \<Rightarrow> X25519KeyPair" where
  "generateX25519KeyPair L i =
     (let sk = random_bytes L i 32 in \<lparr>xPrivateKey = sk, xPublicKey = x_public L sk\<rparr>)"

definition generateEd25519KeyPair :: "lib \<Rightarrow> nat \<Rightarrow> Ed25519KeyPair" where
  "generateEd25519KeyPair L i =
     (let sk = random_bytes L i 32 in \<lparr>edPrivateKey = sk, edPublicKey = ed_public L sk\<rparr>)"

definition deriveSharedSecret :: "lib \<Rightarrow> bytes \<Rightarrow> bytes \<Rightarrow> bytes res" where
  "deriveSharedSecret L privateKey peerPublicKey = of_lib (x_shared L privateKey peerPublicKey)"

definition signMessage :: "lib \<Rightarrow> bytes \<Rightarrow> bytes \<Rightarrow> bytes res" where
  "signMessage L message privateKey = of_lib (ed_sign L message privateKey)"

definition verifySignature :: "lib \<Rightarrow> bytes \<Rightarrow> bytes \<Rightarrow> bytes \<Rightarrow> bool res" where
  "verifySignature L signature message publicKey = of_lib (ed_verify L signature message publicKey)"

section \<open>Documented laws of the libraries\<close>

text \<open>The values \<open>cbor-x\<close> gives back unchanged: safe integers, booleans, text, byte strings, arrays, maps.\<close>

fun cbor_plain :: "jsval \<Rightarrow> bool" where
  "cbor_plain (JNum n) = is_safe_integer n"
| "cbor_plain (JArr vs) = list_all cbor_plain vs"
| "cbor_plain (JObj fs) = (distinct (map fst fs) \<and> list_all (\<lambda>(k, v). cbor_plain v) fs)"
| "cbor_plain _ = True"

definition cbor_roundtrips :: "lib \<Rightarrow> bool" where
  "cbor_roundtrips L \<longleftrightarrow> (\<forall>v. cbor_plain v \<longrightarrow> cbor_decode L (cbor_encode L v) = Some v)"

text \<open>
  The size of an encoded fragment tuple: CBOR spends at most nine bytes on the head of an item whose
  length or value is below 2^32 (one of the initial byte, up to four of the length, three of a tag).
\<close>

definition cbor_compact :: "lib \<Rightarrow> bool" where
  "cbor_compact L \<longleftrightarrow> (\<forall>a i j d. length a < 2 ^ 32 \<and> length d < 2 ^ 32 \<and> 0 \<le> i \<and> i < 2 ^ 32 \<and> 0 \<le> j \<and> j < 2 ^ 32
     \<longrightarrow> length (cbor_encode L (JArr [JBytes a, JNum (Num i), JNum (Num j), JBytes d])) \<le> length a + length d + 45)"

definition hash_sizes :: "lib \<Rightarrow> bool" where
  "hash_sizes L \<longleftrightarrow> (\<forall>x. length (sha256 L x) = 32) \<and> (\<forall>k m. length (hmac_sha256 L k m) = 32)
     \<and> (\<forall>ikm salt info n. length (hkdf_sha256 L ikm salt info n) = n)
     \<and> (\<forall>i n. length (random_bytes L i n) = n)"

definition aead_correct :: "lib \<Rightarrow> bool" where
  "aead_correct L \<longleftrightarrow> (\<forall>k n a p. length k = 32 \<and> length n = 24 \<longrightarrow>
     (\<exists>c. aead_encrypt L k n a p = Some c \<and> aead_decrypt L k n a c = Some p \<and> length c = length p + 16))"

text \<open>Decryption recomputes the tag over the ciphertext, so it accepts only what encryption produces.\<close>

definition aead_exact :: "lib \<Rightarrow> bool" where
  "aead_exact L \<longleftrightarrow> (\<forall>k n a c p. aead_decrypt L k n a c = Some p \<longrightarrow> aead_encrypt L k n a p = Some c)"

definition ed25519_correct :: "lib \<Rightarrow> bool" where
  "ed25519_correct L \<longleftrightarrow> (\<forall>m sk. length sk = 32 \<longrightarrow> length (ed_public L sk) = 32 \<and>
     (\<exists>s. ed_sign L m sk = Some s \<and> length s = 64 \<and> ed_verify L s m (ed_public L sk) = Some True))"

definition x25519_commutes :: "lib \<Rightarrow> bool" where
  "x25519_commutes L \<longleftrightarrow> (\<forall>a b. length a = 32 \<and> length b = 32 \<longrightarrow>
     length (x_public L a) = 32 \<and>
     (\<exists>s. x_shared L a (x_public L b) = Some s \<and> x_shared L b (x_public L a) = Some s))"

lemma cbor_roundtripsD: "cbor_roundtrips L \<Longrightarrow> cbor_plain v \<Longrightarrow> cbor_decode L (cbor_encode L v) = Some v"
  by (simp add: cbor_roundtrips_def)

lemma aead_correctE:
  assumes "aead_correct L" "length k = 32" "length n = 24"
  obtains c where "aead_encrypt L k n a p = Some c" "aead_decrypt L k n a c = Some p"
    "length c = length p + 16"
  using assms unfolding aead_correct_def by blast

lemma ed25519_correctE:
  assumes "ed25519_correct L" "length sk = 32"
  obtains s where "ed_sign L m sk = Some s" "length s = 64" "ed_verify L s m (ed_public L sk) = Some True"
    "length (ed_public L sk) = 32"
  using assms unfolding ed25519_correct_def by blast

lemma x25519_commutesE:
  assumes "x25519_commutes L" "length a = 32" "length b = 32"
  obtains s where "x_shared L a (x_public L b) = Some s" "x_shared L b (x_public L a) = Some s"
  using assms unfolding x25519_commutes_def by blast

lemma hash_sizesD:
  assumes "hash_sizes L"
  shows "length (sha256 L x) = 32" "length (hmac_sha256 L k m) = 32"
    "length (hkdf_sha256 L ikm salt info n) = n" "length (random_bytes L i n) = n"
  using assms by (simp_all add: hash_sizes_def)

end
