(* ===== verification/RefLib.thy ===== *)
theory RefLib
  imports Lib
begin

text \<open>
  A concrete \<open>lib\<close> that satisfies every law of \<open>Lib\<close>, used only by the witnesses to show that the
  laws hold together. It models no code and is not secure: the digest sums bytes, the signature
  is a checksum under the key, the shared secret adds the keys. Its codec is a length-prefixed
  encoding of every value the decoders can meet.
\<close>

section \<open>The codec\<close>

fun leb :: "nat \<Rightarrow> bytes" where
  "leb n = (if n < 128 then [word_of_nat n] else word_of_nat (128 + n mod 128) # leb (n div 128))"

declare leb.simps [simp del]

fun unleb :: "bytes \<Rightarrow> (nat \<times> bytes) option" where
  "unleb [] = None"
| "unleb (b # bs) =
     (if unat b < 128 then Some (unat b, bs)
      else case unleb bs of None \<Rightarrow> None | Some (m, r) \<Rightarrow> Some (128 * m + (unat b - 128), r))"

lemma unleb_leb [simp]: "unleb (leb n @ r) = Some (n, r)"
proof (induction n rule: leb.induct)
  case (1 n)
  have small: "unat (word_of_nat k :: byte) = k" if "k < 256" for k
    using that by (simp add: unat_of_nat)
  show ?case
  proof (cases "n < 128")
    case True
    then show ?thesis by (simp add: leb.simps [of n] small)
  next
    case False
    have "unat (word_of_nat (128 + n mod 128) :: byte) = 128 + n mod 128"
      by (rule small) (simp add: mod_less_divisor [THEN order_less_le_trans])
    with False 1 show ?thesis by (simp add: leb.simps [of n])
  qed
qed

definition zigzag :: "int \<Rightarrow> nat" where
  "zigzag i = (if 0 \<le> i then 2 * nat i else 2 * nat (- i) - 1)"

definition unzigzag :: "nat \<Rightarrow> int" where
  "unzigzag n = (if even n then int (n div 2) else - int ((n + 1) div 2))"

lemma unzigzag_zigzag [simp]: "unzigzag (zigzag i) = i"
  by (auto simp: zigzag_def unzigzag_def)

fun enc_num :: "jsnum \<Rightarrow> bytes" where
  "enc_num (Num i) = 0 # leb (zigzag i)"
| "enc_num (Frac i) = 1 # leb (zigzag i)"
| "enc_num NaN = [2]"
| "enc_num PosInf = [3]"
| "enc_num NegInf = [4]"

definition dec_num :: "bytes \<Rightarrow> (jsnum \<times> bytes) option" where
  "dec_num bs = (case bs of [] \<Rightarrow> None | t # r \<Rightarrow>
     (if t = 2 then Some (NaN, r) else if t = 3 then Some (PosInf, r) else if t = 4 then Some (NegInf, r)
      else case unleb r of None \<Rightarrow> None
        | Some (n, r') \<Rightarrow> Some ((if t = 0 then Num else Frac) (unzigzag n), r')))"

lemma dec_enc_num [simp]: "dec_num (enc_num n @ r) = Some (n, r)"
  by (cases n) (simp_all add: dec_num_def)

definition enc_bytes :: "bytes \<Rightarrow> bytes" where
  "enc_bytes bs = leb (length bs) @ bs"

definition dec_bytes :: "bytes \<Rightarrow> (bytes \<times> bytes) option" where
  "dec_bytes bs = (case unleb bs of None \<Rightarrow> None | Some (n, r) \<Rightarrow> Some (take n r, drop n r))"

lemma dec_enc_bytes [simp]: "dec_bytes (enc_bytes bs @ r) = Some (bs, r)"
  by (simp add: dec_bytes_def enc_bytes_def)

fun enc_val :: "jsval \<Rightarrow> bytes" where
  "enc_val JUndef = [0]"
| "enc_val JNull = [1]"
| "enc_val (JBool b) = [2, if b then 1 else 0]"
| "enc_val (JNum n) = 3 # enc_num n"
| "enc_val (JStr s) = 4 # enc_bytes (text_encode s)"
| "enc_val (JBytes bs) = 5 # enc_bytes bs"
| "enc_val (JArr vs) = 6 # leb (length vs) @ concat (map enc_val vs)"
| "enc_val (JObj fs) = 7 # leb (length fs) @ concat (map (\<lambda>(k, v). enc_bytes (text_encode k) @ enc_val v) fs)"

text \<open>The decoders of an array and of a map repeat the value decoder a counted number of times.\<close>

fun repeat_dec :: "(bytes \<Rightarrow> ('a \<times> bytes) option) \<Rightarrow> nat \<Rightarrow> bytes \<Rightarrow> ('a list \<times> bytes) option" where
  "repeat_dec d 0 bs = Some ([], bs)"
| "repeat_dec d (Suc n) bs = (case d bs of None \<Rightarrow> None
     | Some (x, r) \<Rightarrow> (case repeat_dec d n r of None \<Rightarrow> None | Some (xs, r') \<Rightarrow> Some (x # xs, r')))"

fun dec_val :: "nat \<Rightarrow> bytes \<Rightarrow> (jsval \<times> bytes) option" where
  "dec_val 0 _ = None"
| "dec_val (Suc fuel) [] = None"
| "dec_val (Suc fuel) (t # bs) =
     (if t = 0 then Some (JUndef, bs)
      else if t = 1 then Some (JNull, bs)
      else if t = 2 then (case bs of [] \<Rightarrow> None | b # r \<Rightarrow> Some (JBool (b = 1), r))
      else if t = 3 then (case dec_num bs of None \<Rightarrow> None | Some (n, r) \<Rightarrow> Some (JNum n, r))
      else if t = 4 then (case dec_bytes bs of None \<Rightarrow> None | Some (s, r) \<Rightarrow> Some (JStr (text_decode s), r))
      else if t = 5 then (case dec_bytes bs of None \<Rightarrow> None | Some (s, r) \<Rightarrow> Some (JBytes s, r))
      else if t = 6 then (case unleb bs of None \<Rightarrow> None | Some (n, r) \<Rightarrow>
        (case repeat_dec (dec_val fuel) n r of None \<Rightarrow> None | Some (vs, r') \<Rightarrow> Some (JArr vs, r')))
      else if t = 7 then (case unleb bs of None \<Rightarrow> None | Some (n, r) \<Rightarrow>
        (case repeat_dec (\<lambda>bs. case dec_bytes bs of None \<Rightarrow> None | Some (k, r) \<Rightarrow>
            (case dec_val fuel r of None \<Rightarrow> None | Some (v, r') \<Rightarrow> Some ((text_decode k, v), r'))) n r
         of None \<Rightarrow> None | Some (fs, r') \<Rightarrow> Some (JObj fs, r')))
      else None)"

lemma repeat_dec_concat:
  assumes "\<And>x r. x \<in> set xs \<Longrightarrow> d (e x @ r) = Some (x, r)"
  shows "repeat_dec d (length xs) (concat (map e xs) @ r) = Some (xs, r)"
  using assms by (induction xs arbitrary: r) auto

lemma concat_part_length: "x \<in> set xs \<Longrightarrow> length (e x) \<le> length (concat (map e xs))"
  by (induction xs) auto

lemma dec_val_leaves [simp]:
  "dec_val (Suc f) (0 # r) = Some (JUndef, r)"
  "dec_val (Suc f) (1 # r) = Some (JNull, r)"
  "dec_val (Suc f) (2 # b # r) = Some (JBool (b = 1), r)"
  "dec_val (Suc f) (3 # enc_num n @ r) = Some (JNum n, r)"
  "dec_val (Suc f) (4 # enc_bytes (text_encode s) @ r) = Some (JStr s, r)"
  "dec_val (Suc f) (5 # enc_bytes bs @ r) = Some (JBytes bs, r)"
  by simp_all

declare dec_val.simps (3) [simp del]

lemma dec_enc_val: "length (enc_val v) \<le> fuel \<Longrightarrow> dec_val fuel (enc_val v @ r) = Some (v, r)"
proof (induction v arbitrary: fuel r)
  case (JArr vs)
  then obtain f where f: "fuel = Suc f" by (cases fuel) auto
  have "dec_val f (enc_val x @ r) = Some (x, r)" if "x \<in> set vs" for x r
    using JArr.IH [OF that] JArr.prems concat_part_length [OF that, of enc_val] f by simp
  from repeat_dec_concat [of vs "dec_val f" enc_val, OF this] f show ?case
    by (simp add: dec_val.simps (3))
next
  case (JObj fs)
  then obtain f where f: "fuel = Suc f" by (cases fuel) auto
  let ?e = "\<lambda>(k, v). enc_bytes (text_encode k) @ enc_val v"
  have "dec_val f (enc_val v @ r) = Some (v, r)" if "(k, v) \<in> set fs" for k v r
    using JObj.IH [of "(k, v)" v f r] that JObj.prems concat_part_length [OF that, of ?e] f by simp
  then have "repeat_dec (\<lambda>bs. case dec_bytes bs of None \<Rightarrow> None | Some (k, r) \<Rightarrow>
      (case dec_val f r of None \<Rightarrow> None | Some (v, r') \<Rightarrow> Some ((text_decode k, v), r')))
      (length fs) (concat (map ?e fs) @ r) = Some (fs, r)"
    by (intro repeat_dec_concat) (auto simp: append.assoc)
  with f show ?case by (simp add: dec_val.simps (3))
qed (case_tac fuel; simp)+

section \<open>The reference library\<close>

definition ref_sum :: "bytes \<Rightarrow> byte" where
  "ref_sum bs = foldr (\<lambda>b s. b + 3 * s) bs 7"

definition ref_tag :: "bytes \<Rightarrow> bytes" where
  "ref_tag bs = ref_sum bs # replicate 15 0"

definition ref_encrypt :: "bytes \<Rightarrow> bytes \<Rightarrow> bytes \<Rightarrow> bytes \<Rightarrow> bytes option" where
  "ref_encrypt k n a p =
     (if length k = 32 \<and> length n = 24 then Some (p @ ref_tag (k @ n @ a @ p)) else None)"

definition ref_decrypt :: "bytes \<Rightarrow> bytes \<Rightarrow> bytes \<Rightarrow> bytes \<Rightarrow> bytes option" where
  "ref_decrypt k n a c =
     (let p = take (length c - 16) c
      in if ref_encrypt k n a p = Some c then Some p else None)"

definition ref_sign :: "bytes \<Rightarrow> bytes \<Rightarrow> bytes option" where
  "ref_sign m sk = (if length sk = 32 then Some (sk @ ref_sum (sk @ m) # replicate 31 0) else None)"

definition ref_verify :: "bytes \<Rightarrow> bytes \<Rightarrow> bytes \<Rightarrow> bool option" where
  "ref_verify s m pk =
     (if length pk = 32 \<and> length s = 64 then Some (ref_sign m pk = Some s) else None)"

definition ref_lib :: lib where
  "ref_lib = \<lparr>
     sha256 = (\<lambda>x. take 31 (x @ replicate 31 0) @ [ref_sum x]),
     hmac_sha256 = (\<lambda>k m. take 31 (k @ replicate 31 0) @ [ref_sum (k @ m)]),
     hkdf_sha256 = (\<lambda>ikm salt info n. map (\<lambda>i. ref_sum (word_of_nat i # ikm @ salt @ info)) [0..<n]),
     aead_encrypt = ref_encrypt,
     aead_decrypt = ref_decrypt,
     ed_public = (\<lambda>sk. take 32 sk),
     ed_sign = ref_sign,
     ed_verify = ref_verify,
     x_public = (\<lambda>sk. take 32 sk),
     x_shared = (\<lambda>a b. if length a = 32 \<and> length b = 32 then Some (map2 (+) a b) else None),
     cbor_encode = enc_val,
     cbor_decode = (\<lambda>bs. map_option fst (dec_val (length bs) bs)),
     random_bytes = (\<lambda>i n. map (\<lambda>j. word_of_nat (i + j)) [0..<n])\<rparr>"

lemma ref_cbor [simp]: "cbor_roundtrips ref_lib"
  using dec_enc_val [of _ _ "[]"] by (simp add: cbor_roundtrips_def ref_lib_def)

lemma length_leb: "n < 128 ^ k \<Longrightarrow> 0 < k \<Longrightarrow> length (leb n) \<le> k"
proof (induction k arbitrary: n)
  case (Suc k)
  show ?case
  proof (cases "n < 128")
    case False
    with Suc.prems have "0 < k" by (cases k) auto
    moreover have "n div 128 < 128 ^ k" using Suc.prems(1) by (simp add: less_mult_imp_div_less mult.commute)
    ultimately show ?thesis using Suc.IH False by (simp add: leb.simps [of n])
  qed (simp add: leb.simps [of n])
qed simp

lemma ref_cbor_compact [simp]: "cbor_compact ref_lib"
  unfolding cbor_compact_def
proof (intro allI impI)
  fix a d :: bytes and i j :: int
  assume *: "length a < 2 ^ 32 \<and> length d < 2 ^ 32 \<and> 0 \<le> i \<and> i < 2 ^ 32 \<and> 0 \<le> j \<and> j < 2 ^ 32"
  have leb: "length (leb n) \<le> 5" if "n < 2 ^ 34" for n using length_leb [of n 5] that by simp
  have zz: "zigzag i < 2 ^ 34" if "0 \<le> i" "i < 2 ^ 32" for i
    using that by (simp add: zigzag_def nat_less_iff)
  have "length (leb (length a)) \<le> 5" "length (leb (length d)) \<le> 5"
    "length (leb (zigzag i)) \<le> 5" "length (leb (zigzag j)) \<le> 5"
    using * by (auto intro!: leb zz)
  moreover have "length (leb (Suc (Suc (Suc (Suc 0))))) = 1" by (simp add: leb.simps)
  ultimately show "length (cbor_encode ref_lib (JArr [JBytes a, JNum (Num i), JNum (Num j), JBytes d]))
      \<le> length a + length d + 45"
    by (simp add: ref_lib_def enc_bytes_def)
qed

lemma ref_hash_sizes [simp]: "hash_sizes ref_lib"
  by (auto simp: hash_sizes_def ref_lib_def min_def)

lemma ref_aead_correct [simp]: "aead_correct ref_lib"
  by (simp add: aead_correct_def ref_lib_def ref_encrypt_def ref_decrypt_def ref_tag_def Let_def)

lemma ref_aead_exact [simp]: "aead_exact ref_lib"
  by (simp add: aead_exact_def ref_lib_def ref_decrypt_def Let_def)

lemma ref_ed25519_correct [simp]: "ed25519_correct ref_lib"
  by (simp add: ed25519_correct_def ref_lib_def ref_sign_def ref_verify_def)

lemma map2_add_commute: "map2 (+) a b = map2 (+) b (a :: bytes)"
  by (induction a b rule: list_induct2') (simp_all add: add.commute)

lemma ref_x25519_commutes [simp]: "x25519_commutes ref_lib"
  by (simp add: x25519_commutes_def ref_lib_def) (simp add: map2_add_commute)

end
