(* ===== verification/Handshake.thy ===== *)
theory Handshake
  imports RefLib
begin

text \<open>
  \<open>src/crypto/handshake.ts\<close>: the Noise IK handshake. The symmetric state is threaded through the
  four message functions; a library failure (a low-order point, a bad tag) is an error value.
\<close>

section \<open>The symmetric state\<close>

record SymmetricState =
  ss_h :: bytes
  ss_ck :: bytes
  ss_k :: "bytes option"
  ss_n :: int

definition mixHash :: "lib \<Rightarrow> bytes \<Rightarrow> SymmetricState \<Rightarrow> SymmetricState" where
  "mixHash L data s = s\<lparr>ss_h := sha256 L (ss_h s @ data)\<rparr>"

definition mixKey :: "lib \<Rightarrow> bytes \<Rightarrow> SymmetricState \<Rightarrow> SymmetricState" where
  "mixKey L inputKeyMaterial s =
     (let output = hkdf_sha256 L inputKeyMaterial (ss_ck s) [] 64
      in s\<lparr>ss_ck := slice 0 32 output, ss_k := Some (slice 32 64 output), ss_n := 0\<rparr>)"

definition encryptAndHash :: "lib \<Rightarrow> bytes \<Rightarrow> SymmetricState \<Rightarrow> (bytes \<times> SymmetricState) res" where
  "encryptAndHash L plaintext s = (case ss_k s of
      None \<Rightarrow> Inr (plaintext, mixHash L plaintext s)
    | Some k \<Rightarrow>
        rbind (buildNonce (Num (ss_n s))) (\<lambda>nonce.
        rbind (of_lib (aead_encrypt L k nonce (ss_h s) plaintext)) (\<lambda>ciphertext.
          Inr (ciphertext, (mixHash L ciphertext s)\<lparr>ss_n := ss_n s + 1\<rparr>))))"

definition decryptAndHash :: "lib \<Rightarrow> bytes \<Rightarrow> SymmetricState \<Rightarrow> (bytes \<times> SymmetricState) res" where
  "decryptAndHash L ciphertext s = (case ss_k s of
      None \<Rightarrow> Inr (ciphertext, mixHash L ciphertext s)
    | Some k \<Rightarrow>
        rbind (buildNonce (Num (ss_n s))) (\<lambda>nonce.
        rbind (of_lib (aead_decrypt L k nonce (ss_h s) ciphertext)) (\<lambda>plaintext.
          Inr (plaintext, (mixHash L ciphertext s)\<lparr>ss_n := ss_n s + 1\<rparr>))))"

text \<open>The two transport keys and the transcript hash.\<close>

definition split_keys :: "lib \<Rightarrow> SymmetricState \<Rightarrow> bytes \<times> bytes \<times> bytes" where
  "split_keys L s =
     (let output = hkdf_sha256 L [] (ss_ck s) [] 64
      in (slice 0 32 output, slice 32 64 output, ss_h s))"

definition getChainingKey :: "SymmetricState \<Rightarrow> bytes" where
  "getChainingKey s = ss_ck s"

definition PROTOCOL_NAME :: string where
  "PROTOCOL_NAME = ''Noise_IK_25519_XChaChaPoly_SHA256''"

definition initializeState :: "lib \<Rightarrow> bytes \<Rightarrow> SymmetricState" where
  "initializeState L responderStaticPublicKey =
     (let nameBytes = text_encode PROTOCOL_NAME;
          h = (if length nameBytes \<le> 32 then set_at (replicate 32 0) 0 nameBytes
               else sha256 L nameBytes);
          state = \<lparr>ss_h = h, ss_ck = h, ss_k = None, ss_n = 0\<rparr>
      in mixHash L responderStaticPublicKey (mixHash L [] state))"

section \<open>The messages\<close>

record HandshakeMessage1 =
  m1_ephemeralPublicKey :: bytes
  m1_encryptedStaticKey :: bytes
  m1_encryptedPayload :: bytes

record HandshakeMessage2 =
  m2_ephemeralPublicKey :: bytes
  m2_encryptedPayload :: bytes

record HandshakeResult =
  sendKey :: bytes
  receiveKey :: bytes
  handshakeHash :: bytes
  rootKey :: bytes

text \<open>\<open>i\<close> is the index of the random draw that makes the ephemeral key.\<close>

definition initiatorWriteMessage1 ::
    "lib \<Rightarrow> nat \<Rightarrow> X25519KeyPair \<Rightarrow> bytes \<Rightarrow> bytes \<Rightarrow>
     (HandshakeMessage1 \<times> SymmetricState \<times> X25519KeyPair) res" where
  "initiatorWriteMessage1 L i initiatorStaticKeyPair responderStaticPublicKey payload =
     (let state0 = initializeState L responderStaticPublicKey;
          e = generateX25519KeyPair L i;
          state1 = mixHash L (xPublicKey e) state0
      in rbind (deriveSharedSecret L (xPrivateKey e) responderStaticPublicKey) (\<lambda>es.
         rbind (encryptAndHash L (xPublicKey initiatorStaticKeyPair) (mixKey L es state1))
           (\<lambda>(encryptedStaticKey, state2).
         rbind (deriveSharedSecret L (xPrivateKey initiatorStaticKeyPair) responderStaticPublicKey) (\<lambda>ss.
         rbind (encryptAndHash L payload (mixKey L ss state2)) (\<lambda>(encryptedPayload, state3).
           Inr (\<lparr>m1_ephemeralPublicKey = xPublicKey e, m1_encryptedStaticKey = encryptedStaticKey,
                  m1_encryptedPayload = encryptedPayload\<rparr>, state3, e))))))"

definition responderReadMessage1 ::
    "lib \<Rightarrow> X25519KeyPair \<Rightarrow> HandshakeMessage1 \<Rightarrow> (SymmetricState \<times> bytes \<times> bytes) res" where
  "responderReadMessage1 L responderStaticKeyPair message =
     (let state0 = initializeState L (xPublicKey responderStaticKeyPair);
          state1 = mixHash L (m1_ephemeralPublicKey message) state0
      in rbind (deriveSharedSecret L (xPrivateKey responderStaticKeyPair) (m1_ephemeralPublicKey message)) (\<lambda>es.
         rbind (decryptAndHash L (m1_encryptedStaticKey message) (mixKey L es state1))
           (\<lambda>(initiatorStaticPublicKey, state2).
         rbind (deriveSharedSecret L (xPrivateKey responderStaticKeyPair) initiatorStaticPublicKey) (\<lambda>ss.
         rbind (decryptAndHash L (m1_encryptedPayload message) (mixKey L ss state2)) (\<lambda>(payload, state3).
           Inr (state3, initiatorStaticPublicKey, payload))))))"

definition responderWriteMessage2 ::
    "lib \<Rightarrow> nat \<Rightarrow> SymmetricState \<Rightarrow> bytes \<Rightarrow> bytes \<Rightarrow> bytes \<Rightarrow>
     (HandshakeMessage2 \<times> HandshakeResult \<times> X25519KeyPair) res" where
  "responderWriteMessage2 L i state initiatorEphemeralPublicKey initiatorStaticPublicKey payload =
     (let e = generateX25519KeyPair L i;
          state1 = mixHash L (xPublicKey e) state
      in rbind (deriveSharedSecret L (xPrivateKey e) initiatorEphemeralPublicKey) (\<lambda>ee.
         rbind (deriveSharedSecret L (xPrivateKey e) initiatorStaticPublicKey) (\<lambda>se.
         rbind (encryptAndHash L payload (mixKey L se (mixKey L ee state1))) (\<lambda>(encryptedPayload, state2).
           (case split_keys L state2 of (k1, k2, hash) \<Rightarrow>
             Inr (\<lparr>m2_ephemeralPublicKey = xPublicKey e, m2_encryptedPayload = encryptedPayload\<rparr>,
                  \<lparr>sendKey = k2, receiveKey = k1, handshakeHash = hash, rootKey = getChainingKey state2\<rparr>,
                  e))))))"

definition initiatorReadMessage2 ::
    "lib \<Rightarrow> SymmetricState \<Rightarrow> X25519KeyPair \<Rightarrow> X25519KeyPair \<Rightarrow> HandshakeMessage2 \<Rightarrow> HandshakeResult res" where
  "initiatorReadMessage2 L state initiatorStaticKeyPair initiatorEphemeral message =
     (let state1 = mixHash L (m2_ephemeralPublicKey message) state
      in rbind (deriveSharedSecret L (xPrivateKey initiatorEphemeral) (m2_ephemeralPublicKey message)) (\<lambda>ee.
         rbind (deriveSharedSecret L (xPrivateKey initiatorStaticKeyPair) (m2_ephemeralPublicKey message)) (\<lambda>se.
         rbind (decryptAndHash L (m2_encryptedPayload message) (mixKey L se (mixKey L ee state1))) (\<lambda>(_, state2).
           (case split_keys L state2 of (k1, k2, hash) \<Rightarrow>
             Inr \<lparr>sendKey = k1, receiveKey = k2, handshakeHash = hash, rootKey = getChainingKey state2\<rparr>)))))"

section \<open>Encryption and decryption agree\<close>

text \<open>
  The symmetric state with a key is in lock step: what one side encrypts the other decrypts from
  the same state, and both reach the same next state.
\<close>

definition keyed :: "SymmetricState \<Rightarrow> bool" where
  "keyed s \<longleftrightarrow> (\<exists>k. ss_k s = Some k \<and> length k = 32)"

lemma keyed_mixKey [simp]: "hash_sizes L \<Longrightarrow> keyed (mixKey L ikm s)"
  by (simp add: keyed_def mixKey_def slice_def hash_sizesD Let_def)

lemma encryptAndHash_ok:
  assumes "aead_correct L" "keyed s"
  obtains c s' where "encryptAndHash L p s = Inr (c, s')" "decryptAndHash L c s = Inr (p, s')"
proof -
  obtain k where k: "ss_k s = Some k" "length k = 32" using assms(2) by (auto simp: keyed_def)
  let ?nonce = "replicate 16 0 @ le_bytes 8 (word_of_int (ss_n s) :: 64 word)"
  have n: "length ?nonce = 24" by simp
  obtain c where "aead_encrypt L k ?nonce (ss_h s) p = Some c" "aead_decrypt L k ?nonce (ss_h s) c = Some p"
    using aead_correctE [OF assms(1) k(2) n] by blast
  with k show thesis using that by (simp add: encryptAndHash_def decryptAndHash_def)
qed

lemma decryptAndHash_exact:
  assumes "aead_exact L" "decryptAndHash L c s = Inr (p, s')"
  shows "encryptAndHash L p s = Inr (c, s')"
  using assms by (auto simp: decryptAndHash_def encryptAndHash_def aead_exact_def res_simps split: option.splits)

lemma deriveSharedSecret_agree:
  assumes "x25519_commutes L" "length a = 32" "length b = 32"
  obtains s where "deriveSharedSecret L a (x_public L b) = Inr s" "deriveSharedSecret L b (x_public L a) = Inr s"
  using x25519_commutesE [OF assms] by (metis deriveSharedSecret_def of_lib_simps(2))

definition honest_xkey :: "lib \<Rightarrow> X25519KeyPair \<Rightarrow> bool" where
  "honest_xkey L kp \<longleftrightarrow> length (xPrivateKey kp) = 32 \<and> xPublicKey kp = x_public L (xPrivateKey kp)"

lemma honest_generate [simp]: "hash_sizes L \<Longrightarrow> honest_xkey L (generateX25519KeyPair L i)"
  by (simp add: honest_xkey_def generateX25519KeyPair_def hash_sizesD Let_def)

lemma honest_agree:
  assumes "x25519_commutes L" "honest_xkey L a" "honest_xkey L b"
  obtains s where "deriveSharedSecret L (xPrivateKey a) (xPublicKey b) = Inr s"
    "deriveSharedSecret L (xPrivateKey b) (xPublicKey a) = Inr s"
  using assms deriveSharedSecret_agree unfolding honest_xkey_def by metis

section \<open>Message one and message two\<close>

lemma message1_agreement:
  assumes laws: "aead_correct L" "x25519_commutes L" "hash_sizes L"
    and keys: "honest_xkey L ikp" "honest_xkey L rkp"
  obtains m st where
    "initiatorWriteMessage1 L i ikp (xPublicKey rkp) payload = Inr (m, st, generateX25519KeyPair L i)"
    "responderReadMessage1 L rkp m = Inr (st, xPublicKey ikp, payload)"
    "m1_ephemeralPublicKey m = xPublicKey (generateX25519KeyPair L i)"
proof -
  let ?e = "generateX25519KeyPair L i"
  let ?s1 = "mixHash L (xPublicKey ?e) (initializeState L (xPublicKey rkp))"
  have e: "honest_xkey L ?e" using laws(3) by simp
  obtain es where es: "deriveSharedSecret L (xPrivateKey ?e) (xPublicKey rkp) = Inr es"
      "deriveSharedSecret L (xPrivateKey rkp) (xPublicKey ?e) = Inr es"
    using honest_agree [OF laws(2) e keys(2)] .
  obtain ss where ss: "deriveSharedSecret L (xPrivateKey ikp) (xPublicKey rkp) = Inr ss"
      "deriveSharedSecret L (xPrivateKey rkp) (xPublicKey ikp) = Inr ss"
    using honest_agree [OF laws(2) keys] .
  obtain c1 s2 where c1: "encryptAndHash L (xPublicKey ikp) (mixKey L es ?s1) = Inr (c1, s2)"
      "decryptAndHash L c1 (mixKey L es ?s1) = Inr (xPublicKey ikp, s2)"
    using encryptAndHash_ok [OF laws(1) keyed_mixKey [OF laws(3)]] .
  obtain c2 s3 where c2: "encryptAndHash L payload (mixKey L ss s2) = Inr (c2, s3)"
      "decryptAndHash L c2 (mixKey L ss s2) = Inr (payload, s3)"
    using encryptAndHash_ok [OF laws(1) keyed_mixKey [OF laws(3)]] .
  show thesis
    by (rule that [of "\<lparr>m1_ephemeralPublicKey = xPublicKey ?e, m1_encryptedStaticKey = c1, m1_encryptedPayload = c2\<rparr>" s3])
      (simp_all add: initiatorWriteMessage1_def responderReadMessage1_def Let_def es ss c1 c2)
qed

lemma message2_agreement:
  assumes laws: "aead_correct L" "x25519_commutes L" "hash_sizes L"
    and keys: "honest_xkey L ikp" "honest_xkey L ie"
  obtains m rr ir where
    "responderWriteMessage2 L j st (xPublicKey ie) (xPublicKey ikp) payload = Inr (m, rr, generateX25519KeyPair L j)"
    "initiatorReadMessage2 L st ikp ie m = Inr ir"
    "sendKey ir = receiveKey rr" "receiveKey ir = sendKey rr"
    "handshakeHash ir = handshakeHash rr" "rootKey ir = rootKey rr"
proof -
  let ?e = "generateX25519KeyPair L j"
  let ?s1 = "mixHash L (xPublicKey ?e) st"
  have e: "honest_xkey L ?e" using laws(3) by simp
  obtain ee where ee: "deriveSharedSecret L (xPrivateKey ?e) (xPublicKey ie) = Inr ee"
      "deriveSharedSecret L (xPrivateKey ie) (xPublicKey ?e) = Inr ee"
    using honest_agree [OF laws(2) e keys(2)] .
  obtain se where se: "deriveSharedSecret L (xPrivateKey ?e) (xPublicKey ikp) = Inr se"
      "deriveSharedSecret L (xPrivateKey ikp) (xPublicKey ?e) = Inr se"
    using honest_agree [OF laws(2) e keys(1)] .
  obtain c s2 where c: "encryptAndHash L payload (mixKey L se (mixKey L ee ?s1)) = Inr (c, s2)"
      "decryptAndHash L c (mixKey L se (mixKey L ee ?s1)) = Inr (payload, s2)"
    using encryptAndHash_ok [OF laws(1) keyed_mixKey [OF laws(3)]] .
  obtain k1 k2 h where sp: "split_keys L s2 = (k1, k2, h)" by (cases "split_keys L s2") auto
  show thesis
    by (rule that [of "\<lparr>m2_ephemeralPublicKey = xPublicKey ?e, m2_encryptedPayload = c\<rparr>"
          "\<lparr>sendKey = k2, receiveKey = k1, handshakeHash = h, rootKey = getChainingKey s2\<rparr>"
          "\<lparr>sendKey = k1, receiveKey = k2, handshakeHash = h, rootKey = getChainingKey s2\<rparr>"])
      (simp_all add: responderWriteMessage2_def initiatorReadMessage2_def Let_def ee se c sp)
qed

text \<open>The two messages composed: what both sides hold after an undisturbed handshake.\<close>

lemma handshake_run:
  assumes laws: "aead_correct L" "x25519_commutes L" "hash_sizes L"
    and keys: "honest_xkey L ikp" "honest_xkey L rkp"
  obtains m1 st e rst m2 rr kp ir where
    "initiatorWriteMessage1 L i ikp (xPublicKey rkp) p1 = Inr (m1, st, e)"
    "responderReadMessage1 L rkp m1 = Inr (rst, xPublicKey ikp, p1)"
    "responderWriteMessage2 L j rst (m1_ephemeralPublicKey m1) (xPublicKey ikp) p2 = Inr (m2, rr, kp)"
    "initiatorReadMessage2 L st ikp e m2 = Inr ir"
    "sendKey ir = receiveKey rr" "receiveKey ir = sendKey rr"
    "handshakeHash ir = handshakeHash rr" "rootKey ir = rootKey rr"
proof -
  obtain m1 st where m1: "initiatorWriteMessage1 L i ikp (xPublicKey rkp) p1 = Inr (m1, st, generateX25519KeyPair L i)"
      "responderReadMessage1 L rkp m1 = Inr (st, xPublicKey ikp, p1)"
      "m1_ephemeralPublicKey m1 = xPublicKey (generateX25519KeyPair L i)"
    using message1_agreement [OF laws keys] .
  show thesis
    using message2_agreement [OF laws keys(1) honest_generate [OF laws(3)], of j st i p2] m1 that
    by metis
qed

definition initiator_key :: X25519KeyPair where
  "initiator_key = \<lparr>xPrivateKey = replicate 32 1, xPublicKey = replicate 32 1\<rparr>"

definition responder_key :: X25519KeyPair where
  "responder_key = \<lparr>xPrivateKey = replicate 32 2, xPublicKey = replicate 32 2\<rparr>"

lemma honest_test_keys [simp]: "honest_xkey ref_lib initiator_key" "honest_xkey ref_lib responder_key"
  by (simp_all add: honest_xkey_def initiator_key_def responder_key_def ref_lib_def)

section \<open>Properties\<close>

text \<open>C7: An undisturbed Noise IK handshake completes on both sides. The responder learns the
  initiator's static key and the first payload, and both sides end with the same transcript hash, the
  same root key and the two transport keys assigned to opposite directions.\<close>

theorem handshake_agreement:
  assumes "aead_correct L" "x25519_commutes L" "hash_sizes L"
    and "honest_xkey L ikp" "honest_xkey L rkp"
  shows "\<exists>m1 st e rst m2 rr kp ir.
    initiatorWriteMessage1 L i ikp (xPublicKey rkp) p1 = Inr (m1, st, e) \<and>
    responderReadMessage1 L rkp m1 = Inr (rst, xPublicKey ikp, p1) \<and>
    responderWriteMessage2 L j rst (m1_ephemeralPublicKey m1) (xPublicKey ikp) p2 = Inr (m2, rr, kp) \<and>
    initiatorReadMessage2 L st ikp e m2 = Inr ir \<and>
    sendKey ir = receiveKey rr \<and> receiveKey ir = sendKey rr \<and>
    handshakeHash ir = handshakeHash rr \<and> rootKey ir = rootKey rr"
  using handshake_run [OF assms] by metis

theorem handshake_agreement_witness:
  "\<exists>m1 st e rst m2 rr kp ir.
    initiatorWriteMessage1 ref_lib 0 initiator_key (xPublicKey responder_key) [1, 2] = Inr (m1, st, e) \<and>
    responderReadMessage1 ref_lib responder_key m1 = Inr (rst, xPublicKey initiator_key, [1, 2]) \<and>
    responderWriteMessage2 ref_lib 1 rst (m1_ephemeralPublicKey m1) (xPublicKey initiator_key) [3] = Inr (m2, rr, kp) \<and>
    initiatorReadMessage2 ref_lib st initiator_key e m2 = Inr ir \<and>
    sendKey ir = receiveKey rr \<and> receiveKey ir = sendKey rr \<and>
    handshakeHash ir = handshakeHash rr \<and> rootKey ir = rootKey rr"
  by (rule handshake_agreement) simp_all

text \<open>Message one is not malleable. Two messages that the responder accepts with the same
  ephemeral key, yielding the same initiator static key and the same payload, are the same message: no
  bit of the encrypted static key or of the encrypted payload can be changed without being noticed.\<close>

theorem message1_unforgeable:
  assumes "aead_exact L"
    and "responderReadMessage1 L rkp m = Inr (st, is, payload)"
    and "responderReadMessage1 L rkp m' = Inr (st', is, payload)"
    and "m1_ephemeralPublicKey m = m1_ephemeralPublicKey m'"
  shows "m = m' \<and> st = st'"
proof -
  from assms(2) obtain es s2 ss where 1:
      "deriveSharedSecret L (xPrivateKey rkp) (m1_ephemeralPublicKey m) = Inr es"
      "decryptAndHash L (m1_encryptedStaticKey m)
        (mixKey L es (mixHash L (m1_ephemeralPublicKey m) (initializeState L (xPublicKey rkp)))) = Inr (is, s2)"
      "deriveSharedSecret L (xPrivateKey rkp) is = Inr ss"
      "decryptAndHash L (m1_encryptedPayload m) (mixKey L ss s2) = Inr (payload, st)"
    by (auto simp: responderReadMessage1_def Let_def res_simps)
  from assms(3) obtain es' s2' ss' where 2:
      "deriveSharedSecret L (xPrivateKey rkp) (m1_ephemeralPublicKey m') = Inr es'"
      "decryptAndHash L (m1_encryptedStaticKey m')
        (mixKey L es' (mixHash L (m1_ephemeralPublicKey m') (initializeState L (xPublicKey rkp)))) = Inr (is, s2')"
      "deriveSharedSecret L (xPrivateKey rkp) is = Inr ss'"
      "decryptAndHash L (m1_encryptedPayload m') (mixKey L ss' s2') = Inr (payload, st')"
    by (auto simp: responderReadMessage1_def Let_def res_simps)
  have es: "es = es'" "ss = ss'" using 1 2 assms(4) by auto
  have static: "m1_encryptedStaticKey m = m1_encryptedStaticKey m'" "s2 = s2'"
    using decryptAndHash_exact [OF assms(1) 1(2)] decryptAndHash_exact [OF assms(1) 2(2)] es assms(4)
    by simp_all
  have "m1_encryptedPayload m = m1_encryptedPayload m'" "st = st'"
    using decryptAndHash_exact [OF assms(1) 1(4)] decryptAndHash_exact [OF assms(1) 2(4)] es static
    by simp_all
  with static assms(4) show ?thesis by simp
qed

text \<open>The message an initiator really sends meets the hypotheses.\<close>

theorem message1_unforgeable_witness:
  "\<exists>m st. responderReadMessage1 ref_lib responder_key m = Inr (st, xPublicKey initiator_key, [1, 2]) \<and>
     (\<forall>m' st'. \<not> (responderReadMessage1 ref_lib responder_key m' = Inr (st', xPublicKey initiator_key, [1, 2]) \<and>
        m1_ephemeralPublicKey m = m1_ephemeralPublicKey m' \<and> m \<noteq> m'))"
proof -
  obtain m st where "responderReadMessage1 ref_lib responder_key m = Inr (st, xPublicKey initiator_key, [1, 2])"
    using message1_agreement [OF ref_aead_correct ref_x25519_commutes ref_hash_sizes honest_test_keys, of 0 "[1, 2]"]
    by metis
  then show ?thesis using message1_unforgeable [OF ref_aead_exact] by blast
qed

end
