(* ===== verification/Identity.thy ===== *)
theory Identity
  imports Handshake
begin

text \<open>
  \<open>src/identity/identity.ts\<close>, \<open>src/identity/seal.ts\<close> and \<open>src/crypto/session.ts\<close>: fingerprints, signed
  device statements, the sealed sender, and the gate that turns a completed handshake into an
  authenticated session.
\<close>

section \<open>Identities and fingerprints\<close>

record Identity =
  publicKey :: bytes
  privateKey :: bytes

definition createIdentity :: "lib \<Rightarrow> nat \<Rightarrow> Identity" where
  "createIdentity L i =
     (let keyPair = generateEd25519KeyPair L i
      in \<lparr>publicKey = edPublicKey keyPair, privateKey = edPrivateKey keyPair\<rparr>)"

text \<open>\<open>hex.match(/.{1,4}/g).join(' ')\<close>: groups of four characters separated by blanks.\<close>

fun groups4 :: "string \<Rightarrow> string list" where
  "groups4 [] = []"
| "groups4 (a # b # c # d # s) = [a, b, c, d] # groups4 s"
| "groups4 s = [s]"

fun join :: "string \<Rightarrow> string list \<Rightarrow> string" where
  "join sep [] = []"
| "join sep [s] = s"
| "join sep (s # t # ss) = s @ sep @ join sep (t # ss)"

definition computeFingerprint :: "lib \<Rightarrow> bytes \<Rightarrow> string" where
  "computeFingerprint L pk = join '' '' (groups4 (bytesToHex (sha256 L pk)))"

definition is_space :: "char \<Rightarrow> bool" where
  "is_space c \<longleftrightarrow> (of_char c :: nat) \<in> {9, 10, 11, 12, 13, 32}"

text \<open>\<open>s.replace(/\s/g, '')\<close>.\<close>

definition strip_spaces :: "string \<Rightarrow> string" where
  "strip_spaces s = filter (\<lambda>c. \<not> is_space c) s"

definition fingerprintsMatch :: "string \<Rightarrow> string \<Rightarrow> bool" where
  "fingerprintsMatch a b \<longleftrightarrow> strip_spaces a = strip_spaces b"

section \<open>Signed statements\<close>

record DeviceStatement =
  devicePublicKey :: bytes
  statementTimestamp :: jsnum
  statementSignature :: bytes

definition buildLinkMessage :: "bytes \<Rightarrow> jsnum \<Rightarrow> bytes res" where
  "buildLinkMessage pk timestamp = rbind (u64le timestamp) (\<lambda>t.
     Inr (concatBytes [text_encode ''ZAYCOMM_DEVICE_LINK_V1'', pk, t]))"

definition buildRevocationMessage :: "bytes \<Rightarrow> jsnum \<Rightarrow> bytes res" where
  "buildRevocationMessage pk timestamp = rbind (u64le timestamp) (\<lambda>t.
     Inr (concatBytes [text_encode ''ZAYCOMM_DEVICE_REVOKE_V1'', pk, t]))"

definition createDeviceLinkStatement :: "lib \<Rightarrow> int \<Rightarrow> Identity \<Rightarrow> bytes \<Rightarrow> DeviceStatement res" where
  "createDeviceLinkStatement L nowMs primaryIdentity pk =
     (let timestamp = Num (nowMs div 1000)
      in rbind (buildLinkMessage pk timestamp) (\<lambda>message.
         rbind (signMessage L message (privateKey primaryIdentity)) (\<lambda>signature.
           Inr \<lparr>devicePublicKey = pk, statementTimestamp = timestamp, statementSignature = signature\<rparr>)))"

definition verifyDeviceLinkStatement :: "lib \<Rightarrow> bytes \<Rightarrow> DeviceStatement \<Rightarrow> bool res" where
  "verifyDeviceLinkStatement L primaryPublicKey st =
     rbind (buildLinkMessage (devicePublicKey st) (statementTimestamp st)) (\<lambda>message.
       verifySignature L (statementSignature st) message primaryPublicKey)"

definition createDeviceRevocationStatement :: "lib \<Rightarrow> int \<Rightarrow> Identity \<Rightarrow> bytes \<Rightarrow> DeviceStatement res" where
  "createDeviceRevocationStatement L nowMs primaryIdentity pk =
     (let timestamp = Num (nowMs div 1000)
      in rbind (buildRevocationMessage pk timestamp) (\<lambda>message.
         rbind (signMessage L message (privateKey primaryIdentity)) (\<lambda>signature.
           Inr \<lparr>devicePublicKey = pk, statementTimestamp = timestamp, statementSignature = signature\<rparr>)))"

definition verifyDeviceRevocationStatement :: "lib \<Rightarrow> bytes \<Rightarrow> DeviceStatement \<Rightarrow> bool res" where
  "verifyDeviceRevocationStatement L primaryPublicKey st =
     rbind (buildRevocationMessage (devicePublicKey st) (statementTimestamp st)) (\<lambda>message.
       verifySignature L (statementSignature st) message primaryPublicKey)"

datatype role = Initiator | Responder

definition role_name :: "role \<Rightarrow> string" where
  "role_name r = (case r of Initiator \<Rightarrow> ''initiator'' | Responder \<Rightarrow> ''responder'')"

record SessionIdentityBinding =
  identityPublicKey :: bytes
  x25519PublicKey :: bytes
  bindingHash :: bytes
  bindingRole :: role
  bindingSignature :: bytes

definition buildSessionBindingMessage :: "bytes \<Rightarrow> bytes \<Rightarrow> role \<Rightarrow> bytes" where
  "buildSessionBindingMessage xpk hash r =
     concatBytes [text_encode ''ZAYCOMM_SESSION_BINDING_V1'', text_encode (role_name r), xpk, hash]"

definition createSessionIdentityBinding ::
    "lib \<Rightarrow> Identity \<Rightarrow> bytes \<Rightarrow> bytes \<Rightarrow> role \<Rightarrow> SessionIdentityBinding res" where
  "createSessionIdentityBinding L identity xpk hash r =
     rbind (signMessage L (buildSessionBindingMessage xpk hash r) (privateKey identity)) (\<lambda>signature.
       Inr \<lparr>identityPublicKey = publicKey identity, x25519PublicKey = xpk, bindingHash = hash,
            bindingRole = r, bindingSignature = signature\<rparr>)"

text \<open>The two comparison loops: every position of the expected array agrees.\<close>

definition bytes_agree :: "bytes \<Rightarrow> bytes \<Rightarrow> bool" where
  "bytes_agree actual expected \<longleftrightarrow> list_all (\<lambda>i. actual ! i = expected ! i) [0..<length expected]"

definition verifySessionIdentityBinding ::
    "lib \<Rightarrow> SessionIdentityBinding \<Rightarrow> bytes \<Rightarrow> bytes \<Rightarrow> role \<Rightarrow> bool res" where
  "verifySessionIdentityBinding L binding expectedX25519PublicKey expectedHandshakeHash expectedRole =
     (if bindingRole binding \<noteq> expectedRole then Inr False
      else if length (x25519PublicKey binding) \<noteq> length expectedX25519PublicKey then Inr False
      else if length (bindingHash binding) \<noteq> length expectedHandshakeHash then Inr False
      else if \<not> bytes_agree (x25519PublicKey binding) expectedX25519PublicKey then Inr False
      else if \<not> bytes_agree (bindingHash binding) expectedHandshakeHash then Inr False
      else verifySignature L (bindingSignature binding)
             (buildSessionBindingMessage (x25519PublicKey binding) (bindingHash binding) (bindingRole binding))
             (identityPublicKey binding))"

section \<open>Sealed sender\<close>

definition wrapWithSenderIdentity :: "bytes \<Rightarrow> bytes \<Rightarrow> bytes res" where
  "wrapWithSenderIdentity senderPublicKey payload =
     (if length senderPublicKey \<noteq> 32 then Inl (Err ''Expected a 32 byte identity public key.'')
      else Inr (concatBytes [senderPublicKey, payload]))"

definition unwrapSenderIdentity :: "bytes \<Rightarrow> bytes \<times> bytes" where
  "unwrapSenderIdentity data = (slice 0 32 data, slice 32 (length data) data)"

section \<open>The session gate\<close>

record AuthenticatedSession =
  as_sendKey :: bytes
  as_receiveKey :: bytes
  as_rootKey :: bytes
  as_handshakeHash :: bytes
  localIdentityPublicKey :: bytes
  peerIdentityPublicKey :: bytes
  localX25519PublicKey :: bytes
  peerX25519PublicKey :: bytes
  sessionRole :: role

record SessionEstablishmentInput =
  in_identity :: Identity
  in_localX25519PublicKey :: bytes
  in_peerX25519PublicKey :: bytes
  expectedPeerIdentityPublicKey :: bytes
  peerBinding :: SessionIdentityBinding
  in_handshake :: HandshakeResult
  in_role :: role

fun equalBytes_loop :: "bytes \<Rightarrow> bytes \<Rightarrow> bool" where
  "equalBytes_loop (x # xs) (y # ys) = (if x \<noteq> y then False else equalBytes_loop xs ys)"
| "equalBytes_loop _ _ = True"

definition equalBytes :: "bytes \<Rightarrow> bytes \<Rightarrow> bool" where
  "equalBytes a b \<longleftrightarrow> (if length a \<noteq> length b then False else equalBytes_loop a b)"

definition createLocalSessionBinding ::
    "lib \<Rightarrow> Identity \<Rightarrow> bytes \<Rightarrow> HandshakeResult \<Rightarrow> role \<Rightarrow> SessionIdentityBinding res" where
  "createLocalSessionBinding L identity xpk handshake r =
     createSessionIdentityBinding L identity xpk (handshakeHash handshake) r"

definition opposite :: "role \<Rightarrow> role" where
  "opposite r = (if r = Initiator then Responder else Initiator)"

definition establishAuthenticatedSession ::
    "lib \<Rightarrow> SessionEstablishmentInput \<Rightarrow> SessionIdentityBinding \<Rightarrow> AuthenticatedSession res" where
  "establishAuthenticatedSession L input localBinding =
     (let hash = handshakeHash (in_handshake input)
      in if \<not> equalBytes (identityPublicKey localBinding) (publicKey (in_identity input))
         then Inl (Err ''SESSION_IDENTITY_MISMATCH'')
         else rbind (verifySessionIdentityBinding L localBinding (in_localX25519PublicKey input) hash (in_role input))
           (\<lambda>local_ok. if \<not> local_ok then Inl (Err ''LOCAL_SESSION_BINDING_INVALID'')
            else if \<not> equalBytes (identityPublicKey (peerBinding input)) (expectedPeerIdentityPublicKey input)
            then Inl (Err ''PEER_IDENTITY_MISMATCH'')
            else rbind (verifySessionIdentityBinding L (peerBinding input) (in_peerX25519PublicKey input) hash
                          (opposite (in_role input)))
              (\<lambda>peer_ok. if \<not> peer_ok then Inl (Err ''PEER_SESSION_BINDING_INVALID'')
               else Inr \<lparr>as_sendKey = sendKey (in_handshake input),
                         as_receiveKey = receiveKey (in_handshake input),
                         as_rootKey = rootKey (in_handshake input),
                         as_handshakeHash = hash,
                         localIdentityPublicKey = publicKey (in_identity input),
                         peerIdentityPublicKey = identityPublicKey (peerBinding input),
                         localX25519PublicKey = in_localX25519PublicKey input,
                         peerX25519PublicKey = in_peerX25519PublicKey input,
                         sessionRole = in_role input\<rparr>)))"

section \<open>Lemmas\<close>

lemma equalBytes_loop_iff: "length a = length b \<Longrightarrow> equalBytes_loop a b \<longleftrightarrow> a = b"
  by (induction a b rule: equalBytes_loop.induct) auto

lemma equalBytes_iff [simp]: "equalBytes a b \<longleftrightarrow> a = b"
  by (auto simp: equalBytes_def equalBytes_loop_iff)

lemma bytes_agree_iff: "length a = length b \<Longrightarrow> bytes_agree a b \<longleftrightarrow> a = b"
  by (auto simp: bytes_agree_def list_all_iff intro: nth_equalityI)

lemma verifySessionIdentityBinding_True:
  "verifySessionIdentityBinding L b xpk hash r = Inr True \<longleftrightarrow>
     bindingRole b = r \<and> x25519PublicKey b = xpk \<and> bindingHash b = hash \<and>
     ed_verify L (bindingSignature b) (buildSessionBindingMessage xpk hash r) (identityPublicKey b) = Some True"
  by (auto simp: verifySessionIdentityBinding_def verifySignature_def bytes_agree_iff)

definition honest_identity :: "lib \<Rightarrow> Identity \<Rightarrow> bool" where
  "honest_identity L idn \<longleftrightarrow> length (privateKey idn) = 32 \<and> publicKey idn = ed_public L (privateKey idn)"

lemma honest_sign:
  assumes "ed25519_correct L" "honest_identity L idn"
  obtains s where "signMessage L m (privateKey idn) = Inr s" "length s = 64" "length (publicKey idn) = 32"
    "ed_verify L s m (publicKey idn) = Some True"
  using assms ed25519_correctE unfolding honest_identity_def signMessage_def by (metis of_lib_simps(2))

lemma createSessionIdentityBinding_ok:
  assumes "ed25519_correct L" "honest_identity L idn"
  obtains b where "createSessionIdentityBinding L idn xpk hash r = Inr b" "identityPublicKey b = publicKey idn"
    "verifySessionIdentityBinding L b xpk hash r = Inr True"
proof -
  obtain s where s: "signMessage L (buildSessionBindingMessage xpk hash r) (privateKey idn) = Inr s"
    "ed_verify L s (buildSessionBindingMessage xpk hash r) (publicKey idn) = Some True"
    using honest_sign [OF assms] by metis
  then show thesis
    using that by (simp add: createSessionIdentityBinding_def verifySessionIdentityBinding_True)
qed

lemma establish_Inr_iff:
  "establishAuthenticatedSession L inp lb = Inr s \<longleftrightarrow>
     identityPublicKey lb = publicKey (in_identity inp) \<and>
     verifySessionIdentityBinding L lb (in_localX25519PublicKey inp) (handshakeHash (in_handshake inp)) (in_role inp)
       = Inr True \<and>
     identityPublicKey (peerBinding inp) = expectedPeerIdentityPublicKey inp \<and>
     verifySessionIdentityBinding L (peerBinding inp) (in_peerX25519PublicKey inp)
       (handshakeHash (in_handshake inp)) (opposite (in_role inp)) = Inr True \<and>
     s = \<lparr>as_sendKey = sendKey (in_handshake inp), as_receiveKey = receiveKey (in_handshake inp),
          as_rootKey = rootKey (in_handshake inp), as_handshakeHash = handshakeHash (in_handshake inp),
          localIdentityPublicKey = publicKey (in_identity inp),
          peerIdentityPublicKey = identityPublicKey (peerBinding inp),
          localX25519PublicKey = in_localX25519PublicKey inp,
          peerX25519PublicKey = in_peerX25519PublicKey inp, sessionRole = in_role inp\<rparr>"
  by (auto simp: establishAuthenticatedSession_def Let_def res_simps split: if_splits)

text \<open>The sealed sender is a wire format: thirty-two bytes of key, then the payload.\<close>

interpretation sealed: wire_format
  "\<lambda>(sender, payload). the (or_null (wrapWithSenderIdentity sender payload))"
  "\<lambda>data. Some (unwrapSenderIdentity data)"
  "\<lambda>(sender, payload). length sender = 32"
  by unfold_locales (auto simp: wrapWithSenderIdentity_def unwrapSenderIdentity_def slice_def)

lemma buildSessionBindingMessage_inject:
  assumes "length xpk = length xpk'"
  shows "buildSessionBindingMessage xpk hash r = buildSessionBindingMessage xpk' hash' r' \<longleftrightarrow>
    xpk = xpk' \<and> hash = hash' \<and> r = r'"
proof -
  have "length (text_encode (role_name q)) = 9" for q by (cases q) (simp_all add: role_name_def)
  moreover have "role_name r = role_name r' \<longleftrightarrow> r = r'" by (cases r; cases r') (simp_all add: role_name_def)
  ultimately show ?thesis using assms by (auto simp: buildSessionBindingMessage_def)
qed

subsection \<open>Fingerprints\<close>

lemma strip_spaces_append [simp]: "strip_spaces (s @ t) = strip_spaces s @ strip_spaces t"
  by (simp add: strip_spaces_def)

lemma strip_spaces_blank: "strip_spaces '' '' = []"
  by (simp add: strip_spaces_def is_space_def)

lemma strip_join: "strip_spaces (join '' '' ss) = concat (map strip_spaces ss)"
proof (induction "'' ''" ss rule: join.induct)
  case (3 s t ss)
  have "strip_spaces (join '' '' (s # t # ss)) = strip_spaces s @ strip_spaces '' '' @ strip_spaces (join '' '' (t # ss))"
    by (simp only: join.simps strip_spaces_append)
  with 3 show ?case by (simp add: strip_spaces_blank)
qed (simp_all add: strip_spaces_def)

lemma concat_groups4: "concat (groups4 s) = s"
  by (induction s rule: groups4.induct) auto

lemma hex_no_space: "\<forall>c \<in> set (bytesToHex bs). \<not> is_space c"
proof -
  have d: "\<not> is_space (hex_digit n)" if "n < 16" for n
    using that by (simp add: is_space_def of_hex_digit)
  have "unat (b :: byte) div 16 < 16" for b using unat_byte [of b] by linarith
  with d show ?thesis by (induction bs) auto
qed

lemma strip_fingerprint: "strip_spaces (computeFingerprint L pk) = bytesToHex (sha256 L pk)"
proof -
  have "concat (map strip_spaces (groups4 h)) = strip_spaces h" for h
    by (metis concat_groups4 filter_concat strip_spaces_def map_eq_conv)
  then have "strip_spaces (computeFingerprint L pk) = strip_spaces (bytesToHex (sha256 L pk))"
    by (simp add: computeFingerprint_def strip_join)
  also have "\<dots> = bytesToHex (sha256 L pk)"
    unfolding strip_spaces_def using hex_no_space by (simp add: filter_id_conv)
  finally show ?thesis .
qed

section \<open>Properties\<close>

text \<open>C8: The session gate. A session exists only after both identity proofs were verified: the
  peer's Ed25519 signature covers exactly the peer's X25519 key, the transcript hash of this handshake
  and the opposite role, under the identity key that was pinned; and the session's keys are the
  handshake's.\<close>

theorem session_gate:
  assumes "establishAuthenticatedSession L inp lb = Inr s"
  shows "ed_verify L (bindingSignature (peerBinding inp))
           (buildSessionBindingMessage (in_peerX25519PublicKey inp) (handshakeHash (in_handshake inp))
             (opposite (in_role inp))) (expectedPeerIdentityPublicKey inp) = Some True \<and>
         ed_verify L (bindingSignature lb)
           (buildSessionBindingMessage (in_localX25519PublicKey inp) (handshakeHash (in_handshake inp))
             (in_role inp)) (publicKey (in_identity inp)) = Some True \<and>
         peerIdentityPublicKey s = expectedPeerIdentityPublicKey inp \<and>
         as_sendKey s = sendKey (in_handshake inp) \<and> as_receiveKey s = receiveKey (in_handshake inp) \<and>
         as_handshakeHash s = handshakeHash (in_handshake inp)"
  using assms by (auto simp: establish_Inr_iff verifySessionIdentityBinding_True)

definition alice :: Identity where
  "alice = \<lparr>publicKey = replicate 32 11, privateKey = replicate 32 11\<rparr>"

definition bob :: Identity where
  "bob = \<lparr>publicKey = replicate 32 22, privateKey = replicate 32 22\<rparr>"

lemma honest_test_identities [simp]: "honest_identity ref_lib alice" "honest_identity ref_lib bob"
  by (simp_all add: honest_identity_def alice_def bob_def ref_lib_def)

definition test_handshake :: HandshakeResult where
  "test_handshake = \<lparr>sendKey = [1], receiveKey = [2], handshakeHash = replicate 32 9, rootKey = [3]\<rparr>"

definition test_binding :: "Identity \<Rightarrow> bytes \<Rightarrow> role \<Rightarrow> SessionIdentityBinding" where
  "test_binding idn xpk r =
     the (or_null (createSessionIdentityBinding ref_lib idn xpk (handshakeHash test_handshake) r))"

definition test_input :: SessionEstablishmentInput where
  "test_input = \<lparr>in_identity = alice, in_localX25519PublicKey = xPublicKey initiator_key,
     in_peerX25519PublicKey = xPublicKey responder_key, expectedPeerIdentityPublicKey = publicKey bob,
     peerBinding = test_binding bob (xPublicKey responder_key) Responder,
     in_handshake = test_handshake, in_role = Initiator\<rparr>"

lemma test_binding_ok:
  assumes "honest_identity ref_lib idn"
  shows "identityPublicKey (test_binding idn xpk r) = publicKey idn"
    and "verifySessionIdentityBinding ref_lib (test_binding idn xpk r) xpk (handshakeHash test_handshake) r = Inr True"
  using createSessionIdentityBinding_ok [OF ref_ed25519_correct assms]
  by (metis or_null_simps(2) option.sel test_binding_def)+

lemma test_session:
  "\<exists>s. establishAuthenticatedSession ref_lib test_input (test_binding alice (xPublicKey initiator_key) Initiator) = Inr s"
  by (simp add: establish_Inr_iff test_input_def test_binding_ok opposite_def)

theorem session_gate_witness:
  "\<exists>s. establishAuthenticatedSession ref_lib test_input
      (test_binding alice (xPublicKey initiator_key) Initiator) = Inr s \<and>
    peerIdentityPublicKey s = publicKey bob \<and> as_sendKey s = [1]"
proof -
  obtain s where s: "establishAuthenticatedSession ref_lib test_input
      (test_binding alice (xPublicKey initiator_key) Initiator) = Inr s"
    using test_session by blast
  from session_gate [OF s] s show ?thesis
    by (auto simp: test_input_def test_handshake_def)
qed

text \<open>A session binding cannot be transplanted. The bytes signed for two bindings with X25519 keys
  of the same length are equal only if the keys, the transcript hashes and the roles are equal.\<close>

theorem binding_message_binds:
  assumes "length xpk = length xpk'"
    and "buildSessionBindingMessage xpk hash r = buildSessionBindingMessage xpk' hash' r'"
  shows "xpk = xpk' \<and> hash = hash' \<and> r = r'"
  using assms buildSessionBindingMessage_inject by simp

theorem binding_message_binds_witness:
  "buildSessionBindingMessage [1] [2] Initiator \<noteq> buildSessionBindingMessage [1] [2] Responder"
  using binding_message_binds [of "[1]" "[1]" "[2]" Initiator "[2]" Responder] by auto

text \<open>The gate refuses the wrong peer. When the local proof is in order but the peer's binding names
  another identity than the pinned one, the error is \<open>PEER_IDENTITY_MISMATCH\<close>, whatever the signature.\<close>

theorem session_gate_wrong_peer:
  assumes "identityPublicKey lb = publicKey (in_identity inp)"
    and "verifySessionIdentityBinding L lb (in_localX25519PublicKey inp) (handshakeHash (in_handshake inp))
           (in_role inp) = Inr True"
    and "identityPublicKey (peerBinding inp) \<noteq> expectedPeerIdentityPublicKey inp"
  shows "establishAuthenticatedSession L inp lb = Inl (Err ''PEER_IDENTITY_MISMATCH'')"
  using assms by (simp add: establishAuthenticatedSession_def Let_def)

theorem session_gate_wrong_peer_witness:
  "establishAuthenticatedSession ref_lib
     (test_input\<lparr>peerBinding := test_binding alice (xPublicKey responder_key) Responder\<rparr>)
     (test_binding alice (xPublicKey initiator_key) Initiator) = Inl (Err ''PEER_IDENTITY_MISMATCH'')"
  by (rule session_gate_wrong_peer) (simp_all add: test_input_def test_binding_ok, simp add: alice_def bob_def)

text \<open>Two displayed fingerprints match exactly when the hashes of the two keys are equal, however
  the user groups or spaces the digits.\<close>

theorem fingerprints_match_iff:
  "fingerprintsMatch (computeFingerprint L a) (computeFingerprint L b) \<longleftrightarrow> sha256 L a = sha256 L b"
  by (simp add: fingerprintsMatch_def strip_fingerprint)

end
