(* ===== verification/Ratchet.thy ===== *)
theory Ratchet
  imports RefLib
begin

text \<open>
  \<open>src/crypto/ratchet.ts\<close>: the double ratchet. An operation that can throw returns its result and the
  state it leaves, also when it throws, so that the rollback of \<open>decrypt\<close> is part of the model.
\<close>

section \<open>State\<close>

definition MAX_SKIP :: int where
  "MAX_SKIP = 1000"

record RatchetHeader =
  dhPublicKey :: bytes
  previousChainLength :: jsnum
  messageNumber :: jsnum

record RatchetState =
  ratchetRootKey :: bytes
  dhSelf :: X25519KeyPair
  dhRemote :: "bytes option"
  sendingChainKey :: "bytes option"
  receivingChainKey :: "bytes option"
  sendMessageNumber :: nat
  receiveMessageNumber :: nat
  previousSendingChainLength :: nat
  skippedMessageKeys :: "(string, bytes) jsmap"

definition kdfRootKey :: "lib \<Rightarrow> bytes \<Rightarrow> bytes \<Rightarrow> bytes \<times> bytes" where
  "kdfRootKey L root dhOutput =
     (let output = hkdf_sha256 L dhOutput root [] 64 in (slice 0 32 output, slice 32 64 output))"

definition kdfChainKey :: "lib \<Rightarrow> bytes \<Rightarrow> bytes \<times> bytes" where
  "kdfChainKey L chainKey = (hmac_sha256 L chainKey [1], hmac_sha256 L chainKey [2])"

definition encodeHeader :: "RatchetHeader \<Rightarrow> bytes" where
  "encodeHeader h = concatBytes [dhPublicKey h, u32le (previousChainLength h), u32le (messageNumber h)]"

text \<open>
  The template string \<open>${hex}:${n}\<close>. The digits after the point of a fractional number are not
  known to the model and shown as one \<open>x\<close>; the cache only ever holds integral numbers.
\<close>

definition num_string :: "jsnum \<Rightarrow> string" where
  "num_string n = (case n of
      Num i \<Rightarrow> (if i < 0 then ''-'' @ nat_string (nat (- i)) else nat_string (nat i))
    | Frac i \<Rightarrow> (if i < 0 then ''-'' @ nat_string (nat (- i - 1)) else nat_string (nat i)) @ ''.x''
    | NaN \<Rightarrow> ''NaN'' | PosInf \<Rightarrow> ''Infinity'' | NegInf \<Rightarrow> ''-Infinity'')"

definition skipKey :: "bytes \<Rightarrow> jsnum \<Rightarrow> string" where
  "skipKey pk n = bytesToHex pk @ '':'' @ num_string n"

section \<open>Operations\<close>

text \<open>\<open>snapshotState\<close> copies every field, \<open>restoreState\<close> assigns every field back.\<close>

definition snapshotState :: "RatchetState \<Rightarrow> RatchetState" where
  "snapshotState s = \<lparr>ratchetRootKey = ratchetRootKey s, dhSelf = dhSelf s, dhRemote = dhRemote s,
     sendingChainKey = sendingChainKey s, receivingChainKey = receivingChainKey s,
     sendMessageNumber = sendMessageNumber s, receiveMessageNumber = receiveMessageNumber s,
     previousSendingChainLength = previousSendingChainLength s,
     skippedMessageKeys = skippedMessageKeys s\<rparr>"

definition restoreState :: "RatchetState \<Rightarrow> RatchetState \<Rightarrow> RatchetState" where
  "restoreState state this = this\<lparr>ratchetRootKey := ratchetRootKey state, dhSelf := dhSelf state,
     dhRemote := dhRemote state, sendingChainKey := sendingChainKey state,
     receivingChainKey := receivingChainKey state, sendMessageNumber := sendMessageNumber state,
     receiveMessageNumber := receiveMessageNumber state,
     previousSendingChainLength := previousSendingChainLength state,
     skippedMessageKeys := skippedMessageKeys state\<rparr>"

definition initAsInitiator :: "lib \<Rightarrow> nat \<Rightarrow> bytes \<Rightarrow> bytes \<Rightarrow> RatchetState res" where
  "initAsInitiator L i root remoteRatchetPublicKey =
     (let self = generateX25519KeyPair L i
      in rbind (deriveSharedSecret L (xPrivateKey self) remoteRatchetPublicKey) (\<lambda>dhOutput.
         (case kdfRootKey L root dhOutput of (newRootKey, chainKey) \<Rightarrow>
           Inr \<lparr>ratchetRootKey = newRootKey, dhSelf = self, dhRemote = Some remoteRatchetPublicKey,
                sendingChainKey = Some chainKey, receivingChainKey = None, sendMessageNumber = 0,
                receiveMessageNumber = 0, previousSendingChainLength = 0, skippedMessageKeys = []\<rparr>)))"

definition initAsResponder :: "bytes \<Rightarrow> X25519KeyPair \<Rightarrow> RatchetState" where
  "initAsResponder root ownRatchetKeyPair =
     \<lparr>ratchetRootKey = root, dhSelf = ownRatchetKeyPair, dhRemote = None, sendingChainKey = None,
      receivingChainKey = None, sendMessageNumber = 0, receiveMessageNumber = 0,
      previousSendingChainLength = 0, skippedMessageKeys = []\<rparr>"

definition getSkippedMessageKey :: "RatchetHeader \<Rightarrow> RatchetState \<Rightarrow> (string \<times> bytes) option" where
  "getSkippedMessageKey h s =
     (let cacheKey = skipKey (dhPublicKey h) (messageNumber h)
      in case mget (skippedMessageKeys s) cacheKey of None \<Rightarrow> None | Some messageKey \<Rightarrow> Some (cacheKey, messageKey))"

definition skip_one :: "lib \<Rightarrow> bytes \<Rightarrow> RatchetState \<Rightarrow> RatchetState" where
  "skip_one L remote s = (case receivingChainKey s of
      None \<Rightarrow> s
    | Some ck \<Rightarrow> (case kdfChainKey L ck of (messageKey, nextChainKey) \<Rightarrow>
        s\<lparr>receivingChainKey := Some nextChainKey,
          skippedMessageKeys :=
            mset_at (skipKey remote (Num (int (receiveMessageNumber s)))) messageKey (skippedMessageKeys s),
          receiveMessageNumber := receiveMessageNumber s + 1\<rparr>))"

text \<open>
  The \<open>while\<close> loop runs until the counter is no longer below \<open>until\<close>; the guard before it has
  bounded the distance, so the number of iterations is known.
\<close>

fun skip_loop :: "lib \<Rightarrow> bytes \<Rightarrow> nat \<Rightarrow> RatchetState \<Rightarrow> RatchetState" where
  "skip_loop L remote 0 s = s"
| "skip_loop L remote (Suc k) s = skip_loop L remote k (skip_one L remote s)"

definition skipMessageKeysUntil :: "lib \<Rightarrow> jsnum \<Rightarrow> RatchetState \<Rightarrow> unit res \<times> RatchetState" where
  "skipMessageKeysUntil L until s = (case (receivingChainKey s, dhRemote s) of
      (Some _, Some remote) \<Rightarrow>
        (if Num MAX_SKIP < num_sub until (Num (int (receiveMessageNumber s)))
         then (Inl (Err ''Too many skipped messages in one gap, refusing to advance further.''), s)
         else (Inr (), skip_loop L remote (loop_bound until - receiveMessageNumber s) s))
    | _ \<Rightarrow> (Inr (), s))"

definition performDhRatchetStep :: "lib \<Rightarrow> nat \<Rightarrow> bytes \<Rightarrow> RatchetState \<Rightarrow> unit res \<times> RatchetState" where
  "performDhRatchetStep L i remote s0 =
     (let s1 = s0\<lparr>previousSendingChainLength := sendMessageNumber s0, sendMessageNumber := 0,
                  receiveMessageNumber := 0, dhRemote := Some remote\<rparr>
      in case deriveSharedSecret L (xPrivateKey (dhSelf s1)) remote of
           Inl e \<Rightarrow> (Inl e, s1)
         | Inr dh1 \<Rightarrow>
            (case kdfRootKey L (ratchetRootKey s1) dh1 of (root1, chain1) \<Rightarrow>
              (let s2 = s1\<lparr>ratchetRootKey := root1, receivingChainKey := Some chain1,
                           dhSelf := generateX25519KeyPair L i\<rparr>
               in case deriveSharedSecret L (xPrivateKey (dhSelf s2)) remote of
                    Inl e \<Rightarrow> (Inl e, s2)
                  | Inr dh2 \<Rightarrow>
                     (case kdfRootKey L (ratchetRootKey s2) dh2 of (root2, chain2) \<Rightarrow>
                       (Inr (), s2\<lparr>ratchetRootKey := root2, sendingChainKey := Some chain2\<rparr>)))))"

definition ratchetEncrypt ::
    "lib \<Rightarrow> bytes \<Rightarrow> bytes \<Rightarrow> RatchetState \<Rightarrow> (RatchetHeader \<times> bytes) res \<times> RatchetState" where
  "ratchetEncrypt L plaintext associatedData s = (case sendingChainKey s of
      None \<Rightarrow> (Inl (Err ''No sending chain established yet, the responder must wait for a message before it can reply.''), s)
    | Some ck \<Rightarrow> (case kdfChainKey L ck of (messageKey, nextChainKey) \<Rightarrow>
        (let s1 = s\<lparr>sendingChainKey := Some nextChainKey\<rparr>;
             header = \<lparr>dhPublicKey = xPublicKey (dhSelf s1),
                       previousChainLength = Num (int (previousSendingChainLength s1)),
                       messageNumber = Num (int (sendMessageNumber s1))\<rparr>;
             aad = concatBytes [encodeHeader header, associatedData]
         in case rbind (buildNonce (messageNumber header)) (\<lambda>nonce.
                   of_lib (aead_encrypt L messageKey nonce aad plaintext)) of
              Inl e \<Rightarrow> (Inl e, s1)
            | Inr ciphertext \<Rightarrow>
                (Inr (header, ciphertext), s1\<lparr>sendMessageNumber := sendMessageNumber s1 + 1\<rparr>))))"

definition openWithMessageKey :: "lib \<Rightarrow> bytes \<Rightarrow> RatchetHeader \<Rightarrow> bytes \<Rightarrow> bytes \<Rightarrow> bytes res" where
  "openWithMessageKey L messageKey header ciphertext associatedData =
     rbind (buildNonce (messageNumber header)) (\<lambda>nonce.
       of_lib (aead_decrypt L messageKey nonce (concatBytes [encodeHeader header, associatedData]) ciphertext))"

text \<open>The body of the \<open>try\<close> block, with the state it has reached when it throws.\<close>

definition decrypt_tail :: "lib \<Rightarrow> RatchetHeader \<Rightarrow> bytes \<Rightarrow> bytes \<Rightarrow> RatchetState \<Rightarrow> bytes res \<times> RatchetState" where
  "decrypt_tail L header ciphertext associatedData s =
     (case skipMessageKeysUntil L (messageNumber header) s of
        (Inl e, s1) \<Rightarrow> (Inl e, s1)
      | (Inr _, s1) \<Rightarrow> (case receivingChainKey s1 of
            None \<Rightarrow> (Inl (Err ''No receiving chain established yet.''), s1)
          | Some ck \<Rightarrow> (case kdfChainKey L ck of (messageKey, nextChainKey) \<Rightarrow>
              (openWithMessageKey L messageKey header ciphertext associatedData,
               s1\<lparr>receivingChainKey := Some nextChainKey,
                  receiveMessageNumber := receiveMessageNumber s1 + 1\<rparr>))))"

definition decrypt_try ::
    "lib \<Rightarrow> nat \<Rightarrow> RatchetHeader \<Rightarrow> bytes \<Rightarrow> bytes \<Rightarrow> RatchetState \<Rightarrow> bytes res \<times> RatchetState" where
  "decrypt_try L i header ciphertext associatedData s = (case getSkippedMessageKey header s of
      Some (cacheKey, messageKey) \<Rightarrow>
        (case openWithMessageKey L messageKey header ciphertext associatedData of
           Inl e \<Rightarrow> (Inl e, s)
         | Inr plaintext \<Rightarrow>
             (Inr plaintext, s\<lparr>skippedMessageKeys := mdel cacheKey (skippedMessageKeys s)\<rparr>))
    | None \<Rightarrow>
        (if dhRemote s = None \<or> \<not> bytesEqual (dhPublicKey header) (the (dhRemote s))
         then (case skipMessageKeysUntil L (previousChainLength header) s of
                 (Inl e, s1) \<Rightarrow> (Inl e, s1)
               | (Inr _, s1) \<Rightarrow> (case performDhRatchetStep L i (dhPublicKey header) s1 of
                     (Inl e, s2) \<Rightarrow> (Inl e, s2)
                   | (Inr _, s2) \<Rightarrow> decrypt_tail L header ciphertext associatedData s2))
         else decrypt_tail L header ciphertext associatedData s))"

definition ratchetDecrypt ::
    "lib \<Rightarrow> nat \<Rightarrow> RatchetHeader \<Rightarrow> bytes \<Rightarrow> bytes \<Rightarrow> RatchetState \<Rightarrow> bytes res \<times> RatchetState" where
  "ratchetDecrypt L i header ciphertext associatedData s =
     (let before = snapshotState s
      in case decrypt_try L i header ciphertext associatedData s of
           (Inl e, s1) \<Rightarrow> (Inl e, restoreState before s1)
         | (Inr p, s1) \<Rightarrow> (Inr p, s1))"

section \<open>Keys of the cache\<close>

lemma nat_string_digits: "list_all is_digit (nat_string n)"
proof (induction n rule: nat_string.induct)
  case (1 n)
  have d: "is_digit (char_of (48 + k :: nat))" if "k < 10" for k using that by (simp add: is_digit_def)
  show ?case using 1 d [of n] d [of "n mod 10"] by (simp add: nat_string.simps [of n])
qed

lemma decimal_snoc: "decimal (s @ [c]) = 10 * decimal s + (of_char c - 48)"
  by (simp add: decimal_def)

lemma decimal_nat_string: "decimal (nat_string n) = int n"
proof (induction n rule: nat_string.induct)
  case (1 n)
  have d: "(of_char (char_of (48 + k :: nat)) :: int) = 48 + int k" if "k < 10" for k
  proof -
    have "(of_char (char_of (48 + k :: nat)) :: int) = int (of_char (char_of (48 + k :: nat)))"
      by (simp only: of_nat_of_char)
    with that show ?thesis by simp
  qed
  show ?case
  proof (cases "n < 10")
    case True
    then show ?thesis using d [of n] by (simp add: nat_string.simps [of n] decimal_def)
  next
    case False
    have "10 * int (n div 10) + int (n mod 10) = int n" by presburger
    with False 1 d [of "n mod 10"] show ?thesis
      by (simp add: nat_string.simps [of n] decimal_snoc)
  qed
qed

lemma nat_string_eq_iff [simp]: "nat_string m = nat_string n \<longleftrightarrow> m = n"
  by (metis decimal_nat_string of_nat_eq_iff)

lemma skipKey_eq_iff [simp]:
  "skipKey pk (Num (int m)) = skipKey pk (Num (int n)) \<longleftrightarrow> m = n"
  by (simp add: skipKey_def num_string_def)

section \<open>The symmetric chain as a specification\<close>

text \<open>
  The abstract view of one sending chain: its \<open>n\<close>-th chain key and message key, and the ciphertext
  of the \<open>n\<close>-th message under them.
\<close>

fun chain_key :: "lib \<Rightarrow> bytes \<Rightarrow> nat \<Rightarrow> bytes" where
  "chain_key L ck 0 = ck"
| "chain_key L ck (Suc n) = snd (kdfChainKey L (chain_key L ck n))"

definition message_key :: "lib \<Rightarrow> bytes \<Rightarrow> nat \<Rightarrow> bytes" where
  "message_key L ck n = fst (kdfChainKey L (chain_key L ck n))"

definition chain_header :: "bytes \<Rightarrow> nat \<Rightarrow> nat \<Rightarrow> RatchetHeader" where
  "chain_header pub prev n =
     \<lparr>dhPublicKey = pub, previousChainLength = Num (int prev), messageNumber = Num (int n)\<rparr>"

definition chain_cipher :: "lib \<Rightarrow> bytes \<Rightarrow> bytes \<Rightarrow> nat \<Rightarrow> nat \<Rightarrow> bytes \<Rightarrow> bytes \<Rightarrow> bytes option" where
  "chain_cipher L ck pub prev n plaintext ad =
     aead_encrypt L (message_key L ck n) (replicate 16 0 @ le_bytes 8 (word_of_int (int n) :: 64 word))
       (encodeHeader (chain_header pub prev n) @ ad) plaintext"

text \<open>The sender of a chain: its next message is number \<open>n\<close>.\<close>

definition sending_on :: "lib \<Rightarrow> bytes \<Rightarrow> bytes \<Rightarrow> nat \<Rightarrow> nat \<Rightarrow> RatchetState \<Rightarrow> bool" where
  "sending_on L ck pub prev n s \<longleftrightarrow> sendingChainKey s = Some (chain_key L ck n) \<and>
     xPublicKey (dhSelf s) = pub \<and> previousSendingChainLength s = prev \<and> sendMessageNumber s = n"

text \<open>
  The receiver of a chain: it has advanced to number \<open>n\<close> and holds the key of exactly the
  messages in \<open>missing\<close>, which were skipped and have not arrived.
\<close>

definition receiving_on :: "lib \<Rightarrow> bytes \<Rightarrow> bytes \<Rightarrow> nat \<Rightarrow> nat set \<Rightarrow> RatchetState \<Rightarrow> bool" where
  "receiving_on L ck pub n missing s \<longleftrightarrow> dhRemote s = Some pub \<and>
     receivingChainKey s = Some (chain_key L ck n) \<and> receiveMessageNumber s = n \<and> missing \<subseteq> {..<n} \<and>
     (\<forall>i. mget (skippedMessageKeys s) (skipKey pub (Num (int i))) =
        (if i \<in> missing then Some (message_key L ck i) else None))"

lemma length_message_key [simp]: "hash_sizes L \<Longrightarrow> length (message_key L ck n) = 32"
  by (simp add: message_key_def kdfChainKey_def hash_sizesD)

lemma open_chain_header:
  "openWithMessageKey L k (chain_header pub prev n) c ad =
     of_lib (aead_decrypt L k (replicate 16 0 @ le_bytes 8 (word_of_int (int n) :: 64 word))
       (encodeHeader (chain_header pub prev n) @ ad) c)"
proof -
  have "messageNumber (chain_header pub prev n) = Num (int n)" by (simp add: chain_header_def)
  then show ?thesis by (simp add: openWithMessageKey_def)
qed

lemma chain_cipher_ok:
  assumes "aead_correct L" "hash_sizes L"
  obtains c where "chain_cipher L ck pub prev n p ad = Some c"
    "openWithMessageKey L (message_key L ck n) (chain_header pub prev n) c ad = Inr p"
proof -
  have n: "length (replicate 16 0 @ le_bytes 8 (word_of_int (int n) :: 64 word)) = 24" by simp
  show thesis
    using aead_correctE [OF assms(1) length_message_key [OF assms(2)] n] that
    unfolding chain_cipher_def open_chain_header by (metis of_lib_simps(2))
qed

lemma encrypt_chain:
  assumes "sending_on L ck pub prev n s" "chain_cipher L ck pub prev n p ad = Some c"
  obtains s' where "ratchetEncrypt L p ad s = (Inr (chain_header pub prev n, c), s')"
    "sending_on L ck pub prev (Suc n) s'"
    "s' = s\<lparr>sendingChainKey := Some (chain_key L ck (Suc n)), sendMessageNumber := Suc n\<rparr>"
proof -
  have "ratchetEncrypt L p ad s = (Inr (chain_header pub prev n, c),
      s\<lparr>sendingChainKey := Some (chain_key L ck (Suc n)), sendMessageNumber := Suc n\<rparr>)"
    using assms unfolding sending_on_def chain_cipher_def message_key_def
    by (simp add: ratchetEncrypt_def Let_def chain_header_def case_prod_beta)
  with assms(1) show thesis using that unfolding sending_on_def by simp
qed

section \<open>Skipping\<close>

lemma skip_one_receiving:
  assumes "receiving_on L ck pub n missing s"
  shows "receiving_on L ck pub (Suc n) (insert n missing) (skip_one L pub s)"
  using assms unfolding receiving_on_def skip_one_def message_key_def
  by (auto split: prod.splits)

lemma skip_loop_receiving:
  "receiving_on L ck pub n missing s \<Longrightarrow>
    receiving_on L ck pub (n + k) (missing \<union> {n..<n + k}) (skip_loop L pub k s)"
proof (induction k arbitrary: n missing s)
  case 0
  then show ?case by simp
next
  case (Suc k)
  have "insert n missing \<union> {Suc n..<Suc n + k} = missing \<union> {n..<n + Suc k}" by auto
  with Suc.IH [OF skip_one_receiving [OF Suc.prems]] show ?case by simp
qed

lemma skip_until_receiving:
  assumes "receiving_on L ck pub n missing s" "int m \<le> int n + MAX_SKIP"
  obtains s' where "skipMessageKeysUntil L (Num (int m)) s = (Inr (), s')"
    "receiving_on L ck pub (max n m) (missing \<union> {n..<m}) s'"
proof -
  let ?k = "m - n"
  have "skipMessageKeysUntil L (Num (int m)) s = (Inr (), skip_loop L pub ?k s)"
    using assms unfolding receiving_on_def by (simp add: skipMessageKeysUntil_def loop_bound_def)
  moreover have "n + ?k = max n m" "{n..<n + ?k} = {n..<m}" by auto
  ultimately show thesis using skip_loop_receiving [OF assms(1), of ?k] that by simp
qed

section \<open>Decrypting along a chain\<close>

text \<open>
  A message of the chain that has not been consumed and is not too far ahead decrypts, and the
  receiver ends up missing exactly the messages it has now passed over.
\<close>

lemma decrypt_tail_next:
  assumes "receiving_on L ck pub n missing s" "n \<le> m" "int m \<le> int n + MAX_SKIP"
    and "openWithMessageKey L (message_key L ck m) (chain_header pub prev m) c ad = Inr p"
  obtains s' where "decrypt_tail L (chain_header pub prev m) c ad s = (Inr p, s')"
    "receiving_on L ck pub (Suc m) (missing \<union> {n..<m}) s'"
proof -
  obtain s1 where s1: "skipMessageKeysUntil L (Num (int m)) s = (Inr (), s1)"
    "receiving_on L ck pub m (missing \<union> {n..<m}) s1"
    using skip_until_receiving [OF assms(1,3)] assms(2) by (metis max.absorb2)
  have "messageNumber (chain_header pub prev m) = Num (int m)" by (simp add: chain_header_def)
  then have "decrypt_tail L (chain_header pub prev m) c ad s =
      (Inr p, s1\<lparr>receivingChainKey := Some (chain_key L ck (Suc m)), receiveMessageNumber := Suc m\<rparr>)"
    using s1 assms(4) unfolding receiving_on_def message_key_def
    by (simp add: decrypt_tail_def case_prod_beta)
  moreover have "receiving_on L ck pub (Suc m) (missing \<union> {n..<m})
      (s1\<lparr>receivingChainKey := Some (chain_key L ck (Suc m)), receiveMessageNumber := Suc m\<rparr>)"
    using s1(2) unfolding receiving_on_def by (auto simp: subset_iff less_Suc_eq)
  ultimately show thesis using that by blast
qed

definition next_number :: "nat \<Rightarrow> nat \<Rightarrow> nat" where
  "next_number n m = (if m < n then n else Suc m)"

definition now_missing :: "nat \<Rightarrow> nat set \<Rightarrow> nat \<Rightarrow> nat set" where
  "now_missing n missing m = (if m < n then missing - {m} else missing \<union> {n..<m})"

lemma decrypt_chain:
  assumes "receiving_on L ck pub n missing s"
    and "m \<in> missing \<or> n \<le> m" "int m \<le> int n + MAX_SKIP"
    and "openWithMessageKey L (message_key L ck m) (chain_header pub prev m) c ad = Inr p"
  obtains s' where "ratchetDecrypt L i (chain_header pub prev m) c ad s = (Inr p, s')"
    "receiving_on L ck pub (next_number n m) (now_missing n missing m) s'"
proof (cases "m \<in> missing")
  case True
  then have "m < n" using assms(1) by (auto simp: receiving_on_def)
  let ?key = "skipKey pub (Num (int m))"
  have "getSkippedMessageKey (chain_header pub prev m) s = Some (?key, message_key L ck m)"
    using assms(1) True by (simp add: receiving_on_def getSkippedMessageKey_def chain_header_def)
  then have "ratchetDecrypt L i (chain_header pub prev m) c ad s =
      (Inr p, s\<lparr>skippedMessageKeys := mdel ?key (skippedMessageKeys s)\<rparr>)"
    using assms(4) by (simp add: ratchetDecrypt_def decrypt_try_def)
  moreover have "receiving_on L ck pub n (missing - {m})
      (s\<lparr>skippedMessageKeys := mdel ?key (skippedMessageKeys s)\<rparr>)"
    using assms(1) unfolding receiving_on_def by auto
  ultimately show thesis using that \<open>m < n\<close> by (simp add: next_number_def now_missing_def)
next
  case False
  with assms(2) have "n \<le> m" by simp
  then obtain s' where "decrypt_tail L (chain_header pub prev m) c ad s = (Inr p, s')"
    "receiving_on L ck pub (Suc m) (missing \<union> {n..<m}) s'"
    using decrypt_tail_next [OF assms(1) _ assms(3,4)] by metis
  moreover have "getSkippedMessageKey (chain_header pub prev m) s = None"
    using assms(1) False by (simp add: receiving_on_def getSkippedMessageKey_def chain_header_def)
  moreover have "dhRemote s = Some pub" "dhPublicKey (chain_header pub prev m) = pub"
    using assms(1) by (simp_all add: receiving_on_def chain_header_def)
  ultimately have "ratchetDecrypt L i (chain_header pub prev m) c ad s = (Inr p, s')"
    "receiving_on L ck pub (next_number n m) (now_missing n missing m) s'"
    using \<open>n \<le> m\<close> by (simp_all add: ratchetDecrypt_def decrypt_try_def next_number_def now_missing_def)
  then show thesis by (rule that)
qed

section \<open>Runs\<close>

text \<open>A sender encrypts a list of messages in turn, a receiver decrypts a list of deliveries in turn.\<close>

type_synonym delivery = "RatchetHeader \<times> bytes \<times> bytes"

fun encrypt_all :: "lib \<Rightarrow> (bytes \<times> bytes) list \<Rightarrow> RatchetState \<Rightarrow> delivery list res \<times> RatchetState" where
  "encrypt_all L [] s = (Inr [], s)"
| "encrypt_all L ((p, ad) # ps) s = (case ratchetEncrypt L p ad s of
      (Inl e, s1) \<Rightarrow> (Inl e, s1)
    | (Inr (h, c), s1) \<Rightarrow> (case encrypt_all L ps s1 of
          (Inl e, s2) \<Rightarrow> (Inl e, s2)
        | (Inr ws, s2) \<Rightarrow> (Inr ((h, c, ad) # ws), s2)))"

fun decrypt_all :: "lib \<Rightarrow> nat \<Rightarrow> delivery list \<Rightarrow> RatchetState \<Rightarrow> bytes res list \<times> RatchetState" where
  "decrypt_all L i [] s = ([], s)"
| "decrypt_all L i ((h, c, ad) # ws) s = (case ratchetDecrypt L i h c ad s of
      (r, s1) \<Rightarrow> (case decrypt_all L (Suc i) ws s1 of (rs, s2) \<Rightarrow> (r # rs, s2)))"

text \<open>A delivery that opens under the key of its number to the plaintext sent.\<close>

definition genuine :: "lib \<Rightarrow> bytes \<Rightarrow> bytes \<Rightarrow> nat \<Rightarrow> delivery \<Rightarrow> bytes \<Rightarrow> bool" where
  "genuine L ck pub m w p \<longleftrightarrow> (\<exists>prev c ad. w = (chain_header pub prev m, c, ad) \<and>
     openWithMessageKey L (message_key L ck m) (chain_header pub prev m) c ad = Inr p)"

lemma encrypt_all_genuine:
  assumes "aead_correct L" "hash_sizes L" "sending_on L ck pub prev n s"
  shows "\<exists>ws s'. encrypt_all L ps s = (Inr ws, s') \<and> length ws = length ps \<and>
    sending_on L ck pub prev (n + length ps) s' \<and>
    (\<forall>k < length ps. genuine L ck pub (n + k) (ws ! k) (fst (ps ! k)))"
  using assms(3)
proof (induction ps arbitrary: n s)
  case Nil
  then show ?case by simp
next
  case (Cons x ps)
  obtain p ad where x: "x = (p, ad)" by (cases x)
  obtain c where c: "chain_cipher L ck pub prev n p ad = Some c"
    "openWithMessageKey L (message_key L ck n) (chain_header pub prev n) c ad = Inr p"
    using chain_cipher_ok [OF assms(1,2)] .
  obtain s1 where s1: "ratchetEncrypt L p ad s = (Inr (chain_header pub prev n, c), s1)"
    "sending_on L ck pub prev (Suc n) s1"
    using encrypt_chain [OF Cons.prems c(1)] by metis
  obtain ws s2 where ws: "encrypt_all L ps s1 = (Inr ws, s2)" "length ws = length ps"
    "sending_on L ck pub prev (Suc n + length ps) s2"
    "\<forall>k < length ps. genuine L ck pub (Suc n + k) (ws ! k) (fst (ps ! k))"
    using Cons.IH [OF s1(2)] by blast
  have "genuine L ck pub (n + k) (((chain_header pub prev n, c, ad) # ws) ! k) (fst ((x # ps) ! k))"
    if "k < length (x # ps)" for k
    using that ws(4) c(2) x by (cases k) (auto simp: genuine_def)
  with x s1(1) ws show ?case by auto
qed

lemma decrypt_all_chain:
  assumes "receiving_on L ck pub n missing s" "distinct order"
    and "\<forall>m \<in> set order. (m \<in> missing \<or> n \<le> m) \<and> int m \<le> MAX_SKIP"
    and "\<forall>m \<in> set order. genuine L ck pub m (w m) (p m)"
  shows "\<exists>s' n' missing'. decrypt_all L i (map w order) s = (map (\<lambda>m. Inr (p m)) order, s') \<and>
    receiving_on L ck pub n' missing' s' \<and> (\<forall>m \<in> set order. m < n' \<and> m \<notin> missing') \<and> n \<le> n' \<and>
    (\<forall>m. m < n \<longrightarrow> m \<notin> missing \<longrightarrow> m \<notin> missing') \<and>
    (\<forall>m. m < n' \<longrightarrow> m \<notin> set order \<longrightarrow> m \<in> missing \<or> n \<le> m \<longrightarrow> m \<in> missing')"
  using assms
proof (induction order arbitrary: n missing s i)
  case Nil
  then show ?case by (auto simp: receiving_on_def)
next
  case (Cons m order)
  obtain prev c ad where w: "w m = (chain_header pub prev m, c, ad)"
    "openWithMessageKey L (message_key L ck m) (chain_header pub prev m) c ad = Inr (p m)"
    using Cons.prems(4) by (auto simp: genuine_def)
  obtain s1 where s1: "ratchetDecrypt L i (chain_header pub prev m) c ad s = (Inr (p m), s1)"
    "receiving_on L ck pub (next_number n m) (now_missing n missing m) s1"
    using decrypt_chain [OF Cons.prems(1) _ _ w(2), of i] Cons.prems(3) by auto
  have step: "n \<le> next_number n m" "m < next_number n m" "m \<notin> now_missing n missing m"
    "\<forall>m'. m' < n \<longrightarrow> m' \<notin> missing \<longrightarrow> m' \<notin> now_missing n missing m"
    "\<forall>m'. m' \<noteq> m \<longrightarrow> m' \<in> missing \<or> n \<le> m' \<longrightarrow> m' \<in> now_missing n missing m \<or> next_number n m \<le> m'"
    using Cons.prems(1) by (auto simp: next_number_def now_missing_def receiving_on_def)
  have rest: "\<forall>m' \<in> set order. (m' \<in> now_missing n missing m \<or> next_number n m \<le> m') \<and> int m' \<le> MAX_SKIP"
  proof
    fix m' assume m': "m' \<in> set order"
    with Cons.prems(2) have "m' \<noteq> m" by auto
    with m' Cons.prems(3) step(5) show "(m' \<in> now_missing n missing m \<or> next_number n m \<le> m') \<and> int m' \<le> MAX_SKIP"
      by auto
  qed
  obtain s' n' missing' where IH: "decrypt_all L (Suc i) (map w order) s1 = (map (\<lambda>m. Inr (p m)) order, s')"
    "receiving_on L ck pub n' missing' s'" "\<forall>m' \<in> set order. m' < n' \<and> m' \<notin> missing'" "next_number n m \<le> n'"
    "\<forall>m'. m' < next_number n m \<longrightarrow> m' \<notin> now_missing n missing m \<longrightarrow> m' \<notin> missing'"
    "\<forall>m'. m' < n' \<longrightarrow> m' \<notin> set order \<longrightarrow> m' \<in> now_missing n missing m \<or> next_number n m \<le> m' \<longrightarrow> m' \<in> missing'"
    using Cons.IH [OF s1(2) _ rest, of "Suc i"] Cons.prems(2,4) by auto
  have "m < n' \<and> m \<notin> missing'" using IH(4,5) step(2,3) by auto
  moreover have "\<forall>m'. m' < n \<longrightarrow> m' \<notin> missing \<longrightarrow> m' \<notin> missing'" using IH(5) step(1,4) by auto
  moreover have "\<forall>m'. m' < n' \<longrightarrow> m' \<notin> set (m # order) \<longrightarrow> m' \<in> missing \<or> n \<le> m' \<longrightarrow> m' \<in> missing'"
    using IH(6) step(5) by auto
  moreover have "decrypt_all L i (map w (m # order)) s = (map (\<lambda>m. Inr (p m)) (m # order), s')"
    using w(1) s1(1) IH(1) by simp
  ultimately show ?case using IH(2,3,4) step(1) by (intro exI [of _ s'] exI [of _ n'] exI [of _ missing']) auto
qed

section \<open>Starting a conversation\<close>

text \<open>
  From one root key, the initiator's sending chain is the receiving chain the responder derives when
  the first message arrives, whichever message that is.
\<close>

lemma init_initiator:
  assumes "x25519_commutes L" "hash_sizes L"
    and "length (xPrivateKey rkp) = 32" "xPublicKey rkp = x_public L (xPrivateKey rkp)"
  obtains s dh where "initAsInitiator L i root (xPublicKey rkp) = Inr s"
    "deriveSharedSecret L (xPrivateKey rkp) (xPublicKey (generateX25519KeyPair L i)) = Inr dh"
    "sending_on L (snd (kdfRootKey L root dh)) (xPublicKey (generateX25519KeyPair L i)) 0 0 s"
proof -
  let ?e = "generateX25519KeyPair L i"
  have e: "length (xPrivateKey ?e) = 32" "xPublicKey ?e = x_public L (xPrivateKey ?e)"
    using assms(2) by (simp_all add: generateX25519KeyPair_def hash_sizesD Let_def)
  obtain dh where dh: "x_shared L (xPrivateKey ?e) (xPublicKey rkp) = Some dh"
    "x_shared L (xPrivateKey rkp) (xPublicKey ?e) = Some dh"
    using x25519_commutesE [OF assms(1) e(1) assms(3)] e(2) assms(4) by metis
  then show thesis
    using that by (simp add: initAsInitiator_def deriveSharedSecret_def sending_on_def Let_def case_prod_beta)
qed

lemma first_dh_step:
  assumes laws: "x25519_commutes L" "hash_sizes L"
    and remote: "length a = 32" "remote = x_public L a"
    and dh: "deriveSharedSecret L (xPrivateKey (dhSelf s)) remote = Inr dh"
    and fresh: "\<forall>i. mget (skippedMessageKeys s) (skipKey remote (Num (int i))) = None"
  obtains s' where "performDhRatchetStep L j remote s = (Inr (), s')"
    "receiving_on L (snd (kdfRootKey L (ratchetRootKey s) dh)) remote 0 {} s'"
proof -
  let ?e = "generateX25519KeyPair L j"
  have "length (xPrivateKey ?e) = 32"
    using laws(2) by (simp add: generateX25519KeyPair_def hash_sizesD Let_def)
  then obtain dh2 where "deriveSharedSecret L (xPrivateKey ?e) remote = Inr dh2"
    using x25519_commutesE [OF laws(1) _ remote(1)] remote(2)
    unfolding deriveSharedSecret_def by (metis of_lib_simps(2))
  with dh fresh show thesis
    using that by (simp add: performDhRatchetStep_def Let_def case_prod_beta receiving_on_def)
qed

lemma decrypt_first:
  assumes laws: "x25519_commutes L" "hash_sizes L"
    and remote: "length a = 32" "pub = x_public L a"
    and dh: "deriveSharedSecret L (xPrivateKey rkp) pub = Inr dh"
    and msg: "genuine L (snd (kdfRootKey L root dh)) pub m (h, c, ad) p" "int m \<le> MAX_SKIP"
  obtains s' where "ratchetDecrypt L j h c ad (initAsResponder root rkp) = (Inr p, s')"
    "receiving_on L (snd (kdfRootKey L root dh)) pub (Suc m) {0..<m} s'"
proof -
  let ?s = "initAsResponder root rkp"
  let ?ck = "snd (kdfRootKey L root dh)"
  obtain prev where h: "h = chain_header pub prev m"
      "openWithMessageKey L (message_key L ?ck m) (chain_header pub prev m) c ad = Inr p"
    using msg(1) by (auto simp: genuine_def)
  have "deriveSharedSecret L (xPrivateKey (dhSelf ?s)) pub = Inr dh"
    "\<forall>i. mget (skippedMessageKeys ?s) (skipKey pub (Num (int i))) = None" "ratchetRootKey ?s = root"
    using dh by (simp_all add: initAsResponder_def)
  then obtain s1 where s1: "performDhRatchetStep L j pub ?s = (Inr (), s1)"
    "receiving_on L ?ck pub 0 {} s1"
    using first_dh_step [OF laws remote, of ?s dh j] by metis
  obtain s' where s': "decrypt_tail L (chain_header pub prev m) c ad s1 = (Inr p, s')"
    "receiving_on L ?ck pub (Suc m) ({} \<union> {0..<m}) s'"
    using decrypt_tail_next [OF s1(2) _ _ h(2)] msg(2) by auto
  have "skipMessageKeysUntil L (Num (int prev)) ?s = (Inr (), ?s)"
    "getSkippedMessageKey h ?s = None" "dhRemote ?s = None"
    by (simp_all add: skipMessageKeysUntil_def getSkippedMessageKey_def initAsResponder_def)
  then have "ratchetDecrypt L j h c ad ?s = (Inr p, s')"
    using s1(1) s'(1) h(1) by (simp add: ratchetDecrypt_def decrypt_try_def chain_header_def)
  with s'(2) show thesis using that by simp
qed

lemma ratchet_any_order:
  assumes laws: "aead_correct L" "x25519_commutes L" "hash_sizes L"
    and rkp: "length (xPrivateKey rkp) = 32" "xPublicKey rkp = x_public L (xPrivateKey rkp)"
    and order: "distinct order" "\<forall>m \<in> set order. m < length ps \<and> m \<le> 1000"
  shows "\<exists>s0 ws s1 s2. initAsInitiator L i root (xPublicKey rkp) = Inr s0 \<and>
    encrypt_all L ps s0 = (Inr ws, s1) \<and> length ws = length ps \<and>
    decrypt_all L j (map ((!) ws) order) (initAsResponder root rkp) = (map (\<lambda>m. Inr (fst (ps ! m))) order, s2)"
proof -
  let ?a = "random_bytes L i 32" and ?pub = "xPublicKey (generateX25519KeyPair L i)"
  have a: "length ?a = 32" "?pub = x_public L ?a"
    using laws(3) by (simp_all add: hash_sizesD generateX25519KeyPair_def Let_def)
  obtain s0 dh where s0: "initAsInitiator L i root (xPublicKey rkp) = Inr s0"
    "deriveSharedSecret L (xPrivateKey rkp) ?pub = Inr dh"
    "sending_on L (snd (kdfRootKey L root dh)) ?pub 0 0 s0"
    using init_initiator [OF laws(2,3) rkp] .
  let ?ck = "snd (kdfRootKey L root dh)"
  obtain ws s1 where ws: "encrypt_all L ps s0 = (Inr ws, s1)" "length ws = length ps"
    "\<forall>k < length ps. genuine L ?ck ?pub k (ws ! k) (fst (ps ! k))"
    using encrypt_all_genuine [OF laws(1,3) s0(3), of ps] by auto
  have "\<exists>s2. decrypt_all L j (map ((!) ws) order) (initAsResponder root rkp) = (map (\<lambda>m. Inr (fst (ps ! m))) order, s2)"
  proof (cases order)
    case (Cons m rest)
    obtain h c ad where w: "ws ! m = (h, c, ad)" by (cases "ws ! m")
    have g: "genuine L ?ck ?pub m (h, c, ad) (fst (ps ! m))" "int m \<le> MAX_SKIP"
      using ws(3) order(2) w Cons by (auto simp: MAX_SKIP_def)
    obtain s' where s': "ratchetDecrypt L j h c ad (initAsResponder root rkp) = (Inr (fst (ps ! m)), s')"
      "receiving_on L ?ck ?pub (Suc m) {0..<m} s'"
      using decrypt_first [OF laws(2,3) a s0(2) g] .
    have "\<forall>m' \<in> set rest. (m' \<in> {0..<m} \<or> Suc m \<le> m') \<and> int m' \<le> MAX_SKIP"
    proof
      fix m' assume m': "m' \<in> set rest"
      with order(1) Cons have "m' \<noteq> m" by auto
      with m' order(2) Cons show "(m' \<in> {0..<m} \<or> Suc m \<le> m') \<and> int m' \<le> MAX_SKIP"
        by (auto simp: MAX_SKIP_def)
    qed
    then obtain s2 where "decrypt_all L (Suc j) (map ((!) ws) rest) s' = (map (\<lambda>m. Inr (fst (ps ! m))) rest, s2)"
      using decrypt_all_chain [OF s'(2), of rest "(!) ws" "\<lambda>m. fst (ps ! m)" "Suc j"] order ws(3) Cons by auto
    with Cons w s'(1) show ?thesis by simp
  qed simp
  with s0(1) ws show ?thesis by blast
qed

section \<open>Properties\<close>

text \<open>C10: Decryption is transactional. A ciphertext that is refused, for whatever reason and at
  whatever point (skipping, the DH step, the tag), leaves every field of the ratchet as it was.\<close>

theorem decrypt_transactional:
  assumes "ratchetDecrypt L i h c ad s = (Inl e, s')"
  shows "s' = s"
  using assms
  by (auto simp: ratchetDecrypt_def restoreState_def snapshotState_def Let_def
      split: prod.splits sum.splits)

definition test_responder :: RatchetState where
  "test_responder = initAsResponder (replicate 32 5)
     \<lparr>xPrivateKey = replicate 32 2, xPublicKey = replicate 32 2\<rparr>"

theorem decrypt_transactional_witness:
  "\<exists>e. ratchetDecrypt ref_lib 0 (chain_header (replicate 32 4) 0 1001) [] [] test_responder = (Inl e, test_responder)"
proof -
  let ?h = "chain_header (replicate 32 4) 0 1001"
  have "\<exists>e s'. ratchetDecrypt ref_lib 0 ?h [] [] test_responder = (Inl e, s')"
    by (simp add: ratchetDecrypt_def decrypt_try_def decrypt_tail_def getSkippedMessageKey_def
        skipMessageKeysUntil_def performDhRatchetStep_def deriveSharedSecret_def chain_header_def
        test_responder_def initAsResponder_def ref_lib_def generateX25519KeyPair_def MAX_SKIP_def
        Let_def case_prod_beta)
  then show ?thesis using decrypt_transactional by metis
qed

text \<open>C6: Out-of-order delivery. From one root key, the initiator encrypts any messages; a responder
  that receives any selection of the first 1001 of them in any order decrypts every one to the plaintext
  sent. No order of arrival, and no loss, desynchronises the two sides.\<close>

theorem any_order_delivery:
  assumes laws: "aead_correct L" "x25519_commutes L" "hash_sizes L"
    and rkp: "length (xPrivateKey rkp) = 32" "xPublicKey rkp = x_public L (xPrivateKey rkp)"
    and order: "distinct order" "\<forall>m \<in> set order. m < length ps \<and> m \<le> 1000"
  shows "\<exists>s0 ws s1 s2. initAsInitiator L i root (xPublicKey rkp) = Inr s0 \<and>
    encrypt_all L ps s0 = (Inr ws, s1) \<and> length ws = length ps \<and>
    decrypt_all L j (map ((!) ws) order) (initAsResponder root rkp) = (map (\<lambda>m. Inr (fst (ps ! m))) order, s2)"
  by (rule ratchet_any_order [OF assms])

theorem any_order_delivery_witness:
  "\<exists>s0 ws s1 s2. initAsInitiator ref_lib 3 (replicate 32 5) (replicate 32 2) = Inr s0 \<and>
    encrypt_all ref_lib [([10], []), ([11], []), ([12], [])] s0 = (Inr ws, s1) \<and>
    decrypt_all ref_lib 4 (map ((!) ws) [2, 0, 1]) test_responder = ([Inr [12], Inr [10], Inr [11]], s2)"
proof -
  let ?rkp = "\<lparr>xPrivateKey = replicate 32 2, xPublicKey = replicate 32 2\<rparr> :: X25519KeyPair"
  let ?ps = "[([10], []), ([11], []), ([12], [])] :: (bytes \<times> bytes) list"
  have k: "length (xPrivateKey ?rkp) = 32" "xPublicKey ?rkp = x_public ref_lib (xPrivateKey ?rkp)"
    by (simp_all add: ref_lib_def)
  have o: "distinct [2, 0, 1 :: nat]" "\<forall>m \<in> set [2, 0, 1 :: nat]. m < length ?ps \<and> m \<le> 1000" by simp_all
  from any_order_delivery [OF ref_aead_correct ref_x25519_commutes ref_hash_sizes k o, of 3 "replicate 32 5" 4]
  show ?thesis by (auto simp: test_responder_def)
qed

text \<open>C15: A message key is used once. After a message of the receiving chain was accepted, its key is
  neither cached nor ahead on the chain: a second delivery of the same message is refused without any
  change of state, unless its ciphertext also authenticates under the key of a later message.\<close>

theorem replay_needs_other_key:
  assumes "receiving_on L ck pub n missing s"
    and "m \<in> missing \<or> n \<le> m" "int m \<le> int n + 1000"
    and "openWithMessageKey L (message_key L ck m) (chain_header pub prev m) c ad = Inr p"
    and "ratchetDecrypt L i (chain_header pub prev m) c ad s = (r, s1)"
  shows "(\<exists>e. ratchetDecrypt L j (chain_header pub prev m) c ad s1 = (Inl e, s1)) \<or>
    (\<exists>m' p'. m < m' \<and> openWithMessageKey L (message_key L ck m') (chain_header pub prev m) c ad = Inr p')"
proof -
  have s1: "receiving_on L ck pub (next_number n m) (now_missing n missing m) s1"
    using decrypt_chain [OF assms(1,2) _ assms(4), of i] assms(3,5) by (metis MAX_SKIP_def prod.inject)
  have m: "m < next_number n m" "m \<notin> now_missing n missing m"
    using assms(1,2) by (auto simp: next_number_def now_missing_def receiving_on_def)
  have body: "getSkippedMessageKey (chain_header pub prev m) s1 = None"
    "dhRemote s1 = Some pub" "dhPublicKey (chain_header pub prev m) = pub"
    "skipMessageKeysUntil L (messageNumber (chain_header pub prev m)) s1 = (Inr (), s1)"
    "receivingChainKey s1 = Some (chain_key L ck (next_number n m))"
    using s1 m
    by (simp_all add: getSkippedMessageKey_def receiving_on_def chain_header_def skipMessageKeysUntil_def
        loop_bound_def MAX_SKIP_def)
  show ?thesis
  proof (cases "openWithMessageKey L (message_key L ck (next_number n m)) (chain_header pub prev m) c ad")
    case (Inl e)
    with body have "ratchetDecrypt L j (chain_header pub prev m) c ad s1 = (Inl e, s1)"
      by (simp add: ratchetDecrypt_def decrypt_try_def decrypt_tail_def message_key_def case_prod_beta
          restoreState_def snapshotState_def)
    then show ?thesis by blast
  next
    case (Inr p')
    with m(1) show ?thesis by blast
  qed
qed

definition test_receiver :: RatchetState where
  "test_receiver = test_responder\<lparr>dhRemote := Some [4], receivingChainKey := Some (replicate 32 6)\<rparr>"

lemma test_receiver_receiving: "receiving_on ref_lib (replicate 32 6) [4] 0 {} test_receiver"
  by (simp add: receiving_on_def test_receiver_def test_responder_def initAsResponder_def)

theorem replay_needs_other_key_witness:
  "\<exists>c s1. ratchetDecrypt ref_lib 0 (chain_header [4] 0 2) c [] test_receiver = (Inr [7, 8], s1) \<and>
    ((\<exists>e. ratchetDecrypt ref_lib 0 (chain_header [4] 0 2) c [] s1 = (Inl e, s1)) \<or>
     (\<exists>m' p'. 2 < m' \<and>
       openWithMessageKey ref_lib (message_key ref_lib (replicate 32 6) m') (chain_header [4] 0 2) c [] = Inr p'))"
proof -
  obtain c where c: "openWithMessageKey ref_lib (message_key ref_lib (replicate 32 6) 2) (chain_header [4] 0 2) c [] = Inr [7, 8]"
    using chain_cipher_ok [OF ref_aead_correct ref_hash_sizes] by metis
  obtain s1 where s1: "ratchetDecrypt ref_lib 0 (chain_header [4] 0 2) c [] test_receiver = (Inr [7, 8], s1)"
    using decrypt_chain [OF test_receiver_receiving _ _ c, of 0] by (auto simp: MAX_SKIP_def)
  have w: "2 \<in> {} \<or> 0 \<le> (2 :: nat)" "int 2 \<le> int 0 + 1000" by simp_all
  from replay_needs_other_key [OF test_receiver_receiving w c s1] s1 show ?thesis by blast
qed

lemma receiving_card:
  assumes "receiving_on L ck pub n missing s"
  shows "card missing \<le> length (skippedMessageKeys s)"
proof -
  have inj: "inj_on (\<lambda>i. skipKey pub (Num (int i))) missing" by (rule inj_onI) simp
  have "(\<lambda>i. skipKey pub (Num (int i))) ` missing \<subseteq> fst ` set (skippedMessageKeys s)"
  proof
    fix k assume "k \<in> (\<lambda>i. skipKey pub (Num (int i))) ` missing"
    then obtain i where "i \<in> missing" "k = skipKey pub (Num (int i))" by blast
    with assms have "mget (skippedMessageKeys s) k = Some (message_key L ck i)" by (simp add: receiving_on_def)
    then show "k \<in> fst ` set (skippedMessageKeys s)" by (force dest: map_of_SomeD)
  qed
  then have "card missing \<le> card (fst ` set (skippedMessageKeys s))"
    using inj by (metis List.finite_set card_image card_mono finite_imageI)
  also have "\<dots> \<le> length (skippedMessageKeys s)"
    by (metis card_length length_map list.set_map)
  finally show ?thesis .
qed

lemma gaps_indices:
  "map (\<lambda>k. f (n + 1001 * k + 1000)) [0..<Suc N] = f (n + 1000) # map (\<lambda>k. f (n + 1001 + 1001 * k + 1000)) [0..<N]"
proof -
  have "[0..<Suc N] = 0 # map Suc [0..<N]" by (simp add: upt_conv_Cons map_Suc_upt del: upt_Suc)
  then have "map (\<lambda>k. f (n + 1001 * k + 1000)) [0..<Suc N] =
      f (n + 1000) # map ((\<lambda>k. f (n + 1001 * k + 1000)) \<circ> Suc) [0..<N]"
    by (simp del: upt_Suc)
  also have "(\<lambda>k. f (n + 1001 * k + 1000)) \<circ> Suc = (\<lambda>k. f (n + 1001 + 1001 * k + 1000))"
    by (rule ext) (simp add: add.assoc)
  finally show ?thesis .
qed

lemma gap_card:
  assumes "receiving_on L ck pub n missing s"
  shows "card (missing \<union> {n..<n + 1000}) = card missing + 1000"
proof -
  have "missing \<subseteq> {..<n}" using assms by (simp add: receiving_on_def)
  then have "finite missing" "missing \<inter> {n..<n + 1000} = {}" using finite_subset by auto
  then show ?thesis by (simp add: card_Un_disjoint)
qed

lemma gap_step:
  assumes "receiving_on L ck pub n missing s" "\<forall>m. genuine L ck pub m (w m) (p m)"
  obtains h c ad s1 where "w (n + 1000) = (h, c, ad)" "ratchetDecrypt L i h c ad s = (Inr (p (n + 1000)), s1)"
    "receiving_on L ck pub (n + 1001) (missing \<union> {n..<n + 1000}) s1"
proof -
  obtain prev c ad where w: "w (n + 1000) = (chain_header pub prev (n + 1000), c, ad)"
    "openWithMessageKey L (message_key L ck (n + 1000)) (chain_header pub prev (n + 1000)) c ad = Inr (p (n + 1000))"
    using spec [OF assms(2), of "n + 1000"] unfolding genuine_def by blast
  have "n + 1000 \<in> missing \<or> n \<le> n + 1000" "int (n + 1000) \<le> int n + MAX_SKIP"
    by (simp_all add: MAX_SKIP_def)
  from decrypt_chain [OF assms(1) this w(2), of i] obtain s1 where
    "ratchetDecrypt L i (chain_header pub prev (n + 1000)) c ad s = (Inr (p (n + 1000)), s1)"
    "receiving_on L ck pub (next_number n (n + 1000)) (now_missing n missing (n + 1000)) s1" .
  then show thesis using that [OF w(1)] by (simp add: next_number_def now_missing_def add.commute)
qed

lemma gaps_accumulate:
  assumes "receiving_on L ck pub n missing s" "\<forall>m. genuine L ck pub m (w m) (p m)"
  shows "\<exists>s' missing'. decrypt_all L i (map (\<lambda>k. w (n + 1001 * k + 1000)) [0..<N]) s =
      (map (\<lambda>k. Inr (p (n + 1001 * k + 1000))) [0..<N], s') \<and>
    receiving_on L ck pub (n + 1001 * N) missing' s' \<and> card missing + 1000 * N \<le> card missing'"
  using assms(1)
proof (induction N arbitrary: n missing s i)
  case 0
  then show ?case by auto
next
  case (Suc N)
  obtain h c ad s1 where s1: "w (n + 1000) = (h, c, ad)" "ratchetDecrypt L i h c ad s = (Inr (p (n + 1000)), s1)"
    "receiving_on L ck pub (n + 1001) (missing \<union> {n..<n + 1000}) s1"
    using gap_step [OF Suc.prems assms(2)] .
  obtain s' missing' where s': "decrypt_all L (Suc i) (map (\<lambda>k. w (n + 1001 + 1001 * k + 1000)) [0..<N]) s1 =
      (map (\<lambda>k. Inr (p (n + 1001 + 1001 * k + 1000))) [0..<N], s')"
    "receiving_on L ck pub (n + 1001 + 1001 * N) missing' s'"
    "card (missing \<union> {n..<n + 1000}) + 1000 * N \<le> card missing'"
    using Suc.IH [OF s1(3), of "Suc i"] by blast
  have "decrypt_all L i (map (\<lambda>k. w (n + 1001 * k + 1000)) [0..<Suc N]) s =
      (map (\<lambda>k. Inr (p (n + 1001 * k + 1000))) [0..<Suc N], s')"
    unfolding gaps_indices [of w] gaps_indices [of "\<lambda>m. Inr (p m)"] using s1(1,2) s'(1) by simp
  moreover have "n + 1001 * Suc N = n + 1001 + 1001 * N" "card missing + 1000 * Suc N \<le> card missing'"
    using s'(3) gap_card [OF Suc.prems] by simp_all
  ultimately show ?case using s'(2) by metis
qed

text \<open>The cache of skipped keys is bounded per gap only. A sender whose messages
  1000, 2001, 3002, ... arrive while all others are lost makes the receiver cache at least 1000 keys for
  each of them, every message being accepted: the number of cached keys has no bound.\<close>

theorem skipped_cache_unbounded:
  assumes "receiving_on L ck pub 0 {} s" "\<forall>m. genuine L ck pub m (w m) (p m)"
  shows "\<exists>s'. decrypt_all L i (map (\<lambda>k. w (1001 * k + 1000)) [0..<N]) s =
      (map (\<lambda>k. Inr (p (1001 * k + 1000))) [0..<N], s') \<and>
    1000 * N \<le> length (skippedMessageKeys s')"
proof -
  obtain s' missing' where s': "decrypt_all L i (map (\<lambda>k. w (0 + 1001 * k + 1000)) [0..<N]) s =
      (map (\<lambda>k. Inr (p (0 + 1001 * k + 1000))) [0..<N], s')"
    "receiving_on L ck pub (0 + 1001 * N) missing' s'" "card ({} :: nat set) + 1000 * N \<le> card missing'"
    using gaps_accumulate [OF assms, of i N] by blast
  with receiving_card [OF s'(2)] show ?thesis by auto
qed

theorem skipped_cache_unbounded_witness:
  "\<exists>w s'. decrypt_all ref_lib 0 (map (\<lambda>k. w (1001 * k + 1000)) [0..<50]) test_receiver =
      (map (\<lambda>k. Inr [1]) [0..<50], s') \<and> 50000 \<le> length (skippedMessageKeys s')"
proof -
  have "\<forall>m. \<exists>x. genuine ref_lib (replicate 32 6) [4] m x [1]"
    unfolding genuine_def using chain_cipher_ok [OF ref_aead_correct ref_hash_sizes] by metis
  then obtain w where "\<forall>m. genuine ref_lib (replicate 32 6) [4] m (w m) [1]" by metis
  from skipped_cache_unbounded [OF test_receiver_receiving this, of 0 50] show ?thesis by auto
qed

end
