(* ===== verification/Envelope.thy ===== *)
theory Envelope
  imports Identity Ratchet
begin

text \<open>
  \<open>src/envelope/envelope.ts\<close>: the packet format. The numeric header fields are JavaScript numbers of
  any kind, because \<open>decodeEnvelope\<close> does not check them: \<open>ttl\<close> and \<open>timestamp\<close>, which the code
  only uses in arithmetic and comparisons, are read from the wire through \<open>ToNumber\<close>; \<open>version\<close> and
  \<open>packetType\<close>, which it compares with \<open>===\<close>, keep a number or become \<open>NaN\<close>. Time is \<open>nowMs\<close>, the
  value of \<open>Date.now()\<close>.
\<close>

section \<open>Packets\<close>

datatype PacketType = Handshake | Data | Ack | RoutingAdvertisement | StoreForwardSync | EmergencyBroadcast

definition packet_code :: "PacketType \<Rightarrow> jsnum" where
  "packet_code p = (case p of Handshake \<Rightarrow> Num 0 | Data \<Rightarrow> Num 1 | Ack \<Rightarrow> Num 2
     | RoutingAdvertisement \<Rightarrow> Num 3 | StoreForwardSync \<Rightarrow> Num 4 | EmergencyBroadcast \<Rightarrow> Num 5)"

record RoutingHeader =
  version :: jsnum
  packetType :: jsnum
  messageId :: bytes
  ttl :: jsnum
  destinationHint :: bytes
  timestamp :: jsnum

record Envelope =
  header :: RoutingHeader
  sealedPayload :: bytes

definition PROTOCOL_VERSION :: jsnum where
  "PROTOCOL_VERSION = Num 1"

definition DEFAULT_TTL :: jsnum where
  "DEFAULT_TTL = Num 16"

definition TIMESTAMP_GRANULARITY_SECONDS :: int where
  "TIMESTAMP_GRANULARITY_SECONDS = 60"

definition DESTINATION_HINT_LENGTH :: nat where
  "DESTINATION_HINT_LENGTH = 8"

definition ACK_CONTEXT :: bytes where
  "ACK_CONTEXT = text_encode ''ZAYCOMM_DELIVERY_ACK_V1''"

definition DATA_AAD_CONTEXT :: bytes where
  "DATA_AAD_CONTEXT = text_encode ''ZAYCOMM_DATA_ENVELOPE_AAD_V1''"

definition coarseTimestamp :: "int \<Rightarrow> jsnum" where
  "coarseTimestamp nowMs =
     (let now = nowMs div 1000 in Num (now - now mod TIMESTAMP_GRANULARITY_SECONDS))"

definition headerToTuple :: "RoutingHeader \<Rightarrow> jsval" where
  "headerToTuple h = JArr [JNum (version h), JNum (packetType h), JBytes (messageId h), JNum (ttl h),
     JBytes (destinationHint h), JNum (timestamp h)]"

definition tupleToHeader :: "jsval \<Rightarrow> RoutingHeader res" where
  "tupleToHeader tuple =
     rbind (js_index tuple 0) (\<lambda>v. rbind (js_index tuple 1) (\<lambda>p.
     rbind (rbind (js_index tuple 2) uint8_from) (\<lambda>mid. rbind (js_index tuple 3) (\<lambda>t.
     rbind (rbind (js_index tuple 4) uint8_from) (\<lambda>hint. rbind (js_index tuple 5) (\<lambda>ts.
       Inr \<lparr>version = strict_number v, packetType = strict_number p, messageId = mid,
            ttl = to_number t, destinationHint = hint, timestamp = to_number ts\<rparr>))))))"

definition encodeEnvelope :: "lib \<Rightarrow> Envelope \<Rightarrow> bytes" where
  "encodeEnvelope L e = cbor_encode L (JArr [headerToTuple (header e), JBytes (sealedPayload e)])"

definition decodeEnvelope :: "lib \<Rightarrow> bytes \<Rightarrow> Envelope res" where
  "decodeEnvelope L bytes =
     rbind (of_lib (cbor_decode L bytes)) (\<lambda>tuple.
     rbind (rbind (js_index tuple 0) tupleToHeader) (\<lambda>h.
     rbind (rbind (js_index tuple 1) uint8_from) (\<lambda>payload.
       Inr \<lparr>header = h, sealedPayload = payload\<rparr>)))"

definition validateRoutingHeader :: "int \<Rightarrow> int \<Rightarrow> RoutingHeader \<Rightarrow> bool" where
  "validateRoutingHeader nowMs maxAgeSeconds h =
     (let now = nowMs div 1000
      in if version h \<noteq> PROTOCOL_VERSION then False
         else if ttl h \<le> Num 0 then False
         else if Num (now + TIMESTAMP_GRANULARITY_SECONDS) < timestamp h then False
         else if Num maxAgeSeconds < num_sub (Num now) (timestamp h) then False
         else True)"

section \<open>Data envelopes\<close>

definition encodeDataEnvelopeAssociatedData :: "RoutingHeader \<Rightarrow> bytes res" where
  "encodeDataEnvelopeAssociatedData h =
     rbind (u64le (timestamp h)) (\<lambda>ts.
       Inr (concatBytes [DATA_AAD_CONTEXT, [to_uint8 (version h)], [to_uint8 (packetType h)],
              messageId h, destinationHint h, ts]))"

text \<open>\<open>mid\<close> is the message id drawn by \<open>randomBytes(16)\<close>.\<close>

definition make_header :: "int \<Rightarrow> bytes \<Rightarrow> PacketType \<Rightarrow> jsnum \<Rightarrow> bytes \<Rightarrow> RoutingHeader" where
  "make_header nowMs mid p t hint = \<lparr>version = PROTOCOL_VERSION, packetType = packet_code p,
     messageId = mid, ttl = t, destinationHint = hint, timestamp = coarseTimestamp nowMs\<rparr>"

definition sealed_tuple :: "RatchetHeader \<Rightarrow> bytes \<Rightarrow> jsval" where
  "sealed_tuple rh ciphertext = JArr [JBytes (dhPublicKey rh), JNum (previousChainLength rh),
     JNum (messageNumber rh), JBytes ciphertext]"

definition createDataEnvelope ::
    "lib \<Rightarrow> int \<Rightarrow> bytes \<Rightarrow> bytes \<Rightarrow> RatchetHeader \<Rightarrow> bytes \<Rightarrow> jsnum \<Rightarrow> Envelope" where
  "createDataEnvelope L nowMs mid hint ratchetHeader ciphertext t =
     \<lparr>header = make_header nowMs mid Data t hint,
      sealedPayload = cbor_encode L (sealed_tuple ratchetHeader ciphertext)\<rparr>"

definition createAuthenticatedDataEnvelope ::
    "lib \<Rightarrow> int \<Rightarrow> bytes \<Rightarrow> bytes \<Rightarrow> bytes \<Rightarrow> jsnum \<Rightarrow> RatchetState \<Rightarrow> Envelope res \<times> RatchetState" where
  "createAuthenticatedDataEnvelope L nowMs mid hint plaintext t ratchet =
     (let h = make_header nowMs mid Data t hint
      in case encodeDataEnvelopeAssociatedData h of
           Inl e \<Rightarrow> (Inl e, ratchet)
         | Inr aad \<Rightarrow> (case ratchetEncrypt L plaintext aad ratchet of
               (Inl e, r1) \<Rightarrow> (Inl e, r1)
             | (Inr (rh, ciphertext), r1) \<Rightarrow>
                 (Inr \<lparr>header = h, sealedPayload = cbor_encode L (sealed_tuple rh ciphertext)\<rparr>, r1)))"

text \<open>The counters of the ratchet header are only used arithmetically: they are read by \<open>ToNumber\<close>.\<close>

definition openDataEnvelope :: "lib \<Rightarrow> Envelope \<Rightarrow> (RatchetHeader \<times> bytes) res" where
  "openDataEnvelope L e =
     rbind (of_lib (cbor_decode L (sealedPayload e))) (\<lambda>tuple.
     rbind (rbind (js_index tuple 0) uint8_from) (\<lambda>dh. rbind (js_index tuple 1) (\<lambda>prev.
     rbind (js_index tuple 2) (\<lambda>num. rbind (rbind (js_index tuple 3) uint8_from) (\<lambda>ciphertext.
       Inr (\<lparr>dhPublicKey = dh, previousChainLength = to_number prev, messageNumber = to_number num\<rparr>,
            ciphertext))))))"

definition openAuthenticatedDataEnvelope ::
    "lib \<Rightarrow> nat \<Rightarrow> Envelope \<Rightarrow> RatchetState \<Rightarrow> bytes res \<times> RatchetState" where
  "openAuthenticatedDataEnvelope L i e ratchet =
     (if packetType (header e) \<noteq> packet_code Data then (Inl (Err ''Not a data envelope.''), ratchet)
      else case openDataEnvelope L e of
             Inl err \<Rightarrow> (Inl err, ratchet)
           | Inr (rh, ciphertext) \<Rightarrow> (case encodeDataEnvelopeAssociatedData (header e) of
                 Inl err \<Rightarrow> (Inl err, ratchet)
               | Inr aad \<Rightarrow> ratchetDecrypt L i rh ciphertext aad ratchet))"

section \<open>Sync, acknowledgement and broadcast envelopes\<close>

definition createSyncEnvelope :: "int \<Rightarrow> bytes \<Rightarrow> bytes \<Rightarrow> jsnum \<Rightarrow> Envelope" where
  "createSyncEnvelope nowMs mid payload t =
     \<lparr>header = make_header nowMs mid StoreForwardSync t (replicate 8 0), sealedPayload = payload\<rparr>"

definition createBroadcastEnvelope :: "int \<Rightarrow> bytes \<Rightarrow> bytes \<Rightarrow> jsnum \<Rightarrow> Envelope" where
  "createBroadcastEnvelope nowMs mid payload t =
     \<lparr>header = make_header nowMs mid EmergencyBroadcast t (replicate 8 0), sealedPayload = payload\<rparr>"

definition ack_signing_message :: "lib \<Rightarrow> bytes \<Rightarrow> bytes \<Rightarrow> bytes" where
  "ack_signing_message L acknowledgedMessageId signerPublicKey =
     concatBytes [ACK_CONTEXT, slice 0 DESTINATION_HINT_LENGTH (sha256 L signerPublicKey),
       acknowledgedMessageId, signerPublicKey]"

definition createAckEnvelope ::
    "lib \<Rightarrow> int \<Rightarrow> bytes \<Rightarrow> bytes \<Rightarrow> bytes \<Rightarrow> Identity \<Rightarrow> jsnum \<Rightarrow> Envelope res" where
  "createAckEnvelope L nowMs mid hint acknowledgedMessageId signer t =
     rbind (signMessage L (ack_signing_message L acknowledgedMessageId (publicKey signer)) (privateKey signer))
       (\<lambda>signature. Inr \<lparr>header = make_header nowMs mid Ack t hint,
          sealedPayload = cbor_encode L
            (JArr [JBytes acknowledgedMessageId, JBytes (publicKey signer), JBytes signature])\<rparr>)"

record VerifiedAck =
  acknowledgedMessageId :: bytes
  signerPublicKey :: bytes
  signerDestinationHint :: bytes

definition verifyAckEnvelope :: "lib \<Rightarrow> Envelope \<Rightarrow> VerifiedAck option" where
  "verifyAckEnvelope L e =
     (if packetType (header e) \<noteq> packet_code Ack then None
      else case cbor_decode L (sealedPayload e) of
             None \<Rightarrow> None
           | Some tuple \<Rightarrow>
               (if \<not> is_array tuple \<or> arr_length tuple \<noteq> 3 then None
                else case or_null (
                  rbind (rbind (js_index tuple 0) uint8_from) (\<lambda>mid.
                  rbind (rbind (js_index tuple 1) uint8_from) (\<lambda>pk.
                  rbind (rbind (js_index tuple 2) uint8_from) (\<lambda>signature.
                  rbind (verifySignature L signature (ack_signing_message L mid pk) pk) (\<lambda>valid.
                    Inr (valid, mid, pk)))))) of
                    None \<Rightarrow> None
                  | Some (valid, mid, pk) \<Rightarrow>
                      (if \<not> valid then None
                       else Some \<lparr>acknowledgedMessageId = mid, signerPublicKey = pk,
                         signerDestinationHint = slice 0 DESTINATION_HINT_LENGTH (sha256 L pk)\<rparr>)))"

section \<open>Lemmas\<close>

lemma packet_code_eq_iff [simp]: "packet_code p = packet_code q \<longleftrightarrow> p = q"
  by (cases p; cases q) (simp_all add: packet_code_def)

definition plain_header :: "RoutingHeader \<Rightarrow> bool" where
  "plain_header h \<longleftrightarrow> is_safe_integer (version h) \<and> is_safe_integer (packetType h) \<and>
     is_safe_integer (ttl h) \<and> is_safe_integer (timestamp h)"

lemma tupleToHeader_headerToTuple [simp]: "tupleToHeader (headerToTuple h) = Inr h"
  by (simp add: tupleToHeader_def headerToTuple_def numeral_eq_Suc)

lemma decode_encode_envelope:
  assumes "cbor_roundtrips L" "plain_header (header e)"
  shows "decodeEnvelope L (encodeEnvelope L e) = Inr e"
proof -
  have "cbor_plain (JArr [headerToTuple (header e), JBytes (sealedPayload e)])"
    using assms(2) by (simp add: plain_header_def headerToTuple_def)
  then have "cbor_decode L (encodeEnvelope L e) = Some (JArr [headerToTuple (header e), JBytes (sealedPayload e)])"
    unfolding encodeEnvelope_def by (rule cbor_roundtripsD [OF assms(1)])
  then show ?thesis by (simp add: decodeEnvelope_def)
qed

lemma validate_Num:
  "timestamp h = Num ts \<Longrightarrow> validateRoutingHeader nowMs maxAge h \<longleftrightarrow>
     version h = Num 1 \<and> \<not> ttl h \<le> Num 0 \<and> ts \<le> nowMs div 1000 + 60 \<and> nowMs div 1000 - ts \<le> maxAge"
  by (auto simp: validateRoutingHeader_def PROTOCOL_VERSION_def TIMESTAMP_GRANULARITY_SECONDS_def Let_def)

lemma coarseTimestamp_bounds:
  obtains ts where "coarseTimestamp nowMs = Num ts" "ts \<le> nowMs div 1000" "nowMs div 1000 < ts + 60" "60 dvd ts"
proof -
  let ?n = "nowMs div 1000"
  have "0 \<le> ?n mod 60" "?n mod 60 < 60" by simp_all
  then show thesis
    using that [of "?n - ?n mod 60"]
    by (simp add: coarseTimestamp_def Let_def TIMESTAMP_GRANULARITY_SECONDS_def)
qed

lemma make_header_valid:
  assumes "0 < t" "60 \<le> maxAge"
  shows "validateRoutingHeader nowMs maxAge (make_header nowMs mid p (Num t) hint)"
proof -
  obtain ts where "coarseTimestamp nowMs = Num ts" "ts \<le> nowMs div 1000" "nowMs div 1000 < ts + 60"
    using coarseTimestamp_bounds [of nowMs] by metis
  then show ?thesis
    using assms by (simp add: validate_Num [of _ ts] make_header_def PROTOCOL_VERSION_def)
qed

lemma make_header_select [simp]:
  "version (make_header nowMs mid p t hint) = Num 1" "packetType (make_header nowMs mid p t hint) = packet_code p"
  "messageId (make_header nowMs mid p t hint) = mid" "ttl (make_header nowMs mid p t hint) = t"
  "destinationHint (make_header nowMs mid p t hint) = hint"
  "timestamp (make_header nowMs mid p t hint) = coarseTimestamp nowMs"
  by (simp_all add: make_header_def PROTOCOL_VERSION_def)

lemma verifyAckEnvelope_Some:
  "verifyAckEnvelope L e = Some a \<longleftrightarrow> packetType (header e) = packet_code Ack \<and>
     (\<exists>x y z mid pk sig. cbor_decode L (sealedPayload e) = Some (JArr [x, y, z]) \<and>
        uint8_from x = Inr mid \<and> uint8_from y = Inr pk \<and> uint8_from z = Inr sig \<and>
        ed_verify L sig (ack_signing_message L mid pk) pk = Some True \<and>
        a = \<lparr>acknowledgedMessageId = mid, signerPublicKey = pk,
             signerDestinationHint = slice 0 DESTINATION_HINT_LENGTH (sha256 L pk)\<rparr>)"
  by (auto simp: verifyAckEnvelope_def is_array_iff res_simps verifySignature_def numeral_3_eq_3 length_Suc_conv
      split: option.splits if_splits)

lemma encodeAAD_Num:
  "timestamp h = Num ts \<Longrightarrow> encodeDataEnvelopeAssociatedData h =
     Inr (DATA_AAD_CONTEXT @ [to_uint8 (version h), to_uint8 (packetType h)] @ messageId h @ destinationHint h
       @ le_bytes 8 (word_of_int ts :: 64 word))"
  by (simp add: encodeDataEnvelopeAssociatedData_def)

lemma encodeAAD_ttl [simp]:
  "encodeDataEnvelopeAssociatedData (h\<lparr>ttl := t\<rparr>) = encodeDataEnvelopeAssociatedData h"
  by (simp add: encodeDataEnvelopeAssociatedData_def)

lemma openDataEnvelope_sealed:
  assumes "cbor_roundtrips L" "sealedPayload e = cbor_encode L (sealed_tuple rh c)"
    "is_safe_integer (previousChainLength rh)" "is_safe_integer (messageNumber rh)"
  shows "openDataEnvelope L e = Inr (rh, c)"
proof -
  have "cbor_plain (sealed_tuple rh c)" using assms(3,4) by (simp add: sealed_tuple_def)
  then have "cbor_decode L (sealedPayload e) = Some (sealed_tuple rh c)"
    unfolding assms(2) by (rule cbor_roundtripsD [OF assms(1)])
  then show ?thesis by (simp add: openDataEnvelope_def sealed_tuple_def numeral_eq_Suc)
qed

section \<open>Properties\<close>

text \<open>Encoding an envelope and decoding the frame gives the envelope back, for every header whose
  numbers are safe integers.\<close>

theorem envelope_roundtrip:
  assumes "cbor_roundtrips L" "plain_header (header e)"
  shows "decodeEnvelope L (encodeEnvelope L e) = Inr e"
  using assms by (rule decode_encode_envelope)

definition test_envelope :: Envelope where
  "test_envelope = \<lparr>header = \<lparr>version = Num 1, packetType = Num 1, messageId = replicate 16 9, ttl = Num 16,
     destinationHint = replicate 8 3, timestamp = Num 1700000040\<rparr>, sealedPayload = [1, 2, 3]\<rparr>"

theorem envelope_roundtrip_witness:
  "decodeEnvelope ref_lib (encodeEnvelope ref_lib test_envelope) = Inr test_envelope"
  by (rule envelope_roundtrip) (simp_all add: plain_header_def test_envelope_def)

text \<open>End-to-end delivery through relays. An authenticated data envelope is opened by the peer's
  ratchet to the plaintext, although every relay on the way rewrote the hop counter; it is opened in any
  position of the conversation that the ratchet can still reach.\<close>

theorem authenticated_envelope_delivery:
  assumes "cbor_roundtrips L" "aead_correct L" "hash_sizes L"
    and "sending_on L ck pub prev m sender" "receiving_on L ck pub n missing receiver"
    and "m \<in> missing \<or> n \<le> m" "int m \<le> int n + 1000" "int m < 2 ^ 53" "int prev < 2 ^ 53"
  shows "\<exists>e sender' receiver'.
    createAuthenticatedDataEnvelope L nowMs mid hint plaintext t sender = (Inr e, sender') \<and>
    openAuthenticatedDataEnvelope L i (e\<lparr>header := (header e)\<lparr>ttl := t'\<rparr>\<rparr>) receiver = (Inr plaintext, receiver')"
proof -
  let ?h = "make_header nowMs mid Data t hint"
  obtain ts where ts: "timestamp ?h = Num ts" using coarseTimestamp_bounds [of nowMs] by (metis make_header_select(6))
  obtain aad where aad: "encodeDataEnvelopeAssociatedData ?h = Inr aad" using encodeAAD_Num [OF ts] by blast
  obtain c where c: "chain_cipher L ck pub prev m plaintext aad = Some c"
    "openWithMessageKey L (message_key L ck m) (chain_header pub prev m) c aad = Inr plaintext"
    using chain_cipher_ok [OF assms(2,3)] .
  obtain sender' where s: "ratchetEncrypt L plaintext aad sender = (Inr (chain_header pub prev m, c), sender')"
    using encrypt_chain [OF assms(4) c(1)] by metis
  have "int m \<le> int n + MAX_SKIP" using assms(7) by (simp add: MAX_SKIP_def)
  then obtain receiver' where r: "ratchetDecrypt L i (chain_header pub prev m) c aad receiver = (Inr plaintext, receiver')"
    using decrypt_chain [OF assms(5,6) _ c(2), of i] by metis
  let ?e = "\<lparr>header = ?h, sealedPayload = cbor_encode L (sealed_tuple (chain_header pub prev m) c)\<rparr>"
  have "createAuthenticatedDataEnvelope L nowMs mid hint plaintext t sender = (Inr ?e, sender')"
    using aad s by (simp add: createAuthenticatedDataEnvelope_def Let_def)
  moreover have "openDataEnvelope L (?e\<lparr>header := (header ?e)\<lparr>ttl := t'\<rparr>\<rparr>) = Inr (chain_header pub prev m, c)"
    using assms(8,9) by (intro openDataEnvelope_sealed [OF assms(1)]) (simp_all add: chain_header_def)
  then have "openAuthenticatedDataEnvelope L i (?e\<lparr>header := (header ?e)\<lparr>ttl := t'\<rparr>\<rparr>) receiver = (Inr plaintext, receiver')"
    using aad r by (simp add: openAuthenticatedDataEnvelope_def)
  ultimately show ?thesis by blast
qed

definition test_sender :: RatchetState where
  "test_sender = test_responder\<lparr>dhSelf := \<lparr>xPrivateKey = [4], xPublicKey = [4]\<rparr>,
     sendingChainKey := Some (replicate 32 6)\<rparr>"

theorem authenticated_envelope_delivery_witness:
  "\<exists>e sender' receiver'.
    createAuthenticatedDataEnvelope ref_lib 1700000000000 [9] [3] [104, 105] (Num 16) test_sender = (Inr e, sender') \<and>
    openAuthenticatedDataEnvelope ref_lib 0 (e\<lparr>header := (header e)\<lparr>ttl := Num 2\<rparr>\<rparr>) test_receiver = (Inr [104, 105], receiver')"
proof -
  have "sending_on ref_lib (replicate 32 6) [4] 0 0 test_sender"
    by (simp add: sending_on_def test_sender_def test_responder_def initAsResponder_def)
  from authenticated_envelope_delivery [OF ref_cbor ref_aead_correct ref_hash_sizes this test_receiver_receiving]
  show ?thesis by simp
qed

text \<open>The associated data fixes the header. Two valid data headers with hints of the same length and
  the same associated data differ at most in the hop counter, the one field relays may change.\<close>

theorem aad_binds_header:
  assumes "validateRoutingHeader nowMs maxAge h" "validateRoutingHeader nowMs' maxAge' h'"
    and "packetType h = packet_code Data" "packetType h' = packet_code Data"
    and "timestamp h = Num ts" "timestamp h' = Num ts'" "0 \<le> ts" "ts < 2 ^ 64" "0 \<le> ts'" "ts' < 2 ^ 64"
    and "length (destinationHint h) = length (destinationHint h')"
    and "encodeDataEnvelopeAssociatedData h = encodeDataEnvelopeAssociatedData h'"
  shows "h' = h\<lparr>ttl := ttl h'\<rparr>"
proof -
  have eq: "(messageId h @ destinationHint h) @ le_bytes 8 (word_of_int ts :: 64 word) =
      (messageId h' @ destinationHint h') @ le_bytes 8 (word_of_int ts' :: 64 word)"
    using assms(12) by (simp add: encodeAAD_Num [OF assms(5)] encodeAAD_Num [OF assms(6)])
  then have "le_bytes 8 (word_of_int ts :: 64 word) = le_bytes 8 (word_of_int ts' :: 64 word)"
    and ids: "messageId h @ destinationHint h = messageId h' @ destinationHint h'"
    by (simp_all only: append_eq_append_conv length_le_bytes simp_thms)
  then have "ts = ts'" using word_of_int_inj_below [where 'a = 64, of ts ts'] assms(7-10) by simp
  moreover have "messageId h = messageId h'" "destinationHint h = destinationHint h'"
    using ids assms(11) by (simp_all add: append_eq_append_conv)
  moreover have "version h = Num 1" "version h' = Num 1"
    using assms(1,2) by (simp_all add: validate_Num [OF assms(5)] validate_Num [OF assms(6)])
  ultimately show ?thesis using assms(3-6) by (cases h; cases h') simp
qed

theorem aad_binds_header_witness:
  "(header test_envelope)\<lparr>ttl := Num 3\<rparr> = (header test_envelope)\<lparr>ttl := Num 3\<rparr>\<lparr>ttl := Num 3\<rparr>"
  using aad_binds_header [of 1700000050000 3600 "header test_envelope" 1700000050000 3600
      "(header test_envelope)\<lparr>ttl := Num 3\<rparr>" 1700000040 1700000040]
  by (simp add: validate_Num [of _ 1700000040] test_envelope_def packet_code_def)

text \<open>An acknowledgement made by an honest identity verifies, and names the acknowledged message and
  the signer; the signer's hint is the one a packet to that signer is addressed with.\<close>

theorem ack_roundtrip:
  assumes "cbor_roundtrips L" "ed25519_correct L" "honest_identity L signer"
  shows "\<exists>e. createAckEnvelope L nowMs mid hint acked signer t = Inr e \<and>
    verifyAckEnvelope L e = Some \<lparr>acknowledgedMessageId = acked, signerPublicKey = publicKey signer,
      signerDestinationHint = slice 0 8 (sha256 L (publicKey signer))\<rparr>"
proof -
  obtain s where s: "signMessage L (ack_signing_message L acked (publicKey signer)) (privateKey signer) = Inr s"
    "ed_verify L s (ack_signing_message L acked (publicKey signer)) (publicKey signer) = Some True"
    using honest_sign [OF assms(2,3)] by metis
  let ?t = "JArr [JBytes acked, JBytes (publicKey signer), JBytes s]"
  have "cbor_decode L (cbor_encode L ?t) = Some ?t" by (rule cbor_roundtripsD [OF assms(1)]) simp
  with s show ?thesis
    by (simp add: createAckEnvelope_def verifyAckEnvelope_Some DESTINATION_HINT_LENGTH_def)
qed

theorem ack_roundtrip_witness:
  "\<exists>e. createAckEnvelope ref_lib 0 [1] [2] [3] alice (Num 16) = Inr e \<and>
    verifyAckEnvelope ref_lib e = Some \<lparr>acknowledgedMessageId = [3], signerPublicKey = publicKey alice,
      signerDestinationHint = slice 0 8 (sha256 ref_lib (publicKey alice))\<rparr>"
  by (rule ack_roundtrip) simp_all

text \<open>A verified acknowledgement is authentic. It carries a valid Ed25519 signature of the named
  signer over the acknowledged id, and the reported hint is derived from that signer's key, not taken
  from the packet.\<close>

theorem ack_authentic:
  assumes "verifyAckEnvelope L e = Some a"
  shows "(\<exists>signature. ed_verify L signature
      (ACK_CONTEXT @ signerDestinationHint a @ acknowledgedMessageId a @ signerPublicKey a) (signerPublicKey a) = Some True) \<and>
    signerDestinationHint a = slice 0 8 (sha256 L (signerPublicKey a)) \<and> packetType (header e) = packet_code Ack"
  using assms by (auto simp: verifyAckEnvelope_Some ack_signing_message_def DESTINATION_HINT_LENGTH_def)

theorem ack_authentic_witness:
  "\<exists>e a signature. verifyAckEnvelope ref_lib e = Some a \<and> ed_verify ref_lib signature
      (ACK_CONTEXT @ signerDestinationHint a @ acknowledgedMessageId a @ signerPublicKey a) (signerPublicKey a) = Some True"
proof -
  obtain s where s: "ed_sign ref_lib (ack_signing_message ref_lib [3] (publicKey alice)) (privateKey alice) = Some s"
    "ed_verify ref_lib s (ack_signing_message ref_lib [3] (publicKey alice)) (publicKey alice) = Some True"
    using honest_sign [OF ref_ed25519_correct honest_test_identities(1)] unfolding signMessage_def
    by (metis of_lib_simps(3))
  let ?t = "JArr [JBytes [3], JBytes (publicKey alice), JBytes s]"
  have "cbor_decode ref_lib (cbor_encode ref_lib ?t) = Some ?t" by (rule cbor_roundtripsD [OF ref_cbor]) simp
  with s obtain a where "verifyAckEnvelope ref_lib
      \<lparr>header = make_header 0 [1] Ack (Num 1) [2], sealedPayload = cbor_encode ref_lib ?t\<rparr> = Some a"
    by (auto simp: verifyAckEnvelope_Some)
  with ack_authentic [OF this] show ?thesis by blast
qed

text \<open>Expiry of a well-formed header. With an integral timestamp a header is valid exactly from one
  granule before its timestamp until \<open>maxAgeSeconds\<close> after it, for version 1 and a positive hop counter.\<close>

theorem header_validity_window:
  assumes "timestamp h = Num ts" "ttl h = Num t"
  shows "validateRoutingHeader nowMs maxAge h \<longleftrightarrow>
    version h = Num 1 \<and> 0 < t \<and> ts - 60 \<le> nowMs div 1000 \<and> nowMs div 1000 \<le> ts + maxAge"
  using assms by (auto simp: validate_Num)

theorem header_validity_window_witness:
  "\<not> validateRoutingHeader 1700003700000 3600 (header test_envelope) \<and>
   validateRoutingHeader 1700003600000 3600 (header test_envelope)"
  using header_validity_window [of "header test_envelope" 1700000040 16 1700003700000 3600]
    header_validity_window [of "header test_envelope" 1700000040 16 1700003600000 3600]
  by (simp add: test_envelope_def)

text \<open>A frame whose header tuple stops before the timestamp decodes, and its header is valid at every
  time under every maximum age: an absent timestamp compares as \<open>NaN\<close>, which fails neither check.\<close>

theorem missing_timestamp_never_expires:
  assumes "cbor_roundtrips L" "0 < t" "\<bar>t\<bar> \<le> 2 ^ 53 - 1"
  shows "\<exists>e. decodeEnvelope L (cbor_encode L (JArr [JArr [JNum (Num 1), JNum (packet_code p), JBytes mid,
      JNum (Num t), JBytes hint], JBytes payload])) = Inr e \<and>
    messageId (header e) = mid \<and> destinationHint (header e) = hint \<and> packetType (header e) = packet_code p \<and>
    (\<forall>nowMs maxAge. validateRoutingHeader nowMs maxAge (header e))"
proof -
  let ?v = "JArr [JArr [JNum (Num 1), JNum (packet_code p), JBytes mid, JNum (Num t), JBytes hint], JBytes payload]"
  have "is_safe_integer (packet_code p)" by (cases p) (simp_all add: packet_code_def)
  then have "cbor_decode L (cbor_encode L ?v) = Some ?v"
    using assms(2,3) by (intro cbor_roundtripsD [OF assms(1)]) simp
  then show ?thesis
    using assms(2) by (simp add: decodeEnvelope_def tupleToHeader_def validateRoutingHeader_def
        PROTOCOL_VERSION_def numeral_eq_Suc)
qed

theorem missing_timestamp_never_expires_witness:
  "\<exists>e. decodeEnvelope ref_lib (cbor_encode ref_lib (JArr [JArr [JNum (Num 1), JNum (packet_code Data), JBytes [1],
      JNum (Num 16), JBytes [2]], JBytes [3]])) = Inr e \<and> (\<forall>nowMs maxAge. validateRoutingHeader nowMs maxAge (header e))"
  using missing_timestamp_never_expires [OF ref_cbor, of 16 Data "[1]" "[2]" "[3]"] by auto

end
