(* ===== verification/Fragment.thy ===== *)
theory Fragment
  imports Envelope
begin

text \<open>
  \<open>src/envelope/fragment.ts\<close>: fragmentation of an envelope for a link with a small transmission unit,
  and the reassembler with its bounded state. The reassembler is a record of the class fields;
  \<open>Date.now()\<close> is the argument \<open>nowMs\<close>, read once per call. Counters are exact integers. A map that
  is edited through a reference the code keeps (\<open>entry\<close>) is written back under its key.
\<close>

section \<open>Fragments\<close>

definition FRAGMENT_OVERHEAD_ESTIMATE :: int where
  "FRAGMENT_OVERHEAD_ESTIMATE = 32"

definition MAX_FRAGMENT_COUNT :: int where
  "MAX_FRAGMENT_COUNT = 4096"

definition MAX_FRAGMENT_SIZE :: int where
  "MAX_FRAGMENT_SIZE = 4096"

definition MAX_PENDING_FRAGMENT_SETS :: nat where
  "MAX_PENDING_FRAGMENT_SETS = 128"

definition MAX_PENDING_FRAGMENT_BYTES :: int where
  "MAX_PENDING_FRAGMENT_BYTES = 2 * 1024 * 1024"

definition DEFAULT_FRAGMENT_MAX_AGE_MS :: int where
  "DEFAULT_FRAGMENT_MAX_AGE_MS = 30 * 1000"

definition MAX_PENDING_FRAGMENT_SETS_PER_PEER :: int where
  "MAX_PENDING_FRAGMENT_SETS_PER_PEER = 16"

definition MAX_PENDING_FRAGMENT_BYTES_PER_PEER :: int where
  "MAX_PENDING_FRAGMENT_BYTES_PER_PEER = 256 * 1024"

lemmas fragment_limits = FRAGMENT_OVERHEAD_ESTIMATE_def MAX_FRAGMENT_COUNT_def MAX_FRAGMENT_SIZE_def
  MAX_PENDING_FRAGMENT_SETS_def MAX_PENDING_FRAGMENT_BYTES_def DEFAULT_FRAGMENT_MAX_AGE_MS_def
  MAX_PENDING_FRAGMENT_SETS_PER_PEER_def MAX_PENDING_FRAGMENT_BYTES_PER_PEER_def

record Fragment =
  fragId :: bytes
  fragIndex :: int
  fragCount :: int
  fragData :: bytes

definition encodeFragment :: "lib \<Rightarrow> Fragment \<Rightarrow> bytes" where
  "encodeFragment L f = cbor_encode L
     (JArr [JBytes (fragId f), JNum (Num (fragIndex f)), JNum (Num (fragCount f)), JBytes (fragData f)])"

definition decodeFragment :: "lib \<Rightarrow> bytes \<Rightarrow> Fragment res" where
  "decodeFragment L bytes =
     rbind (of_lib (cbor_decode L bytes)) (\<lambda>tuple.
     if \<not> is_array tuple \<or> arr_length tuple \<noteq> 4 then Inl (Err ''Invalid fragment'')
     else rbind (rbind (js_index tuple 0) uint8_from) (\<lambda>mid.
     rbind (js_index tuple 1) (\<lambda>idx. rbind (js_index tuple 2) (\<lambda>count.
     rbind (rbind (js_index tuple 3) uint8_from) (\<lambda>data.
       if length mid \<noteq> 16 then Inl (Err ''Invalid fragment message ID'')
       else case (safe_int idx, safe_int count) of
         (Some i, Some n) \<Rightarrow>
           (if n < 1 \<or> MAX_FRAGMENT_COUNT < n then Inl (Err ''Fragment count exceeds limit'')
            else if i < 0 \<or> n \<le> i then Inl (Err ''Invalid fragment index'')
            else if MAX_FRAGMENT_SIZE < int (length data) then Inl (Err ''Fragment size exceeds limit'')
            else Inr \<lparr>fragId = mid, fragIndex = i, fragCount = n, fragData = data\<rparr>)
       | _ \<Rightarrow> Inl (Err ''Invalid fragment indexes''))))))"

definition chunk_size :: "int \<Rightarrow> nat" where
  "chunk_size transportMtu = nat (max 1 (transportMtu - FRAGMENT_OVERHEAD_ESTIMATE))"

definition fragmentEnvelope :: "lib \<Rightarrow> Envelope \<Rightarrow> int \<Rightarrow> bytes list res" where
  "fragmentEnvelope L e transportMtu =
     (let fullBytes = encodeEnvelope L e; chunkSize = chunk_size transportMtu;
          count = ceil_div (length fullBytes) chunkSize
      in if MAX_FRAGMENT_COUNT < int count then Inl (Err ''Envelope requires too many fragments'')
         else Inr (map (\<lambda>i. encodeFragment L \<lparr>fragId = messageId (header e), fragIndex = int i,
                fragCount = int count, fragData = slice (i * chunkSize) ((i + 1) * chunkSize) fullBytes\<rparr>)
              [0..<count]))"

section \<open>The reassembler\<close>

record PendingEntry =
  entryCount :: int
  received :: "(int, bytes) jsmap"
  firstSeenAt :: int
  entryBytes :: int
  entryPeer :: string

record FragmentReassembler =
  pending :: "(string, PendingEntry) jsmap"
  pendingBytes :: int
  peerPendingSets :: "(string, int) jsmap"
  peerPendingBytes :: "(string, int) jsmap"

definition new_reassembler :: FragmentReassembler where
  "new_reassembler = \<lparr>pending = [], pendingBytes = 0, peerPendingSets = [], peerPendingBytes = []\<rparr>"

definition unknown_peer :: string where
  "unknown_peer = ''unknown''"

definition removeEntry :: "string \<Rightarrow> PendingEntry \<Rightarrow> FragmentReassembler \<Rightarrow> FragmentReassembler" where
  "removeEntry key entry R =
     (let R1 = R\<lparr>pending := mdel key (pending R), pendingBytes := pendingBytes R - entryBytes entry\<rparr>
      in if entryPeer entry \<noteq> unknown_peer
         then R1\<lparr>peerPendingSets := release (entryPeer entry) 1 (peerPendingSets R1),
                 peerPendingBytes := release (entryPeer entry) (entryBytes entry) (peerPendingBytes R1)\<rparr>
         else R1)"

definition purgeStale :: "int \<Rightarrow> int \<Rightarrow> FragmentReassembler \<Rightarrow> nat \<times> FragmentReassembler" where
  "purgeStale nowMs maxAgeMs R =
     sweep (\<lambda>key entry. maxAgeMs < nowMs - firstSeenAt entry) removeEntry (pending R) R"

text \<open>The entry a fragment belongs to, or \<open>None\<close> where \<open>addFragment\<close> returns \<open>null\<close> before storing it.\<close>

definition openEntry ::
    "int \<Rightarrow> Fragment \<Rightarrow> string \<Rightarrow> FragmentReassembler \<Rightarrow> (PendingEntry \<times> FragmentReassembler) option" where
  "openEntry nowMs f peerId R =
     (let key = bytesToHex (fragId f); hasAuthenticatedPeer = (peerId \<noteq> unknown_peer)
      in case mget (pending R) key of
        None \<Rightarrow>
          (let peerSets = mget_or (peerPendingSets R) peerId 0; peerBytes = mget_or (peerPendingBytes R) peerId 0
           in if MAX_PENDING_FRAGMENT_SETS \<le> length (pending R) then None
              else if hasAuthenticatedPeer \<and> MAX_PENDING_FRAGMENT_SETS_PER_PEER \<le> peerSets then None
              else if MAX_PENDING_FRAGMENT_BYTES < int (length (fragData f)) then None
              else if hasAuthenticatedPeer
                \<and> MAX_PENDING_FRAGMENT_BYTES_PER_PEER < peerBytes + int (length (fragData f)) then None
              else (let entry = \<lparr>entryCount = fragCount f, received = [], firstSeenAt = nowMs, entryBytes = 0,
                          entryPeer = peerId\<rparr>;
                        R1 = R\<lparr>pending := mset_at key entry (pending R)\<rparr>
                    in Some (entry, if hasAuthenticatedPeer
                         then R1\<lparr>peerPendingSets := mset_at peerId (peerSets + 1) (peerPendingSets R1)\<rparr> else R1)))
      | Some entry \<Rightarrow>
          (if entryCount entry \<noteq> fragCount f \<or> entryPeer entry \<noteq> peerId then None else Some (entry, R)))"

text \<open>The second half of \<open>addFragment\<close>, from the duplicate check on.\<close>

definition storePart ::
    "lib \<Rightarrow> Fragment \<Rightarrow> string \<Rightarrow> PendingEntry \<Rightarrow> FragmentReassembler \<Rightarrow> Envelope option \<times> FragmentReassembler" where
  "storePart L f peerId entry R =
     (let key = bytesToHex (fragId f); len = int (length (fragData f));
          hasAuthenticatedPeer = (peerId \<noteq> unknown_peer); peerBytes = mget_or (peerPendingBytes R) peerId 0
      in if mhas (received entry) (fragIndex f) then (None, R)
         else if MAX_PENDING_FRAGMENT_BYTES < pendingBytes R + len then (None, R)
         else if hasAuthenticatedPeer \<and> MAX_PENDING_FRAGMENT_BYTES_PER_PEER < peerBytes + len then (None, R)
         else
           (let entry1 = entry\<lparr>received := mset_at (fragIndex f) (fragData f) (received entry),
                  entryBytes := entryBytes entry + len\<rparr>;
                R1 = R\<lparr>pending := mset_at key entry1 (pending R), pendingBytes := pendingBytes R + len\<rparr>;
                R2 = (if hasAuthenticatedPeer
                      then R1\<lparr>peerPendingBytes := mset_at peerId (peerBytes + len) (peerPendingBytes R1)\<rparr> else R1)
            in if int (length (received entry1)) < entryCount entry1 then (None, R2)
               else case gather (received entry1) int (nat (entryCount entry1)) of
                      None \<Rightarrow> (None, R2)
                    | Some parts \<Rightarrow>
                        (or_null (decodeEnvelope L (concatBytes parts)), removeEntry key entry1 R2)))"

definition addFragment ::
    "lib \<Rightarrow> int \<Rightarrow> bytes \<Rightarrow> string \<Rightarrow> FragmentReassembler \<Rightarrow> Envelope option \<times> FragmentReassembler" where
  "addFragment L nowMs wireFragment peerId R0 =
     (let R = snd (purgeStale nowMs DEFAULT_FRAGMENT_MAX_AGE_MS R0)
      in if MAX_FRAGMENT_SIZE + FRAGMENT_OVERHEAD_ESTIMATE + 64 < int (length wireFragment) then (None, R)
         else case decodeFragment L wireFragment of
                Inl _ \<Rightarrow> (None, R)
              | Inr f \<Rightarrow> (case openEntry nowMs f peerId R of
                    None \<Rightarrow> (None, R)
                  | Some (entry, R1) \<Rightarrow> storePart L f peerId entry R1))"

definition pendingCount :: "FragmentReassembler \<Rightarrow> nat" where
  "pendingCount R = length (pending R)"

definition pendingBytesCount :: "FragmentReassembler \<Rightarrow> int" where
  "pendingBytesCount R = pendingBytes R"

text \<open>What can happen to a reassembler: fragments arrive from any peer at any time, stale sets are purged.\<close>

inductive reassembling :: "lib \<Rightarrow> FragmentReassembler \<Rightarrow> bool" for L where
  reassembling_new: "reassembling L new_reassembler"
| reassembling_add: "reassembling L R \<Longrightarrow> reassembling L (snd (addFragment L nowMs wire peerId R))"
| reassembling_purge: "reassembling L R \<Longrightarrow> reassembling L (snd (purgeStale nowMs maxAgeMs R))"

section \<open>The books of the reassembler\<close>

definition part_bytes :: "PendingEntry \<Rightarrow> int" where
  "part_bytes e = (\<Sum>(i, d)\<leftarrow>received e. int (length d))"

text \<open>Three ledgers over the pending sets: their bytes in all, and per peer their number and bytes.\<close>

interpretation all_bytes: ledger "\<lambda>_. ()" part_bytes
  by unfold_locales (auto simp: part_bytes_def intro!: sum_list_nonneg)

interpretation peer_bytes: ledger entryPeer part_bytes
  by unfold_locales (rule all_bytes.weight_nonneg)

interpretation peer_sets: ledger entryPeer "\<lambda>_. 1"
  by unfold_locales simp

abbreviation bytes_of :: "FragmentReassembler \<Rightarrow> string \<Rightarrow> int" where
  "bytes_of R \<equiv> tally entryPeer part_bytes (pending R)"

abbreviation sets_of :: "FragmentReassembler \<Rightarrow> string \<Rightarrow> int" where
  "sets_of R \<equiv> tally entryPeer (\<lambda>_. 1) (pending R)"

definition entry_ok :: "PendingEntry \<Rightarrow> bool" where
  "entry_ok e \<longleftrightarrow> entryBytes e = part_bytes e \<and> wf_map (received e) \<and> 0 < entryCount e \<and> entryCount e \<le> 4096 \<and>
     (\<forall>(i, d) \<in> set (received e). 0 \<le> i \<and> i < entryCount e \<and> length d \<le> 4096)"

definition books :: "FragmentReassembler \<Rightarrow> bool" where
  "books R \<longleftrightarrow> wf_map (pending R) \<and> (\<forall>(k, e) \<in> set (pending R). entry_ok e) \<and>
     length (pending R) \<le> 128 \<and> pendingBytes R = tally (\<lambda>_. ()) part_bytes (pending R) () \<and>
     pendingBytes R \<le> 2 * 1024 * 1024 \<and>
     (\<forall>p. p \<noteq> unknown_peer \<longrightarrow> mget_or (peerPendingSets R) p 0 = sets_of R p \<and> sets_of R p \<le> 16 \<and>
        mget_or (peerPendingBytes R) p 0 = bytes_of R p \<and> bytes_of R p \<le> 256 * 1024)"

definition all_incomplete :: "FragmentReassembler \<Rightarrow> bool" where
  "all_incomplete R \<longleftrightarrow> (\<forall>(k, e) \<in> set (pending R). int (length (received e)) < entryCount e)"

lemma books_new: "books new_reassembler" "all_incomplete new_reassembler"
  by (simp_all add: books_def all_incomplete_def new_reassembler_def)

lemma removeEntry_pending [simp]: "pending (removeEntry k e R) = mdel k (pending R)"
  by (simp add: removeEntry_def Let_def)

lemma books_removeEntry:
  assumes "books R" "mget (pending R) k = Some e"
  shows "books (removeEntry k e R)"
proof -
  have wf: "wf_map (pending R)" and ok: "entry_ok e"
    using assms map_of_SomeD [OF assms(2)] by (auto simp: books_def)
  have b: "entryBytes e = part_bytes e" using ok by (simp add: entry_ok_def)
  have sets: "sets_of (removeEntry k e R) p = sets_of R p - (if entryPeer e = p then 1 else 0)"
    and bts: "bytes_of (removeEntry k e R) p = bytes_of R p - (if entryPeer e = p then part_bytes e else 0)" for p
    by (simp_all add: peer_sets.tally_del [OF wf assms(2)] peer_bytes.tally_del [OF wf assms(2)])
  have counters: "mget_or (peerPendingSets (removeEntry k e R)) p 0 = sets_of (removeEntry k e R) p \<and>
      mget_or (peerPendingBytes (removeEntry k e R)) p 0 = bytes_of (removeEntry k e R) p"
    if "p \<noteq> unknown_peer" for p
  proof (cases "entryPeer e = unknown_peer")
    case True
    then show ?thesis using that assms(1) sets bts by (simp add: removeEntry_def books_def)
  next
    case False
    then show ?thesis
      using that assms(1) peer_sets.release_tally [OF wf assms(2), of "\<lambda>p. p \<noteq> unknown_peer" "peerPendingSets R" p]
        peer_bytes.release_tally [OF wf assms(2), of "\<lambda>p. p \<noteq> unknown_peer" "peerPendingBytes R" p]
      by (simp add: removeEntry_def books_def b Let_def)
  qed
  have "sets_of (removeEntry k e R) p \<le> sets_of R p" "bytes_of (removeEntry k e R) p \<le> bytes_of R p" for p
    using sets [of p] bts [of p] all_bytes.weight_nonneg [of e] by (simp_all split: if_splits)
  then have "sets_of (removeEntry k e R) p \<le> 16 \<and> bytes_of (removeEntry k e R) p \<le> 256 * 1024"
    if "p \<noteq> unknown_peer" for p
    using assms(1) that order_trans unfolding books_def by blast
  moreover have "pendingBytes (removeEntry k e R) = pendingBytes R - part_bytes e"
    by (simp add: removeEntry_def Let_def b)
  moreover have "length (mdel k (pending R)) \<le> length (pending R)" by (rule length_del_le)
  ultimately show ?thesis
    using assms(1) counters all_bytes.tally_del [OF wf assms(2), of "()"] all_bytes.weight_nonneg [of e] wf
    unfolding books_def by (auto simp: in_set_mdel)
qed

interpretation pending_sets: expiring_store pending removeEntry books
  by unfold_locales (simp, simp add: books_def, rule books_removeEntry)

lemma purge_pending:
  "books R \<Longrightarrow> pending (snd (purgeStale nowMs maxAge R)) = filter (\<lambda>(k, e). nowMs - firstSeenAt e \<le> maxAge) (pending R)"
  by (simp add: purgeStale_def pending_sets.sweep_view not_less)

lemma purge_nothing:
  assumes "\<And>k e. (k, e) \<in> set (pending R) \<Longrightarrow> nowMs - firstSeenAt e \<le> maxAge"
  shows "purgeStale nowMs maxAge R = (0, R)"
  unfolding purgeStale_def by (rule pending_sets.sweep_none) (use assms in force)

lemma books_purge: "books R \<Longrightarrow> books (snd (purgeStale nowMs maxAge R))"
  unfolding purgeStale_def by (rule pending_sets.sweep_inv)

lemma incomplete_purge:
  "books R \<Longrightarrow> all_incomplete R \<Longrightarrow> all_incomplete (snd (purgeStale nowMs maxAge R))"
  by (auto simp: all_incomplete_def purge_pending)

section \<open>Adding a fragment keeps the books\<close>

definition fragment_ok :: "Fragment \<Rightarrow> bool" where
  "fragment_ok f \<longleftrightarrow> length (fragId f) = 16 \<and> 0 \<le> fragIndex f \<and> fragIndex f < fragCount f \<and> fragCount f \<le> 4096 \<and>
     length (fragData f) \<le> 4096"

lemma decodeFragment_ok: "decodeFragment L bs = Inr f \<Longrightarrow> fragment_ok f"
  by (auto simp: decodeFragment_def res_simps fragment_ok_def fragment_limits split: if_splits option.splits)

lemma books_openEntry:
  assumes "books R" "fragment_ok f" "openEntry nowMs f peerId R = Some (entry, R1)"
  shows "books R1" and "mget (pending R1) (bytesToHex (fragId f)) = Some entry"
    and "entryPeer entry = peerId" and "entryCount entry = fragCount f"
    and "all_incomplete R \<Longrightarrow> all_incomplete R1"
proof -
  let ?k = "bytesToHex (fragId f)"
  have *: "books R1 \<and> mget (pending R1) ?k = Some entry \<and> entryPeer entry = peerId \<and> entryCount entry = fragCount f
     \<and> (all_incomplete R \<longrightarrow> all_incomplete R1)"
  proof (cases "mget (pending R) ?k")
    case (Some e)
    with assms show ?thesis by (auto simp: openEntry_def Let_def split: if_splits)
  next
    case None
    then have new: "\<not> mhas (pending R) ?k" by (simp add: mhas_def)
    let ?e = "\<lparr>entryCount = fragCount f, received = [], firstSeenAt = nowMs, entryBytes = 0, entryPeer = peerId\<rparr>"
    have w: "part_bytes ?e = 0" by (simp add: part_bytes_def)
    have e: "entry = ?e" and p: "pending R1 = mset_at ?k ?e (pending R)" and n: "length (pending R) < 128"
      and s: "peerId \<noteq> unknown_peer \<Longrightarrow> mget_or (peerPendingSets R) peerId 0 < 16"
      and ps: "mget_or (peerPendingSets R1) q 0 = mget_or (peerPendingSets R) q 0
                 + (if peerId \<noteq> unknown_peer \<and> q = peerId then 1 else 0)"
      and same: "pendingBytes R1 = pendingBytes R" "peerPendingBytes R1 = peerPendingBytes R" for q
      using assms(3) None by (auto simp: openEntry_def Let_def fragment_limits split: if_splits)
    have "entry_ok ?e" using assms(2) by (auto simp: entry_ok_def w fragment_ok_def)
    then have ents: "\<forall>(k, e) \<in> set (pending R1). entry_ok e"
      using assms(1) set_mset_at_subset [of ?k ?e "pending R"] unfolding p books_def by auto
    have inc: "all_incomplete R \<longrightarrow> all_incomplete R1"
      using assms(2) set_mset_at_subset [of ?k ?e "pending R"] unfolding p all_incomplete_def
      by (fastforce simp: fragment_ok_def)
    have "books R1"
      using assms(1) ents n s ps same
      unfolding books_def p by (auto simp: all_bytes.tally_new [OF new] peer_sets.tally_new [OF new]
          peer_bytes.tally_new [OF new] w length_set new)
    with inc e p show ?thesis by simp
  qed
  then show "books R1" "mget (pending R1) ?k = Some entry" "entryPeer entry = peerId" "entryCount entry = fragCount f"
    "all_incomplete R \<Longrightarrow> all_incomplete R1" by blast+
qed

lemma part_bytes_set:
  "\<not> mhas (received e) i \<Longrightarrow> received e' = mset_at i d (received e) \<Longrightarrow> part_bytes e' = part_bytes e + int (length d)"
  by (simp add: part_bytes_def mset_at_append_new)

text \<open>A set with as many parts as its count has every part: the indexes are distinct and below the count.\<close>

lemma gather_complete:
  assumes "entry_ok e" "entryCount e \<le> int (length (received e))"
  shows "\<exists>parts. gather (received e) int (nat (entryCount e)) = Some parts"
proof -
  let ?K = "set (map fst (received e))"
  have sub: "?K \<subseteq> {0..<entryCount e}" using assms(1) by (auto simp: entry_ok_def)
  have "card ?K = length (received e)"
    using assms(1) distinct_card [of "map fst (received e)"] by (simp add: entry_ok_def wf_map_def del: set_map)
  then have "?K = {0..<entryCount e}"
    using assms(2) by (intro card_seteq [OF _ sub]) auto
  then have "mget (received e) (int i) \<noteq> None" if "i < nat (entryCount e)" for i
    using that unfolding map_of_eq_None_iff by auto
  then have "those (map (\<lambda>i. mget (received e) (int i)) [0..<nat (entryCount e)])
      = Some (map (\<lambda>i. the (mget (received e) (int i))) [0..<nat (entryCount e)])"
    by (intro those_map_Some) auto
  then show ?thesis by (simp add: gather_def)
qed

lemma books_storePart:
  assumes "books R" "all_incomplete R" "fragment_ok f" "mget (pending R) (bytesToHex (fragId f)) = Some entry"
    and "entryPeer entry = peerId" "entryCount entry = fragCount f"
  shows "books (snd (storePart L f peerId entry R)) \<and> all_incomplete (snd (storePart L f peerId entry R))"
proof -
  let ?k = "bytesToHex (fragId f)" and ?len = "int (length (fragData f))"
  let ?e = "entry\<lparr>received := mset_at (fragIndex f) (fragData f) (received entry), entryBytes := entryBytes entry + ?len\<rparr>"
  let ?R1 = "R\<lparr>pending := mset_at ?k ?e (pending R), pendingBytes := pendingBytes R + ?len\<rparr>"
  let ?pb = "mget_or (peerPendingBytes R) peerId 0"
  let ?R2 = "if peerId \<noteq> unknown_peer then ?R1\<lparr>peerPendingBytes := mset_at peerId (?pb + ?len) (peerPendingBytes ?R1)\<rparr> else ?R1"
  show ?thesis
  proof (cases "mhas (received entry) (fragIndex f) \<or> MAX_PENDING_FRAGMENT_BYTES < pendingBytes R + ?len
      \<or> peerId \<noteq> unknown_peer \<and> MAX_PENDING_FRAGMENT_BYTES_PER_PEER < ?pb + ?len")
    case True
    with assms(1,2) show ?thesis by (auto simp: storePart_def Let_def)
  next
    case False
    have ok: "entry_ok entry" and wf: "wf_map (pending R)"
      using assms(1) map_of_SomeD [OF assms(4)] by (auto simp: books_def)
    have w: "part_bytes ?e = part_bytes entry + ?len" using False by (intro part_bytes_set) auto
    have ok': "entry_ok ?e"
      using ok assms(3,6) w set_mset_at_subset [of "fragIndex f" "fragData f" "received entry"]
      by (fastforce simp: entry_ok_def fragment_ok_def)
    have ents: "\<forall>(k, e) \<in> set (mset_at ?k ?e (pending R)). entry_ok e"
      using assms(1) ok' set_mset_at_subset [of ?k ?e "pending R"] unfolding books_def by auto
    have upd: "tally (\<lambda>_. ()) part_bytes (mset_at ?k ?e (pending R)) () = tally (\<lambda>_. ()) part_bytes (pending R) () + ?len"
      "tally entryPeer (\<lambda>_. 1) (mset_at ?k ?e (pending R)) p = sets_of R p"
      "tally entryPeer part_bytes (mset_at ?k ?e (pending R)) p = bytes_of R p + (if p = peerId then ?len else 0)" for p
      using assms(5) w by (simp_all add: all_bytes.tally_update [OF assms(4)] peer_sets.tally_update [OF assms(4)]
          peer_bytes.tally_update [OF assms(4)])
    have "length (mset_at ?k ?e (pending R)) = length (pending R)"
      using assms(4) by (simp add: length_set mhas_def)
    then have books2: "books ?R2"
      using assms(1) ents upd False wf unfolding books_def by (auto simp: fragment_limits)
    have p2: "pending ?R2 = mset_at ?k ?e (pending R)" by simp
    have other: "int (length (received e)) < entryCount e" if "(k, e) \<in> set (pending ?R2)" "k \<noteq> ?k" for k e
      using that assms(2) in_set_mset_at [OF wf] unfolding p2 all_incomplete_def by auto
    show ?thesis
    proof (cases "int (length (received ?e)) < entryCount ?e")
      case True
      then have "snd (storePart L f peerId entry R) = ?R2" using False by (auto simp: storePart_def Let_def)
      moreover have "all_incomplete ?R2"
        using True other in_set_mset_at [OF wf] unfolding p2 all_incomplete_def by (auto split: if_splits)
      ultimately show ?thesis using books2 by simp
    next
      case full: False
      from gather_complete [OF ok'] full obtain parts where
        "gather (received ?e) int (nat (entryCount ?e)) = Some parts" by auto
      then have "snd (storePart L f peerId entry R) = removeEntry ?k ?e ?R2"
        using False full by (auto simp: storePart_def Let_def)
      moreover have "all_incomplete (removeEntry ?k ?e ?R2)"
        using other unfolding all_incomplete_def removeEntry_pending by (auto simp: in_set_mdel)
      moreover have "books (removeEntry ?k ?e ?R2)" by (rule books_removeEntry [OF books2]) simp
      ultimately show ?thesis by simp
    qed
  qed
qed

lemma books_addFragment:
  assumes "books R" "all_incomplete R"
  shows "books (snd (addFragment L nowMs wire peerId R)) \<and> all_incomplete (snd (addFragment L nowMs wire peerId R))"
proof -
  let ?R = "snd (purgeStale nowMs DEFAULT_FRAGMENT_MAX_AGE_MS R)"
  have R: "books ?R" "all_incomplete ?R"
    using assms by (auto intro: books_purge incomplete_purge)
  show ?thesis
  proof (cases "decodeFragment L wire")
    case (Inr f)
    show ?thesis
    proof (cases "openEntry nowMs f peerId ?R")
      case (Some x)
      obtain entry R1 where x: "x = (entry, R1)" by (cases x)
      note o = books_openEntry [OF R(1) decodeFragment_ok [OF Inr] Some [unfolded x]]
      from books_storePart [OF o(1) o(5) [OF R(2)] decodeFragment_ok [OF Inr] o(2-4)]
      show ?thesis using Inr Some x R by (simp add: addFragment_def Let_def)
    qed (use Inr R in \<open>simp add: addFragment_def Let_def\<close>)
  qed (use R in \<open>simp add: addFragment_def Let_def\<close>)
qed

lemma reassembling_books: "reassembling L R \<Longrightarrow> books R \<and> all_incomplete R"
proof (induction rule: reassembling.induct)
  case (reassembling_purge R nowMs maxAgeMs)
  then show ?case by (auto intro: books_purge incomplete_purge)
qed (simp_all add: books_new books_addFragment)

section \<open>Reassembly in any order\<close>

text \<open>\<open>feed\<close> hands a sequence of arrivals, each a time and a frame, to the reassembler.\<close>

fun feed :: "lib \<Rightarrow> string \<Rightarrow> (int \<times> bytes) list \<Rightarrow> FragmentReassembler \<Rightarrow> Envelope option list \<times> FragmentReassembler" where
  "feed L peerId [] R = ([], R)"
| "feed L peerId ((t, wire) # arrivals) R =
     (let (r, R1) = addFragment L t wire peerId R; (rs, R2) = feed L peerId arrivals R1 in (r # rs, R2))"

lemma decode_encode_fragment:
  assumes "cbor_roundtrips L" "fragment_ok f"
  shows "decodeFragment L (encodeFragment L f) = Inr f"
proof -
  let ?v = "JArr [JBytes (fragId f), JNum (Num (fragIndex f)), JNum (Num (fragCount f)), JBytes (fragData f)]"
  have "cbor_decode L (encodeFragment L f) = Some ?v"
    unfolding encodeFragment_def using assms(2)
    by (intro cbor_roundtripsD [OF assms(1)]) (simp add: fragment_ok_def)
  then show ?thesis
    using assms(2) by (simp add: decodeFragment_def fragment_ok_def fragment_limits numeral_eq_Suc)
qed

lemma encoded_fragment_length:
  assumes "cbor_compact L" "fragment_ok f"
  shows "length (encodeFragment L f) \<le> 4157"
proof -
  have "length (encodeFragment L f) \<le> length (fragId f) + length (fragData f) + 45"
    using assms(1) [unfolded cbor_compact_def, rule_format, of "fragId f" "fragData f" "fragIndex f" "fragCount f"] assms(2)
    unfolding encodeFragment_def fragment_ok_def by simp
  then show ?thesis using assms(2) by (simp add: fragment_ok_def)
qed

text \<open>The entry after the parts \<open>js\<close> have arrived, and the state of the reassembler around it.\<close>

definition held :: "bytes list \<Rightarrow> string \<Rightarrow> int \<Rightarrow> nat list \<Rightarrow> PendingEntry" where
  "held parts peerId t0 js = \<lparr>entryCount = int (length parts), received = map (\<lambda>i. (int i, parts ! i)) js,
     firstSeenAt = t0, entryBytes = (\<Sum>i\<leftarrow>js. int (length (parts ! i))), entryPeer = peerId\<rparr>"

definition holding :: "FragmentReassembler \<Rightarrow> string \<Rightarrow> PendingEntry \<Rightarrow> FragmentReassembler \<Rightarrow> bool" where
  "holding R key e R1 \<longleftrightarrow> pending R1 = pending R @ [(key, e)] \<and> pendingBytes R1 = pendingBytes R + entryBytes e \<and>
     mget_or (peerPendingBytes R1) (entryPeer e) 0 = mget_or (peerPendingBytes R) (entryPeer e) 0 + entryBytes e"

definition room_for :: "FragmentReassembler \<Rightarrow> string \<Rightarrow> string \<Rightarrow> nat \<Rightarrow> bool" where
  "room_for R key peerId n \<longleftrightarrow> \<not> mhas (pending R) key \<and> peerId \<noteq> unknown_peer \<and> length (pending R) < 128 \<and>
     mget_or (peerPendingSets R) peerId 0 < 16 \<and> 0 \<le> pendingBytes R \<and> pendingBytes R + int n \<le> 2 * 1024 * 1024 \<and>
     0 \<le> mget_or (peerPendingBytes R) peerId 0 \<and> mget_or (peerPendingBytes R) peerId 0 + int n \<le> 256 * 1024"

lemma sum_parts_le:
  assumes "distinct js" "set js \<subseteq> {..<length parts}"
  shows "(\<Sum>i\<leftarrow>js. int (length (parts ! i))) \<le> int (length (concat parts))"
proof -
  have "(\<Sum>i\<leftarrow>js. length (parts ! i)) = (\<Sum>i\<in>set js. length (parts ! i))"
    by (rule sum_list_distinct_conv_sum_set [OF assms(1)])
  also have "\<dots> \<le> (\<Sum>i<length parts. length (parts ! i))" using assms(2) by (intro sum_mono2) auto
  also have "\<dots> = length (concat parts)"
    by (simp add: length_concat sum_list_sum_nth atLeast0LessThan)
  finally have "int (\<Sum>i\<leftarrow>js. length (parts ! i)) \<le> int (length (concat parts))" by simp
  moreover have "int (sum_list ns) = sum_list (map int ns)" for ns by (induction ns) auto
  ultimately show ?thesis by (simp add: comp_def)
qed

lemma received_held:
  "mhas (received (held parts p t js)) (int i) \<longleftrightarrow> i \<in> set js"
  by (auto simp: held_def mhas_iff image_image)

lemma gather_held:
  assumes "set js = {..<length parts}"
  shows "gather (map (\<lambda>i. (int i, parts ! i)) js) int (length parts) = Some parts"
proof (rule gather_slices)
  fix i assume "i < length parts"
  then have "i \<in> set js" using assms by simp
  then show "mget (map (\<lambda>i. (int i, parts ! i)) js) (int i) = Some (parts ! i)" by (induction js) auto
qed

lemma store_held:
  assumes room: "room_for R (bytesToHex mid) peerId (length (concat parts))"
    and decoded: "decodeEnvelope L (concat parts) = Inr e"
    and hold: "holding R (bytesToHex mid) (held parts peerId t0 js) R1"
    and js: "distinct (js @ [i])" "set (js @ [i]) \<subseteq> {..<length parts}"
  shows "\<exists>R2. storePart L \<lparr>fragId = mid, fragIndex = int i, fragCount = int (length parts), fragData = parts ! i\<rparr>
      peerId (held parts peerId t0 js) R1 = (if Suc (length js) < length parts then None else Some e, R2) \<and>
    (if Suc (length js) < length parts then holding R (bytesToHex mid) (held parts peerId t0 (js @ [i])) R2
     else pending R2 = pending R \<and> pendingBytes R2 = pendingBytes R)"
proof -
  let ?k = "bytesToHex mid"
  let ?e = "held parts peerId t0 js" and ?e' = "held parts peerId t0 (js @ [i])"
  let ?f = "\<lparr>fragId = mid, fragIndex = int i, fragCount = int (length parts), fragData = parts ! i\<rparr>"
  have new: "\<not> mhas (received ?e) (int i)" using js(1) by (simp add: received_held)
  have upd: "?e\<lparr>received := mset_at (int i) (parts ! i) (received ?e),
      entryBytes := entryBytes ?e + int (length (parts ! i))\<rparr> = ?e'"
    using new by (simp add: mset_at_append_new) (simp add: held_def)
  have le: "entryBytes ?e + int (length (parts ! i)) \<le> int (length (concat parts))"
    using sum_parts_le [OF js] by (simp add: held_def)
  have fresh: "\<not> mhas (pending R) ?k" "peerId \<noteq> unknown_peer" using room by (simp_all add: room_for_def)
  have pk: "mset_at ?k ?e' (pending R1) = pending R @ [(?k, ?e')]"
    using hold fresh by (simp add: holding_def mset_at_append_last)
  have q: "\<not> MAX_PENDING_FRAGMENT_BYTES < pendingBytes R1 + int (length (parts ! i))"
    "\<not> MAX_PENDING_FRAGMENT_BYTES_PER_PEER < mget_or (peerPendingBytes R1) peerId 0 + int (length (parts ! i))"
    using hold room le by (auto simp: holding_def room_for_def fragment_limits held_def)
  have len: "length (received ?e') = Suc (length js)" "entryCount ?e' = int (length parts)" "entryPeer ?e' = peerId"
    by (simp_all add: held_def)
  have bts: "entryBytes ?e' = entryBytes ?e + int (length (parts ! i))" by (simp add: held_def)
  show ?thesis
  proof (cases "Suc (length js) < length parts")
    case True
    then show ?thesis
      using hold new fresh q by (simp add: storePart_def Let_def upd len pk)
        (simp add: holding_def held_def)
  next
    case False
    have "card (set (js @ [i])) = Suc (length js)" using js(1) distinct_card by fastforce
    then have "set (js @ [i]) = {..<length parts}"
      using False js(2) by (intro card_seteq) auto
    then have "gather (received ?e') int (length parts) = Some parts"
      using gather_held [of "js @ [i]" parts] by (simp add: held_def)
    then show ?thesis
      using False hold new fresh q decoded bts
      by (simp add: storePart_def Let_def upd len pk mdel_append_last)
        (simp add: removeEntry_def Let_def holding_def)
  qed
qed

lemma open_held:
  assumes start: "js = [] \<and> R1 = R \<and> t = t0 \<or> js \<noteq> [] \<and> holding R (bytesToHex mid) (held parts peerId t0 js) R1"
    and room: "room_for R (bytesToHex mid) peerId (length (concat parts))"
    and i: "i < length parts"
  shows "\<exists>R2. openEntry t \<lparr>fragId = mid, fragIndex = int i, fragCount = int (length parts), fragData = parts ! i\<rparr>
      peerId R1 = Some (held parts peerId t0 js, R2) \<and> holding R (bytesToHex mid) (held parts peerId t0 js) R2"
  using start
proof (elim disjE conjE)
  assume "js = []" "R1 = R" "t = t0"
  moreover have "int (length (parts ! i)) \<le> int (length (concat parts))"
    using sum_parts_le [of "[i]" parts] i by simp
  moreover have "\<not> mhas (pending R) (bytesToHex mid)" using room by (simp add: room_for_def)
  ultimately show ?thesis
    using room by (auto simp: openEntry_def room_for_def mhas_def Let_def fragment_limits holding_def held_def
        mset_at_append_new)
next
  assume "js \<noteq> []" "holding R (bytesToHex mid) (held parts peerId t0 js) R1"
  moreover have "mget (pending R @ [(bytesToHex mid, x)]) (bytesToHex mid) = Some x" for x
    using room by (simp add: room_for_def mhas_def map_add_def split: option.splits)
  ultimately show ?thesis by (auto simp: openEntry_def holding_def held_def Let_def)
qed

definition part_frame :: "lib \<Rightarrow> bytes \<Rightarrow> bytes list \<Rightarrow> nat \<Rightarrow> bytes" where
  "part_frame L mid parts i = encodeFragment L
     \<lparr>fragId = mid, fragIndex = int i, fragCount = int (length parts), fragData = parts ! i\<rparr>"

definition parts_ok :: "bytes \<Rightarrow> bytes list \<Rightarrow> bool" where
  "parts_ok mid parts \<longleftrightarrow> length mid = 16 \<and> length parts \<le> 4096 \<and> (\<forall>x \<in> set parts. length x \<le> 4096)"

definition no_stale :: "FragmentReassembler \<Rightarrow> int \<Rightarrow> bool" where
  "no_stale R t \<longleftrightarrow> (\<forall>(k, x) \<in> set (pending R). t - firstSeenAt x \<le> 30000)"

lemma add_part:
  assumes "cbor_roundtrips L" "cbor_compact L" "parts_ok mid parts" "i < length parts" "no_stale R t"
  shows "addFragment L t (part_frame L mid parts i) peerId R =
    (let f = \<lparr>fragId = mid, fragIndex = int i, fragCount = int (length parts), fragData = parts ! i\<rparr>
     in case openEntry t f peerId R of None \<Rightarrow> (None, R) | Some (entry, R1) \<Rightarrow> storePart L f peerId entry R1)"
proof -
  let ?f = "\<lparr>fragId = mid, fragIndex = int i, fragCount = int (length parts), fragData = parts ! i\<rparr>"
  have ok: "fragment_ok ?f" using assms(3,4) by (simp add: fragment_ok_def parts_ok_def)
  have "purgeStale t DEFAULT_FRAGMENT_MAX_AGE_MS R = (0, R)"
    using assms(5) by (intro purge_nothing) (auto simp: no_stale_def fragment_limits)
  then show ?thesis
    using encoded_fragment_length [OF assms(2) ok] decode_encode_fragment [OF assms(1) ok]
    by (simp add: addFragment_def part_frame_def fragment_limits Let_def)
qed

lemma feed_held:
  assumes laws: "cbor_roundtrips L" "cbor_compact L" and parts: "parts_ok mid parts"
    and room: "room_for R (bytesToHex mid) peerId (length (concat parts))"
    and decoded: "decodeEnvelope L (concat parts) = Inr e"
    and "distinct (js @ is)" "set (js @ is) = {..<length parts}" "is \<noteq> []" "length ts = length is"
    and "\<And>t. t \<in> set ts \<Longrightarrow> no_stale R t \<and> t - t0 \<le> 30000"
    and "js = [] \<and> R1 = R \<and> hd ts = t0 \<or> js \<noteq> [] \<and> holding R (bytesToHex mid) (held parts peerId t0 js) R1"
  shows "\<exists>R'. feed L peerId (zip ts (map (part_frame L mid parts) is)) R1
      = (replicate (length is - 1) None @ [Some e], R') \<and> pending R' = pending R \<and> pendingBytes R' = pendingBytes R"
  using assms(6-)
proof (induction "is" arbitrary: js ts R1)
  case (Cons i "is")
  then obtain t ts' where ts: "ts = t # ts'" by (cases ts) auto
  have i: "i < length parts" and dj: "distinct (js @ [i])" "set (js @ [i]) \<subseteq> {..<length parts}" using Cons.prems by auto
  have stale: "no_stale R1 t"
    using Cons.prems(5) [of t] Cons.prems(6) ts by (auto simp: no_stale_def holding_def held_def)
  have "js = [] \<and> R1 = R \<and> t = t0 \<or> js \<noteq> [] \<and> holding R (bytesToHex mid) (held parts peerId t0 js) R1"
    using Cons.prems(6) ts by auto
  from open_held [OF this room i] obtain R2 where R2:
    "openEntry t \<lparr>fragId = mid, fragIndex = int i, fragCount = int (length parts), fragData = parts ! i\<rparr> peerId R1
      = Some (held parts peerId t0 js, R2)" "holding R (bytesToHex mid) (held parts peerId t0 js) R2" by blast
  from store_held [OF room decoded R2(2) dj] obtain R3 where R3:
    "addFragment L t (part_frame L mid parts i) peerId R1 = (if Suc (length js) < length parts then None else Some e, R3)"
    "if Suc (length js) < length parts then holding R (bytesToHex mid) (held parts peerId t0 (js @ [i])) R3
     else pending R3 = pending R \<and> pendingBytes R3 = pendingBytes R"
    using R2(1) by (auto simp: add_part [OF laws parts i stale])
  have "length (js @ i # is) = length parts"
    using Cons.prems(1,2) distinct_card by (metis card_lessThan)
  then have more: "Suc (length js) < length parts \<longleftrightarrow> is \<noteq> []" by (cases "is") auto
  show ?case
  proof (cases "is = []")
    case True
    with R3 more ts Cons.prems(4) show ?thesis by simp
  next
    case False
    then have "holding R (bytesToHex mid) (held parts peerId t0 (js @ [i])) R3" using R3(2) more by simp
    with Cons.IH [of "js @ [i]" ts' R3] Cons.prems False ts obtain R' where
      "feed L peerId (zip ts' (map (part_frame L mid parts) is)) R3
         = (replicate (length is - 1) None @ [Some e], R')" "pending R' = pending R" "pendingBytes R' = pendingBytes R"
      by auto
    moreover obtain n where "length is = Suc n" using False by (cases "is") auto
    ultimately show ?thesis using R3(1) more False ts by simp
  qed
qed simp

lemma chunk_size_pos: "0 < chunk_size mtu"
  by (simp add: chunk_size_def)

lemma fragmentEnvelope_parts:
  assumes "fragmentEnvelope L e mtu = Inr frames"
  shows "\<exists>parts. frames = map (part_frame L (messageId (header e)) parts) [0..<length parts] \<and>
    length parts \<le> 4096 \<and> concat parts = encodeEnvelope L e \<and> (\<forall>x \<in> set parts. length x \<le> chunk_size mtu)"
proof -
  let ?c = "chunk_size mtu" and ?full = "encodeEnvelope L e"
  let ?n = "ceil_div (length ?full) ?c"
  have "concat (slices ?c ?n ?full) = ?full"
    using ceil_div_bounds(1) [OF chunk_size_pos] by (intro concat_slices)
  moreover have "frames = map (part_frame L (messageId (header e)) (slices ?c ?n ?full)) [0..<?n]" "?n \<le> 4096"
    using assms by (auto simp: fragmentEnvelope_def Let_def fragment_limits part_frame_def slices_def split: if_splits)
  ultimately show ?thesis by (intro exI [of _ "slices ?c ?n ?full"]) (auto dest: slices_length_le)
qed

lemma feed_frames:
  assumes "cbor_roundtrips L" "cbor_compact L" "plain_header (header e)" "length (messageId (header e)) = 16"
    and "fragmentEnvelope L e mtu = Inr frames" "mtu \<le> 4128" "frames \<noteq> []"
    and "room_for R (bytesToHex (messageId (header e))) peerId (length (encodeEnvelope L e))"
    and "distinct order" "set order = {..<length frames}" "length ts = length frames"
    and "\<And>t. t \<in> set ts \<Longrightarrow> no_stale R t \<and> t - hd ts \<le> 30000"
  shows "\<exists>R'. feed L peerId (zip ts (map ((!) frames) order)) R
      = (replicate (length frames - 1) None @ [Some e], R') \<and> pending R' = pending R \<and> pendingBytes R' = pendingBytes R"
proof -
  from fragmentEnvelope_parts [OF assms(5)] obtain parts where
    f: "frames = map (part_frame L (messageId (header e)) parts) [0..<length parts]" and
    p: "length parts \<le> 4096" "concat parts = encodeEnvelope L e" "\<forall>x \<in> set parts. length x \<le> chunk_size mtu" by blast
  have "chunk_size mtu \<le> 4096" using assms(6) by (simp add: chunk_size_def fragment_limits)
  then have ok: "parts_ok (messageId (header e)) parts" using p assms(4) by (auto simp: parts_ok_def)
  have len: "length order = length parts" using assms(9,10) f distinct_card by fastforce
  have eq: "map ((!) frames) order = map (part_frame L (messageId (header e)) parts) order"
    using assms(10) f by auto
  have lf: "length frames = length parts" using f by simp
  have "order \<noteq> []" using assms(7) f len by auto
  then show ?thesis
    using feed_held [OF assms(1,2) ok assms(8) [folded p(2)], of e "[]" order ts "hd ts" R]
      decode_encode_envelope [OF assms(1,3)] assms(9-12) p(2) len
    unfolding eq lf by simp
qed

section \<open>Properties\<close>

text \<open>C20: Fragmentation and reassembly. The frames made for a link of at most 4128 bytes, handed in any order
  by one authenticated peer within thirty seconds to a reassembler with room for the envelope, give the
  envelope back exactly when the last of them arrives; nothing is left behind.\<close>

theorem reassembly_any_order:
  assumes "cbor_roundtrips L" "cbor_compact L" "plain_header (header e)" "length (messageId (header e)) = 16"
    and "fragmentEnvelope L e mtu = Inr frames" "mtu \<le> 4128" "frames \<noteq> []"
    and "room_for R (bytesToHex (messageId (header e))) peerId (length (encodeEnvelope L e))"
    and "distinct order" "set order = {..<length frames}" "length ts = length frames"
    and "\<And>t. t \<in> set ts \<Longrightarrow> no_stale R t \<and> t - hd ts \<le> 30000"
  shows "\<exists>R'. feed L peerId (zip ts (map ((!) frames) order)) R
      = (replicate (length frames - 1) None @ [Some e], R') \<and> pending R' = pending R \<and> pendingBytes R' = pendingBytes R"
  by (rule feed_frames [OF assms])

lemma test_envelope_length: "length (encodeEnvelope ref_lib test_envelope) = 53"
  by (simp add: encodeEnvelope_def headerToTuple_def test_envelope_def ref_lib_def enc_bytes_def leb.simps zigzag_def)

theorem reassembly_any_order_witness:
  "\<exists>f0 f1 f2 rest. fragmentEnvelope ref_lib test_envelope 52 = Inr [f0, f1, f2] \<and>
    feed ref_lib ''n1'' [(5, f2), (7, f0), (9, f1)] new_reassembler = ([None, None, Some test_envelope], rest)"
proof -
  have "[0..<3] = [0, 1, 2 :: nat]" by (simp add: upt_rec)
  then obtain f0 f1 f2 where f: "fragmentEnvelope ref_lib test_envelope 52 = Inr [f0, f1, f2]"
    by (simp add: fragmentEnvelope_def chunk_size_def fragment_limits test_envelope_length ceil_div_def Let_def)
  have room: "room_for new_reassembler k ''n1'' (length (encodeEnvelope ref_lib test_envelope))" for k
    by (simp add: room_for_def new_reassembler_def unknown_peer_def test_envelope_length)
  have plain: "plain_header (header test_envelope)" "length (messageId (header test_envelope)) = 16"
    by (simp_all add: plain_header_def test_envelope_def)
  have order: "distinct [2 :: nat, 0, 1]" "set [2, 0, 1] = {..<length [f0, f1, f2]}" by auto
  have "no_stale new_reassembler t \<and> t - hd [5, 7, 9] \<le> 30000" if "t \<in> set [5, 7, 9]" for t
    using that by (auto simp: no_stale_def new_reassembler_def)
  from reassembly_any_order [OF ref_cbor ref_cbor_compact plain f _ _ room order _ this]
  obtain rest where "feed ref_lib ''n1'' [(5, f2), (7, f0), (9, f1)] new_reassembler
      = ([None, None, Some test_envelope], rest)" by (auto simp: numeral_2_eq_2 simp del: feed.simps)
  then show ?thesis using f by blast
qed

text \<open>C21: The reassembler's state stays within its limits under any input. Whatever frames arrive, from
  whatever peers and at whatever times, at most 128 sets and 2 MiB are pending, each authenticated peer
  has at most 16 sets and 256 KiB, the running counters agree with what is held, and no complete set stays.\<close>

theorem reassembler_bounded:
  assumes "reassembling L R"
  shows "pendingCount R \<le> 128 \<and> pendingBytesCount R \<le> 2 * 1024 * 1024 \<and>
    pendingBytesCount R = (\<Sum>(k, e)\<leftarrow>pending R. part_bytes e) \<and>
    (\<forall>p. p \<noteq> ''unknown'' \<longrightarrow>
       mget_or (peerPendingSets R) p 0 = int (length (filter (\<lambda>(k, e). entryPeer e = p) (pending R))) \<and>
       length (filter (\<lambda>(k, e). entryPeer e = p) (pending R)) \<le> 16 \<and>
       mget_or (peerPendingBytes R) p 0 = (\<Sum>(k, e)\<leftarrow>filter (\<lambda>(k, e). entryPeer e = p) (pending R). part_bytes e) \<and>
       mget_or (peerPendingBytes R) p 0 \<le> 256 * 1024) \<and>
    (\<forall>(k, e) \<in> set (pending R). int (length (received e)) < entryCount e)"
proof -
  have sets: "tally entryPeer (\<lambda>_. 1) m p = int (length (filter (\<lambda>(k, e). entryPeer e = p) m))" for m :: "(string, PendingEntry) jsmap" and p
    by (induction m) (auto simp: tally_def)
  have bts: "tally entryPeer part_bytes m p = (\<Sum>(k, e)\<leftarrow>filter (\<lambda>(k, e). entryPeer e = p) m. part_bytes e)"
    for m :: "(string, PendingEntry) jsmap" and p
    by (induction m) (auto simp: tally_def)
  show ?thesis
    using reassembling_books [OF assms]
    by (simp add: books_def all_incomplete_def pendingCount_def pendingBytesCount_def unknown_peer_def sets bts)
      (simp add: tally_def)
qed

text \<open>A link with a large transmission unit defeats fragmentation. On a link of more than 4128 bytes, the
  first frame of an envelope that is larger than the unit carries more than 4096 bytes of data, and every
  reassembler answers it with \<open>null\<close> and keeps nothing of it.\<close>

theorem large_unit_frames_refused:
  assumes "cbor_roundtrips L" "fragmentEnvelope L e mtu = Inr frames" "4128 < mtu"
    and "mtu \<le> int (length (encodeEnvelope L e))" "length (messageId (header e)) = 16" "no_stale R t"
  shows "addFragment L t (hd frames) peerId R = (None, R)"
proof -
  let ?full = "encodeEnvelope L e" and ?c = "chunk_size mtu"
  let ?n = "ceil_div (length ?full) ?c"
  have c: "4096 < ?c" "?c \<le> length ?full" using assms(3,4) by (auto simp: chunk_size_def fragment_limits)
  then have n: "0 < ?n" "?n \<le> 4096"
    using assms(2) by (auto intro!: ceil_div_pos simp: fragmentEnvelope_def Let_def fragment_limits split: if_splits)
  let ?v = "JArr [JBytes (messageId (header e)), JNum (Num 0), JNum (Num (int ?n)), JBytes (take ?c ?full)]"
  have "frames = map (\<lambda>i. encodeFragment L \<lparr>fragId = messageId (header e), fragIndex = int i, fragCount = int ?n,
      fragData = slice (i * ?c) ((i + 1) * ?c) ?full\<rparr>) [0..<?n]"
    using assms(2) by (simp add: fragmentEnvelope_def Let_def split: if_splits)
  then have hd: "hd frames = cbor_encode L ?v"
    using n(1) by (simp add: hd_map upt_conv_Cons encodeFragment_def slice_def)
  have "cbor_decode L (cbor_encode L ?v) = Some ?v" using n(2) by (intro cbor_roundtripsD [OF assms(1)]) simp
  then have "decodeFragment L (hd frames) = Inl (Err ''Fragment size exceeds limit'')"
    using n c assms(5) by (simp add: hd decodeFragment_def fragment_limits numeral_2_eq_2 numeral_3_eq_3)
  moreover have "purgeStale t DEFAULT_FRAGMENT_MAX_AGE_MS R = (0, R)"
    using assms(6) by (intro purge_nothing) (auto simp: no_stale_def fragment_limits)
  ultimately show ?thesis by (simp add: addFragment_def)
qed

theorem reassembler_bounded_witness:
  "pendingCount (snd (addFragment ref_lib 5 (part_frame ref_lib (replicate 16 1) [[1, 2], [3]] 0) ''n1'' new_reassembler)) \<le> 128"
  using reassembler_bounded [OF reassembling_add [OF reassembling_new]] by blast

definition large_envelope :: Envelope where
  "large_envelope = test_envelope\<lparr>sealedPayload := replicate 5000 0\<rparr>"

theorem large_unit_frames_refused_witness:
  "\<exists>frames. fragmentEnvelope ref_lib large_envelope 4200 = Inr frames \<and>
    addFragment ref_lib 5 (hd frames) ''n1'' new_reassembler = (None, new_reassembler)"
proof -
  have len: "length (encodeEnvelope ref_lib large_envelope) = 5051"
    by (simp add: encodeEnvelope_def headerToTuple_def test_envelope_def large_envelope_def ref_lib_def enc_bytes_def
        leb.simps zigzag_def)
  then obtain frames where f: "fragmentEnvelope ref_lib large_envelope 4200 = Inr frames"
    by (simp add: fragmentEnvelope_def chunk_size_def fragment_limits ceil_div_def Let_def)
  from large_unit_frames_refused [OF ref_cbor f, of new_reassembler 5 "''n1''"] f len show ?thesis
    by (simp add: large_envelope_def test_envelope_def no_stale_def new_reassembler_def)
qed

end
