(* ===== verification/Store.thy ===== *)
theory Store
  imports Envelope
begin

text \<open>
  \<open>src/storage/store.ts\<close>: the store and forward queue. A queue is a record of the class fields; every
  operation of the code that purges first does so here. Times: \<open>nowMs\<close> is \<open>Date.now()\<close>, read once per
  operation. The contract the relay node relies on is the locale \<open>store_forward\<close>, which speaks of the
  unexpired envelopes of a queue by message id; its laws are proved for the model at the end.
\<close>

section \<open>The queue\<close>

record StoredEnvelope =
  storedEnvelope :: Envelope
  receivedFrom :: string
  storedAt :: int
  integrityHash :: bytes

datatype StoreResult = Stored | NotStored string

record QueueSummaryEntry =
  summaryId :: bytes
  ttlRemaining :: jsnum

record StoreForwardQueue =
  entries :: "(string, StoredEnvelope) jsmap"
  perNeighborCount :: "(string, int) jsmap"
  maxPerNeighbor :: nat
  maxTotal :: nat

definition STORE_FORWARD_MAX_AGE_SECONDS :: int where
  "STORE_FORWARD_MAX_AGE_SECONDS = 3600"

definition new_queue :: "nat \<Rightarrow> nat \<Rightarrow> StoreForwardQueue" where
  "new_queue neighborCap totalCap =
     \<lparr>entries = [], perNeighborCount = [], maxPerNeighbor = neighborCap, maxTotal = totalCap\<rparr>"

definition removeByKey :: "string \<Rightarrow> StoreForwardQueue \<Rightarrow> StoreForwardQueue" where
  "removeByKey key q =
     (case mget (entries q) key of
        None \<Rightarrow> q\<lparr>entries := mdel key (entries q)\<rparr>
      | Some entry \<Rightarrow> q\<lparr>entries := mdel key (entries q),
            perNeighborCount := release (receivedFrom entry) 1 (perNeighborCount q)\<rparr>)"

definition queue_purge :: "int \<Rightarrow> int \<Rightarrow> StoreForwardQueue \<Rightarrow> nat \<times> StoreForwardQueue" where
  "queue_purge nowMs maxAgeSeconds q =
     sweep (\<lambda>key entry. \<not> validateRoutingHeader nowMs maxAgeSeconds (header (storedEnvelope entry)))
       (\<lambda>key entry. removeByKey key) (entries q) q"

abbreviation purged :: "int \<Rightarrow> StoreForwardQueue \<Rightarrow> StoreForwardQueue" where
  "purged nowMs q \<equiv> snd (queue_purge nowMs STORE_FORWARD_MAX_AGE_SECONDS q)"

abbreviation id_hex :: "Envelope \<Rightarrow> string" where
  "id_hex e \<equiv> bytesToHex (messageId (header e))"

definition store :: "lib \<Rightarrow> int \<Rightarrow> Envelope \<Rightarrow> string \<Rightarrow> StoreForwardQueue \<Rightarrow> StoreResult \<times> StoreForwardQueue" where
  "store L nowMs e from q0 =
     (let q = purged nowMs q0
      in if \<not> validateRoutingHeader nowMs STORE_FORWARD_MAX_AGE_SECONDS (header e)
         then (NotStored ''invalid header'', q)
         else if mhas (entries q) (id_hex e) then (NotStored ''duplicate'', q)
         else if maxTotal q \<le> length (entries q) then (NotStored ''queue full'', q)
         else (let neighborCount = mget_or (perNeighborCount q) from 0
               in if int (maxPerNeighbor q) \<le> neighborCount then (NotStored ''neighbor quota exceeded'', q)
                  else (Stored, q\<lparr>entries := mset_at (id_hex e)
                      \<lparr>storedEnvelope = e, receivedFrom = from, storedAt = nowMs div 1000,
                       integrityHash = sha256 L (encodeEnvelope L e)\<rparr> (entries q),
                    perNeighborCount := mset_at from (neighborCount + 1) (perNeighborCount q)\<rparr>)))"

definition verifyIntegrity :: "lib \<Rightarrow> int \<Rightarrow> bytes \<Rightarrow> StoreForwardQueue \<Rightarrow> bool \<times> StoreForwardQueue" where
  "verifyIntegrity L nowMs mid q0 =
     (let q = purged nowMs q0
      in (case mget (entries q) (bytesToHex mid) of
            None \<Rightarrow> False
          | Some entry \<Rightarrow> bytesEqual (sha256 L (encodeEnvelope L (storedEnvelope entry))) (integrityHash entry), q))"

definition acknowledge :: "bytes \<Rightarrow> StoreForwardQueue \<Rightarrow> StoreForwardQueue" where
  "acknowledge mid q = removeByKey (bytesToHex mid) q"

definition has :: "int \<Rightarrow> bytes \<Rightarrow> StoreForwardQueue \<Rightarrow> bool \<times> StoreForwardQueue" where
  "has nowMs mid q0 = (let q = purged nowMs q0 in (mhas (entries q) (bytesToHex mid), q))"

definition queue_size :: "int \<Rightarrow> StoreForwardQueue \<Rightarrow> nat \<times> StoreForwardQueue" where
  "queue_size nowMs q0 = (let q = purged nowMs q0 in (length (entries q), q))"

definition getSummary :: "int \<Rightarrow> StoreForwardQueue \<Rightarrow> QueueSummaryEntry list \<times> StoreForwardQueue" where
  "getSummary nowMs q0 =
     (let q = purged nowMs q0
      in (map (\<lambda>(_, x). \<lparr>summaryId = messageId (header (storedEnvelope x)),
                ttlRemaining = ttl (header (storedEnvelope x))\<rparr>) (entries q), q))"

definition getByDestination :: "int \<Rightarrow> bytes \<Rightarrow> StoreForwardQueue \<Rightarrow> Envelope list \<times> StoreForwardQueue" where
  "getByDestination nowMs hint q0 =
     (let q = purged nowMs q0; hex = bytesToHex hint
      in (map (storedEnvelope \<circ> snd)
            (filter (\<lambda>(_, x). bytesToHex (destinationHint (header (storedEnvelope x))) = hex) (entries q)), q))"

definition getByIds :: "int \<Rightarrow> bytes list \<Rightarrow> StoreForwardQueue \<Rightarrow> Envelope list \<times> StoreForwardQueue" where
  "getByIds nowMs ids q0 =
     (let q = purged nowMs q0; idSet = map bytesToHex ids
      in (map (storedEnvelope \<circ> snd) (filter (\<lambda>(_, x). id_hex (storedEnvelope x) \<in> set idSet) (entries q)), q))"

section \<open>Expiry\<close>

abbreviation fresh :: "int \<Rightarrow> Envelope \<Rightarrow> bool" where
  "fresh nowMs e \<equiv> validateRoutingHeader nowMs STORE_FORWARD_MAX_AGE_SECONDS (header e)"

lemma not_future_mono: "a \<le> b \<Longrightarrow> \<not> Num a < t \<Longrightarrow> \<not> Num b < t"
  by (cases t) (auto simp: less_jsnum_def)

lemma too_old_mono: "a \<le> b \<Longrightarrow> Num m < num_sub (Num a) t \<Longrightarrow> Num m < num_sub (Num b) t"
  by (cases t) (auto simp: less_jsnum_def)

text \<open>A header that is valid at two times is valid in between.\<close>

lemma validate_between:
  assumes "s \<le> t" "t \<le> u" "validateRoutingHeader s maxAge h" "validateRoutingHeader u maxAge h"
  shows "validateRoutingHeader t maxAge h"
proof -
  have "s div 1000 + 60 \<le> t div 1000 + 60" "t div 1000 \<le> u div 1000"
    using assms(1,2) by (simp_all add: zdiv_mono1)
  then show ?thesis
    using assms(3,4) not_future_mono [of "s div 1000 + 60" "t div 1000 + 60" "timestamp h"]
      too_old_mono [of "t div 1000" "u div 1000" maxAge "timestamp h"]
    by (auto simp: validateRoutingHeader_def TIMESTAMP_GRANULARITY_SECONDS_def Let_def split: if_splits)
qed

section \<open>The invariant\<close>

interpretation per_neighbor: ledger receivedFrom "\<lambda>_. 1"
  by unfold_locales simp

text \<open>
  \<open>queue_ok L t q\<close>: after operations at times up to \<open>t\<close>, keys are the ids of their envelopes, every
  entry was fresh when it was stored, both limits hold, the neighbour counters are exact, and every
  integrity hash is the hash of its envelope.
\<close>

definition entry_fits :: "lib \<Rightarrow> int \<Rightarrow> string \<Rightarrow> StoredEnvelope \<Rightarrow> bool" where
  "entry_fits L t k x \<longleftrightarrow> k = id_hex (storedEnvelope x) \<and> (\<exists>s \<le> t. fresh s (storedEnvelope x)) \<and>
     integrityHash x = sha256 L (encodeEnvelope L (storedEnvelope x))"

definition queue_ok :: "lib \<Rightarrow> int \<Rightarrow> StoreForwardQueue \<Rightarrow> bool" where
  "queue_ok L t q \<longleftrightarrow> wf_map (entries q) \<and> (\<forall>(k, x) \<in> set (entries q). entry_fits L t k x) \<and>
     length (entries q) \<le> maxTotal q \<and>
     (\<forall>p. mget_or (perNeighborCount q) p 0 = tally receivedFrom (\<lambda>_. 1) (entries q) p \<and>
        tally receivedFrom (\<lambda>_. 1) (entries q) p \<le> int (maxPerNeighbor q))"

lemma queue_ok_new: "queue_ok L t (new_queue n m)"
  by (simp add: queue_ok_def new_queue_def)

lemma queue_ok_wf: "queue_ok L t q \<Longrightarrow> wf_map (entries q)"
  by (simp add: queue_ok_def)

lemma entry_fits_mono: "entry_fits L t k x \<Longrightarrow> t \<le> t' \<Longrightarrow> entry_fits L t' k x"
  unfolding entry_fits_def by (blast intro: order_trans)

lemma queue_ok_mono: "queue_ok L t q \<Longrightarrow> t \<le> t' \<Longrightarrow> queue_ok L t' q"
  unfolding queue_ok_def using entry_fits_mono by blast

lemma removeByKey_entries [simp]: "entries (removeByKey k q) = mdel k (entries q)"
  by (simp add: removeByKey_def split: option.splits)

lemma removeByKey_limits [simp]:
  "maxTotal (removeByKey k q) = maxTotal q" "maxPerNeighbor (removeByKey k q) = maxPerNeighbor q"
  by (simp_all add: removeByKey_def split: option.splits)

lemma queue_ok_remove:
  assumes "queue_ok L t q"
  shows "queue_ok L t (removeByKey k q)"
proof (cases "mget (entries q) k")
  case None
  then have "mdel k (entries q) = entries q"
    by (simp add: delete_id map_of_eq_None_iff)
  with None assms show ?thesis by (simp add: removeByKey_def)
next
  case (Some x)
  note wf = queue_ok_wf [OF assms]
  have "mget_or (perNeighborCount (removeByKey k q)) p 0 = tally receivedFrom (\<lambda>_. 1) (mdel k (entries q)) p" for p
    using assms Some per_neighbor.release_tally [OF wf Some, of "\<lambda>_. True" "perNeighborCount q"]
    by (simp add: removeByKey_def queue_ok_def)
  moreover have "tally receivedFrom (\<lambda>_. 1) (mdel k (entries q)) p \<le> int (maxPerNeighbor q)" for p
  proof -
    have "tally receivedFrom (\<lambda>_. 1) (mdel k (entries q)) p \<le> tally receivedFrom (\<lambda>_. 1) (entries q) p"
      by (simp add: per_neighbor.tally_del [OF wf Some])
    also have "\<dots> \<le> int (maxPerNeighbor q)" using assms by (simp add: queue_ok_def)
    finally show ?thesis .
  qed
  moreover have "length (mdel k (entries q)) \<le> maxTotal q"
    using assms length_del_le [of k "entries q"] by (simp add: queue_ok_def)
  ultimately show ?thesis using assms by (auto simp: queue_ok_def in_set_mdel)
qed

interpretation expiring: expiring_store entries "\<lambda>key entry. removeByKey key" "queue_ok L t" for L t
  by unfold_locales (simp_all add: queue_ok_wf queue_ok_remove)

lemma queue_ok_purge: "queue_ok L t q \<Longrightarrow> queue_ok L t (snd (queue_purge nowMs maxAge q))"
  unfolding queue_purge_def by (rule expiring.sweep_inv)

lemma purged_entries:
  "queue_ok L t q \<Longrightarrow> entries (purged nowMs q) = filter (\<lambda>(k, x). fresh nowMs (storedEnvelope x)) (entries q)"
  by (simp add: queue_purge_def expiring.sweep_view [of L t])

lemma sweep_limits:
  "maxTotal (snd (foldl (\<lambda>(purged, s) (k, v). if stale k v then (purged + 1, removeByKey k s) else (purged, s)) (n, q) m)) = maxTotal q
   \<and> maxPerNeighbor (snd (foldl (\<lambda>(purged, s) (k, v). if stale k v then (purged + 1, removeByKey k s) else (purged, s)) (n, q) m))
       = maxPerNeighbor q"
  by (induction m arbitrary: n q) (auto split: prod.splits)

lemma purge_limits [simp]:
  "maxTotal (snd (queue_purge nowMs maxAge q)) = maxTotal q"
  "maxPerNeighbor (snd (queue_purge nowMs maxAge q)) = maxPerNeighbor q"
  by (simp_all add: queue_purge_def sweep_def sweep_limits)

lemma queue_ok_store:
  assumes "queue_ok L t q" "t \<le> nowMs"
  shows "queue_ok L nowMs (snd (store L nowMs e from q))"
proof -
  let ?q = "purged nowMs q"
  have ok: "queue_ok L nowMs ?q" by (rule queue_ok_purge [OF queue_ok_mono [OF assms]])
  show ?thesis
  proof (cases "fst (store L nowMs e from q) = Stored")
    case False
    then have "snd (store L nowMs e from q) = ?q" by (auto simp: store_def Let_def)
    with ok show ?thesis by simp
  next
    case True
    let ?x = "\<lparr>storedEnvelope = e, receivedFrom = from, storedAt = nowMs div 1000,
      integrityHash = sha256 L (encodeEnvelope L e)\<rparr>"
    from True have new: "\<not> mhas (entries ?q) (id_hex e)" and v: "fresh nowMs e"
      and room: "length (entries ?q) < maxTotal ?q" "mget_or (perNeighborCount ?q) from 0 < int (maxPerNeighbor ?q)"
      and eq: "snd (store L nowMs e from q) = ?q\<lparr>entries := mset_at (id_hex e) ?x (entries ?q),
        perNeighborCount := mset_at from (mget_or (perNeighborCount ?q) from 0 + 1) (perNeighborCount ?q)\<rparr>"
      by (auto simp: store_def Let_def split: if_splits)
    have "entry_fits L nowMs (id_hex e) ?x" using v by (auto simp: entry_fits_def)
    then have "\<forall>(k, x) \<in> set (mset_at (id_hex e) ?x (entries ?q)). entry_fits L nowMs k x"
      using ok set_mset_at_subset [of "id_hex e" ?x "entries ?q"] unfolding queue_ok_def by auto
    moreover have "tally receivedFrom (\<lambda>_. 1) (mset_at (id_hex e) ?x (entries ?q)) p
        = tally receivedFrom (\<lambda>_. 1) (entries ?q) p + (if from = p then 1 else 0)" for p
      by (simp add: per_neighbor.tally_new [OF new])
    ultimately show ?thesis
      using ok room new unfolding eq queue_ok_def by (auto simp: length_set)
  qed
qed

section \<open>The contract of a store and forward queue\<close>

text \<open>
  What the relay node expects of its queue: \<open>content\<close> is what the queue holds by message id, \<open>alive\<close> says
  which envelopes are unexpired at a time, \<open>visit\<close> is what every read does to the queue. Operations
  come with their times, in ascending order.
\<close>

datatype 'e queue_op = Put 'e string | Drop bytes | Visit

fun times_ascend :: "int \<Rightarrow> (int \<times> 'e queue_op) list \<Rightarrow> int \<Rightarrow> bool" where
  "times_ascend t [] u \<longleftrightarrow> t \<le> u"
| "times_ascend t ((t', _) # ops) u \<longleftrightarrow> t \<le> t' \<and> times_ascend t' ops u"

locale store_forward =
  fixes valid :: "int \<Rightarrow> 'q \<Rightarrow> bool" and alive :: "int \<Rightarrow> 'e \<Rightarrow> bool" and ident :: "'e \<Rightarrow> bytes"
    and content :: "'q \<Rightarrow> bytes \<Rightarrow> 'e option"
    and put :: "int \<Rightarrow> 'e \<Rightarrow> string \<Rightarrow> 'q \<Rightarrow> bool \<times> 'q" and drop_id :: "bytes \<Rightarrow> 'q \<Rightarrow> 'q" and visit :: "int \<Rightarrow> 'q \<Rightarrow> 'q"
  assumes alive_between: "s \<le> t \<Longrightarrow> t \<le> u \<Longrightarrow> alive s e \<Longrightarrow> alive u e \<Longrightarrow> alive t e"
    and content_valid: "valid t q \<Longrightarrow> content q i = Some e \<Longrightarrow> ident e = i \<and> (\<exists>s \<le> t. alive s e)"
    and valid_visit: "valid t q \<Longrightarrow> t \<le> t' \<Longrightarrow> valid t' (visit t' q)"
    and content_visit: "valid t q \<Longrightarrow> t \<le> t' \<Longrightarrow> content (visit t' q) i = Some e \<longleftrightarrow> content q i = Some e \<and> alive t' e"
    and valid_put: "valid t q \<Longrightarrow> t \<le> t' \<Longrightarrow> valid t' (snd (put t' e from q))"
    and content_put: "valid t q \<Longrightarrow> t \<le> t' \<Longrightarrow> content (snd (put t' e from q)) =
        (if fst (put t' e from q) then (content (visit t' q))(ident e \<mapsto> e) else content (visit t' q))"
    and put_fresh: "valid t q \<Longrightarrow> t \<le> t' \<Longrightarrow> fst (put t' e from q) \<Longrightarrow> content (visit t' q) (ident e) = None \<and> alive t' e"
    and valid_drop: "valid t q \<Longrightarrow> t \<le> t' \<Longrightarrow> valid t' (drop_id i q)"
    and content_drop: "valid t q \<Longrightarrow> content (drop_id i q) = (content q)(i := None)"
begin

fun run :: "(int \<times> 'e queue_op) list \<Rightarrow> 'q \<Rightarrow> 'q" where
  "run [] q = q"
| "run ((t, Put e from) # ops) q = run ops (snd (put t e from q))"
| "run ((t, Drop i) # ops) q = run ops (drop_id i q)"
| "run ((t, Visit) # ops) q = run ops (visit t q)"

lemma times_ascend_le: "times_ascend t ops u \<Longrightarrow> t \<le> u"
  by (induction t ops u rule: times_ascend.induct) auto

lemma run_valid: "valid t q \<Longrightarrow> times_ascend t ops u \<Longrightarrow> \<exists>t' \<le> u. valid t' (run ops q)"
proof (induction ops q arbitrary: t rule: run.induct)
  case (2 t' e src ops q)
  then show ?case using valid_put [of t q t' e src] by auto
next
  case (3 t' i ops q)
  then show ?case using valid_drop [of t q t' i] by auto
next
  case (4 t' ops q)
  then show ?case using valid_visit [of t q t'] by auto
qed auto

text \<open>What is held is kept: only its own removal or its expiry takes an envelope out of the queue.\<close>

lemma kept:
  assumes "valid t q" "content q i = Some e" "times_ascend t ops u" "alive u e" "\<And>t'. (t', Drop i) \<notin> set ops"
  shows "content (run ops q) i = Some e"
  using assms
proof (induction ops q arbitrary: t rule: run.induct)
  case (2 t' e' src ops q)
  have le: "t \<le> t'" "t' \<le> u" using "2.prems"(3) times_ascend_le by auto
  have "alive t' e" using content_valid [OF "2.prems"(1,2)] alive_between le "2.prems"(4) order_trans by metis
  then have held: "content (visit t' q) i = Some e"
    using content_visit [OF "2.prems"(1) le(1)] "2.prems"(2) by blast
  have "content (snd (put t' e' src q)) i = Some e"
  proof (cases "fst (put t' e' src q)")
    case True
    with put_fresh [OF "2.prems"(1) le(1) True] held have "ident e' \<noteq> i" by auto
    then show ?thesis using content_put [OF "2.prems"(1) le(1)] held by simp
  qed (use content_put [OF "2.prems"(1) le(1)] held in simp)
  then show ?case
    using "2.IH" [OF valid_put [OF "2.prems"(1) le(1)]] "2.prems"(3-5) by simp
next
  case (3 t' j ops q)
  then have "j \<noteq> i" "t \<le> t'" by auto
  then show ?case
    using "3.IH" [OF valid_drop [OF "3.prems"(1)]] "3.prems" content_drop [OF "3.prems"(1)] by simp
next
  case (4 t' ops q)
  have le: "t \<le> t'" "t' \<le> u" using "4.prems"(3) times_ascend_le by auto
  have "alive t' e" using content_valid [OF "4.prems"(1,2)] alive_between le "4.prems"(4) order_trans by metis
  then have "content (visit t' q) i = Some e"
    using content_visit [OF "4.prems"(1) le(1)] "4.prems"(2) by blast
  then show ?case using "4.IH" [OF valid_visit [OF "4.prems"(1) le(1)]] "4.prems"(3-5) by simp
qed simp

lemma put_kept:
  assumes "valid t0 q" "t0 \<le> t" "fst (put t e from q)" "times_ascend t ops u" "alive u e"
    and "\<And>t'. (t', Drop (ident e)) \<notin> set ops"
  shows "content (run ops (snd (put t e from q))) (ident e) = Some e"
  using kept [OF valid_put [OF assms(1,2)] _ assms(4,5,6)] content_put [OF assms(1,2)] assms(3) by simp

end

section \<open>The queue implements the contract\<close>

definition held_envelope :: "StoreForwardQueue \<Rightarrow> bytes \<Rightarrow> Envelope option" where
  "held_envelope q i = map_option storedEnvelope (mget (entries q) (bytesToHex i))"

definition put_envelope :: "lib \<Rightarrow> int \<Rightarrow> Envelope \<Rightarrow> string \<Rightarrow> StoreForwardQueue \<Rightarrow> bool \<times> StoreForwardQueue" where
  "put_envelope L t e from q = (let (r, q') = store L t e from q in (r = Stored, q'))"

lemma purged_mget:
  "queue_ok L t q \<Longrightarrow> mget (entries (purged nowMs q)) k = Some x \<longleftrightarrow> mget (entries q) k = Some x \<and> fresh nowMs (storedEnvelope x)"
  by (simp add: purged_entries mget_filter_Some queue_ok_wf)

lemma held_purged:
  "queue_ok L t q \<Longrightarrow> held_envelope (purged nowMs q) i = Some e \<longleftrightarrow> held_envelope q i = Some e \<and> fresh nowMs e"
  by (auto simp: held_envelope_def purged_mget)

lemma held_valid:
  assumes "queue_ok L t q" "held_envelope q i = Some e"
  shows "messageId (header e) = i \<and> (\<exists>s \<le> t. fresh s e)"
proof -
  obtain x where "(bytesToHex i, x) \<in> set (entries q)" "storedEnvelope x = e"
    using assms(2) map_of_SomeD by (fastforce simp: held_envelope_def)
  then have "entry_fits L t (bytesToHex i) x" using assms(1) by (auto simp: queue_ok_def)
  then show ?thesis using \<open>storedEnvelope x = e\<close> by (auto simp: entry_fits_def)
qed

lemma store_Stored:
  assumes "fst (store L t e from q) = Stored"
  shows "held_envelope (purged t q) (messageId (header e)) = None \<and> fresh t e \<and>
    held_envelope (snd (store L t e from q)) = (held_envelope (purged t q))(messageId (header e) \<mapsto> e)"
  using assms by (auto simp: store_def Let_def mhas_def held_envelope_def split: if_splits)

lemma store_NotStored:
  "fst (store L t e from q) \<noteq> Stored \<Longrightarrow> snd (store L t e from q) = purged t q"
  by (auto simp: store_def Let_def)

lemma put_envelope_simps [simp]:
  "fst (put_envelope L t e from q) \<longleftrightarrow> fst (store L t e from q) = Stored"
  "snd (put_envelope L t e from q) = snd (store L t e from q)"
  by (simp_all add: put_envelope_def case_prod_beta)

interpretation relay_queue: store_forward "queue_ok L" fresh "\<lambda>e. messageId (header e)" held_envelope
    "put_envelope L" acknowledge purged for L
proof unfold_locales
  fix t t' :: int and q :: StoreForwardQueue and e :: Envelope and "from" :: string and i :: bytes
  assume ok: "queue_ok L t q"
  show "held_envelope (acknowledge i q) = (held_envelope q)(i := None)"
    by (auto simp: acknowledge_def held_envelope_def)
  assume le: "t \<le> t'"
  show "queue_ok L t' (purged t' q)" by (rule queue_ok_purge [OF queue_ok_mono [OF ok le]])
  show "queue_ok L t' (snd (put_envelope L t' e from q))" using queue_ok_store [OF ok le] by simp
  show "queue_ok L t' (acknowledge i q)"
    unfolding acknowledge_def by (rule queue_ok_remove [OF queue_ok_mono [OF ok le]])
  show "held_envelope (snd (put_envelope L t' e from q)) = (if fst (put_envelope L t' e from q)
      then (held_envelope (purged t' q))(messageId (header e) \<mapsto> e) else held_envelope (purged t' q))"
    using store_Stored [of L t' e "from" q] store_NotStored [of L t' e "from" q] by auto
qed (auto intro: validate_between simp: held_valid held_purged dest: store_Stored)

lemma in_getByIds:
  assumes "queue_ok L t q"
  shows "set (fst (getByIds u ids q)) = {e. \<exists>i \<in> set ids. held_envelope q i = Some e \<and> fresh u e}"
proof -
  have wf: "wf_map (entries (purged u q))" by (rule queue_ok_wf [OF queue_ok_purge [OF assms]])
  have key: "k = id_hex (storedEnvelope x)" if "(k, x) \<in> set (entries (purged u q))" for k x
    using queue_ok_purge [OF assms] that by (fastforce simp: queue_ok_def entry_fits_def)
  have "e \<in> set (fst (getByIds u ids q)) \<longleftrightarrow> (\<exists>i \<in> set ids. held_envelope (purged u q) i = Some e)" for e
    unfolding getByIds_def held_envelope_def Let_def
    by (auto simp: image_iff mget_Some_iff [OF wf] dest: key) (metis fst_conv key bytesToHex_eq_iff)+
  then show ?thesis using held_purged [OF assms] by auto
qed

lemma in_getByDestination:
  assumes "queue_ok L t q"
  shows "set (fst (getByDestination u hint q)) =
    {e. held_envelope q (messageId (header e)) = Some e \<and> fresh u e \<and> destinationHint (header e) = hint}"
proof -
  have wf: "wf_map (entries (purged u q))" by (rule queue_ok_wf [OF queue_ok_purge [OF assms]])
  have key: "k = id_hex (storedEnvelope x)" if "(k, x) \<in> set (entries (purged u q))" for k x
    using queue_ok_purge [OF assms] that by (fastforce simp: queue_ok_def entry_fits_def)
  have "e \<in> set (fst (getByDestination u hint q)) \<longleftrightarrow>
      held_envelope (purged u q) (messageId (header e)) = Some e \<and> destinationHint (header e) = hint" for e
    unfolding getByDestination_def held_envelope_def Let_def
    by (auto simp: image_iff mget_Some_iff [OF wf] dest: key)
  then show ?thesis using held_purged [OF assms] by auto
qed

section \<open>Histories of a queue\<close>

text \<open>A sequence of timed operations of the queue; \<open>Visit\<close> is the purge every read begins with.\<close>

fun queue_ops :: "lib \<Rightarrow> (int \<times> Envelope queue_op) list \<Rightarrow> StoreForwardQueue \<Rightarrow> StoreForwardQueue" where
  "queue_ops L [] q = q"
| "queue_ops L ((t, Put e from) # ops) q = queue_ops L ops (snd (store L t e from q))"
| "queue_ops L ((t, Drop i) # ops) q = queue_ops L ops (acknowledge i q)"
| "queue_ops L ((t, Visit) # ops) q = queue_ops L ops (purged t q)"

lemma queue_ops_run: "relay_queue.run L ops q = queue_ops L ops q"
  by (induction L ops q rule: queue_ops.induct) simp_all

lemma queue_ops_valid:
  "queue_ok L t q \<Longrightarrow> times_ascend t ops u \<Longrightarrow> \<exists>t' \<le> u. queue_ok L t' (queue_ops L ops q)"
  using relay_queue.run_valid by (simp add: queue_ops_run)

lemma queue_ops_limits [simp]:
  "maxTotal (queue_ops L ops q) = maxTotal q \<and> maxPerNeighbor (queue_ops L ops q) = maxPerNeighbor q"
  by (induction L ops q rule: queue_ops.induct) (auto simp: store_def acknowledge_def Let_def)

section \<open>Properties\<close>

text \<open>C14: Store, carry and forward. An envelope the queue accepts is handed out by id and by destination
  at any later time at which its header is still valid, whatever was stored, acknowledged under another id
  or read in between: acceptance of other traffic never evicts it.\<close>

theorem accepted_envelope_is_kept:
  assumes "queue_ok L t0 q" "t0 \<le> t" "fst (store L t e from q) = Stored"
    and "times_ascend t ops u" "validateRoutingHeader u 3600 (header e)"
    and "\<And>t'. (t', Drop (messageId (header e))) \<notin> set ops"
  shows "e \<in> set (fst (getByIds u [messageId (header e)] (queue_ops L ops (snd (store L t e from q))))) \<and>
    e \<in> set (fst (getByDestination u (destinationHint (header e)) (queue_ops L ops (snd (store L t e from q)))))"
proof -
  let ?q = "queue_ops L ops (snd (store L t e from q))"
  have f: "fresh u e" using assms(5) by (simp add: STORE_FORWARD_MAX_AGE_SECONDS_def)
  obtain t' where ok: "queue_ok L t' ?q"
    using queue_ops_valid [OF queue_ok_store [OF assms(1,2)] assms(4)] by blast
  have "held_envelope ?q (messageId (header e)) = Some e"
    using relay_queue.put_kept [OF assms(1,2) _ assms(4) f assms(6)] assms(3) by (simp add: queue_ops_run)
  then show ?thesis using f by (simp add: in_getByIds [OF ok] in_getByDestination [OF ok])
qed

definition other_envelope :: Envelope where
  "other_envelope = test_envelope\<lparr>header := (header test_envelope)\<lparr>messageId := replicate 16 8\<rparr>\<rparr>"

lemma test_fresh:
  "1700000040 - 60 \<le> t div 1000 \<Longrightarrow> t div 1000 \<le> 1700000040 + 3600 \<Longrightarrow>
    validateRoutingHeader t 3600 (header test_envelope) \<and> validateRoutingHeader t 3600 (header other_envelope)"
  by (simp add: validate_Num [of _ 1700000040] test_envelope_def other_envelope_def)

theorem accepted_envelope_is_kept_witness:
  "test_envelope \<in> set (fst (getByIds 1700003600000 [replicate 16 9]
     (queue_ops ref_lib [(1700000060000, Put other_envelope ''n2''), (1700000070000, Visit), (1700000080000, Drop [1])]
        (snd (store ref_lib 1700000050000 test_envelope ''n1'' (new_queue 1 2))))))"
proof -
  have v: "validateRoutingHeader 1700003600000 3600 (header test_envelope)"
    "validateRoutingHeader 1700000050000 3600 (header test_envelope)" using test_fresh by simp_all
  have "fst (store ref_lib 1700000050000 test_envelope ''n1'' (new_queue 1 2)) = Stored"
    using v by (simp add: store_def new_queue_def queue_purge_def sweep_def STORE_FORWARD_MAX_AGE_SECONDS_def Let_def)
  from accepted_envelope_is_kept [OF queue_ok_new _ this, of 0
      "[(1700000060000, Put other_envelope ''n2''), (1700000070000, Visit), (1700000080000, Drop [1])]" 1700003600000]
  moreover have id: "messageId (header test_envelope) = replicate 16 9" by (simp add: test_envelope_def)
  moreover have "replicate 16 (9 :: byte) \<noteq> [1]" by (simp add: numeral_eq_Suc)
  ultimately show ?thesis using v by (simp del: queue_ops.simps)
qed

text \<open>What \<open>store\<close> answers. The header decides first, then a duplicate id, then the total, then the share
  of the neighbour; expired envelopes count for none of them, and a refusal changes nothing but the purge.\<close>

theorem store_outcome:
  assumes "queue_ok L t0 q"
  shows "fst (store L t e from q) =
      (if \<not> validateRoutingHeader t 3600 (header e) then NotStored ''invalid header''
       else if \<exists>e'. held_envelope q (messageId (header e)) = Some e' \<and> validateRoutingHeader t 3600 (header e')
         then NotStored ''duplicate''
       else if maxTotal q \<le> length (filter (\<lambda>(k, x). validateRoutingHeader t 3600 (header (storedEnvelope x))) (entries q))
         then NotStored ''queue full''
       else if maxPerNeighbor q \<le> length (filter (\<lambda>(k, x). validateRoutingHeader t 3600 (header (storedEnvelope x))
           \<and> receivedFrom x = from) (entries q)) then NotStored ''neighbor quota exceeded''
       else Stored) \<and>
    (fst (store L t e from q) \<noteq> Stored \<longrightarrow> snd (store L t e from q) = snd (queue_purge t 3600 q))"
proof -
  let ?q = "purged t q"
  have ok: "queue_ok L t0 ?q" by (rule queue_ok_purge [OF assms])
  have dup: "mhas (entries ?q) (id_hex e) \<longleftrightarrow> (\<exists>e'. held_envelope q (messageId (header e)) = Some e' \<and> fresh t e')"
    unfolding mhas_def held_envelope_def using purged_mget [OF assms, of t] by fastforce
  have "tally receivedFrom (\<lambda>_. 1) m p = int (length (filter (\<lambda>(k, x). receivedFrom x = p) m))"
    for m :: "(string, StoredEnvelope) jsmap" and p by (induction m) (auto simp: tally_def)
  then have cnt: "mget_or (perNeighborCount ?q) from 0
      = int (length (filter (\<lambda>(k, x). fresh t (storedEnvelope x) \<and> receivedFrom x = from) (entries q)))"
    using ok by (simp add: queue_ok_def purged_entries [OF assms] filter_filter case_prod_unfold)
  have max: "STORE_FORWARD_MAX_AGE_SECONDS = 3600" by (simp add: STORE_FORWARD_MAX_AGE_SECONDS_def)
  have len: "length (entries ?q) = length (filter (\<lambda>(k, x). fresh t (storedEnvelope x)) (entries q))"
    by (simp add: purged_entries [OF assms])
  have no: "fst (store L t e from q) \<noteq> Stored \<longrightarrow> snd (store L t e from q) = ?q"
    using store_NotStored by blast
  show ?thesis
    unfolding max [symmetric] by (rule conjI [OF _ no]) (auto simp: store_def Let_def dup cnt len)
qed

theorem store_outcome_witness:
  "fst (store ref_lib 1700000060000 other_envelope ''n1'' (snd (store ref_lib 1700000050000 test_envelope ''n1'' (new_queue 1 2))))
    = NotStored ''neighbor quota exceeded'' \<and>
   fst (store ref_lib 1700000050000 test_envelope ''n1'' (new_queue 1 2)) = Stored"
proof -
  let ?q = "snd (store ref_lib 1700000050000 test_envelope ''n1'' (new_queue 1 2))"
  have v: "validateRoutingHeader 1700000050000 3600 (header test_envelope)"
    "validateRoutingHeader 1700000060000 3600 (header test_envelope)"
    "validateRoutingHeader 1700000060000 3600 (header other_envelope)" using test_fresh by simp_all
  have ok: "queue_ok ref_lib 1700000050000 ?q" by (rule queue_ok_store [OF queue_ok_new order_refl])
  have "?q = (new_queue 1 2)\<lparr>entries := [(id_hex test_envelope, \<lparr>storedEnvelope = test_envelope, receivedFrom = ''n1'',
      storedAt = 1700000050, integrityHash = sha256 ref_lib (encodeEnvelope ref_lib test_envelope)\<rparr>)],
      perNeighborCount := [(''n1'', 1)]\<rparr>"
    using v by (simp add: store_def new_queue_def queue_purge_def sweep_def STORE_FORWARD_MAX_AGE_SECONDS_def Let_def)
  moreover have "id_hex other_envelope \<noteq> id_hex test_envelope"
    unfolding bytesToHex_eq_iff by (simp add: other_envelope_def test_envelope_def)
  ultimately show ?thesis
    using store_outcome [OF ok, of 1700000060000 other_envelope "''n1''"]
      store_outcome [OF queue_ok_new, of ref_lib 1700000050000 test_envelope "''n1''" 1 2] v
    by (simp add: held_envelope_def new_queue_def split: if_splits)
qed

text \<open>The queue stays within its limits. After any sequence of operations on a new queue it holds at most
  \<open>maxTotal\<close> envelopes with distinct ids, at most \<open>maxPerNeighbor\<close> of them from any one neighbour, the
  neighbour counters are exact, and every integrity hash is the hash of its envelope.\<close>

theorem queue_limits:
  assumes "times_ascend t ops u" "q = queue_ops L ops (new_queue perNeighbor totalCap)"
  shows "length (entries q) \<le> totalCap \<and> distinct (map (\<lambda>(k, x). messageId (header (storedEnvelope x))) (entries q)) \<and>
    (\<forall>p. mget_or (perNeighborCount q) p 0 = int (length (filter (\<lambda>(k, x). receivedFrom x = p) (entries q))) \<and>
       length (filter (\<lambda>(k, x). receivedFrom x = p) (entries q)) \<le> perNeighbor) \<and>
    (\<forall>(k, x) \<in> set (entries q). integrityHash x = sha256 L (encodeEnvelope L (storedEnvelope x)))"
proof -
  obtain t' where ok: "queue_ok L t' q"
    using queue_ops_valid [OF queue_ok_new assms(1)] assms(2) by blast
  have lim: "maxTotal q = totalCap" "maxPerNeighbor q = perNeighbor"
    using queue_ops_limits [of L ops "new_queue perNeighbor totalCap"] by (simp_all add: assms(2)) (simp_all add: new_queue_def)
  have "map fst (entries q) = map (\<lambda>(k, x). id_hex (storedEnvelope x)) (entries q)"
    using ok by (auto simp: queue_ok_def entry_fits_def)
  then have "distinct (map (\<lambda>(k, x). id_hex (storedEnvelope x)) (entries q))"
    using ok by (metis queue_ok_def wf_map_def)
  then have "distinct (map bytesToHex (map (\<lambda>(k, x). messageId (header (storedEnvelope x))) (entries q)))"
    by (simp add: comp_def case_prod_unfold)
  then have ids: "distinct (map (\<lambda>(k, x). messageId (header (storedEnvelope x))) (entries q))"
    by (simp only: distinct_map)
  have "tally receivedFrom (\<lambda>_. 1) m p = int (length (filter (\<lambda>(k, x). receivedFrom x = p) m))"
    for m :: "(string, StoredEnvelope) jsmap" and p by (induction m) (auto simp: tally_def)
  then show ?thesis using ok lim ids by (auto simp: queue_ok_def entry_fits_def)
qed

theorem queue_limits_witness:
  "length (entries (queue_ops ref_lib [(1700000050000, Put test_envelope ''n1''), (1700000060000, Put other_envelope ''n1'')]
     (new_queue 1 2))) \<le> 2"
  using queue_limits [of 0 "[(1700000050000, Put test_envelope ''n1''), (1700000060000, Put other_envelope ''n1'')]"
      1700000070000 _ ref_lib 1 2] by simp

end
