(* ===== verification/Routing.thy ===== *)
theory Routing
  imports Store
begin

text \<open>
  \<open>src/routing/route-provenance.ts\<close> and the advertisement and \<open>RoutingTable\<close> part of
  \<open>src/routing/routing.ts\<close>. The table maps the hex text of a destination hint to the candidates for it,
  each a neighbour with a status, an expiry and the trust binding its validation left. A route that the
  code edits in place is written back under its two keys. Trust scores and times are exact integers.
\<close>

section \<open>Provenance\<close>

record RouteProvenance =
  destinationPublicKey :: bytes
  provHint :: bytes
  advertiserPublicKey :: bytes
  neighborId :: string
  sessionEpoch :: int

record RouteTrustBinding = RouteProvenance +
  validatedAt :: int

definition createRouteProvenance :: "bytes \<Rightarrow> bytes \<Rightarrow> bytes \<Rightarrow> string \<Rightarrow> int \<Rightarrow> RouteProvenance res" where
  "createRouteProvenance destKey hint advKey neighbor epoch =
     (if length destKey \<noteq> 32 then Inl (Err ''INVALID_DESTINATION_IDENTITY'')
      else if length hint \<noteq> 8 then Inl (Err ''INVALID_DESTINATION_HINT'')
      else if length advKey \<noteq> 32 then Inl (Err ''INVALID_ADVERTISER_IDENTITY'')
      else if \<not> is_safe_integer (Num epoch) \<or> epoch < 0 then Inl (Err ''INVALID_SESSION_EPOCH'')
      else if length neighbor = 0 then Inl (Err ''INVALID_NEIGHBOR'')
      else Inr \<lparr>destinationPublicKey = destKey, provHint = hint, advertiserPublicKey = advKey,
             neighborId = neighbor, sessionEpoch = epoch\<rparr>)"

definition bindRouteTrust :: "RouteProvenance \<Rightarrow> int \<Rightarrow> RouteTrustBinding res" where
  "bindRouteTrust p validAt =
     (if \<not> is_safe_integer (Num validAt) \<or> validAt < 0 then Inl (Err ''INVALID_VALIDATION_TIME'')
      else Inr (RouteProvenance.extend p \<lparr>validatedAt = validAt\<rparr>))"

definition matchesRouteTrustBinding :: "RouteTrustBinding \<Rightarrow> RouteProvenance \<Rightarrow> bool" where
  "matchesRouteTrustBinding b p \<longleftrightarrow> neighborId b = neighborId p \<and> sessionEpoch b = sessionEpoch p \<and>
     bytesEqual (destinationPublicKey b) (destinationPublicKey p) \<and> bytesEqual (provHint b) (provHint p) \<and>
     bytesEqual (advertiserPublicKey b) (advertiserPublicKey p)"

fun join_with :: "string \<Rightarrow> string list \<Rightarrow> string" where
  "join_with sep [] = []"
| "join_with sep [s] = s"
| "join_with sep (s # t # ts) = s @ sep @ join_with sep (t # ts)"

definition int_string :: "int \<Rightarrow> string" where
  "int_string i = (if i < 0 then ''-'' @ nat_string (nat (- i)) else nat_string (nat i))"

definition routeProvenanceKey :: "RouteProvenance \<Rightarrow> string" where
  "routeProvenanceKey p = join_with '':''
     [bytesToHex (destinationPublicKey p), bytesToHex (provHint p), bytesToHex (advertiserPublicKey p),
      neighborId p, int_string (sessionEpoch p)]"

section \<open>Advertisements\<close>

record RoutingAdvertisement =
  adPublicKey :: bytes
  reachableDestinations :: "bytes list"
  adTimestamp :: jsnum
  adSignature :: bytes

definition ROUTING_AD_CONTEXT :: bytes where
  "ROUTING_AD_CONTEXT = text_encode ''ZAYCOMM_ROUTING_AD_V1''"

definition MAX_ROUTING_AD_AGE_MS :: int where
  "MAX_ROUTING_AD_AGE_MS = 5 * 60 * 1000"

definition MAX_ROUTING_AD_FUTURE_SKEW_MS :: int where
  "MAX_ROUTING_AD_FUTURE_SKEW_MS = 30 * 1000"

definition MAX_ROUTING_AD_DESTINATIONS :: nat where
  "MAX_ROUTING_AD_DESTINATIONS = 256"

definition ROUTE_PROBATION_MS :: int where
  "ROUTE_PROBATION_MS = 30 * 1000"

definition ROUTE_VALIDATION_TTL_MS :: int where
  "ROUTE_VALIDATION_TTL_MS = 5 * 60 * 1000"

definition computeDestinationHint :: "lib \<Rightarrow> bytes \<Rightarrow> bytes" where
  "computeDestinationHint L pk = slice 0 DESTINATION_HINT_LENGTH (sha256 L pk)"

definition buildAdvertisementMessage :: "bytes list \<Rightarrow> jsnum \<Rightarrow> bytes res" where
  "buildAdvertisementMessage hints t = rbind (u64le t) (\<lambda>ts. Inr (concatBytes (ROUTING_AD_CONTEXT # ts # hints)))"

definition createRoutingAdvertisement :: "lib \<Rightarrow> int \<Rightarrow> Identity \<Rightarrow> bytes list \<Rightarrow> RoutingAdvertisement res" where
  "createRoutingAdvertisement L nowMs identity hints =
     (let t = Num (nowMs div 1000)
      in rbind (buildAdvertisementMessage hints t) (\<lambda>m.
         rbind (signMessage L m (privateKey identity)) (\<lambda>s.
           Inr \<lparr>adPublicKey = publicKey identity, reachableDestinations = hints, adTimestamp = t, adSignature = s\<rparr>)))"

definition verifyRoutingAdvertisement :: "lib \<Rightarrow> int \<Rightarrow> RoutingAdvertisement \<Rightarrow> bool res" where
  "verifyRoutingAdvertisement L nowMs ad =
     (case safe_int (JNum (adTimestamp ad)) of
        None \<Rightarrow> Inr False
      | Some t \<Rightarrow>
          (if t < 0 then Inr False
           else if MAX_ROUTING_AD_DESTINATIONS < length (reachableDestinations ad) then Inr False
           else if length (adPublicKey ad) \<noteq> 32 \<or> length (adSignature ad) \<noteq> 64 then Inr False
           else if \<exists>hint \<in> set (reachableDestinations ad). length hint \<noteq> DESTINATION_HINT_LENGTH then Inr False
           else if t * 1000 < nowMs - MAX_ROUTING_AD_AGE_MS \<or> nowMs + MAX_ROUTING_AD_FUTURE_SKEW_MS < t * 1000 then Inr False
           else rbind (buildAdvertisementMessage (reachableDestinations ad) (adTimestamp ad)) (\<lambda>m.
                  verifySignature L (adSignature ad) m (adPublicKey ad))))"

section \<open>The routing table\<close>

datatype RouteStatus = Probation | Validated

record RouteCandidate =
  status :: RouteStatus
  lastAdvertisedAt :: int
  expiresAt :: int
  binding :: "RouteTrustBinding option"

type_synonym candidates = "(string, RouteCandidate) jsmap"
type_synonym RoutingTable = "(string, candidates) jsmap"

record SyncSession =
  syncSessionId :: string
  syncSendKey :: bytes
  syncReceiveKey :: bytes

record AuthenticatedPeer =
  peerIdentityKey :: bytes
  establishedAt :: int
  peerSession :: "SyncSession option"

definition find_route :: "RoutingTable \<Rightarrow> bytes \<Rightarrow> string \<Rightarrow> RouteCandidate option" where
  "find_route T hint neighbor = Option.bind (mget T (bytesToHex hint)) (\<lambda>c. mget c neighbor)"

definition set_route :: "RoutingTable \<Rightarrow> bytes \<Rightarrow> string \<Rightarrow> RouteCandidate \<Rightarrow> RoutingTable" where
  "set_route T hint neighbor r =
     mset_at (bytesToHex hint) (mset_at neighbor r (mget_or T (bytesToHex hint) [])) T"

text \<open>The candidate an advertisement leaves in place of \<open>existing\<close>.\<close>

definition advertised :: "int \<Rightarrow> int \<Rightarrow> bytes \<Rightarrow> RouteCandidate option \<Rightarrow> RouteCandidate" where
  "advertised nowMs epoch peerKey existing =
     (let still = (case existing of None \<Rightarrow> False | Some r \<Rightarrow> status r = Validated \<and> nowMs < expiresAt r)
      in \<lparr>status = (if still then Validated else Probation), lastAdvertisedAt = nowMs,
          expiresAt = (if still then nowMs + ROUTE_VALIDATION_TTL_MS else nowMs + ROUTE_PROBATION_MS),
          binding = (case Option.bind existing binding of
              None \<Rightarrow> None
            | Some b \<Rightarrow> if sessionEpoch b = epoch \<and> bytesEqual (advertiserPublicKey b) peerKey then Some b else None)\<rparr>)"

definition learn_hint :: "int \<Rightarrow> string \<Rightarrow> int \<Rightarrow> bytes \<Rightarrow> RoutingTable \<Rightarrow> bytes \<Rightarrow> RoutingTable" where
  "learn_hint nowMs neighbor epoch peerKey T hint =
     set_route T hint neighbor (advertised nowMs epoch peerKey (find_route T hint neighbor))"

definition learnFromAdvertisement ::
    "lib \<Rightarrow> int \<Rightarrow> string \<Rightarrow> RoutingAdvertisement \<Rightarrow> int \<Rightarrow> bytes \<Rightarrow> RoutingTable \<Rightarrow> RoutingTable res" where
  "learnFromAdvertisement L nowMs neighbor ad epoch peerKey T =
     rbind (verifyRoutingAdvertisement L nowMs ad) (\<lambda>valid.
       if \<not> valid then Inr T
       else if \<not> is_safe_integer (Num epoch) \<or> epoch < 0 then Inr T
       else Inr (foldl (learn_hint nowMs neighbor epoch peerKey) T (reachableDestinations ad)))"

definition markValidated ::
    "lib \<Rightarrow> int \<Rightarrow> bytes \<Rightarrow> bytes \<Rightarrow> string \<Rightarrow> bytes \<Rightarrow> int \<Rightarrow> RoutingTable \<Rightarrow> RoutingTable res" where
  "markValidated L nowMs hint destKey neighbor peerKey epoch T =
     (case find_route T hint neighbor of
        None \<Rightarrow> Inr T
      | Some route \<Rightarrow>
          (if \<not> bytesEqual hint (computeDestinationHint L destKey) then Inr T
           else rbind (createRouteProvenance destKey hint peerKey neighbor epoch) (\<lambda>p.
                rbind (bindRouteTrust p nowMs) (\<lambda>b.
                  Inr (set_route T hint neighbor (route\<lparr>binding := Some b, status := Validated,
                    lastAdvertisedAt := nowMs, expiresAt := nowMs + ROUTE_VALIDATION_TTL_MS\<rparr>))))))"

definition demote :: "bytes \<Rightarrow> string \<Rightarrow> RoutingTable \<Rightarrow> RoutingTable" where
  "demote hint neighbor T =
     (case find_route T hint neighbor of
        None \<Rightarrow> T
      | Some route \<Rightarrow> set_route T hint neighbor (route\<lparr>status := Probation, expiresAt := 0, binding := None\<rparr>))"

text \<open>The purge deletes expired candidates and then the destinations without any.\<close>

definition live :: "int \<Rightarrow> candidates \<Rightarrow> candidates" where
  "live nowMs c = filter (\<lambda>(_, r). nowMs < expiresAt r) c"

definition purgeExpired :: "int \<Rightarrow> RoutingTable \<Rightarrow> nat \<times> RoutingTable" where
  "purgeExpired nowMs T =
     (sum_list (map (\<lambda>(_, c). length c - length (live nowMs c)) T),
      filter (\<lambda>(_, c). c \<noteq> []) (map (\<lambda>(d, c). (d, live nowMs c)) T))"

text \<open>
  One step of the loop of \<open>lookup\<close>: the best validated and the best probation neighbour so far, each
  with its score; \<open>None\<close> is the initial \<open>null\<close> with score minus infinity.
\<close>

definition better :: "int \<Rightarrow> string \<Rightarrow> (string \<times> int) option \<Rightarrow> (string \<times> int) option" where
  "better score neighbor best =
     (case best of None \<Rightarrow> Some (neighbor, score)
      | Some (_, s) \<Rightarrow> if s < score then Some (neighbor, score) else best)"

definition lookup_step ::
    "bytes \<Rightarrow> (string, int) jsmap \<Rightarrow> (string, AuthenticatedPeer) jsmap \<Rightarrow>
     ((string \<times> int) option \<times> (string \<times> int) option) res \<Rightarrow> string \<times> RouteCandidate \<Rightarrow>
     ((string \<times> int) option \<times> (string \<times> int) option) res" where
  "lookup_step hint trust peers acc = (\<lambda>(neighbor, route). rbind acc (\<lambda>(bestV, bestP).
     case mget peers neighbor of
       None \<Rightarrow> Inr (bestV, bestP)
     | Some peer \<Rightarrow>
         (case status route of
            Validated \<Rightarrow>
              (case binding route of
                 None \<Rightarrow> Inr (bestV, bestP)
               | Some b \<Rightarrow>
                   rbind (createRouteProvenance (destinationPublicKey b) hint (peerIdentityKey peer) neighbor
                     (establishedAt peer)) (\<lambda>expected.
                     if \<not> matchesRouteTrustBinding b expected then Inr (bestV, bestP)
                     else Inr (better (mget_or trust neighbor 0) neighbor bestV, bestP)))
          | Probation \<Rightarrow> Inr (bestV, better (mget_or trust neighbor 0) neighbor bestP))))"

definition lookup ::
    "int \<Rightarrow> bytes \<Rightarrow> (string, int) jsmap \<Rightarrow> (string, AuthenticatedPeer) jsmap \<Rightarrow> RoutingTable
     \<Rightarrow> string option res \<times> RoutingTable" where
  "lookup nowMs hint trust peers T0 =
     (let T = snd (purgeExpired nowMs T0)
      in (case mget T (bytesToHex hint) of
            None \<Rightarrow> Inr None
          | Some c \<Rightarrow>
              rbind (foldl (lookup_step hint trust peers) (Inr (None, None)) c) (\<lambda>(bestV, bestP).
                Inr (map_option fst (if bestV = None then bestP else bestV))), T))"

definition hasRoute ::
    "int \<Rightarrow> bytes \<Rightarrow> (string, AuthenticatedPeer) jsmap \<Rightarrow> RoutingTable \<Rightarrow> bool res \<times> RoutingTable" where
  "hasRoute nowMs hint peers T =
     (let (r, T') = lookup nowMs hint [] peers T in (rbind r (\<lambda>hop. Inr (hop \<noteq> None)), T'))"

section \<open>Choosing a next hop\<close>

definition best :: "(string \<Rightarrow> int) \<Rightarrow> (string \<times> 'a) list \<Rightarrow> (string \<times> int) option \<Rightarrow> (string \<times> int) option" where
  "best score xs b = foldl (\<lambda>b (n, _). better (score n) n b) b xs"

lemma best_Cons: "best score ((n, x) # xs) b = best score xs (better (score n) n b)"
  by (simp add: best_def)

lemma best_Some:
  "best score xs b = Some (n, s) \<Longrightarrow> (b = Some (n, s) \<or> n \<in> fst ` set xs \<and> s = score n) \<and>
     (\<forall>n' \<in> fst ` set xs. score n' \<le> s) \<and> (\<forall>n' s'. b = Some (n', s') \<longrightarrow> s' \<le> s)"
proof (induction xs arbitrary: b)
  case Nil
  then show ?case by (simp add: best_def)
next
  case (Cons x xs)
  obtain n' y where x: "x = (n', y)" by (cases x)
  from Cons.IH [OF Cons.prems [unfolded x best_Cons]] show ?case
    by (auto simp: x better_def split: option.splits if_splits)
qed

lemma best_not_None: "b \<noteq> None \<Longrightarrow> best score xs b \<noteq> None"
  by (induction xs arbitrary: b) (auto simp: best_def better_def split: option.splits)

lemma best_None_iff: "best score xs None = None \<longleftrightarrow> xs = []"
proof (cases xs)
  case (Cons x xs')
  then show ?thesis using best_not_None [of _ score xs'] by (cases x) (simp add: best_Cons better_def)
qed (simp add: best_def)

text \<open>Routes the loop considers: of known peers, and when validated, with a binding to the peer's session.\<close>

definition bound_to :: "bytes \<Rightarrow> string \<Rightarrow> AuthenticatedPeer \<Rightarrow> RouteCandidate \<Rightarrow> bool" where
  "bound_to hint n peer r \<longleftrightarrow> (\<exists>b. binding r = Some b \<and> neighborId b = n \<and> sessionEpoch b = establishedAt peer \<and>
     provHint b = hint \<and> advertiserPublicKey b = peerIdentityKey peer)"

definition validated_hop :: "bytes \<Rightarrow> (string, AuthenticatedPeer) jsmap \<Rightarrow> string \<times> RouteCandidate \<Rightarrow> bool" where
  "validated_hop hint peers = (\<lambda>(n, r). status r = Validated \<and> (\<exists>peer. mget peers n = Some peer \<and> bound_to hint n peer r))"

definition probation_hop :: "(string, AuthenticatedPeer) jsmap \<Rightarrow> string \<times> RouteCandidate \<Rightarrow> bool" where
  "probation_hop peers = (\<lambda>(n, r). status r = Probation \<and> mget peers n \<noteq> None)"

definition peer_ok :: "AuthenticatedPeer \<Rightarrow> bool" where
  "peer_ok peer \<longleftrightarrow> length (peerIdentityKey peer) = 32 \<and> is_safe_integer (Num (establishedAt peer)) \<and> 0 \<le> establishedAt peer"

definition peers_ok :: "(string, AuthenticatedPeer) jsmap \<Rightarrow> bool" where
  "peers_ok peers \<longleftrightarrow> (\<forall>n peer. mget peers n = Some peer \<longrightarrow> n \<noteq> [] \<and> peer_ok peer)"

text \<open>
  The invariant of the table: a binding sits where it belongs, and its destination key hashes to the
  hint it is filed under.
\<close>

definition binding_ok :: "lib \<Rightarrow> string \<Rightarrow> string \<Rightarrow> RouteTrustBinding \<Rightarrow> bool" where
  "binding_ok L d n b \<longleftrightarrow> neighborId b = n \<and> bytesToHex (provHint b) = d \<and> length (destinationPublicKey b) = 32 \<and>
     length (provHint b) = 8 \<and> provHint b = computeDestinationHint L (destinationPublicKey b)"

definition candidates_ok :: "lib \<Rightarrow> string \<Rightarrow> candidates \<Rightarrow> bool" where
  "candidates_ok L d c \<longleftrightarrow> wf_map c \<and> (\<forall>(n, r) \<in> set c. \<forall>b. binding r = Some b \<longrightarrow> binding_ok L d n b)"

definition table_ok :: "lib \<Rightarrow> RoutingTable \<Rightarrow> bool" where
  "table_ok L T \<longleftrightarrow> wf_map T \<and> (\<forall>(d, c) \<in> set T. candidates_ok L d c)"

lemma lookup_step_eq:
  assumes "candidates_ok L (bytesToHex hint) c" "(n, r) \<in> set c" "peers_ok peers"
  shows "lookup_step hint trust peers (Inr (v, p)) (n, r) =
    Inr (if validated_hop hint peers (n, r) then better (mget_or trust n 0) n v else v,
         if probation_hop peers (n, r) then better (mget_or trust n 0) n p else p)"
proof (cases "mget peers n")
  case None
  then show ?thesis by (simp add: lookup_step_def validated_hop_def probation_hop_def)
next
  case (Some peer)
  then have ok: "n \<noteq> []" "peer_ok peer" using assms(3) by (auto simp: peers_ok_def)
  show ?thesis
  proof (cases "status r")
    case Probation
    then show ?thesis using Some by (simp add: lookup_step_def validated_hop_def probation_hop_def)
  next
    case Validated
    show ?thesis
    proof (cases "binding r")
      case None
      then show ?thesis
        using Some Validated by (simp add: lookup_step_def validated_hop_def probation_hop_def bound_to_def)
    next
      case (Some b)
      then have "binding_ok L (bytesToHex hint) n b" using assms(1,2) by (auto simp: candidates_ok_def)
      then show ?thesis
        using Some Validated \<open>mget peers n = Some peer\<close> ok
        by (auto simp: lookup_step_def validated_hop_def probation_hop_def bound_to_def createRouteProvenance_def
            binding_ok_def peer_ok_def matchesRouteTrustBinding_def)
    qed
  qed
qed

lemma lookup_fold:
  assumes "candidates_ok L (bytesToHex hint) c" "set xs \<subseteq> set c" "peers_ok peers"
  shows "foldl (lookup_step hint trust peers) (Inr (v, p)) xs =
    Inr (best (\<lambda>n. mget_or trust n 0) (filter (validated_hop hint peers) xs) v,
         best (\<lambda>n. mget_or trust n 0) (filter (probation_hop peers) xs) p)"
  using assms(2)
proof (induction xs arbitrary: v p)
  case Nil
  then show ?case by (simp add: best_def)
next
  case (Cons x xs)
  obtain n r where x: "x = (n, r)" by (cases x)
  have "(n, r) \<in> set c" using Cons.prems x by simp
  from lookup_step_eq [OF assms(1) this assms(3)] Cons show ?case by (simp add: x best_Cons)
qed

section \<open>The table keeps its invariant\<close>

lemma find_route_purged:
  assumes "table_ok L T"
  shows "find_route (snd (purgeExpired nowMs T)) hint n = Some r \<longleftrightarrow> find_route T hint n = Some r \<and> nowMs < expiresAt r"
proof -
  let ?d = "bytesToHex hint"
  have wf: "wf_map T" using assms by (simp add: table_ok_def)
  have wf': "wf_map (map (\<lambda>(d, c). (d, live nowMs c)) T)"
    using wf by (simp add: wf_map_def comp_def case_prod_unfold)
  have m: "mget (map (\<lambda>(d, c). (d, live nowMs c)) T) ?d = map_option (live nowMs) (mget T ?d)"
    by (induction T) auto
  have get: "mget (snd (purgeExpired nowMs T)) ?d = Some c \<longleftrightarrow> (\<exists>c0. mget T ?d = Some c0 \<and> c = live nowMs c0 \<and> c \<noteq> [])" for c
    by (auto simp: purgeExpired_def mget_filter_Some [OF wf'] m)
  have cwf: "wf_map c0" if "mget T ?d = Some c0" for c0
    using map_of_SomeD [OF that] assms by (auto simp: table_ok_def candidates_ok_def)
  show ?thesis
  proof
    assume "find_route (snd (purgeExpired nowMs T)) hint n = Some r"
    then show "find_route T hint n = Some r \<and> nowMs < expiresAt r"
      by (auto simp: find_route_def bind_eq_Some_conv get live_def mget_filter_Some cwf)
  next
    assume "find_route T hint n = Some r \<and> nowMs < expiresAt r"
    then obtain c0 where c0: "mget T ?d = Some c0" "mget (live nowMs c0) n = Some r"
      by (auto simp: find_route_def bind_eq_Some_conv live_def mget_filter_Some cwf)
    then have "live nowMs c0 \<noteq> []" by auto
    with c0 get show "find_route (snd (purgeExpired nowMs T)) hint n = Some r"
      by (auto simp: find_route_def bind_eq_Some_conv)
  qed
qed

lemma table_ok_Nil: "table_ok L []"
  by (simp add: table_ok_def)

lemma table_ok_purge: "table_ok L T \<Longrightarrow> table_ok L (snd (purgeExpired nowMs T))"
  unfolding table_ok_def purgeExpired_def
  by (fastforce simp: wf_map_def comp_def case_prod_unfold distinct_map_filter candidates_ok_def live_def)

lemma table_ok_candidates: "table_ok L T \<Longrightarrow> candidates_ok L d (mget_or T d [])"
proof (cases "mget T d")
  case None
  then show ?thesis by (simp add: mget_or_def candidates_ok_def)
next
  case (Some c)
  assume "table_ok L T"
  then show ?thesis using map_of_SomeD [OF Some] Some by (auto simp: mget_or_def table_ok_def)
qed

lemma table_ok_set_route:
  assumes "table_ok L T" "\<And>b. binding r = Some b \<Longrightarrow> binding_ok L (bytesToHex hint) n b"
  shows "table_ok L (set_route T hint n r)"
proof -
  let ?d = "bytesToHex hint" and ?c = "mget_or T (bytesToHex hint) []"
  have "candidates_ok L ?d (mset_at n r ?c)"
    using table_ok_candidates [OF assms(1), of ?d] assms(2) set_mset_at_subset [of n r ?c]
    unfolding candidates_ok_def by fastforce
  then show ?thesis
    using assms(1) set_mset_at_subset [of ?d "mset_at n r ?c" T] unfolding table_ok_def set_route_def by fastforce
qed

lemma find_route_binding:
  "table_ok L T \<Longrightarrow> find_route T hint n = Some r \<Longrightarrow> binding r = Some b \<Longrightarrow> binding_ok L (bytesToHex hint) n b"
  unfolding find_route_def bind_eq_Some_conv table_ok_def candidates_ok_def by (blast dest: map_of_SomeD)

lemma find_set_route:
  "find_route (set_route T hint n r) hint' n' = (if hint' = hint \<and> n' = n then Some r else find_route T hint' n')"
  by (auto simp: find_route_def set_route_def mget_or_def split: option.splits)

lemma table_ok_learn:
  assumes "table_ok L T" "learnFromAdvertisement L nowMs n ad epoch key T = Inr T'"
  shows "table_ok L T'"
proof -
  have "table_ok L (foldl (learn_hint nowMs n epoch key) T hints)" if "table_ok L T" for hints T
    using that
  proof (induction hints arbitrary: T)
    case (Cons h hints)
    have "table_ok L (learn_hint nowMs n epoch key T h)"
      unfolding learn_hint_def
    proof (rule table_ok_set_route [OF Cons.prems])
      fix b assume "binding (advertised nowMs epoch key (find_route T h n)) = Some b"
      then obtain r where "find_route T h n = Some r" "binding r = Some b"
        by (auto simp: advertised_def Let_def bind_eq_Some_conv split: option.splits if_splits)
      then show "binding_ok L (bytesToHex h) n b" by (rule find_route_binding [OF Cons.prems])
    qed
    with Cons show ?case by simp
  qed simp
  then show ?thesis using assms by (auto simp: learnFromAdvertisement_def res_simps split: if_splits)
qed

lemma table_ok_demote: "table_ok L T \<Longrightarrow> table_ok L (demote hint n T)"
  by (auto simp: demote_def intro!: table_ok_set_route split: option.splits)

lemma table_ok_mark:
  assumes "table_ok L T" "markValidated L nowMs hint destKey n key epoch T = Inr T'"
  shows "table_ok L T'"
  using assms
  by (auto simp: markValidated_def createRouteProvenance_def bindRouteTrust_def res_simps binding_ok_def
      RouteProvenance.extend_def intro!: table_ok_set_route split: option.splits if_splits)

section \<open>Histories of a table\<close>

inductive routing_history :: "lib \<Rightarrow> RoutingTable \<Rightarrow> bool" for L where
  routing_new: "routing_history L []"
| routing_learn: "routing_history L T \<Longrightarrow> learnFromAdvertisement L nowMs n ad epoch key T = Inr T' \<Longrightarrow> routing_history L T'"
| routing_mark: "routing_history L T \<Longrightarrow> markValidated L nowMs hint destKey n key epoch T = Inr T' \<Longrightarrow> routing_history L T'"
| routing_demote: "routing_history L T \<Longrightarrow> routing_history L (demote hint n T)"
| routing_purge: "routing_history L T \<Longrightarrow> routing_history L (snd (purgeExpired nowMs T))"

lemma routing_history_ok: "routing_history L T \<Longrightarrow> table_ok L T"
  by (induction rule: routing_history.induct)
    (auto intro: table_ok_Nil table_ok_demote table_ok_purge dest: table_ok_learn table_ok_mark)

definition hops :: "(string \<times> RouteCandidate \<Rightarrow> bool) \<Rightarrow> int \<Rightarrow> bytes \<Rightarrow> RoutingTable \<Rightarrow> string set" where
  "hops P nowMs hint T = {n. \<exists>r. find_route T hint n = Some r \<and> nowMs < expiresAt r \<and> P (n, r)}"

lemma lookup_cases:
  fixes nowMs :: int and hint :: bytes
  assumes "table_ok L T0" "peers_ok peers"
  defines "V \<equiv> hops (validated_hop hint peers) nowMs hint T0" and "P \<equiv> hops (probation_hop peers) nowMs hint T0"
  shows "\<exists>hop. fst (lookup nowMs hint trust peers T0) = Inr hop \<and> (hop = None \<longleftrightarrow> V = {} \<and> P = {}) \<and>
    (\<forall>n. hop = Some n \<longrightarrow> n \<in> (if V = {} then P else V) \<and>
       (\<forall>n' \<in> (if V = {} then P else V). mget_or trust n' 0 \<le> mget_or trust n 0))"
proof -
  let ?d = "bytesToHex hint" and ?T = "snd (purgeExpired nowMs T0)" and ?s = "\<lambda>n. mget_or trust n (0 :: int)"
  have ok: "table_ok L ?T" by (rule table_ok_purge [OF assms(1)])
  have hop_iff: "hops Q nowMs hint T0 = {n. \<exists>r. find_route ?T hint n = Some r \<and> Q (n, r)}" for Q
    by (auto simp: hops_def find_route_purged [OF assms(1)])
  show ?thesis
  proof (cases "mget ?T ?d")
    case None
    then have "V = {}" "P = {}" by (simp_all add: V_def P_def hop_iff find_route_def)
    with None show ?thesis by (simp add: lookup_def Let_def)
  next
    case (Some c)
    have c: "candidates_ok L ?d c" using map_of_SomeD [OF Some] ok by (auto simp: table_ok_def)
    then have wf: "wf_map c" by (simp add: candidates_ok_def)
    have sel: "hops Q nowMs hint T0 = fst ` set (filter Q c)" for Q
      unfolding hop_iff by (auto simp: find_route_def Some mget_Some_iff [OF wf] image_iff)
    let ?v = "best ?s (filter (validated_hop hint peers) c) None" and ?p = "best ?s (filter (probation_hop peers) c) None"
    have l: "fst (lookup nowMs hint trust peers T0) = Inr (map_option fst (if ?v = None then ?p else ?v))"
      using lookup_fold [OF c order_refl assms(2)] by (simp add: lookup_def Let_def Some)
    have none: "?v = None \<longleftrightarrow> V = {}" "?p = None \<longleftrightarrow> P = {}"
      by (simp_all only: V_def P_def sel best_None_iff image_is_empty set_empty)
    have some: "n \<in> fst ` set (filter Q c) \<and> (\<forall>n' \<in> fst ` set (filter Q c). ?s n' \<le> ?s n)"
      if "best ?s (filter Q c) None = Some (n, x)" for Q n x
      using best_Some [OF that] by auto
    show ?thesis
    proof (intro exI conjI)
      show "fst (lookup nowMs hint trust peers T0) = Inr (map_option fst (if ?v = None then ?p else ?v))" by (rule l)
      show "(map_option fst (if ?v = None then ?p else ?v) = None) \<longleftrightarrow> V = {} \<and> P = {}" using none by simp
      show "\<forall>n. map_option fst (if ?v = None then ?p else ?v) = Some n \<longrightarrow> n \<in> (if V = {} then P else V) \<and>
          (\<forall>n' \<in> (if V = {} then P else V). ?s n' \<le> ?s n)"
      proof (cases "V = {}")
        case True
        then show ?thesis using none some [of "probation_hop peers"] by (auto simp: P_def sel)
      next
        case False
        then show ?thesis using none some [of "validated_hop hint peers"] by (auto simp: V_def sel)
      qed
    qed
  qed
qed

text \<open>A route that stays validated without a binding: the loop of \<open>lookup\<close> skips it.\<close>

definition stuck :: "RoutingTable \<Rightarrow> bytes \<Rightarrow> string \<Rightarrow> int \<Rightarrow> bool" where
  "stuck T hint n t \<longleftrightarrow> (\<exists>r. find_route T hint n = Some r \<and> status r = Validated \<and> binding r = None \<and> t < expiresAt r)"

fun announce :: "lib \<Rightarrow> string \<Rightarrow> int \<Rightarrow> bytes \<Rightarrow> (int \<times> RoutingAdvertisement) list \<Rightarrow> RoutingTable \<Rightarrow> RoutingTable res" where
  "announce L n epoch key [] T = Inr T"
| "announce L n epoch key ((t, ad) # ads) T =
     rbind (learnFromAdvertisement L t n ad epoch key T) (announce L n epoch key ads)"

definition refreshed :: "int \<Rightarrow> RouteCandidate \<Rightarrow> bool" where
  "refreshed nowMs r \<longleftrightarrow> status r = Validated \<and> nowMs < expiresAt r"

lemma learn_hints_find:
  assumes "find_route T hint n = Some r" "refreshed nowMs r"
    and "\<And>b. binding r = Some b \<Longrightarrow> sessionEpoch b \<noteq> epoch"
  shows "\<exists>r'. find_route (foldl (learn_hint nowMs n epoch key) T hs) hint n = Some r' \<and>
    (r' = r \<and> hint \<notin> set hs \<or> hint \<in> set hs \<and> status r' = Validated \<and> binding r' = None \<and> expiresAt r' = nowMs + 300000)"
  using assms
proof (induction hs arbitrary: T r)
  case (Cons h hs)
  let ?T = "learn_hint nowMs n epoch key T h"
  show ?case
  proof (cases "h = hint")
    case True
    let ?r = "advertised nowMs epoch key (find_route T hint n)"
    have r: "status ?r = Validated" "binding ?r = None" "expiresAt ?r = nowMs + 300000"
      using Cons.prems by (auto simp: advertised_def refreshed_def ROUTE_VALIDATION_TTL_MS_def split: option.splits)
    then have "find_route ?T hint n = Some ?r" "refreshed nowMs ?r"
      by (simp_all add: True learn_hint_def find_set_route refreshed_def)
    from Cons.IH [OF this] r True show ?thesis by auto
  next
    case False
    then have "find_route ?T hint n = Some r" using Cons.prems by (simp add: learn_hint_def find_set_route)
    from Cons.IH [OF this Cons.prems(2,3)] False show ?thesis by auto
  qed
qed simp

fun keeps_announcing :: "bytes \<Rightarrow> int \<Rightarrow> (int \<times> RoutingAdvertisement) list \<Rightarrow> int \<Rightarrow> bool" where
  "keeps_announcing hint until [] t \<longleftrightarrow> t < until"
| "keeps_announcing hint until ((t', ad) # ads) t \<longleftrightarrow>
     t' < until \<and> hint \<in> set (reachableDestinations ad) \<and> keeps_announcing hint (t' + 300000) ads t"

lemma announce_stuck:
  assumes "find_route T hint n = Some r" "status r = Validated" "\<And>b. binding r = Some b \<Longrightarrow> sessionEpoch b \<noteq> epoch"
    and "0 \<le> epoch" "is_safe_integer (Num epoch)"
    and "\<And>t ad. (t, ad) \<in> set ads \<Longrightarrow> verifyRoutingAdvertisement L t ad = Inr True"
    and "keeps_announcing hint (expiresAt r) ads t" "ads \<noteq> []"
  shows "\<exists>T'. announce L n epoch key ads T = Inr T' \<and> stuck T' hint n t"
  using assms
proof (induction ads arbitrary: T r)
  case (Cons x ads)
  obtain t' ad where x: "x = (t', ad)" by (cases x)
  let ?T = "foldl (learn_hint t' n epoch key) T (reachableDestinations ad)"
  have learn: "learnFromAdvertisement L t' n ad epoch key T = Inr ?T"
    using Cons.prems(4,5) Cons.prems(6) [of t' ad] x by (auto simp: learnFromAdvertisement_def)
  from learn_hints_find [OF Cons.prems(1) _ Cons.prems(3), of t' key "reachableDestinations ad"]
    Cons.prems(2,7) x obtain r' where
    r': "find_route ?T hint n = Some r'" "status r' = Validated" "binding r' = None" "expiresAt r' = t' + 300000"
    by (auto simp: refreshed_def)
  show ?case
  proof (cases "ads = []")
    case True
    with r' Cons.prems(7) x learn show ?thesis by (auto simp: stuck_def)
  next
    case False
    from Cons.IH [OF r'(1,2) _ Cons.prems(4,5)] False r' Cons.prems(6,7) x learn show ?thesis by auto
  qed
qed simp

lemma table_ok_announce: "table_ok L T \<Longrightarrow> announce L n epoch key ads T = Inr T' \<Longrightarrow> table_ok L T'"
proof (induction ads arbitrary: T)
  case (Cons x ads)
  obtain t ad where x: "x = (t, ad)" by (cases x)
  with Cons.prems(2) obtain T1 where T1: "learnFromAdvertisement L t n ad epoch key T = Inr T1"
    "announce L n epoch key ads T1 = Inr T'" by (auto simp: res_simps)
  from Cons.IH [OF table_ok_learn [OF Cons.prems(1) T1(1)] T1(2)] show ?case .
qed simp

lemma stuck_not_chosen:
  assumes "table_ok L T" "peers_ok peers" "stuck T hint n t"
  shows "fst (lookup t hint trust peers T) \<noteq> Inr (Some n)"
proof -
  have "n \<notin> hops (validated_hop hint peers) t hint T" "n \<notin> hops (probation_hop peers) t hint T"
    using assms(3) by (auto simp: stuck_def hops_def validated_hop_def probation_hop_def bound_to_def)
  then show ?thesis using lookup_cases [OF assms(1,2), of t hint trust] by (auto split: if_splits)
qed

lemma honest_advertisement:
  assumes "ed25519_correct L" "honest_identity L idn" "list_all (\<lambda>h. length h = 8) hints" "length hints \<le> 256"
    and "0 \<le> made" "made < 2 ^ 60" "made \<le> nowMs" "nowMs \<le> made + 299000"
  obtains ad where "createRoutingAdvertisement L made idn hints = Inr ad" "reachableDestinations ad = hints"
    "verifyRoutingAdvertisement L nowMs ad = Inr True"
proof -
  let ?m = "ROUTING_AD_CONTEXT @ le_bytes 8 (word_of_int (made div 1000) :: 64 word) @ concat hints"
  have m: "buildAdvertisementMessage hints (Num (made div 1000)) = Inr ?m"
    by (simp add: buildAdvertisementMessage_def)
  obtain s where s: "signMessage L ?m (privateKey idn) = Inr s" "length s = 64" "length (publicKey idn) = 32"
    "ed_verify L s ?m (publicKey idn) = Some True"
    using honest_sign [OF assms(1,2)] by metis
  let ?ad = "\<lparr>adPublicKey = publicKey idn, reachableDestinations = hints, adTimestamp = Num (made div 1000), adSignature = s\<rparr>"
  have "createRoutingAdvertisement L made idn hints = Inr ?ad"
    using s m by (simp add: createRoutingAdvertisement_def)
  moreover have "0 \<le> made div 1000" "made div 1000 \<le> 9007199254740991" "made div 1000 * 1000 \<le> made" "made < made div 1000 * 1000 + 1000"
  proof -
    have "made = 1000 * (made div 1000) + made mod 1000" "0 \<le> made mod 1000" "made mod 1000 < 1000" by simp_all
    moreover have "made < 1152921504606846976" using assms(6) by simp
    ultimately show "0 \<le> made div 1000" "made div 1000 \<le> 9007199254740991" "made div 1000 * 1000 \<le> made"
      "made < made div 1000 * 1000 + 1000" using assms(5) by linarith+
  qed
  then have "verifyRoutingAdvertisement L nowMs ?ad = Inr True"
    using s m assms(3,4,7,8)
    by (auto simp: verifyRoutingAdvertisement_def MAX_ROUTING_AD_DESTINATIONS_def DESTINATION_HINT_LENGTH_def
        MAX_ROUTING_AD_AGE_MS_def MAX_ROUTING_AD_FUTURE_SKEW_MS_def verifySignature_def list_all_iff)
  ultimately show thesis using that by simp
qed

lemma learn_fresh_hint:
  assumes "verifyRoutingAdvertisement L nowMs ad = Inr True" "reachableDestinations ad = [hint]" "0 \<le> epoch"
    "is_safe_integer (Num epoch)" "find_route T hint n = None"
  shows "\<exists>T'. learnFromAdvertisement L nowMs n ad epoch key T = Inr T' \<and>
    find_route T' hint n = Some \<lparr>status = Probation, lastAdvertisedAt = nowMs, expiresAt = nowMs + 30000, binding = None\<rparr>"
  using assms by (simp add: learnFromAdvertisement_def learn_hint_def find_set_route advertised_def ROUTE_PROBATION_MS_def)

section \<open>Provenance keys\<close>

lemma digit_no_colon: "n < 10 \<Longrightarrow> char_of (48 + n :: nat) \<noteq> CHR '':''"
proof
  assume "n < 10" and eq: "char_of (48 + n :: nat) = CHR '':''"
  then have "(of_char (char_of (48 + n :: nat)) :: nat) = of_char (CHR '':'')" by simp
  then show False using \<open>n < 10\<close> by simp
qed

lemma nat_string_no_colon: "CHR '':'' \<notin> set (nat_string n)"
proof (induction n rule: nat_string.induct)
  case (1 n)
  have "char_of (48 + n mod 10 :: nat) \<noteq> CHR '':''" by (rule digit_no_colon) simp
  with 1 show ?case using digit_no_colon [of n] by (auto simp: nat_string.simps [of n])
qed

lemma append_colon_eq:
  "CHR '':'' \<notin> set a \<Longrightarrow> CHR '':'' \<notin> set b \<Longrightarrow> a @ CHR '':'' # x = b @ CHR '':'' # y \<Longrightarrow> a = b \<and> x = y"
proof (induction a arbitrary: b)
  case Nil
  then show ?case by (cases b) auto
next
  case (Cons z a)
  then show ?case by (cases b) auto
qed

lemma append_colon_eq_last:
  assumes "CHR '':'' \<notin> set x" "CHR '':'' \<notin> set y" "a @ CHR '':'' # x = b @ CHR '':'' # y"
  shows "a = b \<and> x = y"
proof -
  have "rev x @ CHR '':'' # rev a = rev y @ CHR '':'' # rev b"
    using arg_cong [OF assms(3), of rev] by simp
  with append_colon_eq [of "rev x" "rev y" "rev a" "rev b"] assms(1,2) show ?thesis by simp
qed

lemma hex_no_colon: "CHR '':'' \<notin> set (bytesToHex bs)"
proof -
  have "hex_digit n \<noteq> CHR '':''" if "n < 16" for n
  proof
    assume "hex_digit n = CHR '':''"
    then have "(of_char (hex_digit n) :: nat) = 58" by simp
    then show False using of_hex_digit [OF that] by (simp split: if_splits)
  qed
  then have "hex_digit (unat b div 16) \<noteq> CHR '':''" "hex_digit (unat b mod 16) \<noteq> CHR '':''" for b :: byte
    using unat_byte [of b] by (auto simp: less_mult_imp_div_less)
  then show ?thesis by (induction bs) (auto dest: not_sym)
qed

section \<open>Properties\<close>

text \<open>The next hop. In a table with any history, \<open>lookup\<close> never throws and returns an authenticated
  neighbour with an unexpired route to the destination: one whose validation is bound to the destination
  hint, to the neighbour's identity and to its current session if there is any, otherwise one on
  probation; none has a higher trust score. It returns \<open>null\<close> only when there is no such neighbour.\<close>

theorem lookup_best:
  assumes "routing_history L T" "peers_ok peers"
  shows "\<exists>hop. fst (lookup nowMs hint trust peers T) = Inr hop \<and>
    (let V = hops (validated_hop hint peers) nowMs hint T; P = hops (probation_hop peers) nowMs hint T
     in (hop = None \<longleftrightarrow> V = {} \<and> P = {}) \<and>
        (\<forall>n. hop = Some n \<longrightarrow> n \<in> (if V = {} then P else V) \<and>
           (\<forall>n' \<in> (if V = {} then P else V). mget_or trust n' 0 \<le> mget_or trust n 0)) \<and>
        (\<forall>n \<in> V. \<exists>r b. find_route T hint n = Some r \<and> binding r = Some b \<and>
           computeDestinationHint L (destinationPublicKey b) = hint))"
proof -
  have ok: "table_ok L T" by (rule routing_history_ok [OF assms(1)])
  have "\<exists>r b. find_route T hint n = Some r \<and> binding r = Some b \<and> computeDestinationHint L (destinationPublicKey b) = hint"
    if "n \<in> hops (validated_hop hint peers) nowMs hint T" for n
    using that find_route_binding [OF ok, of hint n] by (fastforce simp: hops_def validated_hop_def bound_to_def binding_ok_def)
  then show ?thesis using lookup_cases [OF ok assms(2), of nowMs hint trust] unfolding Let_def by blast
qed

definition test_peer :: "int \<Rightarrow> AuthenticatedPeer" where
  "test_peer t = \<lparr>peerIdentityKey = publicKey bob, establishedAt = t, peerSession = None\<rparr>"

lemma test_peers_ok: "0 \<le> t \<Longrightarrow> t \<le> 9007199254740991 \<Longrightarrow> peers_ok [(''n1'', test_peer t)]"
  by (simp add: peers_ok_def peer_ok_def test_peer_def bob_def)

theorem lookup_best_witness:
  "\<exists>T. routing_history ref_lib T \<and>
    fst (lookup 1000010000 (replicate 8 3) [] [(''n1'', test_peer 5)] T) = Inr (Some ''n1'')"
proof -
  obtain ad where ad: "reachableDestinations ad = [replicate 8 3]" "verifyRoutingAdvertisement ref_lib 1000000000 ad = Inr True"
    using honest_advertisement [OF ref_ed25519_correct honest_test_identities(1), of "[replicate 8 3]" 1000000000 1000000000]
    by auto
  obtain T where T: "learnFromAdvertisement ref_lib 1000000000 ''n1'' ad 5 (publicKey bob) [] = Inr T"
    "find_route T (replicate 8 3) ''n1'' = Some \<lparr>status = Probation, lastAdvertisedAt = 1000000000, expiresAt = 1000030000, binding = None\<rparr>"
    using learn_fresh_hint [OF ad(2,1), of 5 "[]" "''n1''"] by (auto simp: find_route_def)
  have h: "routing_history ref_lib T" by (rule routing_learn [OF routing_new T(1)])
  have "''n1'' \<in> hops (probation_hop [(''n1'', test_peer 5)]) 1000010000 (replicate 8 3) T"
    using T(2) by (simp add: hops_def probation_hop_def)
  moreover have "n = ''n1''" if "n \<in> hops Q 1000010000 (replicate 8 3) T"
      "Q = probation_hop [(''n1'', test_peer 5)] \<or> Q = validated_hop (replicate 8 3) [(''n1'', test_peer 5)]" for n Q
    using that by (auto simp: hops_def probation_hop_def validated_hop_def split: if_splits)
  moreover obtain hop where "fst (lookup 1000010000 (replicate 8 3) [] [(''n1'', test_peer 5)] T) = Inr hop"
    "hop = None \<longleftrightarrow> hops (validated_hop (replicate 8 3) [(''n1'', test_peer 5)]) 1000010000 (replicate 8 3) T = {} \<and>
       hops (probation_hop [(''n1'', test_peer 5)]) 1000010000 (replicate 8 3) T = {}"
    "\<forall>n. hop = Some n \<longrightarrow> n \<in> hops (validated_hop (replicate 8 3) [(''n1'', test_peer 5)]) 1000010000 (replicate 8 3) T \<or>
       n \<in> hops (probation_hop [(''n1'', test_peer 5)]) 1000010000 (replicate 8 3) T"
    using lookup_best [OF h test_peers_ok [of 5], of 1000010000 "replicate 8 3" "[]"] unfolding Let_def
    by (auto split: if_splits)
  ultimately show ?thesis using h by (cases hop) blast+
qed

text \<open>Provenance keys are injective. Two provenances the constructor accepts have the same key string only
  if they agree in every field, although neighbour ids may contain the separator.\<close>

theorem provenance_key_injective:
  assumes "createRouteProvenance a b c n e = Inr p" "createRouteProvenance a' b' c' n' e' = Inr p'"
    and "routeProvenanceKey p = routeProvenanceKey p'"
  shows "p = p'"
proof -
  have p: "p = \<lparr>destinationPublicKey = a, provHint = b, advertiserPublicKey = c, neighborId = n, sessionEpoch = e\<rparr>" "0 \<le> e"
    "p' = \<lparr>destinationPublicKey = a', provHint = b', advertiserPublicKey = c', neighborId = n', sessionEpoch = e'\<rparr>" "0 \<le> e'"
    using assms(1,2) by (auto simp: createRouteProvenance_def split: if_splits)
  then have "bytesToHex a @ CHR '':'' # bytesToHex b @ CHR '':'' # bytesToHex c @ CHR '':'' # n @ CHR '':'' # nat_string (nat e)
      = bytesToHex a' @ CHR '':'' # bytesToHex b' @ CHR '':'' # bytesToHex c' @ CHR '':'' # n' @ CHR '':'' # nat_string (nat e')"
    using assms(3) by (simp add: routeProvenanceKey_def int_string_def)
  note 1 = append_colon_eq [OF hex_no_colon hex_no_colon this]
  note 2 = append_colon_eq [OF hex_no_colon hex_no_colon conjunct2 [OF 1]]
  note 3 = append_colon_eq [OF hex_no_colon hex_no_colon conjunct2 [OF 2]]
  note 4 = append_colon_eq_last [OF nat_string_no_colon nat_string_no_colon conjunct2 [OF 3]]
  have "e = e'" using 4 p(2,4) by auto
  with 1 2 3 4 p show ?thesis by simp
qed

theorem provenance_key_injective_witness:
  "\<exists>p. createRouteProvenance (replicate 32 1) (replicate 8 2) (replicate 32 3) ''a:7'' 12 = Inr p \<and>
    (\<forall>q. createRouteProvenance (replicate 32 1) (replicate 8 2) (replicate 32 3) ''a'' 712 = Inr q \<longrightarrow>
      routeProvenanceKey p \<noteq> routeProvenanceKey q)"
proof -
  obtain p where p: "createRouteProvenance (replicate 32 1) (replicate 8 2) (replicate 32 3) ''a:7'' 12 = Inr p"
    "neighborId p = ''a:7''" by (simp add: createRouteProvenance_def)
  moreover have "neighborId q = ''a''" if "createRouteProvenance (replicate 32 1) (replicate 8 2) (replicate 32 3) ''a'' 712 = Inr q" for q
    using that by (auto simp: createRouteProvenance_def)
  ultimately show ?thesis using provenance_key_injective [OF p(1)] by (metis list.inject list.distinct(1))
qed

text \<open>C24: A new session starves a validated route. When a neighbour with a live validated route to a
  destination is authenticated again, so that its session epoch changes, and keeps announcing the
  destination at intervals below five minutes, the route stays validated but loses its binding:
  \<open>lookup\<close> never chooses this neighbour, whatever its trust, and no acknowledgement can restore it.\<close>

theorem reauthenticated_route_starves:
  assumes "routing_history L T" "find_route T hint n = Some r" "status r = Validated" "binding r = Some b"
    and "sessionEpoch b \<noteq> epoch" "0 \<le> epoch" "is_safe_integer (Num epoch)" "ads \<noteq> []"
    and "\<And>t ad. (t, ad) \<in> set ads \<Longrightarrow> verifyRoutingAdvertisement L t ad = Inr True"
    and "keeps_announcing hint (expiresAt r) ads t" "peers_ok peers"
  shows "\<exists>T'. announce L n epoch key ads T = Inr T' \<and> fst (lookup t hint trust peers T') \<noteq> Inr (Some n)"
proof -
  have "\<exists>T'. announce L n epoch key ads T = Inr T' \<and> stuck T' hint n t"
    using assms(2-10) by (intro announce_stuck) auto
  then obtain T' where T': "announce L n epoch key ads T = Inr T'" "stuck T' hint n t" by blast
  have "table_ok L T'" by (rule table_ok_announce [OF routing_history_ok [OF assms(1)] T'(1)])
  from stuck_not_chosen [OF this assms(11) T'(2)] T'(1) show ?thesis by blast
qed

theorem reauthenticated_route_starves_witness:
  "\<exists>T T' ad. fst (lookup 1000020000 (computeDestinationHint ref_lib (publicKey alice)) [] [(''n1'', test_peer 5)] T) = Inr (Some ''n1'') \<and>
    announce ref_lib ''n1'' 6 (publicKey bob) [(1000100000, ad), (1000200000, ad)] T = Inr T' \<and>
    fst (lookup 1000210000 (computeDestinationHint ref_lib (publicKey alice)) [] [(''n1'', test_peer 6)] T') \<noteq> Inr (Some ''n1'')"
proof -
  let ?h = "computeDestinationHint ref_lib (publicKey alice)"
  have len: "length ?h = 8" "length (publicKey alice) = 32" "length (publicKey bob) = 32"
    using hash_sizesD(1) [OF ref_hash_sizes, of "publicKey alice"]
    by (simp_all add: computeDestinationHint_def slice_def DESTINATION_HINT_LENGTH_def alice_def bob_def)
  obtain ad0 where ad0: "createRoutingAdvertisement ref_lib 1000000000 alice [?h] = Inr ad0" "reachableDestinations ad0 = [?h]"
    "verifyRoutingAdvertisement ref_lib 1000000000 ad0 = Inr True"
    using honest_advertisement [OF ref_ed25519_correct honest_test_identities(1), of "[?h]" 1000000000 1000000000] len by auto
  have v: "verifyRoutingAdvertisement ref_lib 1000100000 ad0 = Inr True \<and> verifyRoutingAdvertisement ref_lib 1000200000 ad0 = Inr True"
    using honest_advertisement [OF ref_ed25519_correct honest_test_identities(1), of "[?h]" 1000000000 1000100000]
      honest_advertisement [OF ref_ed25519_correct honest_test_identities(1), of "[?h]" 1000000000 1000200000] len ad0(1)
    by auto
  obtain T where T: "learnFromAdvertisement ref_lib 1000000000 ''n1'' ad0 5 (publicKey bob) [] = Inr T"
    "find_route T ?h ''n1'' = Some \<lparr>status = Probation, lastAdvertisedAt = 1000000000, expiresAt = 1000030000, binding = None\<rparr>"
    using learn_fresh_hint [OF ad0(3,2), of 5 "[]" "''n1''"] by (auto simp: find_route_def)
  let ?b = "\<lparr>destinationPublicKey = publicKey alice, provHint = ?h, advertiserPublicKey = publicKey bob, neighborId = ''n1'',
    sessionEpoch = 5, validatedAt = 1000010000\<rparr>"
  let ?r = "\<lparr>status = Validated, lastAdvertisedAt = 1000010000, expiresAt = 1000310000, binding = Some ?b\<rparr>"
  have m: "markValidated ref_lib 1000010000 ?h (publicKey alice) ''n1'' (publicKey bob) 5 T = Inr (set_route T ?h ''n1'' ?r)"
    using T(2) len by (simp add: markValidated_def createRouteProvenance_def bindRouteTrust_def RouteProvenance.extend_def
        ROUTE_VALIDATION_TTL_MS_def)
  let ?T = "set_route T ?h ''n1'' ?r"
  have hist: "routing_history ref_lib ?T" by (rule routing_mark [OF routing_learn [OF routing_new T(1)] m])
  have r: "find_route ?T ?h ''n1'' = Some ?r" by (simp add: find_set_route)
  have "''n1'' \<in> hops (validated_hop ?h [(''n1'', test_peer 5)]) 1000020000 ?h ?T"
    using r by (simp add: hops_def validated_hop_def bound_to_def test_peer_def)
  then have "fst (lookup 1000020000 ?h [] [(''n1'', test_peer 5)] ?T) = Inr (Some ''n1'')"
    using lookup_cases [OF routing_history_ok [OF hist] test_peers_ok [of 5], of 1000020000 ?h "[]"]
    by (auto simp: hops_def validated_hop_def split: if_splits)
  moreover have "\<exists>T'. announce ref_lib ''n1'' 6 (publicKey bob) [(1000100000, ad0), (1000200000, ad0)] ?T = Inr T' \<and>
      fst (lookup 1000210000 ?h [] [(''n1'', test_peer 6)] T') \<noteq> Inr (Some ''n1'')"
    using v ad0(2) by (intro reauthenticated_route_starves [OF hist r]) (auto intro: test_peers_ok)
  ultimately show ?thesis by blast
qed

end
