(* ===== verification/Broadcast.thy ===== *)
theory Broadcast
  imports Envelope
begin

text \<open>
  \<open>src/broadcast/broadcast.ts\<close>: signed public broadcasts and their rate limit. The two module-level maps of
  rate windows are a record passed through; a window is edited in place in the code and written back
  under its key here. The timestamp of a decoded message is whatever value the frame held.
\<close>

section \<open>Rate windows\<close>

definition MAX_BROADCAST_CONTENT_BYTES :: nat where
  "MAX_BROADCAST_CONTENT_BYTES = 4096"

definition BROADCAST_RATE_WINDOW_MS :: int where
  "BROADCAST_RATE_WINDOW_MS = 60 * 1000"

definition MAX_BROADCASTS_PER_ORIGIN_PER_WINDOW :: nat where
  "MAX_BROADCASTS_PER_ORIGIN_PER_WINDOW = 20"

record RateWindow =
  windowStartedAt :: int
  windowCount :: nat

type_synonym windows = "(string, RateWindow) jsmap"

record BroadcastLimits =
  creationRateWindows :: windows
  receiveRateWindows :: windows

definition consumeBudget :: "windows \<Rightarrow> bytes \<Rightarrow> int \<Rightarrow> bool \<times> windows" where
  "consumeBudget ws senderPublicKey nowMs =
     (let key = bytesToHex senderPublicKey
      in case mget ws key of
           None \<Rightarrow> (True, mset_at key \<lparr>windowStartedAt = nowMs, windowCount = 1\<rparr> ws)
         | Some w \<Rightarrow>
             (if BROADCAST_RATE_WINDOW_MS \<le> nowMs - windowStartedAt w
              then (True, mset_at key \<lparr>windowStartedAt = nowMs, windowCount = 1\<rparr> ws)
              else if MAX_BROADCASTS_PER_ORIGIN_PER_WINDOW \<le> windowCount w then (False, ws)
              else (True, mset_at key (w\<lparr>windowCount := windowCount w + 1\<rparr>) ws)))"

definition purge_windows :: "int \<Rightarrow> windows \<Rightarrow> windows" where
  "purge_windows nowMs ws = filter (\<lambda>(_, w). \<not> BROADCAST_RATE_WINDOW_MS \<le> nowMs - windowStartedAt w) ws"

definition purgeRateWindows :: "int \<Rightarrow> BroadcastLimits \<Rightarrow> BroadcastLimits" where
  "purgeRateWindows nowMs R = R\<lparr>creationRateWindows := purge_windows nowMs (creationRateWindows R),
     receiveRateWindows := purge_windows nowMs (receiveRateWindows R)\<rparr>"

section \<open>Broadcast messages\<close>

record BroadcastMessage =
  senderPublicKey :: bytes
  broadcastContent :: bytes
  broadcastTimestamp :: jsval
  broadcastSignature :: bytes

definition BROADCAST_CONTEXT :: bytes where
  "BROADCAST_CONTEXT = text_encode ''ZAYCOMM_BROADCAST_V1''"

definition buildSigningMessage :: "bytes \<Rightarrow> int \<Rightarrow> bytes res" where
  "buildSigningMessage content t = rbind (u64le (Num t)) (\<lambda>ts. Inr (concatBytes [BROADCAST_CONTEXT, ts, content]))"

definition createBroadcastMessage ::
    "lib \<Rightarrow> int \<Rightarrow> Identity \<Rightarrow> bytes \<Rightarrow> BroadcastLimits \<Rightarrow> BroadcastMessage res \<times> BroadcastLimits" where
  "createBroadcastMessage L nowMs identity content R =
     (if MAX_BROADCAST_CONTENT_BYTES < length content then (Inl (Err ''BROADCAST_PAYLOAD_TOO_LARGE''), R)
      else
        (let R1 = purgeRateWindows nowMs R;
             (ok, ws) = consumeBudget (creationRateWindows R1) (publicKey identity) nowMs;
             R2 = R1\<lparr>creationRateWindows := ws\<rparr>
         in if \<not> ok then (Inl (Err ''BROADCAST_RATE_LIMITED''), R2)
            else (let t = nowMs div 1000
                  in (rbind (buildSigningMessage content t) (\<lambda>m.
                      rbind (signMessage L m (privateKey identity)) (\<lambda>s.
                        Inr \<lparr>senderPublicKey = publicKey identity, broadcastContent = content,
                             broadcastTimestamp = JNum (Num t), broadcastSignature = s\<rparr>)), R2))))"

definition broadcast_signed :: "lib \<Rightarrow> BroadcastMessage \<Rightarrow> bool res" where
  "broadcast_signed L m =
     (case safe_int (broadcastTimestamp m) of
        None \<Rightarrow> Inr False
      | Some t \<Rightarrow>
          (if t < 0 then Inr False
           else rbind (buildSigningMessage (broadcastContent m) t) (\<lambda>msg.
                  verifySignature L (broadcastSignature m) msg (senderPublicKey m))))"

definition verifyBroadcastMessage :: "lib \<Rightarrow> int \<Rightarrow> BroadcastMessage \<Rightarrow> BroadcastLimits \<Rightarrow> bool \<times> BroadcastLimits" where
  "verifyBroadcastMessage L nowMs m R =
     (if length (senderPublicKey m) \<noteq> 32 \<or> length (broadcastSignature m) \<noteq> 64 then (False, R)
      else if MAX_BROADCAST_CONTENT_BYTES < length (broadcastContent m) then (False, R)
      else if broadcast_signed L m \<noteq> Inr True then (False, R)
      else
        (let R1 = purgeRateWindows nowMs R;
             (ok, ws) = consumeBudget (receiveRateWindows R1) (senderPublicKey m) nowMs
         in (ok, R1\<lparr>receiveRateWindows := ws\<rparr>)))"

definition encodeBroadcastMessage :: "lib \<Rightarrow> BroadcastMessage \<Rightarrow> bytes" where
  "encodeBroadcastMessage L m = cbor_encode L
     (JArr [JBytes (senderPublicKey m), JBytes (broadcastContent m), broadcastTimestamp m, JBytes (broadcastSignature m)])"

definition decodeBroadcastMessage :: "lib \<Rightarrow> bytes \<Rightarrow> BroadcastMessage res" where
  "decodeBroadcastMessage L bytes =
     rbind (of_lib (cbor_decode L bytes)) (\<lambda>tuple.
     rbind (rbind (js_index tuple 0) uint8_from) (\<lambda>pk. rbind (rbind (js_index tuple 1) uint8_from) (\<lambda>content.
     rbind (js_index tuple 2) (\<lambda>t. rbind (rbind (js_index tuple 3) uint8_from) (\<lambda>s.
       Inr \<lparr>senderPublicKey = pk, broadcastContent = content, broadcastTimestamp = t, broadcastSignature = s\<rparr>)))))"

section \<open>The rate limit\<close>

text \<open>\<open>accepted L key ms R\<close> counts the messages of one origin that pass among timed arrivals.\<close>

fun accepted :: "lib \<Rightarrow> bytes \<Rightarrow> (int \<times> BroadcastMessage) list \<Rightarrow> BroadcastLimits \<Rightarrow> nat" where
  "accepted L key [] R = 0"
| "accepted L key ((t, m) # ms) R =
     (let (ok, R1) = verifyBroadcastMessage L t m R
      in (if ok \<and> senderPublicKey m = key then 1 else 0) + accepted L key ms R1)"

text \<open>What the origin can still get through before time \<open>T\<close>, when no window that starts now ends before \<open>T\<close>.\<close>

definition allowance :: "bytes \<Rightarrow> int \<Rightarrow> BroadcastLimits \<Rightarrow> nat" where
  "allowance key T R = (case mget (receiveRateWindows R) (bytesToHex key) of
      None \<Rightarrow> 20
    | Some w \<Rightarrow> (20 - windowCount w) + (if windowStartedAt w + 60000 < T then 20 else 0))"

definition windows_ok :: "BroadcastLimits \<Rightarrow> bool" where
  "windows_ok R \<longleftrightarrow> wf_map (receiveRateWindows R) \<and> wf_map (creationRateWindows R) \<and>
     (\<forall>(k, w) \<in> set (receiveRateWindows R). 1 \<le> windowCount w \<and> windowCount w \<le> 20)"

lemma purge_windows_get:
  "wf_map ws \<Longrightarrow> mget (purge_windows t ws) k =
    (case mget ws k of None \<Rightarrow> None | Some w \<Rightarrow> if t - windowStartedAt w < 60000 then Some w else None)"
proof -
  assume "wf_map ws"
  then have *: "mget (purge_windows t ws) k = Some w \<longleftrightarrow> mget ws k = Some w \<and> t - windowStartedAt w < 60000" for w
    by (simp add: purge_windows_def BROADCAST_RATE_WINDOW_MS_def mget_filter_Some not_le)
  show ?thesis
  proof (cases "mget (purge_windows t ws) k")
    case None
    with * show ?thesis by (fastforce split: option.splits)
  next
    case (Some w)
    with * [of w] show ?thesis by simp
  qed
qed

lemma consume_other: "k \<noteq> bytesToHex key \<Longrightarrow> mget (snd (consumeBudget ws key t)) k = mget ws k"
  by (auto simp: consumeBudget_def Let_def split: option.splits)

lemma consume_wf: "wf_map ws \<Longrightarrow> wf_map (snd (consumeBudget ws key t))"
  by (auto simp: consumeBudget_def Let_def split: option.splits)

lemma consume_entries:
  assumes "(k, w) \<in> set (snd (consumeBudget ws key t))" "\<forall>(k, w) \<in> set ws. 1 \<le> windowCount w \<and> windowCount w \<le> 20"
  shows "1 \<le> windowCount w \<and> windowCount w \<le> 20"
  using assms set_mset_at_subset [of "bytesToHex key" _ ws]
  by (fastforce simp: consumeBudget_def Let_def MAX_BROADCASTS_PER_ORIGIN_PER_WINDOW_def split: option.splits if_splits
      dest: map_of_SomeD)

lemma verify_windows_ok:
  assumes "windows_ok R"
  shows "windows_ok (snd (verifyBroadcastMessage L t m R))"
proof -
  have "windows_ok (purgeRateWindows t R)"
    using assms by (auto simp: windows_ok_def purgeRateWindows_def purge_windows_def)
  then show ?thesis
    using assms consume_entries [of _ _ "receiveRateWindows (purgeRateWindows t R)" "senderPublicKey m" t]
    by (auto simp: verifyBroadcastMessage_def windows_ok_def Let_def case_prod_beta consume_wf)
qed

text \<open>A passing message of the origin uses one unit of its allowance; nothing increases it.\<close>

lemma allowance_step:
  assumes "windows_ok R" "t < T" "T \<le> t + 60000"
  shows "(if fst (verifyBroadcastMessage L t m R) \<and> senderPublicKey m = key then 1 else 0)
      + allowance key T (snd (verifyBroadcastMessage L t m R)) \<le> allowance key T R"
proof (cases "length (senderPublicKey m) \<noteq> 32 \<or> length (broadcastSignature m) \<noteq> 64 \<or>
    MAX_BROADCAST_CONTENT_BYTES < length (broadcastContent m) \<or> broadcast_signed L m \<noteq> Inr True")
  case True
  then show ?thesis by (auto simp: verifyBroadcastMessage_def)
next
  case False
  let ?R = "purgeRateWindows t R" and ?k = "bytesToHex key"
  have wf: "wf_map (receiveRateWindows R)" using assms(1) by (simp add: windows_ok_def)
  have cnt: "1 \<le> windowCount w \<and> windowCount w \<le> 20" if "mget (receiveRateWindows R) ?k = Some w" for w
    using assms(1) map_of_SomeD [OF that] by (auto simp: windows_ok_def)
  have v: "fst (verifyBroadcastMessage L t m R) = fst (consumeBudget (receiveRateWindows ?R) (senderPublicKey m) t)"
    "receiveRateWindows (snd (verifyBroadcastMessage L t m R)) = snd (consumeBudget (receiveRateWindows ?R) (senderPublicKey m) t)"
    using False by (simp_all add: verifyBroadcastMessage_def case_prod_beta Let_def)
  have get: "mget (receiveRateWindows ?R) ?k = (case mget (receiveRateWindows R) ?k of None \<Rightarrow> None
      | Some w \<Rightarrow> if t - windowStartedAt w < 60000 then Some w else None)"
    using purge_windows_get [OF wf] by (simp add: purgeRateWindows_def)
  show ?thesis
  proof (cases "senderPublicKey m = key")
    case True
    then show ?thesis
      using get cnt assms(2,3)
      by (auto simp: v allowance_def consumeBudget_def BROADCAST_RATE_WINDOW_MS_def MAX_BROADCASTS_PER_ORIGIN_PER_WINDOW_def
          Let_def split: option.splits if_splits)
  next
    case other: False
    then have "?k \<noteq> bytesToHex (senderPublicKey m)" by simp
    then show ?thesis
      using get cnt assms(2,3) other by (auto simp: v allowance_def consume_other split: option.splits if_splits)
  qed
qed

fun within :: "int \<Rightarrow> int \<Rightarrow> (int \<times> 'a) list \<Rightarrow> bool" where
  "within a b [] = True"
| "within a b ((t, _) # ms) \<longleftrightarrow> a \<le> t \<and> t < b \<and> within a b ms"

lemma accepted_allowance:
  assumes "windows_ok R" "within t0 (t0 + 60000) ms"
  shows "accepted L key ms R \<le> allowance key (t0 + 60000) R"
  using assms
proof (induction ms arbitrary: R)
  case (Cons x ms)
  obtain t m where x: "x = (t, m)" by (cases x)
  have "accepted L key ms (snd (verifyBroadcastMessage L t m R))
      \<le> allowance key (t0 + 60000) (snd (verifyBroadcastMessage L t m R))"
    using Cons verify_windows_ok x by auto
  moreover note allowance_step [OF Cons.prems(1), of t "t0 + 60000" L m key]
  ultimately show ?case using Cons.prems(2) x by (auto simp: case_prod_beta Let_def)
qed simp

lemma allowance_le: "windows_ok R \<Longrightarrow> allowance key T R \<le> 39"
  by (fastforce simp: allowance_def windows_ok_def split: option.splits dest!: map_of_SomeD)

section \<open>Properties\<close>

definition no_limits :: BroadcastLimits where
  "no_limits = \<lparr>creationRateWindows = [], receiveRateWindows = []\<rparr>"

lemma windows_ok_none: "windows_ok no_limits"
  by (simp add: windows_ok_def no_limits_def)

text \<open>The flood bound. Whatever messages arrive from whatever senders, in any sixty seconds at most 39
  messages of one origin pass verification: twenty in a window, and one window can end in between.\<close>

theorem broadcast_rate_bound:
  assumes "windows_ok R" "within t0 (t0 + 60000) ms"
  shows "accepted L key ms R \<le> 39 \<and> windows_ok (snd (verifyBroadcastMessage L t m R))"
  using accepted_allowance [OF assms] allowance_le [OF assms(1)] verify_windows_ok [OF assms(1)]
  by (meson order_trans)

theorem broadcast_rate_bound_witness:
  "accepted ref_lib (publicKey alice)
     (replicate 100 (5, \<lparr>senderPublicKey = publicKey alice, broadcastContent = [1], broadcastTimestamp = JNum (Num 5),
        broadcastSignature = replicate 64 0\<rparr>)) no_limits \<le> 39"
proof -
  have "within 0 (0 + 60000) (replicate n (5, m))" for n and m :: BroadcastMessage by (induction n) auto
  from broadcast_rate_bound [OF windows_ok_none this] show ?thesis by blast
qed

lemma honest_broadcast:
  assumes "cbor_roundtrips L" "ed25519_correct L" "honest_identity L idn" "length content \<le> 4096"
    and "0 \<le> made" "made < 2 ^ 60" "fst (consumeBudget (creationRateWindows (purgeRateWindows made R)) (publicKey idn) made)"
    and "fst (consumeBudget (receiveRateWindows (purgeRateWindows nowMs R')) (publicKey idn) nowMs)"
  shows "\<exists>m R1. createBroadcastMessage L made idn content R = (Inr m, R1) \<and> senderPublicKey m = publicKey idn \<and>
    broadcastContent m = content \<and> decodeBroadcastMessage L (encodeBroadcastMessage L m) = Inr m \<and>
    fst (verifyBroadcastMessage L nowMs m R')"
proof -
  let ?t = "made div 1000"
  let ?msg = "BROADCAST_CONTEXT @ le_bytes 8 (word_of_int ?t :: 64 word) @ content"
  have t: "0 \<le> ?t" "?t \<le> 9007199254740991"
  proof -
    have "made < 1152921504606846976" using assms(6) by simp
    then show "0 \<le> ?t" "?t \<le> 9007199254740991" using assms(5) by linarith+
  qed
  obtain s where s: "signMessage L ?msg (privateKey idn) = Inr s" "length s = 64" "length (publicKey idn) = 32"
    "ed_verify L s ?msg (publicKey idn) = Some True"
    using honest_sign [OF assms(2,3)] by metis
  let ?m = "\<lparr>senderPublicKey = publicKey idn, broadcastContent = content, broadcastTimestamp = JNum (Num ?t), broadcastSignature = s\<rparr>"
  have "fst (createBroadcastMessage L made idn content R) = Inr ?m"
    using s assms(4,7) by (simp add: createBroadcastMessage_def MAX_BROADCAST_CONTENT_BYTES_def case_prod_beta Let_def
        buildSigningMessage_def)
  moreover have "decodeBroadcastMessage L (encodeBroadcastMessage L ?m) = Inr ?m"
  proof -
    let ?v = "JArr [JBytes (publicKey idn), JBytes content, JNum (Num ?t), JBytes s]"
    have "cbor_decode L (cbor_encode L ?v) = Some ?v" using t by (intro cbor_roundtripsD [OF assms(1)]) simp
    then show ?thesis by (simp add: decodeBroadcastMessage_def encodeBroadcastMessage_def numeral_eq_Suc)
  qed
  moreover have "broadcast_signed L ?m = Inr True"
    using s t by (simp add: broadcast_signed_def buildSigningMessage_def verifySignature_def)
  then have "fst (verifyBroadcastMessage L nowMs ?m R')"
    using s assms(4,8) by (simp add: verifyBroadcastMessage_def MAX_BROADCAST_CONTENT_BYTES_def case_prod_beta Let_def)
  ultimately show ?thesis by (metis select_convs(1,2) prod.collapse)
qed

text \<open>A broadcast an honest node creates within its budget is verified by every node that has not used up
  the origin's budget, after encoding and decoding.\<close>

theorem broadcast_roundtrip:
  assumes "cbor_roundtrips L" "ed25519_correct L" "honest_identity L idn" "length content \<le> 4096"
    and "0 \<le> made" "made < 2 ^ 60" "fst (consumeBudget (creationRateWindows (purgeRateWindows made R)) (publicKey idn) made)"
    and "fst (consumeBudget (receiveRateWindows (purgeRateWindows nowMs R')) (publicKey idn) nowMs)"
  shows "\<exists>m R1. createBroadcastMessage L made idn content R = (Inr m, R1) \<and> senderPublicKey m = publicKey idn \<and>
    broadcastContent m = content \<and> decodeBroadcastMessage L (encodeBroadcastMessage L m) = Inr m \<and>
    fst (verifyBroadcastMessage L nowMs m R')"
  by (rule honest_broadcast [OF assms])

theorem broadcast_roundtrip_witness:
  "\<exists>m R1. createBroadcastMessage ref_lib 1000000 alice [1, 2] no_limits = (Inr m, R1) \<and>
    fst (verifyBroadcastMessage ref_lib 1000500 m no_limits)"
  using broadcast_roundtrip [OF ref_cbor ref_ed25519_correct honest_test_identities(1), of "[1, 2]" 1000000 no_limits 1000500 no_limits]
  by (auto simp: consumeBudget_def purgeRateWindows_def purge_windows_def no_limits_def)

end
