(* ===== verification/Sync.thy ===== *)
theory Sync
  imports Routing
begin

text \<open>
  \<open>src/sync/session-sync.ts\<close> and the packing of sync packets in \<open>src/routing/routing.ts\<close>
  (\<open>encodeEncryptedSync\<close>, \<open>decodeEncryptedSync\<close>). The random nonce is an argument. What a peer sends is a
  \<open>sync_inner\<close>; what is received stays a decoded value until the handler has checked it.
\<close>

section \<open>Encryption under the session key\<close>

record SyncCiphertext =
  scSessionId :: string
  scNonce :: bytes
  scCiphertext :: bytes

definition sync_aad :: "string \<Rightarrow> bytes" where
  "sync_aad sessionId = text_encode (sessionId @ '':c14'')"

definition encryptSyncPayload :: "lib \<Rightarrow> bytes \<Rightarrow> bytes \<Rightarrow> string \<Rightarrow> bytes \<Rightarrow> SyncCiphertext res" where
  "encryptSyncPayload L nonce sessionKey sessionId plaintext =
     (if length sessionKey \<noteq> 32 then Inl (Err ''INVALID_SESSION_KEY'')
      else rbind (of_lib (aead_encrypt L sessionKey nonce (sync_aad sessionId) plaintext)) (\<lambda>c.
             Inr \<lparr>scSessionId = sessionId, scNonce = nonce, scCiphertext = c\<rparr>))"

definition decryptSyncPayload :: "lib \<Rightarrow> bytes \<Rightarrow> SyncCiphertext \<Rightarrow> bytes res" where
  "decryptSyncPayload L sessionKey e =
     (if length sessionKey \<noteq> 32 then Inl (Err ''INVALID_SESSION_KEY'')
      else of_lib (aead_decrypt L sessionKey (scNonce e) (sync_aad (scSessionId e)) (scCiphertext e)))"

section \<open>Sync packets\<close>

datatype sync_inner = SyncSummary "(bytes \<times> jsnum) list" | SyncRequest "bytes list" | SyncTransfer "bytes list"

definition inner_tuple :: "sync_inner \<Rightarrow> jsval" where
  "inner_tuple p = (case p of
      SyncSummary es \<Rightarrow> JArr [JNum (Num 0), JArr (map (\<lambda>(i, t). JArr [JBytes i, JNum t]) es)]
    | SyncRequest ids \<Rightarrow> JArr [JNum (Num 1), JArr (map JBytes ids)]
    | SyncTransfer ws \<Rightarrow> JArr [JNum (Num 2), JArr (map JBytes ws)])"

definition encodeEncryptedSync :: "lib \<Rightarrow> bytes \<Rightarrow> bytes \<Rightarrow> SyncSession \<Rightarrow> sync_inner \<Rightarrow> bytes res" where
  "encodeEncryptedSync L nonce identityKey session inner =
     rbind (encryptSyncPayload L nonce (syncSendKey session) (syncSessionId session)
       (cbor_encode L (JArr [JBytes identityKey, inner_tuple inner]))) (\<lambda>encrypted.
       Inr (cbor_encode L (JArr [JStr (scSessionId encrypted), JBytes (scNonce encrypted), JBytes (scCiphertext encrypted)])))"

definition is_string :: "jsval \<Rightarrow> string option" where
  "is_string v = (case v of JStr s \<Rightarrow> Some s | _ \<Rightarrow> None)"

text \<open>The last checks on a decrypted tuple.\<close>

definition checkSyncTuple :: "jsval \<Rightarrow> (bytes \<times> jsval) option res" where
  "checkSyncTuple tuple =
     (if \<not> is_array tuple \<or> arr_length tuple \<noteq> 2 then Inr None
      else rbind (rbind (js_index tuple 0) uint8_from) (\<lambda>senderKey. rbind (js_index tuple 1) (\<lambda>inner.
        if length senderKey \<noteq> 32 \<or> \<not> is_array inner \<or> arr_length inner \<noteq> 2 then Inr None
        else rbind (js_index inner 0) (\<lambda>kind.
          case strict_number kind of
            Num k \<Rightarrow> if k < 0 \<or> 2 < k then Inr None else Inr (Some (senderKey, inner))
          | _ \<Rightarrow> Inr None))))"

definition decodeEncryptedSync :: "lib \<Rightarrow> bytes \<Rightarrow> SyncSession \<Rightarrow> (bytes \<times> jsval) option" where
  "decodeEncryptedSync L payload session =
     Option.bind (or_null (
       rbind (of_lib (cbor_decode L payload)) (\<lambda>outer.
       if \<not> is_array outer \<or> arr_length outer \<noteq> 3 then Inr None
       else rbind (js_index outer 0) (\<lambda>sid.
         case is_string sid of
           None \<Rightarrow> Inr None
         | Some sessionId \<Rightarrow>
             rbind (rbind (js_index outer 1) uint8_from) (\<lambda>nonce.
             rbind (rbind (js_index outer 2) uint8_from) (\<lambda>ciphertext.
               if sessionId \<noteq> syncSessionId session \<or> length nonce \<noteq> 24 \<or> length ciphertext = 0 then Inr None
               else rbind (decryptSyncPayload L (syncReceiveKey session)
                      \<lparr>scSessionId = sessionId, scNonce = nonce, scCiphertext = ciphertext\<rparr>) (\<lambda>plaintext.
                    rbind (of_lib (cbor_decode L plaintext)) checkSyncTuple)))))))
       id"

section \<open>Lemmas\<close>

fun inner_plain :: "sync_inner \<Rightarrow> bool" where
  "inner_plain (SyncSummary es) = list_all (\<lambda>(_, t). is_safe_integer t) es"
| "inner_plain _ = True"

lemma inner_tuple_plain: "inner_plain p \<Longrightarrow> cbor_plain (inner_tuple p)"
  by (cases p) (auto simp: inner_tuple_def list_all_iff)

lemma checkSyncTuple_inner:
  "length pk = 32 \<Longrightarrow> checkSyncTuple (JArr [JBytes pk, inner_tuple p]) = Inr (Some (pk, inner_tuple p))"
  by (cases p) (auto simp: checkSyncTuple_def inner_tuple_def)

lemma sync_decode_encode:
  assumes "cbor_roundtrips L" "aead_correct L" "length (syncSendKey a) = 32" "syncReceiveKey b = syncSendKey a"
    and "syncSessionId b = syncSessionId a" "length nonce = 24" "length pk = 32" "inner_plain p"
  shows "\<exists>payload. encodeEncryptedSync L nonce pk a p = Inr payload \<and> decodeEncryptedSync L payload b = Some (pk, inner_tuple p)"
proof -
  let ?plain = "cbor_encode L (JArr [JBytes pk, inner_tuple p])"
  obtain c where c: "aead_encrypt L (syncSendKey a) nonce (sync_aad (syncSessionId a)) ?plain = Some c"
    "aead_decrypt L (syncSendKey a) nonce (sync_aad (syncSessionId a)) c = Some ?plain" "length c = length ?plain + 16"
    by (rule aead_correctE [OF assms(2,3,6)])
  have "cbor_decode L ?plain = Some (JArr [JBytes pk, inner_tuple p])"
    using inner_tuple_plain [OF assms(8)] by (intro cbor_roundtripsD [OF assms(1)]) simp
  moreover have "cbor_decode L (cbor_encode L (JArr [JStr (syncSessionId a), JBytes nonce, JBytes c]))
      = Some (JArr [JStr (syncSessionId a), JBytes nonce, JBytes c])"
    by (rule cbor_roundtripsD [OF assms(1)]) simp
  moreover have "c \<noteq> []" using c(3) by auto
  ultimately show ?thesis
    using c assms(3-7) by (simp add: encodeEncryptedSync_def encryptSyncPayload_def decodeEncryptedSync_def is_string_def
        decryptSyncPayload_def checkSyncTuple_inner numeral_2_eq_2)
qed

lemma sync_decode_authentic:
  assumes "aead_exact L" "decodeEncryptedSync L payload b = Some (pk, inner)"
  shows "\<exists>nonce plaintext c. aead_encrypt L (syncReceiveKey b) nonce (sync_aad (syncSessionId b)) plaintext = Some c \<and>
    (\<exists>v. cbor_decode L plaintext = Some v \<and> checkSyncTuple v = Inr (Some (pk, inner)))"
proof -
  obtain nonce c plaintext v where "aead_decrypt L (syncReceiveKey b) nonce (sync_aad (syncSessionId b)) c = Some plaintext"
    "cbor_decode L plaintext = Some v" "checkSyncTuple v = Inr (Some (pk, inner))"
    using assms(2) by (auto simp: decodeEncryptedSync_def bind_eq_Some_conv res_simps decryptSyncPayload_def
        split: if_splits option.splits)
  then show ?thesis using assms(1) unfolding aead_exact_def by blast
qed

lemma checkSyncTuple_Some:
  assumes "checkSyncTuple v = Inr (Some (pk, inner))"
  shows "length pk = 32 \<and> (\<exists>x y k. inner = JArr [x, y] \<and> strict_number x = Num k \<and> 0 \<le> k \<and> k \<le> 2)"
proof -
  obtain pk' inner' kind where kind: "js_index inner' 0 = Inr kind" and l: "length pk' = 32"
    and a: "is_array inner'" "arr_length inner' = 2"
    and n: "(case strict_number kind of Num k \<Rightarrow> if k < 0 \<or> 2 < k then Inr None else Inr (Some (pk', inner')) | _ \<Rightarrow> Inr None)
      = (Inr (Some (pk, inner)) :: (bytes \<times> jsval) option res)"
    using assms by (auto simp: checkSyncTuple_def res_simps split: if_splits)
  obtain x y where "inner' = JArr [x, y]" using a by (auto simp: is_array_iff numeral_2_eq_2 length_Suc_conv)
  then show ?thesis using kind l n by (cases "strict_number kind") (auto split: if_splits)
qed

lemma decodeEncryptedSync_sender:
  assumes "decodeEncryptedSync L payload b = Some (pk, inner)"
  shows "length pk = 32 \<and> (\<exists>x y k. inner = JArr [x, y] \<and> strict_number x = Num k \<and> 0 \<le> k \<and> k \<le> 2)"
proof -
  obtain v where "checkSyncTuple v = Inr (Some (pk, inner))"
    using assms by (auto simp: decodeEncryptedSync_def bind_eq_Some_conv res_simps split: if_splits option.splits)
  then show ?thesis by (rule checkSyncTuple_Some)
qed

section \<open>Properties\<close>

definition session_a :: SyncSession where
  "session_a = \<lparr>syncSessionId = ''s1'', syncSendKey = replicate 32 5, syncReceiveKey = replicate 32 6\<rparr>"

definition session_b :: SyncSession where
  "session_b = \<lparr>syncSessionId = ''s1'', syncSendKey = replicate 32 6, syncReceiveKey = replicate 32 5\<rparr>"

text \<open>A sync packet is readable exactly by the other end of its session. The peer whose receive key is the
  sender's send key reads back the sender's identity and the packet; an end of another session gets
  nothing, even with the same keys.\<close>

theorem sync_packet_session_bound:
  assumes "cbor_roundtrips L" "aead_correct L" "length (syncSendKey a) = 32" "length nonce = 24" "length pk = 32" "inner_plain p"
  shows "\<exists>payload. encodeEncryptedSync L nonce pk a p = Inr payload \<and>
    (\<forall>b. syncReceiveKey b = syncSendKey a \<longrightarrow>
       decodeEncryptedSync L payload b = (if syncSessionId b = syncSessionId a then Some (pk, inner_tuple p) else None))"
proof -
  let ?b = "\<lambda>b. b\<lparr>syncSessionId := syncSessionId a\<rparr>"
  obtain payload where e: "encodeEncryptedSync L nonce pk a p = Inr payload"
    using sync_decode_encode [OF assms(1-3) _ _ assms(4-6), of "a\<lparr>syncReceiveKey := syncSendKey a\<rparr>"] by auto
  then obtain c where c: "payload = cbor_encode L (JArr [JStr (syncSessionId a), JBytes nonce, JBytes c])"
    by (auto simp: encodeEncryptedSync_def encryptSyncPayload_def res_simps split: if_splits)
  have "cbor_decode L payload = Some (JArr [JStr (syncSessionId a), JBytes nonce, JBytes c])"
    unfolding c by (rule cbor_roundtripsD [OF assms(1)]) simp
  then have "decodeEncryptedSync L payload b = None" if "syncSessionId b \<noteq> syncSessionId a" for b
    using that by (simp add: decodeEncryptedSync_def is_string_def numeral_2_eq_2)
  moreover have "decodeEncryptedSync L payload b = Some (pk, inner_tuple p)"
    if "syncReceiveKey b = syncSendKey a" "syncSessionId b = syncSessionId a" for b
    using sync_decode_encode [OF assms(1-3) that assms(4-6)] e by simp
  ultimately show ?thesis using e by auto
qed

theorem sync_packet_session_bound_witness:
  "\<exists>payload. encodeEncryptedSync ref_lib (replicate 24 1) (publicKey alice) session_a (SyncRequest [replicate 16 9]) = Inr payload \<and>
    decodeEncryptedSync ref_lib payload session_b = Some (publicKey alice, inner_tuple (SyncRequest [replicate 16 9])) \<and>
    decodeEncryptedSync ref_lib payload (session_b\<lparr>syncSessionId := ''s2''\<rparr>) = None"
  using sync_packet_session_bound [OF ref_cbor ref_aead_correct, of session_a "replicate 24 1" "publicKey alice"
      "SyncRequest [replicate 16 9]"]
  by (auto simp: session_a_def session_b_def alice_def)

end
