(* ===== verification/Relay.thy ===== *)
theory Relay
  imports Effects Fragment Routing Broadcast Sync
begin

text \<open>
  The \<open>RelayNode\<close> of \<open>src/routing/routing.ts\<close>. A node is a record of the class fields, together with what
  it shares with its process: the rate windows of broadcasts and the number of random draws so far.
  What a handler does to the outside is recorded: the frames the transport took (\<open>sent\<close>) and the calls
  to the registered listeners (\<open>events\<close>). The transport is a parameter, queried during a handler and not
  changed by it; it delivers no frame to this node while a handler runs. \<open>nowMs\<close> is \<open>Date.now()\<close>, read once
  per handler. A listener that calls back into the node does so after the handler, which is what the code
  does next in each case. The depth argument of \<open>receiveEnvelope\<close> is the call stack the engine has left:
  a sync transfer inside a sync transfer costs one, and at zero the call throws as an exhausted stack does.
\<close>

section \<open>The node\<close>

record PendingAck =
  ackNeighborId :: string
  ackDestinationHint :: bytes
  sentAt :: int

datatype DeliveryResult =
    Delivered Envelope
  | Forwarded string
  | Queued
  | BroadcastReceived BroadcastMessage
  | Dropped string

datatype relay_event =
    DeliveryListener Envelope
  | BroadcastListener BroadcastMessage
  | AckListener bytes

record RelayNode =
  nodeIdentity :: Identity
  routingTable :: RoutingTable
  queue :: StoreForwardQueue
  reassembler :: FragmentReassembler
  ownDestinationHint :: bytes
  seenBroadcasts :: "(string, int) jsmap"
  seenRoutingAdvertisements :: "(string, int) jsmap"
  seenSyncPackets :: "(string, int) jsmap"
  neighborTrust :: "(string, int) jsmap"
  pendingAcks :: "(string, PendingAck) jsmap"
  authenticatedPeers :: "(string, AuthenticatedPeer) jsmap"
  limits :: BroadcastLimits
  draws :: nat
  sent :: "(string \<times> bytes) list"
  events :: "relay_event list"

type_synonym 'a relay = "(RelayNode, 'a) op"

text \<open>\<open>linkUnit n\<close> is the unit of the link to \<open>n\<close>, \<open>None\<close> when the transport has no such link.\<close>

record RelayTransport =
  discoverNeighbors :: "string list"
  linkUnit :: "string \<Rightarrow> int option"
  accepts :: "string \<Rightarrow> bytes \<Rightarrow> bool"

definition DEFAULT_BROADCAST_TTL :: jsnum where "DEFAULT_BROADCAST_TTL = Num 8"
definition MAX_PENDING_ACKS :: nat where "MAX_PENDING_ACKS = 500"
definition MAX_SEEN_ROUTING_ADS :: nat where "MAX_SEEN_ROUTING_ADS = 2048"
definition MAX_SEEN_SYNC_PACKETS :: nat where "MAX_SEEN_SYNC_PACKETS = 2048"
definition SYNC_REPLAY_TTL_MS :: int where "SYNC_REPLAY_TTL_MS = 10 * 60 * 1000"
definition MAX_SYNC_ENTRIES :: nat where "MAX_SYNC_ENTRIES = 512"
definition MAX_SYNC_REQUESTS :: nat where "MAX_SYNC_REQUESTS = 512"
definition MAX_SYNC_TRANSFER_ENVELOPES :: nat where "MAX_SYNC_TRANSFER_ENVELOPES = 128"
definition MAX_SYNC_TRANSFER_BYTES :: nat where "MAX_SYNC_TRANSFER_BYTES = 512 * 1024"
definition FRAME_KIND_ENVELOPE :: byte where "FRAME_KIND_ENVELOPE = 0"
definition FRAME_KIND_FRAGMENT :: byte where "FRAME_KIND_FRAGMENT = 1"
definition ROUTE_ACK_TIMEOUT_MS :: int where "ROUTE_ACK_TIMEOUT_MS = ROUTE_PROBATION_MS"

definition new_relay :: "lib \<Rightarrow> Identity \<Rightarrow> RelayNode" where
  "new_relay L idn = \<lparr>nodeIdentity = idn, routingTable = [], queue = new_queue 50 200, reassembler = new_reassembler,
     ownDestinationHint = computeDestinationHint L (publicKey idn), seenBroadcasts = [], seenRoutingAdvertisements = [],
     seenSyncPackets = [], neighborTrust = [], pendingAcks = [], authenticatedPeers = [],
     limits = \<lparr>creationRateWindows = [], receiveRateWindows = []\<rparr>, draws = 0, sent = [], events = []\<rparr>"

definition draw :: "lib \<Rightarrow> nat \<Rightarrow> bytes relay" where
  "draw L n s = (Inr (random_bytes L (draws s) n), s\<lparr>draws := draws s + 1\<rparr>)"

abbreviation on_table :: "(RoutingTable \<Rightarrow> 'a \<times> RoutingTable) \<Rightarrow> 'a relay" where
  "on_table \<equiv> on_part routingTable (\<lambda>t. routingTable_update (\<lambda>_. t))"

abbreviation on_queue :: "(StoreForwardQueue \<Rightarrow> 'a \<times> StoreForwardQueue) \<Rightarrow> 'a relay" where
  "on_queue \<equiv> on_part queue (\<lambda>q. queue_update (\<lambda>_. q))"

section \<open>Peers and housekeeping\<close>

definition registerAuthenticatedPeer :: "int \<Rightarrow> string \<Rightarrow> bytes \<Rightarrow> SyncSession option \<Rightarrow> unit relay" where
  "registerAuthenticatedPeer nowMs neighbor peerKey session =
     (if length peerKey \<noteq> 32 then throw (Err ''INVALID_PEER_IDENTITY_KEY'')
      else if (case session of None \<Rightarrow> False | Some x \<Rightarrow>
          length (syncSendKey x) \<noteq> 32 \<or> length (syncReceiveKey x) \<noteq> 32 \<or> length (syncSessionId x) = 0)
        then throw (Err ''INVALID_AUTHENTICATED_SESSION'')
      else change (\<lambda>s. s\<lparr>authenticatedPeers := mset_at neighbor
             \<lparr>peerIdentityKey = peerKey, establishedAt = nowMs, peerSession = session\<rparr> (authenticatedPeers s)\<rparr>))"

definition registerAuthenticatedSession :: "int \<Rightarrow> string \<Rightarrow> bytes \<Rightarrow> SyncSession \<Rightarrow> unit relay" where
  "registerAuthenticatedSession nowMs neighbor peerKey session = registerAuthenticatedPeer nowMs neighbor peerKey (Some session)"

definition unregisterAuthenticatedPeer :: "string \<Rightarrow> unit relay" where
  "unregisterAuthenticatedPeer neighbor = change (\<lambda>s. s\<lparr>authenticatedPeers := mdel neighbor (authenticatedPeers s)\<rparr>)"

definition isAuthenticatedPeer :: "string \<Rightarrow> RelayNode \<Rightarrow> bool" where
  "isAuthenticatedPeer neighbor s = mhas (authenticatedPeers s) neighbor"

definition neighborTrustScore :: "string \<Rightarrow> RelayNode \<Rightarrow> int" where
  "neighborTrustScore neighbor s = mget_or (neighborTrust s) neighbor 0"

text \<open>The purge of a map from keys to the time they were seen.\<close>

definition purge_seen :: "int \<Rightarrow> int \<Rightarrow> (string, int) jsmap \<Rightarrow> (string, int) jsmap" where
  "purge_seen nowMs maxAgeMs m = filter (\<lambda>(_, seenAt). \<not> maxAgeMs < nowMs - seenAt) m"

definition purgeStaleBroadcastRecords :: "int \<Rightarrow> int \<Rightarrow> nat relay" where
  "purgeStaleBroadcastRecords nowMs maxAgeMs s =
     (let m = purge_seen nowMs maxAgeMs (seenBroadcasts s)
      in (Inr (length (seenBroadcasts s) - length m), s\<lparr>seenBroadcasts := m\<rparr>))"

definition purgeStaleRoutingAdvertisements :: "int \<Rightarrow> int \<Rightarrow> nat relay" where
  "purgeStaleRoutingAdvertisements nowMs maxAgeMs s =
     (let m = purge_seen nowMs maxAgeMs (seenRoutingAdvertisements s)
      in (Inr (length (seenRoutingAdvertisements s) - length m), s\<lparr>seenRoutingAdvertisements := m\<rparr>))"

definition purgeStaleSyncReplayRecords :: "int \<Rightarrow> int \<Rightarrow> nat relay" where
  "purgeStaleSyncReplayRecords nowMs maxAgeMs s =
     (let m = purge_seen nowMs maxAgeMs (seenSyncPackets s)
      in (Inr (length (seenSyncPackets s) - length m), s\<lparr>seenSyncPackets := m\<rparr>))"

definition purgeStaleRoutes :: "int \<Rightarrow> nat relay" where
  "purgeStaleRoutes nowMs = on_table (purgeExpired nowMs)"

definition purgeStaleFragments :: "int \<Rightarrow> int \<Rightarrow> nat relay" where
  "purgeStaleFragments nowMs maxAgeMs =
     on_part reassembler (\<lambda>r. reassembler_update (\<lambda>_. r)) (purgeStale nowMs maxAgeMs)"

definition expire_ack :: "string \<Rightarrow> PendingAck \<Rightarrow> RelayNode \<Rightarrow> RelayNode" where
  "expire_ack mid p s = s\<lparr>pendingAcks := mdel mid (pendingAcks s),
     routingTable := demote (ackDestinationHint p) (ackNeighborId p) (routingTable s)\<rparr>"

definition expirePendingAcks :: "int \<Rightarrow> nat relay" where
  "expirePendingAcks nowMs s =
     (case sweep (\<lambda>mid p. \<not> nowMs - sentAt p < ROUTE_ACK_TIMEOUT_MS) expire_ack (pendingAcks s) s of
        (expired, s') \<Rightarrow> (Inr expired, s'))"

definition purgeStaleRoutingState :: "int \<Rightarrow> nat relay" where
  "purgeStaleRoutingState nowMs =
     chain (expirePendingAcks nowMs) (\<lambda>expired. chain (on_table (purgeExpired nowMs)) (\<lambda>routes. ret (expired + routes)))"

definition relay_hasRoute :: "int \<Rightarrow> bytes \<Rightarrow> bool relay" where
  "relay_hasRoute nowMs hint s =
     on_part_res routingTable (\<lambda>t. routingTable_update (\<lambda>_. t)) (hasRoute nowMs hint (authenticatedPeers s)) s"

definition queueSize :: "int \<Rightarrow> nat relay" where
  "queueSize nowMs = on_queue (queue_size nowMs)"

definition find_hop :: "int \<Rightarrow> bytes \<Rightarrow> string option relay" where
  "find_hop nowMs hint s =
     on_part_res routingTable (\<lambda>t. routingTable_update (\<lambda>_. t))
       (lookup nowMs hint (neighborTrust s) (authenticatedPeers s)) s"

section \<open>Sending\<close>

definition transmit :: "RelayTransport \<Rightarrow> string \<Rightarrow> bytes \<Rightarrow> bool relay" where
  "transmit T neighbor frame s =
     (Inr (accepts T neighbor frame), if accepts T neighbor frame then s\<lparr>sent := sent s @ [(neighbor, frame)]\<rparr> else s)"

fun transmit_all :: "RelayTransport \<Rightarrow> string \<Rightarrow> bytes list \<Rightarrow> bool \<Rightarrow> bool relay" where
  "transmit_all T neighbor [] allSent = ret allSent"
| "transmit_all T neighbor (f # fs) allSent =
     chain (transmit T neighbor (concatBytes [[FRAME_KIND_FRAGMENT], f]))
       (\<lambda>ok. transmit_all T neighbor fs (if ok then allSent else False))"

definition sendEnvelopeOverTransport :: "lib \<Rightarrow> RelayTransport \<Rightarrow> string \<Rightarrow> Envelope \<Rightarrow> bool relay" where
  "sendEnvelopeOverTransport L T neighbor e =
     (let encoded = encodeEnvelope L e; whole = transmit T neighbor (concatBytes [[FRAME_KIND_ENVELOPE], encoded])
      in case linkUnit T neighbor of
           None \<Rightarrow> whole
         | Some mtu \<Rightarrow>
             (if int (length encoded) + 1 \<le> mtu then whole
              else chain (lift_res (fragmentEnvelope L e (mtu - 1))) (\<lambda>fs. transmit_all T neighbor fs True)))"

definition recordPendingAck :: "int \<Rightarrow> bytes \<Rightarrow> string \<Rightarrow> bytes \<Rightarrow> unit relay" where
  "recordPendingAck nowMs mid neighbor hint = change (\<lambda>s. s\<lparr>pendingAcks :=
     bounded_set MAX_PENDING_ACKS (bytesToHex mid)
       \<lparr>ackNeighborId = neighbor, ackDestinationHint = hint, sentAt = nowMs\<rparr> (pendingAcks s)\<rparr>)"

text \<open>The copy of an envelope with its hop counter decreased.\<close>

definition next_hop_copy :: "Envelope \<Rightarrow> Envelope" where
  "next_hop_copy e = e\<lparr>header := (header e)\<lparr>ttl := num_sub (ttl (header e)) (Num 1)\<rparr>\<rparr>"

definition forwardOverTransport :: "lib \<Rightarrow> RelayTransport \<Rightarrow> int \<Rightarrow> Envelope \<Rightarrow> string \<Rightarrow> bool relay" where
  "forwardOverTransport L T nowMs e hop =
     (let expectsAck = (packetType (header e) = packet_code Data)
      in chain (if expectsAck then recordPendingAck nowMs (messageId (header e)) hop (destinationHint (header e)) else ret ())
         (\<lambda>_. chain (sendEnvelopeOverTransport L T hop (next_hop_copy e)) (\<lambda>ok.
           if \<not> ok \<and> expectsAck
           then chain (change (\<lambda>s. s\<lparr>pendingAcks := mdel (bytesToHex (messageId (header e))) (pendingAcks s)\<rparr>)) (\<lambda>_. ret ok)
           else ret ok)))"

definition relay_store :: "lib \<Rightarrow> int \<Rightarrow> Envelope \<Rightarrow> string \<Rightarrow> DeliveryResult relay" where
  "relay_store L nowMs e from = chain (on_queue (store L nowMs e from)) (\<lambda>r.
     ret (case r of Stored \<Rightarrow> Queued | NotStored reason \<Rightarrow> Dropped reason))"

definition attemptQueuedDelivery :: "lib \<Rightarrow> RelayTransport \<Rightarrow> int \<Rightarrow> bytes \<Rightarrow> unit relay" where
  "attemptQueuedDelivery L T nowMs hint =
     chain (purgeStaleRoutingState nowMs) (\<lambda>_. chain (find_hop nowMs hint) (\<lambda>hop.
       case truthy hop of
         None \<Rightarrow> ret ()
       | Some h \<Rightarrow> chain (on_queue (getByDestination nowMs hint)) (each (\<lambda>e.
           chain (forwardOverTransport L T nowMs e h) (\<lambda>ok.
             if ok then change (\<lambda>s. s\<lparr>queue := acknowledge (messageId (header e)) (queue s)\<rparr>) else ret ())))))"

definition broadcast :: "lib \<Rightarrow> RelayTransport \<Rightarrow> int \<Rightarrow> bytes \<Rightarrow> jsnum \<Rightarrow> unit relay" where
  "broadcast L T nowMs content t =
     chain (\<lambda>s. on_part_res limits (\<lambda>l. limits_update (\<lambda>_. l)) (createBroadcastMessage L nowMs (nodeIdentity s) content) s)
       (\<lambda>m. chain (draw L 16) (\<lambda>mid.
         let e = createBroadcastEnvelope nowMs mid (encodeBroadcastMessage L m) t
         in each (\<lambda>n. chain (sendEnvelopeOverTransport L T n e) (\<lambda>_. ret ())) (discoverNeighbors T)))"

definition sendSync :: "lib \<Rightarrow> RelayTransport \<Rightarrow> int \<Rightarrow> string \<Rightarrow> SyncSession \<Rightarrow> sync_inner \<Rightarrow> bool relay" where
  "sendSync L T nowMs neighbor session inner =
     chain (look nodeIdentity) (\<lambda>idn. chain (draw L 24) (\<lambda>nonce.
     chain (lift_res (encodeEncryptedSync L nonce (publicKey idn) session inner)) (\<lambda>payload.
     chain (draw L 16) (\<lambda>mid.
       sendEnvelopeOverTransport L T neighbor (createSyncEnvelope nowMs mid payload DEFAULT_TTL)))))"

definition initiateSync :: "lib \<Rightarrow> RelayTransport \<Rightarrow> int \<Rightarrow> string \<Rightarrow> bool relay" where
  "initiateSync L T nowMs neighbor =
     chain (look (\<lambda>s. Option.bind (mget (authenticatedPeers s) neighbor) peerSession)) (\<lambda>session.
       case session of
         None \<Rightarrow> ret False
       | Some x \<Rightarrow> chain (on_queue (getSummary nowMs)) (\<lambda>summary.
           sendSync L T nowMs neighbor x
             (SyncSummary (map (\<lambda>e. (summaryId e, ttlRemaining e)) (take MAX_SYNC_ENTRIES summary)))))"

definition sendEnvelope :: "lib \<Rightarrow> RelayTransport \<Rightarrow> int \<Rightarrow> Envelope \<Rightarrow> DeliveryResult relay" where
  "sendEnvelope L T nowMs e =
     chain (purgeStaleRoutingState nowMs) (\<lambda>_.
       if \<not> validateRoutingHeader nowMs STORE_FORWARD_MAX_AGE_SECONDS (header e) then ret (Dropped ''invalid header'')
       else chain (look (\<lambda>s. map_option fst (find (\<lambda>(n, p).
              bytesEqual (computeDestinationHint L (peerIdentityKey p)) (destinationHint (header e))) (authenticatedPeers s))))
         (\<lambda>direct. chain (case direct of Some n \<Rightarrow> ret (Some n) | None \<Rightarrow> find_hop nowMs (destinationHint (header e)))
         (\<lambda>hop. case truthy hop of
            None \<Rightarrow> relay_store L nowMs e ''origin''
          | Some h \<Rightarrow> chain (forwardOverTransport L T nowMs e h) (\<lambda>ok.
              if ok then ret (Forwarded h) else relay_store L nowMs e ''origin''))))"

section \<open>Receiving\<close>

definition processPendingAck :: "lib \<Rightarrow> int \<Rightarrow> Envelope \<Rightarrow> string \<Rightarrow> bool relay" where
  "processPendingAck L nowMs e from =
     (case verifyAckEnvelope L e of
        None \<Rightarrow> ret False
      | Some ack \<Rightarrow>
          (let ackedIdHex = bytesToHex (acknowledgedMessageId ack)
           in chain (look (\<lambda>s. mget (pendingAcks s) ackedIdHex)) (\<lambda>pending.
              case pending of
                None \<Rightarrow> ret False
              | Some p \<Rightarrow>
                  (if ackNeighborId p \<noteq> from then ret False
                   else if \<not> bytesEqual (ackDestinationHint p) (signerDestinationHint ack) then ret False
                   else chain (look (\<lambda>s. mget (authenticatedPeers s) from)) (\<lambda>peer.
                     case peer of
                       None \<Rightarrow> ret False
                     | Some a \<Rightarrow>
                         chain (\<lambda>s. case markValidated L nowMs (ackDestinationHint p) (signerPublicKey ack) (ackNeighborId p)
                                  (peerIdentityKey a) (establishedAt a) (routingTable s) of
                                Inl err \<Rightarrow> (Inl err, s) | Inr t \<Rightarrow> (Inr (), s\<lparr>routingTable := t\<rparr>))
                           (\<lambda>_. chain (change (\<lambda>s. s\<lparr>neighborTrust := mset_at (ackNeighborId p)
                                   (mget_or (neighborTrust s) (ackNeighborId p) 0 + 1) (neighborTrust s)\<rparr>))
                           (\<lambda>_. chain (change (\<lambda>s. s\<lparr>pendingAcks := mdel ackedIdHex (pendingAcks s)\<rparr>))
                           (\<lambda>_. ret True))))))))"

text \<open>\<open>[id, ttl]\<close> of an element of a summary: array destructuring needs an iterable.\<close>

definition destructure :: "jsval \<Rightarrow> (jsval \<times> jsval) res" where
  "destructure v = (case v of
      JArr _ \<Rightarrow> rbind (js_index v 0) (\<lambda>a. rbind (js_index v 1) (\<lambda>b. Inr (a, b)))
    | JBytes _ \<Rightarrow> rbind (js_index v 0) (\<lambda>a. rbind (js_index v 1) (\<lambda>b. Inr (a, b)))
    | JStr _ \<Rightarrow> rbind (js_index v 0) (\<lambda>a. rbind (js_index v 1) (\<lambda>b. Inr (a, b)))
    | _ \<Rightarrow> Inl TypeErr)"

definition summary_entry :: "jsval \<Rightarrow> (bytes \<times> jsval) res" where
  "summary_entry v = rbind (destructure v) (\<lambda>(a, t). rbind (uint8_from a) (\<lambda>mid. Inr (mid, t)))"

definition bad_entry :: "bytes \<times> jsval \<Rightarrow> bool" where
  "bad_entry = (\<lambda>(mid, t). length mid \<noteq> 16 \<or> (case safe_int t of None \<Rightarrow> True | Some i \<Rightarrow> i < 0))"

definition elements :: "jsval \<Rightarrow> jsval list" where
  "elements v = (case v of JArr xs \<Rightarrow> xs | _ \<Rightarrow> [])"

text \<open>\<open>entries.filter(([id]) => !this.queue.has(id))\<close>: each \<open>has\<close> purges the queue first.\<close>

fun missing_ids :: "int \<Rightarrow> bytes list \<Rightarrow> bytes list relay" where
  "missing_ids nowMs [] = ret []"
| "missing_ids nowMs (i # ids) = chain (on_queue (has nowMs i)) (\<lambda>held.
     chain (missing_ids nowMs ids) (\<lambda>rest. ret (if held then rest else i # rest)))"

text \<open>The wire forms of the requested envelopes up to the byte limit, where the loop breaks.\<close>

fun within_limit :: "nat \<Rightarrow> bytes list \<Rightarrow> bytes list" where
  "within_limit totalBytes [] = []"
| "within_limit totalBytes (w # ws) =
     (if MAX_SYNC_TRANSFER_BYTES < totalBytes + length w then [] else w # within_limit (totalBytes + length w) ws)"

definition sync_summary ::
    "lib \<Rightarrow> RelayTransport \<Rightarrow> int \<Rightarrow> Envelope \<Rightarrow> string \<Rightarrow> SyncSession \<Rightarrow> jsval \<Rightarrow> DeliveryResult relay" where
  "sync_summary L T nowMs e from session v =
     (if \<not> is_array v \<or> MAX_SYNC_ENTRIES < arr_length v then ret (Dropped ''sync summary too large'')
      else chain (lift_res (rmap summary_entry (elements v))) (\<lambda>es.
        if list_ex bad_entry es then ret (Dropped ''invalid sync summary'')
        else chain (missing_ids nowMs (map fst es)) (\<lambda>missing.
          let missingIds = take MAX_SYNC_REQUESTS missing
          in chain (if missingIds \<noteq> [] then chain (sendSync L T nowMs from session (SyncRequest missingIds)) (\<lambda>_. ret ())
                    else ret ())
             (\<lambda>_. ret (Delivered e)))))"

definition sync_request ::
    "lib \<Rightarrow> RelayTransport \<Rightarrow> int \<Rightarrow> Envelope \<Rightarrow> string \<Rightarrow> SyncSession \<Rightarrow> jsval \<Rightarrow> DeliveryResult relay" where
  "sync_request L T nowMs e from session v =
     (if \<not> is_array v \<or> MAX_SYNC_REQUESTS < arr_length v then ret (Dropped ''sync request too large'')
      else chain (lift_res (rmap uint8_from (elements v))) (\<lambda>ids.
        if list_ex (\<lambda>i. length i \<noteq> 16) ids then ret (Dropped ''invalid sync request'')
        else chain (on_queue (getByIds nowMs ids)) (\<lambda>held.
          let wireEnvelopes = within_limit 0 (map (encodeEnvelope L) (take MAX_SYNC_TRANSFER_ENVELOPES held))
          in chain (sendSync L T nowMs from session (SyncTransfer wireEnvelopes)) (\<lambda>_. ret (Delivered e)))))"

text \<open>The loop over the transferred envelopes; \<open>recv\<close> is \<open>receiveEnvelope\<close>. \<open>Some\<close> is its early return.\<close>

fun transfer_loop :: "lib \<Rightarrow> (Envelope \<Rightarrow> DeliveryResult relay) \<Rightarrow> nat \<Rightarrow> jsval list \<Rightarrow> DeliveryResult option relay" where
  "transfer_loop L recv totalBytes [] = ret None"
| "transfer_loop L recv totalBytes (v # vs) =
     chain (lift_res (uint8_from v)) (\<lambda>wire.
       if MAX_SYNC_TRANSFER_BYTES < totalBytes + length wire
       then ret (Some (Dropped ''sync transfer byte limit exceeded''))
       else chain (lift_res (decodeEnvelope L wire)) (\<lambda>e. chain (recv e) (\<lambda>_.
         transfer_loop L recv (totalBytes + length wire) vs)))"

definition sync_transfer ::
    "lib \<Rightarrow> (Envelope \<Rightarrow> string option \<Rightarrow> DeliveryResult relay) \<Rightarrow> Envelope \<Rightarrow> string \<Rightarrow> jsval \<Rightarrow> DeliveryResult relay" where
  "sync_transfer L recv e from v =
     (if \<not> is_array v \<or> MAX_SYNC_TRANSFER_ENVELOPES < arr_length v then ret (Dropped ''sync transfer too large'')
      else chain (attempt (transfer_loop L (\<lambda>e. recv e (Some from)) 0 (elements v))
                    (ret (Some (Dropped ''malformed sync transfer''))))
             (\<lambda>early. ret (case early of Some r \<Rightarrow> r | None \<Rightarrow> Delivered e)))"

definition peerAuthorized :: "string \<Rightarrow> bytes \<Rightarrow> RelayNode \<Rightarrow> bool" where
  "peerAuthorized from senderKey s = (case mget (authenticatedPeers s) from of
     None \<Rightarrow> False | Some p \<Rightarrow> bytesEqual (peerIdentityKey p) senderKey)"

definition handleSyncPacket ::
    "lib \<Rightarrow> RelayTransport \<Rightarrow> int \<Rightarrow> (Envelope \<Rightarrow> string option \<Rightarrow> DeliveryResult relay) \<Rightarrow>
     Envelope \<Rightarrow> string option \<Rightarrow> DeliveryResult relay" where
  "handleSyncPacket L T nowMs recv e from =
     (case truthy from of
        None \<Rightarrow> ret (Dropped ''unauthenticated sync peer'')
      | Some peerId \<Rightarrow> chain (look (\<lambda>s. Option.bind (mget (authenticatedPeers s) peerId) peerSession)) (\<lambda>session.
          case session of
            None \<Rightarrow> ret (Dropped ''sync session unavailable'')
          | Some x \<Rightarrow> chain (purgeStaleSyncReplayRecords nowMs SYNC_REPLAY_TTL_MS) (\<lambda>_.
              case decodeEncryptedSync L (sealedPayload e) x of
                None \<Rightarrow> ret (Dropped ''invalid encrypted sync authentication'')
              | Some (senderKey, tuple) \<Rightarrow> chain (look (\<lambda>s. (peerAuthorized peerId senderKey s, seenSyncPackets s)))
                  (\<lambda>(authorized, seen).
                    if \<not> authorized then ret (Dropped ''invalid encrypted sync authentication'')
                    else let replayKey = bytesToHex senderKey @ '':'' @ bytesToHex (sha256 L (sealedPayload e))
                    in if mhas seen replayKey then ret (Dropped ''sync packet replayed'')
                    else chain (change (\<lambda>s. s\<lparr>seenSyncPackets :=
                           bounded_set MAX_SEEN_SYNC_PACKETS replayKey nowMs (seenSyncPackets s)\<rparr>)) (\<lambda>_.
                         chain (lift_res (js_index tuple 0)) (\<lambda>kind. chain (lift_res (js_index tuple 1)) (\<lambda>v.
                           if strict_number kind = Num 0 then sync_summary L T nowMs e peerId x v
                           else if strict_number kind = Num 1 then sync_request L T nowMs e peerId x v
                           else sync_transfer L recv e peerId v)))))))"

definition handleBroadcastPacket ::
    "lib \<Rightarrow> RelayTransport \<Rightarrow> int \<Rightarrow> Envelope \<Rightarrow> string option \<Rightarrow> DeliveryResult relay" where
  "handleBroadcastPacket L T nowMs e from =
     (let key = bytesToHex (messageId (header e))
      in chain (look (\<lambda>s. mhas (seenBroadcasts s) key)) (\<lambda>seen.
         if seen then ret (Dropped ''broadcast already seen'')
         else chain (change (\<lambda>s. s\<lparr>seenBroadcasts := mset_at key nowMs (seenBroadcasts s)\<rparr>)) (\<lambda>_.
              chain (lift_res (decodeBroadcastMessage L (sealedPayload e))) (\<lambda>m.
              chain (on_part limits (\<lambda>l. limits_update (\<lambda>_. l)) (verifyBroadcastMessage L nowMs m)) (\<lambda>valid.
                if \<not> valid then ret (Dropped ''invalid broadcast signature'')
                else chain (change (\<lambda>s. s\<lparr>events := events s @ [BroadcastListener m]\<rparr>)) (\<lambda>_.
                     chain (if Num 0 < ttl (header e)
                            then each (\<lambda>n. if Some n \<noteq> from
                                   then chain (sendEnvelopeOverTransport L T n (next_hop_copy e)) (\<lambda>_. ret ()) else ret ())
                                 (discoverNeighbors T)
                            else ret ())
                       (\<lambda>_. ret (BroadcastReceived m))))))))"

text \<open>The acknowledgement block of \<open>receiveEnvelope\<close>; \<open>Some\<close> is an early return.\<close>

definition ack_gate :: "lib \<Rightarrow> int \<Rightarrow> Envelope \<Rightarrow> string option \<Rightarrow> DeliveryResult option relay" where
  "ack_gate L nowMs e from =
     (if packetType (header e) \<noteq> packet_code Ack then ret None
      else case truthy from of
        None \<Rightarrow> ret None
      | Some peerId \<Rightarrow> (case verifyAckEnvelope L e of
            None \<Rightarrow> ret (Some (Dropped ''invalid ack signature''))
          | Some ack \<Rightarrow> chain (look (\<lambda>s. (mget (pendingAcks s) (bytesToHex (acknowledgedMessageId ack)), ownDestinationHint s)))
              (\<lambda>(pending, own). case pending of
                 Some _ \<Rightarrow> chain (processPendingAck L nowMs e peerId) (\<lambda>ok.
                   ret (if ok then None else Some (Dropped ''ack route provenance mismatch'')))
               | None \<Rightarrow> ret (if bytesEqual (destinationHint (header e)) own
                   then Some (Dropped ''ack for unknown message'') else None))))"

definition deliver_local :: "lib \<Rightarrow> Envelope \<Rightarrow> DeliveryResult relay" where
  "deliver_local L e =
     (if packetType (header e) = packet_code Ack
      then (case verifyAckEnvelope L e of
              None \<Rightarrow> ret (Dropped ''invalid ack signature'')
            | Some ack \<Rightarrow> chain (change (\<lambda>s. s\<lparr>events := events s @ [AckListener (acknowledgedMessageId ack)]\<rparr>))
                (\<lambda>_. ret (Delivered e)))
      else chain (change (\<lambda>s. s\<lparr>events := events s @ [DeliveryListener e]\<rparr>)) (\<lambda>_. ret (Delivered e)))"

definition relay_on :: "lib \<Rightarrow> RelayTransport \<Rightarrow> int \<Rightarrow> Envelope \<Rightarrow> string option \<Rightarrow> DeliveryResult relay" where
  "relay_on L T nowMs e from =
     (if ttl (header e) \<le> Num 0 then ret (Dropped ''ttl expired'')
      else chain (find_hop nowMs (destinationHint (header e))) (\<lambda>hop.
        let keep = relay_store L nowMs e (case from of None \<Rightarrow> ''origin'' | Some n \<Rightarrow> n)
        in case truthy hop of
             None \<Rightarrow> keep
           | Some h \<Rightarrow> chain (forwardOverTransport L T nowMs e h) (\<lambda>ok. if ok then ret (Forwarded h) else keep)))"

definition receive_body ::
    "lib \<Rightarrow> RelayTransport \<Rightarrow> int \<Rightarrow> (Envelope \<Rightarrow> string option \<Rightarrow> DeliveryResult relay) \<Rightarrow>
     Envelope \<Rightarrow> string option \<Rightarrow> DeliveryResult relay" where
  "receive_body L T nowMs recv e from =
     chain (purgeStaleRoutingState nowMs) (\<lambda>_.
       if \<not> validateRoutingHeader nowMs STORE_FORWARD_MAX_AGE_SECONDS (header e) then ret (Dropped ''invalid header'')
       else if packetType (header e) = packet_code StoreForwardSync then handleSyncPacket L T nowMs recv e from
       else if packetType (header e) = packet_code EmergencyBroadcast then handleBroadcastPacket L T nowMs e from
       else chain (ack_gate L nowMs e from) (\<lambda>early. case early of
              Some r \<Rightarrow> ret r
            | None \<Rightarrow> chain (look ownDestinationHint) (\<lambda>own.
                if bytesEqual (destinationHint (header e)) own then deliver_local L e
                else relay_on L T nowMs e from)))"

fun receiveEnvelope ::
    "lib \<Rightarrow> RelayTransport \<Rightarrow> int \<Rightarrow> nat \<Rightarrow> Envelope \<Rightarrow> string option \<Rightarrow> DeliveryResult relay" where
  "receiveEnvelope L T nowMs 0 e from = throw RangeErr"
| "receiveEnvelope L T nowMs (Suc depth) e from = receive_body L T nowMs (receiveEnvelope L T nowMs depth) e from"

text \<open>The callback the constructor registers: whatever is thrown ends it quietly.\<close>

definition receiveFrame :: "lib \<Rightarrow> RelayTransport \<Rightarrow> int \<Rightarrow> nat \<Rightarrow> string \<Rightarrow> bytes \<Rightarrow> RelayNode \<Rightarrow> RelayNode" where
  "receiveFrame L T nowMs depth from frame s =
     (case frame of
        [] \<Rightarrow> s
      | kind # body \<Rightarrow>
          (if kind = FRAME_KIND_FRAGMENT then
             (case mget (authenticatedPeers s) from of
                None \<Rightarrow> s
              | Some peer \<Rightarrow>
                  (case addFragment L nowMs body (from @ '':'' @ int_string (establishedAt peer)) (reassembler s) of
                     (None, r) \<Rightarrow> s\<lparr>reassembler := r\<rparr>
                   | (Some e, r) \<Rightarrow> snd (receiveEnvelope L T nowMs depth e (Some from) (s\<lparr>reassembler := r\<rparr>))))
           else if kind \<noteq> FRAME_KIND_ENVELOPE then s
           else (case decodeEnvelope L body of
                   Inl _ \<Rightarrow> s
                 | Inr e \<Rightarrow> snd (receiveEnvelope L T nowMs depth e (Some from) s))))"

definition sendAck :: "lib \<Rightarrow> RelayTransport \<Rightarrow> int \<Rightarrow> nat \<Rightarrow> bytes \<Rightarrow> bytes \<Rightarrow> unit relay" where
  "sendAck L T nowMs depth hint acked =
     chain (purgeStaleRoutingState nowMs) (\<lambda>_. chain (look (\<lambda>s. (nodeIdentity s, ownDestinationHint s))) (\<lambda>(idn, own).
     chain (draw L 16) (\<lambda>mid. chain (lift_res (createAckEnvelope L nowMs mid hint acked idn DEFAULT_TTL)) (\<lambda>e.
       if bytesEqual hint own then chain (receiveEnvelope L T nowMs depth e None) (\<lambda>_. ret ())
       else chain (find_hop nowMs hint) (\<lambda>hop.
         let keep = chain (relay_store L nowMs e ''origin'') (\<lambda>_. ret ())
         in case truthy hop of
              None \<Rightarrow> keep
            | Some h \<Rightarrow> chain (sendEnvelopeOverTransport L T h e) (\<lambda>ok. if ok then ret () else keep))))))"

definition receiveAdvertisement :: "lib \<Rightarrow> RelayTransport \<Rightarrow> int \<Rightarrow> string \<Rightarrow> RoutingAdvertisement \<Rightarrow> unit relay" where
  "receiveAdvertisement L T nowMs from ad =
     chain (purgeStaleRoutingState nowMs) (\<lambda>_. chain (lift_res (verifyRoutingAdvertisement L nowMs ad)) (\<lambda>valid.
       if \<not> valid then ret ()
       else chain (look (\<lambda>s. (mget (authenticatedPeers s) from, seenRoutingAdvertisements s))) (\<lambda>(peer, seen).
         case peer of
           None \<Rightarrow> ret ()
         | Some p \<Rightarrow> chain (lift_res (u64le (adTimestamp ad))) (\<lambda>ts.
             let fingerprint = bytesToHex (sha256 L (concatBytes
                   ([adPublicKey ad, ts] @ reachableDestinations ad @ [adSignature ad])));
                 replayKey = from @ '':'' @ fingerprint
             in if mhas seen replayKey then ret ()
                else chain (change (\<lambda>s. s\<lparr>seenRoutingAdvertisements :=
                         bounded_set MAX_SEEN_ROUTING_ADS replayKey nowMs (seenRoutingAdvertisements s)\<rparr>)) (\<lambda>_.
                     chain (\<lambda>s. case learnFromAdvertisement L nowMs from ad (establishedAt p) (peerIdentityKey p) (routingTable s) of
                              Inl err \<Rightarrow> (Inl err, s) | Inr t \<Rightarrow> (Inr (), s\<lparr>routingTable := t\<rparr>)) (\<lambda>_.
                     each (attemptQueuedDelivery L T nowMs) (reachableDestinations ad)))))))"

end
