(* ===== verification/RelayInvariants.thy ===== *)
theory RelayInvariants
  imports Relay "HOL-Library.Sublist"
begin

text \<open>
  What the handlers of the relay node preserve. The locale \<open>handlers\<close> lists the elementary steps of the
  handlers and proves that a relation every step respects is respected by every handler. It is used
  for several relations: \<open>relay_ok L t s\<close> collects the invariants of the parts and the caps of the replay caches;
  \<open>stays_local\<close> says what a handler leaves alone: the identity, the set of authenticated peers, and the
  trust of every neighbour but the one the packet came from.
\<close>

section \<open>Steps and handlers\<close>

locale handlers = evolution R for R :: "RelayNode \<Rightarrow> RelayNode \<Rightarrow> bool" +
  fixes L :: lib and t :: int and source :: "string option"
  assumes step_purge: "evolves (purgeStaleRoutingState t)"
    and step_hop: "evolves (find_hop t hint)"
    and step_read: "evolves (on_queue (has t mid))" "evolves (on_queue (getByIds t ids))"
      "evolves (on_queue (getByDestination t hint))" "evolves (on_queue (getSummary t))"
    and step_store: "evolves (on_queue (store L t e src))"
    and step_acknowledge: "evolves (change (\<lambda>s. s\<lparr>queue := acknowledge mid (queue s)\<rparr>))"
    and step_draw: "evolves (draw L n)"
    and step_transmit: "evolves (transmit T m frame)"
    and step_record: "evolves (recordPendingAck t mid m hint)"
    and step_del_ack: "evolves (change (\<lambda>s. s\<lparr>pendingAcks := mdel k (pendingAcks s)\<rparr>))"
    and step_process: "truthy source = Some p \<Longrightarrow> evolves (processPendingAck L t e p)"
    and step_replay: "evolves (purgeStaleSyncReplayRecords t SYNC_REPLAY_TTL_MS)"
      "\<not> mhas (seenSyncPackets s) k \<Longrightarrow> R s (s\<lparr>seenSyncPackets := bounded_set MAX_SEEN_SYNC_PACKETS k t (seenSyncPackets s)\<rparr>)"
    and step_seen: "evolves (change (\<lambda>s. s\<lparr>seenBroadcasts := mset_at k t (seenBroadcasts s)\<rparr>))"
    and step_event: "evolves (change (\<lambda>s. s\<lparr>events := events s @ [v]\<rparr>))"
    and step_verify: "evolves (on_part limits (\<lambda>l. limits_update (\<lambda>_. l)) (verifyBroadcastMessage L t m'))"
    and step_create: "evolves (\<lambda>s. on_part_res limits (\<lambda>l. limits_update (\<lambda>_. l))
      (createBroadcastMessage L t (nodeIdentity s) content) s)"
    and step_advertised: "evolves (change (\<lambda>s. s\<lparr>seenRoutingAdvertisements :=
      bounded_set MAX_SEEN_ROUTING_ADS k t (seenRoutingAdvertisements s)\<rparr>))"
    and step_learn: "evolves (\<lambda>s. case learnFromAdvertisement L t n' ad ep pk (routingTable s) of
      Inl err \<Rightarrow> (Inl err, s) | Inr T' \<Rightarrow> (Inr (), s\<lparr>routingTable := T'\<rparr>))"
begin

lemma transmit_all_ok: "evolves (transmit_all T m fs b)"
proof (induction fs arbitrary: b)
  case (Cons f fs)
  then show ?case by (simp only: transmit_all.simps) (intro evolves_intros step_transmit)
qed (simp only: transmit_all.simps evolves_ret)

lemma send_ok: "evolves (sendEnvelopeOverTransport L T m e)"
  unfolding sendEnvelopeOverTransport_def Let_def
  by (intro evolves_intros step_transmit transmit_all_ok)

lemma forward_ok: "evolves (forwardOverTransport L T t e hop)"
  unfolding forwardOverTransport_def Let_def by (intro evolves_intros send_ok step_record step_del_ack)

lemma relay_store_ok: "evolves (relay_store L t e src)"
  unfolding relay_store_def by (intro evolves_intros step_store)

lemma attempt_ok: "evolves (attemptQueuedDelivery L T t hint)"
  unfolding attemptQueuedDelivery_def
  by (intro evolves_intros step_purge step_hop step_read forward_ok step_acknowledge)

lemma broadcast_ok: "evolves (broadcast L T t content u)"
  unfolding broadcast_def Let_def by (intro evolves_intros step_create step_draw send_ok)

lemma sendSync_ok: "evolves (sendSync L T t m x p)"
  unfolding sendSync_def by (intro evolves_intros step_draw send_ok)

lemma initiateSync_ok: "evolves (initiateSync L T t m)"
  unfolding initiateSync_def by (intro evolves_intros step_read sendSync_ok)

lemma sendEnvelope_ok: "evolves (sendEnvelope L T t e)"
  unfolding sendEnvelope_def by (intro evolves_intros step_purge step_hop relay_store_ok forward_ok)

lemma missing_ok: "evolves (missing_ids t ids)"
proof (induction ids)
  case (Cons i ids)
  then show ?case by (simp only: missing_ids.simps) (intro evolves_intros step_read)
qed (simp only: missing_ids.simps evolves_ret)

lemma transfer_loop_ok:
  assumes "\<And>e. evolves (recv e)"
  shows "evolves (transfer_loop L recv n vs)"
proof (induction vs arbitrary: n)
  case (Cons v vs)
  then show ?case by (simp only: transfer_loop.simps) (intro evolves_intros assms)
qed (simp only: transfer_loop.simps evolves_ret)

lemma handleSync_ok:
  assumes "\<And>e. evolves (recv e (truthy f))"
  shows "evolves (handleSyncPacket L T t recv e f)"
proof (cases "truthy f")
  case None
  then show ?thesis by (simp add: handleSyncPacket_def evolves_ret)
next
  case (Some p)
  have transfer: "evolves (sync_transfer L recv e p v)" for v
    unfolding sync_transfer_def by (intro evolves_intros transfer_loop_ok assms [unfolded Some])
  have others: "evolves (sync_summary L T t e p x v)" "evolves (sync_request L T t e p x v)" for x v
    unfolding sync_summary_def sync_request_def Let_def by (intro evolves_intros missing_ok sendSync_ok step_read)+
  have "evolves (chain (lift_res (js_index tuple 0)) (\<lambda>kind. chain (lift_res (js_index tuple 1)) (\<lambda>v.
      if strict_number kind = Num 0 then sync_summary L T t e p x v
      else if strict_number kind = Num 1 then sync_request L T t e p x v else sync_transfer L recv e p v)))" for tuple x
    by (intro evolves_intros transfer others)
  then have recorded: "evolves (chain (look (\<lambda>s. (peerAuthorized p key s, seenSyncPackets s))) (\<lambda>(authorized, seen).
      if \<not> authorized then ret (Dropped ''invalid encrypted sync authentication'')
      else if mhas seen k then ret (Dropped ''sync packet replayed'')
      else chain (change (\<lambda>s. s\<lparr>seenSyncPackets := bounded_set MAX_SEEN_SYNC_PACKETS k t (seenSyncPackets s)\<rparr>))
        (\<lambda>_. chain (lift_res (js_index tuple 0)) (\<lambda>kind. chain (lift_res (js_index tuple 1)) (\<lambda>v.
          if strict_number kind = Num 0 then sync_summary L T t e p x v
          else if strict_number kind = Num 1 then sync_request L T t e p x v else sync_transfer L recv e p v)))))" for key k tuple x
    unfolding evolves_def by (auto intro: R_refl R_trans [OF step_replay(2)])
  show ?thesis
    unfolding handleSyncPacket_def Let_def Some option.case
    by (rule evolves_chain [OF evolves_look], rule evolves_option [OF evolves_ret], rule evolves_chain [OF step_replay(1)],
        rule evolves_option [OF evolves_ret], rule evolves_prod, rule recorded)
qed

lemma handleBroadcast_ok: "evolves (handleBroadcastPacket L T t e f)"
  unfolding handleBroadcastPacket_def Let_def
  by (intro evolves_intros step_seen step_event step_verify send_ok)

lemma ack_gate_ok:
  assumes "truthy f = truthy source \<or> truthy f = None"
  shows "evolves (ack_gate L t e f)"
proof (cases "truthy f")
  case None
  then show ?thesis by (simp add: ack_gate_def evolves_ret)
next
  case (Some p)
  then have "evolves (processPendingAck L t e p)" using assms step_process by auto
  then show ?thesis unfolding ack_gate_def Some option.case by (intro evolves_intros)
qed

lemma deliver_ok: "evolves (deliver_local L e)"
  unfolding deliver_local_def by (intro evolves_intros step_event)

lemma relay_on_ok: "evolves (relay_on L T t e f)"
  unfolding relay_on_def Let_def by (intro evolves_intros step_hop relay_store_ok forward_ok)

lemma truthy_truthy [simp]: "truthy (truthy f) = truthy f"
  by (cases f) (auto simp: truthy_def split: list.splits)

lemma receive_ok: "truthy f = truthy source \<or> truthy f = None \<Longrightarrow> evolves (receiveEnvelope L T t depth e f)"
proof (induction depth arbitrary: e f)
  case 0
  then show ?case by (simp only: receiveEnvelope.simps evolves_throw)
next
  case (Suc d)
  have "evolves (handleSyncPacket L T t (receiveEnvelope L T t d) e f)"
    using Suc by (intro handleSync_ok Suc.IH) simp
  moreover note ack_gate_ok [OF Suc.prems]
  ultimately show ?case
    unfolding receiveEnvelope.simps receive_body_def
    by (intro evolves_intros step_purge handleBroadcast_ok deliver_ok relay_on_ok)
qed

lemma sendAck_ok: "evolves (sendAck L T t depth hint acked)"
  unfolding sendAck_def Let_def
  by (intro evolves_intros step_purge step_draw receive_ok step_hop relay_store_ok send_ok) (simp add: truthy_def)

lemma receiveAdvertisement_ok: "evolves (receiveAdvertisement L T t n ad)"
  unfolding receiveAdvertisement_def Let_def
  by (intro evolves_intros step_purge step_advertised step_learn attempt_ok)

lemma frame_ok:
  assumes "\<And>s body p. R s (s\<lparr>reassembler := snd (addFragment L t body p (reassembler s))\<rparr>)" "source = Some n"
  shows "R s (receiveFrame L T t depth n frame s)"
proof -
  have recv: "R s' (snd (receiveEnvelope L T t depth e (Some n) s'))" for e s'
    using receive_ok [of "Some n"] assms(2) unfolding evolves_def by blast
  show ?thesis
  proof (cases frame)
    case (Cons kind body)
    show ?thesis
    proof (cases "mget (authenticatedPeers s) n")
      case None
      then show ?thesis using recv Cons R_refl by (auto simp: receiveFrame_def split: sum.splits)
    next
      case (Some peer)
      obtain r Q where a: "addFragment L t body (n @ '':'' @ int_string (establishedAt peer)) (reassembler s) = (r, Q)"
        by (cases "addFragment L t body (n @ '':'' @ int_string (establishedAt peer)) (reassembler s)")
      have "R s (s\<lparr>reassembler := Q\<rparr>)" using assms(1) [of s body "n @ '':'' @ int_string (establishedAt peer)"] a by simp
      moreover from this have "R s (snd (receiveEnvelope L T t depth e (Some n) (s\<lparr>reassembler := Q\<rparr>)))" for e
        using recv R_trans by blast
      ultimately show ?thesis using recv Cons Some a R_refl by (auto simp: receiveFrame_def split: sum.splits option.splits)
    qed
  qed (simp add: receiveFrame_def R_refl)
qed

end

section \<open>The invariant of the node\<close>

definition relay_ok :: "lib \<Rightarrow> int \<Rightarrow> RelayNode \<Rightarrow> bool" where
  "relay_ok L t s \<longleftrightarrow> table_ok L (routingTable s) \<and>
     queue_ok L t (queue s) \<and> maxTotal (queue s) = 200 \<and> maxPerNeighbor (queue s) = 50 \<and>
     books (reassembler s) \<and> all_incomplete (reassembler s) \<and> windows_ok (limits s) \<and>
     wf_map (pendingAcks s) \<and> length (pendingAcks s) \<le> 500 \<and>
     wf_map (seenSyncPackets s) \<and> length (seenSyncPackets s) \<le> 2048 \<and>
     wf_map (seenRoutingAdvertisements s) \<and> length (seenRoutingAdvertisements s) \<le> 2048 \<and>
     wf_map (neighborTrust s) \<and> (\<forall>(n, x) \<in> set (neighborTrust s). 0 < x)"

lemma relay_ok_new: "relay_ok L t (new_relay L idn)"
  by (simp add: relay_ok_def new_relay_def table_ok_Nil queue_ok_new books_new windows_ok_def)
    (simp add: new_queue_def)

lemma relay_ok_mono: "relay_ok L t s \<Longrightarrow> t \<le> t' \<Longrightarrow> relay_ok L t' s"
  using queue_ok_mono [of L t "queue s" t'] by (simp add: relay_ok_def)

lemma relay_ok_irrelevant [simp]:
  "relay_ok L t (s\<lparr>draws := i\<rparr>) = relay_ok L t s" "relay_ok L t (s\<lparr>sent := x\<rparr>) = relay_ok L t s"
  "relay_ok L t (s\<lparr>events := v\<rparr>) = relay_ok L t s" "relay_ok L t (s\<lparr>seenBroadcasts := b\<rparr>) = relay_ok L t s"
  "relay_ok L t (s\<lparr>authenticatedPeers := p\<rparr>) = relay_ok L t s"
  by (simp_all add: relay_ok_def)

interpretation expiring_acks: expiring_store pendingAcks expire_ack "relay_ok L t" for L t
proof unfold_locales
  fix s k v assume ok: "relay_ok L t s"
  then show "wf_map (pendingAcks s)" by (simp add: relay_ok_def)
  have "length (mdel k (pendingAcks s)) \<le> 500"
    using ok length_del_le [of k "pendingAcks s"] by (simp add: relay_ok_def)
  then show "relay_ok L t (expire_ack k v s)"
    using ok by (simp add: relay_ok_def expire_ack_def table_ok_demote)
qed (simp add: expire_ack_def)

interpretation keep: evolution "\<lambda>s s'. relay_ok L t s \<longrightarrow> relay_ok L t s'" for L t
  by unfold_locales auto

lemma keep_change: "(\<And>s. relay_ok L t s \<Longrightarrow> relay_ok L t (f s)) \<Longrightarrow> keep.evolves L t (change f)"
  by (rule keep.evolves_change) blast

lemma keep_table: "(\<And>T. table_ok L T \<Longrightarrow> table_ok L (snd (f T))) \<Longrightarrow> keep.evolves L t (on_table f)"
  by (rule keep.evolves_on_part) (simp add: relay_ok_def)

lemma keep_queue:
  "(\<And>q. queue_ok L t q \<Longrightarrow> queue_ok L t (snd (f q)) \<and> maxTotal (snd (f q)) = maxTotal q \<and> maxPerNeighbor (snd (f q)) = maxPerNeighbor q)
    \<Longrightarrow> keep.evolves L t (on_queue f)"
  by (rule keep.evolves_on_part) (simp add: relay_ok_def)

lemma keep_purge_state: "keep.evolves L t (purgeStaleRoutingState nowMs)"
proof -
  have "keep.evolves L t (expirePendingAcks nowMs)"
    using expiring_acks.sweep_inv unfolding keep.evolves_def expirePendingAcks_def by (simp add: case_prod_beta)
  then show ?thesis
    unfolding purgeStaleRoutingState_def by (intro keep.evolves_intros keep_table table_ok_purge)
qed

lemma lookup_table: "snd (lookup nowMs hint trust peers T) = snd (purgeExpired nowMs T)"
  by (simp add: lookup_def Let_def)

lemma keep_find_hop: "keep.evolves L t (find_hop nowMs hint)"
  unfolding keep.evolves_def find_hop_def on_part_res_def
  by (simp add: case_prod_beta lookup_table relay_ok_def table_ok_purge)

lemma keep_store: "keep.evolves L t (on_queue (store L t e src))"
proof (rule keep_queue)
  fix q assume ok: "queue_ok L t q"
  have "maxTotal (snd (store L t e src q)) = maxTotal q \<and> maxPerNeighbor (snd (store L t e src q)) = maxPerNeighbor q"
    by (auto simp: store_def Let_def)
  then show "queue_ok L t (snd (store L t e src q)) \<and> maxTotal (snd (store L t e src q)) = maxTotal q \<and>
      maxPerNeighbor (snd (store L t e src q)) = maxPerNeighbor q"
    using queue_ok_store [OF ok order_refl] by blast
qed

lemma purge_seen_ok: "wf_map m \<Longrightarrow> wf_map (purge_seen t a m)" "length m \<le> n \<Longrightarrow> length (purge_seen t a m) \<le> n"
  unfolding purge_seen_def by (simp, rule order_trans [OF length_filter_le])

lemma keep_purge_seen:
  "keep.evolves L t (purgeStaleBroadcastRecords nowMs a)" "keep.evolves L t (purgeStaleRoutingAdvertisements nowMs a)"
  "keep.evolves L t (purgeStaleSyncReplayRecords nowMs a)"
  unfolding keep.evolves_def purgeStaleBroadcastRecords_def purgeStaleRoutingAdvertisements_def
    purgeStaleSyncReplayRecords_def by (simp_all add: relay_ok_def purge_seen_ok Let_def)

lemma creation_windows_ok:
  assumes "windows_ok l"
  shows "windows_ok (snd (createBroadcastMessage L nowMs idn content l))"
proof -
  have p: "windows_ok (purgeRateWindows nowMs l)"
    using assms by (auto simp: windows_ok_def purgeRateWindows_def purge_windows_def)
  then show ?thesis
    using assms by (auto simp: createBroadcastMessage_def windows_ok_def Let_def case_prod_beta consume_wf)
qed

lemma trust_positive:
  "\<forall>(n, x) \<in> set m. 0 < x \<Longrightarrow> 0 \<le> mget_or m k (0 :: int)"
  by (auto simp: mget_or_def dest!: map_of_SomeD split: option.splits)

lemma keep_process: "keep.evolves L t (processPendingAck L nowMs e from)"
proof -
  have mark: "keep.evolves L t (\<lambda>s. case markValidated L nowMs h k n pk ep (routingTable s) of
      Inl err \<Rightarrow> (Inl err, s) | Inr T \<Rightarrow> (Inr (), s\<lparr>routingTable := T\<rparr>))" for h k n pk ep
    unfolding keep.evolves_def by (auto simp: relay_ok_def table_ok_mark split: sum.splits)
  have trust: "keep.evolves L t (change (\<lambda>s. s\<lparr>neighborTrust := mset_at n (mget_or (neighborTrust s) n 0 + 1) (neighborTrust s)\<rparr>))" for n
  proof (rule keep_change)
    fix s assume ok: "relay_ok L t s"
    then have "0 < mget_or (neighborTrust s) n 0 + 1" using trust_positive [of "neighborTrust s" n] by (simp add: relay_ok_def)
    then have "\<forall>(m, x) \<in> set (mset_at n (mget_or (neighborTrust s) n 0 + 1) (neighborTrust s)). 0 < x"
      using ok set_mset_at_subset [of n "mget_or (neighborTrust s) n 0 + 1" "neighborTrust s"] unfolding relay_ok_def by auto
    then show "relay_ok L t (s\<lparr>neighborTrust := mset_at n (mget_or (neighborTrust s) n 0 + 1) (neighborTrust s)\<rparr>)"
      using ok by (simp add: relay_ok_def)
  qed
  have del: "keep.evolves L t (change (\<lambda>s. s\<lparr>pendingAcks := mdel k (pendingAcks s)\<rparr>))" for k
    by (rule keep_change) (auto simp: relay_ok_def intro: order_trans [OF length_del_le])
  show ?thesis
    unfolding processPendingAck_def Let_def by (intro keep.evolves_intros mark trust del)
qed

interpretation inv: handlers "\<lambda>s s'. relay_ok L t s \<longrightarrow> relay_ok L t s'" L t source for L t source
proof unfold_locales
  show "keep.evolves L t (purgeStaleRoutingState t)" by (rule keep_purge_state)
  show "keep.evolves L t (find_hop t hint)" for hint by (rule keep_find_hop)
  show "keep.evolves L t (on_queue (has t mid))" "keep.evolves L t (on_queue (getByIds t ids))"
    "keep.evolves L t (on_queue (getByDestination t hint))" "keep.evolves L t (on_queue (getSummary t))" for mid ids hint
    by (rule keep_queue; simp add: has_def getByIds_def getByDestination_def getSummary_def Let_def queue_ok_purge)+
  show "keep.evolves L t (on_queue (store L t e src))" for e src by (rule keep_store)
  show "keep.evolves L t (change (\<lambda>s. s\<lparr>queue := acknowledge mid (queue s)\<rparr>))" for mid
    by (rule keep_change) (simp add: relay_ok_def acknowledge_def queue_ok_remove)
  show "keep.evolves L t (draw L n)" for n unfolding keep.evolves_def by (simp add: draw_def)
  show "keep.evolves L t (transmit T m frame)" for T m frame unfolding keep.evolves_def by (simp add: transmit_def)
  show "keep.evolves L t (recordPendingAck t mid m hint)" for mid m hint
    unfolding recordPendingAck_def
    by (rule keep_change) (auto simp: relay_ok_def MAX_PENDING_ACKS_def intro: bounded_set_length)
  show "keep.evolves L t (change (\<lambda>s. s\<lparr>pendingAcks := mdel k (pendingAcks s)\<rparr>))" for k
    by (rule keep_change) (auto simp: relay_ok_def intro: order_trans [OF length_del_le])
  show "keep.evolves L t (processPendingAck L t e p)" for e p by (rule keep_process)
  show "keep.evolves L t (purgeStaleSyncReplayRecords t SYNC_REPLAY_TTL_MS)" by (rule keep_purge_seen)
  show "relay_ok L t s \<longrightarrow> relay_ok L t (s\<lparr>seenSyncPackets := bounded_set MAX_SEEN_SYNC_PACKETS k t (seenSyncPackets s)\<rparr>)" for s k
    by (auto simp: relay_ok_def MAX_SEEN_SYNC_PACKETS_def intro: bounded_set_length)
  show "keep.evolves L t (change (\<lambda>s. s\<lparr>seenBroadcasts := mset_at k t (seenBroadcasts s)\<rparr>))" for k
    by (rule keep_change) simp
  show "keep.evolves L t (change (\<lambda>s. s\<lparr>events := events s @ [v]\<rparr>))" for v by (rule keep_change) simp
  show "keep.evolves L t (on_part limits (\<lambda>l. limits_update (\<lambda>_. l)) (verifyBroadcastMessage L t m))" for m
    by (rule keep.evolves_on_part) (simp add: relay_ok_def verify_windows_ok)
  show "keep.evolves L t (\<lambda>s. on_part_res limits (\<lambda>l. limits_update (\<lambda>_. l))
      (createBroadcastMessage L t (nodeIdentity s) content) s)" for content
    unfolding keep.evolves_def on_part_res_def by (simp add: case_prod_beta relay_ok_def creation_windows_ok)
  show "keep.evolves L t (change (\<lambda>s. s\<lparr>seenRoutingAdvertisements :=
      bounded_set MAX_SEEN_ROUTING_ADS k t (seenRoutingAdvertisements s)\<rparr>))" for k
    by (rule keep_change) (auto simp: relay_ok_def MAX_SEEN_ROUTING_ADS_def intro: bounded_set_length)
  show "keep.evolves L t (\<lambda>s. case learnFromAdvertisement L t n ad ep pk (routingTable s) of
      Inl err \<Rightarrow> (Inl err, s) | Inr T \<Rightarrow> (Inr (), s\<lparr>routingTable := T\<rparr>))" for n ad ep pk
    unfolding keep.evolves_def by (auto simp: relay_ok_def table_ok_learn split: sum.splits)
qed

section \<open>What a handler leaves alone\<close>

definition stays_local :: "string option \<Rightarrow> RelayNode \<Rightarrow> RelayNode \<Rightarrow> bool" where
  "stays_local source s s' \<longleftrightarrow> nodeIdentity s' = nodeIdentity s \<and> ownDestinationHint s' = ownDestinationHint s \<and>
     authenticatedPeers s' = authenticatedPeers s \<and>
     (\<forall>m. Some m \<noteq> truthy source \<longrightarrow> mget (neighborTrust s') m = mget (neighborTrust s) m) \<and>
     (\<forall>m. neighborTrustScore m s \<le> neighborTrustScore m s') \<and>
     prefix (sent s) (sent s') \<and> prefix (events s) (events s') \<and> draws s \<le> draws s'"

lemma stays_localI:
  assumes "nodeIdentity s' = nodeIdentity s" "ownDestinationHint s' = ownDestinationHint s"
    "authenticatedPeers s' = authenticatedPeers s" "neighborTrust s' = neighborTrust s"
    "prefix (sent s) (sent s')" "prefix (events s) (events s')" "draws s \<le> draws s'"
  shows "stays_local source s s'"
  using assms by (simp add: stays_local_def neighborTrustScore_def)

interpretation still: evolution "stays_local source" for source
  by unfold_locales (auto simp: stays_local_def intro: prefix_order.trans order_trans)

lemma expire_ack_local: "stays_local source s (expire_ack k v s)"
  by (rule stays_localI) (simp_all add: expire_ack_def)

lemma still_purge_state: "still.evolves source (purgeStaleRoutingState nowMs)"
proof -
  have "stays_local source s (snd (foldl (\<lambda>(purged, s) (k, v). if stale k v then (purged + 1, expire_ack k v s) else (purged, s))
      (n, s0) m))" if "stays_local source s s0" for s s0 stale m and n :: nat
    using that
  proof (induction m arbitrary: s0 n)
    case (Cons x m)
    then show ?case using still.R_trans [OF _ expire_ack_local] by (cases x) auto
  qed simp
  then have "still.evolves source (expirePendingAcks nowMs)"
    using still.R_refl unfolding still.evolves_def expirePendingAcks_def sweep_def by (simp add: case_prod_beta)
  then show ?thesis
    unfolding purgeStaleRoutingState_def
    by (intro still.evolves_intros still.evolves_on_part) (simp_all add: stays_localI)
qed

lemma still_process:
  assumes "truthy source = Some from"
  shows "still.evolves source (processPendingAck L nowMs e from)"
proof -
  have mark: "still.evolves source (\<lambda>s. case markValidated L nowMs h k n pk ep (routingTable s) of
      Inl err \<Rightarrow> (Inl err, s) | Inr T \<Rightarrow> (Inr (), s\<lparr>routingTable := T\<rparr>))" for h k n pk ep
    unfolding still.evolves_def by (auto intro: stays_localI split: sum.splits)
  have trust: "still.evolves source (change (\<lambda>s. s\<lparr>neighborTrust := mset_at from (mget_or (neighborTrust s) from 0 + 1) (neighborTrust s)\<rparr>))"
    using assms by (intro still.evolves_change) (simp add: stays_local_def neighborTrustScore_def)
  have del: "still.evolves source (change (\<lambda>s. s\<lparr>pendingAcks := mdel k (pendingAcks s)\<rparr>))" for k
    by (intro still.evolves_change stays_localI) simp_all
  have step: "still.evolves source (if ackNeighborId p \<noteq> from then ret False
     else if \<not> bytesEqual (ackDestinationHint p) (signerDestinationHint ack) then ret False
     else chain (look (\<lambda>s. mget (authenticatedPeers s) from)) (\<lambda>peer. case peer of None \<Rightarrow> ret False | Some a \<Rightarrow>
       chain (\<lambda>s. case markValidated L nowMs (ackDestinationHint p) (signerPublicKey ack) (ackNeighborId p)
                (peerIdentityKey a) (establishedAt a) (routingTable s) of
              Inl err \<Rightarrow> (Inl err, s) | Inr t \<Rightarrow> (Inr (), s\<lparr>routingTable := t\<rparr>))
         (\<lambda>_. chain (change (\<lambda>s. s\<lparr>neighborTrust := mset_at (ackNeighborId p)
                 (mget_or (neighborTrust s) (ackNeighborId p) 0 + 1) (neighborTrust s)\<rparr>))
         (\<lambda>_. chain (change (\<lambda>s. s\<lparr>pendingAcks := mdel k (pendingAcks s)\<rparr>)) (\<lambda>_. ret True)))))" for p ack k
  proof (cases "ackNeighborId p = from")
    case True
    then show ?thesis by (simp only: True not_True_eq_False if_False) (intro still.evolves_intros mark trust del)
  qed (simp add: still.evolves_ret)
  show ?thesis
    unfolding processPendingAck_def Let_def
    by (rule still.evolves_option, rule still.evolves_ret, rule still.evolves_chain, rule still.evolves_look,
        rule still.evolves_option, rule still.evolves_ret, rule step)
qed

interpretation loc: handlers "stays_local source" L t source for L t source
proof unfold_locales
  show "still.evolves source (purgeStaleRoutingState t)" by (rule still_purge_state)
  show "still.evolves source (find_hop t hint)" for hint
    unfolding still.evolves_def find_hop_def on_part_res_def by (simp add: case_prod_beta stays_localI)
  show "still.evolves source (on_queue (has t mid))" "still.evolves source (on_queue (getByIds t ids))"
    "still.evolves source (on_queue (getByDestination t hint))" "still.evolves source (on_queue (getSummary t))"
    "still.evolves source (on_queue (store L t e src))" for mid ids hint e src
    by (rule still.evolves_on_part; simp add: stays_localI)+
  show "still.evolves source (change (\<lambda>s. s\<lparr>queue := acknowledge mid (queue s)\<rparr>))" for mid
    by (intro still.evolves_change stays_localI) simp_all
  show "still.evolves source (draw L n)" for n
    unfolding still.evolves_def draw_def by (auto intro!: stays_localI)
  show "still.evolves source (transmit T m frame)" for T m frame
    unfolding still.evolves_def transmit_def by (auto intro!: stays_localI)
  show "still.evolves source (recordPendingAck t mid m hint)" for mid m hint
    unfolding recordPendingAck_def by (intro still.evolves_change stays_localI) simp_all
  show "still.evolves source (change (\<lambda>s. s\<lparr>pendingAcks := mdel k (pendingAcks s)\<rparr>))" for k
    by (intro still.evolves_change stays_localI) simp_all
  show "still.evolves source (processPendingAck L t e p)" if "truthy source = Some p" for e p
    using that by (rule still_process)
  show "still.evolves source (purgeStaleSyncReplayRecords t SYNC_REPLAY_TTL_MS)"
    unfolding still.evolves_def purgeStaleSyncReplayRecords_def by (simp add: Let_def stays_localI)
  show "stays_local source s (s\<lparr>seenSyncPackets := bounded_set MAX_SEEN_SYNC_PACKETS k t (seenSyncPackets s)\<rparr>)" for s k
    by (intro stays_localI) simp_all
  show "still.evolves source (change (\<lambda>s. s\<lparr>seenBroadcasts := mset_at k t (seenBroadcasts s)\<rparr>))" for k
    by (intro still.evolves_change stays_localI) simp_all
  show "still.evolves source (change (\<lambda>s. s\<lparr>events := events s @ [v]\<rparr>))" for v
    by (intro still.evolves_change stays_localI) simp_all
  show "still.evolves source (on_part limits (\<lambda>l. limits_update (\<lambda>_. l)) (verifyBroadcastMessage L t m))" for m
    by (rule still.evolves_on_part) (simp add: stays_localI)
  show "still.evolves source (\<lambda>s. on_part_res limits (\<lambda>l. limits_update (\<lambda>_. l))
      (createBroadcastMessage L t (nodeIdentity s) content) s)" for content
    unfolding still.evolves_def on_part_res_def by (simp add: case_prod_beta stays_localI)
  show "still.evolves source (change (\<lambda>s. s\<lparr>seenRoutingAdvertisements :=
      bounded_set MAX_SEEN_ROUTING_ADS k t (seenRoutingAdvertisements s)\<rparr>))" for k
    by (intro still.evolves_change stays_localI) simp_all
  show "still.evolves source (\<lambda>s. case learnFromAdvertisement L t n ad ep pk (routingTable s) of
      Inl err \<Rightarrow> (Inl err, s) | Inr T \<Rightarrow> (Inr (), s\<lparr>routingTable := T\<rparr>))" for n ad ep pk
    unfolding still.evolves_def by (auto intro: stays_localI split: sum.splits)
qed

section \<open>Fields the elementary steps leave alone\<close>

text \<open>
  A field that is neither the routing table, the queue, the limits nor one of the other fields most steps write.
  What is left to the client of \<open>handlers\<close> are the two steps that write the records of sync packets.
\<close>

locale relay_field =
  fixes get :: "RelayNode \<Rightarrow> 'p"
  assumes get_simps [simp]: "get (s\<lparr>routingTable := a\<rparr>) = get s" "get (s\<lparr>queue := b\<rparr>) = get s" "get (s\<lparr>limits := c\<rparr>) = get s"
    "get (s\<lparr>draws := d\<rparr>) = get s" "get (s\<lparr>sent := e\<rparr>) = get s" "get (s\<lparr>events := f\<rparr>) = get s" "get (s\<lparr>seenBroadcasts := g\<rparr>) = get s"
    "get (s\<lparr>seenRoutingAdvertisements := h\<rparr>) = get s" "get (s\<lparr>neighborTrust := i\<rparr>) = get s" "get (s\<lparr>pendingAcks := j\<rparr>) = get s"

sublocale relay_field \<subseteq> kept: evolution "\<lambda>s s'. get s' = get s"
  by unfold_locales simp_all

context relay_field
begin

lemma kept_expire: "kept.evolves (expirePendingAcks t)"
proof -
  have "get (snd (foldl (\<lambda>(purged, s) (k, v). if stale k v then (purged + 1, expire_ack k v s) else (purged, s)) (n, s) m)) = get s"
    for s stale m and n :: nat
    by (induction m arbitrary: s n) (auto simp: expire_ack_def split: prod.splits)
  then show ?thesis unfolding kept.evolves_def expirePendingAcks_def sweep_def by (simp add: case_prod_beta)
qed

lemma kept_purge: "kept.evolves (purgeStaleRoutingState t)"
  unfolding purgeStaleRoutingState_def by (intro kept.evolves_intros kept_expire kept.evolves_on_part) simp

lemma kept_parts: "kept.evolves (on_queue g)" "kept.evolves (on_part limits (\<lambda>l. limits_update (\<lambda>_. l)) k)" "kept.evolves (draw L n)"
    "kept.evolves (transmit T m frame)" "kept.evolves (find_hop t hint)" "kept.evolves (recordPendingAck t mid m hint)"
  unfolding kept.evolves_def
  by (simp_all add: on_part_def case_prod_beta draw_def transmit_def find_hop_def on_part_res_def recordPendingAck_def)

lemma kept_process: "kept.evolves (processPendingAck L t e p)"
proof -
  have mark: "kept.evolves (\<lambda>s. case markValidated L t h k n pk ep (routingTable s) of
      Inl err \<Rightarrow> (Inl err, s) | Inr T \<Rightarrow> (Inr (), s\<lparr>routingTable := T\<rparr>))" for h k n pk ep
    unfolding kept.evolves_def by (auto split: sum.splits)
  have c: "kept.evolves (change (\<lambda>s. s\<lparr>neighborTrust := f s\<rparr>))" "kept.evolves (change (\<lambda>s. s\<lparr>pendingAcks := mdel k (pendingAcks s)\<rparr>))" for f k
    by (rule kept.evolves_change; simp)+
  show ?thesis unfolding processPendingAck_def Let_def by (intro kept.evolves_intros mark c)
qed

lemma kept_changes: "kept.evolves (change (\<lambda>s. s\<lparr>queue := acknowledge mid (queue s)\<rparr>))"
    "kept.evolves (change (\<lambda>s. s\<lparr>pendingAcks := mdel k (pendingAcks s)\<rparr>))" "kept.evolves (change (\<lambda>s. s\<lparr>seenBroadcasts := mset_at k t (seenBroadcasts s)\<rparr>))"
    "kept.evolves (change (\<lambda>s. s\<lparr>events := events s @ [v]\<rparr>))"
    "kept.evolves (change (\<lambda>s. s\<lparr>seenRoutingAdvertisements := bounded_set c k t (seenRoutingAdvertisements s)\<rparr>))"
  by (rule kept.evolves_change; simp)+

lemma kept_create: "kept.evolves (\<lambda>s. on_part_res limits (\<lambda>l. limits_update (\<lambda>_. l)) (createBroadcastMessage L t (nodeIdentity s) content) s)"
  unfolding kept.evolves_def on_part_res_def by (simp add: case_prod_beta)

lemma kept_learn: "kept.evolves (\<lambda>s. case learnFromAdvertisement L t n ad ep pk (routingTable s) of
      Inl err \<Rightarrow> (Inl err, s) | Inr T \<Rightarrow> (Inr (), s\<lparr>routingTable := T\<rparr>))"
  unfolding kept.evolves_def by (auto split: sum.splits)

lemmas kept_steps = kept_purge kept_parts kept_process kept_changes kept_create kept_learn

end

interpretation sync_records: relay_field seenSyncPackets
  by unfold_locales simp_all

interpretation fragments_held: relay_field reassembler
  by unfold_locales simp_all

end
