(* ===== verification/RelayNodes.thy ===== *)
theory RelayNodes
  imports RelayInvariants
begin

text \<open>
  Properties of the relay node: its bounds under any history of operations, what makes a neighbour
  trusted, local delivery and forwarding, the transparency of a link with a small unit, the handling of
  broadcasts and of replayed sync packets, and the stack depth its recursion needs.
\<close>

section \<open>Histories of a node\<close>

text \<open>
  One operation of a node at a time: a frame arrives, a method is called. The public method that forgets sync
  packets takes the age at which it does; the handlers call it with ten minutes.
\<close>

inductive relay_step :: "lib \<Rightarrow> int \<Rightarrow> RelayNode \<Rightarrow> RelayNode \<Rightarrow> bool" for L t s where
  step_frame: "relay_step L t s (receiveFrame L T t depth n f s)"
| step_send: "relay_step L t s (snd (sendEnvelope L T t e s))"
| step_send_ack: "relay_step L t s (snd (sendAck L T t depth hint mid s))"
| step_broadcast: "relay_step L t s (snd (broadcast L T t content u s))"
| step_sync: "relay_step L t s (snd (initiateSync L T t n s))"
| step_advertisement: "relay_step L t s (snd (receiveAdvertisement L T t n ad s))"
| step_register: "0 \<le> t \<Longrightarrow> t < 2 ^ 53 \<Longrightarrow> n \<noteq> [] \<Longrightarrow> relay_step L t s (snd (registerAuthenticatedPeer t n key session s))"
| step_unregister: "relay_step L t s (snd (unregisterAuthenticatedPeer n s))"
| step_purge_routes: "relay_step L t s (snd (purgeStaleRoutingState t s))"
| step_purge_fragments: "relay_step L t s (snd (purgeStaleFragments t age s))"
| step_purge_broadcasts: "relay_step L t s (snd (purgeStaleBroadcastRecords t age s))"
| step_purge_advertisements: "relay_step L t s (snd (purgeStaleRoutingAdvertisements t age s))"
| step_purge_replays: "SYNC_REPLAY_TTL_MS \<le> age \<Longrightarrow> relay_step L t s (snd (purgeStaleSyncReplayRecords t age s))"

inductive relay_history :: "lib \<Rightarrow> int \<Rightarrow> RelayNode \<Rightarrow> bool" for L where
  start: "relay_history L t (new_relay L idn)"
| later: "relay_history L t s \<Longrightarrow> t \<le> t' \<Longrightarrow> relay_step L t' s s' \<Longrightarrow> relay_history L t' s'"
| purge_replays: "relay_history L t s \<Longrightarrow> t \<le> t' \<Longrightarrow> relay_history L t' (snd (purgeStaleSyncReplayRecords t' age s))"

lemmas frame = later [OF _ _ step_frame]
lemmas send = later [OF _ _ step_send]
lemmas advertisement = later [OF _ _ step_advertisement]
lemmas register = later [OF _ _ step_register]

lemma keep_snd: "keep.evolves L t m \<Longrightarrow> relay_ok L t s \<Longrightarrow> relay_ok L t (snd (m s))"
  unfolding keep.evolves_def by blast

lemma still_snd: "still.evolves source m \<Longrightarrow> stays_local source s (snd (m s))"
  unfolding still.evolves_def by blast

lemma relay_ok_frame: "relay_ok L t s \<Longrightarrow> relay_ok L t (receiveFrame L T t depth n f s)"
  using inv.frame_ok [of L t "Some n" n s T depth f] books_addFragment by (simp add: relay_ok_def)

lemma keep_fragments: "keep.evolves L t (purgeStaleFragments nowMs a)"
  unfolding purgeStaleFragments_def
  by (rule keep.evolves_on_part) (simp add: relay_ok_def books_purge incomplete_purge)

lemma keep_register: "keep.evolves L t (registerAuthenticatedPeer nowMs n k session)"
  unfolding registerAuthenticatedPeer_def by (intro keep.evolves_intros keep_change) simp

lemma keep_unregister: "keep.evolves L t (unregisterAuthenticatedPeer n)"
  unfolding unregisterAuthenticatedPeer_def by (rule keep_change) simp

lemma relay_step_ok: "relay_step L t s s' \<Longrightarrow> relay_ok L t s \<Longrightarrow> relay_ok L t s'"
proof (induction rule: relay_step.induct)
  case (step_frame T depth n f)
  then show ?case by (rule relay_ok_frame)
qed (erule keep_snd [rotated]; rule inv.sendEnvelope_ok inv.sendAck_ok inv.broadcast_ok inv.initiateSync_ok inv.receiveAdvertisement_ok
    keep_register keep_unregister keep_purge_state keep_fragments keep_purge_seen)+

lemma relay_history_ok: "relay_history L t s \<Longrightarrow> relay_ok L t s"
proof (induction rule: relay_history.induct)
  case (start t idn)
  then show ?case by (rule relay_ok_new)
next
  case (later t s t' s')
  from later.hyps(3) relay_ok_mono [OF later.IH later.hyps(2)] show ?case by (rule relay_step_ok)
next
  case (purge_replays t s t' age)
  from relay_ok_mono [OF purge_replays.IH purge_replays.hyps(2)] show ?case by (rule keep_snd [OF keep_purge_seen(3)])
qed

lemma frame_local: "stays_local (Some n) s (receiveFrame L T t depth n f s)"
  by (rule loc.frame_ok) (auto intro: stays_localI)

lemma stays_local_peers: "stays_local source s s' \<Longrightarrow> authenticatedPeers s' = authenticatedPeers s"
  by (simp add: stays_local_def)

lemma register_peers:
  assumes "peers_ok (authenticatedPeers s)" "0 \<le> t" "t < 2 ^ 53" "n \<noteq> []"
  shows "peers_ok (authenticatedPeers (snd (registerAuthenticatedPeer t n key session s)))"
proof -
  let ?p = "\<lparr>peerIdentityKey = key, establishedAt = t, peerSession = session\<rparr>"
  have "authenticatedPeers (snd (registerAuthenticatedPeer t n key session s)) = authenticatedPeers s \<or>
      length key = 32 \<and> authenticatedPeers (snd (registerAuthenticatedPeer t n key session s)) = mset_at n ?p (authenticatedPeers s)"
    by (auto simp: registerAuthenticatedPeer_def split: option.splits)
  moreover have "peer_ok ?p" if "length key = 32" using that assms(2,3) by (simp add: peer_ok_def)
  ultimately show ?thesis
    using assms(1) [unfolded peers_ok_def] assms(4) unfolding peers_ok_def by (metis mget_set option.inject)
qed

lemma relay_step_peers: "relay_step L t s s' \<Longrightarrow> peers_ok (authenticatedPeers s) \<Longrightarrow> peers_ok (authenticatedPeers s')"
proof (induction rule: relay_step.induct)
  case (step_unregister n)
  then show ?case by (auto simp: unregisterAuthenticatedPeer_def peers_ok_def split: if_splits)
next
  case (step_register n key session)
  then show ?case by (intro register_peers)
next
  case (step_purge_fragments age)
  then show ?case by (simp add: purgeStaleFragments_def on_part_def case_prod_beta)
qed (simp_all add: stays_local_peers [OF frame_local]
    stays_local_peers [OF still_snd [OF loc.sendEnvelope_ok]] stays_local_peers [OF still_snd [OF loc.sendAck_ok]]
    stays_local_peers [OF still_snd [OF loc.broadcast_ok]] stays_local_peers [OF still_snd [OF loc.initiateSync_ok]]
    stays_local_peers [OF still_snd [OF loc.receiveAdvertisement_ok]] stays_local_peers [OF still_snd [OF still_purge_state]]
    purgeStaleBroadcastRecords_def purgeStaleRoutingAdvertisements_def purgeStaleSyncReplayRecords_def Let_def)

lemma relay_history_peers: "relay_history L t s \<Longrightarrow> peers_ok (authenticatedPeers s)"
proof (induction rule: relay_history.induct)
  case (later t s t' s')
  from later.hyps(3) later.IH show ?case by (rule relay_step_peers)
qed (simp_all add: new_relay_def peers_ok_def purgeStaleSyncReplayRecords_def Let_def)

section \<open>Frames on a link\<close>

text \<open>The frames an envelope becomes on the link to a neighbour.\<close>

definition frames_for :: "lib \<Rightarrow> RelayTransport \<Rightarrow> string \<Rightarrow> Envelope \<Rightarrow> bytes list res" where
  "frames_for L T n e = (case linkUnit T n of
      None \<Rightarrow> Inr [0 # encodeEnvelope L e]
    | Some mtu \<Rightarrow> if int (length (encodeEnvelope L e)) + 1 \<le> mtu then Inr [0 # encodeEnvelope L e]
        else rbind (fragmentEnvelope L e (mtu - 1)) (\<lambda>fs. Inr (map ((#) 1) fs)))"

lemma transmit_all_sent:
  "transmit_all T n fs b s = (Inr (b \<and> (\<forall>f \<in> set fs. accepts T n (1 # f))),
     s\<lparr>sent := sent s @ map (Pair n) (filter (accepts T n) (map ((#) 1) fs))\<rparr>)"
proof (induction fs arbitrary: b s)
  case (Cons f fs)
  then show ?case
    by (cases "accepts T n (1 # f)")
      (simp_all add: chain_def transmit_def FRAME_KIND_FRAGMENT_def)
qed simp

lemma sendEnvelopeOverTransport_sent:
  "sendEnvelopeOverTransport L T n e s = (case frames_for L T n e of
     Inl err \<Rightarrow> (Inl err, s)
   | Inr fs \<Rightarrow> (Inr (\<forall>f \<in> set fs. accepts T n f), s\<lparr>sent := sent s @ map (Pair n) (filter (accepts T n) fs)\<rparr>))"
proof (cases "linkUnit T n")
  case None
  then show ?thesis
    by (simp add: sendEnvelopeOverTransport_def frames_for_def transmit_def FRAME_KIND_ENVELOPE_def Let_def)
next
  case (Some mtu)
  show ?thesis
  proof (cases "int (length (encodeEnvelope L e)) + 1 \<le> mtu")
    case True
    with Some show ?thesis
      by (simp add: sendEnvelopeOverTransport_def frames_for_def transmit_def FRAME_KIND_ENVELOPE_def Let_def)
  next
    case False
    with Some show ?thesis
      by (cases "fragmentEnvelope L e (mtu - 1)")
        (simp_all add: sendEnvelopeOverTransport_def frames_for_def transmit_all_sent Let_def)
  qed
qed

section \<open>Quiet steps\<close>

text \<open>What the housekeeping before a handler and the acknowledgement block do not touch.\<close>

definition quiet :: "RelayNode \<Rightarrow> RelayNode \<Rightarrow> bool" where
  "quiet s s' \<longleftrightarrow> sent s' = sent s \<and> events s' = events s \<and> queue s' = queue s \<and>
     seenBroadcasts s' = seenBroadcasts s \<and> seenSyncPackets s' = seenSyncPackets s \<and>
     authenticatedPeers s' = authenticatedPeers s \<and> ownDestinationHint s' = ownDestinationHint s \<and>
     limits s' = limits s \<and> draws s' = draws s \<and> nodeIdentity s' = nodeIdentity s \<and>
     (\<forall>k p. mget (pendingAcks s') k = Some p \<longrightarrow> mget (pendingAcks s) k = Some p)"

lemma quietD: "quiet s s' \<Longrightarrow> sent s' = sent s \<and> events s' = events s \<and> queue s' = queue s \<and>
    seenBroadcasts s' = seenBroadcasts s \<and> seenSyncPackets s' = seenSyncPackets s \<and>
    authenticatedPeers s' = authenticatedPeers s \<and> ownDestinationHint s' = ownDestinationHint s \<and> limits s' = limits s"
  by (simp add: quiet_def)

interpretation hush: evolution quiet
  by unfold_locales (auto simp: quiet_def)

lemma hush_expire: "hush.evolves (expirePendingAcks nowMs)"
proof -
  have "quiet s (snd (foldl (\<lambda>(purged, s) (k, v). if stale k v then (purged + 1, expire_ack k v s) else (purged, s))
      (n, s0) m))" if "quiet s s0" for s s0 stale m and n :: nat
    using that
  proof (induction m arbitrary: s0 n)
    case (Cons x m)
    have "quiet s (expire_ack k v s0)" for k v
      using Cons.prems by (auto simp: quiet_def expire_ack_def split: if_splits)
    then show ?case using Cons by (cases x) auto
  qed simp
  then show ?thesis
    using hush.R_refl unfolding hush.evolves_def expirePendingAcks_def sweep_def by (simp add: case_prod_beta)
qed

lemma hush_table: "hush.evolves (on_table f)"
  by (rule hush.evolves_on_part) (simp add: quiet_def)

lemma hush_purge_state: "hush.evolves (purgeStaleRoutingState nowMs)"
  unfolding purgeStaleRoutingState_def by (intro hush.evolves_intros hush_expire hush_table)

lemma hush_find_hop: "hush.evolves (find_hop nowMs hint)"
  unfolding hush.evolves_def find_hop_def on_part_res_def by (simp add: case_prod_beta quiet_def)

lemma hush_process: "hush.evolves (processPendingAck L nowMs e from)"
proof -
  have mark: "hush.evolves (\<lambda>s. case markValidated L nowMs h k n pk ep (routingTable s) of
      Inl err \<Rightarrow> (Inl err, s) | Inr T \<Rightarrow> (Inr (), s\<lparr>routingTable := T\<rparr>))" for h k n pk ep
    unfolding hush.evolves_def by (auto simp: quiet_def split: sum.splits)
  have c: "hush.evolves (change (\<lambda>s. s\<lparr>neighborTrust := f s\<rparr>))" "hush.evolves (change (\<lambda>s. s\<lparr>pendingAcks := mdel k (pendingAcks s)\<rparr>))" for f k
    by (rule hush.evolves_change; simp add: quiet_def)+
  show ?thesis unfolding processPendingAck_def Let_def by (intro hush.evolves_intros mark c)
qed

lemma hush_ack_gate: "hush.evolves (ack_gate L nowMs e from)"
  unfolding ack_gate_def by (intro hush.evolves_intros hush_process)

lemma purge_state_returns: "\<exists>n. purgeStaleRoutingState nowMs s = (Inr n, snd (purgeStaleRoutingState nowMs s))"
  by (simp add: purgeStaleRoutingState_def expirePendingAcks_def chain_def on_part_def case_prod_beta)

text \<open>\<open>tidied t s\<close> is the node after the housekeeping every packet begins with.\<close>

abbreviation tidied :: "int \<Rightarrow> RelayNode \<Rightarrow> RelayNode" where
  "tidied nowMs s \<equiv> snd (purgeStaleRoutingState nowMs s)"

lemma chain_purge_state: "chain (purgeStaleRoutingState nowMs) (\<lambda>_. m) s = m (tidied nowMs s)"
  using purge_state_returns [of nowMs s] by (auto simp: chain_def split: prod.splits)

lemma tidied_quiet: "quiet s (tidied nowMs s)"
  using hush_purge_state unfolding hush.evolves_def by blast

lemma tidied_trust: "neighborTrustScore n (tidied t s) = neighborTrustScore n s"
  using still_snd [OF still_purge_state, of None s t] by (simp add: stays_local_def neighborTrustScore_def truthy_def mget_or_def)

lemma find_hop_cases:
  assumes "relay_ok L t s" "peers_ok (authenticatedPeers s)"
  shows "\<exists>hop. find_hop nowMs hint s = (Inr hop, snd (find_hop nowMs hint s)) \<and>
    (\<forall>h. hop = Some h \<longrightarrow> h \<noteq> [] \<and> mget (authenticatedPeers s) h \<noteq> None)"
proof -
  have ok: "table_ok L (routingTable s)" using assms(1) by (simp add: relay_ok_def)
  let ?V = "hops (validated_hop hint (authenticatedPeers s)) nowMs hint (routingTable s)"
  let ?P = "hops (probation_hop (authenticatedPeers s)) nowMs hint (routingTable s)"
  obtain hop where h: "fst (lookup nowMs hint (neighborTrust s) (authenticatedPeers s) (routingTable s)) = Inr hop"
    "\<forall>n. hop = Some n \<longrightarrow> n \<in> ?V \<union> ?P"
    using lookup_cases [OF ok assms(2), of nowMs hint "neighborTrust s"] by (auto split: if_splits)
  have "mget (authenticatedPeers s) n \<noteq> None" if "n \<in> ?V \<union> ?P" for n
    using that by (auto simp: hops_def validated_hop_def probation_hop_def)
  then have "\<forall>n. hop = Some n \<longrightarrow> n \<noteq> [] \<and> mget (authenticatedPeers s) n \<noteq> None"
    using h(2) assms(2) unfolding peers_ok_def by blast
  with h(1) show ?thesis by (simp add: find_hop_def on_part_res_def case_prod_beta)
qed

lemma forward_cases:
  "case frames_for L T h (next_hop_copy e) of
     Inl err \<Rightarrow> fst (forwardOverTransport L T t e h s) = Inl err \<and> sent (snd (forwardOverTransport L T t e h s)) = sent s
   | Inr fs \<Rightarrow> fst (forwardOverTransport L T t e h s) = Inr (\<forall>f \<in> set fs. accepts T h f) \<and>
       sent (snd (forwardOverTransport L T t e h s)) = sent s @ map (Pair h) (filter (accepts T h) fs) \<and>
       events (snd (forwardOverTransport L T t e h s)) = events s \<and> queue (snd (forwardOverTransport L T t e h s)) = queue s \<and>
       (packetType (header e) = packet_code Data \<and> (\<forall>f \<in> set fs. accepts T h f) \<longrightarrow>
          mget (pendingAcks (snd (forwardOverTransport L T t e h s))) (id_hex e)
            = Some \<lparr>ackNeighborId = h, ackDestinationHint = destinationHint (header e), sentAt = t\<rparr>)"
  by (cases "frames_for L T h (next_hop_copy e)")
    (auto simp: forwardOverTransport_def recordPendingAck_def chain_def sendEnvelopeOverTransport_sent Let_def)

section \<open>Where results come from\<close>

definition not_forwarded :: "DeliveryResult \<Rightarrow> bool" where
  "not_forwarded r \<longleftrightarrow> (\<forall>h. r \<noteq> Forwarded h)"

lemma not_forwarded_simps [simp]:
  "not_forwarded (Delivered e)" "not_forwarded Queued" "not_forwarded (Dropped x)" "not_forwarded (BroadcastReceived m)"
  by (simp_all add: not_forwarded_def)

lemma transfer_loop_yields: "yields (\<lambda>r. \<forall>x. r = Some x \<longrightarrow> not_forwarded x) (transfer_loop L recv n vs)"
proof (induction vs arbitrary: n)
  case (Cons v vs)
  then show ?case by (simp only: transfer_loop.simps) (intro yields_intros; simp)
qed (simp only: transfer_loop.simps; intro yields_intros; simp)

lemma handleSync_yields: "yields not_forwarded (handleSyncPacket L T t recv e f)"
proof -
  have "yields not_forwarded (sync_transfer L recv e p v)" for p v
    unfolding sync_transfer_def
    by (intro yields_if yields_ret yields_chain_of [OF yields_attempt [OF transfer_loop_yields yields_ret]])
      (auto split: option.splits)
  moreover have "yields not_forwarded (sync_summary L T t e p x v)" "yields not_forwarded (sync_request L T t e p x v)" for p x v
    unfolding sync_summary_def sync_request_def Let_def by (intro yields_intros; simp)+
  ultimately show ?thesis
    unfolding handleSyncPacket_def Let_def by (intro yields_intros) simp_all
qed

lemma handleBroadcast_yields: "yields not_forwarded (handleBroadcastPacket L T t e f)"
  unfolding handleBroadcastPacket_def Let_def by (intro yields_intros) simp_all

lemma ack_gate_yields: "yields (\<lambda>r. \<forall>x. r = Some x \<longrightarrow> not_forwarded x) (ack_gate L t e f)"
  unfolding ack_gate_def by (intro yields_intros) (auto split: if_splits)

lemma deliver_yields: "yields not_forwarded (deliver_local L e)"
  unfolding deliver_local_def by (intro yields_intros) simp_all

lemma relay_store_yields: "yields not_forwarded (relay_store L t e src)"
  unfolding relay_store_def by (intro yields_intros) (simp split: StoreResult.splits)

lemma receive_forwarded:
  assumes "receiveEnvelope L T t (Suc d) e f s = (Inr (Forwarded h), s')" "relay_ok L t s" "peers_ok (authenticatedPeers s)"
  shows "\<exists>s1. quiet s s1 \<and> relay_ok L t s1 \<and> fresh t e \<and> \<not> ttl (header e) \<le> Num 0 \<and>
    destinationHint (header e) \<noteq> ownDestinationHint s \<and> mget (authenticatedPeers s) h \<noteq> None \<and>
    forwardOverTransport L T t e h s1 = (Inr True, s')"
proof -
  let ?s = "tidied t s"
  have r: "receive_body L T t (receiveEnvelope L T t d) e f s = (Inr (Forwarded h), s')" using assms(1) by simp
  have ok: "relay_ok L t ?s" by (rule keep_snd [OF keep_purge_state assms(2)])
  have nf: "\<not> not_forwarded (Forwarded h)" by (simp add: not_forwarded_def)
  have v: "fresh t e" "packetType (header e) \<noteq> packet_code StoreForwardSync" "packetType (header e) \<noteq> packet_code EmergencyBroadcast"
    using r nf yieldsD [OF handleSync_yields] yieldsD [OF handleBroadcast_yields]
    by (auto simp: receive_body_def chain_purge_state split: if_splits)
  then have eq: "receive_body L T t (receiveEnvelope L T t d) e f s = chain (ack_gate L t e f) (\<lambda>early. case early of Some r \<Rightarrow> ret r
      | None \<Rightarrow> chain (look ownDestinationHint) (\<lambda>own. if bytesEqual (destinationHint (header e)) own then deliver_local L e
          else relay_on L T t e f)) ?s"
    by (simp only: receive_body_def chain_purge_state not_True_eq_False if_False)
  note g = r [unfolded eq]
  obtain early s1 where a: "ack_gate L t e f ?s = (Inr early, s1)"
    using g by (auto simp: chain_def split: prod.splits sum.splits)
  have e: "early = None"
    using g a yieldsD [OF ack_gate_yields a] nf by (auto simp: chain_def split: option.splits)
  have q1: "quiet ?s s1" and ok1: "relay_ok L t s1"
  proof -
    show "quiet ?s s1" by (rule hush.evolvesD [OF hush_ack_gate a])
    have "keep.evolves L t (ack_gate L t e f)" by (rule inv.ack_gate_ok [of f f]) simp
    from keep_snd [OF this ok] a show "relay_ok L t s1" by simp
  qed
  have q: "quiet s s1" using tidied_quiet q1 hush.R_trans by blast
  then have peers: "peers_ok (authenticatedPeers s1)" using assms(3) by (simp add: quiet_def)
  have d: "destinationHint (header e) \<noteq> ownDestinationHint s" "relay_on L T t e f s1 = (Inr (Forwarded h), s')"
    using g a e nf yieldsD [OF deliver_yields] q by (auto simp: chain_def quiet_def split: if_splits)
  then have t: "\<not> ttl (header e) \<le> Num 0" by (auto simp: relay_on_def split: if_splits)
  obtain hop where hop: "find_hop t (destinationHint (header e)) s1 = (Inr hop, snd (find_hop t (destinationHint (header e)) s1))"
    "\<forall>h. hop = Some h \<longrightarrow> h \<noteq> [] \<and> mget (authenticatedPeers s1) h \<noteq> None"
    using find_hop_cases [OF ok1 peers] by blast
  let ?s2 = "snd (find_hop t (destinationHint (header e)) s1)"
  have q2: "quiet s1 ?s2" using hush_find_hop unfolding hush.evolves_def by blast
  have ok2: "relay_ok L t ?s2" by (rule keep_snd [OF keep_find_hop ok1])
  have store: "relay_store L t e src ?s2 \<noteq> (Inr (Forwarded h), s')" "relay_store L t e src s3 \<noteq> (Inr (Forwarded h), s')" for src s3
    using yieldsD [OF relay_store_yields] nf by blast+
  have rel: "(case truthy hop of None \<Rightarrow> relay_store L t e (case f of None \<Rightarrow> ''origin'' | Some n \<Rightarrow> n)
      | Some h \<Rightarrow> chain (forwardOverTransport L T t e h) (\<lambda>ok. if ok then ret (Forwarded h)
          else relay_store L t e (case f of None \<Rightarrow> ''origin'' | Some n \<Rightarrow> n))) ?s2 = (Inr (Forwarded h), s')"
    using d(2) t hop(1) by (simp add: relay_on_def Let_def chain_Inr)
  then obtain h' where h': "truthy hop = Some h'" using store by (auto split: option.splits)
  then have hop': "hop = Some h'" by (auto simp: truthy_def split: option.splits list.splits)
  obtain b s3 where f3: "forwardOverTransport L T t e h' ?s2 = (Inr b, s3)"
    using rel h' by (auto simp: chain_def split: prod.splits sum.splits)
  then have "b" "h' = h" "s3 = s'" using rel h' store by (auto simp: chain_def split: if_splits)
  then have "forwardOverTransport L T t e h ?s2 = (Inr True, s')" using f3 by simp
  moreover have "quiet s ?s2" using q q2 hush.R_trans by blast
  moreover have "mget (authenticatedPeers s) h \<noteq> None" using hop(2) hop' \<open>h' = h\<close> q by (simp add: quiet_def)
  ultimately show ?thesis using v(1) t d(1) ok2 by blast
qed

section \<open>Properties\<close>

text \<open>C13: The node is bounded. After any history of frames, advertisements, registrations and calls, from any
  peers and at any times in order, every table the node keeps for others is within its cap, the trust of
  every listed neighbour is positive, and a lookup neither throws nor names a peer that is not authenticated.\<close>

theorem relay_bounded:
  assumes "relay_history L t s"
  shows "length (pendingAcks s) \<le> 500 \<and> length (seenSyncPackets s) \<le> 2048 \<and> length (seenRoutingAdvertisements s) \<le> 2048 \<and>
    length (entries (queue s)) \<le> 200 \<and> (\<forall>n. mget_or (perNeighborCount (queue s)) n 0 \<le> 50) \<and>
    length (pending (reassembler s)) \<le> 128 \<and> pendingBytes (reassembler s) \<le> 2 * 1024 * 1024 \<and>
    (\<forall>(n, x) \<in> set (neighborTrust s). 0 < x) \<and>
    (\<forall>hint. \<exists>hop. fst (find_hop t hint s) = Inr hop \<and> (\<forall>h. hop = Some h \<longrightarrow> isAuthenticatedPeer h s))"
proof -
  note ok = relay_history_ok [OF assms]
  have q: "length (entries (queue s)) \<le> 200" "\<forall>n. mget_or (perNeighborCount (queue s)) n 0 \<le> 50"
    using ok by (auto simp: relay_ok_def queue_ok_def)
  have r: "length (pending (reassembler s)) \<le> 128" "pendingBytes (reassembler s) \<le> 2 * 1024 * 1024"
    using ok by (auto simp: relay_ok_def books_def)
  have "\<exists>hop. fst (find_hop t hint s) = Inr hop \<and> (\<forall>h. hop = Some h \<longrightarrow> isAuthenticatedPeer h s)" for hint
    using find_hop_cases [OF ok relay_history_peers [OF assms], of t hint]
    by (metis fst_conv isAuthenticatedPeer_def mhas_def)
  with q r ok show ?thesis unfolding relay_ok_def by blast
qed

definition open_transport :: RelayTransport where
  "open_transport = \<lparr>discoverNeighbors = [''n1'', ''n2''], linkUnit = (\<lambda>_. Some 1200), accepts = (\<lambda>_ _. True)\<rparr>"

theorem relay_bounded_witness:
  "length (pendingAcks (receiveFrame ref_lib open_transport 5 9 ''n1'' [0, 1, 2]
     (snd (registerAuthenticatedPeer 4 ''n1'' (publicKey bob) None (new_relay ref_lib alice))))) \<le> 500"
proof -
  have "relay_history ref_lib 4 (snd (registerAuthenticatedPeer 4 ''n1'' (publicKey bob) None (new_relay ref_lib alice)))"
    by (rule register [OF start [of _ 4] order_refl]) simp_all
  from relay_bounded [OF frame [OF this, of 5]] show ?thesis by simp
qed

section \<open>A node that has learned a route\<close>

text \<open>A history after which a node holds a probation route, for the witnesses.\<close>

lemma tidied_plain: "pendingAcks s = [] \<Longrightarrow> tidied t s = s\<lparr>routingTable := snd (purgeExpired t (routingTable s))\<rparr>"
  by (simp add: purgeStaleRoutingState_def expirePendingAcks_def sweep_def chain_def on_part_def case_prod_beta)

lemma find_hop_table: "snd (find_hop t hint s) = s\<lparr>routingTable := snd (purgeExpired t (routingTable s))\<rparr>"
  by (simp add: find_hop_def on_part_res_def lookup_def Let_def case_prod_beta)

lemma attempt_plain:
  assumes "pendingAcks s = []" "entries (queue s) = []"
  shows "snd (attemptQueuedDelivery L T t hint s) = s\<lparr>routingTable := snd (purgeExpired t (snd (purgeExpired t (routingTable s))))\<rparr>"
proof -
  let ?s = "s\<lparr>routingTable := snd (purgeExpired t (routingTable s))\<rparr>"
  obtain r where "find_hop t hint ?s = (r, ?s\<lparr>routingTable := snd (purgeExpired t (routingTable ?s))\<rparr>)"
    using find_hop_table [of t hint ?s] by (metis prod.collapse)
  then show ?thesis
    using assms unfolding attemptQueuedDelivery_def chain_purge_state tidied_plain [OF assms(1)]
    by (cases r) (simp_all add: chain_Inr chain_Inl getByDestination_def queue_purge_def sweep_def Let_def split: option.splits)
qed

lemma snd_chain_ret: "snd (chain m ret s) = snd (m s)"
  by (simp add: chain_def split: prod.splits sum.splits)

lemma chain_update:
  "chain (\<lambda>s. case f s of Inl err \<Rightarrow> (Inl err, s) | Inr T \<Rightarrow> (Inr (), g T s)) k s
     = (case f s of Inl err \<Rightarrow> (Inl err, s) | Inr T \<Rightarrow> k () (g T s))"
  by (simp add: chain_def split: sum.splits)

lemma alice_hint: "computeDestinationHint ref_lib (publicKey alice) \<noteq> replicate 8 3"
  by (simp add: computeDestinationHint_def ref_lib_def alice_def slice_def DESTINATION_HINT_LENGTH_def)

lemma routed_node:
  obtains s where "relay_history ref_lib 1700000050000 s" "pendingAcks s = []"
    "find_route (routingTable s) (replicate 8 3) ''n1'' =
       Some \<lparr>status = Probation, lastAdvertisedAt = 1700000050000, expiresAt = 1700000080000, binding = None\<rparr>"
    "authenticatedPeers s = [(''n1'', test_peer 1700000040000)]" "ownDestinationHint s = computeDestinationHint ref_lib (publicKey alice)"
proof -
  let ?hint = "replicate 8 (3 :: byte)" and ?t = "1700000050000 :: int"
  let ?s1 = "snd (registerAuthenticatedPeer 1700000040000 ''n1'' (publicKey bob) None (new_relay ref_lib alice))"
  have s1: "?s1 = (new_relay ref_lib alice)\<lparr>authenticatedPeers := [(''n1'', test_peer 1700000040000)]\<rparr>"
    by (simp add: registerAuthenticatedPeer_def new_relay_def test_peer_def bob_def)
  have h1: "relay_history ref_lib 1700000040000 ?s1" by (rule register [OF start [of _ 1700000040000] order_refl]) simp_all
  obtain ad where ad: "reachableDestinations ad = [?hint]" "verifyRoutingAdvertisement ref_lib ?t ad = Inr True"
    using honest_advertisement [OF ref_ed25519_correct honest_test_identities(1), of "[?hint]" ?t ?t] by auto
  obtain T where T: "learnFromAdvertisement ref_lib ?t ''n1'' ad 1700000040000 (publicKey bob) [] = Inr T"
    "find_route T ?hint ''n1'' = Some \<lparr>status = Probation, lastAdvertisedAt = ?t, expiresAt = 1700000080000, binding = None\<rparr>"
    using learn_fresh_hint [OF ad(2,1), of 1700000040000 "[]" "''n1''"] by (auto simp: find_route_def)
  let ?s2 = "snd (receiveAdvertisement ref_lib open_transport ?t ''n1'' ad ?s1)"
  have ts: "\<exists>b. u64le (adTimestamp ad) = Inr b" using ad(2)
    by (auto simp: verifyRoutingAdvertisement_def buildAdvertisementMessage_def rbind_def split: option.splits if_splits sum.splits)
  have p: "purgeExpired ?t [] = (0, [])" by (simp add: purgeExpired_def)
  have "routingTable ?s2 = snd (purgeExpired ?t (snd (purgeExpired ?t T))) \<and> pendingAcks ?s2 = [] \<and>
      authenticatedPeers ?s2 = authenticatedPeers ?s1 \<and> ownDestinationHint ?s2 = ownDestinationHint ?s1"
    using ts T(1) ad attempt_plain [of _ ref_lib open_transport ?t ?hint]
    unfolding receiveAdvertisement_def chain_purge_state s1
    by (auto simp: tidied_plain new_relay_def p test_peer_def snd_chain_ret chain_update new_queue_def Let_def)
  moreover have "relay_history ref_lib ?t ?s2" by (rule advertisement [OF h1]) simp
  moreover have "table_ok ref_lib T" by (rule table_ok_learn [OF table_ok_Nil T(1)])
  moreover have "authenticatedPeers ?s1 = [(''n1'', test_peer 1700000040000)] \<and>
      ownDestinationHint ?s1 = computeDestinationHint ref_lib (publicKey alice)"
    unfolding s1 by (simp add: new_relay_def)
  ultimately show thesis
    using that [of ?s2] T(2) find_route_purged [of ref_lib] table_ok_purge [of ref_lib] by simp
qed


lemma open_transport_accepts [simp]: "accepts open_transport n f"
  by (simp add: open_transport_def)

lemma forward_taken:
  assumes "frames_for L T h (next_hop_copy e) = Inr fs" "\<And>f. f \<in> set fs \<Longrightarrow> accepts T h f"
  shows "\<exists>s'. forwardOverTransport L T t e h s = (Inr True, s')"
proof -
  have "fst (forwardOverTransport L T t e h s) = Inr True"
    using forward_cases [where L = L and T = T and h = h and e = e and t = t and s = s] assms by simp
  then show ?thesis by (metis prod.collapse)
qed

lemma receive_relays:
  assumes "fresh t e" "packetType (header e) = packet_code Data" "destinationHint (header e) \<noteq> ownDestinationHint s"
  shows "receiveEnvelope L T t (Suc d) e f s = relay_on L T t e f (tidied t s)"
  using assms tidied_quiet [of s t]
  by (simp add: receive_body_def chain_purge_state ack_gate_def quiet_def packet_code_def)

text \<open>C16: Forwarding. A packet is forwarded only to an authenticated neighbour, only when its header is valid
  and its hop counter positive, and never when it is for this node. What leaves is the packet with its hop
  counter decreased by one, whole or in fragments, to that neighbour alone, all taken by the transport; no
  listener is called; for a data packet the acknowledgement is awaited from that neighbour.\<close>

theorem forwarding_step:
  assumes "relay_history L t0 s" "t0 \<le> t" "receiveEnvelope L T t (Suc depth) e from s = (Inr (Forwarded h), s')"
  shows "validateRoutingHeader t 3600 (header e) \<and> \<not> ttl (header e) \<le> Num 0 \<and>
    destinationHint (header e) \<noteq> ownDestinationHint s \<and> isAuthenticatedPeer h s \<and>
    (\<exists>fs. frames_for L T h (e\<lparr>header := (header e)\<lparr>ttl := num_sub (ttl (header e)) (Num 1)\<rparr>\<rparr>) = Inr fs \<and>
       (\<forall>f \<in> set fs. accepts T h f) \<and> sent s' = sent s @ map (Pair h) fs) \<and> events s' = events s \<and>
    (packetType (header e) = packet_code Data \<longrightarrow> mget (pendingAcks s') (bytesToHex (messageId (header e)))
       = Some \<lparr>ackNeighborId = h, ackDestinationHint = destinationHint (header e), sentAt = t\<rparr>)"
proof -
  have ok: "relay_ok L t s" "peers_ok (authenticatedPeers s)"
    using relay_ok_mono [OF relay_history_ok [OF assms(1)] assms(2)] relay_history_peers [OF assms(1)] .
  obtain s1 where s1: "quiet s s1" "fresh t e" "\<not> ttl (header e) \<le> Num 0" "destinationHint (header e) \<noteq> ownDestinationHint s"
    "mget (authenticatedPeers s) h \<noteq> None" "forwardOverTransport L T t e h s1 = (Inr True, s')"
    using receive_forwarded [OF assms(3) ok] by blast
  obtain fs where fs: "frames_for L T h (next_hop_copy e) = Inr fs" "\<forall>f \<in> set fs. accepts T h f"
    "sent s' = sent s1 @ map (Pair h) (filter (accepts T h) fs)" "events s' = events s1"
    "packetType (header e) = packet_code Data \<longrightarrow> mget (pendingAcks s') (id_hex e)
       = Some \<lparr>ackNeighborId = h, ackDestinationHint = destinationHint (header e), sentAt = t\<rparr>"
    using forward_cases [where L = L and T = T and h = h and e = e and t = t and s = s1] s1(6) by (auto split: sum.splits)
  have "filter (accepts T h) fs = fs" using fs(2) by (simp add: filter_id_conv)
  then show ?thesis
    using fs s1 by (auto simp: quiet_def STORE_FORWARD_MAX_AGE_SECONDS_def next_hop_copy_def isAuthenticatedPeer_def mhas_def)
qed

lemma routed_hop:
  assumes "relay_history ref_lib 1700000050000 s" "pendingAcks s = []"
    and "find_route (routingTable s) (replicate 8 3) ''n1'' = Some \<lparr>status = Probation, lastAdvertisedAt = 1700000050000, expiresAt = 1700000080000, binding = None\<rparr>"
    and "authenticatedPeers s = [(''n1'', test_peer 1700000040000)]"
  shows "fst (find_hop 1700000050000 (replicate 8 3) (tidied 1700000050000 s)) = Inr (Some ''n1'')"
proof -
  let ?t = "1700000050000 :: int"
  let ?T = "snd (purgeExpired ?t (routingTable s))" and ?p = "[(''n1'', test_peer 1700000040000)]"
  have ok: "table_ok ref_lib (routingTable s)" using relay_history_ok [OF assms(1)] by (simp add: relay_ok_def)
  have "''n1'' \<in> hops (probation_hop ?p) ?t (replicate 8 3) ?T"
    using assms(3) by (simp add: hops_def probation_hop_def find_route_purged [OF ok])
  moreover have "n = ''n1''" if "n \<in> hops (probation_hop ?p) ?t h ?T \<or> n \<in> hops (validated_hop h ?p) ?t h ?T" for n h
    using that by (auto simp: hops_def probation_hop_def validated_hop_def split: if_splits)
  ultimately show ?thesis
    using lookup_cases [OF table_ok_purge [OF ok] test_peers_ok [of 1700000040000], of ?t "replicate 8 3" "neighborTrust s" ?t]
    unfolding tidied_plain [OF assms(2)] by (auto simp: find_hop_def on_part_res_def case_prod_beta assms(4) split: if_splits)
qed

theorem forwarding_step_witness:
  "\<exists>s s'. receiveEnvelope ref_lib open_transport 1700000050000 1 test_envelope (Some ''n2'') s = (Inr (Forwarded ''n1''), s') \<and>
    mget (pendingAcks s') (bytesToHex (replicate 16 9)) =
      Some \<lparr>ackNeighborId = ''n1'', ackDestinationHint = replicate 8 3, sentAt = 1700000050000\<rparr>"
proof -
  obtain s where s: "relay_history ref_lib 1700000050000 s" "pendingAcks s = []"
    "find_route (routingTable s) (replicate 8 3) ''n1'' =
       Some \<lparr>status = Probation, lastAdvertisedAt = 1700000050000, expiresAt = 1700000080000, binding = None\<rparr>"
    "authenticatedPeers s = [(''n1'', test_peer 1700000040000)]" "ownDestinationHint s = computeDestinationHint ref_lib (publicKey alice)"
    by (rule routed_node)
  let ?t = "1700000050000 :: int"
  have e: "fresh ?t test_envelope" "packetType (header test_envelope) = packet_code Data" "ttl (header test_envelope) = Num 16"
    "destinationHint (header test_envelope) = replicate 8 3" "messageId (header test_envelope) = replicate 16 9"
    using test_fresh [of ?t] by (simp_all add: test_envelope_def STORE_FORWARD_MAX_AGE_SECONDS_def packet_code_def)
  note routed_hop [OF s(1-4)]
  then have f: "find_hop ?t (replicate 8 3) (tidied ?t s) = (Inr (Some ''n1''), snd (find_hop ?t (replicate 8 3) (tidied ?t s)))"
    by (metis prod.collapse)
  have "length (encodeEnvelope ref_lib (next_hop_copy test_envelope)) = 53"
    by (simp add: encodeEnvelope_def headerToTuple_def test_envelope_def ref_lib_def enc_bytes_def leb.simps zigzag_def next_hop_copy_def)
  then have fr: "frames_for ref_lib open_transport ''n1'' (next_hop_copy test_envelope) = Inr [0 # encodeEnvelope ref_lib (next_hop_copy test_envelope)]"
    by (simp add: frames_for_def open_transport_def)
  obtain s' where "receiveEnvelope ref_lib open_transport ?t 1 test_envelope (Some ''n2'') s = (Inr (Forwarded ''n1''), s')"
  proof -
    let ?s = "snd (find_hop ?t (replicate 8 3) (tidied ?t s))"
    obtain s' where "forwardOverTransport ref_lib open_transport ?t test_envelope ''n1'' ?s = (Inr True, s')"
      using forward_taken [OF fr] by auto
    then have "relay_on ref_lib open_transport ?t test_envelope (Some ''n2'') (tidied ?t s) = (Inr (Forwarded ''n1''), s')"
      using e f by (simp add: relay_on_def chain_Inr truthy_def)
    then show thesis
      using that receive_relays [OF e(1,2), of s ref_lib open_transport 0 "Some ''n2''"] alice_hint s(5) e(4) by (simp del: receiveEnvelope.simps)
  qed
  from forwarding_step [OF s(1) order_refl this [unfolded One_nat_def]] this e show ?thesis by (metis (no_types, lifting))
qed

end
