(* ===== verification/RelaySync.thy ===== *)
theory RelaySync
  imports RelayNodes
begin

text \<open>
  How a relay node treats sync packets: the gate that authenticates them and the window in which copies
  are refused.
\<close>

section \<open>The gate of sync packets\<close>

definition replay_key :: "lib \<Rightarrow> bytes \<Rightarrow> bytes \<Rightarrow> string" where
  "replay_key L senderKey payload = bytesToHex senderKey @ '':'' @ bytesToHex (sha256 L payload)"

text \<open>A packet passes the gate when a session of its neighbour authenticates it and it was not seen.\<close>

definition sync_passes :: "lib \<Rightarrow> int \<Rightarrow> string option \<Rightarrow> bytes \<Rightarrow> RelayNode \<Rightarrow> bool" where
  "sync_passes L t src payload s \<longleftrightarrow> (\<exists>m peer x tuple. src = Some m \<and> mget (authenticatedPeers s) m = Some peer \<and>
     peerSession peer = Some x \<and> decodeEncryptedSync L payload x = Some (peerIdentityKey peer, tuple) \<and>
     \<not> mhas (purge_seen t SYNC_REPLAY_TTL_MS (seenSyncPackets s)) (replay_key L (peerIdentityKey peer) payload))"

lemma truthy_SomeD: "truthy f = Some n \<Longrightarrow> f = Some n"
  by (auto simp: truthy_def split: option.splits list.splits)

lemma sync_gate:
  assumes "handleSyncPacket L T t recv e src s = (r, s')" "\<not> sync_passes L t src (sealedPayload e) s"
  shows "(\<exists>x. r = Inr (Dropped x)) \<and> (\<exists>p. s' = s\<lparr>seenSyncPackets := p\<rparr>)"
proof -
  let ?s = "s\<lparr>seenSyncPackets := purge_seen t SYNC_REPLAY_TTL_MS (seenSyncPackets s)\<rparr>"
  have self: "\<exists>p. s = s\<lparr>seenSyncPackets := p\<rparr>" by (rule exI [of _ "seenSyncPackets s"]) simp
  show ?thesis
  proof (cases "truthy src")
    case None
    with assms(1) self show ?thesis by (auto simp: handleSyncPacket_def)
  next
    case (Some m)
    have purge: "chain (purgeStaleSyncReplayRecords t SYNC_REPLAY_TTL_MS) k s = k (length (seenSyncPackets s) -
        length (purge_seen t SYNC_REPLAY_TTL_MS (seenSyncPackets s))) ?s" for k :: "nat \<Rightarrow> DeliveryResult relay"
      by (simp add: chain_def purgeStaleSyncReplayRecords_def Let_def)
    show ?thesis
    proof (cases "Option.bind (mget (authenticatedPeers s) m) peerSession")
      case None
      with Some assms(1) self show ?thesis by (auto simp: handleSyncPacket_def)
    next
      case (Some x)
      then obtain peer where peer: "mget (authenticatedPeers s) m = Some peer" "peerSession peer = Some x"
        by (auto simp: bind_eq_Some_conv)
      show ?thesis
      proof (cases "decodeEncryptedSync L (sealedPayload e) x")
        case None
        with Some \<open>truthy src = Some m\<close> assms(1) show ?thesis by (auto simp: handleSyncPacket_def purge)
      next
        case d: (Some kt)
        obtain k tuple where kt: "kt = (k, tuple)" by (cases kt)
        have "\<not> peerAuthorized m k s \<or> mhas (seenSyncPackets ?s) (bytesToHex k @ '':'' @ bytesToHex (sha256 L (sealedPayload e)))"
          using assms(2) peer d kt truthy_SomeD [OF \<open>truthy src = Some m\<close>]
          by (auto simp: sync_passes_def peerAuthorized_def replay_key_def)
        with Some \<open>truthy src = Some m\<close> d kt assms(1) show ?thesis
          by (auto simp: handleSyncPacket_def purge peerAuthorized_def Let_def split: option.splits if_splits)
      qed
    qed
  qed
qed


lemma receive_sync:
  assumes "packetType (header e) = packet_code StoreForwardSync"
  shows "receiveEnvelope L T t (Suc d) e f s =
    (if \<not> fresh t e then (Inr (Dropped ''invalid header''), tidied t s)
     else handleSyncPacket L T t (receiveEnvelope L T t d) e f (tidied t s))"
  using assms by (simp add: receive_body_def chain_purge_state packet_code_def)

lemma passes_tidied: "sync_passes L t src payload (tidied t s) = sync_passes L t src payload s"
  using tidied_quiet [of s t] by (simp add: sync_passes_def quiet_def)

text \<open>C22: No session, no effect. A sync packet that no session of its neighbour authenticates, or that was
  seen in the last ten minutes, is dropped: nothing is sent, no listener is called, and the queue, the
  peers and all trust stay as they were.\<close>

theorem sync_needs_session:
  assumes "packetType (header e) = packet_code StoreForwardSync" "\<not> sync_passes L t src (sealedPayload e) s"
    and "receiveEnvelope L T t (Suc depth) e src s = (r, s')"
  shows "(\<exists>why. r = Inr (Dropped why)) \<and> sent s' = sent s \<and> events s' = events s \<and> queue s' = queue s \<and>
    authenticatedPeers s' = authenticatedPeers s \<and> (\<forall>n. neighborTrustScore n s' = neighborTrustScore n s)"
proof -
  note q = tidied_quiet [of s t] tidied_trust [of _ t s] receive_sync [OF assms(1), of L T t depth src s]
  have p: "\<not> sync_passes L t src (sealedPayload e) (tidied t s)" using assms(2) by (simp add: passes_tidied)
  show ?thesis
  proof (cases "fresh t e")
    case True
    with assms(3) q(3) have h: "handleSyncPacket L T t (receiveEnvelope L T t depth) e src (tidied t s) = (r, s')" by metis
    from sync_gate [OF h p] q(1,2) show ?thesis
      by (auto simp: quiet_def neighborTrustScore_def)
  next
    case False
    with assms(3) q(3) have "r = Inr (Dropped ''invalid header'')" "s' = tidied t s" by simp_all
    with q(1,2) show ?thesis by (simp add: quiet_def)
  qed
qed

section \<open>The window of a copy\<close>

text \<open>The table holds as many records as it can, all made at \<open>t0\<close> or later.\<close>

definition crowded :: "int \<Rightarrow> RelayNode \<Rightarrow> bool" where
  "crowded t0 s \<longleftrightarrow> length (seenSyncPackets s) = 2048 \<and> (\<forall>(k, u) \<in> set (seenSyncPackets s). t0 \<le> u)"

text \<open>The record made under \<open>k\<close> at \<open>t0\<close> is held, and everything behind it in the table is newer; or newer records fill the table.\<close>

definition remembered :: "string \<Rightarrow> int \<Rightarrow> RelayNode \<Rightarrow> bool" where
  "remembered k t0 s \<longleftrightarrow> wf_map (seenSyncPackets s) \<and> length (seenSyncPackets s) \<le> 2048 \<and>
     ((\<exists>older newer. seenSyncPackets s = older @ (k, t0) # newer \<and> (\<forall>(k', u) \<in> set newer. t0 \<le> u)) \<or> crowded t0 s)"

lemma remembered_cong: "seenSyncPackets s' = seenSyncPackets s \<Longrightarrow> remembered k t0 s' = remembered k t0 s"
  by (simp add: remembered_def crowded_def)

lemma remembered_get: "remembered k t0 s \<Longrightarrow> \<not> crowded t0 s \<Longrightarrow> mget (seenSyncPackets s) k = Some t0"
  by (auto simp: remembered_def mget_Some_iff)

lemma bounded_set_new:
  assumes "wf_map m" "\<not> mhas m k" "0 < c"
  shows "bounded_set c k v m = (if c \<le> length m then tl m else m) @ [(k, v)]"
proof (cases "c \<le> length m")
  case True
  then obtain k0 v0 m' where m: "m = (k0, v0) # m'" using assms(3) by (cases m) auto
  then have "k0 \<notin> fst ` set m'" "\<not> mhas m' k" using assms(1,2) by (auto simp: wf_map_def mhas_iff)
  moreover from this have "mdel k0 m = m'" by (force simp: m AList.delete_eq filter_id_conv)
  ultimately show ?thesis using True m by (simp add: bounded_set_def mset_at_append_new)
qed (simp add: bounded_set_def mset_at_append_new assms(2))

lemma remembered_record:
  assumes "remembered k t0 s" "t0 \<le> t" "\<not> mhas (seenSyncPackets s) k'"
  shows "remembered k t0 (s\<lparr>seenSyncPackets := bounded_set MAX_SEEN_SYNC_PACKETS k' t (seenSyncPackets s)\<rparr>)"
proof -
  let ?m = "seenSyncPackets s"
  have wf: "wf_map ?m" and len: "length ?m \<le> 2048" using assms(1) by (simp_all add: remembered_def)
  have new: "bounded_set 2048 k' t ?m = (if 2048 \<le> length ?m then tl ?m else ?m) @ [(k', t)]"
    by (rule bounded_set_new [OF wf assms(3)]) simp
  note wf' = bounded_set_wf [OF wf, of 2048 k' t]
  show ?thesis
  proof (cases "crowded t0 s")
    case True
    then have "crowded t0 (s\<lparr>seenSyncPackets := bounded_set 2048 k' t ?m\<rparr>)"
      using assms(2) by (auto simp: crowded_def new dest: list.set_sel(2) [rotated])
    then show ?thesis using wf' by (simp add: remembered_def MAX_SEEN_SYNC_PACKETS_def crowded_def)
  next
    case False
    then obtain older newer where m: "?m = older @ (k, t0) # newer" and n: "\<forall>(k', u) \<in> set newer. t0 \<le> u"
      using assms(1) by (auto simp: remembered_def)
    have "length (bounded_set 2048 k' t ?m) \<le> 2048" using bounded_set_length [OF wf len] by simp
    moreover have "(\<exists>older newer. bounded_set 2048 k' t ?m = older @ (k, t0) # newer \<and> (\<forall>(k', u) \<in> set newer. t0 \<le> u)) \<or>
        crowded t0 (s\<lparr>seenSyncPackets := bounded_set 2048 k' t ?m\<rparr>)"
    proof (cases "2048 \<le> length ?m \<and> older = []")
      case True
      then have "bounded_set 2048 k' t ?m = newer @ [(k', t)]" "length newer = 2047" unfolding new using True len m by auto
      then show ?thesis using n assms(2) by (simp add: crowded_def)
    next
      case False
      then have "bounded_set 2048 k' t ?m = (if 2048 \<le> length ?m then tl older else older) @ (k, t0) # newer @ [(k', t)]"
        unfolding new by (auto simp: m)
      then show ?thesis using n assms(2) by (intro disjI1 exI conjI) (assumption, auto)
    qed
    ultimately show ?thesis using wf' by (simp add: remembered_def MAX_SEEN_SYNC_PACKETS_def)
  qed
qed

lemma remembered_purge:
  assumes "remembered k t0 s" "t - t0 \<le> age"
  shows "remembered k t0 (snd (purgeStaleSyncReplayRecords t age s))"
proof -
  let ?P = "\<lambda>(_ :: string, u). \<not> age < t - u"
  have "filter ?P xs = xs" if "\<forall>(k', u) \<in> set xs. t0 \<le> u" for xs
    using that assms(2) by (fastforce simp: filter_id_conv)
  moreover from this have "crowded t0 (s\<lparr>seenSyncPackets := filter ?P (seenSyncPackets s)\<rparr>)" if "crowded t0 s"
    using that by (simp add: crowded_def)
  moreover have "\<not> age < t - t0" using assms(2) by simp
  moreover have "\<exists>older newer. filter ?P (a @ (k, t0) # b) = older @ (k, t0) # newer \<and> (\<forall>(k', u) \<in> set newer. t0 \<le> u)"
    if "\<forall>(k', u) \<in> set b. t0 \<le> u" for a b
    using that calculation(1,3) by (intro exI [of _ "filter ?P a"] exI [of _ b]) simp
  ultimately show ?thesis
    using assms(1) purge_seen_ok(1) [of "seenSyncPackets s" t age]
    unfolding remembered_def purgeStaleSyncReplayRecords_def purge_seen_def Let_def
    by (auto intro: order_trans [OF length_filter_le])
qed

interpretation memory: evolution "\<lambda>s s'. t0 \<le> t \<and> t \<le> t0 + SYNC_REPLAY_TTL_MS \<and> remembered k t0 s \<longrightarrow> remembered k t0 s'" for t0 t k
  by unfold_locales auto

lemma kept_memory: "sync_records.kept.evolves m \<Longrightarrow> memory.evolves t0 t k m"
  using remembered_cong unfolding memory.evolves_def sync_records.kept.evolves_def by blast

interpretation memory_steps: handlers "\<lambda>s s'. t0 \<le> t \<and> t \<le> t0 + SYNC_REPLAY_TTL_MS \<and> remembered k t0 s \<longrightarrow> remembered k t0 s'" L t source
  for t0 t k L source
proof unfold_locales
  show "memory.evolves t0 t k (purgeStaleSyncReplayRecords t SYNC_REPLAY_TTL_MS)"
    unfolding memory.evolves_def using remembered_purge by auto
  show "t0 \<le> t \<and> t \<le> t0 + SYNC_REPLAY_TTL_MS \<and> remembered k t0 s \<longrightarrow>
      remembered k t0 (s\<lparr>seenSyncPackets := bounded_set MAX_SEEN_SYNC_PACKETS k' t (seenSyncPackets s)\<rparr>)"
    if "\<not> mhas (seenSyncPackets s) k'" for s k'
    using that remembered_record by blast
qed (rule kept_memory, rule sync_records.kept_steps)+

lemma memory_snd: "memory.evolves t0 t k m \<Longrightarrow> t0 \<le> t \<Longrightarrow> t \<le> t0 + SYNC_REPLAY_TTL_MS \<Longrightarrow> remembered k t0 s \<Longrightarrow> remembered k t0 (snd (m s))"
  unfolding memory.evolves_def by blast

lemma remembered_step:
  assumes "relay_step L t s s'" "t0 \<le> t" "t \<le> t0 + SYNC_REPLAY_TTL_MS" "remembered k t0 s"
  shows "remembered k t0 s'"
proof -
  note later = assms(2-4)
  have adds: "sync_records.kept.evolves (registerAuthenticatedPeer t n key session)" "sync_records.kept.evolves (unregisterAuthenticatedPeer n)"
      "sync_records.kept.evolves (purgeStaleFragments t age)" "sync_records.kept.evolves (purgeStaleBroadcastRecords t age)"
      "sync_records.kept.evolves (purgeStaleRoutingAdvertisements t age)" for n key session age
    by (auto simp: sync_records.kept.evolves_def registerAuthenticatedPeer_def unregisterAuthenticatedPeer_def purgeStaleFragments_def on_part_def
        purgeStaleBroadcastRecords_def purgeStaleRoutingAdvertisements_def Let_def case_prod_beta split: option.splits)
  show ?thesis
    using assms(1)
  proof cases
    case (step_frame T depth n f)
    have "remembered k t0 (s\<lparr>reassembler := R\<rparr>) = remembered k t0 s" for s R by (rule remembered_cong) simp
    then have "t0 \<le> t \<and> t \<le> t0 + SYNC_REPLAY_TTL_MS \<and> remembered k t0 s \<longrightarrow> remembered k t0 (receiveFrame L T t depth n f s)"
      by (intro memory_steps.frame_ok [where source = "Some n"]) simp_all
    then show ?thesis using later step_frame by simp
  next
    case (step_purge_replays age)
    then show ?thesis using remembered_purge [OF assms(4)] later by simp
  qed (use later memory_snd [OF memory_steps.sendEnvelope_ok] memory_snd [OF memory_steps.sendAck_ok] memory_snd [OF memory_steps.broadcast_ok]
      memory_snd [OF memory_steps.initiateSync_ok] memory_snd [OF memory_steps.receiveAdvertisement_ok] memory_snd [OF kept_memory [OF adds(1)]]
      memory_snd [OF kept_memory [OF adds(2)]] memory_snd [OF kept_memory [OF adds(3)]] memory_snd [OF kept_memory [OF adds(4)]]
      memory_snd [OF kept_memory [OF adds(5)]] memory_snd [OF kept_memory [OF sync_records.kept_purge]] in \<open>simp_all\<close>)
qed

text \<open>What happens to a node from one moment to another.\<close>

inductive relay_run :: "lib \<Rightarrow> int \<Rightarrow> RelayNode \<Rightarrow> int \<Rightarrow> RelayNode \<Rightarrow> bool" for L t s where
  run_start: "relay_run L t s t s"
| run_step: "relay_run L t s t1 s1 \<Longrightarrow> t1 \<le> t2 \<Longrightarrow> relay_step L t2 s1 s2 \<Longrightarrow> relay_run L t s t2 s2"

lemma run_later: "relay_run L t s t' s' \<Longrightarrow> t \<le> t'"
  by (induction rule: relay_run.induct) auto

lemma run_relay_ok: "relay_run L t s t' s' \<Longrightarrow> relay_ok L t s \<Longrightarrow> relay_ok L t' s'"
  by (induction rule: relay_run.induct) (auto intro: relay_step_ok relay_ok_mono)

lemma run_remembered: "relay_run L t s t' s' \<Longrightarrow> t' \<le> t + SYNC_REPLAY_TTL_MS \<Longrightarrow> remembered k t s \<Longrightarrow> remembered k t s'"
proof (induction rule: relay_run.induct)
  case (run_step t1 s1 t2 s2)
  have "t \<le> t2" using run_later [OF run_step.hyps(1)] run_step.hyps(2) by simp
  then show ?case using run_step by (intro remembered_step [OF run_step.hyps(3)]) simp_all
qed

text \<open>A packet that passes the gate is recorded before it is looked at.\<close>

lemma sync_dispatch:
  assumes "sync_passes L t (Some m) (sealedPayload e) s" "mget (authenticatedPeers s) m = Some peer" "m \<noteq> []"
  obtains x kind v where "peerSession peer = Some x" "decodeEncryptedSync L (sealedPayload e) x = Some (peerIdentityKey peer, JArr [kind, v])"
    "strict_number kind \<in> {Num 0, Num 1, Num 2}"
    "\<And>T recv. handleSyncPacket L T t recv e (Some m) s =
      (if strict_number kind = Num 0 then sync_summary L T t e m x v
       else if strict_number kind = Num 1 then sync_request L T t e m x v else sync_transfer L recv e m v)
      (s\<lparr>seenSyncPackets := bounded_set MAX_SEEN_SYNC_PACKETS (replay_key L (peerIdentityKey peer) (sealedPayload e)) t
        (purge_seen t SYNC_REPLAY_TTL_MS (seenSyncPackets s))\<rparr>)"
proof -
  let ?p = "purge_seen t SYNC_REPLAY_TTL_MS (seenSyncPackets s)" and ?key = "replay_key L (peerIdentityKey peer) (sealedPayload e)"
  obtain x tuple where p: "peerSession peer = Some x" "decodeEncryptedSync L (sealedPayload e) x = Some (peerIdentityKey peer, tuple)"
    and new: "\<not> mhas ?p ?key"
    using assms(1,2) unfolding sync_passes_def by auto
  obtain kind v i where tuple: "tuple = JArr [kind, v]" "strict_number kind = Num i" "0 \<le> i" "i \<le> 2"
    using decodeEncryptedSync_sender [OF p(2)] by blast
  then have "strict_number kind \<in> {Num 0, Num 1, Num 2}" by auto
  moreover have m: "truthy (Some m) = Some m" using assms(3) by (auto simp: truthy_def split: list.splits)
  have purge: "chain (purgeStaleSyncReplayRecords t SYNC_REPLAY_TTL_MS) k s = k (length (seenSyncPackets s) - length ?p) (s\<lparr>seenSyncPackets := ?p\<rparr>)"
    for k :: "nat \<Rightarrow> DeliveryResult relay"
    by (simp add: chain_def purgeStaleSyncReplayRecords_def Let_def)
  have "handleSyncPacket L T t recv e (Some m) s =
      (if strict_number kind = Num 0 then sync_summary L T t e m x v
       else if strict_number kind = Num 1 then sync_request L T t e m x v else sync_transfer L recv e m v)
      (s\<lparr>seenSyncPackets := bounded_set MAX_SEEN_SYNC_PACKETS ?key t ?p\<rparr>)" for T recv
    using new by (simp add: handleSyncPacket_def m assms(2) p purge peerAuthorized_def Let_def replay_key_def tuple(1))
  ultimately show thesis by (rule that [OF p [unfolded tuple(1)]])
qed

lemma sync_recorded:
  assumes "handleSyncPacket L T t (receiveEnvelope L T t depth) e (Some m) s = (r, s')" "sync_passes L t (Some m) (sealedPayload e) s" "relay_ok L t s"
    and "mget (authenticatedPeers s) m = Some peer" "m \<noteq> []"
  shows "remembered (replay_key L (peerIdentityKey peer) (sealedPayload e)) t s'"
proof -
  let ?recv = "receiveEnvelope L T t depth" and ?p = "purge_seen t SYNC_REPLAY_TTL_MS (seenSyncPackets s)"
  let ?key = "replay_key L (peerIdentityKey peer) (sealedPayload e)"
  let ?s = "s\<lparr>seenSyncPackets := bounded_set MAX_SEEN_SYNC_PACKETS ?key t ?p\<rparr>"
  obtain x kind v where d: "handleSyncPacket L T t ?recv e (Some m) s = (if strict_number kind = Num 0 then sync_summary L T t e m x v
      else if strict_number kind = Num 1 then sync_request L T t e m x v else sync_transfer L ?recv e m v) ?s"
    by (rule sync_dispatch [OF assms(2,4,5)]) blast
  have new: "\<not> mhas ?p ?key" using assms(2,4) by (auto simp: sync_passes_def)
  have start: "remembered ?key t ?s"
  proof -
    have wf: "wf_map ?p" and len: "length ?p \<le> 2048" using assms(3) by (auto simp: relay_ok_def purge_seen_ok)
    have "bounded_set 2048 ?key t ?p = (if 2048 \<le> length ?p then tl ?p else ?p) @ [(?key, t)]" by (rule bounded_set_new [OF wf new]) simp
    then have "\<exists>older newer. bounded_set 2048 ?key t ?p = older @ (?key, t) # newer \<and> (\<forall>(k', u) \<in> set newer. t \<le> u)"
      by (intro exI [of _ "if 2048 \<le> length ?p then tl ?p else ?p"] exI [of _ "[]"]) simp
    then show ?thesis
      using bounded_set_wf [OF wf, of 2048 ?key t] bounded_set_length [OF wf len, of ?key t] by (simp add: remembered_def MAX_SEEN_SYNC_PACKETS_def)
  qed
  have recv: "memory.evolves t t ?key (?recv e (Some m))" for e by (rule memory_steps.receive_ok [where source = "Some m"]) simp
  have "memory.evolves t t ?key (sync_transfer L ?recv e m v)"
    unfolding sync_transfer_def by (intro memory.evolves_intros memory_steps.transfer_loop_ok recv)
  moreover have "memory.evolves t t ?key (sync_summary L T t e m x v)" "memory.evolves t t ?key (sync_request L T t e m x v)"
    unfolding sync_summary_def sync_request_def Let_def
    by (intro memory.evolves_intros memory_steps.missing_ok memory_steps.sendSync_ok memory_steps.step_read)+
  ultimately have "memory.evolves t t ?key (if strict_number kind = Num 0 then sync_summary L T t e m x v
      else if strict_number kind = Num 1 then sync_request L T t e m x v else sync_transfer L ?recv e m v)" by simp
  from memory_snd [OF this _ _ start] show ?thesis unfolding d [symmetric] assms(1) by (simp add: SYNC_REPLAY_TTL_MS_def)
qed


text \<open>A node with a synchronised peer, and the empty summary that peer sends.\<close>

definition synced_node :: RelayNode where
  "synced_node = snd (registerAuthenticatedPeer 1700000040000 ''n1'' (publicKey bob) (Some session_b) (new_relay ref_lib alice))"

lemma synced_node:
  "relay_history ref_lib 1700000040000 synced_node"
  "authenticatedPeers synced_node = [(''n1'', \<lparr>peerIdentityKey = publicKey bob, establishedAt = 1700000040000, peerSession = Some session_b\<rparr>)]"
  "seenSyncPackets synced_node = []" "pendingAcks synced_node = []" "sent synced_node = []"
proof -
  show "relay_history ref_lib 1700000040000 synced_node"
    unfolding synced_node_def by (rule register [OF start [of _ 1700000040000] order_refl]) simp_all
qed (simp_all add: synced_node_def registerAuthenticatedPeer_def new_relay_def bob_def session_b_def)

definition summary_envelope :: "bytes \<Rightarrow> Envelope" where
  "summary_envelope payload = createSyncEnvelope 1700000050000 (replicate 16 7) payload DEFAULT_TTL"

lemma test_summary:
  obtains payload where "decodeEncryptedSync ref_lib payload session_b = Some (publicKey bob, JArr [JNum (Num 0), JArr []])"
    "packetType (header (summary_envelope payload)) = packet_code StoreForwardSync"
    "sealedPayload (summary_envelope payload) = payload"
    "\<exists>s'. receiveEnvelope ref_lib open_transport 1700000050000 1 (summary_envelope payload) (Some ''n1'') synced_node
      = (Inr (Delivered (summary_envelope payload)), s') \<and> seenSyncPackets s' = [(replay_key ref_lib (publicKey bob) payload, 1700000050000)]"
proof -
  obtain payload where d: "decodeEncryptedSync ref_lib payload session_b = Some (publicKey bob, JArr [JNum (Num 0), JArr []])"
    using sync_decode_encode [OF ref_cbor ref_aead_correct, of session_a session_b "replicate 24 1" "publicKey bob" "SyncSummary []"]
    by (auto simp: session_a_def session_b_def bob_def inner_tuple_def)
  let ?e = "summary_envelope payload"
  have e: "packetType (header ?e) = packet_code StoreForwardSync" "sealedPayload ?e = payload"
    by (simp_all add: summary_envelope_def createSyncEnvelope_def)
  have fr: "fresh 1700000050000 ?e"
    by (simp add: summary_envelope_def createSyncEnvelope_def make_header_def coarseTimestamp_def TIMESTAMP_GRANULARITY_SECONDS_def
        DEFAULT_TTL_def PROTOCOL_VERSION_def STORE_FORWARD_MAX_AGE_SECONDS_def validate_Num [of _ 1700000040])
  let ?s = "tidied 1700000050000 synced_node"
  have s: "authenticatedPeers ?s = authenticatedPeers synced_node" "seenSyncPackets ?s = []"
    using tidied_quiet [of synced_node 1700000050000] synced_node by (simp_all add: quiet_def)
  let ?s1 = "?s\<lparr>seenSyncPackets := [(replay_key ref_lib (publicKey bob) payload, 1700000050000)]\<rparr>"
  have summary: "sync_summary ref_lib open_transport 1700000050000 ?e n x (JArr []) s' = (Inr (Delivered ?e), s')" for n x s'
    by (simp add: sync_summary_def elements_def)
  have "handleSyncPacket ref_lib open_transport 1700000050000 recv ?e (Some ''n1'') ?s = (Inr (Delivered ?e), ?s1)" for recv
    using s synced_node(2) d e summary
    by (simp add: handleSyncPacket_def truthy_def purgeStaleSyncReplayRecords_def chain_def peerAuthorized_def purge_seen_def Let_def
        bounded_set_def MAX_SEEN_SYNC_PACKETS_def replay_key_def)
  then have "receiveEnvelope ref_lib open_transport 1700000050000 1 ?e (Some ''n1'') synced_node = (Inr (Delivered ?e), ?s1)"
    using receive_sync [OF e(1), of ref_lib open_transport 1700000050000 0 "Some ''n1''" synced_node] fr
    by (simp del: receiveEnvelope.simps)
  then show thesis using that [OF d e] by simp
qed

theorem sync_needs_session_witness:
  "fst (receiveEnvelope ref_lib open_transport 1700000050000 1 (summary_envelope []) (Some ''n2'') synced_node) \<noteq>
    Inr (Delivered (summary_envelope []))"
proof -
  have "\<not> sync_passes ref_lib 1700000050000 (Some ''n2'') [] synced_node"
    using synced_node(2) by (simp add: sync_passes_def)
  moreover have "packetType (header (summary_envelope [])) = packet_code StoreForwardSync" "sealedPayload (summary_envelope []) = []"
    by (simp_all add: summary_envelope_def createSyncEnvelope_def make_header_def)
  ultimately show ?thesis
    using sync_needs_session [of "summary_envelope []" ref_lib 1700000050000 "Some ''n2''" synced_node open_transport 0]
    by (metis (no_types, lifting) DeliveryResult.distinct(7) One_nat_def prod.collapse sum.inject(2))
qed


end
