(* ===== verification/RelayDelivery.thy ===== *)
theory RelayDelivery
  imports RelaySync
begin

text \<open>
  Local delivery, and what can change the trust a node has in a neighbour.
\<close>

section \<open>Local delivery\<close>

lemma send_events: "events (snd (sendEnvelopeOverTransport L T n e s)) = events s"
  by (simp add: sendEnvelopeOverTransport_sent split: sum.splits)

lemma send_keeps: "queue (snd (sendEnvelopeOverTransport L T n e s)) = queue s"
  "neighborTrust (snd (sendEnvelopeOverTransport L T n e s)) = neighborTrust s"
  "pendingAcks (snd (sendEnvelopeOverTransport L T n e s)) = pendingAcks s"
  "limits (snd (sendEnvelopeOverTransport L T n e s)) = limits s"
  "seenBroadcasts (snd (sendEnvelopeOverTransport L T n e s)) = seenBroadcasts s"
  by (simp_all add: sendEnvelopeOverTransport_sent split: sum.splits)

interpretation mute: evolution "\<lambda>s s'. events s' = events s"
  by unfold_locales simp_all

lemma mute_relay_on: "mute.evolves (relay_on L T t e f)"
proof -
  have hop: "mute.evolves (find_hop t h)" for h
    using hush_find_hop [of t h] unfolding mute.evolves_def hush.evolves_def quiet_def by blast
  have send: "mute.evolves (sendEnvelopeOverTransport L T n e)" for n e
    unfolding mute.evolves_def by (simp add: send_events)
  have c: "mute.evolves (recordPendingAck t i n h)" "mute.evolves (change (\<lambda>s. s\<lparr>pendingAcks := g s\<rparr>))" for i n h g
    unfolding recordPendingAck_def by (rule mute.evolves_change; simp)+
  have q: "mute.evolves (on_queue g)" for g :: "StoreForwardQueue \<Rightarrow> 'a \<times> StoreForwardQueue"
    by (rule mute.evolves_on_part) simp
  show ?thesis
    unfolding relay_on_def forwardOverTransport_def relay_store_def Let_def
    by (intro mute.evolves_intros hop send c q)
qed

lemma receive_data:
  assumes "packetType (header e) = packet_code Data"
  shows "receiveEnvelope L T t (Suc d) e f s =
    (if \<not> fresh t e then (Inr (Dropped ''invalid header''), tidied t s)
     else if destinationHint (header e) = ownDestinationHint s
     then (Inr (Delivered e), (tidied t s)\<lparr>events := events s @ [DeliveryListener e]\<rparr>)
     else relay_on L T t e f (tidied t s))"
  using assms tidied_quiet [of s t]
  by (simp add: receive_body_def chain_purge_state ack_gate_def quiet_def packet_code_def deliver_local_def)

text \<open>Local delivery. A data packet is handed to the delivery listener exactly when its header is valid and
  it is addressed to this node, exactly once, and then nothing is sent or queued for it; any other data
  packet calls no listener and is never reported as delivered.\<close>

theorem delivered_exactly:
  assumes "packetType (header e) = packet_code Data" "receiveEnvelope L T t (Suc depth) e src s = (r, s')"
  shows "events s' = events s @
      (if validateRoutingHeader t 3600 (header e) \<and> destinationHint (header e) = ownDestinationHint s
       then [DeliveryListener e] else []) \<and>
    (r = Inr (Delivered e) \<longleftrightarrow> validateRoutingHeader t 3600 (header e) \<and> destinationHint (header e) = ownDestinationHint s) \<and>
    (r = Inr (Delivered e) \<longrightarrow> sent s' = sent s \<and> queue s' = queue s)"
proof -
  have "events (snd (relay_on L T t e src (tidied t s))) = events s"
    using mute_relay_on [of L T t e src] tidied_quiet [of s t] unfolding mute.evolves_def quiet_def by metis
  moreover have "fst (relay_on L T t e src (tidied t s)) \<noteq> Inr (Delivered e)"
  proof -
    have "yields (\<lambda>x. x \<noteq> Delivered e) (relay_store L t e f)" for f
      unfolding relay_store_def by (intro yields_intros) (simp split: StoreResult.splits)
    then have "yields (\<lambda>x. x \<noteq> Delivered e) (relay_on L T t e src)"
      unfolding relay_on_def Let_def by (intro yields_intros) simp_all
    then show ?thesis unfolding yields_def by blast
  qed
  moreover obtain r' s'' where "relay_on L T t e src (tidied t s) = (r', s'')" by (cases "relay_on L T t e src (tidied t s)")
  moreover note tidied_quiet [of s t] receive_data [OF assms(1), of L T t depth src s]
  ultimately show ?thesis
    using assms(2) by (auto simp: quiet_def STORE_FORWARD_MAX_AGE_SECONDS_def simp del: receiveEnvelope.simps split: if_splits)
qed

definition own_envelope :: Envelope where
  "own_envelope = test_envelope\<lparr>header := (header test_envelope)\<lparr>destinationHint := computeDestinationHint ref_lib (publicKey alice)\<rparr>\<rparr>"

theorem delivered_exactly_witness:
  "events (snd (receiveEnvelope ref_lib open_transport 1700000050000 1 own_envelope (Some ''n1'') (new_relay ref_lib alice)))
    = [DeliveryListener own_envelope]"
proof -
  have "validateRoutingHeader 1700000050000 3600 (header own_envelope)"
    by (simp add: own_envelope_def validate_Num [of _ 1700000040] test_envelope_def)
  then show ?thesis
    using delivered_exactly [of own_envelope ref_lib open_transport 1700000050000 0 "Some ''n1''" "new_relay ref_lib alice"]
    by (simp add: own_envelope_def test_envelope_def packet_code_def new_relay_def prod_eq_iff del: receiveEnvelope.simps)
qed

section \<open>Trust\<close>

lemma no_trust:
  assumes "still.evolves None m" "m s = (r, s')"
  shows "neighborTrustScore n s' = neighborTrustScore n s"
  using still.evolvesD [OF assms] by (simp add: stays_local_def truthy_def neighborTrustScore_def mget_or_def)

lemma tidied_pending:
  assumes "relay_ok L t s"
  shows "mget (pendingAcks (tidied t s)) k = Some p \<longleftrightarrow> mget (pendingAcks s) k = Some p \<and> t - sentAt p < 30000"
proof -
  have "pendingAcks (tidied t s) = pendingAcks (snd (expirePendingAcks t s))"
    by (simp add: purgeStaleRoutingState_def expirePendingAcks_def chain_def on_part_def case_prod_beta)
  then show ?thesis
    using expiring_acks.sweep_mget [OF assms, of "\<lambda>mid p. \<not> t - sentAt p < ROUTE_ACK_TIMEOUT_MS" k p]
    by (simp add: expirePendingAcks_def case_prod_beta ROUTE_ACK_TIMEOUT_MS_def ROUTE_PROBATION_MS_def)
qed

lemma relay_on_pending:
  assumes "packetType (header e) \<noteq> packet_code Data"
  shows "pendingAcks (snd (relay_on L T t e f s)) = pendingAcks s" "neighborTrustScore m (snd (relay_on L T t e f s)) = neighborTrustScore m s"
proof -
  have hop: "pendingAcks (snd (find_hop t h s)) = pendingAcks s" for h s by (simp add: find_hop_table)
  have store: "pendingAcks (snd (relay_store L t e src s)) = pendingAcks s" for src s
    by (simp add: relay_store_def split: prod.splits)
  have fw: "pendingAcks (snd (forwardOverTransport L T t e h s)) = pendingAcks s" for h s
    using assms by (auto simp: forwardOverTransport_def chain_def send_keeps sendEnvelopeOverTransport_sent Let_def split: sum.splits)
  show "pendingAcks (snd (relay_on L T t e f s)) = pendingAcks s"
    unfolding relay_on_def Let_def
    by (auto simp: chain_def hop store fw split: prod.splits sum.splits option.splits if_splits)
      (metis hop store fw snd_conv)+
  show "neighborTrustScore m (snd (relay_on L T t e f s)) = neighborTrustScore m s"
    using no_trust [OF loc.relay_on_ok, of L T t e f s] by (metis prod.collapse)
qed


text \<open>
  The envelopes inside a packet from a peer: those of the transfer it is, if a session of the peer opens it as one, and
  so on inward. Only these can be acknowledgements the peer is credited for.
\<close>

definition transferred :: "lib \<Rightarrow> AuthenticatedPeer option \<Rightarrow> Envelope \<Rightarrow> Envelope list" where
  "transferred L peer e =
     (if packetType (header e) \<noteq> packet_code StoreForwardSync then []
      else case peer of None \<Rightarrow> [] | Some p \<Rightarrow> (case peerSession p of None \<Rightarrow> [] | Some x \<Rightarrow>
        (case decodeEncryptedSync L (sealedPayload e) x of
           Some (k, JArr [kind, v]) \<Rightarrow>
             if k = peerIdentityKey p \<and> strict_number kind = Num 2
             then List.map_filter (\<lambda>w. case rbind (uint8_from w) (decodeEnvelope L) of Inl _ \<Rightarrow> None | Inr e' \<Rightarrow> Some e') (elements v) else []
         | _ \<Rightarrow> [])))"

fun carried_envelopes :: "lib \<Rightarrow> AuthenticatedPeer option \<Rightarrow> nat \<Rightarrow> Envelope \<Rightarrow> Envelope list" where
  "carried_envelopes L peer 0 e = []"
| "carried_envelopes L peer (Suc d) e = e # concat (map (carried_envelopes L peer d) (transferred L peer e))"

text \<open>
  The node waited for the acknowledgement: for at most thirty seconds, after it had passed the message on to this
  neighbour for the destination the signer's key hashes to; or the message came with the same packet.
\<close>

definition waited_for :: "string \<Rightarrow> int \<Rightarrow> Envelope list \<Rightarrow> RelayNode \<Rightarrow> VerifiedAck \<Rightarrow> bool" where
  "waited_for n t es s ack \<longleftrightarrow>
     (\<exists>p. mget (pendingAcks s) (bytesToHex (acknowledgedMessageId ack)) = Some p \<and> ackNeighborId p = n \<and>
        ackDestinationHint p = signerDestinationHint ack \<and> t - sentAt p < 30000) \<or>
     (\<exists>d \<in> set es. packetType (header d) = packet_code Data \<and> id_hex d = bytesToHex (acknowledgedMessageId ack) \<and>
        destinationHint (header d) = signerDestinationHint ack)"

definition earns :: "lib \<Rightarrow> string \<Rightarrow> int \<Rightarrow> Envelope list \<Rightarrow> RelayNode \<Rightarrow> RelayNode \<Rightarrow> bool" where
  "earns L n t es s s' \<longleftrightarrow>
     (\<exists>acks. subseq acks (List.map_filter (verifyAckEnvelope L) es) \<and> (acks \<noteq> [] \<longrightarrow> isAuthenticatedPeer n s) \<and>
        neighborTrustScore n s' = neighborTrustScore n s + int (length acks) \<and> (\<forall>ack \<in> set acks. waited_for n t es s ack)) \<and>
     (\<forall>k p. mget (pendingAcks s') k = Some p \<longrightarrow> mget (pendingAcks s) k = Some p \<or>
        (\<exists>d \<in> set es. packetType (header d) = packet_code Data \<and> id_hex d = k \<and> ackDestinationHint p = destinationHint (header d))) \<and>
     authenticatedPeers s' = authenticatedPeers s"

lemma earns_nothing:
  assumes "neighborTrustScore n s' = neighborTrustScore n s" "\<And>k p. mget (pendingAcks s') k = Some p \<Longrightarrow> mget (pendingAcks s) k = Some p"
    and "authenticatedPeers s' = authenticatedPeers s"
  shows "earns L n t es s s'"
  unfolding earns_def using assms by (intro conjI exI [of _ "[]"]) simp_all

lemma map_filter_append: "List.map_filter f (xs @ ys) = List.map_filter f xs @ List.map_filter f ys"
  by (simp add: List.map_filter_def)

lemma waited_for_mono: "waited_for n t es s ack \<Longrightarrow> set es \<subseteq> set es' \<Longrightarrow> waited_for n t es' s ack"
  unfolding waited_for_def by blast

lemma waited_for_before:
  assumes "waited_for n t es s1 ack" "earns L n t ds s s1"
  shows "waited_for n t (ds @ es) s ack"
  using assms unfolding waited_for_def earns_def by fastforce

lemma earns_append:
  assumes "earns L n t ds s s1" "earns L n t es s1 s2"
  shows "earns L n t (ds @ es) s s2"
proof -
  obtain xs where xs: "subseq xs (List.map_filter (verifyAckEnvelope L) ds)" "xs \<noteq> [] \<longrightarrow> isAuthenticatedPeer n s"
    "neighborTrustScore n s1 = neighborTrustScore n s + int (length xs)" "\<forall>ack \<in> set xs. waited_for n t ds s ack"
    using assms(1) unfolding earns_def by blast
  obtain ys where ys: "subseq ys (List.map_filter (verifyAckEnvelope L) es)" "ys \<noteq> [] \<longrightarrow> isAuthenticatedPeer n s1"
    "neighborTrustScore n s2 = neighborTrustScore n s1 + int (length ys)" "\<forall>ack \<in> set ys. waited_for n t es s1 ack"
    using assms(2) unfolding earns_def by blast
  have peers: "authenticatedPeers s1 = authenticatedPeers s" "authenticatedPeers s2 = authenticatedPeers s1" using assms by (simp_all add: earns_def)
  have "subseq (xs @ ys) (List.map_filter (verifyAckEnvelope L) (ds @ es))"
    unfolding map_filter_append by (rule list_emb_append_mono [OF xs(1) ys(1)])
  moreover have "\<forall>ack \<in> set (xs @ ys). waited_for n t (ds @ es) s ack"
    using xs(4) ys(4) waited_for_mono [of n t ds s _ "ds @ es"] waited_for_before [OF _ assms(1)] by auto
  moreover have "mget (pendingAcks s) k = Some p \<or> (\<exists>d \<in> set (ds @ es). packetType (header d) = packet_code Data \<and> id_hex d = k \<and>
      ackDestinationHint p = destinationHint (header d))" if "mget (pendingAcks s2) k = Some p" for k p
    using that assms unfolding earns_def by (metis Un_iff set_append)
  ultimately show ?thesis
    unfolding earns_def using xs(2,3) ys(2,3) peers by (intro conjI exI [of _ "xs @ ys"]) (auto simp: isAuthenticatedPeer_def)
qed

lemma earns_more:
  assumes "earns L n t ds s s'" "subseq ds es"
  shows "earns L n t es s s'"
proof -
  obtain xs where xs: "subseq xs (List.map_filter (verifyAckEnvelope L) ds)" "xs \<noteq> [] \<longrightarrow> isAuthenticatedPeer n s"
    "neighborTrustScore n s' = neighborTrustScore n s + int (length xs)" "\<forall>ack \<in> set xs. waited_for n t ds s ack"
    using assms(1) unfolding earns_def by blast
  have sub: "set ds \<subseteq> set es" using list_emb_set [OF assms(2)] by blast
  have "subseq (List.map_filter (verifyAckEnvelope L) ds) (List.map_filter (verifyAckEnvelope L) es)"
    unfolding List.map_filter_def by (intro subseq_map subseq_filter assms(2))
  then have "subseq xs (List.map_filter (verifyAckEnvelope L) es)" by (rule subseq_order.trans [OF xs(1)])
  moreover have "\<forall>ack \<in> set xs. waited_for n t es s ack" using xs(4) waited_for_mono [OF _ sub] by blast
  ultimately show ?thesis
    using assms(1) sub xs(2,3) unfolding earns_def by (intro conjI exI [of _ xs]) blast+
qed


section \<open>What a packet earns\<close>

interpretation idle: evolution "\<lambda>s s'. neighborTrust s' = neighborTrust s \<and> pendingAcks s' = pendingAcks s"
  by unfold_locales simp_all

lemma idle_steps: "idle.evolves (on_queue g)" "idle.evolves (draw L i)" "idle.evolves (sendEnvelopeOverTransport L T n e)"
    "idle.evolves (missing_ids t ids)"
proof -
  show q: "idle.evolves (on_queue g)" for g :: "StoreForwardQueue \<Rightarrow> 'c \<times> StoreForwardQueue"
    by (rule idle.evolves_on_part) simp
  show "idle.evolves (draw L i)" "idle.evolves (sendEnvelopeOverTransport L T n e)"
    unfolding idle.evolves_def by (simp_all add: draw_def send_keeps)
  show "idle.evolves (missing_ids t ids)"
    by (induction ids) (simp_all only: missing_ids.simps idle.evolves_ret, intro idle.evolves_intros q)
qed

lemma idle_handlers: "idle.evolves (sync_summary L T t e m x v)" "idle.evolves (sync_request L T t e m x v)"
    "idle.evolves (handleBroadcastPacket L T t e f)" "idle.evolves (deliver_local L e)"
proof -
  have c: "idle.evolves (change (\<lambda>s. s\<lparr>events := g s\<rparr>))" "idle.evolves (change (\<lambda>s. s\<lparr>seenBroadcasts := h s\<rparr>))" for g h
    by (rule idle.evolves_change; simp)+
  have v: "idle.evolves (on_part limits (\<lambda>l. limits_update (\<lambda>_. l)) k)" for k :: "BroadcastLimits \<Rightarrow> 'd \<times> BroadcastLimits"
    by (rule idle.evolves_on_part) simp
  show "idle.evolves (sync_summary L T t e m x v)" "idle.evolves (sync_request L T t e m x v)"
    unfolding sync_summary_def sync_request_def sendSync_def Let_def by (intro idle.evolves_intros idle_steps)+
  show "idle.evolves (handleBroadcastPacket L T t e f)" "idle.evolves (deliver_local L e)"
    unfolding handleBroadcastPacket_def deliver_local_def Let_def by (intro idle.evolves_intros idle_steps c v)+
qed

lemma earns_idle:
  assumes "idle.evolves m" "still.evolves source m"
  shows "earns L n t es s (snd (m s))"
  using assms by (intro earns_nothing) (simp_all add: idle.evolves_def still.evolves_def stays_local_def neighborTrustScore_def)

lemma earns_tidied: "relay_ok L t s \<Longrightarrow> earns L n t es s (tidied t s)"
  using tidied_pending tidied_quiet [of s t] by (intro earns_nothing tidied_trust) (simp_all add: quiet_def)

text \<open>The gate credits the neighbour for the packet itself.\<close>

lemma gate_earns:
  assumes "relay_ok L t s" "ack_gate L t e (Some n) (tidied t s) = (r, s1)"
  shows "earns L n t [e] s s1" "neighborTrustScore n s1 \<noteq> neighborTrustScore n s \<Longrightarrow>
    \<exists>ack. verifyAckEnvelope L e = Some ack \<and> mget (pendingAcks s1) (bytesToHex (acknowledgedMessageId ack)) = None"
proof -
  let ?s = "tidied t s"
  have peers: "authenticatedPeers s1 = authenticatedPeers s"
    using still.evolvesD [OF loc.ack_gate_ok [of "Some n" "Some n"] assms(2)] tidied_quiet [of s t] by (simp add: stays_local_def quiet_def)
  have trust: "neighborTrustScore n ?s = neighborTrustScore n s" by (rule tidied_trust)
  have cases: "neighborTrust s1 = neighborTrust ?s \<and> pendingAcks s1 = pendingAcks ?s \<or>
    (\<exists>ack p. verifyAckEnvelope L e = Some ack \<and> mget (pendingAcks ?s) (bytesToHex (acknowledgedMessageId ack)) = Some p \<and>
       ackNeighborId p = n \<and> ackDestinationHint p = signerDestinationHint ack \<and> mget (authenticatedPeers ?s) n \<noteq> None \<and>
       neighborTrustScore n s1 = neighborTrustScore n ?s + 1 \<and> pendingAcks s1 = mdel (bytesToHex (acknowledgedMessageId ack)) (pendingAcks ?s))"
    using assms(2)
    by (auto simp: ack_gate_def truthy_def processPendingAck_def Let_def chain_def neighborTrustScore_def mget_or_def
        split: option.splits list.splits if_splits sum.splits prod.splits)
  show "earns L n t [e] s s1"
    using cases
  proof (elim disjE exE conjE)
    fix ack p
    assume ack: "verifyAckEnvelope L e = Some ack" "mget (pendingAcks ?s) (bytesToHex (acknowledgedMessageId ack)) = Some p"
      "ackNeighborId p = n" "ackDestinationHint p = signerDestinationHint ack" "mget (authenticatedPeers ?s) n \<noteq> None"
      "neighborTrustScore n s1 = neighborTrustScore n ?s + 1" "pendingAcks s1 = mdel (bytesToHex (acknowledgedMessageId ack)) (pendingAcks ?s)"
    have "mget (pendingAcks s) (bytesToHex (acknowledgedMessageId ack)) = Some p" "t - sentAt p < 30000"
      using ack(2) tidied_pending [OF assms(1)] by blast+
    then have "waited_for n t [e] s ack" using ack(3,4) unfolding waited_for_def by blast
    moreover have "isAuthenticatedPeer n s" using ack(5) tidied_quiet [of s t] by (simp add: isAuthenticatedPeer_def mhas_def quiet_def)
    moreover have "mget (pendingAcks s) k = Some q" if "mget (pendingAcks s1) k = Some q" for k q
      using that ack(7) tidied_pending [OF assms(1), of k q] by (simp split: if_splits)
    ultimately show ?thesis
      unfolding earns_def using ack(1,6) trust peers by (intro conjI exI [of _ "[ack]"]) (auto simp: map_filter_simps)
  qed (use tidied_pending [OF assms(1)] trust peers in \<open>auto intro: earns_nothing simp: neighborTrustScore_def\<close>)
  show "\<exists>ack. verifyAckEnvelope L e = Some ack \<and> mget (pendingAcks s1) (bytesToHex (acknowledgedMessageId ack)) = None"
    if "neighborTrustScore n s1 \<noteq> neighborTrustScore n s"
    using cases that trust by (auto simp: neighborTrustScore_def)
qed

text \<open>Relaying a message makes the node wait for its acknowledgement.\<close>

interpretation entries: evolution "\<lambda>s s'. \<forall>k p. mget (pendingAcks s') k = Some p \<longrightarrow>
    mget (pendingAcks s) k = Some p \<or> k = id_hex e \<and> ackDestinationHint p = destinationHint (header e)" for e
  by unfold_locales blast+

lemma relay_on_entries: "entries.evolves e (relay_on L T t e f)"
proof -
  have idle: "entries.evolves e m" if "idle.evolves m" for m :: "'c relay"
    using that by (simp add: idle.evolves_def entries.evolves_def)
  have bounded: "mget (bounded_set c k v m) k' = Some p \<Longrightarrow> k' = k \<and> p = v \<or> mget m k' = Some p" for c k k' v p and m :: "(string, PendingAck) jsmap"
    by (auto simp: bounded_set_def split: if_splits list.splits)
  have adds: "entries.evolves e (recordPendingAck t (messageId (header e)) h (destinationHint (header e)))" for h
    unfolding recordPendingAck_def by (rule entries.evolves_change) (auto dest!: bounded)
  have del: "entries.evolves e (change (\<lambda>s. s\<lparr>pendingAcks := mdel k (pendingAcks s)\<rparr>))" for k
    by (rule entries.evolves_change) (simp split: if_splits)
  have hop: "idle.evolves (find_hop t h)" for h unfolding idle.evolves_def by (simp add: find_hop_table)
  show ?thesis
    unfolding relay_on_def forwardOverTransport_def relay_store_def Let_def
    by (intro entries.evolves_intros idle [OF hop] idle [OF idle_steps(1)] idle [OF idle_steps(3)] adds del)
qed

lemma earns_then:
  assumes "earns L n t es s s1" "neighborTrustScore n s2 = neighborTrustScore n s1" "authenticatedPeers s2 = authenticatedPeers s1"
    and "\<And>k p. mget (pendingAcks s2) k = Some p \<Longrightarrow> mget (pendingAcks s1) k = Some p \<or>
      (\<exists>d \<in> set es. packetType (header d) = packet_code Data \<and> id_hex d = k \<and> ackDestinationHint p = destinationHint (header d))"
  shows "earns L n t es s s2"
  using assms unfolding earns_def by metis

lemma relay_on_earns: "earns L n t [e] s s1 \<Longrightarrow> earns L n t [e] s (snd (relay_on L T t e f s1))"
proof (rule earns_then)
  let ?s = "snd (relay_on L T t e f s1)"
  show "neighborTrustScore n ?s = neighborTrustScore n s1" by (rule no_trust [OF loc.relay_on_ok surjective_pairing])
  show "authenticatedPeers ?s = authenticatedPeers s1"
    using loc.relay_on_ok [of None L T t e f] by (simp add: still.evolves_def stays_local_def)
  show "mget (pendingAcks s1) k = Some p \<or> (\<exists>d \<in> set [e]. packetType (header d) = packet_code Data \<and> id_hex d = k \<and>
      ackDestinationHint p = destinationHint (header d))" if "mget (pendingAcks ?s) k = Some p" for k p
    using that relay_on_entries [of e L T t f] relay_on_pending(1) [of e L T t f s1]
    by (cases "packetType (header e) = packet_code Data") (auto simp: entries.evolves_def)
qed

lemma deliver_earns: "earns L n t es s s1 \<Longrightarrow> earns L n t es s (snd (deliver_local L e s1))"
  using idle_handlers(4) [of L e] loc.deliver_ok [of None L e]
  by (elim earns_then) (simp_all add: idle.evolves_def still.evolves_def stays_local_def neighborTrustScore_def)

text \<open>A transfer earns what its envelopes earn, one after the other.\<close>

lemma transfer_loop_earns:
  assumes "\<And>e s. relay_ok L t s \<Longrightarrow> authenticatedPeers s = peers \<Longrightarrow> earns L n t (inside e) s (snd (recv e s)) \<and> relay_ok L t (snd (recv e s))"
    and "relay_ok L t s" "authenticatedPeers s = peers"
  shows "earns L n t (concat (map inside (List.map_filter (\<lambda>w. case rbind (uint8_from w) (decodeEnvelope L) of Inl _ \<Rightarrow> None | Inr e' \<Rightarrow> Some e') vs))) s
    (snd (transfer_loop L recv used vs s))"
  using assms(2,3)
proof (induction vs arbitrary: s used)
  case Nil
  then show ?case by (simp add: earns_nothing)
next
  case (Cons v vs)
  let ?dec = "\<lambda>w. case rbind (uint8_from w) (decodeEnvelope L) of Inl _ \<Rightarrow> None | Inr e' \<Rightarrow> Some e'"
  show ?case
  proof (cases "rbind (uint8_from v) (decodeEnvelope L)")
    case (Inl err)
    then have "snd (transfer_loop L recv used (v # vs) s) = s" by (auto simp: res_simps chain_def split: sum.splits)
    then show ?thesis by (simp add: earns_nothing)
  next
    case (Inr e)
    then obtain w where w: "uint8_from v = Inr w" "decodeEnvelope L w = Inr e" by (auto simp: res_simps)
    note step = assms(1) [OF Cons.prems, of e]
    then have peers: "authenticatedPeers (snd (recv e s)) = peers" using Cons.prems(2) by (simp add: earns_def)
    obtain r s1 where r: "recv e s = (r, s1)" by (cases "recv e s")
    have es: "concat (map inside (List.map_filter ?dec (v # vs))) = inside e @ concat (map inside (List.map_filter ?dec vs))"
      by (simp add: map_filter_simps Inr)
    consider "snd (transfer_loop L recv used (v # vs) s) = s" | "snd (transfer_loop L recv used (v # vs) s) = s1"
      | "snd (transfer_loop L recv used (v # vs) s) = snd (transfer_loop L recv (used + length w) vs s1)"
      using w r by (cases r; cases "MAX_SYNC_TRANSFER_BYTES < used + length w") (auto simp: chain_def)
    then show ?thesis
    proof cases
      case 1
      then show ?thesis by (simp add: earns_nothing)
    next
      case 2
      then show ?thesis unfolding es using step r by (auto intro: earns_more)
    next
      case 3
      then show ?thesis unfolding es using step peers r Cons.IH [of s1] by (auto intro: earns_append)
    qed
  qed
qed

lemma receive_relay_ok: "relay_ok L t s \<Longrightarrow> relay_ok L t (snd (receiveEnvelope L T t d e (Some n) s))"
  by (rule keep_snd [OF inv.receive_ok [of "Some n" "Some n"]]) simp_all

lemma receive_other:
  assumes "packetType (header e) \<noteq> packet_code StoreForwardSync" "packetType (header e) \<noteq> packet_code EmergencyBroadcast"
    and "ack_gate L t e f (tidied t s) = (a, s1)"
  shows "snd (receiveEnvelope L T t (Suc d) e f s) \<in> {tidied t s, s1, snd (deliver_local L e s1), snd (relay_on L T t e f s1)}"
proof (cases "fresh t e")
  case True
  with assms(1,2) have "receiveEnvelope L T t (Suc d) e f s = chain (ack_gate L t e f) (\<lambda>early. case early of Some r \<Rightarrow> ret r
      | None \<Rightarrow> chain (look ownDestinationHint) (\<lambda>own. if bytesEqual (destinationHint (header e)) own then deliver_local L e
          else relay_on L T t e f)) (tidied t s)"
    by (simp only: receiveEnvelope.simps receive_body_def chain_purge_state not_True_eq_False if_False)
  then show ?thesis using assms(3) by (auto simp: chain_def simp del: receiveEnvelope.simps split: sum.splits option.splits)
qed (simp add: receive_body_def chain_purge_state)

lemma receive_earns:
  assumes "n \<noteq> []"
  shows "relay_ok L t s \<Longrightarrow> earns L n t (carried_envelopes L (mget (authenticatedPeers s) n) d e) s (snd (receiveEnvelope L T t d e (Some n) s))"
proof (induction d arbitrary: e s)
  case 0
  then show ?case by (simp add: earns_nothing)
next
  case (Suc d)
  let ?P = "mget (authenticatedPeers s) n" and ?t = "tidied t s"
  have ok: "relay_ok L t ?t" by (rule keep_snd [OF keep_purge_state Suc.prems])
  have peers: "authenticatedPeers ?t = authenticatedPeers s" using tidied_quiet [of s t] by (simp add: quiet_def)
  have tidy: "earns L n t [] s ?t" by (rule earns_tidied [OF Suc.prems])
  have single: "earns L n t (carried_envelopes L ?P (Suc d) e) s s'" if "earns L n t [e] ?t s'" for s'
    using earns_append [OF tidy that] by (rule earns_more) simp
  show ?case
  proof (cases "fresh t e")
    case False
    then have "snd (receiveEnvelope L T t (Suc d) e (Some n) s) = ?t" by (simp add: receive_body_def chain_purge_state)
    then show ?thesis using earns_tidied [OF Suc.prems] by (simp del: receiveEnvelope.simps)
  next
    case fr: True
    consider (sync) "packetType (header e) = packet_code StoreForwardSync" | (flood) "packetType (header e) = packet_code EmergencyBroadcast"
      | (other) "packetType (header e) \<noteq> packet_code StoreForwardSync" "packetType (header e) \<noteq> packet_code EmergencyBroadcast" by blast
    then show ?thesis
    proof cases
      case sync
      let ?recv = "receiveEnvelope L T t d" and ?s' = "snd (receiveEnvelope L T t (Suc d) e (Some n) s)"
      have h: "?s' = snd (handleSyncPacket L T t ?recv e (Some n) ?t)" using receive_sync [OF sync] fr by simp
      have all: "authenticatedPeers ?s' = authenticatedPeers s"
        using loc.receive_ok [of "Some n" "Some n" L T t "Suc d" e] by (simp add: still.evolves_def stays_local_def del: receiveEnvelope.simps)
      show ?thesis
      proof (cases "sync_passes L t (Some n) (sealedPayload e) ?t")
        case False
        then obtain p where "?s' = ?t\<lparr>seenSyncPackets := p\<rparr>" using sync_gate [OF surjective_pairing False] h by metis
        then show ?thesis using single earns_nothing [of n ?s' ?t] by (simp add: neighborTrustScore_def)
      next
        case True
        then obtain peer where peer: "mget (authenticatedPeers ?t) n = Some peer" unfolding sync_passes_def by blast
        let ?seen = "bounded_set MAX_SEEN_SYNC_PACKETS (replay_key L (peerIdentityKey peer) (sealedPayload e)) t
          (purge_seen t SYNC_REPLAY_TTL_MS (seenSyncPackets ?t))"
        obtain x kind v where d: "peerSession peer = Some x" "decodeEncryptedSync L (sealedPayload e) x = Some (peerIdentityKey peer, JArr [kind, v])"
          "strict_number kind \<in> {Num 0, Num 1, Num 2}"
          "handleSyncPacket L T t ?recv e (Some n) ?t = (if strict_number kind = Num 0 then sync_summary L T t e n x v
             else if strict_number kind = Num 1 then sync_request L T t e n x v else sync_transfer L ?recv e n v) (?t\<lparr>seenSyncPackets := ?seen\<rparr>)"
          by (rule sync_dispatch [OF True peer assms]) blast
        let ?s = "?t\<lparr>seenSyncPackets := ?seen\<rparr>"
        have ok': "relay_ok L t ?s"
          using ok bounded_set_length [of "purge_seen t SYNC_REPLAY_TTL_MS (seenSyncPackets ?t)" MAX_SEEN_SYNC_PACKETS]
          by (simp add: relay_ok_def purge_seen_ok MAX_SEEN_SYNC_PACKETS_def)
        show ?thesis
        proof (cases "strict_number kind = Num 2")
          case False
          then have "neighborTrust ?s' = neighborTrust ?s \<and> pendingAcks ?s' = pendingAcks ?s"
            using d(3) idle_handlers(1,2) unfolding h d(4) idle.evolves_def by auto
          then show ?thesis using single earns_nothing [of n ?s' ?t] all peers by (simp add: neighborTrustScore_def del: receiveEnvelope.simps)
        next
          case two: True
          then have inside: "transferred L ?P e
              = List.map_filter (\<lambda>w. case rbind (uint8_from w) (decodeEnvelope L) of Inl _ \<Rightarrow> None | Inr e' \<Rightarrow> Some e') (elements v)"
            using peer peers sync d(1,2) by (simp add: transferred_def)
          have inner: "earns L n t (carried_envelopes L ?P d e') u (snd (?recv e' (Some n) u)) \<and> relay_ok L t (snd (?recv e' (Some n) u))"
            if "relay_ok L t u" "authenticatedPeers u = authenticatedPeers s" for e' u
            using Suc.IH [OF that(1), of e'] receive_relay_ok [OF that(1)] that(2) by simp
          have opened: "earns L n t [] s ?s" by (rule earns_then [OF tidy]) (simp_all add: neighborTrustScore_def)
          have loop: "earns L n t (concat (map (carried_envelopes L ?P d) (transferred L ?P e))) ?s
              (snd (transfer_loop L (\<lambda>e. ?recv e (Some n)) 0 (elements v) ?s))"
            unfolding inside by (rule transfer_loop_earns [OF inner ok']) (simp_all add: peers)
          have "?s' = ?s \<or> ?s' = snd (transfer_loop L (\<lambda>e. ?recv e (Some n)) 0 (elements v) ?s)"
            unfolding h d(4) two by (auto simp: sync_transfer_def chain_def attempt_def split: prod.splits sum.splits)
          then have "earns L n t (concat (map (carried_envelopes L ?P d) (transferred L ?P e))) s ?s'"
            using earns_append [OF opened loop] earns_more [OF opened] by auto
          then show ?thesis by (rule earns_more) (simp add: list_emb_Cons)
        qed
      qed
    next
      case flood
      then have "snd (receiveEnvelope L T t (Suc d) e (Some n) s) = snd (handleBroadcastPacket L T t e (Some n) ?t)"
        using fr by (simp add: receive_body_def chain_purge_state packet_code_def)
      then show ?thesis using single [OF earns_idle [OF idle_handlers(3) loc.handleBroadcast_ok]] by (simp del: receiveEnvelope.simps)
    next
      case other
      obtain a s1 where a: "ack_gate L t e (Some n) ?t = (a, s1)" by (cases "ack_gate L t e (Some n) ?t")
      note gate = gate_earns(1) [OF Suc.prems a]
      have "earns L n t [e] s (snd (receiveEnvelope L T t (Suc d) e (Some n) s))"
        using receive_other [OF other a, of T d] gate earns_tidied [OF Suc.prems] relay_on_earns [OF gate] deliver_earns [OF gate] by (auto simp del: receiveEnvelope.simps)
      then show ?thesis by (rule earns_more) simp
    qed
  qed
qed

text \<open>C17: What earns trust. Handling a packet of any kind changes the trust score only of the authenticated neighbour it
  came from, and only by the number of verified acknowledgements this neighbour is credited for: each is the packet
  itself or an envelope of a sync transfer in it, and each only once. The node had passed the acknowledged message on to
  this neighbour, for the destination the signer's key hashes to, at most 30 seconds before, or the message came
  with the same transfer. After an acknowledgement the node no longer waits for the message.\<close>

theorem trust_needs_ack:
  assumes "relay_history L t0 s" "t0 \<le> t" "receiveEnvelope L T t (Suc depth) e src s = (r, s')"
    and "neighborTrustScore n s' \<noteq> neighborTrustScore n s"
  shows "src = Some n \<and> isAuthenticatedPeer n s \<and>
    (\<exists>acks. subseq acks (List.map_filter (verifyAckEnvelope L) (carried_envelopes L (mget (authenticatedPeers s) n) (Suc depth) e)) \<and>
       neighborTrustScore n s' = neighborTrustScore n s + int (length acks) \<and>
       (\<forall>ack \<in> set acks. waited_for n t (carried_envelopes L (mget (authenticatedPeers s) n) (Suc depth) e) s ack)) \<and>
    (packetType (header e) = packet_code Ack \<longrightarrow>
       (\<exists>ack. verifyAckEnvelope L e = Some ack \<and> mget (pendingAcks s') (bytesToHex (acknowledgedMessageId ack)) = None))"
proof -
  have ok: "relay_ok L t s" using relay_ok_mono [OF relay_history_ok [OF assms(1)] assms(2)] .
  have "truthy src = Some n"
    using still.evolvesD [OF loc.receive_ok [of src src] assms(3)] assms(4) unfolding stays_local_def neighborTrustScore_def mget_or_def by metis
  then have src: "src = Some n" "n \<noteq> []" by (auto simp: truthy_def split: option.splits list.splits)
  have earned: "earns L n t (carried_envelopes L (mget (authenticatedPeers s) n) (Suc depth) e) s s'"
    using receive_earns [OF src(2) ok, of "Suc depth" e T] assms(3) src(1) by (simp del: receiveEnvelope.simps carried_envelopes.simps)
  have "\<exists>ack. verifyAckEnvelope L e = Some ack \<and> mget (pendingAcks s') (bytesToHex (acknowledgedMessageId ack)) = None"
    if ack: "packetType (header e) = packet_code Ack"
  proof -
    obtain a s1 where a: "ack_gate L t e (Some n) (tidied t s) = (a, s1)" by (cases "ack_gate L t e (Some n) (tidied t s)")
    have kinds: "packetType (header e) \<noteq> packet_code StoreForwardSync" "packetType (header e) \<noteq> packet_code EmergencyBroadcast"
      "packetType (header e) \<noteq> packet_code Data" using ack by (simp_all add: packet_code_def)
    have "s' = tidied t s \<or> s' = s1 \<or> s' = snd (deliver_local L e s1) \<or> s' = snd (relay_on L T t e src s1)"
      using receive_other [OF kinds(1,2) a, of T depth] assms(3) src(1) by (auto simp del: receiveEnvelope.simps)
    moreover have "neighborTrustScore n (snd (deliver_local L e s1)) = neighborTrustScore n s1"
        "pendingAcks (snd (deliver_local L e s1)) = pendingAcks s1"
      using idle_handlers(4) [of L e] by (simp_all add: idle.evolves_def neighborTrustScore_def)
    moreover note relay_on_pending(1) [OF kinds(3), of L T t src s1] relay_on_pending(2) [OF kinds(3), of n L T t src s1] tidied_trust [of n t s]
    ultimately have "neighborTrustScore n s1 \<noteq> neighborTrustScore n s" "pendingAcks s' = pendingAcks s1" using assms(4) by auto
    then show ?thesis using gate_earns(2) [OF ok a] by simp
  qed
  moreover have "isAuthenticatedPeer n s" using earned assms(4) unfolding earns_def by fastforce
  ultimately show ?thesis using earned src(1) unfolding earns_def by blast
qed

text \<open>An acknowledgement for a packet that was sent directly to an authenticated peer.\<close>

definition bob_envelope :: Envelope where
  "bob_envelope = test_envelope\<lparr>header := (header test_envelope)\<lparr>destinationHint := computeDestinationHint ref_lib (publicKey bob)\<rparr>\<rparr>"

text \<open>An acknowledgement that passes the gate is handed over or relayed.\<close>

lemma receive_acked:
  assumes "fresh t e" "packetType (header e) = packet_code Ack" "ack_gate L t e f (tidied t s) = (Inr None, s1)"
  shows "receiveEnvelope L T t (Suc d) e f s =
    (if destinationHint (header e) = ownDestinationHint s1 then deliver_local L e s1 else relay_on L T t e f s1)"
proof -
  have "packetType (header e) \<noteq> packet_code StoreForwardSync" "packetType (header e) \<noteq> packet_code EmergencyBroadcast"
    using assms(2) by (simp_all add: packet_code_def)
  with assms(1) have "receiveEnvelope L T t (Suc d) e f s = chain (ack_gate L t e f) (\<lambda>early. case early of Some r \<Rightarrow> ret r
      | None \<Rightarrow> chain (look ownDestinationHint) (\<lambda>own. if bytesEqual (destinationHint (header e)) own then deliver_local L e
          else relay_on L T t e f)) (tidied t s)"
    by (simp only: receiveEnvelope.simps receive_body_def chain_purge_state not_True_eq_False if_False)
  with assms(3) show ?thesis by (simp add: chain_Inr)
qed

lemma acked_node:
  obtains s ack_env s' r where "relay_history ref_lib 1700000050000 s"
    "receiveEnvelope ref_lib open_transport 1700000051000 1 ack_env (Some ''n1'') s = (r, s')"
    "neighborTrustScore ''n1'' s = 0" "neighborTrustScore ''n1'' s' = 1" "packetType (header ack_env) = packet_code Ack"
proof -
  let ?t = "1700000050000 :: int" and ?u = "1700000051000 :: int"
  let ?id = "replicate 16 (9 :: byte)" and ?hint = "computeDestinationHint ref_lib (publicKey bob)"
  let ?s1 = "snd (sendEnvelope ref_lib open_transport ?t bob_envelope synced_node)"
  have h: "relay_history ref_lib ?t ?s1" by (rule send [OF synced_node(1)]) simp
  have e: "fresh ?t bob_envelope" "packetType (header bob_envelope) = packet_code Data"
    "destinationHint (header bob_envelope) = ?hint" "messageId (header bob_envelope) = ?id"
    by (simp_all add: bob_envelope_def test_envelope_def validate_Num [of _ 1700000040] packet_code_def STORE_FORWARD_MAX_AGE_SECONDS_def)
  have "length (encodeEnvelope ref_lib (next_hop_copy bob_envelope)) = 53"
    by (simp add: encodeEnvelope_def headerToTuple_def bob_envelope_def test_envelope_def ref_lib_def enc_bytes_def leb.simps zigzag_def
        next_hop_copy_def computeDestinationHint_def bob_def slice_def DESTINATION_HINT_LENGTH_def)
  then have fr: "frames_for ref_lib open_transport ''n1'' (next_hop_copy bob_envelope) = Inr [0 # encodeEnvelope ref_lib (next_hop_copy bob_envelope)]"
    by (simp add: frames_for_def open_transport_def)
  have table: "routingTable synced_node = []" "neighborTrust synced_node = []"
    by (simp_all add: synced_node_def registerAuthenticatedPeer_def new_relay_def bob_def session_b_def)
  have p: "tidied ?t synced_node = synced_node" using table by (simp add: tidied_plain synced_node(4) purgeExpired_def)
  let ?p = "\<lparr>ackNeighborId = ''n1'', ackDestinationHint = ?hint, sentAt = ?t\<rparr>"
  obtain fs where s2: "forwardOverTransport ref_lib open_transport ?t bob_envelope ''n1'' synced_node
      = (Inr True, synced_node\<lparr>pendingAcks := [(bytesToHex ?id, ?p)], sent := fs\<rparr>)"
    using e fr by (simp add: forwardOverTransport_def recordPendingAck_def chain_def sendEnvelopeOverTransport_sent bounded_set_def
        MAX_PENDING_ACKS_def synced_node(4))
  let ?s2 = "synced_node\<lparr>pendingAcks := [(bytesToHex ?id, ?p)], sent := fs\<rparr>"
  have "sendEnvelope ref_lib open_transport ?t bob_envelope synced_node = (Inr (Forwarded ''n1''), ?s2)"
    using e s2 by (simp add: sendEnvelope_def chain_purge_state p synced_node(2) truthy_def chain_Inr)
  then have s1: "?s1 = ?s2" by simp
  have tidy: "tidied ?u ?s2 = ?s2"
    using table by (simp add: purgeStaleRoutingState_def expirePendingAcks_def sweep_def chain_def on_part_def purgeExpired_def
        ROUTE_ACK_TIMEOUT_MS_def ROUTE_PROBATION_MS_def)
  obtain s where sig: "ed_sign ref_lib (ack_signing_message ref_lib ?id (publicKey bob)) (privateKey bob) = Some s"
    "ed_verify ref_lib s (ack_signing_message ref_lib ?id (publicKey bob)) (publicKey bob) = Some True"
    using honest_sign [OF ref_ed25519_correct honest_test_identities(2)] unfolding signMessage_def by (metis of_lib_simps(3))
  let ?v = "JArr [JBytes ?id, JBytes (publicKey bob), JBytes s]"
  let ?e = "\<lparr>header = make_header ?u [1] Ack (Num 16) (replicate 8 3), sealedPayload = cbor_encode ref_lib ?v\<rparr>"
  have "cbor_decode ref_lib (cbor_encode ref_lib ?v) = Some ?v" by (rule cbor_roundtripsD [OF ref_cbor]) simp
  with sig have ack: "verifyAckEnvelope ref_lib ?e = Some \<lparr>acknowledgedMessageId = ?id, signerPublicKey = publicKey bob, signerDestinationHint = ?hint\<rparr>"
    by (simp add: verifyAckEnvelope_Some make_header_def computeDestinationHint_def)
  let ?s3 = "?s2\<lparr>neighborTrust := [(''n1'', 1)], pendingAcks := []\<rparr>"
  have "processPendingAck ref_lib ?u ?e ''n1'' ?s2 = (Inr True, ?s3)"
    using ack table synced_node(2)
    by (simp add: processPendingAck_def markValidated_def find_route_def chain_update mget_or_def Let_def)
  then have gate: "ack_gate ref_lib ?u ?e (Some ''n1'') ?s2 = (Inr None, ?s3)"
    using ack by (simp add: ack_gate_def make_header_def truthy_def chain_Inr)
  have fr: "fresh ?u ?e"
    by (simp add: make_header_def coarseTimestamp_def TIMESTAMP_GRANULARITY_SECONDS_def
        PROTOCOL_VERSION_def STORE_FORWARD_MAX_AGE_SECONDS_def validate_Num [of _ 1700000040])
  let ?r = "receiveEnvelope ref_lib open_transport ?u 1 ?e (Some ''n1'') ?s2"
  have "ownDestinationHint ?s3 = computeDestinationHint ref_lib (publicKey alice)"
    by (simp add: synced_node_def registerAuthenticatedPeer_def new_relay_def bob_def session_b_def)
  then have own: "destinationHint (header ?e) \<noteq> ownDestinationHint ?s3" using alice_hint by (simp add: make_header_def)
  have ty: "packetType (header ?e) = packet_code Ack" by (simp add: make_header_def)
  have "?r = relay_on ref_lib open_transport ?u ?e (Some ''n1'') ?s3"
    using receive_acked [OF fr ty, of ref_lib "Some ''n1''" ?s2 ?s3 open_transport 0] own unfolding tidy gate One_nat_def by simp
  then have "neighborTrustScore ''n1'' (snd ?r) = neighborTrustScore ''n1'' ?s3"
    by (simp only: no_trust [OF loc.relay_on_ok surjective_pairing])
  then have "neighborTrustScore ''n1'' (snd ?r) = 1" by (simp add: neighborTrustScore_def mget_or_def del: receiveEnvelope.simps)
  moreover have "neighborTrustScore ''n1'' ?s2 = 0" using table by (simp add: neighborTrustScore_def mget_or_def)
  moreover have "relay_history ref_lib ?t ?s2" using h unfolding s1 .
  ultimately show thesis using that [OF _ surjective_pairing _ _ ty] by blast
qed

theorem trust_needs_ack_witness:
  "\<exists>s e ack. verifyAckEnvelope ref_lib e = Some ack \<and> waited_for ''n1'' 1700000051000 [e] s ack \<and>
    neighborTrustScore ''n1'' (snd (receiveEnvelope ref_lib open_transport 1700000051000 1 e (Some ''n1'') s)) = 1"
proof -
  obtain s e s' r where s: "relay_history ref_lib 1700000050000 s"
    "receiveEnvelope ref_lib open_transport 1700000051000 (Suc 0) e (Some ''n1'') s = (r, s')"
    "neighborTrustScore ''n1'' s = 0" "neighborTrustScore ''n1'' s' = 1" "packetType (header e) = packet_code Ack"
    unfolding One_nat_def [symmetric] by (rule acked_node)
  then have "neighborTrustScore ''n1'' s' \<noteq> neighborTrustScore ''n1'' s" by simp
  moreover have "carried_envelopes ref_lib peer (Suc 0) e = [e]" for peer using s(5) by (simp add: transferred_def packet_code_def)
  ultimately obtain acks where "subseq acks (List.map_filter (verifyAckEnvelope ref_lib) [e])" "1 = int (length acks)"
    "\<forall>ack \<in> set acks. waited_for ''n1'' 1700000051000 [e] s ack"
    using trust_needs_ack [OF s(1) _ s(2), of "''n1''"] s(3,4) by (auto simp del: carried_envelopes.simps)
  then obtain ack where "verifyAckEnvelope ref_lib e = Some ack" "waited_for ''n1'' 1700000051000 [e] s ack"
    by (cases "verifyAckEnvelope ref_lib e") (auto simp: map_filter_simps length_Suc_conv split: if_splits)
  then show ?thesis using s(2,4) by (metis One_nat_def snd_conv)
qed

end
