(* ===== verification/RelayLinks.thy ===== *)
theory RelayLinks
  imports RelayDelivery
begin

text \<open>
  Broadcasts and links: how a node floods broadcasts, and that cutting an envelope into frames does not
  show at the other end of the link.
\<close>

section \<open>Broadcasts\<close>

lemma receive_broadcast:
  assumes "fresh t e" "packetType (header e) = packet_code EmergencyBroadcast"
  shows "receiveEnvelope L T t (Suc d) e f s = handleBroadcastPacket L T t e f (tidied t s)"
  using assms by (simp add: receive_body_def chain_purge_state packet_code_def)

lemma broadcast_seen:
  assumes "packetType (header e) = packet_code EmergencyBroadcast" "mhas (seenBroadcasts s) (bytesToHex (messageId (header e)))"
  shows "\<exists>why. receiveEnvelope L T t (Suc d) e f s = (Inr (Dropped why), tidied t s)"
proof (cases "fresh t e")
  case True
  then show ?thesis
    using assms tidied_quiet [of s t] unfolding receive_broadcast [OF True assms(1)]
    by (auto simp: handleBroadcastPacket_def quiet_def Let_def)
next
  case False
  then show ?thesis by (simp add: receive_body_def chain_purge_state)
qed

text \<open>The copies that flooding hands to the transport.\<close>

definition flood_frames :: "lib \<Rightarrow> RelayTransport \<Rightarrow> string option \<Rightarrow> Envelope \<Rightarrow> (string \<times> bytes) list" where
  "flood_frames L T f e = concat (map (\<lambda>n. case frames_for L T n (next_hop_copy e) of Inl _ \<Rightarrow> []
     | Inr fs \<Rightarrow> map (Pair n) (filter (accepts T n) fs)) (filter (\<lambda>n. Some n \<noteq> f) (discoverNeighbors T)))"

lemma flood_each:
  assumes "\<forall>n \<in> set ns. \<exists>fs. frames_for L T n (next_hop_copy e) = Inr fs"
  shows "each (\<lambda>n. if Some n \<noteq> f then chain (sendEnvelopeOverTransport L T n (next_hop_copy e)) (\<lambda>_. ret ()) else ret ()) ns s
    = (Inr (), s\<lparr>sent := sent s @ concat (map (\<lambda>n. case frames_for L T n (next_hop_copy e) of Inl _ \<Rightarrow> []
     | Inr fs \<Rightarrow> map (Pair n) (filter (accepts T n) fs)) (filter (\<lambda>n. Some n \<noteq> f) ns))\<rparr>)"
  using assms
proof (induction ns arbitrary: s)
  case (Cons n ns)
  then obtain fs where "frames_for L T n (next_hop_copy e) = Inr fs" by auto
  then have "sendEnvelopeOverTransport L T n (next_hop_copy e) s
      = (Inr (\<forall>f \<in> set fs. accepts T n f), s\<lparr>sent := sent s @ map (Pair n) (filter (accepts T n) fs)\<rparr>)" for s
    by (simp add: sendEnvelopeOverTransport_sent)
  with Cons \<open>frames_for L T n (next_hop_copy e) = Inr fs\<close> show ?case by (simp add: chain_def)
qed simp

lemma broadcast_accepted:
  assumes "\<not> mhas (seenBroadcasts s) (bytesToHex (messageId (header e)))" "decodeBroadcastMessage L (sealedPayload e) = Inr m"
    and "verifyBroadcastMessage L t m (limits s) = (True, l)" "Num 0 < ttl (header e)"
    and "\<forall>n \<in> set (discoverNeighbors T). \<exists>fs. frames_for L T n (next_hop_copy e) = Inr fs"
  shows "handleBroadcastPacket L T t e f s = (Inr (BroadcastReceived m), s\<lparr>
      seenBroadcasts := mset_at (bytesToHex (messageId (header e))) t (seenBroadcasts s), limits := l,
      events := events s @ [BroadcastListener m], sent := sent s @ flood_frames L T f e\<rparr>)"
  using assms by (simp add: handleBroadcastPacket_def flood_each flood_frames_def Let_def chain_def on_part_def)

text \<open>C25: Flooding. A new, valid broadcast is handed to the broadcast listener once and sent on, with its hop
  counter decreased, to every discovered neighbour except the one it came from; every later packet with
  its id is dropped without a trace, so flooding stops at nodes that have seen it.\<close>

theorem broadcast_flooded_once:
  assumes "packetType (header e) = packet_code EmergencyBroadcast" "validateRoutingHeader t 3600 (header e)"
    and "bytesToHex (messageId (header e)) \<notin> fst ` set (seenBroadcasts s)"
    and "decodeBroadcastMessage L (sealedPayload e) = Inr m" "verifyBroadcastMessage L t m (limits s) = (True, l)"
    and "Num 0 < ttl (header e)" "\<forall>n \<in> set (discoverNeighbors T). \<exists>fs. frames_for L T n (next_hop_copy e) = Inr fs"
  shows "\<exists>s'. receiveEnvelope L T t (Suc depth) e src s = (Inr (BroadcastReceived m), s') \<and>
    events s' = events s @ [BroadcastListener m] \<and> sent s' = sent s @ flood_frames L T src e \<and>
    (\<forall>x. src \<noteq> Some (fst x) \<or> x \<notin> set (flood_frames L T src e)) \<and>
    (\<forall>e' src' t' depth'. messageId (header e') = messageId (header e) \<and> packetType (header e') = packet_code EmergencyBroadcast \<longrightarrow>
      (\<exists>why s''. receiveEnvelope L T t' (Suc depth') e' src' s' = (Inr (Dropped why), s'') \<and>
         sent s'' = sent s' \<and> events s'' = events s'))"
proof -
  let ?s = "tidied t s"
  let ?s' = "?s\<lparr>seenBroadcasts := mset_at (bytesToHex (messageId (header e))) t (seenBroadcasts ?s), limits := l,
      events := events ?s @ [BroadcastListener m], sent := sent ?s @ flood_frames L T src e\<rparr>"
  have q: "seenBroadcasts ?s = seenBroadcasts s" "limits ?s = limits s" "events ?s = events s" "sent ?s = sent s"
    using tidied_quiet [of s t] by (simp_all add: quiet_def)
  have fr: "fresh t e" using assms(2) by (simp add: STORE_FORWARD_MAX_AGE_SECONDS_def)
  have new: "\<not> mhas (seenBroadcasts ?s) (bytesToHex (messageId (header e)))" using assms(3) q by (simp add: mhas_iff)
  have r: "receiveEnvelope L T t (Suc depth) e src s = (Inr (BroadcastReceived m), ?s')"
    unfolding receive_broadcast [OF fr assms(1)] using assms(5) q
    by (intro broadcast_accepted new assms(4,6,7)) simp
  have not_sender: "\<forall>x. src \<noteq> Some (fst x) \<or> x \<notin> set (flood_frames L T src e)"
    by (auto simp: flood_frames_def split: sum.splits)
  have copies: "\<exists>why s''. receiveEnvelope L T t' (Suc depth') e' src' ?s' = (Inr (Dropped why), s'') \<and>
         sent s'' = sent ?s' \<and> events s'' = events ?s'"
    if "messageId (header e') = messageId (header e)" "packetType (header e') = packet_code EmergencyBroadcast" for e' src' t' depth'
    using broadcast_seen [of e' ?s' L T t' depth' src'] that tidied_quiet [of ?s' t']
    by (auto simp: quiet_def simp del: receiveEnvelope.simps)
  show ?thesis by (intro exI [of _ ?s'] conjI r not_sender) (use q copies in simp_all)
qed

text \<open>A forged broadcast suppresses the real one. The id of a broadcast is recorded before its signature is
  checked: after a packet with a chosen id and an invalid payload, the genuine broadcast with that id is
  dropped and reaches neither the listener nor any neighbour.\<close>

theorem forged_broadcast_suppresses:
  assumes "packetType (header forged) = packet_code EmergencyBroadcast" "validateRoutingHeader t 3600 (header forged)"
    and "\<And>m. decodeBroadcastMessage L (sealedPayload forged) = Inr m \<Longrightarrow> \<not> fst (verifyBroadcastMessage L t m (limits s))"
    and "packetType (header later) = packet_code EmergencyBroadcast" "messageId (header later) = messageId (header forged)"
    and "receiveEnvelope L T t (Suc depth) forged src s = (r, s')"
  shows "\<exists>why s''. receiveEnvelope L T t' (Suc depth) later src' s' = (Inr (Dropped why), s'') \<and>
    sent s'' = sent s \<and> events s'' = events s"
proof -
  let ?s = "tidied t s" and ?k = "bytesToHex (messageId (header forged))"
  have q: "seenBroadcasts ?s = seenBroadcasts s" "limits ?s = limits s" "events ?s = events s" "sent ?s = sent s"
    using tidied_quiet [of s t] by (simp_all add: quiet_def)
  have fr: "fresh t forged" using assms(2) by (simp add: STORE_FORWARD_MAX_AGE_SECONDS_def)
  have h: "handleBroadcastPacket L T t forged src ?s = (r, s')"
    using assms(6) receive_broadcast [OF fr assms(1), of L T depth src s] by simp
  have s': "mhas (seenBroadcasts s') ?k \<and> sent s' = sent s \<and> events s' = events s"
  proof (cases "mhas (seenBroadcasts ?s) ?k")
    case True
    with h q show ?thesis by (auto simp: handleBroadcastPacket_def Let_def)
  next
    case False
    show ?thesis
    proof (cases "decodeBroadcastMessage L (sealedPayload forged)")
      case (Inl err)
      with False h q show ?thesis by (auto simp: handleBroadcastPacket_def Let_def)
    next
      case (Inr m)
      obtain l where "verifyBroadcastMessage L t m (limits s) = (False, l)"
        using assms(3) [OF Inr] by (cases "verifyBroadcastMessage L t m (limits s)") auto
      with False Inr h q show ?thesis by (auto simp: handleBroadcastPacket_def Let_def)
    qed
  qed
  then obtain why where "receiveEnvelope L T t' (Suc depth) later src' s' = (Inr (Dropped why), tidied t' s')"
    using broadcast_seen [of later s' L T t' depth src'] assms(4,5) by auto
  then show ?thesis using s' tidied_quiet [of s' t'] by (auto simp: quiet_def)
qed


definition whole_transport :: RelayTransport where
  "whole_transport = open_transport\<lparr>linkUnit := \<lambda>_. None\<rparr>"

definition flood_envelope :: "bytes \<Rightarrow> Envelope" where
  "flood_envelope payload = createBroadcastEnvelope 1700000050000 (replicate 16 7) payload (Num 8)"

lemma flood_envelope:
  "packetType (header (flood_envelope payload)) = packet_code EmergencyBroadcast"
  "validateRoutingHeader 1700000050000 3600 (header (flood_envelope payload))"
  "sealedPayload (flood_envelope payload) = payload" "ttl (header (flood_envelope payload)) = Num 8"
  by (simp_all add: flood_envelope_def createBroadcastEnvelope_def make_header_def coarseTimestamp_def
      TIMESTAMP_GRANULARITY_SECONDS_def PROTOCOL_VERSION_def validate_Num [of _ 1700000040])

lemma test_broadcast:
  obtains m l where "decodeBroadcastMessage ref_lib (encodeBroadcastMessage ref_lib m) = Inr m"
    "verifyBroadcastMessage ref_lib 1700000050000 m no_limits = (True, l)"
proof -
  obtain m where m: "decodeBroadcastMessage ref_lib (encodeBroadcastMessage ref_lib m) = Inr m"
    "fst (verifyBroadcastMessage ref_lib 1700000050000 m no_limits)"
    using honest_broadcast [OF ref_cbor ref_ed25519_correct honest_test_identities(2), of "[1, 2]" 1700000000000 no_limits 1700000050000 no_limits]
    by (auto simp: consumeBudget_def purgeRateWindows_def purge_windows_def no_limits_def)
  then show thesis using that [OF m(1)] by (metis prod.collapse)
qed

theorem broadcast_flooded_once_witness:
  "\<exists>e m s'. receiveEnvelope ref_lib whole_transport 1700000050000 1 e (Some ''n1'') (new_relay ref_lib alice) = (Inr (BroadcastReceived m), s') \<and>
    events s' = [BroadcastListener m] \<and> map fst (sent s') = [''n2'']"
proof -
  obtain m l where m: "decodeBroadcastMessage ref_lib (encodeBroadcastMessage ref_lib m) = Inr m"
    "verifyBroadcastMessage ref_lib 1700000050000 m no_limits = (True, l)" by (rule test_broadcast)
  let ?e = "flood_envelope (encodeBroadcastMessage ref_lib m)"
  have lim: "limits (new_relay ref_lib alice) = no_limits" by (simp add: new_relay_def no_limits_def)
  have fs: "\<forall>n \<in> set (discoverNeighbors whole_transport). \<exists>fs. frames_for ref_lib whole_transport n (next_hop_copy ?e) = Inr fs"
    by (simp add: frames_for_def whole_transport_def)
  have dec: "decodeBroadcastMessage ref_lib (sealedPayload ?e) = Inr m" using m(1) by (simp add: flood_envelope)
  have acc: "verifyBroadcastMessage ref_lib 1700000050000 m (limits (new_relay ref_lib alice)) = (True, l)" using m(2) lim by simp
  have empty: "bytesToHex (messageId (header ?e)) \<notin> fst ` set (seenBroadcasts (new_relay ref_lib alice))"
    "Num 0 < ttl (header ?e)" by (simp_all add: new_relay_def flood_envelope)
  obtain s' where "receiveEnvelope ref_lib whole_transport 1700000050000 (Suc 0) ?e (Some ''n1'') (new_relay ref_lib alice) = (Inr (BroadcastReceived m), s')"
    "events s' = events (new_relay ref_lib alice) @ [BroadcastListener m]"
    "sent s' = sent (new_relay ref_lib alice) @ flood_frames ref_lib whole_transport (Some ''n1'') ?e"
    using broadcast_flooded_once [OF flood_envelope(1,2) empty(1) dec acc empty(2) fs, of 0 "Some ''n1''"] by blast
  moreover have "events (new_relay ref_lib alice) = []" "sent (new_relay ref_lib alice) = []" by (simp_all add: new_relay_def)
  ultimately show ?thesis
    by (intro exI [of _ ?e]) (auto simp: flood_frames_def frames_for_def whole_transport_def open_transport_def simp del: receiveEnvelope.simps)
qed

theorem forged_broadcast_suppresses_witness:
  "\<exists>m l. verifyBroadcastMessage ref_lib 1700000050000 m no_limits = (True, l) \<and>
    events (snd (receiveEnvelope ref_lib whole_transport 1700000051000 1 (flood_envelope (encodeBroadcastMessage ref_lib m)) (Some ''n1'')
      (snd (receiveEnvelope ref_lib whole_transport 1700000050000 1 (flood_envelope []) (Some ''n2'') (new_relay ref_lib alice))))) = []"
proof -
  obtain m l where m: "decodeBroadcastMessage ref_lib (encodeBroadcastMessage ref_lib m) = Inr m"
    "verifyBroadcastMessage ref_lib 1700000050000 m no_limits = (True, l)" by (rule test_broadcast)
  let ?r = "receiveEnvelope ref_lib whole_transport 1700000050000 (Suc 0) (flood_envelope []) (Some ''n2'') (new_relay ref_lib alice)"
  have bad: "decodeBroadcastMessage ref_lib (sealedPayload (flood_envelope [])) \<noteq> Inr x" for x
    by (simp add: flood_envelope decodeBroadcastMessage_def ref_lib_def)
  have mid: "messageId (header (flood_envelope p)) = replicate 16 7" for p
    by (simp add: flood_envelope_def createBroadcastEnvelope_def make_header_def)
  from forged_broadcast_suppresses [where L = ref_lib and s = "new_relay ref_lib alice", OF flood_envelope(1,2) _ flood_envelope(1) _ surjective_pairing]
  have "events (snd (receiveEnvelope ref_lib whole_transport 1700000051000 (Suc 0) (flood_envelope (encodeBroadcastMessage ref_lib m)) (Some ''n1'') (snd ?r)))
      = events (new_relay ref_lib alice)"
    using bad mid by (metis snd_conv)
  then show ?thesis using m(2) by (auto simp: new_relay_def simp del: receiveEnvelope.simps)
qed


section \<open>Links\<close>

text \<open>The frames of a link arriving one after the other, each at its time.\<close>

definition receive_frames ::
    "lib \<Rightarrow> RelayTransport \<Rightarrow> nat \<Rightarrow> string \<Rightarrow> (int \<times> bytes) list \<Rightarrow> RelayNode \<Rightarrow> RelayNode" where
  "receive_frames L T depth n arrivals s = foldl (\<lambda>s (t, f). receiveFrame L T t depth n f s) s arrivals"

lemma receive_fragments:
  assumes "mget (authenticatedPeers s) n = Some peer"
    and "feed L (n @ '':'' @ int_string (establishedAt peer)) (zip ts fs) R = (replicate (length fs - 1) None @ [Some e], R')"
    and "length ts = length fs" "fs \<noteq> []"
  shows "receive_frames L T depth n (zip ts (map ((#) 1) fs)) (s\<lparr>reassembler := R\<rparr>)
    = snd (receiveEnvelope L T (last ts) depth e (Some n) (s\<lparr>reassembler := R'\<rparr>))"
  using assms(2-4)
proof (induction fs arbitrary: ts R)
  case (Cons f fs)
  then obtain t ts' where ts: "ts = t # ts'" "length ts' = length fs" by (cases ts) auto
  obtain r R1 where a: "addFragment L t f (n @ '':'' @ int_string (establishedAt peer)) R = (r, R1)"
    by (cases "addFragment L t f (n @ '':'' @ int_string (establishedAt peer)) R")
  obtain rs R2 where b: "feed L (n @ '':'' @ int_string (establishedAt peer)) (zip ts' fs) R1 = (rs, R2)"
    by (cases "feed L (n @ '':'' @ int_string (establishedAt peer)) (zip ts' fs) R1")
  have step: "receiveFrame L T t depth n (1 # f) (s\<lparr>reassembler := R\<rparr>) = (case r of None \<Rightarrow> s\<lparr>reassembler := R1\<rparr>
      | Some e \<Rightarrow> snd (receiveEnvelope L T t depth e (Some n) (s\<lparr>reassembler := R1\<rparr>)))"
    using assms(1) a by (simp add: receiveFrame_def FRAME_KIND_FRAGMENT_def split: option.splits)
  show ?case
  proof (cases "fs = []")
    case True
    with Cons.prems ts a b step show ?thesis by (simp add: receive_frames_def)
  next
    case False
    then obtain k where k: "length fs = Suc k" by (cases fs) auto
    with Cons.prems(1) ts a b have "r = None" "rs = replicate (length fs - 1) None @ [Some e]" "R2 = R'" by simp_all
    with Cons.IH [of ts' R1] b ts False have "receive_frames L T depth n (zip ts' (map ((#) 1) fs)) (s\<lparr>reassembler := R1\<rparr>)
      = snd (receiveEnvelope L T (last ts') depth e (Some n) (s\<lparr>reassembler := R'\<rparr>))" by simp
    moreover have "last ts = last ts'" using ts False by auto
    ultimately show ?thesis using step \<open>r = None\<close> ts by (simp add: receive_frames_def)
  qed
qed simp

lemma frames_transparent:
  assumes "cbor_roundtrips L" "cbor_compact L" "plain_header (header e)" "length (messageId (header e)) = 16"
    and "\<forall>mtu. linkUnit T n = Some mtu \<longrightarrow> mtu \<le> 4129"
    and "sendEnvelopeOverTransport L T n e a = (Inr True, a')" "sent a' = sent a @ map (Pair n) fs" "fs \<noteq> []"
    and "mget (authenticatedPeers b) m = Some peer" "length ts = length fs"
    and "room_for (reassembler b) (bytesToHex (messageId (header e))) (m @ '':'' @ int_string (establishedAt peer))
      (length (encodeEnvelope L e))"
    and "\<And>t. t \<in> set ts \<Longrightarrow> no_stale (reassembler b) t \<and> t - hd ts \<le> 30000"
  shows "\<exists>R. receive_frames L U depth m (zip ts fs) b = snd (receiveEnvelope L U (last ts) depth e (Some m) (b\<lparr>reassembler := R\<rparr>)) \<and>
    pending R = pending (reassembler b) \<and> pendingBytes R = pendingBytes (reassembler b)"
proof -
  obtain fs' where fs': "frames_for L T n e = Inr fs'" "\<forall>f \<in> set fs'. accepts T n f"
    using assms(6) by (cases "frames_for L T n e") (auto simp: sendEnvelopeOverTransport_sent)
  have "sent a' = sent a @ map (Pair n) (filter (accepts T n) fs')"
    using assms(6) fs'(1) by (auto simp: sendEnvelopeOverTransport_sent)
  moreover have "filter (accepts T n) fs' = fs'" using fs'(2) by (simp add: filter_id_conv)
  ultimately have "map (Pair n) fs = map (Pair n) fs'" using assms(7) by simp
  moreover have "inj (Pair n)" by (simp add: inj_def)
  ultimately have "fs = fs'" by (metis inj_map_eq_map)
  then have fs: "frames_for L T n e = Inr fs" using fs'(1) by simp
  let ?whole = "0 # encodeEnvelope L e"
  show ?thesis
  proof (cases "fs = [?whole]")
    case True
    then obtain t where "ts = [t]" using assms(10) by (cases ts) auto
    with True have "receive_frames L U depth m (zip ts fs) b = snd (receiveEnvelope L U (last ts) depth e (Some m) b)"
      using decode_encode_envelope [OF assms(1,3)]
      by (simp add: receive_frames_def receiveFrame_def FRAME_KIND_FRAGMENT_def FRAME_KIND_ENVELOPE_def)
    then show ?thesis by (intro exI [of _ "reassembler b"]) simp
  next
    case False
    then obtain mtu frames where mtu: "linkUnit T n = Some mtu" "fragmentEnvelope L e (mtu - 1) = Inr frames" "fs = map ((#) 1) frames"
      using fs by (auto simp: frames_for_def res_simps split: option.splits if_splits)
    have len: "length [0..<length frames] = length frames" "map ((!) frames) [0..<length frames] = frames"
      by (simp_all add: map_nth)
    have "mtu - 1 \<le> 4128" "frames \<noteq> []" "length ts = length frames" using assms(5,8,10) mtu by auto
    with feed_frames [OF assms(1-4) mtu(2) _ _ assms(11), of "[0..<length frames]" ts] assms(12) len
    obtain R where "feed L (m @ '':'' @ int_string (establishedAt peer)) (zip ts frames) (reassembler b)
      = (replicate (length frames - 1) None @ [Some e], R)" "pending R = pending (reassembler b)" "pendingBytes R = pendingBytes (reassembler b)"
      by (auto simp: atLeast0LessThan)
    with receive_fragments [OF assms(9) this(1)] mtu \<open>frames \<noteq> []\<close> \<open>length ts = length frames\<close> show ?thesis by auto
  qed
qed

text \<open>A link is transparent. The frames one node sends for an envelope, whole or in fragments, received in
  order within thirty seconds by an authenticated peer with room for them, have exactly the effect of
  receiving the envelope itself when the last frame arrives; the reassembler holds what it held before.\<close>

theorem link_transparency:
  assumes "cbor_roundtrips L" "cbor_compact L" "plain_header (header e)" "length (messageId (header e)) = 16"
    and "\<forall>mtu. linkUnit T n = Some mtu \<longrightarrow> mtu \<le> 4129"
    and "sendEnvelopeOverTransport L T n e a = (Inr True, a')" "sent a' = sent a @ map (Pair n) fs" "fs \<noteq> []"
    and "mget (authenticatedPeers b) m = Some peer" "length ts = length fs"
    and "room_for (reassembler b) (bytesToHex (messageId (header e))) (m @ '':'' @ int_string (establishedAt peer))
      (length (encodeEnvelope L e))"
    and "\<And>t. t \<in> set ts \<Longrightarrow> no_stale (reassembler b) t \<and> t - hd ts \<le> 30000"
  shows "\<exists>R. receive_frames L U depth m (zip ts fs) b = snd (receiveEnvelope L U (last ts) depth e (Some m) (b\<lparr>reassembler := R\<rparr>)) \<and>
    pending R = pending (reassembler b) \<and> pendingBytes R = pendingBytes (reassembler b)"
  by (rule frames_transparent [OF assms])

theorem link_transparency_witness:
  "\<exists>fs R a'. sendEnvelopeOverTransport ref_lib (open_transport\<lparr>linkUnit := \<lambda>_. Some 53\<rparr>) ''b'' test_envelope (new_relay ref_lib alice) = (Inr True, a') \<and>
    sent a' = map (Pair ''b'') fs \<and> length fs = 3 \<and>
    receive_frames ref_lib open_transport 1 ''n1'' (zip [1700000050000, 1700000050001, 1700000050002] fs) synced_node =
      snd (receiveEnvelope ref_lib open_transport 1700000050002 1 test_envelope (Some ''n1'') (synced_node\<lparr>reassembler := R\<rparr>))"
proof -
  let ?T = "open_transport\<lparr>linkUnit := \<lambda>_. Some 53\<rparr>" and ?a = "new_relay ref_lib alice"
  let ?ts = "[1700000050000, 1700000050001, 1700000050002 :: int]"
  let ?p = "\<lparr>peerIdentityKey = publicKey bob, establishedAt = 1700000040000, peerSession = Some session_b\<rparr>"
  have "[0..<3] = [0, 1, 2 :: nat]" by (simp add: upt_rec)
  then obtain f0 f1 f2 where f: "fragmentEnvelope ref_lib test_envelope 52 = Inr [f0, f1, f2]"
    by (simp add: fragmentEnvelope_def chunk_size_def fragment_limits test_envelope_length ceil_div_def Let_def)
  let ?fs = "map ((#) 1) [f0, f1, f2]"
  have s: "sendEnvelopeOverTransport ref_lib ?T ''b'' test_envelope ?a = (Inr True, ?a\<lparr>sent := sent ?a @ map (Pair ''b'') ?fs\<rparr>)"
    using f by (simp add: sendEnvelopeOverTransport_sent frames_for_def test_envelope_length open_transport_def)
  have new: "reassembler synced_node = new_reassembler"
    by (simp add: synced_node_def registerAuthenticatedPeer_def new_relay_def bob_def session_b_def)
  have room: "room_for (reassembler synced_node) k (''n1'' @ p) (length (encodeEnvelope ref_lib test_envelope))" for k p
    by (simp add: new room_for_def new_reassembler_def test_envelope_length unknown_peer_def)
  have plain: "plain_header (header test_envelope)" "length (messageId (header test_envelope)) = 16"
    by (simp_all add: plain_header_def test_envelope_def)
  have ts: "no_stale (reassembler synced_node) t \<and> t - hd ?ts \<le> 30000" if "t \<in> set ?ts" for t
    using that by (auto simp: no_stale_def new new_reassembler_def)
  have peer: "mget (authenticatedPeers synced_node) ''n1'' = Some ?p" by (simp add: synced_node(2))
  have unit: "\<forall>mtu. linkUnit ?T ''b'' = Some mtu \<longrightarrow> mtu \<le> 4129" by simp
  have sent: "sent (?a\<lparr>sent := sent ?a @ map (Pair ''b'') ?fs\<rparr>) = sent ?a @ map (Pair ''b'') ?fs" "?fs \<noteq> []" "length ?ts = length ?fs" by simp_all
  obtain R where "receive_frames ref_lib open_transport 1 ''n1'' (zip ?ts ?fs) synced_node =
      snd (receiveEnvelope ref_lib open_transport (last ?ts) 1 test_envelope (Some ''n1'') (synced_node\<lparr>reassembler := R\<rparr>))"
    using link_transparency [OF ref_cbor ref_cbor_compact plain unit s sent(1,2) peer sent(3) room ts] by blast
  then show ?thesis using s by (intro exI [of _ ?fs]) (auto simp: new_relay_def)
qed

end
