(* ===== verification/Transport.thy ===== *)
theory Transport
  imports Routing
begin

text \<open>
  \<open>src/transport/transport.ts\<close> and \<open>src/transport/udp.ts\<close>: the carriers of opaque frames. The simulated transports
  are objects that hold references to each other, so a network is the list of these objects and a reference is
  an index; a delivery names the object whose callback is called. The UDP transport's socket is a parameter:
  what it reports is an event, what it is given is recorded, and whether \<open>socket.send\<close> throws is an argument.
\<close>

record LinkCharacteristics =
  maxTransmissionUnit :: int
  reliability :: jsnum

section \<open>\<open>SimulatedTransport\<close>\<close>

record SimTransport =
  simName :: string
  simOwnId :: string
  simUnit :: int
  simReliability :: jsnum
  simPeers :: "(string, nat) jsmap"
  simReceiver :: bool

type_synonym SimNet = "SimTransport list"

definition new_sim :: "string \<Rightarrow> string \<Rightarrow> int \<Rightarrow> jsnum \<Rightarrow> SimTransport" where
  "new_sim name own mtu rel = \<lparr>simName = name, simOwnId = own, simUnit = mtu, simReliability = rel, simPeers = [], simReceiver = False\<rparr>"

text \<open>Reliabilities are fractions between 0 and 1.\<close>

definition createBluetoothTransport :: "string \<Rightarrow> SimTransport" where
  "createBluetoothTransport own = new_sim ''bluetooth-le'' own 200 (Frac 0)"

definition createWifiDirectTransport :: "string \<Rightarrow> SimTransport" where
  "createWifiDirectTransport own = new_sim ''wifi-direct'' own 4096 (Frac 0)"

definition createInternetTransport :: "string \<Rightarrow> SimTransport" where
  "createInternetTransport own = new_sim ''internet'' own 65536 (Frac 0)"

definition set_peer :: "nat \<Rightarrow> string \<Rightarrow> nat \<Rightarrow> SimNet \<Rightarrow> SimNet" where
  "set_peer a nid b net = net[a := (net ! a)\<lparr>simPeers := mset_at nid b (simPeers (net ! a))\<rparr>]"

text \<open>\<open>a.connectPeer(b)\<close>.\<close>

definition connectPeer :: "nat \<Rightarrow> nat \<Rightarrow> SimNet \<Rightarrow> SimNet" where
  "connectPeer a b net = set_peer b (simOwnId (net ! a)) a (set_peer a (simOwnId (net ! b)) b net)"

definition sim_discoverNeighbors :: "nat \<Rightarrow> SimNet \<Rightarrow> string list" where
  "sim_discoverNeighbors a net = map fst (simPeers (net ! a))"

text \<open>The answer of \<open>send\<close> and the call of the receiver's callback, when it has one.\<close>

definition sim_send :: "nat \<Rightarrow> string \<Rightarrow> bytes \<Rightarrow> SimNet \<Rightarrow> bool \<times> (nat \<times> string \<times> bytes) option" where
  "sim_send a nid frame net =
     (if simUnit (net ! a) < int (length frame) then (False, None)
      else case mget (simPeers (net ! a)) nid of
             None \<Rightarrow> (False, None)
           | Some b \<Rightarrow> (True, if simReceiver (net ! b) then Some (b, simOwnId (net ! a), frame) else None))"

definition sim_onReceive :: "nat \<Rightarrow> SimNet \<Rightarrow> SimNet" where
  "sim_onReceive a net = net[a := (net ! a)\<lparr>simReceiver := True\<rparr>]"

definition sim_getLinkCharacteristics :: "nat \<Rightarrow> string \<Rightarrow> SimNet \<Rightarrow> LinkCharacteristics option" where
  "sim_getLinkCharacteristics a nid net =
     (if \<not> mhas (simPeers (net ! a)) nid then None
      else Some \<lparr>maxTransmissionUnit = simUnit (net ! a), reliability = simReliability (net ! a)\<rparr>)"

section \<open>\<open>UdpTransport\<close>\<close>

record UdpPeer =
  udpHost :: string
  udpPort :: int

record UdpTransportOptions =
  optUnit :: "jsnum option"
  optReliability :: "jsnum option"

record UdpTransport =
  udpOwnId :: string
  udpUnit :: int
  udpReliability :: jsnum
  udpPeers :: "(string, UdpPeer) jsmap"
  neighborByEndpoint :: "(string, string) jsmap"
  udpReceiver :: bool
  udpClosed :: bool
  datagrams :: "(bytes \<times> int \<times> string) list"

definition DEFAULT_MTU :: jsnum where
  "DEFAULT_MTU = Num 1200"

text \<open>0.99, between 0 and 1.\<close>

definition DEFAULT_RELIABILITY :: jsnum where
  "DEFAULT_RELIABILITY = Frac 0"

definition endpointKey :: "string \<Rightarrow> int \<Rightarrow> string" where
  "endpointKey host port = host @ '':'' @ num_string (Num port)"

definition is_finite :: "jsnum \<Rightarrow> bool" where
  "is_finite n \<longleftrightarrow> n \<notin> {NaN, PosInf, NegInf}"

definition new_udp :: "string \<Rightarrow> UdpTransportOptions \<Rightarrow> UdpTransport res" where
  "new_udp own opts =
     (let mtu = (case optUnit opts of None \<Rightarrow> DEFAULT_MTU | Some n \<Rightarrow> n);
          rel = (case optReliability opts of None \<Rightarrow> DEFAULT_RELIABILITY | Some n \<Rightarrow> n)
      in if \<not> is_integer mtu \<or> mtu \<le> Num 0 \<or> Num 65507 < mtu then Inl (Err ''INVALID_UDP_MTU'')
         else if \<not> is_finite rel \<or> rel < Num 0 \<or> Num 1 < rel then Inl (Err ''INVALID_UDP_RELIABILITY'')
         else Inr \<lparr>udpOwnId = own, udpUnit = num_trunc mtu, udpReliability = rel, udpPeers = [], neighborByEndpoint = [],
                   udpReceiver = False, udpClosed = False, datagrams = []\<rparr>)"

text \<open>The callback of the socket: what it calls the receiver with, if it does.\<close>

definition udp_message :: "string \<Rightarrow> int \<Rightarrow> bytes \<Rightarrow> UdpTransport \<Rightarrow> (string \<times> bytes) option" where
  "udp_message host port message U =
     (case mget (neighborByEndpoint U) (endpointKey host port) of
        None \<Rightarrow> None
      | Some n \<Rightarrow> if n = [] \<or> \<not> udpReceiver U \<or> udpUnit U < int (length message) then None else Some (n, message))"

definition addPeer :: "string \<Rightarrow> string \<Rightarrow> jsnum \<Rightarrow> UdpTransport \<Rightarrow> unit res \<times> UdpTransport" where
  "addPeer n host port U =
     (if n = [] \<or> \<not> is_integer port \<or> port < Num 1 \<or> Num 65535 < port then (Inl (Err ''INVALID_UDP_PEER''), U)
      else (Inr (), U\<lparr>udpPeers := mset_at n \<lparr>udpHost = host, udpPort = num_trunc port\<rparr> (udpPeers U),
                      neighborByEndpoint := mset_at (endpointKey host (num_trunc port)) n (neighborByEndpoint U)\<rparr>))"

definition removePeer :: "string \<Rightarrow> UdpTransport \<Rightarrow> UdpTransport" where
  "removePeer n U = (case mget (udpPeers U) n of
     None \<Rightarrow> U
   | Some p \<Rightarrow> U\<lparr>udpPeers := mdel n (udpPeers U),
                 neighborByEndpoint := mdel (endpointKey (udpHost p) (udpPort p)) (neighborByEndpoint U)\<rparr>)"

definition udp_discoverNeighbors :: "UdpTransport \<Rightarrow> string list" where
  "udp_discoverNeighbors U = map fst (udpPeers U)"

text \<open>\<open>throws\<close>: \<open>socket.send\<close> throws for this datagram.\<close>

definition udp_send :: "bool \<Rightarrow> string \<Rightarrow> bytes \<Rightarrow> UdpTransport \<Rightarrow> bool \<times> UdpTransport" where
  "udp_send throws n frame U =
     (if udpClosed U \<or> udpUnit U < int (length frame) then (False, U)
      else case mget (udpPeers U) n of
             None \<Rightarrow> (False, U)
           | Some p \<Rightarrow> if throws then (False, U)
               else (True, U\<lparr>datagrams := datagrams U @ [(frame, udpPort p, udpHost p)]\<rparr>))"

definition udp_onReceive :: "UdpTransport \<Rightarrow> UdpTransport" where
  "udp_onReceive U = U\<lparr>udpReceiver := True\<rparr>"

definition udp_getLinkCharacteristics :: "string \<Rightarrow> UdpTransport \<Rightarrow> LinkCharacteristics option" where
  "udp_getLinkCharacteristics n U =
     (if mhas (udpPeers U) n then Some \<lparr>maxTransmissionUnit = udpUnit U, reliability = udpReliability U\<rparr> else None)"

definition udp_close :: "UdpTransport \<Rightarrow> UdpTransport" where
  "udp_close U = (if udpClosed U then U else U\<lparr>udpClosed := True\<rparr>)"

section \<open>Connected simulated transports\<close>

lemma sim_set_peer [simp]:
  "length (set_peer a n b net) = length net"
  "simOwnId (set_peer a n b net ! c) = simOwnId (net ! c)" "simUnit (set_peer a n b net ! c) = simUnit (net ! c)"
  "simReceiver (set_peer a n b net ! c) = simReceiver (net ! c)" "simReliability (set_peer a n b net ! c) = simReliability (net ! c)"
  by (cases "a < length net"; cases "c = a"; simp add: set_peer_def list_update_beyond)+

lemma sim_peers_set_peer:
  "a < length net \<Longrightarrow> mget (simPeers (set_peer a n b net ! c)) m = (if c = a \<and> m = n then Some b else mget (simPeers (net ! c)) m)"
  by (auto simp: set_peer_def nth_list_update)

text \<open>A network whose objects have their own ids and know each other mutually.\<close>

definition mutual :: "SimNet \<Rightarrow> bool" where
  "mutual net \<longleftrightarrow> distinct (map simOwnId net) \<and> (\<forall>a < length net. \<forall>n b. mget (simPeers (net ! a)) n = Some b \<longrightarrow>
     b < length net \<and> n = simOwnId (net ! b) \<and> mget (simPeers (net ! b)) (simOwnId (net ! a)) = Some a)"

lemma own_ids_differ: "mutual net \<Longrightarrow> a < length net \<Longrightarrow> b < length net \<Longrightarrow> simOwnId (net ! a) = simOwnId (net ! b) \<longleftrightarrow> a = b"
  by (auto simp: mutual_def distinct_conv_nth)

lemma connectPeer_simps [simp]:
  "length (connectPeer a b net) = length net" "simOwnId (connectPeer a b net ! c) = simOwnId (net ! c)"
  "simUnit (connectPeer a b net ! c) = simUnit (net ! c)" "simReceiver (connectPeer a b net ! c) = simReceiver (net ! c)"
  by (simp_all add: connectPeer_def)

lemma connectPeer_peers:
  assumes "a < length net" "b < length net"
  shows "mget (simPeers (connectPeer a b net ! c)) m =
    (if c = b \<and> m = simOwnId (net ! a) then Some a else if c = a \<and> m = simOwnId (net ! b) then Some b
     else mget (simPeers (net ! c)) m)"
  using assms by (auto simp: connectPeer_def sim_peers_set_peer)

lemma mutual_new: "distinct (map simOwnId net) \<Longrightarrow> \<forall>t \<in> set net. simPeers t = [] \<Longrightarrow> mutual net"
  by (auto simp: mutual_def dest: nth_mem)

lemma mutual_connect:
  assumes "mutual net" "a < length net" "b < length net"
  shows "mutual (connectPeer a b net)"
proof -
  have ids: "map simOwnId (connectPeer a b net) = map simOwnId net" by (rule nth_equalityI) simp_all
  have step: "d < length net \<and> n = simOwnId (net ! d) \<and> mget (simPeers (connectPeer a b net ! d)) (simOwnId (net ! c)) = Some c"
    if c: "c < length net" and p: "mget (simPeers (connectPeer a b net ! c)) n = Some d" for c n d
  proof -
    have "c = b \<and> n = simOwnId (net ! a) \<and> d = a \<or> c = a \<and> n = simOwnId (net ! b) \<and> d = b \<or> mget (simPeers (net ! c)) n = Some d"
      using p unfolding connectPeer_peers [OF assms(2,3)] by (simp split: if_splits)
    then consider "c = b" "n = simOwnId (net ! a)" "d = a" | "c = a" "n = simOwnId (net ! b)" "d = b"
      | "mget (simPeers (net ! c)) n = Some d" by blast
    then show ?thesis
    proof cases
      case 3
      with assms(1) c have d: "d < length net" "n = simOwnId (net ! d)" "mget (simPeers (net ! d)) (simOwnId (net ! c)) = Some c"
        unfolding mutual_def by blast+
      have "simOwnId (net ! c) = simOwnId (net ! a) \<longleftrightarrow> c = a" "simOwnId (net ! c) = simOwnId (net ! b) \<longleftrightarrow> c = b"
        using own_ids_differ [OF assms(1) c] assms(2,3) by simp_all
      with d(3) have "mget (simPeers (connectPeer a b net ! d)) (simOwnId (net ! c)) = Some c"
        unfolding connectPeer_peers [OF assms(2,3)] by simp
      with d(1,2) show ?thesis by blast
    next
      case 1
      with assms(2,3) show ?thesis by (simp add: connectPeer_peers [OF assms(2,3)])
    next
      case 2
      with assms(2,3) show ?thesis by (simp add: connectPeer_peers [OF assms(2,3)])
    qed
  qed
  moreover have "distinct (map simOwnId net)" using assms(1) by (simp add: mutual_def)
  ultimately show ?thesis unfolding mutual_def ids connectPeer_simps(1,2) by blast
qed

section \<open>UDP endpoints\<close>

lemma endpointKey_eq:
  assumes "0 \<le> p" "0 \<le> q"
  shows "endpointKey h p = endpointKey h' q \<longleftrightarrow> h = h' \<and> p = q"
proof
  assume eq: "endpointKey h p = endpointKey h' q"
  have n: "num_string (Num p) = nat_string (nat p)" "num_string (Num q) = nat_string (nat q)"
    using assms by (simp_all add: num_string_def)
  have "rev (nat_string (nat p)) @ CHR '':'' # rev h = rev (nat_string (nat q)) @ CHR '':'' # rev h'"
    using arg_cong [OF eq, of rev] by (simp add: endpointKey_def n)
  then have "rev (nat_string (nat p)) = rev (nat_string (nat q)) \<and> rev h = rev h'"
    by (intro append_colon_eq) (simp_all add: nat_string_no_colon)
  with assms show "h = h' \<and> p = q" by (simp add: nat_eq_iff2)
qed simp

datatype udp_op = AddPeer string string jsnum | RemovePeer string | OnReceive | Send bool string bytes | Close

fun udp_step :: "udp_op \<Rightarrow> UdpTransport \<Rightarrow> UdpTransport" where
  "udp_step (AddPeer n host port) U = snd (addPeer n host port U)"
| "udp_step (RemovePeer n) U = removePeer n U"
| "udp_step OnReceive U = udp_onReceive U"
| "udp_step (Send throws n f) U = snd (udp_send throws n f U)"
| "udp_step Close U = udp_close U"

text \<open>Neighbours are registered once, each with an endpoint of its own.\<close>

fun fresh_peer :: "udp_op \<Rightarrow> UdpTransport \<Rightarrow> bool" where
  "fresh_peer (AddPeer n host port) U \<longleftrightarrow> \<not> mhas (udpPeers U) n \<and>
     (\<forall>(m, p) \<in> set (udpPeers U). (udpHost p, Num (udpPort p)) \<noteq> (host, port))"
| "fresh_peer _ U \<longleftrightarrow> True"

fun careful :: "udp_op list \<Rightarrow> UdpTransport \<Rightarrow> bool" where
  "careful [] U \<longleftrightarrow> True"
| "careful (x # xs) U \<longleftrightarrow> fresh_peer x U \<and> careful xs (udp_step x U)"

definition attributed :: "UdpTransport \<Rightarrow> bool" where
  "attributed U \<longleftrightarrow>
     (\<forall>n p. mget (udpPeers U) n = Some p \<longrightarrow> n \<noteq> [] \<and> 0 \<le> udpPort p \<and>
        mget (neighborByEndpoint U) (endpointKey (udpHost p) (udpPort p)) = Some n) \<and>
     (\<forall>k n. mget (neighborByEndpoint U) k = Some n \<longrightarrow>
        (\<exists>p. mget (udpPeers U) n = Some p \<and> k = endpointKey (udpHost p) (udpPort p)))"

lemma attributedD:
  assumes "attributed U"
  shows "mget (udpPeers U) n = Some p \<Longrightarrow> n \<noteq> [] \<and> 0 \<le> udpPort p \<and>
      mget (neighborByEndpoint U) (endpointKey (udpHost p) (udpPort p)) = Some n"
    and "mget (neighborByEndpoint U) k = Some n \<Longrightarrow> \<exists>p. mget (udpPeers U) n = Some p \<and> k = endpointKey (udpHost p) (udpPort p)"
  using assms unfolding attributed_def by blast+

lemma attributed_add:
  assumes "attributed U" "fresh_peer (AddPeer n host port) U"
  shows "attributed (snd (addPeer n host port U))"
proof (cases "fst (addPeer n host port U)")
  case (Inl e)
  have "snd (addPeer n host port U) = U"
  proof (cases "n = [] \<or> \<not> is_integer port \<or> port < Num 1 \<or> Num 65535 < port")
    case True
    then show ?thesis by (simp only: addPeer_def if_True snd_conv)
  next
    case False
    with Inl show ?thesis by (simp only: addPeer_def if_False fst_conv) simp
  qed
  with assms(1) show ?thesis by simp
next
  case (Inr u)
  then have ok: "n \<noteq> []" "is_integer port" "\<not> port < Num 1" by (auto simp: addPeer_def split: if_splits)
  then obtain q where q: "port = Num q" "1 \<le> q" by (cases port) (auto simp: is_integer_def)
  let ?k = "endpointKey host q" and ?U = "U\<lparr>udpPeers := mset_at n \<lparr>udpHost = host, udpPort = q\<rparr> (udpPeers U),
    neighborByEndpoint := mset_at (endpointKey host q) n (neighborByEndpoint U)\<rparr>"
  have U: "snd (addPeer n host port U) = ?U" using Inr by (auto simp: addPeer_def q num_trunc_def split: if_splits)
  have new: "\<not> mhas (udpPeers U) n" using assms(2) by simp
  have other: "endpointKey (udpHost p) (udpPort p) \<noteq> ?k" if "mget (udpPeers U) m = Some p" for m p
  proof -
    have "(m, p) \<in> set (udpPeers U)" using that by (rule map_of_SomeD)
    then have "udpHost p \<noteq> host \<or> udpPort p \<noteq> q" using assms(2) q(1) by auto
    moreover have "0 \<le> udpPort p" using assms(1) that by (auto simp: attributed_def)
    ultimately show ?thesis using q(2) by (auto simp: endpointKey_eq)
  qed
  have unknown: "mget (neighborByEndpoint U) k \<noteq> Some n" for k
    using attributedD(2) [OF assms(1), of k n] new by (auto simp: mhas_def)
  have "m \<noteq> [] \<and> 0 \<le> udpPort p \<and> mget (neighborByEndpoint ?U) (endpointKey (udpHost p) (udpPort p)) = Some m"
    if "mget (udpPeers ?U) m = Some p" for m p
  proof (cases "m = n")
    case True
    with that have "p = \<lparr>udpHost = host, udpPort = q\<rparr>" by simp
    with True ok(1) q(2) show ?thesis by simp
  next
    case False
    with that have p: "mget (udpPeers U) m = Some p" by simp
    with attributedD(1) [OF assms(1) p] other [OF p] show ?thesis by simp
  qed
  moreover have "\<exists>p. mget (udpPeers ?U) m = Some p \<and> k = endpointKey (udpHost p) (udpPort p)"
    if k: "mget (neighborByEndpoint ?U) k = Some m" for k m
  proof (cases "k = ?k")
    case True
    with k show ?thesis by simp
  next
    case False
    with k have k': "mget (neighborByEndpoint U) k = Some m" by simp
    with unknown have "m \<noteq> n" by blast
    with attributedD(2) [OF assms(1) k'] show ?thesis by simp
  qed
  ultimately show ?thesis unfolding U attributed_def by blast
qed

lemma attributed_remove:
  assumes "attributed U"
  shows "attributed (removePeer n U)"
proof (cases "mget (udpPeers U) n")
  case (Some p)
  let ?k = "endpointKey (udpHost p) (udpPort p)"
  let ?U = "U\<lparr>udpPeers := mdel n (udpPeers U), neighborByEndpoint := mdel ?k (neighborByEndpoint U)\<rparr>"
  have own: "endpointKey (udpHost r) (udpPort r) = ?k \<longleftrightarrow> m = n" if "mget (udpPeers U) m = Some r" for m r
    using attributedD(1) [OF assms that] attributedD(1) [OF assms Some] that Some by (metis option.inject)
  have "m \<noteq> [] \<and> 0 \<le> udpPort r \<and> mget (neighborByEndpoint ?U) (endpointKey (udpHost r) (udpPort r)) = Some m"
    if "mget (udpPeers ?U) m = Some r" for m r
  proof -
    have m: "m \<noteq> n" "mget (udpPeers U) m = Some r" using that by (simp_all split: if_splits)
    with own [OF m(2)] attributedD(1) [OF assms m(2)] show ?thesis by simp
  qed
  moreover have "\<exists>r. mget (udpPeers ?U) m = Some r \<and> k = endpointKey (udpHost r) (udpPort r)"
    if "mget (neighborByEndpoint ?U) k = Some m" for k m
  proof -
    have k: "k \<noteq> ?k" "mget (neighborByEndpoint U) k = Some m" using that by (simp_all split: if_splits)
    then obtain r where r: "mget (udpPeers U) m = Some r" "k = endpointKey (udpHost r) (udpPort r)"
      using attributedD(2) [OF assms] by blast
    with own [OF r(1)] k(1) show ?thesis by (intro exI [of _ r]) simp
  qed
  ultimately have "attributed ?U" unfolding attributed_def by blast
  then show ?thesis using Some by (simp add: removePeer_def)
qed (use assms in \<open>simp add: removePeer_def\<close>)

lemma attributed_step:
  assumes "attributed U" "fresh_peer x U"
  shows "attributed (udp_step x U)"
proof (cases x)
  case (AddPeer n host port)
  with assms attributed_add show ?thesis by (metis udp_step.simps(1))
next
  case (RemovePeer n)
  with assms(1) attributed_remove show ?thesis by simp
next
  case (Send throws n f)
  have "udpPeers (snd (udp_send throws n f U)) = udpPeers U" "neighborByEndpoint (snd (udp_send throws n f U)) = neighborByEndpoint U"
    by (simp_all add: udp_send_def split: option.split)
  with Send assms(1) show ?thesis by (simp add: attributed_def)
qed (use assms(1) in \<open>simp_all add: udp_onReceive_def udp_close_def attributed_def\<close>)

lemma attributed_run: "attributed U \<Longrightarrow> careful xs U \<Longrightarrow> attributed (fold udp_step xs U)"
  by (induction xs arbitrary: U) (simp_all add: attributed_step)

section \<open>Properties\<close>

text \<open>C34: A datagram is attributed to the neighbour it comes from. When every neighbour is registered once and with an
  endpoint of its own, then after any operations a datagram is handed to the receiver as the neighbour's exactly
  when its source is the endpoint this neighbour is registered with now, it fits the unit and there is a receiver.\<close>

theorem udp_attribution:
  assumes "new_udp own opts = Inr U0" "careful ops U0" "U = fold udp_step ops U0" "0 \<le> port"
  shows "udp_message host port message U = Some (n, m) \<longleftrightarrow>
    m = message \<and> udpReceiver U \<and> int (length message) \<le> udpUnit U \<and> mget (udpPeers U) n = Some \<lparr>udpHost = host, udpPort = port\<rparr>"
proof -
  have "attributed U0" using assms(1) by (auto simp: new_udp_def attributed_def Let_def split: if_splits)
  then have U: "attributed U" using attributed_run assms(2,3) by blast
  have "mget (neighborByEndpoint U) (endpointKey host port) = Some n \<longleftrightarrow> mget (udpPeers U) n = Some \<lparr>udpHost = host, udpPort = port\<rparr>"
  proof
    assume "mget (neighborByEndpoint U) (endpointKey host port) = Some n"
    with U obtain p where p: "mget (udpPeers U) n = Some p" "endpointKey host port = endpointKey (udpHost p) (udpPort p)" "0 \<le> udpPort p"
      unfolding attributed_def by metis
    with assms(4) have "udpHost p = host" "udpPort p = port" by (auto simp: endpointKey_eq)
    with p(1) show "mget (udpPeers U) n = Some \<lparr>udpHost = host, udpPort = port\<rparr>" by (cases p) simp
  next
    assume "mget (udpPeers U) n = Some \<lparr>udpHost = host, udpPort = port\<rparr>"
    with U show "mget (neighborByEndpoint U) (endpointKey host port) = Some n" unfolding attributed_def by fastforce
  qed
  moreover have "n \<noteq> []" if "mget (udpPeers U) n = Some p" for p using U that by (auto simp: attributed_def)
  ultimately show ?thesis by (auto simp: udp_message_def split: option.splits if_splits)
qed

text \<open>A registration that moves leaves its old endpoint behind. When a neighbour is registered again with another
  endpoint and then removed, datagrams from its first endpoint are still handed up as the removed neighbour's.\<close>

theorem udp_stale_endpoint:
  assumes "addPeer n host1 port1 U = (Inr (), U1)" "addPeer n host2 port2 U1 = (Inr (), U2)" "(host1, port1) \<noteq> (host2, port2)"
    and "udpReceiver U" "int (length message) \<le> udpUnit U" "port1 = Num p"
  shows "udp_message host1 p message (removePeer n U2) = Some (n, message) \<and> n \<notin> set (udp_discoverNeighbors (removePeer n U2))"
proof -
  have ok: "n \<noteq> []" "is_integer port2" "\<not> port2 < Num 1" "\<not> port1 < Num 1" using assms(1,2) by (auto simp: addPeer_def split: if_splits)
  then obtain q where q: "port2 = Num q" "1 \<le> q" "1 \<le> p" using assms(6) by (cases port2) (auto simp: is_integer_def)
  then have key: "endpointKey host1 p \<noteq> endpointKey host2 q" using assms(3,6) by (auto simp: endpointKey_eq)
  have "mget (udpPeers U2) n = Some \<lparr>udpHost = host2, udpPort = q\<rparr>" "mget (neighborByEndpoint U2) (endpointKey host1 p) = Some n"
    "udpReceiver U2 = udpReceiver U" "udpUnit U2 = udpUnit U"
    using assms(1,2,6) key q(1) by (auto simp: addPeer_def num_trunc_def split: if_splits)
  with assms(4,5) ok(1) key show ?thesis
    by (simp add: udp_message_def removePeer_def udp_discoverNeighbors_def) (auto simp: in_set_mdel)
qed

definition test_udp :: UdpTransport where
  "test_udp = \<lparr>udpOwnId = ''n1'', udpUnit = 1200, udpReliability = Frac 0, udpPeers = [], neighborByEndpoint = [],
     udpReceiver = False, udpClosed = False, datagrams = []\<rparr>"

lemma test_udp_new: "new_udp ''n1'' \<lparr>optUnit = None, optReliability = None\<rparr> = Inr test_udp"
  by (simp add: new_udp_def test_udp_def DEFAULT_MTU_def DEFAULT_RELIABILITY_def is_integer_def is_finite_def num_trunc_def
      less_jsnum_def less_eq_jsnum_def)

theorem udp_attribution_witness:
  "udp_message ''127.0.0.1'' 4000 [7] (fold udp_step [AddPeer ''b'' ''127.0.0.1'' (Num 4000), OnReceive] test_udp) = Some (''b'', [7])"
  using udp_attribution [OF test_udp_new, of "[AddPeer ''b'' ''127.0.0.1'' (Num 4000), OnReceive]" _ 4000 "''127.0.0.1''" "[7]" "''b''" "[7]"]
  by (simp add: test_udp_def addPeer_def is_integer_def udp_onReceive_def num_trunc_def)

theorem udp_stale_endpoint_witness:
  "\<exists>U1 U2. addPeer ''b'' ''127.0.0.1'' (Num 4000) (udp_onReceive test_udp) = (Inr (), U1) \<and>
    addPeer ''b'' ''127.0.0.1'' (Num 4001) U1 = (Inr (), U2) \<and>
    udp_message ''127.0.0.1'' 4000 [7] (removePeer ''b'' U2) = Some (''b'', [7])"
proof -
  obtain U1 where 1: "addPeer ''b'' ''127.0.0.1'' (Num 4000) (udp_onReceive test_udp) = (Inr (), U1)"
    by (simp add: addPeer_def is_integer_def)
  obtain U2 where 2: "addPeer ''b'' ''127.0.0.1'' (Num 4001) U1 = (Inr (), U2)"
    by (simp add: addPeer_def is_integer_def)
  from udp_stale_endpoint [OF 1 2, of "[7]" 4000] 1 2 show ?thesis
    by (simp add: udp_onReceive_def test_udp_def)
qed

end
