(* ===== verification/RelayNetwork.thy ===== *)
theory RelayNetwork
  imports RelayLinks Transport
begin

text \<open>
  Relay nodes on the transports of \<open>src/transport\<close>: what a \<open>RelayNode\<close> sees of a simulated transport and of
  a UDP transport, and that the frames it makes fit them. The locale \<open>unit_transport\<close> is the contract of the
  \<open>Transport\<close> interface that sending relies on: a known neighbour takes every frame up to the link's unit.
\<close>

section \<open>Sizes of fragments\<close>

text \<open>
  The size of an encoded fragment within the limits of \<open>fragment.ts\<close>: one byte for the array, at most 19 for
  the tagged 16-byte id, three for each number up to 4096, five for the head of the data. Nothing is encoded
  as no byte at all.
\<close>

definition cbor_tight :: "lib \<Rightarrow> bool" where
  "cbor_tight L \<longleftrightarrow> (\<forall>mid i j d. length mid = 16 \<and> 0 \<le> i \<and> i \<le> 4096 \<and> 0 \<le> j \<and> j \<le> 4096 \<and> length d \<le> 4128
     \<longrightarrow> length (cbor_encode L (JArr [JBytes mid, JNum (Num i), JNum (Num j), JBytes d])) \<le> length d + 32) \<and>
   (\<forall>v. cbor_encode L v \<noteq> [])"

lemma encode_nonempty: "cbor_tight L \<Longrightarrow> encodeEnvelope L e \<noteq> []"
  by (simp add: cbor_tight_def encodeEnvelope_def)

lemma leb_small: "n < 128 \<Longrightarrow> leb n = [word_of_nat n]"
  and leb_large: "\<not> n < 128 \<Longrightarrow> leb n = word_of_nat (128 + n mod 128) # leb (n div 128)"
  by (simp_all add: leb.simps [of n])

lemma ref_cbor_tight [simp]: "cbor_tight ref_lib"
  unfolding cbor_tight_def
proof (intro conjI allI impI)
  show "cbor_encode ref_lib v \<noteq> []" for v by (cases v) (simp_all add: ref_lib_def)
next
  fix mid d :: bytes and i j :: int
  assume *: "length mid = 16 \<and> 0 \<le> i \<and> i \<le> 4096 \<and> 0 \<le> j \<and> j \<le> 4096 \<and> length d \<le> 4128"
  have two: "length (leb n) \<le> 2" if "n < 2 ^ 14" for n using length_leb [of n 2] that by simp
  have "length (leb (zigzag k)) \<le> 2" if "0 \<le> k" "k \<le> 4096" for k
    using that by (intro two) (simp add: zigzag_def nat_less_iff)
  then have "length (leb (length d)) \<le> 2" "length (leb (zigzag i)) \<le> 2" "length (leb (zigzag j)) \<le> 2"
    using * two by auto
  moreover have "length (leb (Suc (Suc (Suc (Suc 0))))) = 1" "length (leb 16) = 1" by (simp_all add: leb.simps)
  ultimately show "length (cbor_encode ref_lib (JArr [JBytes mid, JNum (Num i), JNum (Num j), JBytes d])) \<le> length d + 32"
    using * by (simp add: ref_lib_def enc_bytes_def)
qed

lemma ceil_div_le:
  assumes "0 < c" "n \<le> m * c"
  shows "ceil_div n c \<le> m"
proof -
  have "n + c - 1 < Suc m * c" using assms by simp
  then have "ceil_div n c < Suc m" unfolding ceil_div_def by (rule less_mult_imp_div_less)
  then show ?thesis by simp
qed

section \<open>The contract\<close>

locale unit_transport =
  fixes T :: RelayTransport and ready :: bool
  assumes takes: "ready \<Longrightarrow> linkUnit T n = Some u \<Longrightarrow> accepts T n f \<longleftrightarrow> int (length f) \<le> u"
begin

lemma frames_fit:
  assumes "ready" "cbor_tight L" "length (messageId (header e)) = 16" "linkUnit T n = Some u" "34 \<le> u" "u \<le> 4129"
    and "int (length (encodeEnvelope L e)) \<le> 4096 * (u - 33)"
  shows "\<exists>fs. frames_for L T n e = Inr fs \<and> fs \<noteq> [] \<and> (\<forall>f \<in> set fs. accepts T n f)"
proof (cases "int (length (encodeEnvelope L e)) + 1 \<le> u")
  case True
  with assms show ?thesis by (simp add: frames_for_def takes)
next
  case False
  let ?full = "encodeEnvelope L e" and ?c = "chunk_size (u - 1)"
  have c: "?c = nat (u - 33)" "0 < ?c" "?c \<le> 4096" using assms(5,6) by (simp_all add: chunk_size_def fragment_limits)
  have "length ?full \<le> 4096 * ?c" using assms(7) c(1) by (simp add: nat_mult_distrib flip: zle_int)
  then have count: "ceil_div (length ?full) ?c \<le> 4096" using ceil_div_le [OF c(2)] by simp
  then obtain frames where frames: "fragmentEnvelope L e (u - 1) = Inr frames"
    by (simp add: fragmentEnvelope_def Let_def fragment_limits)
  obtain parts where parts: "frames = map (part_frame L (messageId (header e)) parts) [0..<length parts]"
      "length parts \<le> 4096" "concat parts = ?full" "\<forall>x \<in> set parts. length x \<le> ?c"
    using fragmentEnvelope_parts [OF frames] by blast
  have "length f \<le> nat (u - 1)" if f: "f \<in> set frames" for f
  proof -
    obtain i where i: "f = part_frame L (messageId (header e)) parts i" "i < length parts" using f parts(1) by auto
    then have d: "length (parts ! i) \<le> ?c" using parts(4) by simp
    have "length f \<le> length (parts ! i) + 32"
      using assms(2,3) i d parts(2) c(3) unfolding cbor_tight_def by (simp add: part_frame_def encodeFragment_def)
    with d c(1) assms(5) show ?thesis by simp
  qed
  then have "\<forall>f \<in> set (map ((#) 1) frames). accepts T n f" using takes [OF assms(1,4)] assms(5) by force
  moreover have "frames \<noteq> []" using parts encode_nonempty [OF assms(2), of e] by auto
  ultimately show ?thesis using False assms(4) frames by (simp add: frames_for_def res_simps)
qed

text \<open>So the transport takes all of an envelope.\<close>

lemma sends_all:
  assumes "ready" "cbor_tight L" "length (messageId (header e)) = 16" "linkUnit T n = Some u" "34 \<le> u" "u \<le> 4129"
    and "int (length (encodeEnvelope L e)) \<le> 4096 * (u - 33)"
  shows "\<exists>fs. frames_for L T n e = Inr fs \<and> fs \<noteq> [] \<and> (\<forall>f \<in> set fs. accepts T n f) \<and>
    sendEnvelopeOverTransport L T n e s = (Inr True, s\<lparr>sent := sent s @ map (Pair n) fs\<rparr>)"
proof -
  obtain fs where fs: "frames_for L T n e = Inr fs" "fs \<noteq> []" "\<forall>f \<in> set fs. accepts T n f"
    using frames_fit [OF assms] by blast
  moreover have "filter (accepts T n) fs = fs" using fs(3) by (simp add: filter_id_conv)
  ultimately have "sendEnvelopeOverTransport L T n e s = (Inr True, s\<lparr>sent := sent s @ map (Pair n) fs\<rparr>)"
    unfolding sendEnvelopeOverTransport_sent by simp
  with fs show ?thesis by blast
qed

end

section \<open>The two transports\<close>

text \<open>What a \<open>RelayNode\<close> constructed on transport \<open>a\<close> of a simulated network sees.\<close>

definition sim_view :: "nat \<Rightarrow> SimNet \<Rightarrow> RelayTransport" where
  "sim_view a net = \<lparr>discoverNeighbors = sim_discoverNeighbors a net,
     linkUnit = (\<lambda>n. map_option maxTransmissionUnit (sim_getLinkCharacteristics a n net)),
     accepts = (\<lambda>n f. fst (sim_send a n f net))\<rparr>"

text \<open>\<open>throws\<close> says for which datagrams \<open>socket.send\<close> throws.\<close>

definition udp_view :: "(string \<Rightarrow> bytes \<Rightarrow> bool) \<Rightarrow> UdpTransport \<Rightarrow> RelayTransport" where
  "udp_view throws U = \<lparr>discoverNeighbors = udp_discoverNeighbors U,
     linkUnit = (\<lambda>n. map_option LinkCharacteristics.maxTransmissionUnit (udp_getLinkCharacteristics n U)),
     accepts = (\<lambda>n f. fst (udp_send (throws n f) n f U))\<rparr>"

interpretation sim: unit_transport "sim_view a net" True for a net
  by unfold_locales
    (auto simp: sim_view_def sim_getLinkCharacteristics_def sim_send_def mhas_def split: if_splits option.splits)

interpretation udp: unit_transport "udp_view throws U" "\<not> udpClosed U \<and> (\<forall>n f. \<not> throws n f)" for throws U
  by unfold_locales
    (auto simp: udp_view_def udp_getLinkCharacteristics_def udp_send_def mhas_def split: if_splits option.splits)

section \<open>Sending to a known peer\<close>

text \<open>The hop \<open>sendEnvelope\<close> chooses: the peer the packet is addressed to, or else the one the table names.\<close>

definition chosen_hop :: "lib \<Rightarrow> int \<Rightarrow> bytes \<Rightarrow> RelayNode \<Rightarrow> string option res" where
  "chosen_hop L t hint s =
     (case find (\<lambda>(n, p). bytesEqual (computeDestinationHint L (peerIdentityKey p)) hint) (authenticatedPeers s) of
        Some (n, p) \<Rightarrow> Inr (Some n)
      | None \<Rightarrow> fst (find_hop t hint (tidied t s)))"

lemma send_chosen:
  assumes "fresh t e" "chosen_hop L t (destinationHint (header e)) s = Inr (Some n)" "n \<noteq> []"
    and "frames_for L T n (next_hop_copy e) = Inr fs" "\<forall>f \<in> set fs. accepts T n f"
  shows "\<exists>s'. sendEnvelope L T t e s = (Inr (Forwarded n), s') \<and> sent s' = sent s @ map (Pair n) fs \<and> events s' = events s"
proof -
  let ?s = "tidied t s" and ?h = "destinationHint (header e)"
  let ?find = "find (\<lambda>(n, p). bytesEqual (computeDestinationHint L (peerIdentityKey p)) ?h) (authenticatedPeers s)"
  have s: "authenticatedPeers ?s = authenticatedPeers s" "sent ?s = sent s" "events ?s = events s"
    using tidied_quiet [of s t] by (simp_all add: quiet_def)
  obtain s1 where hop: "(case map_option fst ?find of Some n \<Rightarrow> ret (Some n) | None \<Rightarrow> find_hop t ?h) ?s = (Inr (Some n), s1)"
    and s1: "sent s1 = sent s" "events s1 = events s"
  proof (cases ?find)
    case None
    then have "find_hop t ?h ?s = (Inr (Some n), snd (find_hop t ?h ?s))"
      using assms(2) by (simp add: chosen_hop_def prod_eq_iff)
    with None s show ?thesis using that by (simp add: find_hop_table)
  next
    case (Some x)
    with assms(2) s show ?thesis using that by (auto simp: chosen_hop_def split: prod.splits)
  qed
  obtain r s' where f: "forwardOverTransport L T t e n s1 = (r, s')" by (cases "forwardOverTransport L T t e n s1")
  have all: "filter (accepts T n) fs = fs" using assms(5) by (simp add: filter_id_conv)
  have r: "r = Inr True" and s': "sent s' = sent s @ map (Pair n) fs" "events s' = events s"
    using forward_cases [where L = L and T = T and h = n and e = e and t = t and s = s1] assms(4,5) f all s1 by simp_all
  have "chain (forwardOverTransport L T t e n) (\<lambda>ok. if ok then ret (Forwarded n) else relay_store L t e ''origin'') s1 = (Inr (Forwarded n), s')"
    using f r by (simp add: chain_def)
  moreover have "truthy (Some n) = Some n" using assms(3) by (cases n) (simp_all add: truthy_def)
  ultimately have "sendEnvelope L T t e s = (Inr (Forwarded n), s')"
    using assms(1) s(1) hop by (simp add: sendEnvelope_def chain_purge_state chain_Inr)
  with s' show ?thesis by blast
qed

lemma send_direct:
  assumes "fresh t e" "n \<noteq> []" "frames_for L T n (next_hop_copy e) = Inr fs" "\<forall>f \<in> set fs. accepts T n f"
    and "find (\<lambda>(n, p). bytesEqual (computeDestinationHint L (peerIdentityKey p)) (destinationHint (header e))) (authenticatedPeers s) = Some (n, p)"
  shows "\<exists>s'. sendEnvelope L T t e s = (Inr (Forwarded n), s') \<and> sent s' = sent s @ map (Pair n) fs \<and> events s' = events s"
  by (rule send_chosen [OF assms(1) _ assms(2-4)]) (simp only: chosen_hop_def assms(5) option.case prod.case)

section \<open>Properties\<close>

text \<open>Two relay nodes over connected simulated transports. Whatever the unit of the link from 34 to 4129 bytes,
  every envelope of up to 4096 chunks is taken whole by the transport, each frame is handed to the other
  transport's receiver in the sender's name, and the frames received in order within thirty seconds have the
  effect of receiving the envelope.\<close>

theorem simulated_relay_link:
  assumes "cbor_roundtrips L" "cbor_compact L" "cbor_tight L" "plain_header (header e)" "length (messageId (header e)) = 16"
    and "mget (simPeers (net ! a)) n = Some b" "simReceiver (net ! b)" "34 \<le> simUnit (net ! a)" "simUnit (net ! a) \<le> 4129"
    and "int (length (encodeEnvelope L e)) \<le> 4096 * (simUnit (net ! a) - 33)"
    and "mget (authenticatedPeers B) (simOwnId (net ! a)) = Some peer"
    and "room_for (reassembler B) (bytesToHex (messageId (header e))) (simOwnId (net ! a) @ '':'' @ int_string (establishedAt peer))
      (length (encodeEnvelope L e))"
  shows "\<exists>fs. sendEnvelopeOverTransport L (sim_view a net) n e A = (Inr True, A\<lparr>sent := sent A @ map (Pair n) fs\<rparr>) \<and> fs \<noteq> [] \<and>
    (\<forall>f \<in> set fs. sim_send a n f net = (True, Some (b, simOwnId (net ! a), f))) \<and>
    (\<forall>ts. length ts = length fs \<and> (\<forall>t \<in> set ts. no_stale (reassembler B) t \<and> t - hd ts \<le> 30000) \<longrightarrow>
      (\<exists>R. receive_frames L T depth (simOwnId (net ! a)) (zip ts fs) B =
         snd (receiveEnvelope L T (last ts) depth e (Some (simOwnId (net ! a))) (B\<lparr>reassembler := R\<rparr>)) \<and>
         pending R = pending (reassembler B) \<and> pendingBytes R = pendingBytes (reassembler B)))"
proof -
  let ?V = "sim_view a net"
  have unit: "linkUnit ?V n = Some (simUnit (net ! a))" using assms(6) by (simp add: sim_view_def sim_getLinkCharacteristics_def mhas_def)
  obtain fs where fs: "fs \<noteq> []" "\<forall>f \<in> set fs. accepts ?V n f"
    "sendEnvelopeOverTransport L ?V n e A = (Inr True, A\<lparr>sent := sent A @ map (Pair n) fs\<rparr>)"
    using sim.sends_all [OF TrueI assms(3,5) unit assms(8-10)] by blast
  have "sim_send a n f net = (True, Some (b, simOwnId (net ! a), f))" if "f \<in> set fs" for f
    using fs(2) that assms(6,7) by (auto simp: sim_view_def sim_send_def split: if_splits)
  moreover have "\<exists>R. receive_frames L T depth (simOwnId (net ! a)) (zip ts fs) B =
         snd (receiveEnvelope L T (last ts) depth e (Some (simOwnId (net ! a))) (B\<lparr>reassembler := R\<rparr>)) \<and>
         pending R = pending (reassembler B) \<and> pendingBytes R = pendingBytes (reassembler B)"
    if "length ts = length fs" "\<forall>t \<in> set ts. no_stale (reassembler B) t \<and> t - hd ts \<le> 30000" for ts
    using frames_transparent [OF assms(1,2,4,5) _ fs(3) _ fs(1) assms(11) that(1) assms(12)] that(2) unit assms(9) by simp
  ultimately show ?thesis using fs by blast
qed

definition test_net :: SimNet where
  "test_net = sim_onReceive 1 (sim_onReceive 0
     (connectPeer 0 1 [createBluetoothTransport ''n1'', createBluetoothTransport ''b'']))"

lemma test_net:
  "mget (simPeers (test_net ! 0)) ''b'' = Some 1" "simReceiver (test_net ! 1)" "simUnit (test_net ! 0) = 200" "simOwnId (test_net ! 0) = ''n1''"
  by (simp_all add: test_net_def sim_onReceive_def connectPeer_def set_peer_def createBluetoothTransport_def new_sim_def)

theorem simulated_relay_link_witness:
  "\<exists>fs A. sendEnvelopeOverTransport ref_lib (sim_view 0 test_net) ''b'' test_envelope (new_relay ref_lib bob) = (Inr True, A) \<and>
    sent A = map (Pair ''b'') fs \<and> fs \<noteq> [] \<and> (\<forall>f \<in> set fs. sim_send 0 ''b'' f test_net = (True, Some (1, ''n1'', f)))"
proof -
  have new: "reassembler synced_node = new_reassembler"
    by (simp add: synced_node_def registerAuthenticatedPeer_def new_relay_def bob_def session_b_def)
  have room: "room_for (reassembler synced_node) k (simOwnId (test_net ! 0) @ p) (length (encodeEnvelope ref_lib test_envelope))" for k p
    by (simp add: new room_for_def new_reassembler_def test_envelope_length unknown_peer_def test_net)
  have e: "plain_header (header test_envelope)" "length (messageId (header test_envelope)) = 16"
    by (simp_all add: plain_header_def test_envelope_def)
  have u: "34 \<le> simUnit (test_net ! 0)" "simUnit (test_net ! 0) \<le> 4129"
    "int (length (encodeEnvelope ref_lib test_envelope)) \<le> 4096 * (simUnit (test_net ! 0) - 33)"
    using test_envelope_length by (simp_all add: test_net)
  have p: "mget (authenticatedPeers synced_node) (simOwnId (test_net ! 0)) =
      Some \<lparr>peerIdentityKey = publicKey bob, establishedAt = 1700000040000, peerSession = Some session_b\<rparr>"
    by (simp add: synced_node(2) test_net)
  show ?thesis
    using simulated_relay_link [OF ref_cbor ref_cbor_compact ref_cbor_tight e test_net(1,2) u p room,
        of "new_relay ref_lib bob" open_transport 1]
    by (auto simp: new_relay_def test_net(4))
qed

end
