(* ===== verification/EndToEnd.thy ===== *)
theory EndToEnd
  imports RelayNetwork
begin

text \<open>
  The first message between two devices, from the handshake to the plaintext: the root key and the ratchet key
  of the Noise IK handshake (\<open>handshake.ts\<close>) start the two ratchets (\<open>ratchet.ts\<close>), the message travels in an
  authenticated envelope (\<open>envelope.ts\<close>) from relay node to relay node (\<open>routing.ts\<close>, \<open>fragment.ts\<close>) over a simulated
  transport (\<open>transport.ts\<close>), and the receiving ratchet opens what the delivery listener is given.
\<close>

section \<open>From the handshake to the ratchets\<close>

text \<open>The second message carries the public half of the responder's first ratchet key.\<close>

lemma ratchet_key_shared:
  assumes "hash_sizes L" "responderWriteMessage2 L j st eph static p2 = Inr (m2, rr, kp)"
  shows "honest_xkey L kp" "m2_ephemeralPublicKey m2 = xPublicKey kp"
  using assms by (auto simp: responderWriteMessage2_def Let_def res_simps split_keys_def)

lemma first_envelope:
  assumes laws: "cbor_roundtrips L" "aead_correct L" "x25519_commutes L" "hash_sizes L" and kp: "honest_xkey L kp"
  obtains s0 env s1 pub c where "initAsInitiator L k root (xPublicKey kp) = Inr s0"
    "createAuthenticatedDataEnvelope L nowMs mid hint plaintext t s0 = (Inr env, s1)"
    "env = \<lparr>header = make_header nowMs mid Data t hint, sealedPayload = cbor_encode L (sealed_tuple (chain_header pub 0 0) c)\<rparr>"
    "length pub = 32" "length c = length plaintext + 16"
    "\<And>t' x. \<exists>r. openAuthenticatedDataEnvelope L x (env\<lparr>header := (header env)\<lparr>ttl := t'\<rparr>\<rparr>) (initAsResponder root kp) = (Inr plaintext, r)"
proof -
  let ?h = "make_header nowMs mid Data t hint" and ?a = "random_bytes L k 32" and ?pub = "xPublicKey (generateX25519KeyPair L k)"
  have a: "length ?a = 32" "?pub = x_public L ?a"
    using laws(4) by (simp_all add: hash_sizesD generateX25519KeyPair_def Let_def)
  then have pub: "length ?pub = 32" using laws(3) unfolding x25519_commutes_def by metis
  have "length (xPrivateKey kp) = 32" "xPublicKey kp = x_public L (xPrivateKey kp)" using kp by (simp_all add: honest_xkey_def)
  then obtain s0 dh where s0: "initAsInitiator L k root (xPublicKey kp) = Inr s0"
    "deriveSharedSecret L (xPrivateKey kp) ?pub = Inr dh" "sending_on L (snd (kdfRootKey L root dh)) ?pub 0 0 s0"
    using init_initiator [OF laws(3,4)] by metis
  let ?ck = "snd (kdfRootKey L root dh)"
  obtain ts where "timestamp ?h = Num ts" using coarseTimestamp_bounds [of nowMs] by (metis make_header_select(6))
  then obtain aad where aad: "encodeDataEnvelopeAssociatedData ?h = Inr aad" using encodeAAD_Num by blast
  have n: "length (replicate 16 0 @ le_bytes 8 (word_of_int (int 0) :: 64 word)) = 24" by simp
  obtain c where c: "chain_cipher L ?ck ?pub 0 0 plaintext aad = Some c" "length c = length plaintext + 16"
    "openWithMessageKey L (message_key L ?ck 0) (chain_header ?pub 0 0) c aad = Inr plaintext"
    using aead_correctE [OF laws(2) length_message_key [OF laws(4)] n] unfolding chain_cipher_def open_chain_header
    by (metis of_lib_simps(2))
  let ?e = "\<lparr>header = ?h, sealedPayload = cbor_encode L (sealed_tuple (chain_header ?pub 0 0) c)\<rparr>"
  obtain s1 where "ratchetEncrypt L plaintext aad s0 = (Inr (chain_header ?pub 0 0, c), s1)" using encrypt_chain [OF s0(3) c(1)] by metis
  then have e: "createAuthenticatedDataEnvelope L nowMs mid hint plaintext t s0 = (Inr ?e, s1)"
    using aad by (simp add: createAuthenticatedDataEnvelope_def Let_def)
  have g: "genuine L ?ck ?pub 0 (chain_header ?pub 0 0, c, aad) plaintext" using c(3) by (auto simp: genuine_def)
  have "\<exists>r. ratchetDecrypt L x (chain_header ?pub 0 0) c aad (initAsResponder root kp) = (Inr plaintext, r)" for x
    by (rule decrypt_first [OF laws(3,4) a s0(2) g, where j = x]) (auto simp: MAX_SKIP_def)
  moreover have "openDataEnvelope L (?e\<lparr>header := (header ?e)\<lparr>ttl := t'\<rparr>\<rparr>) = Inr (chain_header ?pub 0 0, c)" for t'
    by (intro openDataEnvelope_sealed [OF laws(1)]) (simp_all add: chain_header_def)
  ultimately have "\<exists>r. openAuthenticatedDataEnvelope L x (?e\<lparr>header := (header ?e)\<lparr>ttl := t'\<rparr>\<rparr>) (initAsResponder root kp) = (Inr plaintext, r)" for t' x
    using aad by (simp add: openAuthenticatedDataEnvelope_def)
  with s0(1) e pub c(2) show thesis using that by blast
qed

text \<open>A header made at a time is valid from then on for fifty-nine minutes, whatever is left of its hop counter,
  and so also with the hop counter decreased once.\<close>

lemma made_plain:
  assumes "0 \<le> nowMs" "nowMs < 2 ^ 53" "1 \<le> i" "i < 2 ^ 53"
  shows "plain_header (make_header nowMs mid p (Num i) hint)"
proof -
  obtain ts where "coarseTimestamp nowMs = Num ts" "ts \<le> nowMs div 1000" "nowMs div 1000 < ts + 60"
    using coarseTimestamp_bounds .
  moreover have "is_safe_integer (packet_code p)" by (cases p) (simp_all add: packet_code_def)
  ultimately show ?thesis using assms by (simp add: plain_header_def make_header_def PROTOCOL_VERSION_def)
qed

lemma made_valid:
  assumes "nowMs \<le> t" "t \<le> nowMs + 3540000" "1 \<le> i"
  shows "validateRoutingHeader t 3600 (make_header nowMs mid p (Num i) hint)"
proof -
  obtain ts where ts: "coarseTimestamp nowMs = Num ts" "ts \<le> nowMs div 1000" "nowMs div 1000 < ts + 60"
    using coarseTimestamp_bounds .
  have "nowMs div 1000 \<le> t div 1000" "t div 1000 \<le> (nowMs + 3540000) div 1000" using assms by (simp_all add: zdiv_mono1)
  then show ?thesis using ts assms(3) by (simp add: validate_Num [of _ ts] make_header_def PROTOCOL_VERSION_def)
qed

lemma next_hop_header:
  "header e = make_header nowMs mid Data (Num h) hint \<Longrightarrow> header (next_hop_copy e) = make_header nowMs mid Data (Num (h - 1)) hint"
  by (simp add: next_hop_copy_def make_header_def)

lemma made_header:
  assumes "0 \<le> nowMs" "nowMs < 2 ^ 53" "2 \<le> h" "h < 2 ^ 53" "header e = make_header nowMs mid Data (Num h) hint"
  shows "plain_header (header e)" "plain_header (header (next_hop_copy e))"
    "nowMs \<le> t \<Longrightarrow> t \<le> nowMs + 3540000 \<Longrightarrow> validateRoutingHeader t 3600 (header e)"
    "nowMs \<le> t \<Longrightarrow> t \<le> nowMs + 3540000 \<Longrightarrow> validateRoutingHeader t 3600 (header (next_hop_copy e))"
  unfolding next_hop_header [OF assms(5)] assms(5) using assms(1-4) by (auto intro: made_plain made_valid)

section \<open>From node to node\<close>

lemma node_to_node:
  assumes laws: "cbor_roundtrips L" "cbor_compact L" "cbor_tight L"
    and made: "header env = make_header nowMs mid Data (Num h) (ownDestinationHint B)" "length mid = 16"
      "0 \<le> nowMs" "nowMs < 2 ^ 53" "2 \<le> h" "h < 2 ^ 53"
    and peer: "find (\<lambda>(n, p). bytesEqual (computeDestinationHint L (peerIdentityKey p)) (ownDestinationHint B))
      (authenticatedPeers A) = Some (n, p)" "n \<noteq> []"
    and link: "mget (simPeers (net ! a)) n = Some b" "simReceiver (net ! b)" "34 \<le> simUnit (net ! a)" "simUnit (net ! a) \<le> 4129"
      "int (length (encodeEnvelope L (next_hop_copy env))) \<le> 4096 * (simUnit (net ! a) - 33)"
    and known: "mget (authenticatedPeers B) (simOwnId (net ! a)) = Some q"
      "room_for (reassembler B) (bytesToHex mid) (simOwnId (net ! a) @ '':'' @ int_string (establishedAt q))
        (length (encodeEnvelope L (next_hop_copy env)))"
  shows "\<exists>fs A'. sendEnvelope L (sim_view a net) nowMs env A = (Inr (Forwarded n), A') \<and> sent A' = sent A @ map (Pair n) fs \<and> fs \<noteq> [] \<and>
    (\<forall>f \<in> set fs. sim_send a n f net = (True, Some (b, simOwnId (net ! a), f))) \<and>
    (\<forall>ts. length ts = length fs \<and> (\<forall>t \<in> set ts. no_stale (reassembler B) t \<and> t - hd ts \<le> 30000 \<and> nowMs \<le> t \<and> t \<le> nowMs + 3540000) \<longrightarrow>
      events (receive_frames L T (Suc depth) (simOwnId (net ! a)) (zip ts fs) B) = events B @ [DeliveryListener (next_hop_copy env)])"
proof -
  let ?V = "sim_view a net" and ?e = "next_hop_copy env"
  note h = made_header [OF made(3-6,1)]
  have e: "messageId (header ?e) = mid" "packetType (header ?e) = packet_code Data" "destinationHint (header ?e) = ownDestinationHint B"
    by (simp_all add: next_hop_copy_def made(1) make_header_def)
  have unit: "linkUnit ?V n = Some (simUnit (net ! a))" using link(1) by (simp add: sim_view_def sim_getLinkCharacteristics_def mhas_def)
  have mid: "length (messageId (header ?e)) = 16" using e(1) made(2) by simp
  obtain fs where fs: "frames_for L ?V n ?e = Inr fs" "fs \<noteq> []" "\<forall>f \<in> set fs. accepts ?V n f"
    and over: "sendEnvelopeOverTransport L ?V n ?e A = (Inr True, A\<lparr>sent := sent A @ map (Pair n) fs\<rparr>)"
    using sim.sends_all [OF TrueI laws(3) mid unit link(3-5)] by blast
  have f: "fresh nowMs env" using h(3) [of nowMs] by (simp add: STORE_FORWARD_MAX_AGE_SECONDS_def)
  have hint: "destinationHint (header env) = ownDestinationHint B" by (simp add: made(1) make_header_def)
  obtain A' where A': "sendEnvelope L ?V nowMs env A = (Inr (Forwarded n), A')" "sent A' = sent A @ map (Pair n) fs"
    using send_direct [OF f peer(2) fs(1,3) peer(1) [folded hint]] by blast
  have room: "room_for (reassembler B) (bytesToHex (messageId (header ?e))) (simOwnId (net ! a) @ '':'' @ int_string (establishedAt q))
      (length (encodeEnvelope L ?e))" using known(2) e(1) by simp
  obtain gs where gs: "sendEnvelopeOverTransport L ?V n ?e A = (Inr True, A\<lparr>sent := sent A @ map (Pair n) gs\<rparr>)"
    "\<forall>f \<in> set gs. sim_send a n f net = (True, Some (b, simOwnId (net ! a), f))"
    "\<And>ts. length ts = length gs \<Longrightarrow> \<forall>t \<in> set ts. no_stale (reassembler B) t \<and> t - hd ts \<le> 30000 \<Longrightarrow>
      \<exists>R. receive_frames L T (Suc depth) (simOwnId (net ! a)) (zip ts gs) B =
         snd (receiveEnvelope L T (last ts) (Suc depth) ?e (Some (simOwnId (net ! a))) (B\<lparr>reassembler := R\<rparr>))"
    using simulated_relay_link [OF laws h(2) mid link known(1) room, of A T "Suc depth"] by blast
  have "A\<lparr>sent := sent A @ map (Pair n) fs\<rparr> = A\<lparr>sent := sent A @ map (Pair n) gs\<rparr>"
    by (rule Pair_inject [OF trans [OF over [symmetric] gs(1)]])
  from arg_cong [where f = sent, OF this] have same: "gs = fs" by (simp add: inj_map_eq_map inj_on_def)
  have "events (receive_frames L T (Suc depth) (simOwnId (net ! a)) (zip ts fs) B) = events B @ [DeliveryListener ?e]"
    if ts: "length ts = length fs" "\<forall>t \<in> set ts. no_stale (reassembler B) t \<and> t - hd ts \<le> 30000 \<and> nowMs \<le> t \<and> t \<le> nowMs + 3540000" for ts
  proof -
    obtain R where R: "receive_frames L T (Suc depth) (simOwnId (net ! a)) (zip ts fs) B =
         snd (receiveEnvelope L T (last ts) (Suc depth) ?e (Some (simOwnId (net ! a))) (B\<lparr>reassembler := R\<rparr>))"
      using gs(3) [of ts] ts unfolding same by blast
    have "last ts \<in> set ts" using ts(1) fs(2) by (cases ts) auto
    then have "validateRoutingHeader (last ts) 3600 (header ?e)" using h(4) ts(2) by blast
    then show ?thesis
      unfolding R using receive_data [OF e(2)] e(3) by (simp add: STORE_FORWARD_MAX_AGE_SECONDS_def del: receiveEnvelope.simps)
  qed
  with A' fs(2) gs(2) [unfolded same] show ?thesis by (intro exI [of _ fs] exI [of _ A'] conjI) simp_all
qed

section \<open>Properties\<close>

text \<open>C1: The first message arrives. After an undisturbed handshake the initiator starts its ratchet with the root
  key and the ratchet key of the second message, encrypts a message into an authenticated envelope for the
  responder's node, and its relay node hands it over a simulated link of 34 to 4129 bytes. Every frame the transport
  is given reaches the other node's transport; received in order within thirty seconds, and within fifty-nine minutes
  of its creation, the frames make the responder's node call its delivery listener with an envelope that the
  responder's ratchet opens to the message.\<close>

theorem first_message_arrives:
  assumes laws: "cbor_roundtrips L" "cbor_compact L" "cbor_tight L" "aead_correct L" "x25519_commutes L" "hash_sizes L"
    and keys: "honest_xkey L ikp" "honest_xkey L rkp"
    and handshake: "initiatorWriteMessage1 L i ikp (xPublicKey rkp) p1 = Inr (m1, st, eph)" "responderReadMessage1 L rkp m1 = Inr (rst, static, p)"
      "responderWriteMessage2 L j rst (m1_ephemeralPublicKey m1) static p2 = Inr (m2, rr, kp)" "initiatorReadMessage2 L st ikp eph m2 = Inr ir"
    and message: "initAsInitiator L k (rootKey ir) (m2_ephemeralPublicKey m2) = Inr s0" "length mid = 16"
      "createAuthenticatedDataEnvelope L nowMs mid (ownDestinationHint B) plaintext (Num h) s0 = (Inr env, s1)"
      "0 \<le> nowMs" "nowMs < 2 ^ 53" "2 \<le> h" "h < 2 ^ 53"
    and peer: "find (\<lambda>(n, p). bytesEqual (computeDestinationHint L (peerIdentityKey p)) (ownDestinationHint B))
      (authenticatedPeers A) = Some (n, q)" "n \<noteq> []"
    and link: "mget (simPeers (net ! a)) n = Some b" "simReceiver (net ! b)" "34 \<le> simUnit (net ! a)" "simUnit (net ! a) \<le> 4129"
      "int (length (encodeEnvelope L (next_hop_copy env))) \<le> 4096 * (simUnit (net ! a) - 33)"
    and known: "mget (authenticatedPeers B) (simOwnId (net ! a)) = Some q'"
      "room_for (reassembler B) (bytesToHex mid) (simOwnId (net ! a) @ '':'' @ int_string (establishedAt q'))
        (length (encodeEnvelope L (next_hop_copy env)))"
  shows "\<exists>fs A' delivered r. sendEnvelope L (sim_view a net) nowMs env A = (Inr (Forwarded n), A') \<and> sent A' = sent A @ map (Pair n) fs \<and> fs \<noteq> [] \<and>
    (\<forall>f \<in> set fs. sim_send a n f net = (True, Some (b, simOwnId (net ! a), f))) \<and>
    (\<forall>ts. length ts = length fs \<and> (\<forall>t \<in> set ts. no_stale (reassembler B) t \<and> t - hd ts \<le> 30000 \<and> nowMs \<le> t \<and> t \<le> nowMs + 3540000) \<longrightarrow>
      events (receive_frames L T (Suc depth) (simOwnId (net ! a)) (zip ts fs) B) = events B @ [DeliveryListener delivered]) \<and>
    openAuthenticatedDataEnvelope L x delivered (initAsResponder (rootKey rr) kp) = (Inr plaintext, r)"
proof -
  have root: "rootKey ir = rootKey rr"
  proof (rule handshake_run [OF laws(4-6) keys, of i p1 j p2])
  qed (use handshake in simp)
  note kp = ratchet_key_shared [OF laws(6) handshake(3)]
  obtain s0' env' s1' pub c where first: "initAsInitiator L k (rootKey rr) (xPublicKey kp) = Inr s0'"
    "createAuthenticatedDataEnvelope L nowMs mid (ownDestinationHint B) plaintext (Num h) s0' = (Inr env', s1')"
    "env' = \<lparr>header = make_header nowMs mid Data (Num h) (ownDestinationHint B), sealedPayload = cbor_encode L (sealed_tuple (chain_header pub 0 0) c)\<rparr>"
    "length pub = 32" "length c = length plaintext + 16"
    "\<And>t' x. \<exists>r. openAuthenticatedDataEnvelope L x (env'\<lparr>header := (header env')\<lparr>ttl := t'\<rparr>\<rparr>) (initAsResponder (rootKey rr) kp) = (Inr plaintext, r)"
    by (rule first_envelope [OF laws(1,4-6) kp(1), where k = k and root = "rootKey rr" and nowMs = nowMs and mid = mid
        and hint = "ownDestinationHint B" and plaintext = plaintext and t = "Num h"]) (rule that)
  have "env' = env" using first(1,2) message(1,3) unfolding root kp(2) by simp
  then have env: "header env = make_header nowMs mid Data (Num h) (ownDestinationHint B)"
    "\<exists>r. openAuthenticatedDataEnvelope L x (next_hop_copy env) (initAsResponder (rootKey rr) kp) = (Inr plaintext, r)"
    using first(3) first(6) [of x "num_sub (ttl (header env)) (Num 1)"] by (auto simp: next_hop_copy_def)
  obtain fs A' where node: "sendEnvelope L (sim_view a net) nowMs env A = (Inr (Forwarded n), A')" "sent A' = sent A @ map (Pair n) fs" "fs \<noteq> []"
    "\<forall>f \<in> set fs. sim_send a n f net = (True, Some (b, simOwnId (net ! a), f))"
    "\<forall>ts. length ts = length fs \<and> (\<forall>t \<in> set ts. no_stale (reassembler B) t \<and> t - hd ts \<le> 30000 \<and> nowMs \<le> t \<and> t \<le> nowMs + 3540000) \<longrightarrow>
      events (receive_frames L T (Suc depth) (simOwnId (net ! a)) (zip ts fs) B) = events B @ [DeliveryListener (next_hop_copy env)]"
    using node_to_node [OF laws(1-3) env(1) message(2,4-7) peer link known, of T depth] by (elim exE conjE) (rule that)
  from env(2) obtain r where "openAuthenticatedDataEnvelope L x (next_hop_copy env) (initAsResponder (rootKey rr) kp) = (Inr plaintext, r)" ..
  with node show ?thesis by (intro exI [of _ fs] exI [of _ A'] exI [of _ "next_hop_copy env"] exI [of _ r] conjI)
qed

text \<open>Bob's node, which knows Alice's.\<close>

definition bob_relay :: RelayNode where
  "bob_relay = snd (registerAuthenticatedPeer 1700000040000 ''b'' (publicKey alice) None (new_relay ref_lib bob))"

lemma small_first_envelope:
  assumes "length pub = 32" "length c = 18" "length mid = 16" "length hint = 8" "0 \<le> i" "i \<le> 16"
    and "header e = make_header 1700000040000 mid Data (Num i) hint" "sealedPayload e = cbor_encode ref_lib (sealed_tuple (chain_header pub 0 0) c)"
  shows "length (encodeEnvelope ref_lib e) \<le> 200"
proof -
  have codec: "cbor_encode ref_lib = enc_val" by (simp add: ref_lib_def)
  have l: "length (sealedPayload e) \<le> 80"
    using assms(1,2,8) by (simp add: sealed_tuple_def chain_header_def codec enc_bytes_def leb_small zigzag_def)
  then have p: "length (leb (length (sealedPayload e))) = 1" by (simp add: leb_small)
  have t: "length (leb (zigzag i)) = 1" using assms(5,6) by (simp add: leb_small zigzag_def)
  show ?thesis
    using p l t assms(3,4) by (simp add: encodeEnvelope_def headerToTuple_def assms(7) make_header_def coarseTimestamp_def PROTOCOL_VERSION_def
      TIMESTAMP_GRANULARITY_SECONDS_def packet_code_def codec enc_bytes_def zigzag_def leb_small leb_large)
qed

theorem first_message_arrives_witness:
  "\<exists>env fs A' delivered root kp r. sendEnvelope ref_lib (sim_view 0 test_net) 1700000040000 env bob_relay = (Inr (Forwarded ''b''), A') \<and>
    sent A' = sent bob_relay @ map (Pair ''b'') fs \<and> fs \<noteq> [] \<and>
    events (receive_frames ref_lib open_transport 1 ''n1'' (zip (replicate (length fs) 1700000050000) fs) synced_node) = [DeliveryListener delivered] \<and>
    openAuthenticatedDataEnvelope ref_lib 0 delivered (initAsResponder root kp) = (Inr [72, 105], r)"
proof -
  let ?t = "1700000040000 :: int" and ?mid = "replicate 16 9 :: bytes" and ?hint = "ownDestinationHint synced_node"
  obtain m1 st eph rst m2 rr kp ir where hs: "initiatorWriteMessage1 ref_lib 0 initiator_key (xPublicKey responder_key) [] = Inr (m1, st, eph)"
    "responderReadMessage1 ref_lib responder_key m1 = Inr (rst, xPublicKey initiator_key, [])"
    "responderWriteMessage2 ref_lib 1 rst (m1_ephemeralPublicKey m1) (xPublicKey initiator_key) [] = Inr (m2, rr, kp)"
    "initiatorReadMessage2 ref_lib st initiator_key eph m2 = Inr ir" "rootKey ir = rootKey rr"
    by (rule handshake_run [OF ref_aead_correct ref_x25519_commutes ref_hash_sizes honest_test_keys, of 0 "[]" 1 "[]"]) (rule that)
  note kp = ratchet_key_shared [OF ref_hash_sizes hs(3)]
  obtain s0 env s1 pub c where env: "initAsInitiator ref_lib 2 (rootKey rr) (xPublicKey kp) = Inr s0"
    "createAuthenticatedDataEnvelope ref_lib ?t ?mid ?hint [72, 105] (Num 16) s0 = (Inr env, s1)"
    "env = \<lparr>header = make_header ?t ?mid Data (Num 16) ?hint, sealedPayload = cbor_encode ref_lib (sealed_tuple (chain_header pub 0 0) c)\<rparr>"
    "length pub = 32" "length c = length [72 :: byte, 105] + 16"
    by (rule first_envelope [OF ref_cbor ref_aead_correct ref_x25519_commutes ref_hash_sizes kp(1), where k = 2 and root = "rootKey rr"
        and nowMs = ?t and mid = ?mid and hint = ?hint and plaintext = "[72, 105]" and t = "Num 16"]) (rule that)
  have start: "initAsInitiator ref_lib 2 (rootKey ir) (m2_ephemeralPublicKey m2) = Inr s0" using env(1) hs(5) kp(2) by simp
  have own: "?hint = computeDestinationHint ref_lib (publicKey alice)" "reassembler synced_node = new_reassembler" "events synced_node = []"
    by (simp_all add: synced_node_def registerAuthenticatedPeer_def new_relay_def bob_def session_b_def)
  then have "length ?hint = 8" by (simp add: computeDestinationHint_def slice_def DESTINATION_HINT_LENGTH_def hash_sizesD [OF ref_hash_sizes])
  with small_first_envelope [OF env(4), of c ?mid ?hint 15 "next_hop_copy env"] env(3,5)
  have le: "length (encodeEnvelope ref_lib (next_hop_copy env)) \<le> 200" by (simp add: next_hop_copy_def make_header_def)
  have peer: "find (\<lambda>(n, p). bytesEqual (computeDestinationHint ref_lib (peerIdentityKey p)) ?hint) (authenticatedPeers bob_relay)
      = Some (''b'', \<lparr>peerIdentityKey = publicKey alice, establishedAt = ?t, peerSession = None\<rparr>)" "''b'' \<noteq> []"
    unfolding own(1) by (simp_all add: bob_relay_def registerAuthenticatedPeer_def new_relay_def alice_def)
  have u: "34 \<le> simUnit (test_net ! 0)" "simUnit (test_net ! 0) \<le> 4129"
    "int (length (encodeEnvelope ref_lib (next_hop_copy env))) \<le> 4096 * (simUnit (test_net ! 0) - 33)"
    using le by (simp_all add: test_net)
  have p: "mget (authenticatedPeers synced_node) (simOwnId (test_net ! 0)) = Some \<lparr>peerIdentityKey = publicKey bob, establishedAt = ?t, peerSession = Some session_b\<rparr>"
    by (simp add: synced_node(2) test_net)
  have room: "room_for (reassembler synced_node) k (simOwnId (test_net ! 0) @ p) (length (encodeEnvelope ref_lib (next_hop_copy env)))" for k p
    using le by (simp add: own(2) room_for_def new_reassembler_def unknown_peer_def test_net)
  have n: "length ?mid = 16" "0 \<le> ?t" "?t < 2 ^ 53" "(2 :: int) \<le> 16" "(16 :: int) < 2 ^ 53" by simp_all
  obtain fs A' delivered r where run: "sendEnvelope ref_lib (sim_view 0 test_net) ?t env bob_relay = (Inr (Forwarded ''b''), A')"
    "sent A' = sent bob_relay @ map (Pair ''b'') fs" "fs \<noteq> []"
    "\<forall>ts. length ts = length fs \<and> (\<forall>t \<in> set ts. no_stale (reassembler synced_node) t \<and> t - hd ts \<le> 30000 \<and> ?t \<le> t \<and> t \<le> ?t + 3540000) \<longrightarrow>
      events (receive_frames ref_lib open_transport (Suc 0) (simOwnId (test_net ! 0)) (zip ts fs) synced_node) = events synced_node @ [DeliveryListener delivered]"
    "openAuthenticatedDataEnvelope ref_lib 0 delivered (initAsResponder (rootKey rr) kp) = (Inr [72, 105], r)"
    using first_message_arrives [OF ref_cbor ref_cbor_compact ref_cbor_tight ref_aead_correct ref_x25519_commutes ref_hash_sizes
        honest_test_keys hs(1-4) start n(1) env(2) n(2-5) peer test_net(1,2) u p room, where T = open_transport and depth = 0 and x = 0]
    by (elim exE conjE) (rule that)
  let ?ts = "replicate (length fs) (1700000050000 :: int)"
  have "hd ?ts = 1700000050000" using run(3) by (cases fs) simp_all
  then have "events (receive_frames ref_lib open_transport (Suc 0) ''n1'' (zip ?ts fs) synced_node) = [DeliveryListener delivered]"
    using run(4) [rule_format, of ?ts] by (simp add: own(2,3) no_stale_def new_reassembler_def test_net)
  with run(1-3,5) show ?thesis by (intro exI [of _ env] exI [of _ fs] exI [of _ A'] exI [of _ delivered] exI [of _ "rootKey rr"] exI [of _ kp] exI [of _ r]) simp
qed

end
