(* ===== verification/MeshPath.thy ===== *)
theory MeshPath
  imports EndToEnd
begin

text \<open>
  The mesh: an envelope carried along a path of relay nodes (\<open>routing.ts\<close>) over a network of simulated transports
  (\<open>transport.ts\<close>), and the way of an envelope whose path is longer than its hop counter.
\<close>

section \<open>A path of nodes\<close>

text \<open>A node on the path: its state, its transport in the network, and when the frames reach it.\<close>

record Station =
  stNode :: RelayNode
  stIndex :: nat
  stTime :: "nat \<Rightarrow> int"

text \<open>Of the frames transport \<open>a\<close> is given, those its network hands to the receiver of transport \<open>b\<close>.\<close>

definition handed_over :: "SimNet \<Rightarrow> nat \<Rightarrow> nat \<Rightarrow> (string \<times> bytes) list \<Rightarrow> bytes list" where
  "handed_over net a b out = concat (map (\<lambda>(n, f). case snd (sim_send a n f net) of
     None \<Rightarrow> [] | Some (c, m, g) \<Rightarrow> if c = b then [g] else []) out)"

text \<open>A node after it has received what transport \<open>a\<close> was given for it.\<close>

definition arrive :: "lib \<Rightarrow> SimNet \<Rightarrow> nat \<Rightarrow> nat \<Rightarrow> (string \<times> bytes) list \<Rightarrow> Station \<Rightarrow> RelayNode" where
  "arrive L net depth a out S =
     (let fs = handed_over net a (stIndex S) out
      in receive_frames L (sim_view (stIndex S) net) depth (simOwnId (net ! a)) (zip (map (stTime S) [0..<length fs]) fs) (stNode S))"

text \<open>The nodes of the path after each has received what the one before it sent on.\<close>

fun mesh_run :: "lib \<Rightarrow> SimNet \<Rightarrow> nat \<Rightarrow> nat \<Rightarrow> (string \<times> bytes) list \<Rightarrow> Station list \<Rightarrow> RelayNode list" where
  "mesh_run L net depth a out [] = []"
| "mesh_run L net depth a out (S # path) =
     (let s = arrive L net depth a out S
      in s # mesh_run L net depth (stIndex S) (drop (length (sent (stNode S))) (sent s)) path)"

text \<open>A link that carries an envelope: connected, of 34 to 4129 bytes, the envelope of at most 4096 chunks.\<close>

definition carries :: "lib \<Rightarrow> SimNet \<Rightarrow> nat \<Rightarrow> string \<Rightarrow> nat \<Rightarrow> Envelope \<Rightarrow> bool" where
  "carries L net a n b e \<longleftrightarrow> n \<noteq> [] \<and> mget (simPeers (net ! a)) n = Some b \<and> simReceiver (net ! b) \<and>
     34 \<le> simUnit (net ! a) \<and> simUnit (net ! a) \<le> 4129 \<and> int (length (encodeEnvelope L e)) \<le> 4096 * (simUnit (net ! a) - 33)"

text \<open>A node that knows the sender and has room for the frames, which reach it within thirty seconds.\<close>

definition takes_in :: "lib \<Rightarrow> SimNet \<Rightarrow> nat \<Rightarrow> Envelope \<Rightarrow> Station \<Rightarrow> bool" where
  "takes_in L net a e S \<longleftrightarrow>
     (\<exists>peer. mget (authenticatedPeers (stNode S)) (simOwnId (net ! a)) = Some peer \<and>
        room_for (reassembler (stNode S)) (bytesToHex (messageId (header e)))
          (simOwnId (net ! a) @ '':'' @ int_string (establishedAt peer)) (length (encodeEnvelope L e))) \<and>
     (\<forall>i. no_stale (reassembler (stNode S)) (stTime S i) \<and> stTime S i - stTime S 0 \<le> 30000)"

text \<open>The path of an envelope as its nodes' routing tables have it: every node but the last looks up the next.\<close>

fun routed :: "lib \<Rightarrow> SimNet \<Rightarrow> nat \<Rightarrow> string \<Rightarrow> Envelope \<Rightarrow> Station list \<Rightarrow> bool" where
  "routed L net a n e [] \<longleftrightarrow> False"
| "routed L net a n e (S # path) \<longleftrightarrow> carries L net a n (stIndex S) e \<and> takes_in L net a e S \<and>
     (if path = [] then ownDestinationHint (stNode S) = destinationHint (header e)
      else ownDestinationHint (stNode S) \<noteq> destinationHint (header e) \<and>
        (\<exists>m. (\<forall>i. fst (find_hop (stTime S i) (destinationHint (header e)) (tidied (stTime S i) (stNode S))) = Inr (Some m)) \<and>
           routed L net (stIndex S) m (next_hop_copy e) path))"

section \<open>One hop\<close>

lemma tidied_reassembler: "tidied t (s\<lparr>reassembler := R\<rparr>) = (tidied t s)\<lparr>reassembler := R\<rparr>"
proof -
  have expire: "expire_ack k v (s\<lparr>reassembler := R\<rparr>) = (expire_ack k v s)\<lparr>reassembler := R\<rparr>" for k v s
    by (simp add: expire_ack_def)
  have "foldl (\<lambda>(purged, s) (k, v). if stale k v then (purged + 1, expire_ack k v s) else (purged, s)) (n, s0\<lparr>reassembler := R\<rparr>) m
      = (let (n', s') = foldl (\<lambda>(purged, s) (k, v). if stale k v then (purged + 1, expire_ack k v s) else (purged, s)) (n, s0) m
         in (n', s'\<lparr>reassembler := R\<rparr>))" for stale m s0 and n :: nat
    by (induction m arbitrary: n s0) (auto simp: expire)
  then show ?thesis
    by (simp add: purgeStaleRoutingState_def expirePendingAcks_def sweep_def chain_def on_part_def case_prod_beta Let_def)
qed

lemma find_hop_reassembler: "fst (find_hop t h (s\<lparr>reassembler := R\<rparr>)) = fst (find_hop t h s)"
  by (simp add: find_hop_def on_part_res_def case_prod_beta)

lemma relay_on_forwards:
  assumes "\<not> ttl (header e) \<le> Num 0" "packetType (header e) = packet_code Data" "m \<noteq> []"
    and "fst (find_hop t (destinationHint (header e)) s) = Inr (Some m)"
    and "frames_for L T m (next_hop_copy e) = Inr fs" "\<forall>f \<in> set fs. accepts T m f"
  obtains s' where "relay_on L T t e src s = (Inr (Forwarded m), s')" "sent s' = sent s @ map (Pair m) fs" "events s' = events s"
    "mget (pendingAcks s') (id_hex e) = Some \<lparr>ackNeighborId = m, ackDestinationHint = destinationHint (header e), sentAt = t\<rparr>"
proof -
  let ?s = "snd (find_hop t (destinationHint (header e)) s)"
  have hop: "find_hop t (destinationHint (header e)) s = (Inr (Some m), ?s)" using assms(4) by (metis prod.collapse)
  have q: "sent ?s = sent s" "events ?s = events s" by (simp_all add: find_hop_table)
  obtain r s' where f: "forwardOverTransport L T t e m ?s = (r, s')" by (cases "forwardOverTransport L T t e m ?s")
  have all: "filter (accepts T m) fs = fs" using assms(6) by (simp add: filter_id_conv)
  have r: "r = Inr True" "sent s' = sent s @ map (Pair m) fs" "events s' = events s"
    "mget (pendingAcks s') (id_hex e) = Some \<lparr>ackNeighborId = m, ackDestinationHint = destinationHint (header e), sentAt = t\<rparr>"
    using forward_cases [where L = L and T = T and h = m and e = e and t = t and s = ?s] assms(2,5,6) f all q by simp_all
  have id: "truthy (Some m) = Some m" using assms(3) by (cases m) (simp_all add: truthy_def)
  have "relay_on L T t e src s = (Inr (Forwarded m), s')"
    unfolding relay_on_def using assms(1) hop f r(1) id by (simp add: chain_Inr Let_def)
  from that [OF this r(2-4)] show thesis .
qed

text \<open>The frames of one envelope over a link that carries it, and what the node at the other end makes of them.\<close>

lemma carried:
  assumes "cbor_tight L" "carries L net a n b e" "length (messageId (header e)) = 16"
  obtains fs where "frames_for L (sim_view a net) n e = Inr fs" "fs \<noteq> []" "\<forall>f \<in> set fs. accepts (sim_view a net) n f"
    "handed_over net a b (map (Pair n) fs) = fs"
proof -
  have c: "mget (simPeers (net ! a)) n = Some b" "simReceiver (net ! b)" "34 \<le> simUnit (net ! a)" "simUnit (net ! a) \<le> 4129"
    "int (length (encodeEnvelope L e)) \<le> 4096 * (simUnit (net ! a) - 33)" using assms(2) by (simp_all add: carries_def)
  have unit: "linkUnit (sim_view a net) n = Some (simUnit (net ! a))"
    using c(1) by (simp add: sim_view_def sim_getLinkCharacteristics_def mhas_def)
  obtain fs where fs: "frames_for L (sim_view a net) n e = Inr fs" "fs \<noteq> []" "\<forall>f \<in> set fs. accepts (sim_view a net) n f"
    using sim.frames_fit [OF TrueI assms(1,3) unit c(3-5)] by blast
  have send: "sim_send a n f net = (True, Some (b, simOwnId (net ! a), f))" if "f \<in> set fs" for f
    using fs(3) that c(1,2) by (auto simp: sim_view_def sim_send_def split: if_splits)
  have "concat (map (\<lambda>f. case snd (sim_send a n f net) of None \<Rightarrow> [] | Some (c, m, g) \<Rightarrow> if c = b then [g] else []) fs)
      = concat (map (\<lambda>f. [f]) fs)"
    by (intro arg_cong [where f = concat] map_cong) (simp_all add: send)
  then have "handed_over net a b (map (Pair n) fs) = fs" by (simp add: handed_over_def comp_def)
  with fs show thesis by (rule that)
qed

lemma taken_in:
  assumes "cbor_roundtrips L" "cbor_compact L" "cbor_tight L" "plain_header (header e)" "length (messageId (header e)) = 16"
    and "carries L net a n (stIndex S) e" "takes_in L net a e S" "frames_for L (sim_view a net) n e = Inr fs"
  obtains i R where "receive_frames L T depth (simOwnId (net ! a)) (zip (map (stTime S) [0..<length fs]) fs) (stNode S) =
    snd (receiveEnvelope L T (stTime S i) depth e (Some (simOwnId (net ! a))) ((stNode S)\<lparr>reassembler := R\<rparr>))"
    "pending R = pending (reassembler (stNode S))" "pendingBytes R = pendingBytes (reassembler (stNode S))"
proof -
  let ?V = "sim_view a net" and ?m = "simOwnId (net ! a)" and ?ts = "map (stTime S) [0..<length fs]"
  obtain fs' where "frames_for L ?V n e = Inr fs'" "fs' \<noteq> []" "\<forall>f \<in> set fs'. accepts ?V n f"
    by (rule carried [OF assms(3,6,5)])
  then have fs: "fs \<noteq> []" "\<forall>f \<in> set fs. accepts ?V n f" using assms(8) by simp_all
  have all: "filter (accepts ?V n) fs = fs" using fs(2) by (simp add: filter_id_conv)
  have over: "sendEnvelopeOverTransport L ?V n e (stNode S) = (Inr True, (stNode S)\<lparr>sent := sent (stNode S) @ map (Pair n) fs\<rparr>)"
    using fs(2) by (simp add: sendEnvelopeOverTransport_sent assms(8) all)
  have unit: "\<forall>mtu. linkUnit ?V n = Some mtu \<longrightarrow> mtu \<le> 4129"
    using assms(6) by (simp add: carries_def sim_view_def sim_getLinkCharacteristics_def mhas_def)
  obtain peer where peer: "mget (authenticatedPeers (stNode S)) ?m = Some peer"
    "room_for (reassembler (stNode S)) (bytesToHex (messageId (header e))) (?m @ '':'' @ int_string (establishedAt peer)) (length (encodeEnvelope L e))"
    using assms(7) by (auto simp: takes_in_def)
  obtain k where k: "length fs = Suc k" using fs(1) by (cases fs) auto
  then have hd: "hd ?ts = stTime S 0" by (simp add: upt_rec)
  have ts: "no_stale (reassembler (stNode S)) t \<and> t - hd ?ts \<le> 30000" if "t \<in> set ?ts" for t
    using that assms(7) unfolding hd by (auto simp: takes_in_def)
  have last: "last ?ts = stTime S k" using k by simp
  have "sent ((stNode S)\<lparr>sent := sent (stNode S) @ map (Pair n) fs\<rparr>) = sent (stNode S) @ map (Pair n) fs" by simp
  from frames_transparent [OF assms(1,2,4,5) unit over this fs(1) peer(1) _ peer(2) ts, of T depth]
  show thesis using that unfolding last by auto
qed

lemma hop_step:
  assumes laws: "cbor_roundtrips L" "cbor_compact L" "cbor_tight L"
    and e: "header e = make_header nowMs mid Data (Num h) hint" "length mid = 16" "0 \<le> nowMs" "nowMs < 2 ^ 53" "1 \<le> h" "h < 2 ^ 53"
    and S: "carries L net a n (stIndex S) e" "takes_in L net a e S" "\<forall>i. nowMs \<le> stTime S i \<and> stTime S i \<le> nowMs + 3540000"
    and fs: "frames_for L (sim_view a net) n e = Inr fs"
    and run: "s = receive_frames L (sim_view (stIndex S) net) (Suc depth) (simOwnId (net ! a)) (zip (map (stTime S) [0..<length fs]) fs) (stNode S)"
  shows "ownDestinationHint (stNode S) = hint \<Longrightarrow> events s = events (stNode S) @ [DeliveryListener e]"
    and "ownDestinationHint (stNode S) \<noteq> hint \<Longrightarrow>
      \<forall>i. fst (find_hop (stTime S i) hint (tidied (stTime S i) (stNode S))) = Inr (Some m) \<Longrightarrow> m \<noteq> [] \<Longrightarrow>
      frames_for L (sim_view (stIndex S) net) m (next_hop_copy e) = Inr gs \<Longrightarrow> \<forall>f \<in> set gs. accepts (sim_view (stIndex S) net) m f \<Longrightarrow>
      events s = events (stNode S) \<and> sent s = sent (stNode S) @ map (Pair m) gs \<and>
      (\<exists>p. mget (pendingAcks s) (bytesToHex mid) = Some p \<and> ackNeighborId p = m \<and> ackDestinationHint p = hint)"
proof -
  let ?V = "sim_view (stIndex S) net" and ?m = "simOwnId (net ! a)"
  have h: "messageId (header e) = mid" "packetType (header e) = packet_code Data" "destinationHint (header e) = hint" "ttl (header e) = Num h"
    by (simp_all add: e(1) make_header_def)
  have plain: "plain_header (header e)" unfolding e(1) using e(3-6) by (intro made_plain)
  have mid: "length (messageId (header e)) = 16" using h(1) e(2) by simp
  obtain i R where iR: "s = snd (receiveEnvelope L ?V (stTime S i) (Suc depth) e (Some ?m) ((stNode S)\<lparr>reassembler := R\<rparr>))"
    unfolding run by (rule taken_in [OF laws plain mid S(1,2) fs])
  let ?t = "stTime S i" and ?R = "(stNode S)\<lparr>reassembler := R\<rparr>"
  have fresh: "fresh ?t e" unfolding e(1) STORE_FORWARD_MAX_AGE_SECONDS_def using S(3) e(5) by (intro made_valid) auto
  show "events s = events (stNode S) @ [DeliveryListener e]" if "ownDestinationHint (stNode S) = hint"
    unfolding iR receive_data [OF h(2)] using fresh h(3) that by simp
  assume other: "ownDestinationHint (stNode S) \<noteq> hint" "m \<noteq> []"
    and hop: "\<forall>i. fst (find_hop (stTime S i) hint (tidied (stTime S i) (stNode S))) = Inr (Some m)"
    and gs: "frames_for L ?V m (next_hop_copy e) = Inr gs" "\<forall>f \<in> set gs. accepts ?V m f"
  let ?T = "tidied ?t ?R"
  have found: "fst (find_hop ?t (destinationHint (header e)) ?T) = Inr (Some m)"
    unfolding tidied_reassembler find_hop_reassembler h(3) using hop by blast
  have alive: "\<not> ttl (header e) \<le> Num 0" using h(4) e(5) by simp
  obtain s' where s': "relay_on L ?V ?t e (Some ?m) ?T = (Inr (Forwarded m), s')" "sent s' = sent ?T @ map (Pair m) gs" "events s' = events ?T"
    "mget (pendingAcks s') (id_hex e) = Some \<lparr>ackNeighborId = m, ackDestinationHint = destinationHint (header e), sentAt = ?t\<rparr>"
    by (rule relay_on_forwards [OF alive h(2) other(2) found gs])
  have "s = s'" unfolding iR receive_data [OF h(2)] using fresh h(3) other(1) s'(1) by simp
  moreover have "sent ?T = sent (stNode S)" "events ?T = events (stNode S)" using tidied_quiet [of ?R ?t] by (simp_all add: quiet_def)
  ultimately show "events s = events (stNode S) \<and> sent s = sent (stNode S) @ map (Pair m) gs \<and>
      (\<exists>p. mget (pendingAcks s) (bytesToHex mid) = Some p \<and> ackNeighborId p = m \<and> ackDestinationHint p = hint)"
    using s'(2-4) h(1,3) by simp
qed

section \<open>The whole path\<close>

text \<open>What a node on the way keeps: no listener is called, and it waits for an acknowledgement of the message.\<close>

definition passed_on :: "bytes \<Rightarrow> bytes \<Rightarrow> Station \<Rightarrow> RelayNode \<Rightarrow> bool" where
  "passed_on mid hint S s \<longleftrightarrow> events s = events (stNode S) \<and>
     (\<exists>p. mget (pendingAcks s) (bytesToHex mid) = Some p \<and> ackDestinationHint p = hint)"

lemma routed_head: "routed L net a n e (S # path) \<Longrightarrow> carries L net a n (stIndex S) e \<and> takes_in L net a e S"
  by simp

lemma mesh_carries:
  assumes laws: "cbor_roundtrips L" "cbor_compact L" "cbor_tight L"
    and made: "length mid = 16" "0 \<le> nowMs" "nowMs < 2 ^ 53" "h < 2 ^ 53"
  shows "routed L net a n e path \<Longrightarrow> header e = make_header nowMs mid Data (Num h) hint \<Longrightarrow> int (length path) \<le> h \<Longrightarrow>
    \<forall>S \<in> set path. \<forall>i. nowMs \<le> stTime S i \<and> stTime S i \<le> nowMs + 3540000 \<Longrightarrow> frames_for L (sim_view a net) n e = Inr fs \<Longrightarrow>
    \<exists>between s. mesh_run L net (Suc depth) a (map (Pair n) fs) path = between @ [s] \<and>
      list_all2 (passed_on mid hint) (butlast path) between \<and>
      events s = events (stNode (last path)) @ [DeliveryListener (e\<lparr>header := (header e)\<lparr>ttl := Num (h - int (length path) + 1)\<rparr>\<rparr>)]"
  using made(4)
proof (induction path arbitrary: a n e h fs)
  case (Cons S path)
  note e = Cons.prems(2)
  have mid: "length (messageId (header e)) = 16" by (simp add: e make_header_def made(1))
  have hint: "destinationHint (header e) = hint" by (simp add: e make_header_def)
  note S = routed_head [OF Cons.prems(1), THEN conjunct1] routed_head [OF Cons.prems(1), THEN conjunct2]
  have h: "1 \<le> h" using Cons.prems(3) by simp
  have ts: "\<forall>i. nowMs \<le> stTime S i \<and> stTime S i \<le> nowMs + 3540000" using Cons.prems(4) by simp
  obtain fs' where "frames_for L (sim_view a net) n e = Inr fs'" "handed_over net a (stIndex S) (map (Pair n) fs') = fs'"
    by (rule carried [OF laws(3) S(1) mid])
  then have over: "handed_over net a (stIndex S) (map (Pair n) fs) = fs" using Cons.prems(5) by simp
  define s where "s = receive_frames L (sim_view (stIndex S) net) (Suc depth) (simOwnId (net ! a)) (zip (map (stTime S) [0..<length fs]) fs) (stNode S)"
  note step = hop_step [OF laws e made(1-3) h Cons.prems(6) S ts Cons.prems(5) s_def]
  have run: "mesh_run L net (Suc depth) a (map (Pair n) fs) (S # path)
      = s # mesh_run L net (Suc depth) (stIndex S) (drop (length (sent (stNode S))) (sent s)) path"
    by (simp add: over s_def arrive_def Let_def)
  show ?case
  proof (cases "path = []")
    case True
    then have "ownDestinationHint (stNode S) = hint" using Cons.prems(1) hint by simp
    moreover have "e\<lparr>header := (header e)\<lparr>ttl := Num h\<rparr>\<rparr> = e" by (simp add: e make_header_def)
    ultimately show ?thesis using True step(1) unfolding run by (intro exI [of _ "[]"] exI [of _ s]) simp
  next
    case False
    let ?e = "next_hop_copy e"
    obtain m where other: "ownDestinationHint (stNode S) \<noteq> hint"
      "\<forall>i. fst (find_hop (stTime S i) hint (tidied (stTime S i) (stNode S))) = Inr (Some m)" "routed L net (stIndex S) m ?e path"
      using Cons.prems(1) False by (auto simp: hint)
    obtain S' rest where path: "path = S' # rest" using False by (cases path) auto
    have c: "carries L net (stIndex S) m (stIndex S') ?e" using other(3) unfolding path by simp
    have mid': "length (messageId (header ?e)) = 16" using mid by (simp add: next_hop_copy_def)
    obtain gs where gs: "frames_for L (sim_view (stIndex S) net) m ?e = Inr gs" "\<forall>f \<in> set gs. accepts (sim_view (stIndex S) net) m f"
      by (rule carried [OF laws(3) c mid'])
    have "m \<noteq> []" using c by (simp add: carries_def)
    note fwd = step(2) [OF other(1,2) this gs]
    have "drop (length (sent (stNode S))) (sent s) = map (Pair m) gs" using fwd by simp
    moreover have "int (length path) \<le> h - 1" "h - 1 < 2 ^ 53" using Cons.prems(3,6) by simp_all
    moreover have "\<forall>S \<in> set path. \<forall>i. nowMs \<le> stTime S i \<and> stTime S i \<le> nowMs + 3540000" using Cons.prems(4) by simp
    ultimately obtain between s' where IH: "mesh_run L net (Suc depth) (stIndex S) (drop (length (sent (stNode S))) (sent s)) path = between @ [s']"
      "list_all2 (passed_on mid hint) (butlast path) between"
      "events s' = events (stNode (last path)) @ [DeliveryListener (?e\<lparr>header := (header ?e)\<lparr>ttl := Num (h - 1 - int (length path) + 1)\<rparr>\<rparr>)]"
      using Cons.IH [OF other(3) next_hop_header [OF e] _ _ gs(1)] by auto
    have "passed_on mid hint S s" using fwd by (auto simp: passed_on_def)
    moreover have "?e\<lparr>header := (header ?e)\<lparr>ttl := t\<rparr>\<rparr> = e\<lparr>header := (header e)\<lparr>ttl := t\<rparr>\<rparr>" for t by (simp add: next_hop_copy_def)
    ultimately show ?thesis using IH False unfolding run by (intro exI [of _ "s # between"] exI [of _ s']) simp
  qed
qed simp

section \<open>Properties\<close>

text \<open>C2: A message crosses the mesh. An authenticated data envelope is sent by a node that knows the addressee as
  a peer or has a route to it, along a path of nodes each of which looks up the next in its routing table and
  knows the one before. If the path is shorter than the hop counter, every link is of 34 to 4129 bytes and the frames
  reach each node within thirty seconds and within fifty-nine minutes of the envelope's creation, then the
  addressee's delivery listener is called, exactly once, and no other; every node between waits for an
  acknowledgement. The hop counter has decreased by one for every link, and the addressee's ratchet does with the
  delivered envelope exactly what it would do with the one that was sent.\<close>

theorem message_crosses_mesh:
  assumes laws: "cbor_roundtrips L" "cbor_compact L" "cbor_tight L"
    and made: "createAuthenticatedDataEnvelope L nowMs mid hint plaintext (Num h) s0 = (Inr env, s1)"
      "length mid = 16" "0 \<le> nowMs" "nowMs < 2 ^ 53" "h < 2 ^ 53"
    and path: "chosen_hop L nowMs hint A = Inr (Some n)" "routed L net a n (next_hop_copy env) path" "int (length path) < h"
      "\<forall>S \<in> set path. \<forall>i. nowMs \<le> stTime S i \<and> stTime S i \<le> nowMs + 3540000"
  shows "\<exists>out A' between s delivered. sendEnvelope L (sim_view a net) nowMs env A = (Inr (Forwarded n), A') \<and> sent A' = sent A @ out \<and>
    mesh_run L net (Suc depth) a out path = between @ [s] \<and> list_all2 (passed_on mid hint) (butlast path) between \<and>
    events s = events (stNode (last path)) @ [DeliveryListener delivered] \<and> ttl (header delivered) = Num (h - int (length path)) \<and>
    openAuthenticatedDataEnvelope L x delivered r = openAuthenticatedDataEnvelope L x env r"
proof -
  let ?e = "next_hop_copy env"
  have e: "header env = make_header nowMs mid Data (Num h) hint"
    using made(1) by (auto simp: createAuthenticatedDataEnvelope_def Let_def split: sum.splits prod.splits)
  note e' = next_hop_header [OF e]
  obtain S rest where S: "path = S # rest" using path(2) by (cases path) auto
  have h: "1 \<le> h - 1" "int (length path) \<le> h - 1" "h - 1 < 2 ^ 53" using path(3) made(5) by (simp_all add: S)
  have c: "carries L net a n (stIndex S) ?e" using path(2) unfolding S by simp
  have mid: "length (messageId (header ?e)) = 16" by (simp add: e' make_header_def made(2))
  obtain fs where fs: "frames_for L (sim_view a net) n ?e = Inr fs" "\<forall>f \<in> set fs. accepts (sim_view a net) n f"
    by (rule carried [OF laws(3) c mid])
  have fresh: "fresh nowMs env" unfolding e STORE_FORWARD_MAX_AGE_SECONDS_def using h by (intro made_valid) simp_all
  have hint: "destinationHint (header env) = hint" by (simp add: e make_header_def)
  have n: "n \<noteq> []" using c by (simp add: carries_def)
  obtain A' where A': "sendEnvelope L (sim_view a net) nowMs env A = (Inr (Forwarded n), A')" "sent A' = sent A @ map (Pair n) fs"
    using send_chosen [OF fresh _ n fs, of A, unfolded hint, OF path(1)] by blast
  let ?d = "?e\<lparr>header := (header ?e)\<lparr>ttl := Num (h - 1 - int (length path) + 1)\<rparr>\<rparr>"
  obtain between s where run: "mesh_run L net (Suc depth) a (map (Pair n) fs) path = between @ [s]"
    "list_all2 (passed_on mid hint) (butlast path) between" "events s = events (stNode (last path)) @ [DeliveryListener ?d]"
    using mesh_carries [OF laws made(2-4) h(3) path(2) e' h(2) path(4) fs(1)] by blast
  have "openDataEnvelope L ?d = openDataEnvelope L env" "packetType (header ?d) = packetType (header env)"
    "encodeDataEnvelopeAssociatedData (header ?d) = encodeDataEnvelopeAssociatedData (header env)"
    by (simp_all add: openDataEnvelope_def next_hop_copy_def)
  then have "openAuthenticatedDataEnvelope L x ?d r = openAuthenticatedDataEnvelope L x env r"
    by (simp only: openAuthenticatedDataEnvelope_def)
  moreover have "ttl (header ?d) = Num (h - int (length path))" by simp
  ultimately show ?thesis using A' run
    by (intro exI [of _ "map (Pair n) fs"] exI [of _ A'] exI [of _ between] exI [of _ s] exI [of _ ?d] conjI)
qed

text \<open>Three nodes in a row: Alice's relay lies between the sender and Bob's node.\<close>

definition mesh_net :: SimNet where
  "mesh_net = sim_onReceive 2 (sim_onReceive 1 (connectPeer 1 2 (connectPeer 0 1
     [createBluetoothTransport ''a'', createBluetoothTransport ''r'', createBluetoothTransport ''d''])))"

lemma mesh_net:
  "mget (simPeers (mesh_net ! 0)) ''r'' = Some 1" "mget (simPeers (mesh_net ! Suc 0)) ''d'' = Some 2" "simReceiver (mesh_net ! Suc 0)" "simReceiver (mesh_net ! 2)"
  "simUnit (mesh_net ! 0) = 200" "simUnit (mesh_net ! Suc 0) = 200" "simOwnId (mesh_net ! 0) = ''a''" "simOwnId (mesh_net ! Suc 0) = ''r''"
  by (simp_all add: mesh_net_def sim_onReceive_def connectPeer_def set_peer_def createBluetoothTransport_def new_sim_def)

text \<open>A node that knows two neighbours and has heard from the second that it reaches a destination.\<close>

definition mesh_node :: "string \<Rightarrow> string \<Rightarrow> bytes \<Rightarrow> RelayNode" where
  "mesh_node m n hint = (new_relay ref_lib alice)\<lparr>routingTable := [(bytesToHex hint,
       [(n, \<lparr>status = Probation, lastAdvertisedAt = 1700000040000, expiresAt = 1700000080000, binding = None\<rparr>)])],
     authenticatedPeers := map (\<lambda>k. (k, \<lparr>peerIdentityKey = publicKey alice, establishedAt = 1700000040000, peerSession = None\<rparr>)) [m, n]\<rparr>"

definition last_node :: RelayNode where
  "last_node = snd (registerAuthenticatedPeer 1700000040000 ''r'' (publicKey alice) None (new_relay ref_lib bob))"

lemma mesh_node_hop:
  assumes "m \<noteq> n" "1700000040000 \<le> t" "t < 1700000080000"
  shows "fst (find_hop t hint (tidied t (mesh_node m n hint))) = Inr (Some n)"
  using assms by (simp add: mesh_node_def tidied_plain new_relay_def find_hop_def on_part_res_def lookup_def lookup_step_def purgeExpired_def live_def
      better_def)

text \<open>The relay that knows both its neighbours, and the addressee, when the frames reach them.\<close>

abbreviation mesh_relay :: Station where
  "mesh_relay \<equiv> \<lparr>stNode = mesh_node ''a'' ''d'' (ownDestinationHint last_node), stIndex = 1, stTime = \<lambda>_. 1700000050000\<rparr>"

abbreviation mesh_addressee :: Station where
  "mesh_addressee \<equiv> \<lparr>stNode = last_node, stIndex = 2, stTime = \<lambda>_. 1700000060000\<rparr>"

lemma last_node:
  "reassembler last_node = new_reassembler" "events last_node = []" "mget (authenticatedPeers last_node) ''r'' \<noteq> None"
  "ownDestinationHint last_node = computeDestinationHint ref_lib (publicKey bob)" "length (ownDestinationHint last_node) = 8"
  by (simp_all add: last_node_def registerAuthenticatedPeer_def new_relay_def alice_def computeDestinationHint_def slice_def
      DESTINATION_HINT_LENGTH_def hash_sizesD [OF ref_hash_sizes])

lemma mesh_node:
  "reassembler (mesh_node m n h) = new_reassembler" "events (mesh_node m n h) = []" "sent (mesh_node m n h) = []"
  "mget (authenticatedPeers (mesh_node m n h)) m \<noteq> None" "ownDestinationHint (mesh_node m n h) = computeDestinationHint ref_lib (publicKey alice)"
  by (simp_all add: mesh_node_def new_relay_def)

lemma hints_differ: "computeDestinationHint ref_lib (publicKey alice) \<noteq> ownDestinationHint last_node"
  by (simp add: last_node(4) computeDestinationHint_def ref_lib_def alice_def bob_def slice_def DESTINATION_HINT_LENGTH_def)

lemma mesh_routed:
  assumes "destinationHint (header e) = ownDestinationHint last_node" "length (encodeEnvelope ref_lib e) \<le> 200"
    and "length (encodeEnvelope ref_lib (next_hop_copy e)) \<le> 200"
  shows "routed ref_lib mesh_net 0 ''r'' e [mesh_relay, mesh_addressee]"
proof -
  have room: "room_for new_reassembler k (d # p) n" if "d \<in> {CHR ''a'', CHR ''r''}" "n \<le> 200" for k d p n
    using that by (auto simp: room_for_def new_reassembler_def unknown_peer_def)
  have quiet: "no_stale new_reassembler t" for t by (simp add: no_stale_def new_reassembler_def)
  have hint: "destinationHint (header (next_hop_copy e)) = destinationHint (header e)" by (simp add: next_hop_copy_def)
  have in1: "takes_in ref_lib mesh_net 0 e mesh_relay"
    using mesh_node(4) [of "''a''" "''d''"] assms(2) by (auto simp: takes_in_def mesh_node(1) mesh_net quiet intro!: room)
  have in2: "takes_in ref_lib mesh_net 1 (next_hop_copy e) mesh_addressee"
    using last_node(3) assms(3) by (auto simp: takes_in_def last_node(1) mesh_net quiet intro!: room)
  have c: "carries ref_lib mesh_net 0 ''r'' 1 e" "carries ref_lib mesh_net 1 ''d'' 2 (next_hop_copy e)"
    using assms(2,3) by (simp_all add: carries_def mesh_net)
  have hops: "\<forall>i. fst (find_hop (stTime mesh_relay i) (ownDestinationHint last_node) (tidied (stTime mesh_relay i) (stNode mesh_relay))) = Inr (Some ''d'')"
    using mesh_node_hop [of "''a''" "''d''" 1700000050000 "ownDestinationHint last_node"] by simp
  have "routed ref_lib mesh_net 1 ''d'' (next_hop_copy e) [mesh_addressee]" using in2 c(2) by (simp add: hint assms(1))
  then show ?thesis using in1 c(1) hops hints_differ by (auto simp: hint assms(1) mesh_node(5))
qed

theorem message_crosses_mesh_witness:
  "\<exists>env out A' s1 s2 delivered r. sendEnvelope ref_lib (sim_view 0 mesh_net) 1700000040000 env (mesh_node ''x'' ''r'' (ownDestinationHint last_node))
      = (Inr (Forwarded ''r''), A') \<and> sent A' = out \<and>
    mesh_run ref_lib mesh_net 1 0 out [mesh_relay, mesh_addressee] = [s1, s2] \<and>
    events s1 = [] \<and> events s2 = [DeliveryListener delivered] \<and> ttl (header delivered) = Num 14 \<and>
    openAuthenticatedDataEnvelope ref_lib 0 delivered (initAsResponder [1] responder_key) = (Inr [72, 105], r)"
proof -
  let ?t = "1700000040000 :: int" and ?mid = "replicate 16 9 :: bytes" and ?hint = "ownDestinationHint last_node"
  let ?A = "mesh_node ''x'' ''r'' ?hint" and ?S1 = mesh_relay and ?S2 = mesh_addressee
  obtain s0 env s1 pub c where env: "createAuthenticatedDataEnvelope ref_lib ?t ?mid ?hint [72, 105] (Num 16) s0 = (Inr env, s1)"
    "env = \<lparr>header = make_header ?t ?mid Data (Num 16) ?hint, sealedPayload = cbor_encode ref_lib (sealed_tuple (chain_header pub 0 0) c)\<rparr>"
    "length pub = 32" "length c = length [72 :: byte, 105] + 16"
    "\<And>t' x. \<exists>r. openAuthenticatedDataEnvelope ref_lib x (env\<lparr>header := (header env)\<lparr>ttl := t'\<rparr>\<rparr>) (initAsResponder [1] responder_key) = (Inr [72, 105], r)"
    by (rule first_envelope [OF ref_cbor ref_aead_correct ref_x25519_commutes ref_hash_sizes honest_test_keys(2), where k = 2 and root = "[1]"
        and nowMs = ?t and mid = ?mid and hint = ?hint and plaintext = "[72, 105]" and t = "Num 16"]) (rule that)
  note le = small_first_envelope [OF env(3) _ _ last_node(5), of c ?mid]
  have "length (encodeEnvelope ref_lib (next_hop_copy env)) \<le> 200"
    using env(4) by (intro le [where i = 15]) (simp_all add: env(2) next_hop_copy_def make_header_def)
  moreover have "length (encodeEnvelope ref_lib (next_hop_copy (next_hop_copy env))) \<le> 200"
    using env(4) by (intro le [where i = 14]) (simp_all add: env(2) next_hop_copy_def make_header_def)
  moreover have "destinationHint (header (next_hop_copy env)) = ?hint" by (simp add: env(2) next_hop_copy_def make_header_def)
  ultimately have path: "routed ref_lib mesh_net 0 ''r'' (next_hop_copy env) [?S1, ?S2]" by (intro mesh_routed)
  have start: "chosen_hop ref_lib ?t ?hint ?A = Inr (Some ''r'')"
    using hints_differ mesh_node_hop [of "''x''" "''r''" ?t ?hint] unfolding chosen_hop_def by (simp add: mesh_node_def)
  have times: "\<forall>S \<in> set [?S1, ?S2]. \<forall>i. ?t \<le> stTime S i \<and> stTime S i \<le> ?t + 3540000" by simp
  have n: "length ?mid = 16" "0 \<le> ?t" "?t < 2 ^ 53" "(16 :: int) < 2 ^ 53" "int (length [?S1, ?S2]) < 16" by simp_all
  obtain out A' between s delivered where run: "sendEnvelope ref_lib (sim_view 0 mesh_net) ?t env ?A = (Inr (Forwarded ''r''), A')" "sent A' = sent ?A @ out"
    "mesh_run ref_lib mesh_net (Suc 0) 0 out [?S1, ?S2] = between @ [s]" "list_all2 (passed_on ?mid ?hint) (butlast [?S1, ?S2]) between"
    "events s = events (stNode (last [?S1, ?S2])) @ [DeliveryListener delivered]" "ttl (header delivered) = Num (16 - int (length [?S1, ?S2]))"
    "openAuthenticatedDataEnvelope ref_lib 0 delivered (initAsResponder [1] responder_key) = openAuthenticatedDataEnvelope ref_lib 0 env (initAsResponder [1] responder_key)"
    using message_crosses_mesh [OF ref_cbor ref_cbor_compact ref_cbor_tight env(1) n(1-4) start path n(5) times, where depth = 0 and x = 0
        and r = "initAsResponder [1] responder_key"] by (elim exE conjE) (rule that)
  from run(4) obtain s1 where s1: "between = [s1]" "passed_on ?mid ?hint ?S1 s1" by (auto simp: list_all2_Cons1)
  obtain r where "openAuthenticatedDataEnvelope ref_lib 0 env (initAsResponder [1] responder_key) = (Inr [72, 105], r)"
    using env(5) [of 0 "Num 16"] by (auto simp: env(2) make_header_def)
  with run(1-3,5-7) s1 show ?thesis
    by (intro exI [of _ env] exI [of _ out] exI [of _ A'] exI [of _ s1] exI [of _ s] exI [of _ delivered] exI [of _ r])
      (simp add: mesh_node(2,3) last_node(2) passed_on_def del: mesh_run.simps)
qed

section \<open>Copies of a packet\<close>

text \<open>A node whose housekeeping has nothing to do at a time.\<close>

definition tidy_at :: "int \<Rightarrow> RelayNode \<Rightarrow> bool" where
  "tidy_at t s \<longleftrightarrow> (\<forall>(k, p) \<in> set (pendingAcks s). t - sentAt p < ROUTE_ACK_TIMEOUT_MS) \<and> snd (purgeExpired t (routingTable s)) = routingTable s"

lemma purgeExpired_twice: "snd (purgeExpired t (snd (purgeExpired t T))) = snd (purgeExpired t T)"
proof -
  have live: "live t (live t c) = live t c" for c by (simp add: live_def)
  show ?thesis
    by (induction T) (auto simp: purgeExpired_def live)
qed

lemma tidied_tidy:
  assumes "relay_ok L t s"
  shows "tidy_at t (tidied t s)"
proof -
  have ok: "relay_ok L t (tidied t s)" by (rule keep_snd [OF keep_purge_state assms])
  then have wf: "wf_map (pendingAcks (tidied t s))" by (simp add: relay_ok_def)
  have "t - sentAt p < ROUTE_ACK_TIMEOUT_MS" if "(k, p) \<in> set (pendingAcks (tidied t s))" for k p
    using tidied_pending [OF assms, of k p] that unfolding mget_Some_iff [OF wf]
    by (simp add: ROUTE_ACK_TIMEOUT_MS_def ROUTE_PROBATION_MS_def)
  moreover have "snd (purgeExpired t (routingTable (tidied t s))) = routingTable (tidied t s)"
    by (simp add: purgeStaleRoutingState_def expirePendingAcks_def chain_def on_part_def case_prod_beta purgeExpired_twice)
  ultimately show ?thesis by (auto simp: tidy_at_def)
qed

lemma tidy_tidied: "tidy_at t s \<Longrightarrow> tidied t s = s"
proof -
  assume s: "tidy_at t s"
  have "sweep (\<lambda>mid p. \<not> t - sentAt p < ROUTE_ACK_TIMEOUT_MS) expire_ack (pendingAcks s) s = (0, s)"
    by (rule expiring_acks.sweep_none) (use s in \<open>auto simp: tidy_at_def\<close>)
  then show ?thesis using s by (simp add: purgeStaleRoutingState_def expirePendingAcks_def chain_def on_part_def case_prod_beta tidy_at_def)
qed

lemma bounded_set_subset: "set (bounded_set c k v m) \<subseteq> insert (k, v) (set m)"
proof -
  let ?m = "if c \<le> length m then (case m of [] \<Rightarrow> m | (old, _) # _ \<Rightarrow> mdel old m) else m"
  have "set ?m \<subseteq> set m" by (cases m) (auto simp: AList.delete_eq)
  then show ?thesis unfolding bounded_set_def by (intro order_trans [OF set_mset_at_subset]) blast
qed

lemma copy_forwarded:
  assumes "tidy_at t s" "packetType (header e) = packet_code Data" "fresh t e" "destinationHint (header e) \<noteq> ownDestinationHint s" "m \<noteq> []"
    and "fst (find_hop t (destinationHint (header e)) s) = Inr (Some m)"
    and "frames_for L T m (next_hop_copy e) = Inr fs" "\<forall>f \<in> set fs. accepts T m f"
  shows "\<exists>s'. receiveEnvelope L T t (Suc d) e src s = (Inr (Forwarded m), s') \<and> sent s' = sent s @ map (Pair m) fs \<and> tidy_at t s' \<and>
    ownDestinationHint s' = ownDestinationHint s \<and> fst (find_hop t (destinationHint (header e)) s') = Inr (Some m)"
proof -
  let ?h = "destinationHint (header e)"
  let ?p = "\<lparr>ackNeighborId = m, ackDestinationHint = ?h, sentAt = t\<rparr>"
  let ?s = "s\<lparr>pendingAcks := bounded_set MAX_PENDING_ACKS (id_hex e) ?p (pendingAcks s), sent := sent s @ map (Pair m) fs\<rparr>"
  have hop: "find_hop t ?h s = (Inr (Some m), s)"
    using assms(1,6) find_hop_table [of t ?h s] by (metis prod.collapse RelayNode.surjective RelayNode.update_convs(2) tidy_at_def)
  have all: "filter (accepts T m) fs = fs" using assms(8) by (simp add: filter_id_conv)
  have id: "truthy (Some m) = Some m" using assms(5) by (cases m) (simp_all add: truthy_def)
  have alive: "\<not> ttl (header e) \<le> Num 0" using assms(3) by (auto simp: validateRoutingHeader_def Let_def split: if_splits)
  have fw: "forwardOverTransport L T t e m s = (Inr True, ?s)"
    using assms(2,7,8) by (simp add: forwardOverTransport_def recordPendingAck_def chain_def sendEnvelopeOverTransport_sent all)
  have "relay_on L T t e src s = (Inr (Forwarded m), ?s)"
    unfolding relay_on_def using alive hop id fw by (simp add: chain_Inr Let_def)
  then have r: "receiveEnvelope L T t (Suc d) e src s = (Inr (Forwarded m), ?s)"
    unfolding receive_data [OF assms(2)] tidy_tidied [OF assms(1)] using assms(3,4) by simp
  have "set (pendingAcks ?s) \<subseteq> insert (id_hex e, ?p) (set (pendingAcks s))"
    using bounded_set_subset by simp
  then have tidy: "tidy_at t ?s" using assms(1) by (auto simp: tidy_at_def ROUTE_ACK_TIMEOUT_MS_def ROUTE_PROBATION_MS_def)
  have "fst (find_hop t ?h ?s) = Inr (Some m)" using assms(6) by (simp add: find_hop_def on_part_res_def case_prod_beta)
  with r tidy show ?thesis by (intro exI [of _ ?s]) simp
qed

text \<open>C40: Duplicates are not detected. A relay that is given copies of one data packet for somebody else, whoever they
  come from and although it has just relayed the packet, hands every copy on to the next hop again: it keeps no
  record of the message ids it has seen.\<close>

theorem copies_relayed_again:
  assumes "relay_history L t0 s" "t0 \<le> t" "packetType (header e) = packet_code Data" "fresh t e" "destinationHint (header e) \<noteq> ownDestinationHint s"
    and "fst (find_hop t (destinationHint (header e)) (tidied t s)) = Inr (Some m)"
    and "frames_for L T m (next_hop_copy e) = Inr fs" "\<forall>f \<in> set fs. accepts T m f"
  shows "sent (fold (\<lambda>src s. snd (receiveEnvelope L T t (Suc depth) e src s)) sources s)
    = sent s @ concat (replicate (length sources) (map (Pair m) fs))"
proof -
  let ?h = "destinationHint (header e)" and ?step = "\<lambda>src s. snd (receiveEnvelope L T t (Suc depth) e src s)"
  have ok: "relay_ok L t s" by (rule relay_ok_mono [OF relay_history_ok [OF assms(1)] assms(2)])
  have peers: "peers_ok (authenticatedPeers (tidied t s))" using relay_history_peers [OF assms(1)] tidied_quiet [of s t] by (simp add: quiet_def)
  have m: "m \<noteq> []"
    using find_hop_cases [OF keep_snd [OF keep_purge_state ok] peers, of t ?h] assms(6) by (metis fst_conv sum.inject(2))
  have later: "sent (fold ?step srcs s) = sent s @ concat (replicate (length srcs) (map (Pair m) fs))"
    if "tidy_at t s" "?h \<noteq> ownDestinationHint s" "fst (find_hop t ?h s) = Inr (Some m)" for srcs s
    using that
  proof (induction srcs arbitrary: s)
    case (Cons src srcs)
    obtain s' where s': "receiveEnvelope L T t (Suc depth) e src s = (Inr (Forwarded m), s')" "sent s' = sent s @ map (Pair m) fs" "tidy_at t s'"
      "ownDestinationHint s' = ownDestinationHint s" "fst (find_hop t ?h s') = Inr (Some m)"
      using copy_forwarded [OF Cons.prems(1) assms(3,4) Cons.prems(2) m Cons.prems(3) assms(7,8), of depth src] by blast
    have "sent (fold ?step srcs s') = sent s' @ concat (replicate (length srcs) (map (Pair m) fs))"
      by (rule Cons.IH [OF s'(3) _ s'(5)]) (use Cons.prems(2) s'(4) in simp)
    then show ?case by (simp add: s'(1,2) del: receiveEnvelope.simps)
  qed simp
  show ?thesis
  proof (cases sources)
    case (Cons src srcs)
    have start: "tidy_at t (tidied t s)" "?h \<noteq> ownDestinationHint (tidied t s)" "sent (tidied t s) = sent s"
      using tidied_tidy [OF ok] assms(5) tidied_quiet [of s t] by (simp_all add: quiet_def)
    have "receiveEnvelope L T t (Suc depth) e src s = receiveEnvelope L T t (Suc depth) e src (tidied t s)"
      using tidy_tidied [OF start(1)] start(2) assms(5) unfolding receive_data [OF assms(3)] by simp
    then have "fold ?step sources s = fold ?step sources (tidied t s)" by (simp only: Cons fold.simps comp_def)
    then show ?thesis using later [OF start(1,2) assms(6), of sources] start(3) by simp
  qed simp
qed

theorem copies_relayed_again_witness:
  "\<exists>s. length (sent (fold (\<lambda>src s. snd (receiveEnvelope ref_lib open_transport 1700000050000 1 test_envelope src s))
    [Some ''n1'', Some ''n2'', Some ''n1''] s)) = length (sent s) + 3"
proof -
  obtain s where s: "relay_history ref_lib 1700000050000 s" "pendingAcks s = []"
    "find_route (routingTable s) (replicate 8 3) ''n1'' = Some \<lparr>status = Probation, lastAdvertisedAt = 1700000050000, expiresAt = 1700000080000, binding = None\<rparr>"
    "authenticatedPeers s = [(''n1'', test_peer 1700000040000)]" "ownDestinationHint s = computeDestinationHint ref_lib (publicKey alice)"
    by (rule routed_node)
  let ?t = "1700000050000 :: int"
  have e: "packetType (header test_envelope) = packet_code Data" "fresh ?t test_envelope" "destinationHint (header test_envelope) = replicate 8 3"
    using test_fresh [of ?t] by (simp_all add: test_envelope_def STORE_FORWARD_MAX_AGE_SECONDS_def packet_code_def)
  have "length (encodeEnvelope ref_lib (next_hop_copy test_envelope)) = 53"
    by (simp add: encodeEnvelope_def headerToTuple_def test_envelope_def ref_lib_def enc_bytes_def leb.simps zigzag_def next_hop_copy_def)
  then have fr: "frames_for ref_lib open_transport ''n1'' (next_hop_copy test_envelope) = Inr [0 # encodeEnvelope ref_lib (next_hop_copy test_envelope)]"
    by (simp add: frames_for_def open_transport_def)
  have other: "destinationHint (header test_envelope) \<noteq> ownDestinationHint s" using alice_hint e(3) s(5) by simp
  have hop: "fst (find_hop ?t (destinationHint (header test_envelope)) (tidied ?t s)) = Inr (Some ''n1'')" unfolding e(3) by (rule routed_hop [OF s(1-4)])
  show ?thesis
    using copies_relayed_again [OF s(1) order_refl e(1,2) other hop fr, of 0 "[Some ''n1'', Some ''n2'', Some ''n1'']"]
    by (intro exI [of _ s]) (simp add: numeral_3_eq_3 del: receiveEnvelope.simps fold.simps)
qed


end
