(* ===== verification/AckPath.thy ===== *)
theory AckPath
  imports MeshPath
begin

text \<open>
  The way back: the acknowledgement of a delivered message (\<open>sendAck\<close> of \<open>routing.ts\<close>) crosses the path the message
  took, and every node on it credits the neighbour that brought the acknowledgement.
\<close>

section \<open>What a node waits for and what it owes\<close>

text \<open>A node that passed the message \<open>acked\<close> for \<open>dest\<close> on to the neighbour \<open>n\<close> less than thirty seconds ago.\<close>

definition awaits :: "lib \<Rightarrow> string \<Rightarrow> bytes \<Rightarrow> bytes \<Rightarrow> Station \<Rightarrow> bool" where
  "awaits L n acked dest S \<longleftrightarrow> n \<noteq> [] \<and> (\<exists>p peer. mget (pendingAcks (stNode S)) (bytesToHex acked) = Some p \<and>
     ackNeighborId p = n \<and> ackDestinationHint p = dest \<and> mget (authenticatedPeers (stNode S)) n = Some peer \<and> peer_ok peer \<and>
     (\<forall>i. relay_ok L (stTime S i) (stNode S) \<and> stTime S i - sentAt p < 30000))"

text \<open>The node after the acknowledgement has passed its gate.\<close>

definition gated :: "lib \<Rightarrow> int \<Rightarrow> Envelope \<Rightarrow> string \<Rightarrow> RelayNode \<Rightarrow> RelayNode" where
  "gated L t e n s = snd (ack_gate L t e (Some n) (tidied t s))"

text \<open>
  One more point of trust, the entry is gone, and a route to the destination over this neighbour, if there
  still is one, is validated.
\<close>

definition rewarded :: "bytes \<Rightarrow> bytes \<Rightarrow> string \<Rightarrow> Station \<Rightarrow> RelayNode \<Rightarrow> bool" where
  "rewarded acked dest n S s \<longleftrightarrow> neighborTrustScore n s = neighborTrustScore n (stNode S) + 1 \<and>
     mget (pendingAcks s) (bytesToHex acked) = None \<and>
     ((\<forall>i. find_route (routingTable (tidied (stTime S i) (stNode S))) dest n \<noteq> None) \<longrightarrow>
       (\<exists>r. find_route (routingTable s) dest n = Some r \<and> status r = Validated))"

text \<open>The path back: every node waits for the acknowledgement, and all but the last look up the next node once they have it.\<close>

fun ack_routed :: "lib \<Rightarrow> SimNet \<Rightarrow> nat \<Rightarrow> string \<Rightarrow> Envelope \<Rightarrow> bytes \<Rightarrow> bytes \<Rightarrow> Station list \<Rightarrow> bool" where
  "ack_routed L net a n e acked dest [] \<longleftrightarrow> False"
| "ack_routed L net a n e acked dest (S # path) \<longleftrightarrow> carries L net a n (stIndex S) e \<and> takes_in L net a e S \<and>
     awaits L (simOwnId (net ! a)) acked dest S \<and>
     (if path = [] then ownDestinationHint (stNode S) = destinationHint (header e)
      else ownDestinationHint (stNode S) \<noteq> destinationHint (header e) \<and>
        (\<exists>m. (\<forall>i. fst (find_hop (stTime S i) (destinationHint (header e)) (gated L (stTime S i) e (simOwnId (net ! a)) (stNode S))) = Inr (Some m)) \<and>
           ack_routed L net (stIndex S) m (next_hop_copy e) acked dest path))"

text \<open>All nodes of the path are rewarding; the listener of the last, and no other, is called once.\<close>

fun credited :: "SimNet \<Rightarrow> nat \<Rightarrow> bytes \<Rightarrow> bytes \<Rightarrow> Station list \<Rightarrow> RelayNode list \<Rightarrow> bool" where
  "credited net a acked dest [] [] \<longleftrightarrow> True"
| "credited net a acked dest (S # path) (s # ss) \<longleftrightarrow> rewarded acked dest (simOwnId (net ! a)) S s \<and>
     events s = events (stNode S) @ (if path = [] then [AckListener acked] else []) \<and> credited net (stIndex S) acked dest path ss"
| "credited net a acked dest _ _ \<longleftrightarrow> False"

section \<open>The gate\<close>

lemma mark_validates:
  assumes "length key = 32" "length peerKey = 32" "is_safe_integer (Num epoch)" "0 \<le> epoch" "n \<noteq> []" "0 \<le> t" "t < 2 ^ 53"
    and "dest = computeDestinationHint L key" "length dest = 8"
  obtains T' where "markValidated L t dest key n peerKey epoch T = Inr T'"
    "find_route T dest n \<noteq> None \<Longrightarrow> \<exists>r. find_route T' dest n = Some r \<and> status r = Validated \<and> t < expiresAt r"
proof (cases "find_route T dest n")
  case None
  then show thesis using that [of T] by (simp add: markValidated_def)
next
  case (Some route)
  have "is_safe_integer (Num t)" using assms(6,7) by simp
  with assms Some obtain b where "markValidated L t dest key n peerKey epoch T
      = Inr (set_route T dest n (route\<lparr>binding := Some b, status := Validated, lastAdvertisedAt := t, expiresAt := t + ROUTE_VALIDATION_TTL_MS\<rparr>))"
    by (simp add: markValidated_def createRouteProvenance_def bindRouteTrust_def)
  then show thesis by (rule that) (simp add: find_set_route ROUTE_VALIDATION_TTL_MS_def)
qed

lemma gate_credits:
  assumes "verifyAckEnvelope L e = Some ack" "mget (pendingAcks s) (bytesToHex (acknowledgedMessageId ack)) = Some p"
    and "ackNeighborId p = n" "ackDestinationHint p = signerDestinationHint ack" "n \<noteq> []" "mget (authenticatedPeers s) n = Some peer"
    and "markValidated L t (signerDestinationHint ack) (signerPublicKey ack) n (peerIdentityKey peer) (establishedAt peer) (routingTable s) = Inr T"
  shows "ack_gate L t e (Some n) s = (Inr None, s\<lparr>routingTable := T,
    neighborTrust := mset_at n (mget_or (neighborTrust s) n 0 + 1) (neighborTrust s),
    pendingAcks := mdel (bytesToHex (acknowledgedMessageId ack)) (pendingAcks s)\<rparr>)"
proof -
  have type: "packetType (header e) = packet_code Ack" using assms(1) by (simp add: verifyAckEnvelope_Some)
  have n: "truthy (Some n) = Some n" using assms(5) by (cases n) (simp_all add: truthy_def)
  show ?thesis
    using assms type n by (simp add: ack_gate_def processPendingAck_def chain_def Let_def)
qed

lemma ack_passed_on:
  assumes "\<not> ttl (header e) \<le> Num 0" "packetType (header e) \<noteq> packet_code Data" "m \<noteq> []"
    and "fst (find_hop t (destinationHint (header e)) s) = Inr (Some m)"
    and "frames_for L T m (next_hop_copy e) = Inr fs" "\<forall>f \<in> set fs. accepts T m f"
  shows "relay_on L T t e src s = (Inr (Forwarded m), s\<lparr>routingTable := snd (purgeExpired t (routingTable s)), sent := sent s @ map (Pair m) fs\<rparr>)"
proof -
  let ?s = "s\<lparr>routingTable := snd (purgeExpired t (routingTable s))\<rparr>"
  have hop: "find_hop t (destinationHint (header e)) s = (Inr (Some m), ?s)"
    using assms(4) find_hop_table [of t "destinationHint (header e)" s] by (metis prod.collapse)
  have all: "filter (accepts T m) fs = fs" using assms(6) by (simp add: filter_id_conv)
  have fw: "forwardOverTransport L T t e m ?s = (Inr True, ?s\<lparr>sent := sent s @ map (Pair m) fs\<rparr>)"
    using assms(2,5,6) by (simp add: forwardOverTransport_def chain_def sendEnvelopeOverTransport_sent all)
  have id: "truthy (Some m) = Some m" using assms(3) by (cases m) (simp_all add: truthy_def)
  show ?thesis unfolding relay_on_def using assms(1) hop fw id by (simp add: chain_Inr Let_def)
qed

section \<open>One hop\<close>

lemma verify_next_hop: "verifyAckEnvelope L (next_hop_copy e) = verifyAckEnvelope L e"
  by (simp add: verifyAckEnvelope_def next_hop_copy_def)

text \<open>What the gate makes of a node that waits for the acknowledgement.\<close>

lemma gate_rewards:
  assumes "verifyAckEnvelope L e = Some \<lparr>acknowledgedMessageId = acked, signerPublicKey = key, signerDestinationHint = dest\<rparr>"
    and "length key = 32" "dest = computeDestinationHint L key" "length dest = 8" "awaits L n acked dest S" "0 \<le> stTime S i" "stTime S i < 2 ^ 53"
  obtains s where "gated L (stTime S i) e n (stNode S) = s"
    "\<And>R. ack_gate L (stTime S i) e (Some n) (tidied (stTime S i) ((stNode S)\<lparr>reassembler := R\<rparr>)) = (Inr None, s\<lparr>reassembler := R\<rparr>)"
    "rewarded acked dest n S s" "rewarded acked dest n S (s\<lparr>routingTable := snd (purgeExpired (stTime S i) (routingTable s))\<rparr>)"
    "events s = events (stNode S)" "sent s = sent (stNode S)" "ownDestinationHint s = ownDestinationHint (stNode S)"
proof -
  let ?t = "stTime S i" and ?T = "tidied (stTime S i) (stNode S)"
  obtain p peer where p: "mget (pendingAcks (stNode S)) (bytesToHex acked) = Some p" "ackNeighborId p = n" "ackDestinationHint p = dest"
    "mget (authenticatedPeers (stNode S)) n = Some peer" "peer_ok peer" "relay_ok L ?t (stNode S)" "?t - sentAt p < 30000" and n: "n \<noteq> []"
    using assms(5) by (auto simp: awaits_def)
  have quiet: "quiet (stNode S) ?T" by (rule tidied_quiet)
  have ok: "relay_ok L ?t ?T" by (rule keep_snd [OF keep_purge_state p(6)])
  have pend: "mget (pendingAcks ?T) (bytesToHex acked) = Some p" using tidied_pending [OF p(6)] p(1,7) by blast
  have peer: "mget (authenticatedPeers ?T) n = Some peer" using p(4) quiet by (simp add: quiet_def)
  obtain T' where T': "markValidated L ?t dest key n (peerIdentityKey peer) (establishedAt peer) (routingTable ?T) = Inr T'"
    "find_route (routingTable ?T) dest n \<noteq> None \<Longrightarrow> \<exists>r. find_route T' dest n = Some r \<and> status r = Validated \<and> ?t < expiresAt r"
    using p(5) assms(2-4,6,7) n by (elim mark_validates [of key _ _ n ?t dest L "routingTable ?T", rotated -1]) (auto simp: peer_ok_def)
  let ?s = "?T\<lparr>routingTable := T', neighborTrust := mset_at n (mget_or (neighborTrust ?T) n 0 + 1) (neighborTrust ?T),
    pendingAcks := mdel (bytesToHex acked) (pendingAcks ?T)\<rparr>"
  have gate: "ack_gate L ?t e (Some n) (?T\<lparr>reassembler := R\<rparr>) = (Inr None, ?s\<lparr>reassembler := R\<rparr>)" for R
    by (subst gate_credits [OF assms(1) _ p(2), of _ peer ?t T']) (use pend p(3) n peer T'(1) in simp_all)
  have "table_ok L T'" using table_ok_mark [OF _ T'(1)] ok by (simp add: relay_ok_def)
  then have purged: "find_route (snd (purgeExpired ?t T')) dest n = Some r \<longleftrightarrow> find_route T' dest n = Some r \<and> ?t < expiresAt r" for r
    by (rule find_route_purged)
  have "neighborTrustScore n ?T = neighborTrustScore n (stNode S)" by (rule tidied_trust)
  then have r: "rewarded acked dest n S ?s" "rewarded acked dest n S (?s\<lparr>routingTable := snd (purgeExpired ?t (routingTable ?s))\<rparr>)"
    using T'(2) by (auto simp: rewarded_def neighborTrustScore_def mget_or_def purged)
  have "gated L ?t e n (stNode S) = ?s"
    using gate [of "reassembler ?T"] by (simp add: gated_def)
  moreover have "events ?s = events (stNode S)" "sent ?s = sent (stNode S)" "ownDestinationHint ?s = ownDestinationHint (stNode S)"
    using quiet by (simp_all add: quiet_def)
  moreover have "ack_gate L ?t e (Some n) (tidied ?t ((stNode S)\<lparr>reassembler := R\<rparr>)) = (Inr None, ?s\<lparr>reassembler := R\<rparr>)" for R
    unfolding tidied_reassembler by (rule gate)
  ultimately show thesis using r by (intro that)
qed

lemma ack_step:
  assumes laws: "cbor_roundtrips L" "cbor_compact L" "cbor_tight L"
    and e: "header e = make_header nowMs mid Ack (Num h) hint" "length mid = 16" "0 \<le> nowMs" "nowMs + 3540000 < 2 ^ 53" "1 \<le> h" "h < 2 ^ 53"
    and ack: "verifyAckEnvelope L e = Some \<lparr>acknowledgedMessageId = acked, signerPublicKey = key, signerDestinationHint = dest\<rparr>"
      "length key = 32" "dest = computeDestinationHint L key" "length dest = 8"
    and S: "carries L net a n (stIndex S) e" "takes_in L net a e S" "\<forall>i. nowMs \<le> stTime S i \<and> stTime S i \<le> nowMs + 3540000"
      "awaits L (simOwnId (net ! a)) acked dest S"
    and fs: "frames_for L (sim_view a net) n e = Inr fs"
    and run: "s = receive_frames L (sim_view (stIndex S) net) (Suc depth) (simOwnId (net ! a)) (zip (map (stTime S) [0..<length fs]) fs) (stNode S)"
  shows "ownDestinationHint (stNode S) = hint \<Longrightarrow>
      events s = events (stNode S) @ [AckListener acked] \<and> rewarded acked dest (simOwnId (net ! a)) S s"
    and "ownDestinationHint (stNode S) \<noteq> hint \<Longrightarrow>
      \<forall>i. fst (find_hop (stTime S i) hint (gated L (stTime S i) e (simOwnId (net ! a)) (stNode S))) = Inr (Some m) \<Longrightarrow> m \<noteq> [] \<Longrightarrow>
      frames_for L (sim_view (stIndex S) net) m (next_hop_copy e) = Inr gs \<Longrightarrow> \<forall>f \<in> set gs. accepts (sim_view (stIndex S) net) m f \<Longrightarrow>
      events s = events (stNode S) \<and> sent s = sent (stNode S) @ map (Pair m) gs \<and> rewarded acked dest (simOwnId (net ! a)) S s"
proof -
  let ?V = "sim_view (stIndex S) net" and ?m = "simOwnId (net ! a)"
  have h: "messageId (header e) = mid" "packetType (header e) = packet_code Ack" "destinationHint (header e) = hint" "ttl (header e) = Num h"
    by (simp_all add: e(1) make_header_def)
  have plain: "plain_header (header e)" unfolding e(1) using e(3-6) by (intro made_plain) simp_all
  have mid: "length (messageId (header e)) = 16" using h(1) e(2) by simp
  obtain i R where iR: "s = snd (receiveEnvelope L ?V (stTime S i) (Suc depth) e (Some ?m) ((stNode S)\<lparr>reassembler := R\<rparr>))"
    unfolding run by (rule taken_in [OF laws plain mid S(1,2) fs])
  let ?t = "stTime S i"
  have fresh: "fresh ?t e" unfolding e(1) STORE_FORWARD_MAX_AGE_SECONDS_def using S(3) e(5) by (intro made_valid) auto
  have time: "nowMs \<le> ?t" "?t \<le> nowMs + 3540000" using S(3) by blast+
  then have t: "0 \<le> ?t" "?t < 2 ^ 53" using e(3,4) by simp_all
  obtain g where g: "gated L ?t e ?m (stNode S) = g"
    "\<And>R. ack_gate L ?t e (Some ?m) (tidied ?t ((stNode S)\<lparr>reassembler := R\<rparr>)) = (Inr None, g\<lparr>reassembler := R\<rparr>)"
    "rewarded acked dest ?m S g" "rewarded acked dest ?m S (g\<lparr>routingTable := snd (purgeExpired ?t (routingTable g))\<rparr>)"
    "events g = events (stNode S)" "sent g = sent (stNode S)" "ownDestinationHint g = ownDestinationHint (stNode S)"
    by (rule gate_rewards [OF ack S(4) t]) (rule that)
  note received = receive_acked [OF fresh h(2) g(2) [of R], of ?V depth]
  show "events s = events (stNode S) @ [AckListener acked] \<and> rewarded acked dest ?m S s" if "ownDestinationHint (stNode S) = hint"
    using g(3,5,7) h(2,3) ack(1) that unfolding iR received by (simp add: deliver_local_def chain_Inr rewarded_def neighborTrustScore_def)
  assume other: "ownDestinationHint (stNode S) \<noteq> hint" "m \<noteq> []"
    and hop: "\<forall>i. fst (find_hop (stTime S i) hint (gated L (stTime S i) e ?m (stNode S))) = Inr (Some m)"
    and gs: "frames_for L ?V m (next_hop_copy e) = Inr gs" "\<forall>f \<in> set gs. accepts ?V m f"
  let ?g = "g\<lparr>reassembler := R\<rparr>"
  have found: "fst (find_hop ?t (destinationHint (header e)) ?g) = Inr (Some m)"
    unfolding find_hop_reassembler h(3) g(1) [symmetric] using hop by blast
  have alive: "\<not> ttl (header e) \<le> Num 0" and noData: "packetType (header e) \<noteq> packet_code Data"
    using h(2,4) e(5) by (simp_all add: packet_code_def)
  have "s = ?g\<lparr>routingTable := snd (purgeExpired ?t (routingTable ?g)), sent := sent ?g @ map (Pair m) gs\<rparr>"
    using g(7) h(3) other(1) ack_passed_on [OF alive noData other(2) found gs] unfolding iR received by simp
  with g(4-6) show "events s = events (stNode S) \<and> sent s = sent (stNode S) @ map (Pair m) gs \<and> rewarded acked dest ?m S s"
    by (simp add: rewarded_def neighborTrustScore_def)
qed

section \<open>The whole way\<close>

lemma ack_carries:
  assumes laws: "cbor_roundtrips L" "cbor_compact L" "cbor_tight L"
    and made: "length mid = 16" "0 \<le> nowMs" "nowMs + 3540000 < 2 ^ 53" "h < 2 ^ 53"
    and signer: "length key = 32" "dest = computeDestinationHint L key" "length dest = 8"
  shows "ack_routed L net a n e acked dest path \<Longrightarrow> header e = make_header nowMs mid Ack (Num h) hint \<Longrightarrow> int (length path) \<le> h \<Longrightarrow>
    verifyAckEnvelope L e = Some \<lparr>acknowledgedMessageId = acked, signerPublicKey = key, signerDestinationHint = dest\<rparr> \<Longrightarrow>
    \<forall>S \<in> set path. \<forall>i. nowMs \<le> stTime S i \<and> stTime S i \<le> nowMs + 3540000 \<Longrightarrow> frames_for L (sim_view a net) n e = Inr fs \<Longrightarrow>
    credited net a acked dest path (mesh_run L net (Suc depth) a (map (Pair n) fs) path)"
  using made(4)
proof (induction path arbitrary: a n e h fs)
  case (Cons S path)
  note e = Cons.prems(2) and frames = Cons.prems(6)
  have mid: "length (messageId (header e)) = 16" and hint: "destinationHint (header e) = hint"
    by (simp_all add: e make_header_def made(1))
  have S: "carries L net a n (stIndex S) e" "takes_in L net a e S" "\<forall>i. nowMs \<le> stTime S i \<and> stTime S i \<le> nowMs + 3540000"
    "awaits L (simOwnId (net ! a)) acked dest S" using Cons.prems(1,5) by simp_all
  have h: "1 \<le> h" using Cons.prems(3) by simp
  have over: "handed_over net a (stIndex S) (map (Pair n) fs) = fs"
    using carried [OF laws(3) S(1) mid] frames by (metis sum.inject(2))
  define s where "s = receive_frames L (sim_view (stIndex S) net) (Suc depth) (simOwnId (net ! a)) (zip (map (stTime S) [0..<length fs]) fs) (stNode S)"
  note step = ack_step [OF laws e made(1-3) h Cons.prems(7,4) signer S frames s_def]
  have run: "mesh_run L net (Suc depth) a (map (Pair n) fs) (S # path)
      = s # mesh_run L net (Suc depth) (stIndex S) (drop (length (sent (stNode S))) (sent s)) path"
    by (simp add: over s_def arrive_def Let_def)
  show ?case
  proof (cases "path = []")
    case True
    then show ?thesis using Cons.prems(1) step(1) hint unfolding run by simp
  next
    case False
    let ?e = "next_hop_copy e"
    obtain m where other: "ownDestinationHint (stNode S) \<noteq> hint"
      "\<forall>i. fst (find_hop (stTime S i) hint (gated L (stTime S i) e (simOwnId (net ! a)) (stNode S))) = Inr (Some m)"
      "ack_routed L net (stIndex S) m ?e acked dest path"
      using Cons.prems(1) False by (auto simp: hint)
    obtain S' rest where path: "path = S' # rest" using False by (cases path) auto
    have c: "carries L net (stIndex S) m (stIndex S') ?e" using other(3) unfolding path by simp
    have mid': "length (messageId (header ?e)) = 16" using mid by (simp add: next_hop_copy_def)
    obtain gs where gs: "frames_for L (sim_view (stIndex S) net) m ?e = Inr gs" "\<forall>f \<in> set gs. accepts (sim_view (stIndex S) net) m f"
      by (rule carried [OF laws(3) c mid'])
    have "m \<noteq> []" using c by (simp add: carries_def)
    note fwd = step(2) [OF other(1,2) this gs]
    have "header ?e = make_header nowMs mid Ack (Num (h - 1)) hint" using e by (simp add: next_hop_copy_def make_header_def)
    moreover have "int (length path) \<le> h - 1" "h - 1 < 2 ^ 53" using Cons.prems(3,7) by simp_all
    ultimately have "credited net (stIndex S) acked dest path (mesh_run L net (Suc depth) (stIndex S) (map (Pair m) gs) path)"
      using Cons.IH [OF other(3) _ _ _ _ gs(1)] Cons.prems(4,5) by (simp add: verify_next_hop)
    then show ?thesis using fwd False unfolding run by simp
  qed
qed simp

text \<open>C3: The acknowledgement comes home. The addressee of a message signs an acknowledgement and sends it to a node it
  has a route to, along a path of at most sixteen nodes each of which had passed the message on to the one it gets
  the acknowledgement from, less than thirty seconds before, and looks up the next in its routing table. Then every
  node of the path gives that neighbour one point of trust, no longer waits for the message, and validates the
  route it had over the neighbour to the addressee; the acknowledgement listener of the last node is called
  exactly once, with the id of the message, and no other listener is called.\<close>

theorem ack_crosses_mesh:
  assumes laws: "cbor_roundtrips L" "cbor_compact L" "cbor_tight L" "ed25519_correct L" "hash_sizes L"
    and made: "createAckEnvelope L t (random_bytes L (draws D) 16) hint acked (RelayNode.nodeIdentity D) DEFAULT_TTL = Inr e"
      "honest_identity L (RelayNode.nodeIdentity D)" "0 \<le> t" "t + 3540000 < 2 ^ 53"
    and path: "hint \<noteq> ownDestinationHint D" "fst (find_hop t hint (tidied t D)) = Inr (Some n)"
      "ack_routed L net a n e acked (computeDestinationHint L (publicKey (RelayNode.nodeIdentity D))) path" "length path \<le> 16"
      "\<forall>S \<in> set path. \<forall>i. t \<le> stTime S i \<and> stTime S i \<le> t + 3540000"
  shows "\<exists>out D'. sendAck L (sim_view a net) t callStack hint acked D = (Inr (), D') \<and> sent D' = sent D @ out \<and>
    credited net a acked (computeDestinationHint L (publicKey (RelayNode.nodeIdentity D))) path (mesh_run L net (Suc depth) a out path)"
proof -
  let ?idn = "RelayNode.nodeIdentity D" and ?mid = "random_bytes L (draws D) 16"
  let ?dest = "computeDestinationHint L (publicKey ?idn)"
  have mid: "length ?mid = 16" and dest: "length ?dest = 8"
    using laws(5) by (simp_all add: hash_sizesD computeDestinationHint_def slice_def DESTINATION_HINT_LENGTH_def)
  have key: "length (publicKey ?idn) = 32" by (rule honest_sign [OF laws(4) made(2)])
  have e: "header e = make_header t ?mid Ack (Num 16) hint"
    using made(1) by (auto simp: createAckEnvelope_def res_simps DEFAULT_TTL_def)
  have ack: "verifyAckEnvelope L e = Some \<lparr>acknowledgedMessageId = acked, signerPublicKey = publicKey ?idn, signerDestinationHint = ?dest\<rparr>"
    using ack_roundtrip [OF laws(1,4) made(2), of t ?mid hint acked DEFAULT_TTL] made(1)
    by (simp add: computeDestinationHint_def DESTINATION_HINT_LENGTH_def)
  obtain S rest where S: "path = S # rest" using path(3) by (cases path) auto
  have c: "carries L net a n (stIndex S) e" using path(3) unfolding S by simp
  have "length (messageId (header e)) = 16" by (simp add: e make_header_def mid)
  then obtain fs where fs: "frames_for L (sim_view a net) n e = Inr fs" "\<forall>f \<in> set fs. accepts (sim_view a net) n f"
    by (rule carried [OF laws(3) c])
  have n: "truthy (Some n) = Some n" using c by (cases n) (simp_all add: carries_def truthy_def)
  let ?D = "(tidied t D)\<lparr>draws := draws D + 1\<rparr>"
  have "fst (find_hop t hint ?D) = Inr (Some n)" using path(2) by (simp add: find_hop_def on_part_res_def case_prod_beta)
  then obtain D2 where D2: "find_hop t hint ?D = (Inr (Some n), D2)" by (metis prod.collapse)
  have same: "sent D2 = sent D" using find_hop_table [of t hint ?D] D2 tidied_quiet [of D t] by (simp add: quiet_def)
  have all: "filter (accepts (sim_view a net) n) fs = fs" using fs(2) by (simp add: filter_id_conv)
  have "sendAck L (sim_view a net) t callStack hint acked D = (Inr (), D2\<lparr>sent := sent D @ map (Pair n) fs\<rparr>)"
    using path(1) made(1) D2 n fs tidied_quiet [of D t]
    unfolding sendAck_def chain_purge_state by (simp add: draw_def quiet_def chain_def sendEnvelopeOverTransport_sent all same)
  moreover have "credited net a acked ?dest path (mesh_run L net (Suc depth) a (map (Pair n) fs) path)"
    by (rule ack_carries [OF laws(1-3) mid made(3,4) _ key refl dest path(3) e _ ack path(5) fs(1)]) (use path(4) in simp_all)
  ultimately show ?thesis by (intro exI [of _ "map (Pair n) fs"] exI [of _ "D2\<lparr>sent := sent D @ map (Pair n) fs\<rparr>"]) simp
qed

text \<open>Bob's node acknowledges what Alice's node had sent to it over a relay between them.\<close>

definition back_net :: SimNet where
  "back_net = sim_onReceive 0 mesh_net"

lemma back_net:
  "mget (simPeers (back_net ! 2)) ''r'' = Some 1" "mget (simPeers (back_net ! Suc 0)) ''a'' = Some 0" "simReceiver (back_net ! 0)" "simReceiver (back_net ! Suc 0)"
  "simUnit (back_net ! 2) = 200" "simUnit (back_net ! Suc 0) = 200" "simOwnId (back_net ! 2) = ''d''" "simOwnId (back_net ! Suc 0) = ''r''"
  by (simp_all add: back_net_def mesh_net_def sim_onReceive_def connectPeer_def set_peer_def createBluetoothTransport_def new_sim_def)

abbreviation acked_id :: bytes where "acked_id \<equiv> replicate 16 9"
abbreviation home_hint :: bytes where "home_hint \<equiv> replicate 8 11"
abbreviation bob_hint :: bytes where "bob_hint \<equiv> replicate 8 22"

definition carol :: Identity where
  "carol = \<lparr>publicKey = replicate 32 33, privateKey = replicate 32 33\<rparr>"

definition fresh_route :: RouteCandidate where
  "fresh_route = \<lparr>status = Probation, lastAdvertisedAt = 1700000050000, expiresAt = 1700000080000, binding = None\<rparr>"

text \<open>A node that has a route to Alice over \<open>back\<close> and has passed the message on to \<open>next\<close>.\<close>

definition waiting_node :: "Identity \<Rightarrow> string \<Rightarrow> string \<Rightarrow> RelayNode" where
  "waiting_node idn to via = (new_relay ref_lib idn)\<lparr>
     routingTable := [(bytesToHex bob_hint, [(via, fresh_route)]), (bytesToHex home_hint, [(to, fresh_route)])],
     authenticatedPeers := [(to, test_peer 1700000040000), (via, test_peer 1700000040000)],
     pendingAcks := [(bytesToHex acked_id, \<lparr>ackNeighborId = via, ackDestinationHint = bob_hint, sentAt = 1700000050000\<rparr>)]\<rparr>"

lemma test_hints: "computeDestinationHint ref_lib (publicKey alice) = home_hint" "computeDestinationHint ref_lib (publicKey bob) = bob_hint"
  "computeDestinationHint ref_lib (publicKey carol) \<noteq> home_hint" "bytesToHex home_hint \<noteq> bytesToHex bob_hint"
  by (simp_all add: computeDestinationHint_def ref_lib_def alice_def bob_def carol_def slice_def DESTINATION_HINT_LENGTH_def)

lemma waiting_node:
  assumes "to \<noteq> via" "1700000050000 \<le> t" "t < 1700000080000"
  shows "tidied t (waiting_node idn to via) = waiting_node idn to via" "relay_ok ref_lib t (waiting_node idn to via)"
proof -
  have live: "live t [(n, fresh_route)] = [(n, fresh_route)]" for n using assms(3) by (simp add: live_def fresh_route_def)
  show "tidied t (waiting_node idn to via) = waiting_node idn to via"
    by (rule tidy_tidied) (use assms(2,3) in \<open>simp add: tidy_at_def waiting_node_def purgeExpired_def live ROUTE_ACK_TIMEOUT_MS_def ROUTE_PROBATION_MS_def\<close>)
  show "relay_ok ref_lib t (waiting_node idn to via)"
    using relay_ok_new [of ref_lib t idn] test_hints(4)
    by (simp add: relay_ok_def waiting_node_def table_ok_def candidates_ok_def fresh_route_def wf_map_def new_relay_def)
qed

lemma waiting_gate:
  assumes "verifyAckEnvelope ref_lib e = Some \<lparr>acknowledgedMessageId = acked_id, signerPublicKey = publicKey bob, signerDestinationHint = bob_hint\<rparr>"
    and "to \<noteq> via" "via \<noteq> []" "1700000050000 \<le> t" "t < 1700000080000"
  shows "fst (find_hop t home_hint (gated ref_lib t e via (waiting_node idn to via))) = Inr (Some to)"
proof -
  let ?s = "waiting_node idn to via"
  have live: "live t [(n, fresh_route)] = [(n, fresh_route)]" for n using assms(5) by (simp add: live_def fresh_route_def)
  have route: "find_route (routingTable ?s) bob_hint via = Some fresh_route" by (simp add: waiting_node_def find_route_def)
  have peer: "mget (authenticatedPeers ?s) via = Some (test_peer 1700000040000)" using assms(2) by (simp add: waiting_node_def)
  let ?p = "\<lparr>ackNeighborId = via, ackDestinationHint = bob_hint, sentAt = 1700000050000\<rparr>"
  let ?ack = "\<lparr>acknowledgedMessageId = acked_id, signerPublicKey = publicKey bob, signerDestinationHint = bob_hint\<rparr>"
  have pend: "mget (pendingAcks ?s) (bytesToHex (acknowledgedMessageId ?ack)) = Some ?p"
    by (simp add: waiting_node_def)
  have n: "length (publicKey bob) = 32" "length (peerIdentityKey (test_peer 1700000040000)) = 32" "is_safe_integer (Num t)" "0 \<le> t"
    using assms(4,5) by (simp_all add: bob_def test_peer_def)
  obtain r where mark: "markValidated ref_lib t bob_hint (publicKey bob) via (peerIdentityKey (test_peer 1700000040000))
      (establishedAt (test_peer 1700000040000)) (routingTable ?s) = Inr (set_route (routingTable ?s) bob_hint via r)"
    using n assms(3) by (simp add: markValidated_def route test_hints(2) createRouteProvenance_def bindRouteTrust_def test_peer_def)
  have T: "mget (set_route (routingTable ?s) bob_hint via r) (bytesToHex home_hint) = Some [(to, fresh_route)]"
    using test_hints(4) by (simp add: set_route_def waiting_node_def)
  have purged: "mget (snd (purgeExpired t T)) k = Some c" if "mget T k = Some c" "live t c = c" "c \<noteq> []" for T k c
    using that by (induction T) (auto simp: purgeExpired_def split: if_splits)
  have "gated ref_lib t e via ?s = ?s\<lparr>routingTable := set_route (routingTable ?s) bob_hint via r,
      neighborTrust := mset_at via (mget_or (neighborTrust ?s) via 0 + 1) (neighborTrust ?s), pendingAcks := mdel (bytesToHex acked_id) (pendingAcks ?s)\<rparr>"
    unfolding gated_def waiting_node(1) [OF assms(2,4,5)]
    by (subst gate_credits [OF assms(1) pend _ _ assms(3) peer]) (use mark in simp_all)
  then show ?thesis
    using purged [OF T live] assms(2) by (simp add: find_hop_def on_part_res_def lookup_def Let_def lookup_step_def fresh_route_def better_def
        waiting_node_def test_peer_def)
qed

lemma small_ack:
  assumes "length s = 64" "length mid = 16" "0 \<le> i" "i \<le> 16"
    and "header e = make_header 1700000070000 mid Ack (Num i) home_hint"
      "sealedPayload e = cbor_encode ref_lib (JArr [JBytes acked_id, JBytes (publicKey bob), JBytes s])"
  shows "length (encodeEnvelope ref_lib e) \<le> 200"
proof -
  have codec: "cbor_encode ref_lib = enc_val" by (simp add: ref_lib_def)
  have l: "length (sealedPayload e) \<le> 125" using assms(1) by (simp add: assms(6) codec enc_bytes_def leb_small bob_def)
  then have p: "length (leb (length (sealedPayload e))) = 1" by (simp add: leb_small)
  have t: "length (leb (zigzag i)) = 1" using assms(3,4) by (simp add: leb_small zigzag_def)
  show ?thesis
    using p l t assms(2) by (simp add: encodeEnvelope_def headerToTuple_def assms(5) make_header_def coarseTimestamp_def PROTOCOL_VERSION_def
      TIMESTAMP_GRANULARITY_SECONDS_def packet_code_def codec enc_bytes_def zigzag_def leb_small leb_large)
qed

text \<open>The relay, the sender of the message, and its addressee.\<close>

abbreviation back_relay :: Station where
  "back_relay \<equiv> \<lparr>stNode = waiting_node carol ''a'' ''d'', stIndex = 1, stTime = \<lambda>_. 1700000075000\<rparr>"

abbreviation message_sender :: Station where
  "message_sender \<equiv> \<lparr>stNode = waiting_node alice ''x'' ''r'', stIndex = 0, stTime = \<lambda>_. 1700000078000\<rparr>"

definition acking_node :: RelayNode where
  "acking_node = (new_relay ref_lib bob)\<lparr>routingTable := [(bytesToHex home_hint, [(''r'', fresh_route)])],
     authenticatedPeers := [(''r'', test_peer 1700000040000)]\<rparr>"

lemma ack_route:
  assumes ack: "verifyAckEnvelope ref_lib e = Some \<lparr>acknowledgedMessageId = acked_id, signerPublicKey = publicKey bob, signerDestinationHint = bob_hint\<rparr>"
    and "destinationHint (header e) = home_hint" "length (encodeEnvelope ref_lib e) \<le> 200" "length (encodeEnvelope ref_lib (next_hop_copy e)) \<le> 200"
  shows "ack_routed ref_lib back_net 2 ''r'' e acked_id bob_hint [back_relay, message_sender]"
proof -
  have room: "room_for new_reassembler k (d # p) n" if "d \<in> {CHR ''d'', CHR ''r''}" "n \<le> 200" for k d p n
    using that by (auto simp: room_for_def new_reassembler_def unknown_peer_def)
  have quiet: "no_stale new_reassembler t" for t by (simp add: no_stale_def new_reassembler_def)
  have asm: "reassembler (waiting_node idn to via) = new_reassembler" for idn to via by (simp add: waiting_node_def new_relay_def)
  have peers: "mget (authenticatedPeers (waiting_node idn to via)) via \<noteq> None" for idn to via by (simp add: waiting_node_def)
  have hint: "destinationHint (header (next_hop_copy e)) = home_hint" using assms(2) by (simp add: next_hop_copy_def)
  have in1: "takes_in ref_lib back_net 2 e back_relay" and in2: "takes_in ref_lib back_net 1 (next_hop_copy e) message_sender"
    using peers [of carol "''a''" "''d''"] peers [of alice "''x''" "''r''"] assms(3,4)
    by (auto simp: takes_in_def asm back_net quiet intro!: room)
  have c: "carries ref_lib back_net 2 ''r'' 1 e" "carries ref_lib back_net 1 ''a'' 0 (next_hop_copy e)"
    using assms(3,4) by (simp_all add: carries_def back_net)
  have ok: "peer_ok (test_peer 1700000040000)" by (simp add: peer_ok_def test_peer_def bob_def)
  have awaits: "awaits ref_lib ''d'' acked_id bob_hint back_relay" "awaits ref_lib ''r'' acked_id bob_hint message_sender"
    using ok waiting_node(2) by (simp_all add: awaits_def) (simp_all add: waiting_node_def)
  have own: "ownDestinationHint (waiting_node carol t v) \<noteq> home_hint" "ownDestinationHint (waiting_node alice t v) = home_hint" for t v
    using test_hints(1,3) by (simp_all add: waiting_node_def new_relay_def)
  have "ack_routed ref_lib back_net 1 ''a'' (next_hop_copy e) acked_id bob_hint [message_sender]"
    using in2 c(2) awaits(2) own(2) by (simp add: hint back_net)
  then show ?thesis
    using in1 c(1) awaits(1) own(1) waiting_gate [OF ack, of "''a''" "''d''" 1700000075000 carol] by (simp add: assms(2) back_net)
qed

theorem ack_crosses_mesh_witness:
  "\<exists>out D'. sendAck ref_lib (sim_view 2 back_net) 1700000070000 0 home_hint acked_id acking_node = (Inr (), D') \<and> sent D' = out \<and>
    credited back_net 2 acked_id bob_hint [back_relay, message_sender] (mesh_run ref_lib back_net 1 2 out [back_relay, message_sender])"
proof -
  let ?t = "1700000070000 :: int" and ?D = acking_node
  let ?mid = "random_bytes ref_lib (draws ?D) 16"
  have idn: "RelayNode.nodeIdentity ?D = bob" and own: "home_hint \<noteq> ownDestinationHint ?D" and empty: "sent ?D = []" and "pendingAcks ?D = []"
    using test_hints(2) by (simp_all add: acking_node_def new_relay_def)
  then have hop: "fst (find_hop ?t home_hint (tidied ?t ?D)) = Inr (Some ''r'')"
    by (simp add: acking_node_def tidied_plain new_relay_def find_hop_def on_part_res_def lookup_def lookup_step_def purgeExpired_def live_def
        better_def fresh_route_def test_peer_def)
  have mid: "length ?mid = 16" by (simp add: hash_sizesD [OF ref_hash_sizes])
  obtain s where s: "signMessage ref_lib (ack_signing_message ref_lib acked_id (publicKey bob)) (privateKey bob) = Inr s" "length s = 64"
    by (rule honest_sign [OF ref_ed25519_correct honest_test_identities(2)])
  let ?e = "\<lparr>header = make_header ?t ?mid Ack (Num 16) home_hint,
    sealedPayload = cbor_encode ref_lib (JArr [JBytes acked_id, JBytes (publicKey bob), JBytes s])\<rparr>"
  have made: "createAckEnvelope ref_lib ?t ?mid home_hint acked_id bob DEFAULT_TTL = Inr ?e"
    by (simp add: createAckEnvelope_def s(1) DEFAULT_TTL_def)
  then have ack: "verifyAckEnvelope ref_lib ?e = Some \<lparr>acknowledgedMessageId = acked_id, signerPublicKey = publicKey bob, signerDestinationHint = bob_hint\<rparr>"
    using ack_roundtrip [OF ref_cbor ref_ed25519_correct honest_test_identities(2), of ?t ?mid home_hint acked_id DEFAULT_TTL] test_hints(2)
    by (simp add: computeDestinationHint_def DESTINATION_HINT_LENGTH_def)
  have "length (encodeEnvelope ref_lib ?e) \<le> 200" by (rule small_ack [OF s(2) mid, of 16]) simp_all
  moreover have "length (encodeEnvelope ref_lib (next_hop_copy ?e)) \<le> 200"
    by (rule small_ack [OF s(2) mid, of 15]) (simp_all add: next_hop_copy_def make_header_def)
  moreover have "destinationHint (header ?e) = home_hint" by (simp add: make_header_def)
  ultimately have route: "ack_routed ref_lib back_net 2 ''r'' ?e acked_id bob_hint [back_relay, message_sender]" by (intro ack_route [OF ack])
  show ?thesis
    using ack_crosses_mesh [OF ref_cbor ref_cbor_compact ref_cbor_tight ref_ed25519_correct ref_hash_sizes, of ?t ?D home_hint acked_id ?e "''r''" back_net 2
        "[back_relay, message_sender]" 0 0] made route own hop empty unfolding idn test_hints(2)
    by (simp del: mesh_run.simps credited.simps)
qed

end
