(* ===== verification/LargeEnvelope.thy ===== *)
theory LargeEnvelope
  imports RelayNetwork
begin

text \<open>
  Envelopes above the quota of a peer. The reassembler (\<open>fragment.ts\<close>) holds at most 256 KiB for one authenticated
  peer, so it never completes a larger envelope, while \<open>routing.ts\<close> builds sync transfers of up to 512 KiB.
\<close>

section \<open>The reassembler\<close>

text \<open>A pending set of the message holds some of its parts.\<close>

definition from_parts :: "bytes list \<Rightarrow> PendingEntry \<Rightarrow> bool" where
  "from_parts parts e \<longleftrightarrow> entryCount e = int (length parts) \<and>
     (\<forall>(i, d) \<in> set (received e). 0 \<le> i \<and> i < int (length parts) \<and> d = parts ! nat i)"

definition collecting :: "bytes \<Rightarrow> bytes list \<Rightarrow> FragmentReassembler \<Rightarrow> bool" where
  "collecting mid parts R \<longleftrightarrow> books R \<and> all_incomplete R \<and> (\<forall>e. mget (pending R) (bytesToHex mid) = Some e \<longrightarrow> from_parts parts e)"

lemma complete_bytes:
  assumes "entry_ok e" "from_parts parts e" "entryCount e \<le> int (length (received e))"
  shows "part_bytes e = int (length (concat parts))"
proof -
  let ?m = "received e" and ?n = "length parts"
  have wf: "distinct (map fst ?m)" and sub: "fst ` set ?m \<subseteq> {0..<int ?n}" and n: "?n \<le> length ?m"
    using assms by (auto simp: entry_ok_def wf_map_def from_parts_def)
  have "card (fst ` set ?m) = length ?m" using distinct_card [OF wf] by simp
  then have keys: "fst ` set ?m = {0..<int ?n}" using n by (intro card_seteq [OF _ sub]) auto
  have "part_bytes e = (\<Sum>x\<leftarrow>?m. int (length (parts ! nat (fst x))))"
    using assms(2) unfolding part_bytes_def from_parts_def by (intro arg_cong [where f = sum_list] map_cong) auto
  also have "\<dots> = (\<Sum>i\<leftarrow>map fst ?m. int (length (parts ! nat i)))" by (simp add: comp_def)
  also have "\<dots> = (\<Sum>i\<in>{0..<int ?n}. int (length (parts ! nat i)))"
    using sum_list_distinct_conv_sum_set [OF wf, of "\<lambda>i. int (length (parts ! nat i))"] keys by simp
  also have "\<dots> = (\<Sum>i\<in>{0..<?n}. int (length (parts ! i)))"
    by (rule sum.reindex_cong [of int]) (auto simp: image_int_atLeastLessThan)
  also have "\<dots> = int (length (concat parts))" by (simp add: length_concat sum_list_sum_nth atLeast0LessThan)
  finally show ?thesis .
qed

text \<open>Either a part is not taken, or it fits the peer's quota, and then only a full set gives a result.\<close>

lemma storePart_open:
  assumes "peerId \<noteq> unknown_peer"
  defines "e1 f entry \<equiv> entry\<lparr>received := mset_at (fragIndex f) (fragData f) (received entry), entryBytes := entryBytes entry + int (length (fragData f))\<rparr>"
  shows "storePart L f peerId entry R = (None, R) \<or>
    \<not> mhas (received entry) (fragIndex f) \<and> mget_or (peerPendingBytes R) peerId 0 + int (length (fragData f)) \<le> 256 * 1024 \<and>
    (int (length (received (e1 f entry))) < entryCount (e1 f entry) \<longrightarrow>
      (\<exists>R'. storePart L f peerId entry R = (None, R') \<and> pending R' = mset_at (bytesToHex (fragId f)) (e1 f entry) (pending R)))"
proof (cases "mhas (received entry) (fragIndex f) \<or> MAX_PENDING_FRAGMENT_BYTES < pendingBytes R + int (length (fragData f))
    \<or> MAX_PENDING_FRAGMENT_BYTES_PER_PEER < mget_or (peerPendingBytes R) peerId 0 + int (length (fragData f))")
  case True
  with assms(1) show ?thesis by (auto simp: storePart_def Let_def)
next
  case False
  with assms(1) show ?thesis by (simp add: storePart_def Let_def e1_def MAX_PENDING_FRAGMENT_BYTES_PER_PEER_def)
qed

lemma opened_from_parts:
  assumes "collecting mid parts R" "openEntry t f peerId R = Some (entry, R2)" "fragId f = mid" "fragCount f = int (length parts)"
  shows "from_parts parts entry"
proof (cases "mget (pending R) (bytesToHex mid)")
  case None
  with assms(2-4) show ?thesis by (auto simp: openEntry_def Let_def from_parts_def split: if_splits)
next
  case (Some e)
  with assms(2-4) have "entry = e" by (auto simp: openEntry_def Let_def split: if_splits)
  with Some assms(1) show ?thesis by (simp add: collecting_def)
qed

lemma collecting_step:
  assumes laws: "cbor_roundtrips L" "cbor_compact L" and parts: "parts_ok mid parts" "i < length parts"
    and big: "256 * 1024 < length (concat parts)" "peerId \<noteq> unknown_peer" and R: "collecting mid parts R"
  shows "\<exists>R'. addFragment L t (part_frame L mid parts i) peerId R = (None, R') \<and> collecting mid parts R'"
proof -
  let ?k = "bytesToHex mid" and ?f = "\<lparr>fragId = mid, fragIndex = int i, fragCount = int (length parts), fragData = parts ! i\<rparr>"
  have ok: "fragment_ok ?f" using parts by (simp add: fragment_ok_def parts_ok_def)
  let ?R = "snd (purgeStale t DEFAULT_FRAGMENT_MAX_AGE_MS R)"
  have b: "books R" "all_incomplete R" using R by (simp_all add: collecting_def)
  have sub: "mget (pending R) k = Some e" if "mget (pending ?R) k = Some e" for k e
    using that b(1) unfolding purge_pending [OF b(1)] by (simp add: books_def mget_filter_Some)
  have R1: "books ?R" "all_incomplete ?R" "collecting mid parts ?R"
    using books_purge [OF b(1)] incomplete_purge [OF b] R sub by (auto simp: collecting_def)
  have step: "addFragment L t (part_frame L mid parts i) peerId R =
      (case openEntry t ?f peerId ?R of None \<Rightarrow> (None, ?R) | Some (entry, R1) \<Rightarrow> storePart L ?f peerId entry R1)"
    using encoded_fragment_length [OF laws(2) ok] decode_encode_fragment [OF laws(1) ok]
    by (simp add: addFragment_def part_frame_def MAX_FRAGMENT_SIZE_def FRAGMENT_OVERHEAD_ESTIMATE_def Let_def)
  show ?thesis
  proof (cases "openEntry t ?f peerId ?R")
    case None
    with step R1(3) show ?thesis by simp
  next
    case (Some x)
    then obtain entry R2 where x: "openEntry t ?f peerId ?R = Some (entry, R2)" by (cases x) auto
    note o = books_openEntry [OF R1(1) ok x, simplified]
    have from_e: "from_parts parts entry" by (rule opened_from_parts [OF R1(3) x]) simp_all
    have e_ok: "entry_ok entry" "wf_map (pending R2)" using o(1) map_of_SomeD [OF o(2)] by (auto simp: books_def)
    let ?e = "entry\<lparr>received := mset_at (int i) (parts ! i) (received entry), entryBytes := entryBytes entry + int (length (parts ! i))\<rparr>"
    note kept = books_storePart [OF o(1) o(5) [OF R1(2)] ok, simplified, OF o(2-4), of L]
    consider "storePart L ?f peerId entry R2 = (None, R2)"
      | "\<not> mhas (received entry) (int i)" "mget_or (peerPendingBytes R2) peerId 0 + int (length (parts ! i)) \<le> 256 * 1024"
        "int (length (received ?e)) < entryCount ?e \<longrightarrow> (\<exists>R3. storePart L ?f peerId entry R2 = (None, R3) \<and> pending R3 = mset_at ?k ?e (pending R2))"
      using storePart_open [OF big(2), of L ?f entry R2] by auto
    then show ?thesis
    proof cases
      case 1
      then show ?thesis using step x o(1,2) o(5) [OF R1(2)] from_e by (simp add: collecting_def)
    next
      case 2
      have w: "part_bytes ?e = part_bytes entry + int (length (parts ! i))" using 2(1) by (intro part_bytes_set) auto
      have "part_bytes entry \<le> bytes_of R2 peerId" using peer_bytes.weight_le_tally [OF e_ok(2) o(2)] o(3) by simp
      also have "\<dots> = mget_or (peerPendingBytes R2) peerId 0" using o(1) big(2) by (simp add: books_def)
      finally have small: "part_bytes ?e \<le> 256 * 1024" using 2(2) w by simp
      have from_e': "from_parts parts ?e"
        using from_e parts(2) set_mset_at_subset [of "int i" "parts ! i" "received entry"] unfolding from_parts_def by auto
      have e'_ok: "entry_ok ?e"
        using e_ok(1) parts o(4) w set_mset_at_subset [of "int i" "parts ! i" "received entry"]
        by (fastforce simp: entry_ok_def parts_ok_def)
      have "int (length (received ?e)) < entryCount ?e"
        using complete_bytes [OF e'_ok from_e'] small big(1) by (rule_tac ccontr) simp
      then obtain R3 where R3: "storePart L ?f peerId entry R2 = (None, R3)" "pending R3 = mset_at ?k ?e (pending R2)" using 2(3) by blast
      then have "books R3 \<and> all_incomplete R3" using kept by simp
      then show ?thesis using step x from_e' R3 by (simp add: collecting_def)
    qed
  qed
qed

lemma collecting_feed:
  assumes "cbor_roundtrips L" "cbor_compact L" "parts_ok mid parts" "256 * 1024 < length (concat parts)" "peerId \<noteq> unknown_peer"
  shows "collecting mid parts R \<Longrightarrow> set (map snd arrivals) \<subseteq> set (map (part_frame L mid parts) [0..<length parts]) \<Longrightarrow>
    \<exists>R'. feed L peerId arrivals R = (replicate (length arrivals) None, R') \<and> collecting mid parts R'"
proof (induction arrivals arbitrary: R)
  case (Cons x arrivals)
  then obtain t i where x: "x = (t, part_frame L mid parts i)" "i < length parts" by (cases x) auto
  obtain R1 where R1: "addFragment L t (part_frame L mid parts i) peerId R = (None, R1)" "collecting mid parts R1"
    using collecting_step [OF assms(1-3) x(2) assms(4,5) Cons.prems(1)] by blast
  with Cons.IH [OF R1(2)] Cons.prems(2) x(1) show ?case by auto
qed simp

section \<open>The node\<close>

text \<open>Frames that complete nothing change nothing but the reassembler.\<close>

lemma incomplete_frames:
  assumes "mget (authenticatedPeers s) n = Some peer"
    and "feed L (n @ '':'' @ int_string (establishedAt peer)) arrivals R = (replicate (length arrivals) None, R')"
  shows "receive_frames L T depth n (map (\<lambda>(t, f). (t, 1 # f)) arrivals) (s\<lparr>reassembler := R\<rparr>) = s\<lparr>reassembler := R'\<rparr>"
  using assms(2)
proof (induction arrivals arbitrary: R)
  case (Cons x arrivals)
  obtain t f where x: "x = (t, f)" by (cases x)
  obtain r R1 where a: "addFragment L t f (n @ '':'' @ int_string (establishedAt peer)) R = (r, R1)"
    by (cases "addFragment L t f (n @ '':'' @ int_string (establishedAt peer)) R")
  obtain rs R2 where b: "feed L (n @ '':'' @ int_string (establishedAt peer)) arrivals R1 = (rs, R2)"
    by (cases "feed L (n @ '':'' @ int_string (establishedAt peer)) arrivals R1")
  with Cons.prems x a have "r = None" "feed L (n @ '':'' @ int_string (establishedAt peer)) arrivals R1 = (replicate (length arrivals) None, R')" by simp_all
  with Cons.IH [of R1] assms(1) a show ?case by (simp add: x receive_frames_def receiveFrame_def FRAME_KIND_FRAGMENT_def)
qed (simp add: receive_frames_def)

section \<open>Properties\<close>

text \<open>C39: Above the quota nothing arrives. The frames of an envelope of more than 256 KiB on a link of at most 4129
  bytes, received by a node from an authenticated peer in any order, any number of times and at any times, never
  make up the envelope: the node does nothing with them but hold some of them for a while. A sync transfer may be
  twice that size.\<close>

theorem large_envelope_lost:
  assumes "cbor_roundtrips L" "cbor_compact L" "length (messageId (header e)) = 16"
    and "linkUnit T n = Some u" "u \<le> 4129" "frames_for L T n e = Inr fs" "256 * 1024 < length (encodeEnvelope L e)"
    and "relay_history L t0 B" "mget (authenticatedPeers B) m = Some peer" "\<not> mhas (pending (reassembler B)) (id_hex e)"
    and "set (map snd arrivals) \<subseteq> set fs"
  shows "\<exists>R. receive_frames L U depth m arrivals B = B\<lparr>reassembler := R\<rparr> \<and> pendingCount R \<le> 128 \<and> pendingBytesCount R \<le> 2 * 1024 * 1024"
proof -
  let ?p = "m @ '':'' @ int_string (establishedAt peer)"
  have "int (length (encodeEnvelope L e)) + 1 > u" using assms(5,7) by simp
  then obtain frames where frames: "fragmentEnvelope L e (u - 1) = Inr frames" "fs = map ((#) 1) frames"
    using assms(4,6) by (auto simp: frames_for_def res_simps)
  obtain parts where parts: "frames = map (part_frame L (messageId (header e)) parts) [0..<length parts]" "length parts \<le> 4096"
    "concat parts = encodeEnvelope L e" "\<forall>x \<in> set parts. length x \<le> chunk_size (u - 1)"
    using fragmentEnvelope_parts [OF frames(1)] by blast
  have "chunk_size (u - 1) \<le> 4096" using assms(5) by (simp add: chunk_size_def fragment_limits)
  then have ok: "parts_ok (messageId (header e)) parts" using parts(2,4) assms(3) by (auto simp: parts_ok_def)
  have big: "256 * 1024 < length (concat parts)" using assms(7) parts(3) by simp
  have "relay_ok L t0 B" by (rule relay_history_ok [OF assms(8)])
  then have start: "collecting (messageId (header e)) parts (reassembler B)"
    using assms(10) by (simp add: collecting_def relay_ok_def mhas_def)
  have "m \<noteq> []" using relay_history_peers [OF assms(8)] assms(9) by (auto simp: peers_ok_def)
  have known: "?p \<noteq> unknown_peer"
  proof
    assume "?p = unknown_peer"
    then have "CHR '':'' \<in> set unknown_peer" by (metis in_set_conv_decomp append.assoc append_Cons append_Nil)
    then show False by (simp add: unknown_peer_def)
  qed
  let ?a = "map (\<lambda>(t, f). (t, tl f)) arrivals"
  have cut: "1 # tl (snd x) = snd x \<and> tl (snd x) \<in> set frames" if "x \<in> set arrivals" for x
  proof -
    have "snd x \<in> set (map snd arrivals)" using that by simp
    then have "snd x \<in> (#) 1 ` set frames" using assms(11) frames(2) by auto
    then show ?thesis by auto
  qed
  have "(\<lambda>(t, f). (t, 1 # f)) ((\<lambda>(t, f). (t, tl f)) x) = x" if "x \<in> set arrivals" for x
    using cut [OF that] by (simp add: prod_eq_iff case_prod_beta)
  then have whole: "map (\<lambda>(t, f). (t, 1 # f)) ?a = arrivals" unfolding map_map comp_def by (rule map_idI)
  have tails: "set (map snd ?a) \<subseteq> set frames" using cut by (simp add: image_subset_iff case_prod_beta)
  obtain R where R: "feed L ?p ?a (reassembler B) = (replicate (length ?a) None, R)" "collecting (messageId (header e)) parts R"
    using collecting_feed [OF assms(1,2) ok big known start tails [unfolded parts(1)]] by (elim exE conjE) (rule that)
  have "receive_frames L U depth m arrivals B = B\<lparr>reassembler := R\<rparr>"
    using incomplete_frames [OF assms(9) R(1), of U depth] unfolding whole by simp
  moreover have "books R" using R(2) by (simp add: collecting_def)
  ultimately show ?thesis by (intro exI [of _ R]) (simp add: books_def pendingCount_def pendingBytesCount_def)
qed

definition huge_envelope :: Envelope where
  "huge_envelope = test_envelope\<lparr>sealedPayload := replicate 300000 0\<rparr>"

theorem large_envelope_lost_witness:
  "\<exists>fs R. frames_for ref_lib open_transport ''n2'' huge_envelope = Inr fs \<and>
    receive_frames ref_lib open_transport 1 ''n1'' (map (Pair 1700000050000) fs) synced_node = synced_node\<lparr>reassembler := R\<rparr>"
proof -
  have len: "length (encodeEnvelope ref_lib huge_envelope) = 300052"
    by (simp add: encodeEnvelope_def headerToTuple_def test_envelope_def huge_envelope_def ref_lib_def enc_bytes_def leb.simps zigzag_def)
  have u: "linkUnit open_transport ''n2'' = Some 1200" by (simp add: open_transport_def)
  obtain fs where fs: "frames_for ref_lib open_transport ''n2'' huge_envelope = Inr fs"
    using len by (simp add: frames_for_def u fragmentEnvelope_def chunk_size_def fragment_limits ceil_div_def Let_def)
  have big: "256 * 1024 < length (encodeEnvelope ref_lib huge_envelope)" and id: "length (messageId (header huge_envelope)) = 16"
    using len by (simp_all add: huge_envelope_def test_envelope_def)
  have peer: "mget (authenticatedPeers synced_node) ''n1'' = Some \<lparr>peerIdentityKey = publicKey bob, establishedAt = 1700000040000, peerSession = Some session_b\<rparr>"
    by (simp add: synced_node(2))
  have none: "\<not> mhas (pending (reassembler synced_node)) (id_hex huge_envelope)"
    by (simp add: synced_node_def registerAuthenticatedPeer_def new_relay_def bob_def session_b_def new_reassembler_def)
  have all: "set (map snd (map (Pair (1700000050000 :: int)) fs)) \<subseteq> set fs" by auto
  obtain R where "receive_frames ref_lib open_transport 1 ''n1'' (map (Pair 1700000050000) fs) synced_node = synced_node\<lparr>reassembler := R\<rparr>"
    using large_envelope_lost [OF ref_cbor ref_cbor_compact id u _ fs big synced_node(1) peer none all, of open_transport 1] by auto
  with fs show ?thesis by blast
qed

end
