(* ===== verification/SyncExchange.thy ===== *)
theory SyncExchange
  imports MeshPath
begin

text \<open>
  A round of store and forward synchronisation between two relay nodes (\<open>initiateSync\<close>, \<open>handleSyncPacket\<close> and
  \<open>sendSync\<close> of \<open>routing.ts\<close>): the summary of one node, the request of the other, and the transfer that answers it,
  carried over a simulated network.
\<close>

section \<open>Sync packets on the way\<close>

text \<open>The envelope \<open>sendSync\<close> makes of a packet, at the \<open>k\<close>-th random draw of the node.\<close>

definition sync_packet :: "lib \<Rightarrow> int \<Rightarrow> SyncSession \<Rightarrow> Identity \<Rightarrow> nat \<Rightarrow> sync_inner \<Rightarrow> Envelope res" where
  "sync_packet L nowMs x idn k inner =
     rbind (encodeEncryptedSync L (random_bytes L k 24) (publicKey idn) x inner) (\<lambda>payload.
       Inr (createSyncEnvelope nowMs (random_bytes L (k + 1) 16) payload DEFAULT_TTL))"

lemma sendSync_packet:
  assumes "sync_packet L t x (RelayNode.nodeIdentity s) (draws s) inner = Inr e" "frames_for L T n e = Inr fs" "\<forall>f \<in> set fs. accepts T n f"
  shows "sendSync L T t n x inner s = (Inr True, s\<lparr>draws := draws s + 2, sent := sent s @ map (Pair n) fs\<rparr>)"
proof -
  obtain p where p: "encodeEncryptedSync L (random_bytes L (draws s) 24) (publicKey (RelayNode.nodeIdentity s)) x inner = Inr p"
    "e = createSyncEnvelope t (random_bytes L (draws s + 1) 16) p DEFAULT_TTL"
    using assms(1) by (auto simp: sync_packet_def res_simps)
  have "filter (accepts T n) fs = fs" using assms(3) by (simp add: filter_id_conv)
  with assms p show ?thesis by (simp add: sendSync_def draw_def chain_def sendEnvelopeOverTransport_sent)
qed

lemma sync_packet_header:
  assumes "sync_packet L t x idn k inner = Inr e"
  shows "header e = make_header t (random_bytes L (k + 1) 16) StoreForwardSync (Num 16) (replicate 8 0)"
  using assms by (auto simp: sync_packet_def res_simps createSyncEnvelope_def DEFAULT_TTL_def)

lemma sync_packet_id: "hash_sizes L \<Longrightarrow> sync_packet L t x idn k inner = Inr e \<Longrightarrow> length (messageId (header e)) = 16"
  by (simp add: sync_packet_header make_header_def hash_sizesD)

text \<open>The other end of the session reads a sync packet.\<close>

definition session_ends :: "SyncSession \<Rightarrow> SyncSession \<Rightarrow> bool" where
  "session_ends x y \<longleftrightarrow> syncSessionId y = syncSessionId x \<and> syncReceiveKey y = syncSendKey x \<and> syncReceiveKey x = syncSendKey y \<and>
     length (syncSendKey x) = 32 \<and> length (syncSendKey y) = 32"

lemma sync_packet_read:
  assumes "cbor_roundtrips L" "aead_correct L" "hash_sizes L" "session_ends x y" "length (publicKey idn) = 32" "inner_plain inner"
    and "sync_packet L t x idn k inner = Inr e"
  shows "decodeEncryptedSync L (sealedPayload e) y = Some (publicKey idn, inner_tuple inner)"
proof -
  have n: "length (random_bytes L k 24) = 24" by (rule hash_sizesD [OF assms(3)])
  have x: "length (syncSendKey x) = 32" "syncReceiveKey y = syncSendKey x" "syncSessionId y = syncSessionId x"
    using assms(4) by (simp_all add: session_ends_def)
  obtain p where "encodeEncryptedSync L (random_bytes L k 24) (publicKey idn) x inner = Inr p"
    "decodeEncryptedSync L p y = Some (publicKey idn, inner_tuple inner)"
    using sync_decode_encode [OF assms(1,2) x n assms(5,6)] by blast
  with assms(7) show ?thesis by (auto simp: sync_packet_def createSyncEnvelope_def)
qed

text \<open>What a node does with a sync packet it accepts.\<close>

definition sync_effect ::
    "lib \<Rightarrow> RelayTransport \<Rightarrow> int \<Rightarrow> (Envelope \<Rightarrow> string option \<Rightarrow> DeliveryResult relay) \<Rightarrow> Envelope \<Rightarrow> string \<Rightarrow> SyncSession
      \<Rightarrow> sync_inner \<Rightarrow> DeliveryResult relay" where
  "sync_effect L T t recv e m x inner = (case inner of
      SyncSummary es \<Rightarrow> sync_summary L T t e m x (JArr (map (\<lambda>(i, t). JArr [JBytes i, JNum t]) es))
    | SyncRequest ids \<Rightarrow> sync_request L T t e m x (JArr (map JBytes ids))
    | SyncTransfer ws \<Rightarrow> sync_transfer L recv e m (JArr (map JBytes ws)))"

definition marked :: "lib \<Rightarrow> int \<Rightarrow> bytes \<Rightarrow> bytes \<Rightarrow> RelayNode \<Rightarrow> RelayNode" where
  "marked L t key payload s = s\<lparr>seenSyncPackets :=
     bounded_set MAX_SEEN_SYNC_PACKETS (replay_key L key payload) t (purge_seen t SYNC_REPLAY_TTL_MS (seenSyncPackets s))\<rparr>"

lemma handle_accepted:
  assumes "mget (authenticatedPeers s) m = Some peer" "peerSession peer = Some x" "m \<noteq> []"
    and "decodeEncryptedSync L (sealedPayload e) x = Some (peerIdentityKey peer, inner_tuple inner)"
    and "\<not> mhas (seenSyncPackets s) (replay_key L (peerIdentityKey peer) (sealedPayload e))"
  shows "handleSyncPacket L T t recv e (Some m) s = sync_effect L T t recv e m x inner (marked L t (peerIdentityKey peer) (sealedPayload e) s)"
proof -
  let ?p = "purge_seen t SYNC_REPLAY_TTL_MS (seenSyncPackets s)" and ?k = "replay_key L (peerIdentityKey peer) (sealedPayload e)"
  have "fst ` set ?p \<subseteq> fst ` set (seenSyncPackets s)" by (auto simp: purge_seen_def)
  then have new: "\<not> mhas ?p ?k" using assms(5) by (auto simp: mhas_iff)
  have m: "truthy (Some m) = Some m" using assms(3) by (cases m) (simp_all add: truthy_def)
  have purge: "chain (purgeStaleSyncReplayRecords t SYNC_REPLAY_TTL_MS) k s = k (length (seenSyncPackets s) - length ?p)
      (s\<lparr>seenSyncPackets := ?p\<rparr>)" for k :: "nat \<Rightarrow> DeliveryResult relay"
    by (simp add: chain_def purgeStaleSyncReplayRecords_def Let_def)
  show ?thesis
    using new unfolding handleSyncPacket_def m
    by (cases inner) (simp_all add: assms(1,2,4) purge peerAuthorized_def Let_def replay_key_def inner_tuple_def sync_effect_def marked_def)
qed

text \<open>Handlers do not touch the reassembler.\<close>

interpretation untouched: handlers "\<lambda>s s'. reassembler s' = reassembler s" L t source for L t source
  by unfold_locales
    (rule fragments_held.kept_steps | simp add: fragments_held.kept.evolves_def purgeStaleSyncReplayRecords_def Let_def)+

lemma receive_keeps_parts: "reassembler (snd (receiveEnvelope L T t depth e (Some m) s)) = reassembler s"
  using untouched.receive_ok [of "Some m" "Some m" L T t depth e] by (simp add: fragments_held.kept.evolves_def)

section \<open>What the two ends do\<close>

text \<open>The envelopes of a queue in the order of its map.\<close>

abbreviation held_list :: "StoreForwardQueue \<Rightarrow> Envelope list" where
  "held_list q \<equiv> map (storedEnvelope \<circ> snd) (entries q)"

definition summary_of :: "Envelope list \<Rightarrow> sync_inner" where
  "summary_of es = SyncSummary (map (\<lambda>e. (messageId (header e), ttl (header e))) es)"

lemma purged_fresh:
  assumes "\<forall>e \<in> set (held_list q). fresh t e"
  shows "purged t q = q"
proof -
  have "queue_purge t STORE_FORWARD_MAX_AGE_SECONDS q = (0, q)"
    unfolding queue_purge_def by (rule expiring.sweep_none) (use assms in force)
  then show ?thesis by simp
qed

lemma initiate_step:
  assumes "mget (authenticatedPeers s) n = Some peer" "peerSession peer = Some x"
    and "\<forall>e \<in> set (held_list (queue s)). fresh t e" "length (entries (queue s)) \<le> 512"
    and "sync_packet L t x (RelayNode.nodeIdentity s) (draws s) (summary_of (held_list (queue s))) = Inr e"
    and "frames_for L T n e = Inr fs" "\<forall>f \<in> set fs. accepts T n f"
  shows "initiateSync L T t n s = (Inr True, s\<lparr>draws := draws s + 2, sent := sent s @ map (Pair n) fs\<rparr>)"
proof -
  have q: "purged t (queue s) = queue s" by (rule purged_fresh [OF assms(3)])
  have "getSummary t (queue s) = (map (\<lambda>(_, x). \<lparr>summaryId = messageId (header (storedEnvelope x)),
      ttlRemaining = ttl (header (storedEnvelope x))\<rparr>) (entries (queue s)), queue s)"
    by (simp add: getSummary_def q Let_def)
  moreover have "SyncSummary (map (\<lambda>e. (summaryId e, ttlRemaining e)) (take MAX_SYNC_ENTRIES (map (\<lambda>(_, x).
      \<lparr>summaryId = messageId (header (storedEnvelope x)), ttlRemaining = ttl (header (storedEnvelope x))\<rparr>) (entries (queue s)))))
      = summary_of (held_list (queue s))"
    using assms(4) by (auto simp: summary_of_def MAX_SYNC_ENTRIES_def)
  moreover have "s\<lparr>queue := queue s\<rparr> = s" by simp
  ultimately show ?thesis
    using assms(1,2) sendSync_packet [OF assms(5-7)] by (simp add: initiateSync_def)
qed

lemma missing_found:
  assumes "queue_ok L t0 (queue s)"
  shows "missing_ids t ids s = (Inr (filter (\<lambda>i. \<not> mhas (entries (purged t (queue s))) (bytesToHex i)) ids),
    s\<lparr>queue := (if ids = [] then queue s else purged t (queue s))\<rparr>)"
proof -
  let ?q = "purged t (queue s)"
  have "\<forall>e \<in> set (held_list ?q). fresh t e" using purged_entries [OF assms, of t] by auto
  then have again: "purged t ?q = ?q" by (rule purged_fresh)
  have held: "missing_ids t ids (s\<lparr>queue := ?q\<rparr>) = (Inr (filter (\<lambda>i. \<not> mhas (entries ?q) (bytesToHex i)) ids), s\<lparr>queue := ?q\<rparr>)" for ids
    by (induction ids) (simp_all add: has_def again Let_def chain_Inr)
  show ?thesis
  proof (cases ids)
    case (Cons i ids')
    then show ?thesis using held [of ids'] by (simp add: has_def Let_def chain_Inr)
  qed simp
qed

text \<open>What a node lacks of a list of envelopes.\<close>

definition lacking :: "int \<Rightarrow> StoreForwardQueue \<Rightarrow> Envelope list \<Rightarrow> Envelope list" where
  "lacking t q es = filter (\<lambda>e. \<not> mhas (entries (purged t q)) (id_hex e)) es"

lemma lacking_ids:
  "filter (\<lambda>i. \<not> mhas (entries (purged t q)) (bytesToHex i)) (map (\<lambda>e. messageId (header e)) es) = map (\<lambda>e. messageId (header e)) (lacking t q es)"
  by (simp add: lacking_def filter_map comp_def)

text \<open>An envelope a summary can name: a 16-byte id and a hop counter that is a whole number.\<close>

definition listable :: "Envelope \<Rightarrow> bool" where
  "listable e \<longleftrightarrow> length (messageId (header e)) = 16 \<and> (\<exists>c. ttl (header e) = Num c \<and> 0 \<le> c \<and> c < 2 ^ 53)"

lemma summary_plain: "\<forall>e \<in> set es. listable e \<Longrightarrow> inner_plain (summary_of es)"
  by (auto simp: summary_of_def list_all_iff listable_def)

lemma summary_entries:
  assumes "\<forall>e \<in> set es. listable e"
  shows "rmap summary_entry (map (\<lambda>e. JArr [JBytes (messageId (header e)), JNum (ttl (header e))]) es)
      = Inr (map (\<lambda>e. (messageId (header e), JNum (ttl (header e)))) es)"
    "\<not> list_ex bad_entry (map (\<lambda>e. (messageId (header e), JNum (ttl (header e)))) es)"
proof -
  show "rmap summary_entry (map (\<lambda>e. JArr [JBytes (messageId (header e)), JNum (ttl (header e))]) es)
      = Inr (map (\<lambda>e. (messageId (header e), JNum (ttl (header e)))) es)"
    by (induction es) (simp_all add: summary_entry_def destructure_def)
  show "\<not> list_ex bad_entry (map (\<lambda>e. (messageId (header e), JNum (ttl (header e)))) es)"
    using assms by (auto simp: list_ex_iff bad_entry_def listable_def safe_int_def)
qed

lemma summary_step:
  assumes "queue_ok L t0 (queue s)" "\<forall>e \<in> set es. listable e" "length es \<le> 512" "lacking t (queue s) es \<noteq> []"
    and "sync_packet L t x (RelayNode.nodeIdentity s) (draws s) (SyncRequest (map (\<lambda>e. messageId (header e)) (lacking t (queue s) es))) = Inr e'"
    and "frames_for L T m e' = Inr fs" "\<forall>f \<in> set fs. accepts T m f"
  shows "sync_effect L T t recv e m x (summary_of es) s =
    (Inr (Delivered e), s\<lparr>queue := purged t (queue s), draws := draws s + 2, sent := sent s @ map (Pair m) fs\<rparr>)"
proof -
  let ?ids = "map (\<lambda>e. messageId (header e)) es" and ?l = "map (\<lambda>e. messageId (header e)) (lacking t (queue s) es)"
  let ?s = "s\<lparr>queue := purged t (queue s)\<rparr>"
  have "es \<noteq> []" using assms(4) by (auto simp: lacking_def)
  then have miss: "missing_ids t ?ids s = (Inr ?l, ?s)"
    using missing_found [OF assms(1), of t ?ids] by (simp add: lacking_ids)
  have "length ?l \<le> length es" by (simp add: lacking_def)
  then have l: "take MAX_SYNC_REQUESTS ?l = ?l" "?l \<noteq> []" using assms(3,4) by (simp_all add: MAX_SYNC_REQUESTS_def)
  have send: "sendSync L T t m x (SyncRequest ?l) ?s = (Inr True, ?s\<lparr>draws := draws ?s + 2, sent := sent ?s @ map (Pair m) fs\<rparr>)"
    using assms(5) by (intro sendSync_packet [OF _ assms(6,7)]) simp
  have ids: "map fst (map (\<lambda>e. (messageId (header e), JNum (ttl (header e)))) es) = ?ids" by simp
  note entries = summary_entries [OF assms(2)]
  show ?thesis
    unfolding sync_effect_def summary_of_def sync_summary_def using assms(3) l miss send
    by (simp add: elements_def comp_def entries ids chain_Inr Let_def MAX_SYNC_ENTRIES_def MAX_SYNC_REQUESTS_def)
qed

lemma requested_held:
  assumes "\<forall>e \<in> set (held_list q). fresh t e"
  shows "getByIds t (map (\<lambda>e. messageId (header e)) (lacking u q' (held_list q))) q = (lacking u q' (held_list q), q)"
proof -
  let ?l = "lacking u q' (held_list q)" and ?P = "\<lambda>e. \<not> mhas (entries (purged u q')) (id_hex e)"
  let ?I = "set (map bytesToHex (map (\<lambda>e. messageId (header e)) ?l))"
  have key: "id_hex e \<in> ?I \<longleftrightarrow> ?P e" if "e \<in> set (held_list q)" for e using that by (auto simp: lacking_def)
  have "filter (\<lambda>(_, x). id_hex (storedEnvelope x) \<in> ?I) (entries q) = filter (\<lambda>x. ?P (storedEnvelope (snd x))) (entries q)"
  proof (rule filter_cong)
    fix x assume "x \<in> set (entries q)"
    then have "storedEnvelope (snd x) \<in> set (held_list q)" by simp
    from key [OF this] show "(case x of (_, x) \<Rightarrow> id_hex (storedEnvelope x) \<in> ?I) \<longleftrightarrow> ?P (storedEnvelope (snd x))"
      by (simp only: case_prod_beta)
  qed simp
  then have "map (storedEnvelope \<circ> snd) (filter (\<lambda>(_, x). id_hex (storedEnvelope x) \<in> ?I) (entries q)) = filter ?P (held_list q)"
    by (simp only: filter_map comp_def)
  then show ?thesis using purged_fresh [OF assms] by (simp add: getByIds_def Let_def) (simp add: lacking_def)
qed

lemma within_all: "n + sum_list (map length ws) \<le> MAX_SYNC_TRANSFER_BYTES \<Longrightarrow> within_limit n ws = ws"
  by (induction ws arbitrary: n) simp_all

text \<open>Envelopes that one transfer packet carries.\<close>

definition transferable :: "lib \<Rightarrow> Envelope list \<Rightarrow> bool" where
  "transferable L es \<longleftrightarrow> length es \<le> 128 \<and> sum_list (map (\<lambda>e. length (encodeEnvelope L e)) es) \<le> 512 * 1024"

lemma request_step:
  assumes "\<forall>e \<in> set (held_list (queue s)). fresh t e \<and> listable e" "length (entries (queue s)) \<le> 512"
    and "transferable L (lacking u q' (held_list (queue s)))"
    and "sync_packet L t x (RelayNode.nodeIdentity s) (draws s) (SyncTransfer (map (encodeEnvelope L) (lacking u q' (held_list (queue s))))) = Inr e'"
    and "frames_for L T m e' = Inr fs" "\<forall>f \<in> set fs. accepts T m f"
  shows "sync_effect L T t recv e m x (SyncRequest (map (\<lambda>e. messageId (header e)) (lacking u q' (held_list (queue s))))) s =
    (Inr (Delivered e), s\<lparr>draws := draws s + 2, sent := sent s @ map (Pair m) fs\<rparr>)"
proof -
  let ?l = "lacking u q' (held_list (queue s))"
  let ?ids = "map (\<lambda>e. messageId (header e)) ?l"
  have "length ?l \<le> length (held_list (queue s))" unfolding lacking_def by (rule length_filter_le)
  then have n: "length ?ids \<le> MAX_SYNC_REQUESTS" using assms(2) by (simp add: MAX_SYNC_REQUESTS_def)
  have ids: "rmap uint8_from (map (JBytes \<circ> f) es) = Inr (map f es)" for f :: "Envelope \<Rightarrow> bytes" and es
    by (induction es) (simp_all add: uint8_from_def)
  have ok: "\<not> list_ex (\<lambda>i. length i \<noteq> 16) ?ids" using assms(1) by (auto simp: list_ex_iff lacking_def listable_def)
  have get: "getByIds t ?ids (queue s) = (?l, queue s)" using assms(1) by (intro requested_held) auto
  have lim: "within_limit 0 (map (encodeEnvelope L) (take MAX_SYNC_TRANSFER_ENVELOPES ?l)) = map (encodeEnvelope L) ?l"
    using assms(3) by (simp add: transferable_def MAX_SYNC_TRANSFER_ENVELOPES_def within_all MAX_SYNC_TRANSFER_BYTES_def comp_def)
  show ?thesis
    unfolding sync_effect_def sync_request_def using n ok get lim sendSync_packet [OF assms(4-6)]
    by (simp add: elements_def ids chain_Inr Let_def)
qed

lemma transfer_deliveries:
  assumes "cbor_roundtrips L"
  shows "\<forall>e \<in> set es. packetType (header e) = packet_code Data \<and> destinationHint (header e) = ownDestinationHint s \<and> fresh t e \<and> plain_header (header e) \<Longrightarrow>
    n + sum_list (map (\<lambda>e. length (encodeEnvelope L e)) es) \<le> MAX_SYNC_TRANSFER_BYTES \<Longrightarrow>
    \<exists>s'. transfer_loop L (\<lambda>e. receiveEnvelope L T t (Suc d) e (Some m)) n (map JBytes (map (encodeEnvelope L) es)) s = (Inr None, s') \<and>
      events s' = events s @ map DeliveryListener es"
proof (induction es arbitrary: n s)
  case (Cons e es)
  let ?s = "(tidied t s)\<lparr>events := events s @ [DeliveryListener e]\<rparr>" and ?recv = "\<lambda>e. receiveEnvelope L T t (Suc d) e (Some m)"
  have e: "packetType (header e) = packet_code Data" "destinationHint (header e) = ownDestinationHint s" "fresh t e"
    "decodeEnvelope L (encodeEnvelope L e) = Inr e" "uint8_from (JBytes (encodeEnvelope L e)) = Inr (encodeEnvelope L e)"
    using Cons.prems(1) decode_encode_envelope [OF assms] by (auto simp: uint8_from_def)
  have r: "?recv e s = (Inr (Delivered e), ?s)" unfolding receive_data [OF e(1)] using e(2,3) by simp
  have own: "ownDestinationHint ?s = ownDestinationHint s" using tidied_quiet [of s t] by (simp add: quiet_def)
  have n: "\<not> MAX_SYNC_TRANSFER_BYTES < n + length (encodeEnvelope L e)" using Cons.prems(2) by simp
  have loop: "transfer_loop L ?recv n (map JBytes (map (encodeEnvelope L) (e # es))) s
      = transfer_loop L ?recv (n + length (encodeEnvelope L e)) (map JBytes (map (encodeEnvelope L) es)) ?s"
    using n e(4,5) by (simp add: chain_Inr [of "?recv e", OF r] del: receiveEnvelope.simps)
  obtain s' where "transfer_loop L ?recv (n + length (encodeEnvelope L e)) (map JBytes (map (encodeEnvelope L) es)) ?s = (Inr None, s')"
    "events s' = events ?s @ map DeliveryListener es"
    using Cons.IH [of ?s "n + length (encodeEnvelope L e)"] Cons.prems own by auto
  then show ?case unfolding loop by simp
qed simp

lemma transfer_step:
  assumes "cbor_roundtrips L" "transferable L es"
    and "\<forall>e \<in> set es. packetType (header e) = packet_code Data \<and> destinationHint (header e) = ownDestinationHint s \<and> fresh t e \<and> plain_header (header e)"
  shows "\<exists>s'. sync_effect L T t (receiveEnvelope L T t (Suc d)) e m x (SyncTransfer (map (encodeEnvelope L) es)) s = (Inr (Delivered e), s') \<and>
    events s' = events s @ map DeliveryListener es"
proof -
  have "0 + sum_list (map (\<lambda>e. length (encodeEnvelope L e)) es) \<le> MAX_SYNC_TRANSFER_BYTES"
    using assms(2) by (simp add: transferable_def MAX_SYNC_TRANSFER_BYTES_def)
  from transfer_deliveries [OF assms(1,3) this, of T d m] obtain s' where
    "transfer_loop L (\<lambda>e. receiveEnvelope L T t (Suc d) e (Some m)) 0 (map JBytes (map (encodeEnvelope L) es)) s = (Inr None, s')"
    "events s' = events s @ map DeliveryListener es" by blast
  then show ?thesis
    using assms(2) by (simp add: sync_effect_def sync_transfer_def elements_def transferable_def MAX_SYNC_TRANSFER_ENVELOPES_def
        attempt_def chain_def del: receiveEnvelope.simps)
qed

section \<open>A packet over the link\<close>

text \<open>A node that receives all frames of a packet at one time.\<close>

abbreviation at_time :: "RelayNode \<Rightarrow> nat \<Rightarrow> int \<Rightarrow> Station" where
  "at_time s b t \<equiv> \<lparr>stNode = s, stIndex = b, stTime = \<lambda>_. t\<rparr>"

definition knows :: "RelayNode \<Rightarrow> string \<Rightarrow> SyncSession \<Rightarrow> Identity \<Rightarrow> bool" where
  "knows s n x idn \<longleftrightarrow> n \<noteq> [] \<and> length (publicKey idn) = 32 \<and>
     (\<exists>p. mget (authenticatedPeers s) n = Some p \<and> peerSession p = Some x \<and> peerIdentityKey p = publicKey idn)"

definition unseen :: "lib \<Rightarrow> RelayNode \<Rightarrow> Identity \<Rightarrow> Envelope \<Rightarrow> bool" where
  "unseen L s idn e \<longleftrightarrow> \<not> mhas (seenSyncPackets s) (replay_key L (publicKey idn) (sealedPayload e))"

lemma sync_arrives:
  assumes laws: "cbor_roundtrips L" "cbor_compact L" "cbor_tight L" "aead_correct L" "hash_sizes L"
    and e: "sync_packet L u x idn k inner = Inr e" "inner_plain inner" "session_ends x y" "0 \<le> u" "u < 2 ^ 53" "u \<le> t" "t \<le> u + 3540000"
    and link: "carries L net a n b e" "takes_in L net a e (at_time s b t)"
    and s: "knows s (simOwnId (net ! a)) y idn" "unseen L s idn e"
    and frames: "frames_for L (sim_view a net) n e = Inr fs"
  obtains R where "arrive L net (Suc d) a (map (Pair n) fs) (at_time s b t) = snd (sync_effect L (sim_view b net) t (receiveEnvelope L (sim_view b net) t d) e
      (simOwnId (net ! a)) y inner (marked L t (publicKey idn) (sealedPayload e) ((tidied t s)\<lparr>reassembler := R\<rparr>)))"
    "pending R = pending (reassembler s)" "pendingBytes R = pendingBytes (reassembler s)"
proof -
  let ?V = "sim_view b net" and ?m = "simOwnId (net ! a)" and ?S = "at_time s b t"
  note h = sync_packet_header [OF e(1)]
  note mid = sync_packet_id [OF laws(5) e(1)]
  have plain: "plain_header (header e)" unfolding h using e(4,5) by (intro made_plain) simp_all
  have fresh: "fresh t e" unfolding h STORE_FORWARD_MAX_AGE_SECONDS_def using e(6,7) by (intro made_valid) simp_all
  have ty: "packetType (header e) = packet_code StoreForwardSync" by (simp add: h make_header_def)
  obtain fs' where "frames_for L (sim_view a net) n e = Inr fs'" "handed_over net a b (map (Pair n) fs') = fs'"
    by (rule carried [OF laws(3) link(1) mid])
  with frames have fs: "handed_over net a b (map (Pair n) fs) = fs" by simp
  have c: "carries L net a n (stIndex ?S) e" using link(1) by simp
  obtain i R where R: "receive_frames L ?V (Suc d) ?m (zip (map (stTime ?S) [0..<length fs]) fs) (stNode ?S) =
      snd (receiveEnvelope L ?V (stTime ?S i) (Suc d) e (Some ?m) ((stNode ?S)\<lparr>reassembler := R\<rparr>))"
    "pending R = pending (reassembler (stNode ?S))" "pendingBytes R = pendingBytes (reassembler (stNode ?S))"
    by (rule taken_in [OF laws(1-3) plain mid c link(2) frames, where T = ?V and depth = "Suc d"])
  obtain p where p: "mget (authenticatedPeers s) ?m = Some p" "peerSession p = Some y" "peerIdentityKey p = publicKey idn"
    "?m \<noteq> []" "length (publicKey idn) = 32" using s(1) by (auto simp: knows_def)
  have read: "decodeEncryptedSync L (sealedPayload e) y = Some (peerIdentityKey p, inner_tuple inner)"
    unfolding p(3) by (rule sync_packet_read [OF laws(1,4,5) e(3) p(5) e(2,1)])
  let ?t = "(tidied t s)\<lparr>reassembler := R\<rparr>"
  have q: "authenticatedPeers ?t = authenticatedPeers s" "seenSyncPackets ?t = seenSyncPackets s"
    using tidied_quiet [of s t] by (simp_all add: quiet_def)
  have new: "\<not> mhas (seenSyncPackets ?t) (replay_key L (peerIdentityKey p) (sealedPayload e))" using s(2) unfolding q(2) p(3) unseen_def .
  have p': "mget (authenticatedPeers ?t) ?m = Some p" using p(1) unfolding q(1) .
  have "receiveEnvelope L ?V t (Suc d) e (Some ?m) (s\<lparr>reassembler := R\<rparr>) = sync_effect L ?V t (receiveEnvelope L ?V t d) e ?m y inner
      (marked L t (publicKey idn) (sealedPayload e) ?t)"
    unfolding receive_sync [OF ty] tidied_reassembler using fresh handle_accepted [OF p' p(2,4) read new, of T t] p(3)
    by (simp add: handle_accepted [OF p' p(2,4) read new])
  then have "arrive L net (Suc d) a (map (Pair n) fs) ?S = snd (sync_effect L ?V t (receiveEnvelope L ?V t d) e ?m y inner
      (marked L t (publicKey idn) (sealedPayload e) ?t))"
    using R(1) by (simp add: arrive_def fs)
  from that [OF this] R(2,3) show thesis by simp
qed

lemma marked_simps [simp]:
  "queue (marked L t k p s) = queue s" "draws (marked L t k p s) = draws s" "RelayNode.nodeIdentity (marked L t k p s) = RelayNode.nodeIdentity s"
  "sent (marked L t k p s) = sent s" "events (marked L t k p s) = events s" "authenticatedPeers (marked L t k p s) = authenticatedPeers s"
  "reassembler (marked L t k p s) = reassembler s" "ownDestinationHint (marked L t k p s) = ownDestinationHint s"
  by (simp_all add: marked_def)

lemma bounded_set_keys: "fst ` set (bounded_set c k v m) \<subseteq> insert k (fst ` set m)"
  using bounded_set_subset [of c k v m] by force

lemma marked_seen:
  assumes "mhas (seenSyncPackets (marked L t k p s)) q"
  shows "q = replay_key L k p \<or> mhas (seenSyncPackets s) q"
proof -
  have "q \<in> insert (replay_key L k p) (fst ` set (purge_seen t SYNC_REPLAY_TTL_MS (seenSyncPackets s)))"
    using subsetD [OF bounded_set_keys] assms by (simp add: marked_def mhas_iff)
  then show ?thesis by (auto simp: purge_seen_def mhas_iff)
qed

lemma arrive_ok:
  assumes "relay_ok L t0 s" "t0 \<le> t"
  shows "relay_ok L t (arrive L net d a out (at_time s b t))"
proof -
  have "relay_ok L t (receive_frames L T d m (zip (map (\<lambda>_. t) ns) fs) s)" if "relay_ok L t s" for T m ns fs s
    using that
  proof (induction fs arbitrary: s ns)
    case (Cons f fs)
    then show ?case by (cases ns) (simp_all add: receive_frames_def relay_ok_frame)
  qed (simp add: receive_frames_def)
  from this [OF relay_ok_mono [OF assms]] show ?thesis by (simp add: arrive_def Let_def)
qed

text \<open>Room in the reassembler depends only on what is pending.\<close>

lemma takes_in_again:
  assumes "takes_in L net a e (at_time s b t)" "authenticatedPeers s' = authenticatedPeers s" "pending (reassembler s') = pending (reassembler s)"
    and "books (reassembler s)" "books (reassembler s')"
  shows "takes_in L net a e (at_time s' b t)"
proof -
  have "pendingBytes (reassembler s') = pendingBytes (reassembler s)" using assms(3-5) by (simp add: books_def)
  moreover have "mget_or (peerPendingSets (reassembler s')) p 0 = mget_or (peerPendingSets (reassembler s)) p 0"
    "mget_or (peerPendingBytes (reassembler s')) p 0 = mget_or (peerPendingBytes (reassembler s)) p 0" if "p \<noteq> unknown_peer" for p
    using assms(3-5) that by (simp_all add: books_def)
  ultimately have "room_for (reassembler s') k p n = room_for (reassembler s) k p n" for k p n
    using assms(3) unfolding room_for_def by (cases "p = unknown_peer") simp_all
  then show ?thesis using assms(1-3) by (simp add: takes_in_def no_stale_def)
qed

section \<open>The three packets of a round\<close>

text \<open>The summary: the other node answers with a request of what it lacks.\<close>

lemma summary_arrives:
  assumes laws: "cbor_roundtrips L" "cbor_compact L" "cbor_tight L" "aead_correct L" "hash_sizes L"
    and B: "relay_ok L t0 B" "t0 \<le> t" "0 \<le> u" "u < 2 ^ 53" "u \<le> t" "t \<le> u + 3540000"
    and packets: "sync_packet L u x idn k (summary_of es) = Inr e" "session_ends x y"
      "sync_packet L t y (RelayNode.nodeIdentity B) (draws B) (SyncRequest (map (\<lambda>e. messageId (header e)) (lacking t (queue B) es))) = Inr e'"
    and es: "\<forall>e \<in> set es. listable e" "length es \<le> 512" "lacking t (queue B) es \<noteq> []"
    and link: "carries L net a n b e" "takes_in L net a e (at_time B b t)" "knows B (simOwnId (net ! a)) y idn" "unseen L B idn e"
    and frames: "frames_for L (sim_view a net) n e = Inr fs" "frames_for L (sim_view b net) (simOwnId (net ! a)) e' = Inr gs"
      "\<forall>f \<in> set gs. accepts (sim_view b net) (simOwnId (net ! a)) f"
  obtains B' where "arrive L net (Suc d) a (map (Pair n) fs) (at_time B b t) = B'" "sent B' = sent B @ map (Pair (simOwnId (net ! a))) gs"
    "events B' = events B" "authenticatedPeers B' = authenticatedPeers B" "ownDestinationHint B' = ownDestinationHint B" "relay_ok L t B'"
    "pending (reassembler B') = pending (reassembler B)"
    "\<And>q. mhas (seenSyncPackets B') q \<Longrightarrow> q = replay_key L (publicKey idn) (sealedPayload e) \<or> mhas (seenSyncPackets B) q"
proof -
  let ?V = "sim_view b net" and ?m = "simOwnId (net ! a)"
  obtain R where R: "arrive L net (Suc d) a (map (Pair n) fs) (at_time B b t) = snd (sync_effect L ?V t (receiveEnvelope L ?V t d) e ?m y
      (summary_of es) (marked L t (publicKey idn) (sealedPayload e) ((tidied t B)\<lparr>reassembler := R\<rparr>)))" "pending R = pending (reassembler B)"
    by (rule sync_arrives [OF laws packets(1) summary_plain [OF es(1)] packets(2) B(3-6) link frames(1)])
  let ?B0 = "marked L t (publicKey idn) (sealedPayload e) ((tidied t B)\<lparr>reassembler := R\<rparr>)"
  have q: "queue ?B0 = queue B" "draws ?B0 = draws B" "RelayNode.nodeIdentity ?B0 = RelayNode.nodeIdentity B"
    using tidied_quiet [of B t] by (simp_all add: quiet_def)
  have okq: "queue_ok L t0 (queue ?B0)" using B(1) unfolding q(1) by (simp add: relay_ok_def)
  let ?B1 = "?B0\<lparr>queue := purged t (queue ?B0), draws := draws ?B0 + 2, sent := sent ?B0 @ map (Pair ?m) gs\<rparr>"
  have "sync_effect L ?V t recv e ?m y (summary_of es) ?B0 = (Inr (Delivered e), ?B1)" for recv
    by (rule summary_step [OF okq es(1,2) _ _ frames(2,3)]) (use es(3) packets(3) in \<open>simp_all only: q not_False_eq_True\<close>)
  then have B1: "arrive L net (Suc d) a (map (Pair n) fs) (at_time B b t) = ?B1" unfolding R(1) by simp
  have ok: "relay_ok L t ?B1" using arrive_ok [OF B(1,2), where net = net and d = "Suc d" and a = a and out = "map (Pair n) fs" and b = b] unfolding B1 .
  have seen: "q = replay_key L (publicKey idn) (sealedPayload e) \<or> mhas (seenSyncPackets B) q" if "mhas (seenSyncPackets ?B1) q" for q
    using marked_seen [of L t "publicKey idn" "sealedPayload e" "(tidied t B)\<lparr>reassembler := R\<rparr>" q] that tidied_quiet [of B t] by (simp add: quiet_def)
  from that [OF B1 _ _ _ _ ok _ seen] R(2) tidied_quiet [of B t] show thesis by (simp add: quiet_def)
qed

text \<open>The request: the node that started answers with the transfer.\<close>

lemma request_arrives:
  assumes laws: "cbor_roundtrips L" "cbor_compact L" "cbor_tight L" "aead_correct L" "hash_sizes L"
    and A: "\<forall>e \<in> set (held_list (queue A)). fresh t e \<and> listable e" "length (entries (queue A)) \<le> 512" "0 \<le> u" "u < 2 ^ 53" "u \<le> t" "t \<le> u + 3540000"
    and es: "lacking v q (held_list (queue A)) = es" "transferable L es"
    and packets: "sync_packet L u y idn k (SyncRequest (map (\<lambda>e. messageId (header e)) es)) = Inr e" "session_ends y x"
      "sync_packet L t x (RelayNode.nodeIdentity A) (draws A) (SyncTransfer (map (encodeEnvelope L) es)) = Inr e'"
    and link: "carries L net b m a e" "takes_in L net b e (at_time A a t)" "knows A (simOwnId (net ! b)) x idn" "unseen L A idn e"
    and frames: "frames_for L (sim_view b net) m e = Inr fs" "frames_for L (sim_view a net) (simOwnId (net ! b)) e' = Inr gs"
      "\<forall>f \<in> set gs. accepts (sim_view a net) (simOwnId (net ! b)) f"
  shows "\<exists>A'. arrive L net (Suc d) b (map (Pair m) fs) (at_time A a t) = A' \<and> sent A' = sent A @ map (Pair (simOwnId (net ! b))) gs"
proof -
  let ?V = "sim_view a net" and ?n = "simOwnId (net ! b)" and ?ids = "SyncRequest (map (\<lambda>e. messageId (header e)) es)"
  have plain: "inner_plain ?ids" by simp
  obtain R where R: "arrive L net (Suc d) b (map (Pair m) fs) (at_time A a t) = snd (sync_effect L ?V t (receiveEnvelope L ?V t d) e ?n x
      ?ids (marked L t (publicKey idn) (sealedPayload e) ((tidied t A)\<lparr>reassembler := R\<rparr>)))"
    by (rule sync_arrives [OF laws packets(1) plain packets(2) A(3-6) link frames(1)])
  let ?A0 = "marked L t (publicKey idn) (sealedPayload e) ((tidied t A)\<lparr>reassembler := R\<rparr>)"
  have q: "queue ?A0 = queue A" "draws ?A0 = draws A" "RelayNode.nodeIdentity ?A0 = RelayNode.nodeIdentity A" "sent ?A0 = sent A"
    using tidied_quiet [of A t] by (simp_all add: quiet_def)
  let ?l = "lacking v q (held_list (queue ?A0))"
  have "sync_effect L ?V t recv e ?n x (SyncRequest (map (\<lambda>e. messageId (header e)) ?l)) ?A0
      = (Inr (Delivered e), ?A0\<lparr>draws := draws ?A0 + 2, sent := sent ?A0 @ map (Pair ?n) gs\<rparr>)" for recv
    by (rule request_step [OF _ _ _ _ frames(2,3)]) (use A(1,2) es(2) packets(3) in \<open>simp_all only: q es(1)\<close>)
  then show ?thesis unfolding R by (simp add: q es(1) del: marked_simps)
qed

text \<open>The transfer: the listener is called with each envelope.\<close>

lemma transfer_arrives:
  assumes laws: "cbor_roundtrips L" "cbor_compact L" "cbor_tight L" "aead_correct L" "hash_sizes L"
    and t: "0 \<le> u" "u < 2 ^ 53" "u \<le> t" "t \<le> u + 3540000"
    and es: "transferable L es" "\<forall>e \<in> set es. packetType (header e) = packet_code Data \<and> destinationHint (header e) = ownDestinationHint B \<and> fresh t e \<and> plain_header (header e)"
    and packets: "sync_packet L u x idn k (SyncTransfer (map (encodeEnvelope L) es)) = Inr e" "session_ends x y"
    and link: "carries L net a n b e" "takes_in L net a e (at_time B b t)" "knows B (simOwnId (net ! a)) y idn" "unseen L B idn e"
    and frames: "frames_for L (sim_view a net) n e = Inr fs"
  shows "events (arrive L net (Suc (Suc d)) a (map (Pair n) fs) (at_time B b t)) = events B @ map DeliveryListener es"
proof -
  let ?V = "sim_view b net" and ?m = "simOwnId (net ! a)" and ?x = "SyncTransfer (map (encodeEnvelope L) es)"
  have plain: "inner_plain ?x" by simp
  obtain R where R: "arrive L net (Suc (Suc d)) a (map (Pair n) fs) (at_time B b t) = snd (sync_effect L ?V t (receiveEnvelope L ?V t (Suc d)) e ?m y
      ?x (marked L t (publicKey idn) (sealedPayload e) ((tidied t B)\<lparr>reassembler := R\<rparr>)))"
    by (rule sync_arrives [OF laws packets(1) plain packets(2) t link frames])
  let ?B0 = "marked L t (publicKey idn) (sealedPayload e) ((tidied t B)\<lparr>reassembler := R\<rparr>)"
  have q: "events ?B0 = events B" "ownDestinationHint ?B0 = ownDestinationHint B" using tidied_quiet [of B t] by (simp_all add: quiet_def)
  obtain B' where "sync_effect L ?V t (receiveEnvelope L ?V t (Suc d)) e ?m y ?x ?B0 = (Inr (Delivered e), B')" "events B' = events ?B0 @ map DeliveryListener es"
    using transfer_step [OF laws(1) es(1), where s = ?B0 and t = t and d = d and T = ?V and m = ?m and e = e and x = y] es(2) unfolding q(2) by blast
  then show ?thesis unfolding R q(1) by simp
qed

section \<open>Properties\<close>

text \<open>The round that node \<open>A\<close> on transport \<open>a\<close> starts with node \<open>B\<close> on transport \<open>b\<close>: the summary, the request and the
  transfer arrive at \<open>t2\<close>, \<open>t3\<close> and \<open>t4\<close>.\<close>

definition sync_round ::
    "lib \<Rightarrow> SimNet \<Rightarrow> nat \<Rightarrow> nat \<Rightarrow> nat \<Rightarrow> int \<Rightarrow> int \<Rightarrow> int \<Rightarrow> int \<Rightarrow> RelayNode \<Rightarrow> RelayNode \<Rightarrow> RelayNode \<times> RelayNode" where
  "sync_round L net depth a b t1 t2 t3 t4 A B =
     (let A1 = snd (initiateSync L (sim_view a net) t1 (simOwnId (net ! b)) A);
          B1 = arrive L net depth a (drop (length (sent A)) (sent A1)) (at_time B b t2);
          A2 = arrive L net depth b (drop (length (sent B)) (sent B1)) (at_time A1 a t3)
      in (A2, arrive L net depth a (drop (length (sent A1)) (sent A2)) (at_time B1 b t4)))"

text \<open>C4: What a sync round delivers. Two nodes have a session with each other over a link that carries their sync
  packets. One starts a round: it sends a summary of its queue, the other requests what it lacks, and gets it in one
  transfer. If what it lacks are data packets addressed to it, at most 128 of them with at most 512 KiB in all, its
  delivery listener is called exactly once with each of them, in the order of the queue, and with nothing else.\<close>

theorem sync_round_delivers:
  assumes laws: "cbor_roundtrips L" "cbor_compact L" "cbor_tight L" "aead_correct L" "hash_sizes L"
    and nodes: "relay_history L t0 A" "relay_history L t0 B" "t0 \<le> t1" "0 \<le> t1" "t1 \<le> t2" "t2 \<le> t3" "t3 \<le> t4"
      "t4 \<le> t1 + 3540000" "t4 < 2 ^ 53"
    and sessions: "knows A (simOwnId (net ! b)) x (RelayNode.nodeIdentity B)" "knows B (simOwnId (net ! a)) y (RelayNode.nodeIdentity A)" "session_ends x y"
    and held: "\<forall>e \<in> set (held_list (queue A)). listable e \<and> plain_header (header e) \<and> fresh t1 e \<and> fresh t4 e"
      "lacking t2 (queue B) (held_list (queue A)) = es" "es \<noteq> []" "transferable L es"
      "\<forall>e \<in> set es. packetType (header e) = packet_code Data \<and> destinationHint (header e) = ownDestinationHint B"
    and packets: "sync_packet L t1 x (RelayNode.nodeIdentity A) (draws A) (summary_of (held_list (queue A))) = Inr e1"
      "sync_packet L t2 y (RelayNode.nodeIdentity B) (draws B) (SyncRequest (map (\<lambda>e. messageId (header e)) es)) = Inr e2"
      "sync_packet L t3 x (RelayNode.nodeIdentity A) (draws A + 2) (SyncTransfer (map (encodeEnvelope L) es)) = Inr e3"
    and new: "unseen L B (RelayNode.nodeIdentity A) e1" "unseen L A (RelayNode.nodeIdentity B) e2" "unseen L B (RelayNode.nodeIdentity A) e3"
      "sha256 L (sealedPayload e1) \<noteq> sha256 L (sealedPayload e3)"
    and links: "carries L net a (simOwnId (net ! b)) b e1" "takes_in L net a e1 (at_time B b t2)"
      "carries L net b (simOwnId (net ! a)) a e2" "takes_in L net b e2 (at_time A a t3)"
      "carries L net a (simOwnId (net ! b)) b e3" "takes_in L net a e3 (at_time B b t4)"
  shows "\<exists>A' B'. sync_round L net (Suc (Suc depth)) a b t1 t2 t3 t4 A B = (A', B') \<and> events B' = events B @ map DeliveryListener es"
proof -
  let ?d = "Suc depth" and ?n = "simOwnId (net ! b)" and ?m = "simOwnId (net ! a)" and ?VA = "sim_view a net" and ?VB = "sim_view b net"
  let ?all = "held_list (queue A)"
  have okA: "relay_ok L t0 A" and okB: "relay_ok L t0 B" using relay_history_ok [OF nodes(1)] relay_history_ok [OF nodes(2)] .
  have ends: "session_ends y x" using sessions(3) by (simp add: session_ends_def)
  have list: "\<forall>e \<in> set ?all. listable e" using held(1) by blast
  have alive: "\<forall>e \<in> set ?all. fresh t e" if "t1 \<le> t" "t \<le> t4" for t
    using held(1) that validate_between [of t1 t t4] by blast
  have size: "length (entries (queue A)) \<le> 512" "length ?all \<le> 512" using okA by (simp_all add: relay_ok_def queue_ok_def)
  have t: "t1 \<le> t4" "t1 \<le> t3" "t0 \<le> t2" "0 \<le> t2" "0 \<le> t3" "t1 < 2 ^ 53" "t2 < 2 ^ 53" "t3 < 2 ^ 53" "t2 \<le> t1 + 3540000" "t3 \<le> t2 + 3540000" "t4 \<le> t3 + 3540000"
    using nodes(3-9) by simp_all
  note ids = sync_packet_id [OF laws(5) packets(1)] sync_packet_id [OF laws(5) packets(2)] sync_packet_id [OF laws(5) packets(3)]
  obtain f1 where f1: "frames_for L ?VA ?n e1 = Inr f1" "\<forall>f \<in> set f1. accepts ?VA ?n f" by (rule carried [OF laws(3) links(1) ids(1)])
  obtain f2 where f2: "frames_for L ?VB ?m e2 = Inr f2" "\<forall>f \<in> set f2. accepts ?VB ?m f" by (rule carried [OF laws(3) links(3) ids(2)])
  obtain f3 where f3: "frames_for L ?VA ?n e3 = Inr f3" "\<forall>f \<in> set f3. accepts ?VA ?n f" by (rule carried [OF laws(3) links(5) ids(3)])
  obtain p where p: "mget (authenticatedPeers A) ?n = Some p" "peerSession p = Some x" using sessions(1) by (auto simp: knows_def)
  let ?A1 = "A\<lparr>draws := draws A + 2, sent := sent A @ map (Pair ?n) f1\<rparr>"
  have A1: "initiateSync L ?VA t1 ?n A = (Inr True, ?A1)"
    by (rule initiate_step [OF p alive [OF order_refl t(1)] size(1) packets(1) f1])
  obtain B1 where B1: "arrive L net (Suc ?d) a (map (Pair ?n) f1) (at_time B b t2) = B1" "sent B1 = sent B @ map (Pair ?m) f2" "events B1 = events B"
    "authenticatedPeers B1 = authenticatedPeers B" "ownDestinationHint B1 = ownDestinationHint B" "relay_ok L t2 B1" "pending (reassembler B1) = pending (reassembler B)"
    and seen: "\<And>q. mhas (seenSyncPackets B1) q \<Longrightarrow> q = replay_key L (publicKey (RelayNode.nodeIdentity A)) (sealedPayload e1) \<or> mhas (seenSyncPackets B) q"
    by (rule summary_arrives [OF laws okB t(3) nodes(4) t(6) nodes(5) t(9) packets(1) sessions(3) packets(2) [folded held(2)] list size(2) held(3) [folded held(2)]
        links(1,2) sessions(2) new(1) f1(1) f2, where d = ?d]) (rule that; assumption)
  have A: "\<forall>e \<in> set (held_list (queue ?A1)). fresh t3 e \<and> listable e" "length (entries (queue ?A1)) \<le> 512" "lacking t2 (queue B) (held_list (queue ?A1)) = es"
    "sync_packet L t3 x (RelayNode.nodeIdentity ?A1) (draws ?A1) (SyncTransfer (map (encodeEnvelope L) es)) = Inr e3"
    "takes_in L net b e2 (at_time ?A1 a t3)" "knows ?A1 ?n x (RelayNode.nodeIdentity B)" "unseen L ?A1 (RelayNode.nodeIdentity B) e2"
    using alive [OF t(2) nodes(7)] list size held(2) packets(3) links(4) sessions(1) new(2) by (simp_all add: knows_def unseen_def takes_in_def)
  obtain A2 where A2: "arrive L net (Suc ?d) b (map (Pair ?m) f2) (at_time ?A1 a t3) = A2" "sent A2 = sent ?A1 @ map (Pair ?n) f3"
    using request_arrives [OF laws A(1,2) t(4,7) nodes(6) t(10) A(3) held(4) packets(2) ends A(4) links(3) A(5-7) f2(1) f3] by blast
  have "books (reassembler B)" "books (reassembler B1)" using okB B1(6) by (simp_all add: relay_ok_def)
  then have in3: "takes_in L net a e3 (at_time B1 b t4)" by (rule takes_in_again [OF links(6) B1(4,7)])
  have k3: "knows B1 ?m y (RelayNode.nodeIdentity A)" using sessions(2) by (simp add: knows_def B1(4))
  have u3: "unseen L B1 (RelayNode.nodeIdentity A) e3"
    using new(3,4) seen [of "replay_key L (publicKey (RelayNode.nodeIdentity A)) (sealedPayload e3)"] by (auto simp: unseen_def replay_key_def)
  have own: "\<forall>e \<in> set es. packetType (header e) = packet_code Data \<and> destinationHint (header e) = ownDestinationHint B1 \<and> fresh t4 e \<and> plain_header (header e)"
    using held(1,2,5) unfolding B1(5) by (auto simp: lacking_def)
  note B2 = transfer_arrives [OF laws t(5,8) nodes(7) t(11) held(4) own packets(3) sessions(3) links(5) in3 k3 u3 f3(1), where d = depth]
  have out: "drop (length (sent A)) (sent ?A1) = map (Pair ?n) f1" "drop (length (sent B)) (sent B1) = map (Pair ?m) f2"
    "drop (length (sent ?A1)) (sent A2) = map (Pair ?n) f3" by (simp, simp only: B1(2), simp, simp only: A2(2), simp)
  have "sync_round L net (Suc ?d) a b t1 t2 t3 t4 A B = (A2, arrive L net (Suc ?d) a (map (Pair ?n) f3) (at_time B1 b t4))"
    by (simp only: sync_round_def Let_def A1 snd_conv out B1(1) A2(1))
  with B2 show ?thesis unfolding B1(3) by blast
qed

section \<open>A round between two test nodes\<close>

lemma ref_packet_small:
  assumes "sync_packet ref_lib t x idn k inner = Inr e" "syncSessionId x = ''s1''" "length (syncSendKey x) = 32" "length (publicKey idn) = 32"
    and "length (enc_val (inner_tuple inner)) \<le> 400" "0 \<le> t" "t < 2 ^ 53"
  shows "length (encodeEnvelope ref_lib e) \<le> 1000"
proof -
  have codec: "cbor_encode ref_lib = enc_val" by (simp add: ref_lib_def)
  let ?plain = "enc_val (JArr [JBytes (publicKey idn), inner_tuple inner])"
  have n: "length (random_bytes ref_lib k 24) = 24" by (simp add: hash_sizesD [OF ref_hash_sizes])
  obtain c where c: "aead_encrypt ref_lib (syncSendKey x) (random_bytes ref_lib k 24) (sync_aad (syncSessionId x)) ?plain = Some c"
    "length c = length ?plain + 16" by (rule aead_correctE [OF ref_aead_correct assms(3) n])
  have e: "e = createSyncEnvelope t (random_bytes ref_lib (k + 1) 16) (enc_val (JArr [JStr ''s1'', JBytes (random_bytes ref_lib k 24), JBytes c])) DEFAULT_TTL"
    using assms(1) c(1) by (simp add: sync_packet_def encodeEncryptedSync_def encryptSyncPayload_def assms(2,3) codec)
  have p: "length ?plain \<le> 440" using assms(4,5) by (simp add: enc_bytes_def leb_small)
  have two: "length (leb (length c)) \<le> 2" using c(2) p by (intro length_leb) simp_all
  define pl where "pl = enc_val (JArr [JStr ''s1'', JBytes (random_bytes ref_lib k 24), JBytes c])"
  have pl: "length pl \<le> 600" using two c(2) p n by (simp add: pl_def enc_bytes_def leb_small text_encode_def)
  then have pl2: "length (leb (length pl)) \<le> 2" by (intro length_leb) simp_all
  obtain ts where ts: "coarseTimestamp t = Num ts" "ts \<le> t div 1000" "t div 1000 < ts + 60" by (rule coarseTimestamp_bounds)
  have "length (leb (zigzag ts)) \<le> 9" using ts assms(6,7) by (intro length_leb) (auto simp: zigzag_def nat_less_iff)
  moreover have "length (random_bytes ref_lib (k + 1) 16) = 16" by (simp add: hash_sizesD [OF ref_hash_sizes])
  ultimately show ?thesis
    using pl pl2 unfolding e pl_def [symmetric] by (simp add: createSyncEnvelope_def encodeEnvelope_def headerToTuple_def make_header_def ts(1) PROTOCOL_VERSION_def
      packet_code_def codec DEFAULT_TTL_def enc_bytes_def leb_small zigzag_def [of 1] zigzag_def [of 4] zigzag_def [of 16])
qed

lemma sync_packet_made:
  assumes "cbor_roundtrips L" "aead_correct L" "hash_sizes L" "session_ends x y" "length (publicKey idn) = 32" "inner_plain inner"
  shows "\<exists>e. sync_packet L t x idn k inner = Inr e"
proof -
  have n: "length (random_bytes L k 24) = 24" by (rule hash_sizesD [OF assms(3)])
  have x: "length (syncSendKey x) = 32" "syncReceiveKey y = syncSendKey x" "syncSessionId y = syncSessionId x"
    using assms(4) by (simp_all add: session_ends_def)
  show ?thesis using sync_decode_encode [OF assms(1,2) x n assms(5,6)] by (auto simp: sync_packet_def)
qed

text \<open>Payloads of different draws differ in the first bytes, also for the hash of the test library.\<close>

lemma sync_packet_payload:
  assumes "sync_packet L t x idn k inner = Inr e"
  obtains c where "sealedPayload e = cbor_encode L (JArr [JStr (syncSessionId x), JBytes (random_bytes L k 24), JBytes c])"
  using assms by (auto simp: sync_packet_def encodeEncryptedSync_def encryptSyncPayload_def res_simps createSyncEnvelope_def split: if_splits)

lemma ref_packet_byte:
  assumes "sync_packet ref_lib t x idn k inner = Inr e" "syncSessionId x = ''s1''"
  shows "sha256 ref_lib (sealedPayload e) ! 8 = word_of_nat k"
proof -
  obtain c where c: "sealedPayload e = cbor_encode ref_lib (JArr [JStr ''s1'', JBytes (random_bytes ref_lib k 24), JBytes c])"
    using sync_packet_payload [OF assms(1)] unfolding assms(2) .
  have n: "random_bytes ref_lib k 24 = word_of_nat k # map (\<lambda>j. word_of_nat (k + j)) [1..<24]" "length (random_bytes ref_lib k 24) = 24"
    by (simp_all add: ref_lib_def upt_conv_Cons)
  have codec: "cbor_encode ref_lib = enc_val" by (simp add: ref_lib_def)
  have "sealedPayload e = 6 # 3 # 4 # 2 # 115 # 49 # 5 # 24 # (random_bytes ref_lib k 24 @ enc_val (JBytes c))"
    using n(2) unfolding c codec by (simp add: enc_bytes_def leb_small text_encode_def of_char_def)
  then show ?thesis unfolding n(1) by (simp add: ref_lib_def)
qed

definition carrier_node :: RelayNode where
  "carrier_node = snd (registerAuthenticatedPeer 1700000040000 ''b'' (publicKey alice) (Some session_a)
     (snd (sendEnvelope ref_lib open_transport 1700000040000 own_envelope (new_relay ref_lib bob))))"

lemma carrier_node:
  "relay_history ref_lib 1700000040000 carrier_node" "held_list (queue carrier_node) = [own_envelope]" "seenSyncPackets carrier_node = []"
  "reassembler carrier_node = new_reassembler" "draws carrier_node = 0" "RelayNode.nodeIdentity carrier_node = bob"
  "authenticatedPeers carrier_node = [(''b'', \<lparr>peerIdentityKey = publicKey alice, establishedAt = 1700000040000, peerSession = Some session_a\<rparr>)]"
proof -
  let ?t = "1700000040000 :: int"
  have fr: "fresh ?t own_envelope"
    by (simp add: own_envelope_def test_envelope_def validate_Num [of _ 1700000040] STORE_FORWARD_MAX_AGE_SECONDS_def)
  let ?n = "new_relay ref_lib bob"
  have tidy: "tidied ?t ?n = ?n" by (simp add: tidied_plain new_relay_def purgeExpired_def)
  have hop: "find_hop ?t h ?n = (Inr None, ?n)" for h by (simp add: find_hop_def on_part_res_def lookup_def new_relay_def purgeExpired_def)
  have hop': "chain (find_hop ?t h) f ?n = f None ?n" for h and f :: "string option \<Rightarrow> DeliveryResult relay" by (rule chain_Inr) (rule hop)
  have peers: "authenticatedPeers ?n = []" by (simp add: new_relay_def)
  obtain x where st: "store ref_lib ?t own_envelope ''origin'' (queue ?n) = (Stored, x)" "held_list x = [own_envelope]"
    using fr by (simp add: new_relay_def store_def new_queue_def queue_purge_def sweep_def Let_def mhas_def mget_or_def)
  have x: "snd (sendEnvelope ref_lib open_transport ?t own_envelope ?n) = ?n\<lparr>queue := x\<rparr>" "held_list x = [own_envelope]"
    using fr st by (simp_all add: sendEnvelope_def chain_purge_state tidy peers hop' truthy_def relay_store_def)
  show "relay_history ref_lib ?t carrier_node"
    unfolding carrier_node_def by (intro register [OF send [OF start [of _ ?t]]]) simp_all
  show "held_list (queue carrier_node) = [own_envelope]" "seenSyncPackets carrier_node = []" "reassembler carrier_node = new_reassembler"
    "draws carrier_node = 0" "RelayNode.nodeIdentity carrier_node = bob"
    "authenticatedPeers carrier_node = [(''b'', \<lparr>peerIdentityKey = publicKey alice, establishedAt = 1700000040000, peerSession = Some session_a\<rparr>)]"
    using x(2) unfolding carrier_node_def x(1)
    by (simp_all add: registerAuthenticatedPeer_def session_a_def alice_def new_relay_def)
qed

lemma own_envelope:
  "listable own_envelope" "plain_header (header own_envelope)" "packetType (header own_envelope) = packet_code Data"
  "destinationHint (header own_envelope) = computeDestinationHint ref_lib (publicKey alice)"
  "messageId (header own_envelope) = replicate 16 9" "ttl (header own_envelope) = Num 16"
  "fresh 1700000050000 own_envelope" "fresh 1700000053000 own_envelope" "length (encodeEnvelope ref_lib own_envelope) = 53"
  by (simp_all add: listable_def own_envelope_def test_envelope_def plain_header_def packet_code_def validate_Num [of _ 1700000040]
      STORE_FORWARD_MAX_AGE_SECONDS_def encodeEnvelope_def headerToTuple_def ref_lib_def enc_bytes_def leb.simps zigzag_def
      computeDestinationHint_def slice_def DESTINATION_HINT_LENGTH_def alice_def)

lemma synced_node_start:
  "reassembler synced_node = new_reassembler" "events synced_node = []" "draws synced_node = 0" "RelayNode.nodeIdentity synced_node = alice"
  "queue synced_node = new_queue 50 200" "ownDestinationHint synced_node = computeDestinationHint ref_lib (publicKey alice)"
  by (simp_all add: synced_node_def registerAuthenticatedPeer_def new_relay_def bob_def session_b_def)

text \<open>The link between the two nodes carries every packet of up to 1000 bytes, and both have room for it.\<close>

lemma test_link:
  assumes "length (encodeEnvelope ref_lib e) \<le> 1000"
  shows "carries ref_lib test_net 0 ''b'' 1 e" "carries ref_lib test_net 1 ''n1'' 0 e"
    "takes_in ref_lib test_net 0 e (at_time synced_node 1 t)" "takes_in ref_lib test_net 1 e (at_time carrier_node 0 t)"
    "simOwnId (test_net ! 0) = ''n1''" "simOwnId (test_net ! 1) = ''b''"
proof -
  have own: "simOwnId (test_net ! 0) = ''n1''" "simOwnId (test_net ! Suc 0) = ''b''" "simUnit (test_net ! 0) = 200" "simUnit (test_net ! Suc 0) = 200"
    "mget (simPeers (test_net ! 0)) ''b'' = Some 1" "mget (simPeers (test_net ! Suc 0)) ''n1'' = Some 0" "simReceiver (test_net ! 0)" "simReceiver (test_net ! Suc 0)"
    by (simp_all add: test_net_def sim_onReceive_def connectPeer_def set_peer_def createBluetoothTransport_def new_sim_def)
  then show "carries ref_lib test_net 0 ''b'' 1 e" "carries ref_lib test_net 1 ''n1'' 0 e" "simOwnId (test_net ! 0) = ''n1''" "simOwnId (test_net ! 1) = ''b''"
    using assms by (simp_all add: carries_def)
  have room: "room_for new_reassembler k (d # p) n" if "d \<in> {CHR ''b'', CHR ''n''}" "n \<le> 1000" for k d p n
    using that by (auto simp: room_for_def new_reassembler_def unknown_peer_def)
  have calm: "no_stale new_reassembler t" for t by (simp add: no_stale_def new_reassembler_def)
  show "takes_in ref_lib test_net 0 e (at_time synced_node 1 t)" "takes_in ref_lib test_net 1 e (at_time carrier_node 0 t)"
    using assms by (simp_all add: takes_in_def own synced_node(2) carrier_node(4,7) synced_node_start(1) room calm)
qed

theorem sync_round_delivers_witness:
  "\<exists>A' B'. sync_round ref_lib test_net 2 0 1 1700000050000 1700000051000 1700000052000 1700000053000 carrier_node synced_node = (A', B') \<and>
    events B' = [DeliveryListener own_envelope]"
proof -
  let ?t1 = "1700000050000 :: int" and ?t2 = "1700000051000 :: int" and ?t3 = "1700000052000 :: int" and ?t4 = "1700000053000 :: int"
  let ?A = carrier_node and ?B = synced_node
  note B = synced_node_start and e = own_envelope
  have own: "simOwnId (test_net ! 0) = ''n1''" "simOwnId (test_net ! 1) = ''b''"
    using test_link(5,6) [of own_envelope] e(9) by simp_all
  have ends: "session_ends session_a session_b" "session_ends session_b session_a" by (simp_all add: session_ends_def session_a_def session_b_def)
  have pk: "length (publicKey alice) = 32" "length (publicKey bob) = 32" by (simp_all add: alice_def bob_def)
  have sid: "syncSessionId session_a = ''s1''" "syncSessionId session_b = ''s1''" "length (syncSendKey session_a) = 32" "length (syncSendKey session_b) = 32"
    by (simp_all add: session_a_def session_b_def)
  have knows: "knows ?A (simOwnId (test_net ! 1)) session_a (RelayNode.nodeIdentity ?B)" "knows ?B (simOwnId (test_net ! 0)) session_b (RelayNode.nodeIdentity ?A)"
    using pk unfolding own by (simp_all add: knows_def B carrier_node synced_node(2))
  have lack: "lacking ?t2 (queue ?B) (held_list (queue ?A)) = [own_envelope]"
    by (simp add: lacking_def carrier_node(2) B(5) new_queue_def queue_purge_def sweep_def mhas_def)
  let ?s = "summary_of (held_list (queue ?A))" and ?r = "SyncRequest (map (\<lambda>e. messageId (header e)) [own_envelope])"
    and ?x = "SyncTransfer (map (encodeEnvelope ref_lib) [own_envelope])"
  have pl: "inner_plain ?s" "inner_plain ?r" "inner_plain ?x" by (simp_all add: summary_of_def carrier_node(2) e(6))
  note made = sync_packet_made [OF ref_cbor ref_aead_correct ref_hash_sizes]
  obtain e1 where e1: "sync_packet ref_lib ?t1 session_a (RelayNode.nodeIdentity ?A) (draws ?A) ?s = Inr e1"
    using made [OF ends(1) pk(2) pl(1)] unfolding carrier_node(5,6) by blast
  obtain e2 where e2: "sync_packet ref_lib ?t2 session_b (RelayNode.nodeIdentity ?B) (draws ?B) ?r = Inr e2"
    using made [OF ends(2) pk(1) pl(2)] unfolding B(3,4) by blast
  obtain e3 where e3: "sync_packet ref_lib ?t3 session_a (RelayNode.nodeIdentity ?A) (draws ?A + 2) ?x = Inr e3"
    using made [OF ends(1) pk(2) pl(3)] unfolding carrier_node(5,6) by blast
  have le: "length (enc_val (inner_tuple ?s)) \<le> 400" "length (enc_val (inner_tuple ?r)) \<le> 400" "length (enc_val (inner_tuple ?x)) \<le> 400"
    using e(9) by (simp_all add: inner_tuple_def summary_of_def carrier_node(2) e(5,6) enc_bytes_def leb_small zigzag_def)
  have size: "length (encodeEnvelope ref_lib e1) \<le> 1000" "length (encodeEnvelope ref_lib e2) \<le> 1000" "length (encodeEnvelope ref_lib e3) \<le> 1000"
    using ref_packet_small [OF e1 sid(1,3) _ le(1)] ref_packet_small [OF e2 sid(2,4) _ le(2)] ref_packet_small [OF e3 sid(1,3) _ le(3)] pk
    by (simp_all add: carrier_node(6) B(4))
  have hash: "sha256 ref_lib (sealedPayload e1) \<noteq> sha256 ref_lib (sealedPayload e3)"
    using ref_packet_byte [OF e1 sid(1)] ref_packet_byte [OF e3 sid(1)] by (auto simp: carrier_node(5))
  note l1 = test_link(1,3) [OF size(1), folded own] and l2 = test_link(2,4) [OF size(2), folded own] and l3 = test_link(1,3) [OF size(3), folded own]
  have new: "unseen ref_lib ?B i e" "unseen ref_lib ?A i e" for i e by (simp_all add: unseen_def synced_node(3) carrier_node(3) mhas_def)
  have held: "\<forall>e \<in> set (held_list (queue ?A)). listable e \<and> plain_header (header e) \<and> fresh ?t1 e \<and> fresh ?t4 e" "[own_envelope] \<noteq> []"
    "transferable ref_lib [own_envelope]"
    "\<forall>e \<in> set [own_envelope]. packetType (header e) = packet_code Data \<and> destinationHint (header e) = ownDestinationHint ?B"
    using e by (simp_all add: carrier_node(2) transferable_def B(6))
  have t: "1700000040000 \<le> ?t1" "0 \<le> ?t1" "?t1 \<le> ?t2" "?t2 \<le> ?t3" "?t3 \<le> ?t4" "?t4 \<le> ?t1 + 3540000" "?t4 < 2 ^ 53" by simp_all
  obtain A' B' where "sync_round ref_lib test_net (Suc (Suc 0)) 0 1 ?t1 ?t2 ?t3 ?t4 ?A ?B = (A', B')"
    "events B' = events ?B @ map DeliveryListener [own_envelope]"
    using sync_round_delivers [OF ref_cbor ref_cbor_compact ref_cbor_tight ref_aead_correct ref_hash_sizes carrier_node(1) synced_node(1)
        t knows ends(1) held(1) lack held(2-4) e1 e2 e3 new(1,2,1) hash l1 l2 l3, of 0] by blast
  then show ?thesis by (simp add: B(2) numeral_2_eq_2)
qed

end
