(* ===== verification/UdpSocket.thy ===== *)
theory UdpSocket
  imports Transport
begin

text \<open>
  The life of the socket of a \<open>UdpTransport\<close> (\<open>udp.ts\<close>): binding, the promise \<open>ready\<close> waits for, the address and
  the end. The socket of \<open>node:dgram\<close> reports by events; the callbacks of promises run before the next event. What
  its \<open>address()\<close> gives while it is not bound is a parameter (the documentation says it throws). Nothing is sent
  before the socket is bound, so it is never bound implicitly.
\<close>

section \<open>The socket and the promise\<close>

datatype socket_state = Unbound | Binding | Bound string int | SocketClosed
datatype ready_promise = Unsettled | Fulfilled | Rejected js_error

text \<open>How far a call of \<open>close\<close> is: it waits for \<open>readyPromise\<close> or for the socket, or it has returned or thrown.\<close>

datatype close_call = NotCalled | AwaitsReady | AwaitsSocket | Returned | Threw js_error

record UdpSocketOptions = UdpTransportOptions +
  optHost :: "string option"
  optPort :: "jsnum option"

record UdpLife =
  lifeUdp :: UdpTransport
  lifeSocket :: socket_state
  bindCall :: "string \<times> jsnum"
  onErrorOn :: bool
  onListeningOn :: bool
  readyPromise :: ready_promise
  closeCall :: close_call
  uncaught :: "js_error list"

text \<open>A promise is settled once.\<close>

definition settle :: "ready_promise \<Rightarrow> UdpLife \<Rightarrow> UdpLife" where
  "settle p S = (if readyPromise S = Unsettled then S\<lparr>readyPromise := p\<rparr> else S)"

text \<open>\<open>refused\<close>: \<open>socket.bind\<close> throws; the executor of the promise throws, which rejects the promise.\<close>

definition start_binding :: "js_error option \<Rightarrow> UdpSocketOptions \<Rightarrow> UdpTransport \<Rightarrow> UdpLife" where
  "start_binding refused opts U =
     (let S = \<lparr>lifeUdp = U, lifeSocket = Binding,
               bindCall = (case optHost opts of None \<Rightarrow> ''127.0.0.1'' | Some h \<Rightarrow> h, case optPort opts of None \<Rightarrow> Num 0 | Some p \<Rightarrow> p),
               onErrorOn = True, onListeningOn = True, readyPromise = Unsettled, closeCall = NotCalled, uncaught = []\<rparr>
      in case refused of None \<Rightarrow> S | Some e \<Rightarrow> settle (Rejected e) (S\<lparr>lifeSocket := Unbound\<rparr>))"

definition createUdpTransport :: "js_error option \<Rightarrow> string \<Rightarrow> UdpSocketOptions \<Rightarrow> UdpLife res" where
  "createUdpTransport refused own opts =
     rbind (new_udp own (UdpTransportOptions.truncate opts)) (\<lambda>U. Inr (start_binding refused opts U))"

definition ready :: "UdpLife \<Rightarrow> ready_promise" where
  "ready S = readyPromise S"

text \<open>\<open>socket.address()\<close> never gives a string, so the getter throws nothing but what the socket throws.\<close>

definition socket_address :: "(string \<times> int) res \<Rightarrow> UdpLife \<Rightarrow> (string \<times> int) res" where
  "socket_address none S = (case lifeSocket S of Bound h p \<Rightarrow> Inr (h, p) | SocketClosed \<Rightarrow> Inl LibErr | _ \<Rightarrow> none)"

definition udp_address :: "(string \<times> int) res \<Rightarrow> UdpLife \<Rightarrow> (string \<times> int) res" where
  "udp_address none S = rbind (socket_address none S) (\<lambda>(h, p). Inr (h, p))"

section \<open>Events and calls\<close>

text \<open>The part of \<open>close\<close> after the promise is settled; the socket is closed at once and reports it later.\<close>

definition close_settled :: "(string \<times> int) res \<Rightarrow> UdpLife \<Rightarrow> UdpLife" where
  "close_settled none S =
     (if closeCall S = AwaitsReady \<and> readyPromise S \<noteq> Unsettled
      then case socket_address none S of
             Inl e \<Rightarrow> S\<lparr>closeCall := Threw e\<rparr>
           | Inr _ \<Rightarrow> S\<lparr>closeCall := AwaitsSocket, lifeSocket := SocketClosed\<rparr>
      else S)"

definition close_begins :: "(string \<times> int) res \<Rightarrow> UdpLife \<Rightarrow> UdpLife" where
  "close_begins none S =
     (if udpClosed (lifeUdp S) then S
      else close_settled none (S\<lparr>lifeUdp := udp_close (lifeUdp S), closeCall := AwaitsReady\<rparr>))"

definition on_listening :: "UdpLife \<Rightarrow> UdpLife" where
  "on_listening S = (if onListeningOn S then settle Fulfilled (S\<lparr>onListeningOn := False, onErrorOn := False\<rparr>) else S)"

text \<open>An \<open>error\<close> event without a listener is an uncaught exception.\<close>

definition on_error :: "js_error \<Rightarrow> UdpLife \<Rightarrow> UdpLife" where
  "on_error e S =
     (if onErrorOn S then settle (Rejected e) (S\<lparr>onErrorOn := False, onListeningOn := False\<rparr>)
      else S\<lparr>uncaught := uncaught S @ [e]\<rparr>)"

datatype life_event = Listening string int | SocketError js_error | CloseCalled | SocketEnded | Use udp_op

fun life_step :: "(string \<times> int) res \<Rightarrow> life_event \<Rightarrow> UdpLife \<Rightarrow> UdpLife" where
  "life_step none (Listening h p) S = close_settled none (on_listening (S\<lparr>lifeSocket := Bound h p\<rparr>))"
| "life_step none (SocketError e) S = close_settled none
     (on_error e (if lifeSocket S = Binding then S\<lparr>lifeSocket := Unbound\<rparr> else S))"
| "life_step none CloseCalled S = close_begins none S"
| "life_step none SocketEnded S = (if closeCall S = AwaitsSocket then S\<lparr>closeCall := Returned\<rparr> else S)"
| "life_step none (Use x) S = S\<lparr>lifeUdp := udp_step x (lifeUdp S)\<rparr>"

text \<open>What can happen: a socket is bound while it is binding, fails while it exists, and is used when it is bound.\<close>

fun possible :: "life_event \<Rightarrow> UdpLife \<Rightarrow> bool" where
  "possible (Listening h p) S \<longleftrightarrow> lifeSocket S = Binding"
| "possible (SocketError e) S \<longleftrightarrow> lifeSocket S \<noteq> SocketClosed"
| "possible CloseCalled S \<longleftrightarrow> True"
| "possible SocketEnded S \<longleftrightarrow> lifeSocket S = SocketClosed"
| "possible (Use x) S \<longleftrightarrow> x \<noteq> Close \<and> (\<forall>t n f. x = Send t n f \<longrightarrow> readyPromise S = Fulfilled)"

text \<open>The histories of a transport, the last event first.\<close>

inductive life_history :: "(string \<times> int) res \<Rightarrow> UdpLife \<Rightarrow> life_event list \<Rightarrow> UdpLife \<Rightarrow> bool" for none S0 where
  created: "life_history none S0 [] S0"
| step: "life_history none S0 es S \<Longrightarrow> possible e S \<Longrightarrow> life_history none S0 (e # es) (life_step none e S)"

inductive_cases life_history_elims: "life_history none S0 (e # es) S"

section \<open>The history decides\<close>

text \<open>What a history says, read in the order of its events: how the binding ended, how far \<open>close\<close> is, and
  the errors nobody heard.\<close>

fun bind_event :: "life_event \<Rightarrow> bool" where
  "bind_event (Listening h p) \<longleftrightarrow> True"
| "bind_event (SocketError e) \<longleftrightarrow> True"
| "bind_event _ \<longleftrightarrow> False"

definition outcome :: "life_event list \<Rightarrow> life_event option" where
  "outcome es = find bind_event es"

definition promised :: "life_event list \<Rightarrow> ready_promise" where
  "promised es = (case outcome es of None \<Rightarrow> Unsettled | Some (SocketError e) \<Rightarrow> Rejected e | Some _ \<Rightarrow> Fulfilled)"

definition closing :: "(string \<times> int) res \<Rightarrow> life_event list \<Rightarrow> close_call" where
  "closing none es =
     (if CloseCalled \<notin> set es then NotCalled
      else case (outcome es, none) of
             (None, _) \<Rightarrow> AwaitsReady
           | (Some (SocketError e), Inl x) \<Rightarrow> Threw x
           | _ \<Rightarrow> if SocketEnded \<in> set es then Returned else AwaitsSocket)"

definition unheard :: "life_event list \<Rightarrow> js_error list" where
  "unheard es = concat (map (\<lambda>e. case e of SocketError x \<Rightarrow> [x] | _ \<Rightarrow> []) (tl (filter bind_event es)))"

lemma outcome_snoc: "outcome (es @ [e]) = (case outcome es of None \<Rightarrow> if bind_event e then Some e else None | Some x \<Rightarrow> Some x)"
  unfolding outcome_def by (induction es) simp_all

lemma outcome_None: "outcome es = None \<longleftrightarrow> filter bind_event es = []"
  by (auto simp: outcome_def find_None_iff filter_empty_conv)

lemma unheard_none: "outcome es = None \<Longrightarrow> unheard es = []"
  by (simp add: unheard_def outcome_None)

lemma outcome_cases:
  obtains "outcome es = None" | h p where "outcome es = Some (Listening h p)" | e where "outcome es = Some (SocketError e)"
proof (cases "outcome es")
  case (Some x)
  then have "bind_event x" by (auto simp: outcome_def find_Some_iff)
  with Some that(2,3) show thesis by (cases x) auto
qed (rule that)

lemma unheard_snoc:
  "unheard (es @ [e]) = (if outcome es = None then [] else unheard es @ (case e of SocketError x \<Rightarrow> [x] | _ \<Rightarrow> []))"
proof (cases "filter bind_event es")
  case Nil
  then show ?thesis using outcome_None [of es] by (simp add: unheard_def)
next
  case (Cons x xs)
  then have "outcome es \<noteq> None" unfolding outcome_None by simp
  then obtain y where "outcome es = Some y" by blast
  with Cons show ?thesis by (cases e) (simp_all add: unheard_def)
qed

lemma closed_by_close: "x \<noteq> Close \<Longrightarrow> udpClosed (udp_step x U) = udpClosed U"
  by (cases x) (auto simp: addPeer_def removePeer_def udp_onReceive_def udp_send_def split: option.splits)

text \<open>The socket itself, as the history has it.\<close>

definition socket_of :: "(string \<times> int) res \<Rightarrow> life_event list \<Rightarrow> socket_state" where
  "socket_of none es = (case outcome es of
     None \<Rightarrow> Binding
   | Some (Listening h p) \<Rightarrow> if CloseCalled \<in> set es then SocketClosed else Bound h p
   | Some _ \<Rightarrow> if closing none es \<in> {AwaitsSocket, Returned} then SocketClosed else Unbound)"

definition follows :: "(string \<times> int) res \<Rightarrow> life_event list \<Rightarrow> UdpLife \<Rightarrow> bool" where
  "follows none es S \<longleftrightarrow> readyPromise S = promised es \<and> closeCall S = closing none es \<and> uncaught S = unheard es \<and>
     lifeSocket S = socket_of none es \<and> udpClosed (lifeUdp S) = (CloseCalled \<in> set es) \<and>
     onErrorOn S = (outcome es = None) \<and> onListeningOn S = (outcome es = None) \<and>
     (SocketEnded \<in> set es \<longrightarrow> CloseCalled \<in> set es \<and> outcome es \<noteq> None)"

lemmas reading = promised_def closing_def socket_of_def outcome_snoc unheard_snoc unheard_none

lemma follows_created:
  assumes "createUdpTransport None own opts = Inr S"
  shows "follows none [] S"
proof -
  obtain U where U: "new_udp own (UdpTransportOptions.truncate opts) = Inr U"
    using assms by (cases "new_udp own (UdpTransportOptions.truncate opts)") (auto simp: createUdpTransport_def rbind_def)
  then have "\<not> udpClosed U" by (auto simp: new_udp_def Let_def split: if_splits)
  then show ?thesis using assms U by (auto simp: createUdpTransport_def start_binding_def rbind_def Let_def follows_def reading outcome_def unheard_def)
qed

lemma follows_step:
  assumes "follows none es S" "possible e S"
  shows "follows none (es @ [e]) (life_step none e S)"
proof (cases e)
  case (Listening h p)
  with assms show ?thesis
    by (cases es rule: outcome_cases; cases none)
      (auto simp: follows_def reading on_listening_def settle_def close_settled_def socket_address_def split: if_splits)
next
  case (SocketError x)
  with assms show ?thesis
    by (cases es rule: outcome_cases; cases none)
      (auto simp: follows_def reading on_error_def settle_def close_settled_def socket_address_def split: if_splits)
next
  case CloseCalled
  with assms show ?thesis
    by (cases es rule: outcome_cases; cases none)
      (auto simp: follows_def reading close_begins_def udp_close_def close_settled_def socket_address_def split: if_splits)
next
  case SocketEnded
  with assms show ?thesis
    by (cases es rule: outcome_cases; cases none) (auto simp: follows_def reading split: if_splits)
next
  case (Use x)
  with assms show ?thesis
    by (cases es rule: outcome_cases; cases none) (auto simp: follows_def reading closed_by_close split: if_splits)
qed

lemma follows_history:
  assumes "createUdpTransport None own opts = Inr S0" "life_history none S0 es S"
  shows "follows none (rev es) S"
  using assms(2) by (induction rule: life_history.induct) (simp_all add: follows_created [OF assms(1)] follows_step)

section \<open>Properties\<close>

text \<open>C19: The life of a UDP transport. Whatever the socket reports and whatever is called, and in whatever order, what
  \<open>ready\<close> waits for, how far \<open>close\<close> is, the state of the socket and the errors nobody heard are what the order of events
  says: \<open>ready\<close> settles by the first event of the binding and never changes; \<open>close\<close> waits for it and then for the end of the
  socket; an error after the binding has ended is an uncaught exception; and once \<open>close\<close> was called nothing is sent.\<close>

theorem udp_socket_life:
  assumes "createUdpTransport None own opts = Inr S0" "life_history none S0 es S"
  shows "ready S = promised (rev es) \<and> closeCall S = closing none (rev es) \<and> lifeSocket S = socket_of none (rev es) \<and>
    uncaught S = unheard (rev es) \<and> (CloseCalled \<in> set es \<longrightarrow> udp_send throws n f (lifeUdp S) = (False, lifeUdp S))"
  using follows_history [OF assms] by (simp add: follows_def ready_def udp_send_def)

theorem udp_socket_life_witness:
  "\<exists>S0 S. createUdpTransport None ''a'' \<lparr>optUnit = None, optReliability = None, optHost = None, optPort = Some (Num 4000)\<rparr> = Inr S0 \<and>
    life_history (Inl LibErr) S0 [SocketEnded, CloseCalled, SocketError LibErr, Listening ''127.0.0.1'' 4000] S \<and>
    ready S = Fulfilled \<and> closeCall S = Returned \<and> uncaught S = [LibErr]"
proof -
  let ?opts = "\<lparr>optUnit = None, optReliability = None, optHost = None, optPort = Some (Num 4000)\<rparr>"
  obtain S0 where S0: "createUdpTransport None ''a'' ?opts = Inr S0" "lifeSocket S0 = Binding" "closeCall S0 = NotCalled"
    "onErrorOn S0" "onListeningOn S0" "\<not> udpClosed (lifeUdp S0)" "readyPromise S0 = Unsettled"
    by (simp add: createUdpTransport_def start_binding_def rbind_def new_udp_def DEFAULT_MTU_def DEFAULT_RELIABILITY_def UdpTransportOptions.truncate_def
        is_integer_def is_finite_def num_trunc_def Let_def)
  let ?run = "\<lambda>S. life_step (Inl LibErr) SocketEnded (life_step (Inl LibErr) CloseCalled
    (life_step (Inl LibErr) (SocketError LibErr) (life_step (Inl LibErr) (Listening ''127.0.0.1'' 4000) S)))"
  have "life_history (Inl LibErr) S0 [SocketEnded, CloseCalled, SocketError LibErr, Listening ''127.0.0.1'' 4000] (?run S0)"
    using S0(2-7) by (intro life_history.intros)
      (simp_all add: on_listening_def settle_def close_settled_def on_error_def close_begins_def udp_close_def socket_address_def)
  from udp_socket_life [OF S0(1) this, of False "''b''" "[]"] S0(1) this show ?thesis
    by (intro exI [of _ S0] exI [of _ "?run S0"]) (simp add: promised_def closing_def outcome_def unheard_def)
qed

text \<open>Where the socket throws for its address while it is not bound, closing a transport whose binding failed throws,
  and the socket stays open.\<close>

lemma close_after_failed_binding:
  assumes "createUdpTransport None own opts = Inr S0" "life_history (Inl x) S0 es S"
    and "outcome (rev es) = Some (SocketError e)" "CloseCalled \<in> set es"
  shows "closeCall S = Threw x \<and> lifeSocket S = Unbound"
  using follows_history [OF assms(1,2)] assms(3,4) by (auto simp: follows_def closing_def socket_of_def)

end
