(* ===== verification/Collector.thy ===== *)
theory Collector
  imports Prelude
begin

text \<open>
  The contract shared by the program's reassemblers (files in \<open>src/message/file.ts\<close>, link frames in
  \<open>mobile/src/frameChannel.ts\<close>): numbered parts are added one by one, in any order and with
  repetitions; the whole appears with the part that completes the set. The locale derives from the
  behaviour of a single addition what a whole sequence of additions gives.
\<close>

fun feed_parts :: "(nat \<Rightarrow> 's \<Rightarrow> 'r option \<times> 's) \<Rightarrow> nat list \<Rightarrow> 's \<Rightarrow> 'r option list \<times> 's" where
  "feed_parts add [] s = ([], s)"
| "feed_parts add (i # is) s = (case add i s of (r, s1) \<Rightarrow> (case feed_parts add is s1 of (rs, s2) \<Rightarrow> (r # rs, s2)))"

lemma feed_parts_append:
  "feed_parts add (is @ js) s = (case feed_parts add is s of (rs, s1) \<Rightarrow>
     (case feed_parts add js s1 of (qs, s2) \<Rightarrow> (rs @ qs, s2)))"
  by (induction "is" arbitrary: s) (auto split: prod.splits)

text \<open>
  \<open>c\<close> is what is being sent, \<open>count c\<close> the number of its parts; \<open>holds c A s\<close> says that \<open>s\<close> has exactly
  the parts numbered in \<open>A\<close>, \<open>finished c s\<close> that nothing of \<open>c\<close> is left in \<open>s\<close>.
\<close>

locale collector =
  fixes add :: "'c \<Rightarrow> nat \<Rightarrow> 's \<Rightarrow> 'r option \<times> 's"
    and count :: "'c \<Rightarrow> nat"
    and whole :: "'c \<Rightarrow> 'r"
    and holds :: "'c \<Rightarrow> nat set \<Rightarrow> 's \<Rightarrow> bool"
    and finished :: "'c \<Rightarrow> 's \<Rightarrow> bool"
  assumes add_more: "holds c A s \<Longrightarrow> A \<subseteq> {..<count c} \<Longrightarrow> i < count c \<Longrightarrow> insert i A \<noteq> {..<count c} \<Longrightarrow>
      \<exists>s'. add c i s = (None, s') \<and> holds c (insert i A) s'"
    and add_last: "holds c A s \<Longrightarrow> A \<subset> {..<count c} \<Longrightarrow> i < count c \<Longrightarrow> insert i A = {..<count c} \<Longrightarrow>
      \<exists>s'. add c i s = (Some (whole c), s') \<and> finished c s'"
begin

lemma collect_more:
  assumes "holds c A s" "A \<union> set is \<subset> {..<count c}"
  shows "\<exists>s'. feed_parts (add c) is s = (replicate (length is) None, s') \<and> holds c (A \<union> set is) s'"
  using assms
proof (induction "is" arbitrary: A s)
  case (Cons i "is")
  then obtain s1 where s1: "add c i s = (None, s1)" "holds c (insert i A) s1"
    using add_more [of c A s i] by auto
  with Cons.IH [of "insert i A" s1] Cons.prems show ?case by auto
qed simp

lemma collect_all:
  assumes "holds c {} s" "set is \<subset> {..<count c}" "set (is @ [i]) = {..<count c}"
  shows "\<exists>s'. feed_parts (add c) (is @ [i]) s = (replicate (length is) None @ [Some (whole c)], s') \<and> finished c s'"
proof -
  obtain s1 where s1: "feed_parts (add c) is s = (replicate (length is) None, s1)" "holds c (set is) s1"
    using collect_more [OF assms(1), of "is"] assms(2) by auto
  have "i < count c" "insert i (set is) = {..<count c}" using assms(3) by auto
  then obtain s2 where "add c i s1 = (Some (whole c), s2)" "finished c s2"
    using add_last [OF s1(2) assms(2)] by blast
  with s1(1) show ?thesis by (simp add: feed_parts_append)
qed

end

text \<open>What a \<open>Map\<close> from part numbers holds, for the reassemblers that keep one.\<close>

definition numbered :: "(nat \<Rightarrow> 'k) \<Rightarrow> 'a list \<Rightarrow> nat set \<Rightarrow> ('k, 'a) jsmap \<Rightarrow> bool" where
  "numbered key parts A m \<longleftrightarrow> wf_map m \<and> fst ` set m = key ` A \<and> (\<forall>i \<in> A. mget m (key i) = Some (parts ! i))"

lemma numbered_empty [simp]: "numbered key parts {} []"
  by (simp add: numbered_def)

lemma fst_mset_at: "fst ` set (mset_at k v m) = insert k (fst ` set m)"
  by (induction m) auto

lemma numbered_set:
  assumes "numbered key parts A m" "inj key"
  shows "numbered key parts (insert i A) (mset_at (key i) (parts ! i) m)"
  using assms by (auto simp: numbered_def fst_mset_at inj_eq)

lemma numbered_length: "numbered key parts A m \<Longrightarrow> inj key \<Longrightarrow> length m = card A"
  unfolding numbered_def wf_map_def by (metis card_image distinct_card inj_on_subset length_map list.set_map subset_UNIV)

lemma numbered_gather: "numbered key parts {..<length parts} m \<Longrightarrow> gather m key (length parts) = Some parts"
  by (rule gather_slices) (simp add: numbered_def)

end
