(* ===== verification/Message.thy ===== *)
theory Message
  imports Handshake Ratchet Collector
begin

text \<open>
  The application messages that ride inside the ratchet: \<open>src/message/message.ts\<close> (the type tag),
  \<open>src/message/file.ts\<close> (files as independently encrypted chunks) and \<open>src/message/voice.ts\<close> (the
  jitter buffer). What a decoder reads out of a peer's tuple is any JavaScript value: the indices, counts
  and sequence numbers of the model are \<open>jsval\<close>s and are compared and converted as the code does.
\<close>

section \<open>\<open>src/message/message.ts\<close>\<close>

datatype MessageType = TextMessage | FileChunkMessage | VoiceFrameMessage

definition message_code :: "MessageType \<Rightarrow> byte" where
  "message_code t = (case t of TextMessage \<Rightarrow> 0 | FileChunkMessage \<Rightarrow> 1 | VoiceFrameMessage \<Rightarrow> 2)"

text \<open>The type tag of an empty array is \<open>undefined\<close>.\<close>

record DecodedApplicationMessage =
  messageTag :: "byte option"
  messagePayload :: bytes

definition wrapApplicationMessage :: "MessageType \<Rightarrow> bytes \<Rightarrow> bytes" where
  "wrapApplicationMessage t payload =
     (let out = (replicate (1 + length payload) 0)[0 := message_code t] in set_at out 1 payload)"

definition decodeApplicationMessage :: "bytes \<Rightarrow> DecodedApplicationMessage" where
  "decodeApplicationMessage data =
     \<lparr>messageTag = (if data = [] then None else Some (data ! 0)), messagePayload = slice 1 (length data) data\<rparr>"

definition tag_string :: "byte option \<Rightarrow> string" where
  "tag_string tag = (case tag of None \<Rightarrow> ''undefined'' | Some b \<Rightarrow> nat_string (unat b))"

text \<open>The common start of the three decoders: the tag is checked, the payload goes on.\<close>

definition expect_type :: "MessageType \<Rightarrow> string \<Rightarrow> bytes \<Rightarrow> bytes res" where
  "expect_type t what data =
     (let m = decodeApplicationMessage data
      in if messageTag m \<noteq> Some (message_code t)
         then Inl (Err (''Expected a '' @ what @ '' message, got type '' @ tag_string (messageTag m)))
         else Inr (messagePayload m))"

definition encodeTextMessage :: "string \<Rightarrow> bytes" where
  "encodeTextMessage txt = wrapApplicationMessage TextMessage (text_encode txt)"

definition decodeTextMessage :: "bytes \<Rightarrow> string res" where
  "decodeTextMessage data = rbind (expect_type TextMessage ''text'' data) (\<lambda>payload. Inr (text_decode payload))"

section \<open>\<open>src/message/file.ts\<close>\<close>

definition DEFAULT_CHUNK_DATA_SIZE :: nat where
  "DEFAULT_CHUNK_DATA_SIZE = 32000"

record FileChunk =
  fileId :: bytes
  chunkIndex :: jsval
  chunkCount :: jsval
  chunkData :: bytes

definition encodeFileChunkMessage :: "lib \<Rightarrow> FileChunk \<Rightarrow> bytes" where
  "encodeFileChunkMessage L c = wrapApplicationMessage FileChunkMessage
     (cbor_encode L (JArr [JBytes (fileId c), chunkIndex c, chunkCount c, JBytes (chunkData c)]))"

definition decodeFileChunkMessage :: "lib \<Rightarrow> bytes \<Rightarrow> FileChunk res" where
  "decodeFileChunkMessage L data =
     rbind (expect_type FileChunkMessage ''file chunk'' data) (\<lambda>payload.
     rbind (of_lib (cbor_decode L payload)) (\<lambda>tuple.
     rbind (rbind (js_index tuple 0) uint8_from) (\<lambda>fid.
     rbind (js_index tuple 1) (\<lambda>i.
     rbind (js_index tuple 2) (\<lambda>n.
     rbind (rbind (js_index tuple 3) uint8_from) (\<lambda>d.
       Inr \<lparr>fileId = fid, chunkIndex = i, chunkCount = n, chunkData = d\<rparr>))))))"

text \<open>
  \<open>i\<close> is the index of the random draw. A chunk size of zero makes the quotient infinite, so the loop does
  not end (\<open>None\<close>), or for an empty file not a number, so it does not start.
\<close>

definition splitFileIntoChunks :: "lib \<Rightarrow> nat \<Rightarrow> bytes \<Rightarrow> nat \<Rightarrow> FileChunk list option" where
  "splitFileIntoChunks L i fileBytes chunkDataSize =
     (let fid = random_bytes L i 16; count = max 1 (ceil_div (length fileBytes) chunkDataSize)
      in if chunkDataSize = 0 then (if fileBytes = [] then Some [] else None)
         else Some (map (\<lambda>k. \<lparr>fileId = fid, chunkIndex = JNum (Num (int k)), chunkCount = JNum (Num (int count)),
                chunkData = slice (k * chunkDataSize) ((k + 1) * chunkDataSize) fileBytes\<rparr>) [0..<count]))"

record PendingFile =
  fileChunkCount :: jsval
  fileParts :: "(jsval, bytes) jsmap"

record FileReassembler =
  pendingFiles :: "(string, PendingFile) jsmap"

text \<open>
  \<open>Map.set\<close> with a decoded value as key: primitive values are compared by value, an object or array is a
  new key every time it is decoded.
\<close>

definition same_key :: "jsval \<Rightarrow> bool" where
  "same_key v = (case v of JBytes _ \<Rightarrow> False | JArr _ \<Rightarrow> False | JObj _ \<Rightarrow> False | _ \<Rightarrow> True)"

definition jsval_set :: "jsval \<Rightarrow> 'v \<Rightarrow> (jsval, 'v) jsmap \<Rightarrow> (jsval, 'v) jsmap" where
  "jsval_set k v m = (if same_key k then mset_at k v m else m @ [(k, v)])"

abbreviation num_key :: "nat \<Rightarrow> jsval" where
  "num_key i \<equiv> JNum (Num (int i))"

definition addChunk :: "FileChunk \<Rightarrow> FileReassembler \<Rightarrow> bytes option \<times> FileReassembler" where
  "addChunk c R =
     (let key = bytesToHex (fileId c);
          entry = (case mget (pendingFiles R) key of
              None \<Rightarrow> \<lparr>fileChunkCount = chunkCount c, fileParts = []\<rparr> | Some entry \<Rightarrow> entry);
          entry1 = entry\<lparr>fileParts := jsval_set (chunkIndex c) (chunkData c) (fileParts entry)\<rparr>;
          R1 = R\<lparr>pendingFiles := mset_at key entry1 (pendingFiles R)\<rparr>
      in if Num (int (length (fileParts entry1))) < to_number (fileChunkCount entry1) then (None, R1)
         else case gather (fileParts entry1) num_key (loop_bound (to_number (fileChunkCount entry1))) of
                None \<Rightarrow> (None, R1)
              | Some parts \<Rightarrow> (Some (concatBytes parts), R1\<lparr>pendingFiles := mdel key (pendingFiles R1)\<rparr>))"

definition pendingFileCount :: "FileReassembler \<Rightarrow> nat" where
  "pendingFileCount R = length (pendingFiles R)"

section \<open>\<open>src/message/voice.ts\<close>\<close>

record VoiceFrame =
  callId :: bytes
  sequenceNumber :: jsval
  frameTimestamp :: jsval
  audioData :: bytes

definition startCall :: "lib \<Rightarrow> nat \<Rightarrow> bytes" where
  "startCall L i = random_bytes L i 16"

definition encodeVoiceFrameMessage :: "lib \<Rightarrow> VoiceFrame \<Rightarrow> bytes" where
  "encodeVoiceFrameMessage L f = wrapApplicationMessage VoiceFrameMessage
     (cbor_encode L (JArr [JBytes (callId f), sequenceNumber f, frameTimestamp f, JBytes (audioData f)]))"

definition decodeVoiceFrameMessage :: "lib \<Rightarrow> bytes \<Rightarrow> VoiceFrame res" where
  "decodeVoiceFrameMessage L data =
     rbind (expect_type VoiceFrameMessage ''voice frame'' data) (\<lambda>payload.
     rbind (of_lib (cbor_decode L payload)) (\<lambda>tuple.
     rbind (rbind (js_index tuple 0) uint8_from) (\<lambda>cid.
     rbind (js_index tuple 1) (\<lambda>n.
     rbind (js_index tuple 2) (\<lambda>t.
     rbind (rbind (js_index tuple 3) uint8_from) (\<lambda>d.
       Inr \<lparr>callId = cid, sequenceNumber = n, frameTimestamp = t, audioData = d\<rparr>))))))"

record VoiceCall =
  voiceFrames :: "(jsval, VoiceFrame) jsmap"
  nextSequenceNumber :: nat

record VoiceJitterBuffer =
  calls :: "(string, VoiceCall) jsmap"

definition addFrame :: "VoiceFrame \<Rightarrow> VoiceJitterBuffer \<Rightarrow> VoiceJitterBuffer" where
  "addFrame f B =
     (let key = bytesToHex (callId f);
          entry = (case mget (calls B) key of
              None \<Rightarrow> \<lparr>voiceFrames = [], nextSequenceNumber = 0\<rparr> | Some entry \<Rightarrow> entry)
      in B\<lparr>calls := mset_at key
          (entry\<lparr>voiceFrames := jsval_set (sequenceNumber f) f (voiceFrames entry)\<rparr>) (calls B)\<rparr>)"

definition pullNextFrame :: "bytes \<Rightarrow> bool \<Rightarrow> VoiceJitterBuffer \<Rightarrow> VoiceFrame option \<times> VoiceJitterBuffer" where
  "pullNextFrame cid skipMissing B =
     (let key = bytesToHex cid
      in case mget (calls B) key of
           None \<Rightarrow> (None, B)
         | Some entry \<Rightarrow>
             (let n = nextSequenceNumber entry
              in case mget (voiceFrames entry) (num_key n) of
                   Some f \<Rightarrow> (Some f, B\<lparr>calls := mset_at key
                     (entry\<lparr>voiceFrames := mdel (num_key n) (voiceFrames entry), nextSequenceNumber := n + 1\<rparr>) (calls B)\<rparr>)
                 | None \<Rightarrow> (None, if skipMissing
                     then B\<lparr>calls := mset_at key (entry\<lparr>nextSequenceNumber := n + 1\<rparr>) (calls B)\<rparr> else B)))"

definition bufferedFrameCount :: "bytes \<Rightarrow> VoiceJitterBuffer \<Rightarrow> nat" where
  "bufferedFrameCount cid B =
     (case mget (calls B) (bytesToHex cid) of None \<Rightarrow> 0 | Some entry \<Rightarrow> length (voiceFrames entry))"

definition endCall :: "bytes \<Rightarrow> VoiceJitterBuffer \<Rightarrow> VoiceJitterBuffer" where
  "endCall cid B = B\<lparr>calls := mdel (bytesToHex cid) (calls B)\<rparr>"

section \<open>Messages on the wire\<close>

lemma wrap_eq [simp]: "wrapApplicationMessage t payload = message_code t # payload"
  by (simp add: wrapApplicationMessage_def)

lemma expect_own [simp]: "expect_type t what (message_code t # payload) = Inr payload"
  by (simp add: expect_type_def decodeApplicationMessage_def slice_def)

lemma message_code_eq_iff [simp]: "message_code s = message_code t \<longleftrightarrow> s = t"
  by (cases s; cases t) (simp_all add: message_code_def)

lemma decode_text [simp]: "decodeTextMessage (encodeTextMessage txt) = Inr txt"
  by (simp add: decodeTextMessage_def encodeTextMessage_def)

lemma decode_file_chunk:
  assumes "cbor_roundtrips L" "cbor_plain (chunkIndex c)" "cbor_plain (chunkCount c)"
  shows "decodeFileChunkMessage L (encodeFileChunkMessage L c) = Inr c"
proof -
  let ?t = "JArr [JBytes (fileId c), chunkIndex c, chunkCount c, JBytes (chunkData c)]"
  have "cbor_decode L (cbor_encode L ?t) = Some ?t" using assms by (intro cbor_roundtripsD) simp_all
  then show ?thesis by (simp add: decodeFileChunkMessage_def encodeFileChunkMessage_def numeral_2_eq_2 numeral_3_eq_3)
qed

lemma decode_voice_frame:
  assumes "cbor_roundtrips L" "cbor_plain (sequenceNumber f)" "cbor_plain (frameTimestamp f)"
  shows "decodeVoiceFrameMessage L (encodeVoiceFrameMessage L f) = Inr f"
proof -
  let ?t = "JArr [JBytes (callId f), sequenceNumber f, frameTimestamp f, JBytes (audioData f)]"
  have "cbor_decode L (cbor_encode L ?t) = Some ?t" using assms by (intro cbor_roundtripsD) simp_all
  then show ?thesis by (simp add: decodeVoiceFrameMessage_def encodeVoiceFrameMessage_def numeral_2_eq_2 numeral_3_eq_3)
qed

section \<open>Reassembly of a file\<close>

definition part_chunk :: "bytes \<Rightarrow> bytes list \<Rightarrow> nat \<Rightarrow> FileChunk" where
  "part_chunk fid parts i = \<lparr>fileId = fid, chunkIndex = num_key i, chunkCount = num_key (length parts), chunkData = parts ! i\<rparr>"

text \<open>\<open>S\<close> is \<open>R\<close> with the parts numbered in \<open>A\<close> of one more file.\<close>

fun file_holds :: "FileReassembler \<times> bytes \<times> bytes list \<Rightarrow> nat set \<Rightarrow> FileReassembler \<Rightarrow> bool" where
  "file_holds (R, fid, parts) A S \<longleftrightarrow> \<not> mhas (pendingFiles R) (bytesToHex fid) \<and>
     (A = {} \<and> S = R \<or> (\<exists>m. A \<noteq> {} \<and> numbered num_key parts A m \<and>
        S = R\<lparr>pendingFiles := pendingFiles R @ [(bytesToHex fid, \<lparr>fileChunkCount = num_key (length parts), fileParts = m\<rparr>)]\<rparr>))"

lemma inj_num_key: "inj num_key"
  by (rule injI) simp

lemma jsval_set_num [simp]: "jsval_set (num_key i) v m = mset_at (num_key i) v m"
  by (simp add: jsval_set_def same_key_def)

lemma loop_bound_num [simp]: "loop_bound (Num (int n)) = n"
  by (simp add: loop_bound_def)

lemma add_part_chunk:
  assumes "file_holds (R, fid, parts) A S"
  obtains m where "numbered num_key parts (insert i A) m"
    "addChunk (part_chunk fid parts i) S =
      (if length m < length parts \<or> gather m num_key (length parts) = None
       then (None, R\<lparr>pendingFiles := pendingFiles R @ [(bytesToHex fid, \<lparr>fileChunkCount = num_key (length parts), fileParts = m\<rparr>)]\<rparr>)
       else (map_option concat (gather m num_key (length parts)), R))"
proof -
  let ?key = "bytesToHex fid"
  have new: "\<not> mhas (pendingFiles R) ?key" using assms by simp
  then have none: "mget (pendingFiles R) ?key = None" by (simp add: mhas_def)
  from assms consider "A = {}" "S = R" | m0 where "numbered num_key parts A m0"
    "S = R\<lparr>pendingFiles := pendingFiles R @ [(?key, \<lparr>fileChunkCount = num_key (length parts), fileParts = m0\<rparr>)]\<rparr>"
    by auto
  then show thesis
  proof cases
    case 1
    show thesis
      by (rule that [of "[(num_key i, parts ! i)]"])
        (use numbered_set [OF numbered_empty inj_num_key, of parts i] 1 none new in
          \<open>auto simp: addChunk_def part_chunk_def Let_def mset_at_append_new mdel_append_last split: option.splits\<close>)
  next
    case 2
    show thesis
      by (rule that [OF numbered_set [OF 2(1) inj_num_key, of i]])
        (use 2(2) none new in \<open>auto simp: addChunk_def part_chunk_def Let_def map_add_def mset_at_append_last mdel_append_last
          split: option.splits\<close>)
  qed
qed

interpretation file_parts: collector "\<lambda>(R, fid, parts) i. addChunk (part_chunk fid parts i)" "\<lambda>(R, fid, parts). length parts"
  "\<lambda>(R, fid, parts). concat parts" file_holds "\<lambda>(R, fid, parts) S. S = R"
proof (unfold_locales, goal_cases)
  case (1 c A S i)
  obtain R fid parts where c: "c = (R, fid, parts)" by (cases c) auto
  obtain m where m: "numbered num_key parts (insert i A) m"
    "addChunk (part_chunk fid parts i) S =
      (if length m < length parts \<or> gather m num_key (length parts) = None
       then (None, R\<lparr>pendingFiles := pendingFiles R @ [(bytesToHex fid, \<lparr>fileChunkCount = num_key (length parts), fileParts = m\<rparr>)]\<rparr>)
       else (map_option concat (gather m num_key (length parts)), R))"
    using add_part_chunk [OF 1(1) [unfolded c], of i] .
  have "insert i A \<subset> {..<length parts}" using 1 c by auto
  then have "length m < length parts"
    using numbered_length [OF m(1) inj_num_key] psubset_card_mono [of "{..<length parts}"] by simp
  then show ?case using m 1(1) c by auto
next
  case (2 c A S i)
  obtain R fid parts where c: "c = (R, fid, parts)" by (cases c) auto
  obtain m where m: "numbered num_key parts (insert i A) m"
    "addChunk (part_chunk fid parts i) S =
      (if length m < length parts \<or> gather m num_key (length parts) = None
       then (None, R\<lparr>pendingFiles := pendingFiles R @ [(bytesToHex fid, \<lparr>fileChunkCount = num_key (length parts), fileParts = m\<rparr>)]\<rparr>)
       else (map_option concat (gather m num_key (length parts)), R))"
    using add_part_chunk [OF 2(1) [unfolded c], of i] .
  have all: "insert i A = {..<length parts}" using 2(4) c by simp
  then show ?case
    using m numbered_length [OF m(1) inj_num_key] numbered_gather [of num_key parts m] c by simp
qed

text \<open>The receiving side: each decrypted message is decoded and handed to the reassembler.\<close>

fun receive_chunks :: "lib \<Rightarrow> bytes res list \<Rightarrow> FileReassembler \<Rightarrow> bytes option list \<times> FileReassembler" where
  "receive_chunks L [] R = ([], R)"
| "receive_chunks L (r # rs) R = (case rbind r (decodeFileChunkMessage L) of
      Inl e \<Rightarrow> (case receive_chunks L rs R of (qs, R2) \<Rightarrow> (None # qs, R2))
    | Inr c \<Rightarrow> (case addChunk c R of (q, R1) \<Rightarrow> (case receive_chunks L rs R1 of (qs, R2) \<Rightarrow> (q # qs, R2))))"

lemma receive_parts:
  assumes "\<And>i. i \<in> set is \<Longrightarrow> decodeFileChunkMessage L (ms i) = Inr (part_chunk fid parts i)"
  shows "receive_chunks L (map (\<lambda>i. Inr (ms i)) is) R = feed_parts (\<lambda>i. addChunk (part_chunk fid parts i)) is R"
  using assms by (induction "is" arbitrary: R) auto

lemma split_parts:
  assumes "splitFileIntoChunks L k bytes sz = Some chunks" "0 < sz"
  shows "\<exists>parts. chunks = map (part_chunk (random_bytes L k 16) parts) [0..<length parts] \<and> concat parts = bytes \<and> parts \<noteq> []"
proof -
  let ?n = "max 1 (ceil_div (length bytes) sz)"
  have "length bytes \<le> sz * ?n"
    using ceil_div_bounds(1) [OF assms(2), of "length bytes"] by (metis max.cobounded2 mult_le_mono2 order_trans)
  then have "concat (slices sz ?n bytes) = bytes" by (rule concat_slices)
  moreover have "chunks = map (part_chunk (random_bytes L k 16) (slices sz ?n bytes)) [0..<?n]"
    using assms by (auto simp: splitFileIntoChunks_def Let_def part_chunk_def slices_def)
  moreover have "slices sz ?n bytes \<noteq> []" unfolding length_greater_0_conv [symmetric] length_slices by simp
  ultimately show ?thesis by (metis length_slices)
qed

section \<open>The player that forgets nothing\<close>

text \<open>
  What the jitter buffer promises, per call: every frame heard of is remembered, newest first; a pull
  looks up the frame at the playout position, which moves past it, and past a missing one only on demand.
\<close>

record Playout =
  heard :: "VoiceFrame list"
  position :: nat

datatype voice_op = AddFrame VoiceFrame | PullNext bytes bool | EndCall bytes

fun buffer_step :: "voice_op \<Rightarrow> VoiceJitterBuffer \<Rightarrow> VoiceFrame option \<times> VoiceJitterBuffer" where
  "buffer_step (AddFrame f) B = (None, addFrame f B)"
| "buffer_step (PullNext cid skip) B = pullNextFrame cid skip B"
| "buffer_step (EndCall cid) B = (None, endCall cid B)"

definition frame_at :: "nat \<Rightarrow> VoiceFrame list \<Rightarrow> VoiceFrame option" where
  "frame_at n fs = find (\<lambda>f. sequenceNumber f = num_key n) fs"

fun player_step :: "voice_op \<Rightarrow> (bytes \<Rightarrow> Playout option) \<Rightarrow> VoiceFrame option \<times> (bytes \<Rightarrow> Playout option)" where
  "player_step (AddFrame f) S = (None, S(callId f := Some (case S (callId f) of
      None \<Rightarrow> \<lparr>heard = [f], position = 0\<rparr> | Some p \<Rightarrow> p\<lparr>heard := f # heard p\<rparr>)))"
| "player_step (PullNext cid skip) S = (case S cid of
      None \<Rightarrow> (None, S)
    | Some p \<Rightarrow> (let r = frame_at (position p) (heard p)
        in (r, if r \<noteq> None \<or> skip then S(cid := Some (p\<lparr>position := position p + 1\<rparr>)) else S)))"
| "player_step (EndCall cid) S = (None, S(cid := None))"

fun outputs :: "(voice_op \<Rightarrow> 's \<Rightarrow> VoiceFrame option \<times> 's) \<Rightarrow> voice_op list \<Rightarrow> 's \<Rightarrow> VoiceFrame option list" where
  "outputs step [] s = []"
| "outputs step (x # xs) s = (case step x s of (r, s1) \<Rightarrow> r # outputs step xs s1)"

definition call_simulates :: "VoiceCall option \<Rightarrow> Playout option \<Rightarrow> bool" where
  "call_simulates e p \<longleftrightarrow> (case (e, p) of
      (None, None) \<Rightarrow> True
    | (Some x, Some y) \<Rightarrow> nextSequenceNumber x = position y \<and>
        (\<forall>k \<ge> position y. mget (voiceFrames x) (num_key k) = frame_at k (heard y))
    | _ \<Rightarrow> False)"

definition buffer_simulates :: "VoiceJitterBuffer \<Rightarrow> (bytes \<Rightarrow> Playout option) \<Rightarrow> bool" where
  "buffer_simulates B S \<longleftrightarrow> (\<forall>cid. call_simulates (mget (calls B) (bytesToHex cid)) (S cid))"

lemma mget_jsval_set: "mget (jsval_set k v m) (num_key n) = (if k = num_key n then Some v else mget m (num_key n))"
  by (auto simp: jsval_set_def same_key_def map_add_def split: jsval.splits option.splits)

lemma frame_at_simps [simp]:
  "frame_at n [] = None" "frame_at n (f # fs) = (if sequenceNumber f = num_key n then Some f else frame_at n fs)"
  by (simp_all add: frame_at_def)

lemma call_simulatesE:
  assumes "call_simulates e p"
  obtains "e = None" "p = None" | x y where "e = Some x" "p = Some y" "nextSequenceNumber x = position y"
    "\<And>k. position y \<le> k \<Longrightarrow> mget (voiceFrames x) (num_key k) = frame_at k (heard y)"
  using assms by (auto simp: call_simulates_def split: option.splits)

lemma buffer_simulates_update:
  assumes "buffer_simulates B S" "call_simulates (Some x) (Some y)"
  shows "buffer_simulates (B\<lparr>calls := mset_at (bytesToHex cid) x (calls B)\<rparr>) (S(cid := Some y))"
  using assms by (simp add: buffer_simulates_def)

lemma step_simulates:
  assumes "buffer_simulates B S"
  shows "fst (buffer_step x B) = fst (player_step x S) \<and> buffer_simulates (snd (buffer_step x B)) (snd (player_step x S))"
proof -
  have sim: "call_simulates (mget (calls B) (bytesToHex cid)) (S cid)" for cid
    using assms by (simp add: buffer_simulates_def)
  show ?thesis
  proof (cases x)
    case (AddFrame f)
    show ?thesis
      by (rule call_simulatesE [OF sim [of "callId f"]])
        (auto simp: AddFrame addFrame_def Let_def call_simulates_def mget_jsval_set intro!: buffer_simulates_update [OF assms])
  next
    case (PullNext cid skip)
    show ?thesis
      by (rule call_simulatesE [OF sim [of cid]])
        (auto simp: PullNext pullNextFrame_def Let_def call_simulates_def assms
          intro!: buffer_simulates_update [OF assms] split: option.splits)
  next
    case (EndCall cid)
    show ?thesis using sim by (simp add: EndCall endCall_def buffer_simulates_def call_simulates_def)
  qed
qed

lemma outputs_simulate: "buffer_simulates B S \<Longrightarrow> outputs buffer_step ops B = outputs player_step ops S"
proof (induction ops arbitrary: B S)
  case (Cons x ops)
  from step_simulates [OF Cons.prems, of x] Cons.IH show ?case by (auto split: prod.splits)
qed simp

text \<open>The frames the pulls of one call gave.\<close>

definition played :: "bytes \<Rightarrow> voice_op list \<Rightarrow> VoiceFrame option list \<Rightarrow> VoiceFrame list" where
  "played cid ops rs = concat (map (\<lambda>(x, r). case (x, r) of
     (PullNext c b, Some f) \<Rightarrow> (if c = cid then [f] else []) | _ \<Rightarrow> []) (zip ops rs))"

lemma played_Cons: "played cid (x # ops) (r # rs) =
    (case (x, r) of (PullNext c b, Some f) \<Rightarrow> (if c = cid then [f] else []) | _ \<Rightarrow> []) @ played cid ops rs"
  by (simp add: played_def)

definition at_position :: "bytes \<Rightarrow> (bytes \<Rightarrow> Playout option) \<Rightarrow> nat" where
  "at_position cid S = (case S cid of None \<Rightarrow> 0 | Some p \<Rightarrow> position p)"

lemma frame_at_Some: "frame_at n fs = Some f \<Longrightarrow> sequenceNumber f = num_key n"
  by (auto simp: frame_at_def find_Some_iff)

lemma player_positions:
  assumes "x \<noteq> EndCall cid" "player_step x S = (r, S1)"
  shows "case (x, r) of (PullNext c b, Some f) \<Rightarrow>
      (if c = cid then sequenceNumber f = num_key (at_position cid S) \<and> at_position cid S1 = Suc (at_position cid S)
       else at_position cid S1 = at_position cid S)
    | _ \<Rightarrow> at_position cid S \<le> at_position cid S1"
proof (cases x)
  case (PullNext c b)
  with assms(2) show ?thesis
    by (auto simp: Let_def at_position_def split: option.splits if_splits dest: frame_at_Some)
next
  case (AddFrame f)
  with assms(2) show ?thesis by (cases "callId f = cid") (auto simp: at_position_def split: option.splits)
next
  case (EndCall c)
  with assms show ?thesis by (auto simp: at_position_def split: option.splits)
qed

lemma player_in_order:
  assumes "EndCall cid \<notin> set ops"
  shows "\<exists>ns. map sequenceNumber (played cid ops (outputs player_step ops S)) = map num_key ns \<and>
    sorted_wrt (<) ns \<and> (\<forall>n \<in> set ns. at_position cid S \<le> n)"
  using assms
proof (induction ops arbitrary: S)
  case Nil
  show ?case by (simp add: played_def)
next
  case (Cons x ops)
  obtain r S1 where step: "player_step x S = (r, S1)" by (cases "player_step x S")
  from Cons obtain ns where ns: "map sequenceNumber (played cid ops (outputs player_step ops S1)) = map num_key ns"
    "sorted_wrt (<) ns" "\<forall>n \<in> set ns. at_position cid S1 \<le> n" by auto
  note pos = player_positions [OF _ step, of cid] Cons.prems
  show ?case
  proof (cases "\<exists>b f. x = PullNext cid b \<and> r = Some f")
    case True
    with ns step pos show ?thesis
      by (intro exI [of _ "at_position cid S # ns"]) (auto simp: played_Cons)
  next
    case False
    then have "played cid (x # ops) (r # rs) = played cid ops rs" for rs
      by (auto simp: played_Cons split: voice_op.splits option.splits)
    moreover have "at_position cid S \<le> at_position cid S1"
      using False pos by (auto split: voice_op.splits option.splits if_splits)
    ultimately show ?thesis using ns step by (intro exI [of _ ns]) auto
  qed
qed

section \<open>Properties\<close>

text \<open>C26: Sending a file through the ratchet. The chunks of a file of at most 1001 chunks, each encrypted as a
  message of its own and delivered in any order, are decrypted, decoded and put together: the file appears
  with the last chunk, nothing before, and the reassembler is as it was.\<close>

theorem file_transfer_any_order:
  assumes "aead_correct L" "x25519_commutes L" "hash_sizes L" "cbor_roundtrips L"
    and "length (xPrivateKey rkp) = 32" "xPublicKey rkp = x_public L (xPrivateKey rkp)"
    and "splitFileIntoChunks L k bytes sz = Some chunks" "0 < sz" "length chunks \<le> 1001"
    and "distinct order" "set order = {..<length chunks}"
    and "\<not> mhas (pendingFiles R) (bytesToHex (random_bytes L k 16))"
  shows "\<exists>s0 ws s1 rs s2. initAsInitiator L i root (xPublicKey rkp) = Inr s0 \<and>
    encrypt_all L (map (\<lambda>c. (encodeFileChunkMessage L c, ad c)) chunks) s0 = (Inr ws, s1) \<and>
    decrypt_all L j (map ((!) ws) order) (initAsResponder root rkp) = (rs, s2) \<and>
    receive_chunks L rs R = (replicate (length chunks - 1) None @ [Some bytes], R)"
proof -
  let ?fid = "random_bytes L k 16" and ?ps = "map (\<lambda>c. (encodeFileChunkMessage L c, ad c)) chunks"
  obtain parts where parts: "chunks = map (part_chunk ?fid parts) [0..<length parts]" "concat parts = bytes" "parts \<noteq> []"
    using split_parts [OF assms(7,8)] by blast
  then have len: "length chunks = length parts" by (metis diff_zero length_map length_upt)
  obtain s0 ws s1 s2 where run: "initAsInitiator L i root (xPublicKey rkp) = Inr s0" "encrypt_all L ?ps s0 = (Inr ws, s1)"
    "decrypt_all L j (map ((!) ws) order) (initAsResponder root rkp) = (map (\<lambda>m. Inr (fst (?ps ! m))) order, s2)"
    using ratchet_any_order [OF assms(1-3,5,6,10), of ?ps i root j] assms(9,11) by fastforce
  have chunk: "chunks ! m = part_chunk ?fid parts m" if "m < length parts" for m
    using that by (subst parts(1)) simp
  then have eq: "map (\<lambda>m. Inr (fst (?ps ! m)) :: bytes res) order = map (\<lambda>m. Inr (encodeFileChunkMessage L (part_chunk ?fid parts m))) order"
    using assms(11) len by auto
  have "decodeFileChunkMessage L (encodeFileChunkMessage L (part_chunk ?fid parts m)) = Inr (part_chunk ?fid parts m)"
    if "m \<in> set order" for m
    using that assms(9,11) len by (intro decode_file_chunk assms(4)) (auto simp: part_chunk_def)
  then have "receive_chunks L (map (\<lambda>m. Inr (encodeFileChunkMessage L (part_chunk ?fid parts m))) order) R
      = feed_parts (\<lambda>i. addChunk (part_chunk ?fid parts i)) order R" by (rule receive_parts)
  with eq have feed: "receive_chunks L (map (\<lambda>m. Inr (fst (?ps ! m))) order) R
      = feed_parts (\<lambda>i. addChunk (part_chunk ?fid parts i)) order R" by (simp only:)
  have "card (set order) = length parts" "0 < length parts" using assms(11) parts(3) len by simp_all
  then have "order \<noteq> []" by (cases order) simp_all
  then obtain js m where order: "order = js @ [m]" by (metis rev_exhaust)
  have "length order = length parts" using distinct_card [OF assms(10)] assms(11) len by simp
  then have n: "length js = length chunks - 1" using order len by simp
  have all: "set (js @ [m]) = {..<length parts}" using order assms(11) len by simp
  have "m \<in> {..<length parts}" "m \<notin> set js" "set js \<subseteq> {..<length parts}"
    unfolding all [symmetric] using assms(10) order by auto
  then have js: "set js \<subset> {..<length parts}" by blast
  have "file_holds (R, ?fid, parts) {} R" using assms(12) by simp
  from file_parts.collect_all [OF this, of js m] js all have
    "feed_parts (\<lambda>i. addChunk (part_chunk ?fid parts i)) order R = (replicate (length chunks - 1) None @ [Some bytes], R)"
    by (simp only: prod.case order n parts(2) simp_thms) blast
  with feed have "receive_chunks L (map (\<lambda>m. Inr (fst (?ps ! m))) order) R
      = (replicate (length chunks - 1) None @ [Some bytes], R)" by (simp only:)
  with run show ?thesis by blast
qed

theorem file_transfer_any_order_witness:
  "\<exists>chunks s0 ws s1 rs s2. splitFileIntoChunks ref_lib 7 [1, 2, 3, 4, 5] 2 = Some chunks \<and>
    initAsInitiator ref_lib 3 (replicate 32 5) (xPublicKey responder_key) = Inr s0 \<and>
    encrypt_all ref_lib (map (\<lambda>c. (encodeFileChunkMessage ref_lib c, [9])) chunks) s0 = (Inr ws, s1) \<and>
    decrypt_all ref_lib 4 (map ((!) ws) [2, 0, 1]) (initAsResponder (replicate 32 5) responder_key) = (rs, s2) \<and>
    receive_chunks ref_lib rs \<lparr>pendingFiles = []\<rparr> = ([None, None, Some [1, 2, 3, 4, 5]], \<lparr>pendingFiles = []\<rparr>)"
proof -
  obtain chunks where c: "splitFileIntoChunks ref_lib 7 [1, 2, 3, 4, 5] 2 = Some chunks" "length chunks = 3"
    by (simp add: splitFileIntoChunks_def ceil_div_def Let_def)
  have k: "length (xPrivateKey responder_key) = 32" "xPublicKey responder_key = x_public ref_lib (xPrivateKey responder_key)"
    by (simp_all add: responder_key_def ref_lib_def)
  have o: "distinct [2 :: nat, 0, 1]" "set [2, 0, 1] = {..<length chunks}" using c(2) by auto
  from file_transfer_any_order [OF ref_aead_correct ref_x25519_commutes ref_hash_sizes ref_cbor k c(1) _ _ o,
      of "\<lparr>pendingFiles = []\<rparr>" 3 "replicate 32 5" "\<lambda>_. [9]" 4] c
  show ?thesis by (simp add: mhas_def numeral_2_eq_2)
qed

text \<open>C27: The jitter buffer plays in order and loses nothing that is in time. Under any sequence of operations it
  gives exactly what a player gives that remembers every frame it heard of; the frames one call hands out,
  as long as it is not ended, have strictly increasing sequence numbers.\<close>

theorem playout:
  "outputs buffer_step ops \<lparr>calls = []\<rparr> = outputs player_step ops (\<lambda>_. None) \<and>
    (EndCall cid \<notin> set ops \<longrightarrow>
      (\<exists>ns. map sequenceNumber (played cid ops (outputs buffer_step ops \<lparr>calls = []\<rparr>)) = map num_key ns \<and> sorted_wrt (<) ns))"
proof -
  have "buffer_simulates \<lparr>calls = []\<rparr> (\<lambda>_. None)" by (simp add: buffer_simulates_def call_simulates_def)
  then have "outputs buffer_step ops \<lparr>calls = []\<rparr> = outputs player_step ops (\<lambda>_. None)" by (rule outputs_simulate)
  with player_in_order [of cid ops "\<lambda>_. None"] show ?thesis by auto
qed

definition voice_frame :: "nat \<Rightarrow> VoiceFrame" where
  "voice_frame n = \<lparr>callId = [7], sequenceNumber = num_key n, frameTimestamp = JNum (Num 0), audioData = [word_of_nat n]\<rparr>"

definition lossy_call :: "voice_op list" where
  "lossy_call = [AddFrame (voice_frame 2), AddFrame (voice_frame 0), PullNext [7] True, PullNext [7] True, PullNext [7] True]"

theorem playout_witness:
  "map (map_option audioData) (outputs buffer_step lossy_call \<lparr>calls = []\<rparr>) = [None, None, Some [0], None, Some [2]] \<and>
    (\<exists>ns. map sequenceNumber (played [7] lossy_call (outputs buffer_step lossy_call \<lparr>calls = []\<rparr>)) = map num_key ns \<and>
      sorted_wrt (<) ns)"
proof
  show "map (map_option audioData) (outputs buffer_step lossy_call \<lparr>calls = []\<rparr>) = [None, None, Some [0], None, Some [2]]"
    by (simp add: lossy_call_def voice_frame_def addFrame_def pullNextFrame_def jsval_set_def same_key_def Let_def)
  have "EndCall [7] \<notin> set lossy_call" by (simp add: lossy_call_def)
  with playout [of lossy_call "[7]"] show "\<exists>ns. map sequenceNumber (played [7] lossy_call
      (outputs buffer_step lossy_call \<lparr>calls = []\<rparr>)) = map num_key ns \<and> sorted_wrt (<) ns" by blast
qed

end
