(* ===== verification/Json.thy ===== *)
theory Json
  imports Bytes
begin

text \<open>
  \<open>JSON.parse\<close> and the part of \<open>JSON.stringify\<close> the introductions of \<open>src/identity/introduction.ts\<close>
  use. The parser follows the grammar of the language standard: white space, literals, numbers, strings
  with escapes, arrays, and objects where a repeated name keeps its place and takes the last value. A
  character beyond the 8-bit range of the model, written as an escape, is represented by the last one.
\<close>

section \<open>Tokens\<close>

definition json_space :: "char \<Rightarrow> bool" where
  "json_space c \<longleftrightarrow> (of_char c :: nat) \<in> {9, 10, 13, 32}"

definition skip_ws :: "string \<Rightarrow> string" where
  "skip_ws s = dropWhile json_space s"

text \<open>The rest after a given text, if the input starts with it.\<close>

fun after :: "string \<Rightarrow> string \<Rightarrow> string option" where
  "after [] s = Some s"
| "after (p # ps) [] = None"
| "after (p # ps) (c # s) = (if p = c then after ps s else None)"

definition hex_value :: "char \<Rightarrow> nat option" where
  "hex_value c =
     (let n = of_char c :: nat
      in if 48 \<le> n \<and> n \<le> 57 then Some (n - 48)
         else if 97 \<le> n \<and> n \<le> 102 then Some (n - 87)
         else if 65 \<le> n \<and> n \<le> 70 then Some (n - 55) else None)"

text \<open>The four digits of a \<open>\\u\<close> escape.\<close>

fun hex4 :: "string \<Rightarrow> (char \<times> string) option" where
  "hex4 (a # b # c # d # s) = (case (hex_value a, hex_value b, hex_value c, hex_value d) of
     (Some i, Some j, Some k, Some l) \<Rightarrow> Some (char_of (min 255 (4096 * i + 256 * j + 16 * k + l)), s)
   | _ \<Rightarrow> None)"
| "hex4 _ = None"

definition simple_escape :: "char \<Rightarrow> char option" where
  "simple_escape c = map_of
     [(CHR 0x22, CHR 0x22), (CHR 0x5C, CHR 0x5C), (CHR 0x2F, CHR 0x2F), (CHR 0x62, CHR 0x08),
      (CHR 0x66, CHR 0x0C), (CHR 0x6E, CHR 0x0A), (CHR 0x72, CHR 0x0D), (CHR 0x74, CHR 0x09)] c"

text \<open>One character of a string literal, escapes resolved; control characters must be escaped.\<close>

fun json_char :: "string \<Rightarrow> (char \<times> string) option" where
  "json_char [] = None"
| "json_char (c # s) =
     (if c = CHR 0x5C then (case s of
          [] \<Rightarrow> None
        | e # r \<Rightarrow> if e = CHR ''u'' then hex4 r
            else (case simple_escape e of None \<Rightarrow> None | Some d \<Rightarrow> Some (d, r)))
      else if (of_char c :: nat) < 32 then None
      else Some (c, s))"

lemma hex4_length: "hex4 s = Some (c, r) \<Longrightarrow> length r < length s"
  by (induction s rule: hex4.induct) (auto split: option.splits)

lemma json_char_length: "json_char s = Some (c, r) \<Longrightarrow> length r < length s"
  by (cases s) (auto split: if_splits list.splits option.splits dest: hex4_length)

text \<open>The rest of a string literal, up to its closing quote.\<close>

function json_chars :: "string \<Rightarrow> (string \<times> string) option" where
  "json_chars s =
     (case s of [] \<Rightarrow> None
      | q # r \<Rightarrow> if q = CHR 0x22 then Some ([], r)
          else (case json_char s of None \<Rightarrow> None
            | Some (c, r) \<Rightarrow> (case json_chars r of None \<Rightarrow> None | Some (cs, r') \<Rightarrow> Some (c # cs, r'))))"
  by pat_completeness auto
termination
  by (relation "measure length") (auto dest: json_char_length simp del: json_char.simps)

declare json_chars.simps [simp del]

definition digits :: "string \<Rightarrow> string \<times> string" where
  "digits s = (takeWhile is_digit s, dropWhile is_digit s)"

text \<open>A decimal numeral \<open>m * 10^e\<close>.\<close>

definition scaled :: "int \<Rightarrow> int \<Rightarrow> jsnum" where
  "scaled m e =
     (if 0 \<le> e then Num (m * 10 ^ nat e)
      else let d = 10 ^ nat (- e) in if m mod d = 0 then Num (m div d) else Frac (m div d))"

definition json_fraction :: "string \<Rightarrow> (string \<times> string) option" where
  "json_fraction s = (case after ''.'' s of
      None \<Rightarrow> Some ([], s)
    | Some r \<Rightarrow> (case digits r of (ds, r') \<Rightarrow> if ds = [] then None else Some (ds, r')))"

definition json_exponent :: "string \<Rightarrow> (int \<times> string) option" where
  "json_exponent s =
     (if s = [] \<or> hd s \<notin> {CHR ''e'', CHR ''E''} then Some (0, s)
      else let r = tl s;
               sign = (if r \<noteq> [] \<and> hd r = CHR ''-'' then -1 else 1);
               r1 = (if r \<noteq> [] \<and> hd r \<in> {CHR ''-'', CHR ''+''} then tl r else r)
           in case digits r1 of (ds, r') \<Rightarrow> if ds = [] then None else Some (sign * decimal ds, r'))"

definition json_number :: "string \<Rightarrow> (jsnum \<times> string) option" where
  "json_number s =
     (let negative = (s \<noteq> [] \<and> hd s = CHR ''-''); s1 = (if negative then tl s else s)
      in case digits s1 of (ds, r) \<Rightarrow>
        if ds = [] then None
        else (case (if hd ds = CHR ''0'' then ([hd ds], tl ds @ r) else (ds, r)) of (ip, r1) \<Rightarrow>
          (case json_fraction r1 of None \<Rightarrow> None
           | Some (fp, r2) \<Rightarrow> (case json_exponent r2 of None \<Rightarrow> None
              | Some (e, r3) \<Rightarrow>
                  Some (scaled ((if negative then - 1 else 1) * decimal (ip @ fp)) (e - int (length fp)), r3)))))"

section \<open>Values\<close>

text \<open>
  The mutual recursion of the grammar, with a step bound that is never reached (\<open>enough_fuel\<close> below).
  \<open>json_members\<close> starts after the opening brace or a comma, at the name of a member.
\<close>

fun json_value :: "nat \<Rightarrow> string \<Rightarrow> (jsval \<times> string) option"
  and json_elements :: "nat \<Rightarrow> string \<Rightarrow> (jsval list \<times> string) option"
  and json_members :: "nat \<Rightarrow> (string \<times> jsval) list \<Rightarrow> string \<Rightarrow> ((string \<times> jsval) list \<times> string) option" where
  "json_value 0 s = None"
| "json_value (Suc f) s = (case skip_ws s of
      [] \<Rightarrow> None
    | c # r \<Rightarrow>
       if c = CHR 0x7B then (case after [CHR 0x7D] (skip_ws r) of
          Some r' \<Rightarrow> Some (JObj [], r')
        | None \<Rightarrow> map_option (\<lambda>(fs, r'). (JObj fs, r')) (json_members f [] r))
       else if c = CHR 0x5B then (case after [CHR 0x5D] (skip_ws r) of
          Some r' \<Rightarrow> Some (JArr [], r')
        | None \<Rightarrow> map_option (\<lambda>(vs, r'). (JArr vs, r')) (json_elements f r))
       else if c = CHR 0x22 then map_option (\<lambda>(t, r'). (JStr t, r')) (json_chars r)
       else if c = CHR ''t'' then map_option (\<lambda>r'. (JBool True, r')) (after ''rue'' r)
       else if c = CHR ''f'' then map_option (\<lambda>r'. (JBool False, r')) (after ''alse'' r)
       else if c = CHR ''n'' then map_option (\<lambda>r'. (JNull, r')) (after ''ull'' r)
       else map_option (\<lambda>(n, r'). (JNum n, r')) (json_number (c # r)))"
| "json_elements 0 s = None"
| "json_elements (Suc f) s = (case json_value f s of
      None \<Rightarrow> None
    | Some (v, r) \<Rightarrow> (case skip_ws r of
         [] \<Rightarrow> None
       | c # r' \<Rightarrow> if c = CHR 0x5D then Some ([v], r')
           else if c = CHR '','' then map_option (\<lambda>(vs, r''). (v # vs, r'')) (json_elements f r')
           else None))"
| "json_members 0 acc s = None"
| "json_members (Suc f) acc s = (case after [CHR 0x22] (skip_ws s) of
      None \<Rightarrow> None
    | Some r \<Rightarrow> (case json_chars r of
         None \<Rightarrow> None
       | Some (k, r1) \<Rightarrow> (case after [CHR 0x3A] (skip_ws r1) of
            None \<Rightarrow> None
          | Some r2 \<Rightarrow> (case json_value f r2 of
               None \<Rightarrow> None
             | Some (v, r3) \<Rightarrow> (case skip_ws r3 of
                  [] \<Rightarrow> None
                | c # r' \<Rightarrow> if c = CHR 0x7D then Some (mset_at k v acc, r')
                    else if c = CHR '','' then json_members f (mset_at k v acc) r'
                    else None)))))"

definition json_fuel :: "string \<Rightarrow> nat" where
  "json_fuel s = 2 * length s + 2"

definition json_parse :: "string \<Rightarrow> jsval option" where
  "json_parse s = (case json_value (json_fuel s) s of
      None \<Rightarrow> None | Some (v, r) \<Rightarrow> if skip_ws r = [] then Some v else None)"

section \<open>Strings out\<close>

definition quote_char :: "char \<Rightarrow> string" where
  "quote_char c =
     (let n = of_char c :: nat
      in case map_of [(8, CHR ''b''), (9, CHR ''t''), (10, CHR ''n''), (12, CHR ''f''), (13, CHR ''r''),
            (34, CHR 0x22), (92, CHR 0x5C)] n of
           Some e \<Rightarrow> [CHR 0x5C, e]
         | None \<Rightarrow> if n < 32 then [CHR 0x5C, CHR ''u'', CHR ''0'', CHR ''0'', hex_digit (n div 16), hex_digit (n mod 16)]
             else [c])"

definition json_quote :: "string \<Rightarrow> string" where
  "json_quote s = CHR 0x22 # concat (map quote_char s) @ [CHR 0x22]"

section \<open>Strings come back\<close>

lemma hex_value_digit [simp]: "n < 16 \<Longrightarrow> hex_value (hex_digit n) = Some n"
  by (simp add: hex_value_def Let_def of_hex_digit)

lemma control_chars:
  "char_of (8 :: nat) = CHR 0x08" "char_of (9 :: nat) = CHR 0x09" "char_of (10 :: nat) = CHR 0x0A"
  "char_of (12 :: nat) = CHR 0x0C" "char_of (13 :: nat) = CHR 0x0D" "char_of (34 :: nat) = CHR 0x22"
  "char_of (92 :: nat) = CHR 0x5C"
  by code_simp+

lemma json_char_quote:
  "json_char (quote_char c @ s) = Some (c, s) \<and> quote_char c \<noteq> [] \<and> hd (quote_char c) \<noteq> CHR 0x22"
proof -
  define n where "n = (of_char c :: nat)"
  have c: "c = char_of n" and n: "n < 256" by (simp_all add: n_def)
  have q: "quote_char c = (case map_of [(8, CHR ''b''), (9, CHR ''t''), (10, CHR ''n''), (12, CHR ''f''), (13, CHR ''r''),
            (34, CHR 0x22), (92, CHR 0x5C)] n of
           Some e \<Rightarrow> [CHR 0x5C, e]
         | None \<Rightarrow> if n < 32 then [CHR 0x5C, CHR ''u'', CHR ''0'', CHR ''0'', hex_digit (n div 16), hex_digit (n mod 16)]
             else [c])"
    by (simp only: quote_char_def n_def Let_def)
  consider "n \<in> {8, 9, 10, 12, 13, 34, 92}" | "n \<notin> {8, 9, 10, 12, 13, 34, 92}" "n < 32"
    | "n \<notin> {8, 9, 10, 12, 13, 34, 92}" "32 \<le> n" by linarith
  then show ?thesis
  proof cases
    case 1
    then show ?thesis by (auto simp: quote_char_def Let_def simple_escape_def control_chars c)
  next
    case 2
    then have "n div 16 < 16" "16 * (n div 16) + n mod 16 = n" by simp_all
    moreover have "hex_value (CHR ''0'') = Some 0" by (simp add: hex_value_def)
    moreover have "quote_char c = [CHR 0x5C, CHR ''u'', CHR ''0'', CHR ''0'', hex_digit (n div 16), hex_digit (n mod 16)]"
      using 2 by (simp add: q)
    moreover have "char_of n = c" by (simp add: n_def)
    ultimately show ?thesis by simp
  next
    case 3
    have "c \<noteq> CHR 0x5C" "c \<noteq> CHR 0x22" using 3(1) unfolding n_def by auto
    with 3 show ?thesis by (auto simp: q n_def)
  qed
qed

lemma json_chars_quote [simp]: "json_chars (concat (map quote_char s) @ CHR 0x22 # r) = Some (s, r)"
proof (induction s)
  case Nil
  show ?case by (simp add: json_chars.simps)
next
  case (Cons c s)
  obtain q qs where q: "quote_char c = q # qs" "q \<noteq> CHR 0x22"
    using json_char_quote [of c "[]"] by (cases "quote_char c") auto
  have "json_char (q # qs @ concat (map quote_char s) @ CHR 0x22 # r) = Some (c, concat (map quote_char s) @ CHR 0x22 # r)"
    using json_char_quote [of c] q(1) by (metis append_Cons)
  with q Cons show ?case by (subst json_chars.simps) (simp del: json_char.simps)
qed

section \<open>The step bound is never reached\<close>

lemma skip_ws_length: "length (skip_ws s) \<le> length s"
  by (simp add: skip_ws_def length_dropWhile_le)

lemma after_length: "after p s = Some r \<Longrightarrow> length r + length p = length s"
  by (induction p s rule: after.induct) (auto split: if_splits)

lemma json_chars_length: "json_chars s = Some (cs, r) \<Longrightarrow> length r < length s"
proof (induction s arbitrary: cs rule: json_chars.induct)
  case (1 s)
  then obtain q t where s: "s = q # t" by (cases s) (auto simp: json_chars.simps)
  show ?case
  proof (cases "q = CHR 0x22")
    case True
    with 1(2) s show ?thesis by (simp add: json_chars.simps)
  next
    case False
    with 1(2) obtain c u cs' where u: "json_char s = Some (c, u)" "json_chars u = Some (cs', r)"
      unfolding s by (subst (asm) json_chars.simps) (auto simp del: json_char.simps split: option.splits)
    from 1(1) [OF s False u(1) refl u(2)] json_char_length [OF u(1)] show ?thesis by simp
  qed
qed

lemma digits_length: "digits s = (ds, r) \<Longrightarrow> length ds + length r = length s"
  by (auto simp: digits_def) (metis length_append takeWhile_dropWhile_id)

lemma json_fraction_length: "json_fraction s = Some (ds, r) \<Longrightarrow> length r \<le> length s"
  by (auto simp: json_fraction_def split: option.splits prod.splits if_splits dest!: after_length digits_length)

lemma json_exponent_length: "json_exponent s = Some (e, r) \<Longrightarrow> length r \<le> length s"
  by (cases s) (auto simp: json_exponent_def Let_def split: prod.splits if_splits dest!: digits_length)

lemma json_number_length: "json_number s = Some (n, r) \<Longrightarrow> length r < length s"
  by (cases s) (auto simp: json_number_def Let_def neq_Nil_conv split: prod.splits if_splits option.splits
      dest!: digits_length json_fraction_length json_exponent_length)

lemma json_lengths:
  "json_value f s = Some (v, r) \<Longrightarrow> length r < length s"
  "json_elements f s = Some (vs, r) \<Longrightarrow> length r < length s"
  "json_members f acc s = Some (fs, r) \<Longrightarrow> length r < length s"
proof (induction f s and f s and f acc s arbitrary: v r and vs r and fs r
    rule: json_value_json_elements_json_members.induct)
  case (2 f s)
  obtain c t where t: "skip_ws s = c # t" using 2(3) by (cases "skip_ws s") auto
  then have len: "length t < length s" "length (skip_ws t) \<le> length t"
    using skip_ws_length [of s] skip_ws_length [of t] by simp_all
  from 2 t len show ?case
    by (fastforce split: if_splits option.splits dest!: after_length json_chars_length json_number_length)
next
  case (4 f s)
  then obtain u where "json_value f s = Some u" by (auto split: option.splits)
  with 4 skip_ws_length [of "snd u"] show ?case
    by (cases u) (fastforce split: list.splits if_splits)
next
  case (6 f acc s)
  then obtain a k b d v e where
    u: "after [CHR 0x22] (skip_ws s) = Some a" "json_chars a = Some (k, b)" "after [CHR 0x3A] (skip_ws b) = Some d"
      "json_value f d = Some (v, e)"
    by (auto split: option.splits)
  have "length e < length s"
    using after_length [OF u(1)] after_length [OF u(3)] json_chars_length [OF u(2)] 6(1) [OF u(1,2) refl u(3,4)]
      skip_ws_length [of s] skip_ws_length [of b] by simp
  with 6 u skip_ws_length [of e] show ?case by (fastforce split: list.splits if_splits)
qed simp_all

definition value_fuel :: "nat \<Rightarrow> string \<Rightarrow> bool" where
  "value_fuel f s \<longleftrightarrow> 2 * length s + 1 \<le> f"

definition list_fuel :: "nat \<Rightarrow> string \<Rightarrow> bool" where
  "list_fuel f s \<longleftrightarrow> 2 * length s + 2 \<le> f"

lemma fuel_cases:
  "value_fuel f s \<Longrightarrow> \<exists>f'. f = Suc f' \<and> (\<forall>r. length r < length s \<longrightarrow> list_fuel f' r)"
  "list_fuel f s \<Longrightarrow> \<exists>f'. f = Suc f' \<and> value_fuel f' s \<and> (\<forall>r. length r < length s \<longrightarrow> list_fuel f' r \<and> value_fuel f' r)"
  unfolding list_fuel_def value_fuel_def by (cases f; fastforce)+

definition agree :: "nat \<Rightarrow> bool" where
  "agree f \<longleftrightarrow> (\<forall>s g acc. (value_fuel f s \<longrightarrow> value_fuel g s \<longrightarrow> json_value f s = json_value g s) \<and>
     (list_fuel f s \<longrightarrow> list_fuel g s \<longrightarrow> json_elements f s = json_elements g s \<and> json_members f acc s = json_members g acc s))"

lemma agreeD:
  assumes "agree f"
  shows "value_fuel f s \<Longrightarrow> value_fuel g s \<Longrightarrow> json_value f s = json_value g s"
    and "list_fuel f s \<Longrightarrow> list_fuel g s \<Longrightarrow> json_elements f s = json_elements g s"
    and "list_fuel f s \<Longrightarrow> list_fuel g s \<Longrightarrow> json_members f acc s = json_members g acc s"
  using assms unfolding agree_def by blast+

lemma agree_value:
  assumes "agree f" "value_fuel (Suc f) s" "value_fuel g s"
  shows "json_value (Suc f) s = json_value g s"
proof (cases "skip_ws s")
  case (Cons c t)
  obtain g' where g: "g = Suc g'" "\<And>r. length r < length s \<Longrightarrow> list_fuel g' r" using fuel_cases(1) [OF assms(3)] by blast
  have t: "length t < length s" using skip_ws_length [of s] Cons by simp
  have f: "list_fuel f t" using fuel_cases(1) [OF assms(2)] t by blast
  show ?thesis
    by (simp only: g(1) json_value.simps(2) Cons list.case agreeD(2,3) [OF assms(1) f g(2) [OF t]])
qed (use fuel_cases(1) [OF assms(3)] in auto)

lemma agree_elements:
  assumes "agree f" "list_fuel (Suc f) s" "list_fuel g s"
  shows "json_elements (Suc f) s = json_elements g s"
proof -
  obtain g' where g: "g = Suc g'" "value_fuel g' s" "\<And>r. length r < length s \<Longrightarrow> list_fuel g' r"
    using fuel_cases(2) [OF assms(3)] by blast
  have f: "value_fuel f s" "\<And>r. length r < length s \<Longrightarrow> list_fuel f r" using fuel_cases(2) [OF assms(2)] by blast+
  have v: "json_value f s = json_value g' s" using agreeD(1) [OF assms(1) f(1) g(2)] .
  show ?thesis
  proof (cases "json_value g' s")
    case (Some u)
    obtain v' r where u: "u = (v', r)" by (cases u)
    show ?thesis
    proof (cases "skip_ws r")
      case (Cons c t)
      have t: "length t < length s" using json_lengths(1) [of g' s v' r] Some u skip_ws_length [of r] Cons by simp
      show ?thesis
        by (simp only: g(1) json_elements.simps(2) v Some u option.case prod.case Cons list.case
            agreeD(2) [OF assms(1) f(2) [OF t] g(3) [OF t]])
    qed (simp add: g(1) v Some u)
  qed (simp add: g(1) v)
qed

lemma agree_members:
  assumes "agree f" "list_fuel (Suc f) s" "list_fuel g s"
  shows "json_members (Suc f) acc s = json_members g acc s"
proof -
  obtain g' where g: "g = Suc g'" "\<And>r. length r < length s \<Longrightarrow> list_fuel g' r \<and> value_fuel g' r"
    using fuel_cases(2) [OF assms(3)] by blast
  have f: "\<And>r. length r < length s \<Longrightarrow> list_fuel f r \<and> value_fuel f r" using fuel_cases(2) [OF assms(2)] by blast
  have tail: "(case json_value f d of None \<Rightarrow> None | Some (v, r3) \<Rightarrow> (case skip_ws r3 of [] \<Rightarrow> None
        | c # r' \<Rightarrow> if c = CHR 0x7D then Some (mset_at k v acc, r')
            else if c = CHR '','' then json_members f (mset_at k v acc) r' else None)) =
      (case json_value g' d of None \<Rightarrow> None | Some (v, r3) \<Rightarrow> (case skip_ws r3 of [] \<Rightarrow> None
        | c # r' \<Rightarrow> if c = CHR 0x7D then Some (mset_at k v acc, r')
            else if c = CHR '','' then json_members g' (mset_at k v acc) r' else None))"
    if d: "length d < length s" for d k
  proof -
    have v: "json_value f d = json_value g' d" using agreeD(1) [OF assms(1)] f [OF d] g(2) [OF d] by blast
    show ?thesis
    proof (cases "json_value g' d")
      case (Some u)
      obtain v' e where u: "u = (v', e)" by (cases u)
      show ?thesis
      proof (cases "skip_ws e")
        case (Cons c t)
        have t: "length t < length s" using json_lengths(1) [of g' d v' e] Some u skip_ws_length [of e] Cons d by simp
        then have "json_members f acc' t = json_members g' acc' t" for acc'
          using agreeD(3) [OF assms(1)] f [OF t] g(2) [OF t] by blast
        then show ?thesis by (simp only: v Some u option.case prod.case Cons list.case)
      qed (simp add: v Some u)
    qed (simp add: v)
  qed
  have len: "length d < length s" if "after [CHR 0x22] (skip_ws s) = Some a" "json_chars a = Some (k, b)"
    "after [CHR 0x3A] (skip_ws b) = Some d" for a k b d
    using after_length [OF that(1)] json_chars_length [OF that(2)] after_length [OF that(3)]
      skip_ws_length [of s] skip_ws_length [of b] by simp
  show ?thesis
    unfolding g(1) json_members.simps(2)
    by (rule option.case_cong [OF refl refl], rule option.case_cong [OF refl refl], rule prod.case_cong [OF refl],
        rule option.case_cong [OF refl refl], rule tail, simp add: len)
qed

lemma agree_all: "agree f"
proof (induction f)
  case 0
  show ?case by (simp add: agree_def value_fuel_def list_fuel_def)
next
  case (Suc f)
  show ?case
    unfolding agree_def using agree_value [OF Suc] agree_elements [OF Suc] agree_members [OF Suc] by blast
qed

lemma enough_fuel: "json_fuel s \<le> fuel \<Longrightarrow> json_value fuel s = json_value (json_fuel s) s"
  by (rule agreeD(1) [OF agree_all]) (simp_all add: value_fuel_def json_fuel_def)

end
