(* ===== verification/Introduction.thy ===== *)
theory Introduction
  imports Identity Ratchet Json
begin

text \<open>
  \<open>src/identity/introduction.ts\<close>: the identity introduction shown as a QR code. Scanned text is parsed as
  JSON and checked field by field, every field against the others; the errors carry the code and the
  text of the source. \<open>String(v)\<close>, \<open>parseInt(s, 16)\<close> and \<open>toLowerCase\<close> are the language's functions.
\<close>

section \<open>Data\<close>

definition INTRODUCTION_SCHEME :: string where
  "INTRODUCTION_SCHEME = ''zaycomm''"

definition INTRODUCTION_VERSION :: int where
  "INTRODUCTION_VERSION = 1"

definition ED25519_PUBLIC_KEY_LENGTH :: nat where
  "ED25519_PUBLIC_KEY_LENGTH = 32"

definition NONCE_LENGTH :: nat where
  "NONCE_LENGTH = 16"

definition NODE_ID_LENGTH :: nat where
  "NODE_ID_LENGTH = 16"

lemmas introduction_constants = INTRODUCTION_SCHEME_def INTRODUCTION_VERSION_def ED25519_PUBLIC_KEY_LENGTH_def
  NONCE_LENGTH_def NODE_ID_LENGTH_def

record NodeIntroduction =
  introScheme :: string
  introVersion :: int
  nodeId :: string
  introPublicKey :: string
  introStaticKey :: string
  capabilities :: "string list"
  introNonce :: string

datatype IntroductionErrorCode = QR_EMPTY | QR_MALFORMED | QR_UNSUPPORTED_SCHEME | QR_UNSUPPORTED_VERSION
  | QR_INVALID_KEY | QR_INVALID_STATIC_KEY | QR_NODE_ID_MISMATCH | QR_INVALID_NONCE | QR_INVALID_CAPABILITIES

definition code_string :: "IntroductionErrorCode \<Rightarrow> string" where
  "code_string c = (case c of QR_EMPTY \<Rightarrow> ''QR_EMPTY'' | QR_MALFORMED \<Rightarrow> ''QR_MALFORMED''
     | QR_UNSUPPORTED_SCHEME \<Rightarrow> ''QR_UNSUPPORTED_SCHEME'' | QR_UNSUPPORTED_VERSION \<Rightarrow> ''QR_UNSUPPORTED_VERSION''
     | QR_INVALID_KEY \<Rightarrow> ''QR_INVALID_KEY'' | QR_INVALID_STATIC_KEY \<Rightarrow> ''QR_INVALID_STATIC_KEY''
     | QR_NODE_ID_MISMATCH \<Rightarrow> ''QR_NODE_ID_MISMATCH'' | QR_INVALID_NONCE \<Rightarrow> ''QR_INVALID_NONCE''
     | QR_INVALID_CAPABILITIES \<Rightarrow> ''QR_INVALID_CAPABILITIES'')"

text \<open>What a call that fails has thrown: an \<open>IntroductionError\<close> with its message, or another error.\<close>

datatype intro_error = IntroductionError IntroductionErrorCode string | OtherError js_error

type_synonym 'a intro = "intro_error + 'a"

definition introduction_error :: "IntroductionErrorCode \<Rightarrow> string \<Rightarrow> 'a intro" where
  "introduction_error c msg = Inl (IntroductionError c (code_string c @ '': '' @ msg))"

section \<open>Functions of the language\<close>

text \<open>
  \<open>String(v)\<close>. A parsed object has no callable members: with a member \<open>toString\<close> of its own it cannot be
  converted and a \<open>TypeError\<close> is thrown. An array is the comma-joined text of its elements.
\<close>

lemma rmap_cong [fundef_cong]: "xs = ys \<Longrightarrow> (\<And>y. y \<in> set ys \<Longrightarrow> f y = g y) \<Longrightarrow> rmap f xs = rmap g ys"
  by (induction ys arbitrary: xs) auto

fun js_string :: "jsval \<Rightarrow> string res" where
  "js_string JUndef = Inr ''undefined''"
| "js_string JNull = Inr ''null''"
| "js_string (JBool b) = Inr (if b then ''true'' else ''false'')"
| "js_string (JNum n) = Inr (num_string n)"
| "js_string (JStr s) = Inr s"
| "js_string (JBytes bs) = Inr (join '','' (map (\<lambda>b. nat_string (unat b)) bs))"
| "js_string (JArr vs) = rbind (rmap (\<lambda>v. if v = JUndef \<or> v = JNull then Inr [] else js_string v) vs)
     (\<lambda>ss. Inr (join '','' ss))"
| "js_string (JObj fs) = (if map_of fs ''toString'' = None then Inr ''[object Object]'' else Inl TypeErr)"

definition to_lower :: "string \<Rightarrow> string" where
  "to_lower s = map (\<lambda>c. let n = of_char c :: nat in if 65 \<le> n \<and> n \<le> 90 then char_of (n + 32) else c) s"

text \<open>\<open>parseInt(s, 16)\<close> stored in a byte: blanks, a sign and a prefix are skipped, not a number gives 0.\<close>

definition hex_number :: "string \<Rightarrow> nat" where
  "hex_number s = foldl (\<lambda>n c. 16 * n + the (hex_value c)) 0 (takeWhile (\<lambda>c. hex_value c \<noteq> None) s)"

definition parse_hex_byte :: "string \<Rightarrow> byte" where
  "parse_hex_byte s =
     (let s1 = dropWhile is_space s;
          negative = (s1 \<noteq> [] \<and> hd s1 = CHR ''-'');
          s2 = (if s1 \<noteq> [] \<and> hd s1 \<in> {CHR ''-'', CHR ''+''} then tl s1 else s1);
          s3 = (case after ''0x'' s2 of Some r \<Rightarrow> r | None \<Rightarrow> (case after ''0X'' s2 of Some r \<Rightarrow> r | None \<Rightarrow> s2))
      in if negative then - of_nat (hex_number s3) else of_nat (hex_number s3))"

section \<open>Operations\<close>

definition is_hex :: "jsval \<Rightarrow> nat \<Rightarrow> string option" where
  "is_hex value len = (case value of
     JStr s \<Rightarrow> if length s = len \<and> s \<noteq> [] \<and> list_all (\<lambda>c. hex_value c \<noteq> None) s then Some s else None
   | _ \<Rightarrow> None)"

definition hexToBytes :: "string \<Rightarrow> bytes" where
  "hexToBytes hex = map (\<lambda>i. parse_hex_byte (slice (i * 2) (i * 2 + 2) hex)) [0..<length hex div 2]"

definition deriveNodeId :: "lib \<Rightarrow> bytes \<Rightarrow> string" where
  "deriveNodeId L pk = slice 0 NODE_ID_LENGTH (strip_spaces (computeFingerprint L pk))"

text \<open>\<open>i\<close> is the index of the random draw made when no nonce is given.\<close>

definition createNodeIntroduction ::
    "lib \<Rightarrow> nat \<Rightarrow> Identity \<Rightarrow> bytes \<Rightarrow> string list option \<Rightarrow> bytes option \<Rightarrow> NodeIntroduction intro" where
  "createNodeIntroduction L i identity staticPublicKey caps given =
     (if length staticPublicKey \<noteq> ED25519_PUBLIC_KEY_LENGTH
      then introduction_error QR_INVALID_STATIC_KEY ''Static key must be 32 bytes.''
      else Inr \<lparr>introScheme = INTRODUCTION_SCHEME, introVersion = INTRODUCTION_VERSION,
             nodeId = deriveNodeId L (publicKey identity), introPublicKey = bytesToHex (publicKey identity),
             introStaticKey = bytesToHex staticPublicKey,
             capabilities = (case caps of None \<Rightarrow> [''ble''] | Some cs \<Rightarrow> cs),
             introNonce = bytesToHex (case given of None \<Rightarrow> random_bytes L i NONCE_LENGTH | Some n \<Rightarrow> n)\<rparr>)"

text \<open>\<open>JSON.stringify(introduction)\<close>: the members in the order the record was built.\<close>

definition encodeNodeIntroduction :: "NodeIntroduction \<Rightarrow> string" where
  "encodeNodeIntroduction n =
     ''{'' @ json_quote ''scheme'' @ '':'' @ json_quote (introScheme n)
     @ '','' @ json_quote ''version'' @ '':'' @ num_string (Num (introVersion n))
     @ '','' @ json_quote ''nodeId'' @ '':'' @ json_quote (nodeId n)
     @ '','' @ json_quote ''publicKey'' @ '':'' @ json_quote (introPublicKey n)
     @ '','' @ json_quote ''staticKey'' @ '':'' @ json_quote (introStaticKey n)
     @ '','' @ json_quote ''capabilities'' @ '':['' @ join '','' (map json_quote (capabilities n)) @ '']''
     @ '','' @ json_quote ''nonce'' @ '':'' @ json_quote (introNonce n) @ ''}''"

text \<open>The two messages that show a received value: its conversion may throw first.\<close>

definition unsupported :: "IntroductionErrorCode \<Rightarrow> string \<Rightarrow> jsval \<Rightarrow> string \<Rightarrow> 'a intro" where
  "unsupported c before v behind = (case js_string v of
     Inl e \<Rightarrow> Inl (OtherError e) | Inr s \<Rightarrow> introduction_error c (before @ s @ behind))"

definition capability_list :: "jsval \<Rightarrow> string list option" where
  "capability_list v = (case v of
     JArr vs \<Rightarrow> if vs \<noteq> [] \<and> list_all (\<lambda>v. case v of JStr s \<Rightarrow> s \<noteq> [] | _ \<Rightarrow> False) vs
       then Some (map (\<lambda>v. case v of JStr s \<Rightarrow> s | _ \<Rightarrow> []) vs) else None
   | _ \<Rightarrow> None)"

text \<open>The checks after the scheme and the version, in their order.\<close>

definition checkFields :: "lib \<Rightarrow> (string \<times> jsval) list \<Rightarrow> NodeIntroduction intro" where
  "checkFields L candidate =
     (case is_hex (obj_get candidate ''publicKey'') (ED25519_PUBLIC_KEY_LENGTH * 2) of
        None \<Rightarrow> introduction_error QR_INVALID_KEY ''Introduction carries no usable Ed25519 public key.''
      | Some pk \<Rightarrow> (case is_hex (obj_get candidate ''staticKey'') (ED25519_PUBLIC_KEY_LENGTH * 2) of
        None \<Rightarrow> introduction_error QR_INVALID_STATIC_KEY ''Introduction carries no usable X25519 static key.''
      | Some sk \<Rightarrow> (case obj_get candidate ''nodeId'' of
        JStr nid \<Rightarrow>
          if length nid \<noteq> NODE_ID_LENGTH
          then introduction_error QR_NODE_ID_MISMATCH ''Introduction node id is missing or malformed.''
          else if deriveNodeId L (hexToBytes pk) \<noteq> to_lower nid
          then introduction_error QR_NODE_ID_MISMATCH ''Introduction node id does not match the advertised key.''
          else (case is_hex (obj_get candidate ''nonce'') (NONCE_LENGTH * 2) of
             None \<Rightarrow> introduction_error QR_INVALID_NONCE ''Introduction nonce is missing or malformed.''
           | Some nonce \<Rightarrow> (case capability_list (obj_get candidate ''capabilities'') of
             None \<Rightarrow> introduction_error QR_INVALID_CAPABILITIES ''Introduction capabilities list is missing or malformed.''
           | Some caps \<Rightarrow> Inr \<lparr>introScheme = INTRODUCTION_SCHEME, introVersion = INTRODUCTION_VERSION,
               nodeId = to_lower nid, introPublicKey = to_lower pk, introStaticKey = to_lower sk,
               capabilities = caps, introNonce = to_lower nonce\<rparr>))
      | _ \<Rightarrow> introduction_error QR_NODE_ID_MISMATCH ''Introduction node id is missing or malformed.'')))"

definition decodeNodeIntroduction :: "lib \<Rightarrow> string \<Rightarrow> NodeIntroduction intro" where
  "decodeNodeIntroduction L raw =
     (if list_all is_space raw then introduction_error QR_EMPTY ''No QR payload was captured.''
      else case json_parse raw of
        None \<Rightarrow> introduction_error QR_MALFORMED ''QR payload is not valid JSON.''
      | Some (JObj candidate) \<Rightarrow>
          (if obj_get candidate ''scheme'' \<noteq> JStr INTRODUCTION_SCHEME
           then unsupported QR_UNSUPPORTED_SCHEME ''Not a Zaycomm code (scheme: '' (obj_get candidate ''scheme'') '').''
           else if strict_number (obj_get candidate ''version'') \<noteq> Num INTRODUCTION_VERSION
           then unsupported QR_UNSUPPORTED_VERSION ''Unsupported introduction version: '' (obj_get candidate ''version'') ''.''
           else checkFields L candidate)
      | Some _ \<Rightarrow> introduction_error QR_MALFORMED ''QR payload is not a Zaycomm introduction object.'')"

text \<open>The code and the message the screen shows.\<close>

definition tryDecodeNodeIntroduction :: "lib \<Rightarrow> string \<Rightarrow> (IntroductionErrorCode \<times> string) + NodeIntroduction" where
  "tryDecodeNodeIntroduction L raw = (case decodeNodeIntroduction L raw of
     Inr introduction \<Rightarrow> Inr introduction
   | Inl (IntroductionError c msg) \<Rightarrow> Inl (c, msg)
   | Inl (OtherError e) \<Rightarrow> Inl (QR_MALFORMED, ''Unreadable QR payload.''))"

definition introducedIdentityPublicKey :: "NodeIntroduction \<Rightarrow> bytes" where
  "introducedIdentityPublicKey n = hexToBytes (introPublicKey n)"

definition introducedStaticPublicKey :: "NodeIntroduction \<Rightarrow> bytes" where
  "introducedStaticPublicKey n = hexToBytes (introStaticKey n)"

definition introducesCapability :: "NodeIntroduction \<Rightarrow> string \<Rightarrow> bool" where
  "introducesCapability n capability \<longleftrightarrow> capability \<in> set (capabilities n)"

section \<open>Hexadecimal text\<close>

definition hex_text :: "string \<Rightarrow> bool" where
  "hex_text s \<longleftrightarrow> list_all (\<lambda>c. hex_value c \<noteq> None) s"

lemma hex_text_simps [simp]:
  "hex_text []" "hex_text (c # s) \<longleftrightarrow> hex_value c \<noteq> None \<and> hex_text s"
  by (simp_all add: hex_text_def)

lemma length_to_lower [simp]: "length (to_lower s) = length s"
  by (simp add: to_lower_def)

lemma hex_value_Some:
  assumes "hex_value c = Some v"
  shows "v < 16" "to_lower [c] = [hex_digit v]" "\<not> is_space c"
    "c \<noteq> CHR ''-''" "c \<noteq> CHR ''+''" "c \<noteq> CHR ''x''" "c \<noteq> CHR ''X''"
proof -
  define n where "n = (of_char c :: nat)"
  have c: "c = char_of n" by (simp add: n_def)
  have v: "48 \<le> n \<and> n \<le> 57 \<and> v = n - 48 \<or> 97 \<le> n \<and> n \<le> 102 \<and> v = n - 87 \<or> 65 \<le> n \<and> n \<le> 70 \<and> v = n - 55"
    using assms by (auto simp: hex_value_def n_def [symmetric] Let_def split: if_splits)
  then show "v < 16" "\<not> is_space c" by (auto simp: is_space_def n_def [symmetric])
  from v show "to_lower [c] = [hex_digit v]"
    by (auto simp: to_lower_def hex_digit_def n_def [symmetric] Let_def c)
  show "c \<noteq> CHR ''-''" "c \<noteq> CHR ''+''" "c \<noteq> CHR ''x''" "c \<noteq> CHR ''X''"
    using v unfolding n_def by auto
qed

lemma to_lower_hex_Cons: "hex_value c = Some v \<Longrightarrow> to_lower (c # s) = hex_digit v # to_lower s"
  using hex_value_Some(2) [of c v] by (simp add: to_lower_def)

lemma parse_hex_two:
  assumes "hex_value a = Some i" "hex_value b = Some j"
  shows "parse_hex_byte [a, b] = of_nat (16 * i + j)"
  using assms hex_value_Some [OF assms(1)] hex_value_Some [OF assms(2)]
  by (simp add: parse_hex_byte_def hex_number_def Let_def)

lemma hexToBytes_simps [simp]:
  "hexToBytes [] = []" "hexToBytes (a # b # s) = parse_hex_byte [a, b] # hexToBytes s"
proof -
  have "[0..<length (a # b # s) div 2] = 0 # map Suc [0..<length s div 2]" by (simp add: map_Suc_upt upt_conv_Cons)
  then show "hexToBytes (a # b # s) = parse_hex_byte [a, b] # hexToBytes s"
    by (simp add: hexToBytes_def slice_def comp_def)
qed (simp add: hexToBytes_def)

lemma length_hexToBytes [simp]: "length (hexToBytes s) = length s div 2"
  by (simp add: hexToBytes_def)

lemma hexToBytes_hex [simp]: "hexToBytes (bytesToHex bs) = bs"
proof (induction bs)
  case (Cons b bs)
  have "unat b div 16 < 16" using unat_byte [of b] by linarith
  then have "parse_hex_byte [hex_digit (unat b div 16), hex_digit (unat b mod 16)] = b"
    using parse_hex_two [of _ "unat b div 16" _ "unat b mod 16"] by simp
  with Cons show ?case by simp
qed simp

lemma hex_of_hexToBytes: "hex_text s \<Longrightarrow> even (length s) \<Longrightarrow> bytesToHex (hexToBytes s) = to_lower s"
proof (induction s rule: induct_list012)
  case (3 a b s)
  then obtain i j where ij: "hex_value a = Some i" "hex_value b = Some j" by auto
  have "i < 16" "j < 16" by (rule hex_value_Some [OF ij(1)] hex_value_Some [OF ij(2)])+
  moreover have "unat (of_nat m :: byte) = m" if "m < 256" for m using that by (simp add: unat_of_nat)
  ultimately obtain w where w: "parse_hex_byte [a, b] = w" "unat w = 16 * i + j"
    using parse_hex_two [OF ij] by (simp del: of_nat_add of_nat_mult)
  have "(16 * i + j) div 16 = i" "(16 * i + j) mod 16 = j" using \<open>j < 16\<close> by simp_all
  with 3 ij w show ?case
    by (simp add: to_lower_hex_Cons)
qed (simp_all add: to_lower_def)

lemma hex_text_hex [simp]: "hex_text (bytesToHex bs)"
proof (induction bs)
  case (Cons b bs)
  have "unat b div 16 < 16" using unat_byte [of b] by linarith
  with Cons show ?case by simp
qed simp

lemma to_lower_hex [simp]: "to_lower (bytesToHex bs) = bytesToHex bs"
  using hex_of_hexToBytes [of "bytesToHex bs"] by simp

lemma to_lower_hexToBytes: "hex_text s \<Longrightarrow> even (length s) \<Longrightarrow> hexToBytes (to_lower s) = hexToBytes s"
  by (metis hexToBytes_hex hex_of_hexToBytes)

lemma is_hex_Some: "is_hex v n = Some s \<longleftrightarrow> v = JStr s \<and> length s = n \<and> s \<noteq> [] \<and> hex_text s"
  by (auto simp: is_hex_def hex_text_def split: jsval.splits)

lemma deriveNodeId_hex: "deriveNodeId L pk = take 16 (bytesToHex (sha256 L pk))"
  by (simp add: deriveNodeId_def strip_fingerprint slice_def NODE_ID_LENGTH_def)

lemma deriveNodeId_even: "hash_sizes L \<Longrightarrow> deriveNodeId L pk = bytesToHex (take 8 (sha256 L pk))"
proof -
  have "take (2 * n) (bytesToHex bs) = bytesToHex (take n bs)" for n bs
  proof (induction bs arbitrary: n)
    case (Cons b bs)
    then show ?case by (cases n) simp_all
  qed simp
  from this [of 8] show ?thesis by (simp add: deriveNodeId_hex)
qed

section \<open>Parsing an encoded introduction\<close>

declare json_value.simps(2) [simp del] json_elements.simps(2) [simp del] json_members.simps(2) [simp del]

lemma skip_ws_Cons [simp]: "skip_ws (c # s) = (if json_space c then skip_ws s else c # s)"
  by (simp add: skip_ws_def)

lemma json_space_marks [simp]:
  "\<not> json_space (CHR 0x22)" "\<not> json_space (CHR '':'')" "\<not> json_space (CHR '','')" "\<not> json_space (CHR ''1'')"
  "\<not> json_space (CHR ''{'')" "\<not> json_space (CHR ''}'')" "\<not> json_space (CHR ''['')" "\<not> json_space (CHR '']'')"
  by (simp_all add: json_space_def)

lemma json_value_quote [simp]: "json_value (Suc f) (json_quote s @ r) = Some (JStr s, r)"
  by (simp add: json_quote_def json_value.simps(2))

lemma json_members_value:
  assumes "json_value f v = Some (x, c # r)" "c \<in> {CHR '','', CHR ''}''}"
  shows "json_members (Suc f) acc (json_quote k @ CHR '':'' # v) =
    (if c = CHR ''}'' then Some (mset_at k x acc, r) else json_members f (mset_at k x acc) r)"
  using assms by (auto simp: json_quote_def json_members.simps(2))

lemma json_members_string [simp]:
  "json_members (Suc (Suc f)) acc (json_quote k @ CHR '':'' # json_quote s @ CHR '','' # r) =
    json_members (Suc f) (mset_at k (JStr s) acc) r"
  "json_members (Suc (Suc f)) acc (json_quote k @ CHR '':'' # json_quote s @ CHR ''}'' # r) =
    Some (mset_at k (JStr s) acc, r)"
  by (simp_all add: json_members_value)

lemma json_value_one [simp]: "json_value (Suc f) (CHR ''1'' # CHR '','' # r) = Some (JNum (Num 1), CHR '','' # r)"
  by (simp add: json_value.simps(2) json_number_def digits_def is_digit_def json_fraction_def json_exponent_def decimal_def scaled_def)

lemma json_elements_quotes:
  "length ss < f \<Longrightarrow> ss \<noteq> [] \<Longrightarrow>
    json_elements f (join '','' (map json_quote ss) @ CHR '']'' # r) = Some (map JStr ss, r)"
proof (induction "'',''" "map json_quote ss" arbitrary: ss f rule: join.induct)
  case (2 s)
  then obtain t where "ss = [t]" by auto
  moreover obtain f' where "f = Suc (Suc f')" using less_imp_Suc_add [OF 2(2)] \<open>ss = [t]\<close> by auto
  ultimately show ?case by (simp add: json_elements.simps(2))
next
  case (3 q q' qs)
  then obtain t t' ts where ss: "ss = t # t' # ts" by (metis map_eq_Cons_conv)
  moreover obtain f' where f: "f = Suc f'" "length (t' # ts) < f'" using 3(3) ss by (cases f) auto
  moreover obtain f'' where "f' = Suc f''" using f(2) by (cases f') auto
  ultimately show ?case using 3(1) [of "t' # ts" f'] 3(2) by (simp add: json_elements.simps(2))
qed simp

text \<open>An introduction the program built: keys and nonce in hexadecimal, capabilities not empty.\<close>

definition well_formed :: "lib \<Rightarrow> NodeIntroduction \<Rightarrow> bool" where
  "well_formed L n \<longleftrightarrow> introScheme n = ''zaycomm'' \<and> introVersion n = 1 \<and>
     (\<exists>pk sk nonce. length pk = 32 \<and> length sk = 32 \<and> length nonce = 16 \<and> introPublicKey n = bytesToHex pk \<and>
        introStaticKey n = bytesToHex sk \<and> introNonce n = bytesToHex nonce \<and> nodeId n = deriveNodeId L pk) \<and>
     capabilities n \<noteq> [] \<and> [] \<notin> set (capabilities n)"

definition introduction_object :: "NodeIntroduction \<Rightarrow> (string \<times> jsval) list" where
  "introduction_object n = [(''scheme'', JStr (introScheme n)), (''version'', JNum (Num 1)), (''nodeId'', JStr (nodeId n)),
     (''publicKey'', JStr (introPublicKey n)), (''staticKey'', JStr (introStaticKey n)),
     (''capabilities'', JArr (map JStr (capabilities n))), (''nonce'', JStr (introNonce n))]"

lemma json_value_array:
  assumes "length ss < f" "ss \<noteq> []"
  shows "json_value (Suc f) (CHR ''['' # join '','' (map json_quote ss) @ CHR '']'' # r) = Some (JArr (map JStr ss), r)"
proof -
  obtain t where "join '','' (map json_quote ss) @ CHR '']'' # r = CHR 0x22 # t"
    using assms(2) by (induction "'',''" "map json_quote ss" rule: join.induct) (auto simp: json_quote_def)
  then have "after '']'' (skip_ws (join '','' (map json_quote ss) @ CHR '']'' # r)) = None" by simp
  with json_elements_quotes [OF assms] show ?thesis by (simp add: json_value.simps(2))
qed

text \<open>An object is parsed when its members are, with whatever bound is enough.\<close>

lemma json_parse_members:
  assumes "json_members f [] (json_quote k @ t) = Some (ms, [])" "json_fuel (CHR ''{'' # json_quote k @ t) \<le> Suc f"
  shows "json_parse (CHR ''{'' # json_quote k @ t) = Some (JObj ms)"
proof -
  have "after ''}'' (skip_ws (json_quote k @ t)) = None" by (simp add: json_quote_def)
  with assms(1) have "json_value (Suc f) (CHR ''{'' # json_quote k @ t) = Some (JObj ms, [])" by (simp add: json_value.simps(2))
  then have "json_value (json_fuel (CHR ''{'' # json_quote k @ t)) (CHR ''{'' # json_quote k @ t) = Some (JObj ms, [])"
    using enough_fuel [OF assms(2)] by simp
  then show ?thesis by (simp add: json_parse_def skip_ws_def)
qed

lemma parse_encoded:
  assumes "introVersion n = 1" "capabilities n \<noteq> []"
  shows "json_parse (encodeNodeIntroduction n) = Some (JObj (introduction_object n))"
proof -
  let ?s = "encodeNodeIntroduction n" and ?caps = "join '','' (map json_quote (capabilities n))"
  define f where "f = json_fuel ?s + length (capabilities n)"
  have v: "num_string (Num 1) = ''1''" by code_simp
  have s: "?s = CHR ''{'' # json_quote ''scheme'' @ CHR '':'' # json_quote (introScheme n) @ CHR '','' #
      json_quote ''version'' @ CHR '':'' # CHR ''1'' # CHR '','' # json_quote ''nodeId'' @ CHR '':'' # json_quote (nodeId n) @ CHR '','' #
      json_quote ''publicKey'' @ CHR '':'' # json_quote (introPublicKey n) @ CHR '','' #
      json_quote ''staticKey'' @ CHR '':'' # json_quote (introStaticKey n) @ CHR '','' #
      json_quote ''capabilities'' @ CHR '':'' # (CHR ''['' # ?caps @ CHR '']'' # CHR '','' #
      json_quote ''nonce'' @ CHR '':'' # json_quote (introNonce n) @ CHR ''}'' # [])"
    by (simp add: encodeNodeIntroduction_def assms(1) v)
  have caps: "json_value (Suc (Suc (Suc f))) (CHR ''['' # ?caps @ CHR '']'' # r) = Some (JArr (map JStr (capabilities n)), r)" for r
    using json_value_array [of "capabilities n" "Suc (Suc f)" r] assms(2) by (simp add: f_def)
  have "json_members (Suc (Suc (Suc (Suc (Suc (Suc (Suc (Suc (Suc f))))))))) [] (tl ?s) = Some (introduction_object n, [])"
    by (simp add: s json_members_value [OF json_value_one] json_members_value [OF caps] introduction_object_def)
  then show ?thesis unfolding s list.sel by (rule json_parse_members) (simp only: s [symmetric], simp add: f_def)
qed

lemma decode_encoded:
  assumes "hash_sizes L" "well_formed L n"
  shows "decodeNodeIntroduction L (encodeNodeIntroduction n) = Inr n"
proof -
  obtain pk sk nonce where n: "length pk = 32" "length sk = 32" "length nonce = 16" "introPublicKey n = bytesToHex pk"
    "introStaticKey n = bytesToHex sk" "introNonce n = bytesToHex nonce" "nodeId n = deriveNodeId L pk"
    and v: "introVersion n = 1" "capabilities n \<noteq> []" "introScheme n = ''zaycomm''" "[] \<notin> set (capabilities n)"
    using assms(2) by (auto simp: well_formed_def)
  have id: "length (deriveNodeId L pk) = 16" "to_lower (deriveNodeId L pk) = deriveNodeId L pk"
    using assms(1) by (simp_all add: deriveNodeId_even hash_sizesD)
  have hex: "is_hex (JStr (bytesToHex bs)) k = (if k = 2 * length bs \<and> bs \<noteq> [] then Some (bytesToHex bs) else None)"
    for bs k using hex_text_hex [of bs] by (auto simp: is_hex_def hex_text_def simp del: hex_text_hex) (cases bs; simp)
  have caps: "capability_list (JArr (map JStr (capabilities n))) = Some (capabilities n)"
    using v(2,4) by (auto simp: capability_list_def list_all_iff comp_def)
  have "\<not> list_all is_space (encodeNodeIntroduction n)" by (simp add: encodeNodeIntroduction_def is_space_def)
  moreover have "pk \<noteq> []" "sk \<noteq> []" "nonce \<noteq> []" using n(1-3) by auto
  ultimately show ?thesis
    using n v id by (simp add: decodeNodeIntroduction_def parse_encoded introduction_object_def obj_get_def
        introduction_constants checkFields_def hex caps)
qed

lemma capability_list_Some:
  assumes "capability_list v = Some cs"
  shows "v = JArr (map JStr cs)" "cs \<noteq> []" "[] \<notin> set cs"
proof -
  let ?ok = "\<lambda>v. case v of JStr s \<Rightarrow> s \<noteq> [] | _ \<Rightarrow> False" and ?str = "\<lambda>v. case v of JStr s \<Rightarrow> s | _ \<Rightarrow> []"
  obtain vs where vs: "v = JArr vs" "list_all ?ok vs" "cs = map ?str vs" "vs \<noteq> []"
    using assms unfolding capability_list_def by (cases v) (auto split: if_splits)
  have "list_all ?ok ws \<Longrightarrow> ws = map JStr (map ?str ws) \<and> [] \<notin> set (map ?str ws)" for ws
    by (induction ws) (auto split: jsval.splits)
  with vs show "v = JArr (map JStr cs)" "cs \<noteq> []" "[] \<notin> set cs" by auto
qed

lemma accepted_introduction:
  assumes "decodeNodeIntroduction L raw = Inr n"
  shows "introScheme n = ''zaycomm'' \<and> introVersion n = 1 \<and>
    nodeId n = take 16 (bytesToHex (sha256 L (introducedIdentityPublicKey n))) \<and>
    length (introducedIdentityPublicKey n) = 32 \<and> length (introducedStaticPublicKey n) = 32 \<and>
    introPublicKey n = bytesToHex (introducedIdentityPublicKey n) \<and>
    introStaticKey n = bytesToHex (introducedStaticPublicKey n) \<and> length (introNonce n) = 32 \<and>
    capabilities n \<noteq> [] \<and> [] \<notin> set (capabilities n)"
proof -
  obtain candidate where "checkFields L candidate = Inr n"
    using assms by (auto simp: decodeNodeIntroduction_def introduction_error_def unsupported_def
        split: if_splits option.splits jsval.splits sum.splits)
  then obtain pk sk nid nonce caps where f: "is_hex (obj_get candidate ''publicKey'') 64 = Some pk"
    "is_hex (obj_get candidate ''staticKey'') 64 = Some sk" "is_hex (obj_get candidate ''nonce'') 32 = Some nonce"
    "deriveNodeId L (hexToBytes pk) = to_lower nid" "capability_list (obj_get candidate ''capabilities'') = Some caps"
    "n = \<lparr>introScheme = ''zaycomm'', introVersion = 1, nodeId = to_lower nid, introPublicKey = to_lower pk,
       introStaticKey = to_lower sk, capabilities = caps, introNonce = to_lower nonce\<rparr>"
    by (auto simp: checkFields_def introduction_error_def introduction_constants split: if_splits option.splits jsval.splits)
  have "caps \<noteq> []" "[] \<notin> set caps"
    using capability_list_Some [OF f(5)] by simp_all
  moreover have "hex_text pk" "hex_text sk" "length pk = 64" "length sk = 64" "length nonce = 32"
    using f(1-3) by (simp_all add: is_hex_Some)
  ultimately show ?thesis
    using f(4) by (simp add: f(6) introducedIdentityPublicKey_def introducedStaticPublicKey_def to_lower_hexToBytes
        hex_of_hexToBytes deriveNodeId_hex)
qed

section \<open>Properties\<close>

text \<open>The parser of scanned text ends within its step bound on every input. Running it with more steps than
  twice the length of the text gives the same answer, so a rejection is never for want of steps.\<close>

theorem json_parse_total:
  "json_parse raw = (case json_value (json_fuel raw + k) raw of
     None \<Rightarrow> None | Some (v, r) \<Rightarrow> if skip_ws r = [] then Some v else None)"
  by (simp add: json_parse_def enough_fuel [of raw "json_fuel raw + k"])

text \<open>An introduction survives the QR code. What a node with a 32-byte identity key creates, decoded from its
  JSON text by anyone, is the introduction created, whatever characters the capabilities contain.\<close>

theorem introduction_roundtrip:
  assumes "hash_sizes L" "length (publicKey identity) = 32" "\<forall>nonce. given = Some nonce \<longrightarrow> length nonce = 16"
    and "\<forall>cs. caps = Some cs \<longrightarrow> cs \<noteq> [] \<and> [] \<notin> set cs"
    and "createNodeIntroduction L i identity static caps given = Inr n"
  shows "decodeNodeIntroduction L (encodeNodeIntroduction n) = Inr n \<and>
    introducedIdentityPublicKey n = publicKey identity \<and> introducedStaticPublicKey n = static"
proof -
  have n: "introScheme n = ''zaycomm''" "introVersion n = 1" "nodeId n = deriveNodeId L (publicKey identity)"
    "introPublicKey n = bytesToHex (publicKey identity)" "introStaticKey n = bytesToHex static" "length static = 32"
    "capabilities n = (case caps of None \<Rightarrow> [''ble''] | Some cs \<Rightarrow> cs)"
    "introNonce n = bytesToHex (case given of None \<Rightarrow> random_bytes L i NONCE_LENGTH | Some x \<Rightarrow> x)"
    using assms(5) by (auto simp: createNodeIntroduction_def introduction_error_def INTRODUCTION_SCHEME_def
        INTRODUCTION_VERSION_def ED25519_PUBLIC_KEY_LENGTH_def split: if_splits)
  have "length (case given of None \<Rightarrow> random_bytes L i NONCE_LENGTH | Some x \<Rightarrow> x) = 16"
    using assms(1,3) by (cases given) (simp_all add: hash_sizesD NONCE_LENGTH_def)
  moreover have "capabilities n \<noteq> [] \<and> [] \<notin> set (capabilities n)" using assms(4) n(7) by (cases caps) auto
  ultimately have "well_formed L n" using n assms(2) unfolding well_formed_def by blast
  with decode_encoded [OF assms(1)] n show ?thesis
    by (simp add: introducedIdentityPublicKey_def introducedStaticPublicKey_def)
qed

definition alice_introduction :: NodeIntroduction where
  "alice_introduction = \<lparr>introScheme = ''zaycomm'', introVersion = 1, nodeId = deriveNodeId ref_lib (publicKey alice),
     introPublicKey = bytesToHex (publicKey alice), introStaticKey = bytesToHex (xPublicKey initiator_key),
     capabilities = [''ble'', ''wifi \<newline>''], introNonce = bytesToHex (replicate 16 5)\<rparr>"

lemma alice_introduction_created:
  "createNodeIntroduction ref_lib 0 alice (xPublicKey initiator_key) (Some [''ble'', ''wifi \<newline>'']) (Some (replicate 16 5))
    = Inr alice_introduction"
  by (simp add: createNodeIntroduction_def introduction_constants alice_introduction_def initiator_key_def)

theorem introduction_roundtrip_witness:
  "decodeNodeIntroduction ref_lib (encodeNodeIntroduction alice_introduction) = Inr alice_introduction \<and>
    introducedIdentityPublicKey alice_introduction = publicKey alice"
  using introduction_roundtrip [OF ref_hash_sizes _ _ _ alice_introduction_created] by (simp add: alice_def)

text \<open>C28: An accepted introduction is consistent. Whatever text is scanned, when it is accepted the node id is the
  fingerprint prefix of the advertised key, both keys are 32 bytes in canonical hexadecimal (so equal keys have
  equal texts), scheme and version are the program's and the capabilities are not empty.\<close>

theorem introduction_checked:
  assumes "decodeNodeIntroduction L raw = Inr n"
  shows "introScheme n = ''zaycomm'' \<and> introVersion n = 1 \<and>
    nodeId n = take 16 (bytesToHex (sha256 L (introducedIdentityPublicKey n))) \<and>
    length (introducedIdentityPublicKey n) = 32 \<and> length (introducedStaticPublicKey n) = 32 \<and>
    introPublicKey n = bytesToHex (introducedIdentityPublicKey n) \<and>
    introStaticKey n = bytesToHex (introducedStaticPublicKey n) \<and> length (introNonce n) = 32 \<and>
    capabilities n \<noteq> [] \<and> [] \<notin> set (capabilities n)"
  by (rule accepted_introduction [OF assms])

theorem introduction_checked_witness:
  "\<exists>n. decodeNodeIntroduction ref_lib (encodeNodeIntroduction alice_introduction) = Inr n \<and>
    nodeId n = take 16 (bytesToHex (sha256 ref_lib (introducedIdentityPublicKey n))) \<and>
    introPublicKey n = bytesToHex (introducedIdentityPublicKey n) \<and> length (introducedStaticPublicKey n) = 32"
proof -
  have "decodeNodeIntroduction ref_lib (encodeNodeIntroduction alice_introduction) = Inr alice_introduction"
    by (rule decode_encoded) (auto simp: well_formed_def alice_introduction_def alice_def initiator_key_def)
  from this introduction_checked [OF this] show ?thesis by blast
qed

text \<open>A rejection that is not typed. The header of the file promises that every rejection is typed; a code whose
  scheme is an object with a member \<open>toString\<close> makes the message of the rejection throw a \<open>TypeError\<close>.\<close>

theorem untyped_rejection:
  "decodeNodeIntroduction L ''{\"scheme\":{\"toString\":1}}'' = Inl (OtherError TypeErr)"
proof -
  have "json_parse ''{\"scheme\":{\"toString\":1}}'' = Some (JObj [(''scheme'', JObj [(''toString'', JNum (Num 1))])])"
    by code_simp
  moreover have "\<not> is_space (CHR ''{'')" by (simp add: is_space_def)
  ultimately show ?thesis by (simp add: decodeNodeIntroduction_def obj_get_def unsupported_def)
qed

end
