(* ===== verification/NodeProcess.thy ===== *)
theory NodeProcess
  imports RelayNetwork Introduction
begin

text \<open>
  \<open>src/node/node-process.ts\<close>: a \<open>RelayNode\<close> on a UDP transport, driven by commands on standard input and
  reporting events on standard output. The configuration and the commands are the parsed, well-typed objects.
  The frames a handler of the relay gave to its transport are the new entries of its \<open>sent\<close>, the listeners it
  called the new entries of its \<open>events\<close>; they become datagrams and reported events when the handler is done,
  which is where the code calls the listeners for everything but the envelopes inside a sync transfer.
  What \<open>TextDecoder\<close> makes of the bytes it is given is left to the reader of the event.
\<close>

section \<open>Configuration, commands and events\<close>

record PeerConfig =
  cfgPeerId :: string
  cfgHost :: string
  cfgPort :: jsnum
  cfgPublicKey :: string

record SessionConfig =
  cfgSessionPeer :: string
  cfgSessionId :: string
  cfgSendKey :: string
  cfgReceiveKey :: string

record NodeConfig =
  cfgId :: string
  cfgPrivateKey :: string
  cfgNodePort :: "jsnum option"
  cfgNodeHost :: "string option"
  cfgPeers :: "PeerConfig list option"
  cfgSessions :: "SessionConfig list option"
  cfgAckDestinationHint :: "string option"

record AdvertisementWire =
  wirePublicKey :: string
  wireDestinations :: "string list"
  wireTimestamp :: jsnum
  wireSignature :: string

datatype Command =
    AddPeerCommand PeerConfig
  | AuthPeer string string
  | Advertise string AdvertisementWire
  | SendEnvelope string
  | InitiateSync string
  | Status
  | Shutdown

datatype NodeEvent =
    Ready string string int string
  | DeliveredText string bytes
  | DeliveredOnly string
  | AckEvent string
  | PeerAdded string
  | PeerAuthenticated string
  | AdvertisementProcessed string
  | SendResult DeliveryResult
  | SyncResult string bool
  | StatusEvent string nat "string list"
  | ErrorEvent string
  | Fatal string

text \<open>\<open>Buffer.from(value, 'hex')\<close> stops at the first pair that is not two hexadecimal digits.\<close>

fun buffer_hex :: "string \<Rightarrow> bytes" where
  "buffer_hex (a # b # s) = (case (hex_value a, hex_value b) of
     (Some i, Some j) \<Rightarrow> word_of_nat (16 * i + j) # buffer_hex s | _ \<Rightarrow> [])"
| "buffer_hex _ = []"

definition decodeAdvertisement :: "AdvertisementWire \<Rightarrow> RoutingAdvertisement" where
  "decodeAdvertisement adv =
     \<lparr>adPublicKey = buffer_hex (wirePublicKey adv), reachableDestinations = map buffer_hex (wireDestinations adv),
      adTimestamp = wireTimestamp adv, adSignature = buffer_hex (wireSignature adv)\<rparr>"

text \<open>The message of what was thrown; messages of the engine and the libraries are not modelled.\<close>

definition thrown_message :: "js_error \<Rightarrow> string" where
  "thrown_message e = (case e of Err s \<Rightarrow> s | _ \<Rightarrow> [])"

section \<open>The process\<close>

record NodeProcess =
  relay :: RelayNode
  udp :: UdpTransport
  pendingSessions :: "(string, SessionConfig) jsmap"
  emitted :: "NodeEvent list"
  exited :: bool

type_synonym 'a process = "(NodeProcess, 'a) op"

definition emit :: "NodeEvent \<Rightarrow> unit process" where
  "emit ev = change (\<lambda>P. P\<lparr>emitted := emitted P @ [ev]\<rparr>)"

abbreviation on_node :: "'a relay \<Rightarrow> 'a process" where
  "on_node \<equiv> on_part_res relay (\<lambda>s. relay_update (\<lambda>_. s))"

abbreviation on_udp :: "(UdpTransport \<Rightarrow> 'a res \<times> UdpTransport) \<Rightarrow> 'a process" where
  "on_udp \<equiv> on_part_res udp (\<lambda>U. udp_update (\<lambda>_. U))"

text \<open>The frames the relay handed to \<open>transport.send\<close> become datagrams.\<close>

definition hand_frames :: "(string \<Rightarrow> bytes \<Rightarrow> bool) \<Rightarrow> (string \<times> bytes) list \<Rightarrow> UdpTransport \<Rightarrow> UdpTransport" where
  "hand_frames throws frames U = fold (\<lambda>(n, f) U. snd (udp_send (throws n f) n f U)) frames U"

definition with_transport :: "(string \<Rightarrow> bytes \<Rightarrow> bool) \<Rightarrow> (RelayTransport \<Rightarrow> 'a relay) \<Rightarrow> 'a process" where
  "with_transport throws m P =
     (case m (udp_view throws (udp P)) (relay P) of
        (r, s) \<Rightarrow> (r, P\<lparr>relay := s, udp := hand_frames throws (drop (length (sent (relay P))) (sent s)) (udp P)\<rparr>))"

definition registerSession :: "int \<Rightarrow> SessionConfig \<Rightarrow> PeerConfig \<Rightarrow> unit process" where
  "registerSession nowMs session peer =
     chain (on_node (registerAuthenticatedSession nowMs (cfgSessionPeer session) (buffer_hex (cfgPublicKey peer))
              \<lparr>syncSessionId = cfgSessionId session, syncSendKey = buffer_hex (cfgSendKey session),
               syncReceiveKey = buffer_hex (cfgReceiveKey session)\<rparr>))
       (\<lambda>_. change (\<lambda>P. P\<lparr>pendingSessions := mdel (cfgSessionPeer session) (pendingSessions P)\<rparr>))"

definition configurePeer :: "int \<Rightarrow> PeerConfig \<Rightarrow> unit process" where
  "configurePeer nowMs peer =
     chain (on_udp (addPeer (cfgPeerId peer) (cfgHost peer) (cfgPort peer))) (\<lambda>_.
     chain (on_node (registerAuthenticatedPeer nowMs (cfgPeerId peer) (buffer_hex (cfgPublicKey peer)) None)) (\<lambda>_.
     chain (look (\<lambda>P. mget (pendingSessions P) (cfgPeerId peer))) (\<lambda>pending.
       case pending of None \<Rightarrow> ret () | Some s \<Rightarrow> registerSession nowMs s peer)))"

definition config_session :: "int \<Rightarrow> PeerConfig list \<Rightarrow> SessionConfig \<Rightarrow> unit process" where
  "config_session nowMs peers session =
     (case find (\<lambda>candidate. cfgPeerId candidate = cfgSessionPeer session) peers of
        Some peer \<Rightarrow> registerSession nowMs session peer
      | None \<Rightarrow> change (\<lambda>P. P\<lparr>pendingSessions := mset_at (cfgSessionPeer session) session (pendingSessions P)\<rparr>))"

text \<open>The two loops of \<open>main\<close> over the configured peers and sessions.\<close>

definition configure_node :: "int \<Rightarrow> NodeConfig \<Rightarrow> unit process" where
  "configure_node nowMs config =
     (let peers = (case cfgPeers config of None \<Rightarrow> [] | Some ps \<Rightarrow> ps)
      in chain (each (configurePeer nowMs) peers) (\<lambda>_.
           each (config_session nowMs peers) (case cfgSessions config of None \<Rightarrow> [] | Some ss \<Rightarrow> ss)))"

text \<open>\<open>bind\<close> is what binding the socket to a host and port gives: its address, or the error it reports.\<close>

definition launch :: "lib \<Rightarrow> (string \<Rightarrow> jsnum \<Rightarrow> (string \<times> int) res) \<Rightarrow> int \<Rightarrow> NodeConfig option \<Rightarrow> NodeProcess res" where
  "launch L bind nowMs env = (case env of
     None \<Rightarrow> Inl (Err ''ZAYCOMM_NODE_CONFIG_REQUIRED'')
   | Some config \<Rightarrow>
       (let sk = buffer_hex (cfgPrivateKey config)
        in if length sk \<noteq> 32 then Inl LibErr
           else rbind (new_udp (cfgId config) \<lparr>optUnit = None, optReliability = None\<rparr>) (\<lambda>U.
                rbind (bind (case cfgNodeHost config of None \<Rightarrow> ''127.0.0.1'' | Some h \<Rightarrow> h)
                            (case cfgNodePort config of None \<Rightarrow> Num 0 | Some p \<Rightarrow> p)) (\<lambda>(host, port).
                  let idn = \<lparr>publicKey = ed_public L sk, privateKey = sk\<rparr>;
                      P = \<lparr>relay = new_relay L idn, udp = udp_onReceive U, pendingSessions = [], emitted = [], exited = False\<rparr>
                  in case configure_node nowMs config P of
                       (Inl e, _) \<Rightarrow> Inl e
                     | (Inr _, P') \<Rightarrow> Inr (snd (emit (Ready (cfgId config) host port (bytesToHex (publicKey idn))) P'))))))"

text \<open>The process when \<open>main\<close> was called: what it reported, and the process unless it ended at once.\<close>

definition main :: "lib \<Rightarrow> (string \<Rightarrow> jsnum \<Rightarrow> (string \<times> int) res) \<Rightarrow> int \<Rightarrow> NodeConfig option \<Rightarrow> NodeEvent list \<times> NodeProcess option" where
  "main L bind nowMs env = (case launch L bind nowMs env of
     Inl e \<Rightarrow> ([Fatal (thrown_message e)], None) | Inr P \<Rightarrow> (emitted P, Some P))"

section \<open>Listeners\<close>

definition ack_listener :: "relay_event \<Rightarrow> NodeEvent list" where
  "ack_listener ev = (case ev of AckListener mid \<Rightarrow> [AckEvent (bytesToHex mid)] | _ \<Rightarrow> [])"

definition on_delivered ::
    "lib \<Rightarrow> (string \<Rightarrow> bytes \<Rightarrow> bool) \<Rightarrow> int \<Rightarrow> nat \<Rightarrow> NodeConfig \<Rightarrow> Envelope \<Rightarrow> unit process" where
  "on_delivered L throws nowMs depth config e =
     (let mid = messageId (header e)
      in attempt
        (chain (lift_res (openDataEnvelope L e)) (\<lambda>(_, ciphertext).
         chain (emit (DeliveredText (bytesToHex mid) ciphertext)) (\<lambda>_.
           case truthy (cfgAckDestinationHint config) of
             None \<Rightarrow> ret ()
           | Some hint \<Rightarrow> (\<lambda>P. case with_transport throws (\<lambda>T. sendAck L T nowMs depth (buffer_hex hint) mid) P of
               (r, P1) \<Rightarrow> (r, P1\<lparr>emitted := emitted P1 @
                 concat (map ack_listener (drop (length (events (relay P))) (events (relay P1))))\<rparr>)))))
        (emit (DeliveredOnly (bytesToHex mid))))"

definition listener ::
    "lib \<Rightarrow> (string \<Rightarrow> bytes \<Rightarrow> bool) \<Rightarrow> int \<Rightarrow> nat \<Rightarrow> NodeConfig \<Rightarrow> relay_event \<Rightarrow> unit process" where
  "listener L throws nowMs depth config ev = (case ev of
     DeliveryListener e \<Rightarrow> on_delivered L throws nowMs depth config e
   | AckListener mid \<Rightarrow> emit (AckEvent (bytesToHex mid))
   | BroadcastListener _ \<Rightarrow> ret ())"

definition on_datagram ::
    "lib \<Rightarrow> (string \<Rightarrow> bytes \<Rightarrow> bool) \<Rightarrow> nat \<Rightarrow> NodeConfig \<Rightarrow> int \<Rightarrow> string \<Rightarrow> int \<Rightarrow> bytes \<Rightarrow> NodeProcess \<Rightarrow> NodeProcess" where
  "on_datagram L throws depth config nowMs host port message P =
     (case udp_message host port message (udp P) of
        None \<Rightarrow> P
      | Some (n, f) \<Rightarrow>
          (case with_transport throws (\<lambda>T s. (Inr (), receiveFrame L T nowMs depth n f s)) P of
             (_, P1) \<Rightarrow> snd (each (listener L throws nowMs depth config)
               (drop (length (events (relay P))) (events (relay P1))) P1)))"

section \<open>Commands\<close>

definition run_command :: "lib \<Rightarrow> (string \<Rightarrow> bytes \<Rightarrow> bool) \<Rightarrow> int \<Rightarrow> NodeConfig \<Rightarrow> Command \<Rightarrow> unit process" where
  "run_command L throws nowMs config command = (case command of
     AddPeerCommand peer \<Rightarrow> chain (configurePeer nowMs peer) (\<lambda>_. emit (PeerAdded (cfgPeerId peer)))
   | AuthPeer peerId pk \<Rightarrow>
       chain (on_node (registerAuthenticatedPeer nowMs peerId (buffer_hex pk) None)) (\<lambda>_. emit (PeerAuthenticated peerId))
   | Advertise peerId adv \<Rightarrow>
       chain (with_transport throws (\<lambda>T. receiveAdvertisement L T nowMs peerId (decodeAdvertisement adv)))
         (\<lambda>_. emit (AdvertisementProcessed peerId))
   | SendEnvelope encoded \<Rightarrow>
       chain (lift_res (decodeEnvelope L (buffer_hex encoded))) (\<lambda>e.
       chain (with_transport throws (\<lambda>T. sendEnvelope L T nowMs e)) (\<lambda>result. emit (SendResult result)))
   | InitiateSync peerId \<Rightarrow>
       chain (with_transport throws (\<lambda>T. initiateSync L T nowMs peerId)) (\<lambda>initiated. emit (SyncResult peerId initiated))
   | Status \<Rightarrow> chain (on_node (queueSize nowMs)) (\<lambda>size. emit (StatusEvent (cfgId config) size [''status'']))
   | Shutdown \<Rightarrow> change (\<lambda>P. P\<lparr>udp := udp_close (udp P), exited := True\<rparr>))"

text \<open>A line is a command, an object with another \<open>op\<close>, or no JSON at all.\<close>

datatype Line = CommandLine Command | UnknownOp | NotJson string

definition on_line :: "lib \<Rightarrow> (string \<Rightarrow> bytes \<Rightarrow> bool) \<Rightarrow> int \<Rightarrow> NodeConfig \<Rightarrow> Line \<Rightarrow> NodeProcess \<Rightarrow> NodeProcess" where
  "on_line L throws nowMs config line P = (case line of
     NotJson message \<Rightarrow> snd (emit (ErrorEvent message) P)
   | UnknownOp \<Rightarrow> P
   | CommandLine command \<Rightarrow> (case run_command L throws nowMs config command P of
        (Inl e, P') \<Rightarrow> snd (emit (ErrorEvent (thrown_message e)) P')
      | (Inr _, P') \<Rightarrow> P'))"

text \<open>What happens to the process, one step after the other, until it has exited.\<close>

datatype Input = Stdin int Line | Datagram int string int bytes

fun process_step :: "lib \<Rightarrow> (string \<Rightarrow> bytes \<Rightarrow> bool) \<Rightarrow> nat \<Rightarrow> NodeConfig \<Rightarrow> Input \<Rightarrow> NodeProcess \<Rightarrow> NodeProcess" where
  "process_step L throws depth config (Stdin nowMs line) P = (if exited P then P else on_line L throws nowMs config line P)"
| "process_step L throws depth config (Datagram nowMs host port message) P =
     (if exited P then P else on_datagram L throws depth config nowMs host port message P)"

section \<open>Frames and datagrams\<close>

declare process_step.simps [simp del]

lemma buffer_hex_bytes [simp]: "buffer_hex (bytesToHex bs) = bs"
proof (induction bs)
  case (Cons b bs)
  have d: "unat b div 16 < 16" using unat_byte [of b] by linarith
  have "16 * (unat b div 16) + unat b mod 16 = unat b" by (rule mult_div_mod_eq)
  then have "word_of_nat (16 * (unat b div 16) + unat b mod 16) = b" by (simp only: of_nat_unat ucast_id)
  with Cons d show ?case by (simp del: of_nat_add of_nat_mult mult_div_mod_eq)
qed simp

lemma udp_view_datagrams [simp]: "udp_view throws (U\<lparr>datagrams := d\<rparr>) = udp_view throws U"
  by (auto simp: udp_view_def udp_discoverNeighbors_def udp_getLinkCharacteristics_def udp_send_def fun_eq_iff split: option.splits)

lemma udp_message_datagrams [simp]: "udp_message host port f (U\<lparr>datagrams := d\<rparr>) = udp_message host port f U"
  by (simp add: udp_message_def split: option.split)

lemma hand_frames_datagrams: "\<exists>d. hand_frames throws frames U = U\<lparr>datagrams := d\<rparr>"
proof (induction frames arbitrary: U)
  case Nil
  have "hand_frames throws [] U = U\<lparr>datagrams := datagrams U\<rparr>" by (simp add: hand_frames_def)
  then show ?case by blast
next
  case (Cons x frames)
  obtain n f where x: "x = (n, f)" by (cases x)
  obtain d where "snd (udp_send (throws n f) n f U) = U\<lparr>datagrams := d\<rparr>"
  proof (cases "snd (udp_send (throws n f) n f U) = U")
    case True
    then have "snd (udp_send (throws n f) n f U) = U\<lparr>datagrams := datagrams U\<rparr>" by simp
    then show ?thesis by (rule that)
  next
    case False
    then have "snd (udp_send (throws n f) n f U) = U\<lparr>datagrams := datagrams U @ [(f, udpPort (the (mget (udpPeers U) n)), udpHost (the (mget (udpPeers U) n)))]\<rparr>"
      by (auto simp: udp_send_def split: option.splits if_splits)
    then show ?thesis by (rule that)
  qed
  with Cons.IH [of "U\<lparr>datagrams := d\<rparr>"] show ?case by (auto simp: hand_frames_def x)
qed

lemma hand_frames_taken:
  assumes "mget (udpPeers U) n = Some \<lparr>udpHost = host, udpPort = port\<rparr>" "\<forall>f \<in> set fs. accepts (udp_view throws U) n f"
  shows "hand_frames throws (map (Pair n) fs) U = U\<lparr>datagrams := datagrams U @ map (\<lambda>f. (f, port, host)) fs\<rparr>"
  using assms
proof (induction fs arbitrary: U)
  case (Cons f fs)
  have "snd (udp_send (throws n f) n f U) = U\<lparr>datagrams := datagrams U @ [(f, port, host)]\<rparr>"
    using Cons.prems by (auto simp: udp_view_def udp_send_def split: if_splits)
  moreover have "hand_frames throws (map (Pair n) fs) (U\<lparr>datagrams := datagrams U @ [(f, port, host)]\<rparr>) =
      U\<lparr>datagrams := (datagrams U @ [(f, port, host)]) @ map (\<lambda>f. (f, port, host)) fs\<rparr>"
    using Cons.IH [of "U\<lparr>datagrams := datagrams U @ [(f, port, host)]\<rparr>"] Cons.prems by simp
  ultimately show ?case by (simp add: hand_frames_def)
qed (simp add: hand_frames_def)

section \<open>What listeners report\<close>

text \<open>What a process without an acknowledgement hint reports for a call of a listener.\<close>

definition listener_output :: "lib \<Rightarrow> relay_event \<Rightarrow> NodeEvent list" where
  "listener_output L ev = (case ev of
     DeliveryListener e \<Rightarrow> [case openDataEnvelope L e of
         Inl _ \<Rightarrow> DeliveredOnly (bytesToHex (messageId (header e)))
       | Inr (_, c) \<Rightarrow> DeliveredText (bytesToHex (messageId (header e))) c]
   | _ \<Rightarrow> ack_listener ev)"

lemma listener_reports:
  assumes "truthy (cfgAckDestinationHint config) = None"
  shows "listener L throws t depth config ev P = (Inr (), P\<lparr>emitted := emitted P @ listener_output L ev\<rparr>)"
proof (cases ev)
  case (DeliveryListener e)
  with assms show ?thesis
    by (cases "openDataEnvelope L e")
      (auto simp: listener_def on_delivered_def listener_output_def attempt_def chain_def emit_def Let_def)
qed (simp_all add: listener_def listener_output_def ack_listener_def emit_def)

lemma listeners_report:
  assumes "truthy (cfgAckDestinationHint config) = None"
  shows "each (listener L throws t depth config) evs P = (Inr (), P\<lparr>emitted := emitted P @ concat (map (listener_output L) evs)\<rparr>)"
proof (induction evs arbitrary: P)
  case (Cons ev evs)
  then show ?case by (simp add: chain_Inr [OF listener_reports [OF assms]])
qed simp

lemma datagram_effect:
  assumes "truthy (cfgAckDestinationHint config) = None" "udp_message host port f (udp P) = Some (n, f)"
  shows "\<exists>d. on_datagram L throws depth config t host port f P =
    P\<lparr>relay := receiveFrame L (udp_view throws (udp P)) t depth n f (relay P), udp := (udp P)\<lparr>datagrams := d\<rparr>,
      emitted := emitted P @ concat (map (listener_output L) (drop (length (events (relay P)))
        (events (receiveFrame L (udp_view throws (udp P)) t depth n f (relay P)))))\<rparr>"
proof -
  let ?s = "receiveFrame L (udp_view throws (udp P)) t depth n f (relay P)"
  obtain d where "hand_frames throws (drop (length (sent (relay P))) (sent ?s)) (udp P) = (udp P)\<lparr>datagrams := d\<rparr>"
    using hand_frames_datagrams by blast
  then show ?thesis
    using assms by (intro exI [of _ d]) (simp add: on_datagram_def with_transport_def listeners_report)
qed

lemma drop_prefixes:
  assumes "Sublist.prefix xs ys" "Sublist.prefix ys zs"
  shows "drop (length xs) zs = drop (length xs) ys @ drop (length ys) zs"
  using assms by (auto simp: prefix_def)

lemma frames_prefix: "Sublist.prefix (events s) (events (receive_frames L T depth n arrivals s))"
proof (induction arrivals arbitrary: s)
  case (Cons x arrivals)
  obtain t f where x: "x = (t, f)" by (cases x)
  have "Sublist.prefix (events s) (events (receiveFrame L T t depth n f s))"
    using frame_local [of n s L T t depth f] by (simp add: stays_local_def)
  moreover have "Sublist.prefix (events (receiveFrame L T t depth n f s)) (events (receive_frames L T depth n (x # arrivals) s))"
    using Cons.IH [of "receiveFrame L T t depth n f s"] by (simp add: x receive_frames_def)
  ultimately show ?case by (rule prefix_order.trans)
qed (simp add: receive_frames_def)

lemma datagrams_effect:
  assumes "truthy (cfgAckDestinationHint config) = None" "\<not> exited P"
    and "\<And>f. f \<in> set (map snd arrivals) \<Longrightarrow> udp_message host port f (udp P) = Some (n, f)"
  shows "relay (fold (\<lambda>(t, f). process_step L throws depth config (Datagram t host port f)) arrivals P)
      = receive_frames L (udp_view throws (udp P)) depth n arrivals (relay P) \<and>
    emitted (fold (\<lambda>(t, f). process_step L throws depth config (Datagram t host port f)) arrivals P)
      = emitted P @ concat (map (listener_output L) (drop (length (events (relay P)))
          (events (receive_frames L (udp_view throws (udp P)) depth n arrivals (relay P)))))"
  using assms(2,3)
proof (induction arrivals arbitrary: P)
  case (Cons x arrivals)
  obtain t f where x: "x = (t, f)" by (cases x)
  let ?T = "udp_view throws (udp P)" and ?s1 = "receiveFrame L (udp_view throws (udp P)) t depth n f (relay P)"
  obtain d where d: "on_datagram L throws depth config t host port f P = P\<lparr>relay := ?s1, udp := (udp P)\<lparr>datagrams := d\<rparr>,
      emitted := emitted P @ concat (map (listener_output L) (drop (length (events (relay P))) (events ?s1)))\<rparr>" (is "_ = ?P")
    using datagram_effect [OF assms(1), of host port f P n L throws depth t] Cons.prems(2) [of f] unfolding x by auto
  have step: "process_step L throws depth config (Datagram t host port f) P = ?P" using Cons.prems(1) d by (simp add: process_step.simps)
  have IH: "relay (fold (\<lambda>(t, f). process_step L throws depth config (Datagram t host port f)) arrivals ?P) =
      receive_frames L ?T depth n arrivals ?s1 \<and>
    emitted (fold (\<lambda>(t, f). process_step L throws depth config (Datagram t host port f)) arrivals ?P) =
      emitted ?P @ concat (map (listener_output L) (drop (length (events ?s1)) (events (receive_frames L ?T depth n arrivals ?s1))))"
    using Cons.IH [of ?P] Cons.prems by simp
  have all: "receive_frames L ?T depth n (x # arrivals) (relay P) = receive_frames L ?T depth n arrivals ?s1"
    by (simp add: receive_frames_def x)
  have "Sublist.prefix (events (relay P)) (events ?s1)" using frame_local [of n "relay P" L ?T t depth f] by (simp add: stays_local_def)
  from drop_prefixes [OF this frames_prefix] IH show ?case
    unfolding all by (simp add: x step)
qed (simp add: receive_frames_def)

section \<open>From process to process\<close>

text \<open>C5: Delivery from process to process. When a process is told to send an envelope addressed to one of its
  authenticated peers, it answers that the envelope was forwarded to that peer and hands its socket datagrams for
  the peer's endpoint; the peer's process, given these datagrams in order within thirty seconds while it has room,
  reports exactly one delivery with the envelope's id and payload, however many fragments it took.\<close>

theorem process_delivery:
  assumes "cbor_roundtrips L" "cbor_compact L" "cbor_tight L"
    and "plain_header (header e)" "plain_header (header (next_hop_copy e))" "length (messageId (header e)) = 16"
    and "packetType (header e) = packet_code Data" "validateRoutingHeader t 3600 (header e)" "openDataEnvelope L e = Inr (rh, c)"
    and "\<not> exited A" "\<not> udpClosed (udp A)" "34 \<le> udpUnit (udp A)" "udpUnit (udp A) \<le> 4129"
    and "int (length (encodeEnvelope L (next_hop_copy e))) \<le> 4096 * (udpUnit (udp A) - 33)"
    and "find (\<lambda>(n, p). bytesEqual (computeDestinationHint L (peerIdentityKey p)) (destinationHint (header e)))
      (authenticatedPeers (relay A)) = Some (n, p)"
    and "mget (udpPeers (udp A)) n = Some \<lparr>udpHost = host, udpPort = port\<rparr>" "n \<noteq> []"
    and "\<not> exited B" "udpReceiver (udp B)" "udpUnit (udp A) \<le> udpUnit (udp B)"
    and "mget (neighborByEndpoint (udp B)) (endpointKey host' port') = Some m" "m \<noteq> []"
    and "mget (authenticatedPeers (relay B)) m = Some peer" "destinationHint (header e) = ownDestinationHint (relay B)"
    and "truthy (cfgAckDestinationHint configB) = None"
    and "room_for (reassembler (relay B)) (bytesToHex (messageId (header e))) (m @ '':'' @ int_string (establishedAt peer))
      (length (encodeEnvelope L (next_hop_copy e)))"
  shows "\<exists>fs. fs \<noteq> [] \<and>
    emitted (process_step L (\<lambda>_ _. False) depthA configA (Stdin t (CommandLine (SendEnvelope (bytesToHex (encodeEnvelope L e))))) A)
      = emitted A @ [SendResult (Forwarded n)] \<and>
    datagrams (udp (process_step L (\<lambda>_ _. False) depthA configA (Stdin t (CommandLine (SendEnvelope (bytesToHex (encodeEnvelope L e))))) A))
      = datagrams (udp A) @ map (\<lambda>f. (f, port, host)) fs \<and>
    (\<forall>ts. length ts = length fs \<and> (\<forall>t \<in> set ts. no_stale (reassembler (relay B)) t \<and> t - hd ts \<le> 30000) \<and>
        validateRoutingHeader (last ts) 3600 (header (next_hop_copy e)) \<longrightarrow>
      emitted (fold (\<lambda>(t, f). process_step L throws (Suc depth) configB (Datagram t host' port' f)) (zip ts fs) B)
        = emitted B @ [DeliveredText (bytesToHex (messageId (header e))) c])"
proof -
  let ?e = "next_hop_copy e" and ?T = "udp_view (\<lambda>_ _. False) (udp A)"
  have unit: "linkUnit ?T n = Some (udpUnit (udp A))"
    using assms(16) by (simp add: udp_view_def udp_getLinkCharacteristics_def mhas_def)
  have e: "length (messageId (header ?e)) = 16" "messageId (header ?e) = messageId (header e)"
    "packetType (header ?e) = packet_code Data" "destinationHint (header ?e) = destinationHint (header e)"
    "openDataEnvelope L ?e = Inr (rh, c)"
    using assms(6,7,9) by (simp_all add: next_hop_copy_def openDataEnvelope_def)
  obtain fs where fs: "frames_for L ?T n ?e = Inr fs" "fs \<noteq> []" "\<forall>f \<in> set fs. accepts ?T n f"
    and send: "sendEnvelopeOverTransport L ?T n ?e (relay A) = (Inr True, (relay A)\<lparr>sent := sent (relay A) @ map (Pair n) fs\<rparr>)"
    using udp.sends_all [OF _ assms(3) e(1) unit assms(12-14)] assms(11) by auto
  obtain s' where s': "sendEnvelope L ?T t e (relay A) = (Inr (Forwarded n), s')" "sent s' = sent (relay A) @ map (Pair n) fs"
    using send_direct [OF _ assms(17) fs(1,3) assms(15)] assms(8) by (auto simp: STORE_FORWARD_MAX_AGE_SECONDS_def)
  let ?A = "A\<lparr>relay := s', udp := (udp A)\<lparr>datagrams := datagrams (udp A) @ map (\<lambda>f. (f, port, host)) fs\<rparr>,
    emitted := emitted A @ [SendResult (Forwarded n)]\<rparr>"
  have A: "process_step L (\<lambda>_ _. False) depthA configA (Stdin t (CommandLine (SendEnvelope (bytesToHex (encodeEnvelope L e))))) A = ?A"
    using assms(10) s' decode_encode_envelope [OF assms(1,4)] hand_frames_taken [OF assms(16) fs(3)]
    by (simp add: process_step.simps on_line_def run_command_def with_transport_def chain_def emit_def)
  have "emitted (fold (\<lambda>(t, f). process_step L throws (Suc depth) configB (Datagram t host' port' f)) (zip ts fs) B)
      = emitted B @ [DeliveredText (bytesToHex (messageId (header e))) c]"
    if ts: "length ts = length fs" "\<forall>t \<in> set ts. no_stale (reassembler (relay B)) t \<and> t - hd ts \<le> 30000"
      and valid: "validateRoutingHeader (last ts) 3600 (header ?e)" for ts
  proof -
    let ?U = "udp_view throws (udp B)"
    have "int (length f) \<le> udpUnit (udp B)" if "f \<in> set fs" for f
      using fs(3) that assms(20) by (auto simp: udp_view_def udp_send_def split: if_splits)
    then have msg: "udp_message host' port' f (udp B) = Some (m, f)" if "f \<in> set (map snd (zip ts fs))" for f
      using that ts(1) assms(19,21,22) by (auto simp: udp_message_def linorder_not_less [symmetric])
    obtain R where R: "receive_frames L ?U (Suc depth) m (zip ts fs) (relay B)
        = snd (receiveEnvelope L ?U (last ts) (Suc depth) ?e (Some m) ((relay B)\<lparr>reassembler := R\<rparr>))"
      using frames_transparent [OF assms(1,2,5) e(1) _ send _ fs(2) assms(23) ts(1), of ?U "Suc depth"] unit assms(13,26) ts(2) e(2) by auto
    have "events (receive_frames L ?U (Suc depth) m (zip ts fs) (relay B)) = events (relay B) @ [DeliveryListener ?e]"
      unfolding R using receive_data [OF e(3)] valid assms(24) e(4) by (simp add: STORE_FORWARD_MAX_AGE_SECONDS_def del: receiveEnvelope.simps)
    with datagrams_effect [OF assms(25,18) msg, where L = L and throws = throws and depth = "Suc depth"] e(2,5) show ?thesis
      by (simp add: listener_output_def)
  qed
  with fs(2) show ?thesis unfolding A by auto
qed

definition node_envelope :: Envelope where
  "node_envelope = own_envelope\<lparr>sealedPayload := cbor_encode ref_lib
     (sealed_tuple \<lparr>dhPublicKey = replicate 32 1, previousChainLength = Num 0, messageNumber = Num 0\<rparr> [72, 105])\<rparr>"

definition node_a :: NodeProcess where
  "node_a = \<lparr>relay = snd (registerAuthenticatedPeer 1700000040000 ''b'' (publicKey alice) None (new_relay ref_lib bob)),
     udp = fold udp_step [AddPeer ''b'' ''127.0.0.1'' (Num 4001)] test_udp, pendingSessions = [], emitted = [], exited = False\<rparr>"

definition node_b :: NodeProcess where
  "node_b = \<lparr>relay = synced_node, udp = fold udp_step [AddPeer ''n1'' ''127.0.0.1'' (Num 4000), OnReceive] test_udp,
     pendingSessions = [], emitted = [], exited = False\<rparr>"

definition test_config :: NodeConfig where
  "test_config = \<lparr>cfgId = ''n1'', cfgPrivateKey = [], cfgNodePort = None, cfgNodeHost = None, cfgPeers = None, cfgSessions = None,
     cfgAckDestinationHint = None\<rparr>"

lemma udp_step_add:
  "udp_step (AddPeer n host (Num q)) U = (if n = [] \<or> q < 1 \<or> 65535 < q then U
     else U\<lparr>udpPeers := mset_at n \<lparr>udpHost = host, udpPort = q\<rparr> (udpPeers U),
            neighborByEndpoint := mset_at (endpointKey host q) n (neighborByEndpoint U)\<rparr>)"
  by (simp add: addPeer_def is_integer_def num_trunc_def less_jsnum_def)

lemma node_envelope:
  "header node_envelope = header own_envelope" "plain_header (header node_envelope)" "plain_header (header (next_hop_copy node_envelope))"
  "length (messageId (header node_envelope)) = 16" "packetType (header node_envelope) = packet_code Data"
  "validateRoutingHeader 1700000050000 3600 (header node_envelope)" "validateRoutingHeader 1700000050000 3600 (header (next_hop_copy node_envelope))"
  "openDataEnvelope ref_lib node_envelope = Inr (\<lparr>dhPublicKey = replicate 32 1, previousChainLength = Num 0, messageNumber = Num 0\<rparr>, [72, 105])"
  "length (encodeEnvelope ref_lib (next_hop_copy node_envelope)) \<le> 200"
proof -
  let ?e = node_envelope
  show h: "header ?e = header own_envelope" by (simp add: node_envelope_def)
  show "plain_header (header ?e)" "plain_header (header (next_hop_copy ?e))" "length (messageId (header ?e)) = 16"
    "packetType (header ?e) = packet_code Data"
    by (simp_all add: plain_header_def h own_envelope_def test_envelope_def next_hop_copy_def packet_code_def)
  show "validateRoutingHeader 1700000050000 3600 (header ?e)" "validateRoutingHeader 1700000050000 3600 (header (next_hop_copy ?e))"
    by (simp_all add: h own_envelope_def next_hop_copy_def validate_Num [of _ 1700000040] test_envelope_def)
  show "openDataEnvelope ref_lib ?e = Inr (\<lparr>dhPublicKey = replicate 32 1, previousChainLength = Num 0, messageNumber = Num 0\<rparr>, [72, 105])"
    by (rule openDataEnvelope_sealed) (simp_all add: node_envelope_def)
  have l: "length (sealedPayload ?e) \<le> 60"
    by (simp add: node_envelope_def sealed_tuple_def ref_lib_def enc_bytes_def leb_small zigzag_def)
  have p: "length (leb (length (sealedPayload ?e))) = 1" using l by (simp add: leb_small)
  have codec: "cbor_encode ref_lib = enc_val" by (simp add: ref_lib_def)
  have hint: "length (computeDestinationHint ref_lib k) = 8" for k
    by (simp add: computeDestinationHint_def slice_def DESTINATION_HINT_LENGTH_def hash_sizesD [OF ref_hash_sizes])
  show "length (encodeEnvelope ref_lib (next_hop_copy ?e)) \<le> 200"
    using p l by (simp add: encodeEnvelope_def headerToTuple_def next_hop_copy_def h own_envelope_def test_envelope_def
      codec hint enc_bytes_def zigzag_def leb_small leb_large)
qed

lemma node_a:
  "udp node_a = test_udp\<lparr>udpPeers := [(''b'', \<lparr>udpHost = ''127.0.0.1'', udpPort = 4001\<rparr>)],
    neighborByEndpoint := [(endpointKey ''127.0.0.1'' 4001, ''b'')]\<rparr>"
  "\<not> exited node_a" "emitted node_a = []"
  "find (\<lambda>(n, p). bytesEqual (computeDestinationHint ref_lib (peerIdentityKey p)) (destinationHint (header node_envelope)))
    (authenticatedPeers (relay node_a)) = Some (''b'', \<lparr>peerIdentityKey = publicKey alice, establishedAt = 1700000040000, peerSession = None\<rparr>)"
  by (simp_all add: node_a_def udp_step_add test_udp_def registerAuthenticatedPeer_def new_relay_def alice_def node_envelope(1) own_envelope_def
      del: udp_step.simps(1))

lemma node_b:
  "udp node_b = test_udp\<lparr>udpPeers := [(''n1'', \<lparr>udpHost = ''127.0.0.1'', udpPort = 4000\<rparr>)],
    neighborByEndpoint := [(endpointKey ''127.0.0.1'' 4000, ''n1'')], udpReceiver := True\<rparr>"
  "\<not> exited node_b" "emitted node_b = []" "relay node_b = synced_node"
  by (simp_all add: node_b_def udp_step_add test_udp_def udp_onReceive_def del: udp_step.simps(1))

theorem process_delivery_witness:
  "\<exists>fs. emitted (process_step ref_lib (\<lambda>_ _. False) 1 test_config
      (Stdin 1700000050000 (CommandLine (SendEnvelope (bytesToHex (encodeEnvelope ref_lib node_envelope))))) node_a) = [SendResult (Forwarded ''b'')] \<and>
    emitted (fold (\<lambda>(t, f). process_step ref_lib (\<lambda>_ _. False) 1 test_config (Datagram t ''127.0.0.1'' 4000 f))
      (zip (replicate (length fs) 1700000050000) fs) node_b) = [DeliveredText (bytesToHex (replicate 16 9)) [72, 105]]"
proof -
  let ?e = node_envelope and ?t = "1700000050000 :: int"
  note e = node_envelope
  have len: "int (length (encodeEnvelope ref_lib (next_hop_copy ?e))) \<le> 4096 * (udpUnit (udp node_a) - 33)"
    using e(9) by (simp add: node_a(1) test_udp_def)
  have ra: "\<not> exited node_a" "\<not> udpClosed (udp node_a)" "34 \<le> udpUnit (udp node_a)" "udpUnit (udp node_a) \<le> 4129"
    by (simp_all add: node_a(1,2) test_udp_def)
  have pa: "mget (udpPeers (udp node_a)) ''b'' = Some \<lparr>udpHost = ''127.0.0.1'', udpPort = 4001\<rparr>" "''b'' \<noteq> []" by (simp_all add: node_a(1))
  have rb: "\<not> exited node_b" "udpReceiver (udp node_b)" "udpUnit (udp node_a) \<le> udpUnit (udp node_b)"
    "mget (neighborByEndpoint (udp node_b)) (endpointKey ''127.0.0.1'' 4000) = Some ''n1''" "''n1'' \<noteq> []"
    by (simp_all add: node_a(1) node_b(1,2))
  have synced: "reassembler synced_node = new_reassembler" "ownDestinationHint synced_node = computeDestinationHint ref_lib (publicKey alice)"
    by (simp_all add: synced_node_def registerAuthenticatedPeer_def new_relay_def bob_def session_b_def)
  have pb: "mget (authenticatedPeers (relay node_b)) ''n1''
      = Some \<lparr>peerIdentityKey = publicKey bob, establishedAt = 1700000040000, peerSession = Some session_b\<rparr>"
    "destinationHint (header ?e) = ownDestinationHint (relay node_b)" "truthy (cfgAckDestinationHint test_config) = None"
    by (simp_all add: node_b(4) synced synced_node(2) e(1) own_envelope_def test_config_def truthy_def)
  have room: "room_for (reassembler (relay node_b)) k (''n1'' @ p) (length (encodeEnvelope ref_lib (next_hop_copy ?e)))" for k p
    using e(9) by (simp add: node_b(4) synced(1) room_for_def new_reassembler_def unknown_peer_def)
  obtain fs where fs: "fs \<noteq> []"
    "emitted (process_step ref_lib (\<lambda>_ _. False) 1 test_config (Stdin ?t (CommandLine (SendEnvelope (bytesToHex (encodeEnvelope ref_lib ?e))))) node_a)
      = emitted node_a @ [SendResult (Forwarded ''b'')]"
    "\<And>ts. length ts = length fs \<Longrightarrow> (\<forall>t \<in> set ts. no_stale (reassembler (relay node_b)) t \<and> t - hd ts \<le> 30000) \<Longrightarrow>
        validateRoutingHeader (last ts) 3600 (header (next_hop_copy ?e)) \<Longrightarrow>
      emitted (fold (\<lambda>(t, f). process_step ref_lib (\<lambda>_ _. False) (Suc 0) test_config (Datagram t ''127.0.0.1'' 4000 f)) (zip ts fs) node_b)
        = emitted node_b @ [DeliveredText (bytesToHex (messageId (header ?e))) [72, 105]]"
    using process_delivery [OF ref_cbor ref_cbor_compact ref_cbor_tight e(2-6,8) ra len node_a(4) pa rb pb room,
        where depth = 0 and depthA = 1 and configA = test_config and throws = "\<lambda>_ _. False"] by blast
  let ?ts = "replicate (length fs) ?t"
  have "last ?ts = ?t" "hd ?ts = ?t" using fs(1) by (cases fs; simp)+
  then have "emitted (fold (\<lambda>(t, f). process_step ref_lib (\<lambda>_ _. False) (Suc 0) test_config (Datagram t ''127.0.0.1'' 4000 f)) (zip ?ts fs) node_b)
        = emitted node_b @ [DeliveredText (bytesToHex (messageId (header ?e))) [72, 105]]"
    using e(7) by (intro fs(3)) (auto simp: no_stale_def node_b(4) synced(1) new_reassembler_def)
  moreover have "emitted node_a = []" "emitted node_b = []" "messageId (header ?e) = replicate 16 9"
    by (simp_all add: node_a(3) node_b(3) e(1) own_envelope_def test_envelope_def)
  ultimately show ?thesis using fs(2) by (intro exI [of _ fs]) simp
qed

section \<open>Pending sessions\<close>

text \<open>A session is kept under its own peer, and a step that does not add that peer leaves it alone.\<close>

definition sessions_keyed :: "NodeProcess \<Rightarrow> bool" where
  "sessions_keyed P \<longleftrightarrow> (\<forall>k s. mget (pendingSessions P) k = Some s \<longrightarrow> cfgSessionPeer s = k)"

definition holds_session :: "string \<Rightarrow> NodeProcess \<Rightarrow> NodeProcess \<Rightarrow> bool" where
  "holds_session i P P' \<longleftrightarrow> (sessions_keyed P \<longrightarrow> sessions_keyed P' \<and> mget (pendingSessions P') i = mget (pendingSessions P) i)"

lemma holds_sessionI: "pendingSessions P' = pendingSessions P \<Longrightarrow> holds_session i P P'"
  by (simp add: holds_session_def sessions_keyed_def)

interpretation held: evolution "holds_session i" for i
  by unfold_locales (auto simp: holds_session_def)

lemma held_parts:
  "held.evolves i (emit ev)" "held.evolves i (on_node m)" "held.evolves i (on_udp g)" "held.evolves i (with_transport throws w)"
  unfolding emit_def held.evolves_def
  by (auto intro!: holds_sessionI simp: on_part_res_def with_transport_def split: prod.splits)

lemma held_delivered: "held.evolves i (on_delivered L throws t depth config e)"
proof -
  have "held.evolves i (\<lambda>P. case with_transport throws (\<lambda>T. sendAck L T t depth hint mid) P of
      (r, P1) \<Rightarrow> (r, P1\<lparr>emitted := emitted P1 @ concat (map ack_listener (drop (length (events (relay P))) (events (relay P1))))\<rparr>))" for hint mid
    unfolding held.evolves_def by (auto intro!: holds_sessionI simp: with_transport_def split: prod.splits)
  then show ?thesis unfolding on_delivered_def Let_def by (intro held.evolves_intros held_parts)
qed

lemma held_listener: "held.evolves i (listener L throws t depth config ev)"
  by (cases ev) (simp_all add: listener_def held_delivered held_parts held.evolves_ret)

lemma held_datagram: "holds_session i P (on_datagram L throws depth config t host port f P)"
proof (cases "udp_message host port f (udp P)")
  case (Some x)
  obtain n g where x: "x = (n, g)" by (cases x)
  let ?m = "with_transport throws (\<lambda>T s. (Inr (), receiveFrame L T t depth n g s))"
  have "holds_session i P (snd (?m P))" using held_parts(4) unfolding held.evolves_def by blast
  moreover have "holds_session i (snd (?m P)) (snd (each (listener L throws t depth config) evs (snd (?m P))))" for evs
    using held.evolves_each [where f = "listener L throws t depth config", OF held_listener] unfolding held.evolves_def by blast
  ultimately show ?thesis using held.R_trans by (fastforce simp: on_datagram_def Some x split: prod.split)
qed (simp add: on_datagram_def held.R_refl)

lemma held_register:
  assumes "cfgSessionPeer s \<noteq> i"
  shows "held.evolves i (registerSession t s p)"
proof -
  have "held.evolves i (change (\<lambda>P. P\<lparr>pendingSessions := mdel (cfgSessionPeer s) (pendingSessions P)\<rparr>))"
    using assms by (intro held.evolves_change) (auto simp: holds_session_def sessions_keyed_def split: if_splits)
  then show ?thesis unfolding registerSession_def by (intro held.evolves_chain held_parts)
qed

lemma held_configure:
  assumes "cfgPeerId p \<noteq> i"
  shows "held.evolves i (configurePeer t p)"
proof -
  have "holds_session i P (snd (chain (look (\<lambda>P. mget (pendingSessions P) (cfgPeerId p)))
      (\<lambda>pending. case pending of None \<Rightarrow> ret () | Some s \<Rightarrow> registerSession t s p) P))" for P
  proof (cases "sessions_keyed P")
    case True
    show ?thesis
    proof (cases "mget (pendingSessions P) (cfgPeerId p)")
      case (Some s)
      with True have "cfgSessionPeer s = cfgPeerId p" by (simp add: sessions_keyed_def)
      with assms have "held.evolves i (registerSession t s p)" by (intro held_register) simp
      then show ?thesis unfolding held.evolves_def by (simp add: Some)
    qed (simp add: held.R_refl)
  qed (simp add: holds_session_def)
  then have look: "held.evolves i (chain (look (\<lambda>P. mget (pendingSessions P) (cfgPeerId p)))
      (\<lambda>pending. case pending of None \<Rightarrow> ret () | Some s \<Rightarrow> registerSession t s p))"
    unfolding held.evolves_def by blast
  show ?thesis unfolding configurePeer_def
    by (rule held.evolves_chain, rule held_parts, rule held.evolves_chain, rule held_parts, rule look)
qed

definition adds_peer :: "string \<Rightarrow> Input \<Rightarrow> bool" where
  "adds_peer i x \<longleftrightarrow> (\<exists>t p. x = Stdin t (CommandLine (AddPeerCommand p)) \<and> cfgPeerId p = i)"

lemma held_command:
  assumes "\<And>p. command = AddPeerCommand p \<Longrightarrow> cfgPeerId p \<noteq> i"
  shows "held.evolves i (run_command L throws t config command)"
proof (cases command)
  case (AddPeerCommand p)
  with assms show ?thesis by (simp add: run_command_def) (intro held.evolves_intros held_configure held_parts; simp)
next
  case Shutdown
  have "held.evolves i (change (\<lambda>P. P\<lparr>udp := udp_close (udp P), exited := True\<rparr>))"
    by (intro held.evolves_change holds_sessionI) simp
  with Shutdown show ?thesis by (simp add: run_command_def)
qed (simp_all add: run_command_def, (intro held.evolves_intros held_parts)+)

lemma held_step:
  assumes "\<not> adds_peer i x"
  shows "holds_session i P (process_step L throws depth config x P)"
proof (cases x)
  case (Stdin t line)
  have msg: "holds_session i P (snd (emit ev P))" for ev P using held_parts(1) unfolding held.evolves_def by blast
  show ?thesis
  proof (cases line)
    case (CommandLine command)
    obtain r P' where r: "run_command L throws t config command P = (r, P')" by (cases "run_command L throws t config command P")
    have "held.evolves i (run_command L throws t config command)"
      using assms by (intro held_command) (auto simp: adds_peer_def Stdin CommandLine)
    from held.evolvesD [OF this r] have "holds_session i P P'" .
    moreover note msg [of P'] held.R_trans
    ultimately show ?thesis by (cases r) (auto simp: process_step.simps Stdin CommandLine on_line_def r held.R_refl)
  qed (auto simp: process_step.simps Stdin on_line_def held.R_refl msg)
next
  case (Datagram t host port f)
  then show ?thesis using held_datagram by (simp add: process_step.simps held.R_refl)
qed

lemma held_steps: "\<forall>x \<in> set inputs. \<not> adds_peer i x \<Longrightarrow> holds_session i P (fold (process_step L throws depth config) inputs P)"
proof (induction inputs arbitrary: P)
  case (Cons x inputs)
  then show ?case using held.R_trans [OF held_step [of i x P L throws depth config]] by simp
qed (simp add: held.R_refl)

lemma configure_none: "pendingSessions P = [] \<Longrightarrow> pendingSessions (snd (configurePeer t p P)) = []"
  by (auto simp: configurePeer_def chain_def on_part_res_def split: prod.splits sum.splits)

lemma configure_all_none: "pendingSessions P = [] \<Longrightarrow> pendingSessions (snd (each (configurePeer t) ps P)) = []"
proof (induction ps arbitrary: P)
  case (Cons p ps)
  obtain r P1 where r: "configurePeer t p P = (r, P1)" by (cases "configurePeer t p P")
  with configure_none [OF Cons.prems, of t p] have "pendingSessions P1 = []" by simp
  with Cons.IH [of P1] r show ?case by (cases r) (simp_all add: chain_def)
qed simp

lemma held_config:
  assumes "cfgSessionPeer s \<noteq> i"
  shows "held.evolves i (config_session t peers s)"
proof (cases "find (\<lambda>candidate. cfgPeerId candidate = cfgSessionPeer s) peers")
  case None
  have "held.evolves i (change (\<lambda>P. P\<lparr>pendingSessions := mset_at (cfgSessionPeer s) s (pendingSessions P)\<rparr>))"
    using assms by (intro held.evolves_change) (auto simp: holds_session_def sessions_keyed_def)
  with None show ?thesis by (simp add: config_session_def)
next
  case (Some p)
  with held_register [OF assms] show ?thesis by (simp add: config_session_def)
qed

lemma config_sessions:
  assumes "each (config_session t peers) ss P = (Inr (), P')" "sessions_keyed P" "distinct (map cfgSessionPeer ss)"
  shows "sessions_keyed P' \<and> (\<forall>i. i \<notin> cfgSessionPeer ` set ss \<longrightarrow> mget (pendingSessions P') i = mget (pendingSessions P) i) \<and>
    (\<forall>s \<in> set ss. (\<forall>p \<in> set peers. cfgPeerId p \<noteq> cfgSessionPeer s) \<longrightarrow> mget (pendingSessions P') (cfgSessionPeer s) = Some s)"
  using assms
proof (induction ss arbitrary: P)
  case (Cons s ss)
  obtain r P1 where r: "config_session t peers s P = (r, P1)" by (cases "config_session t peers s P")
  then obtain u where u: "r = Inr u" using Cons.prems(1) by (cases r) (simp_all add: chain_def)
  have rest: "each (config_session t peers) ss P1 = (Inr (), P')" using Cons.prems(1) r u by (simp add: chain_def)
  have one: "holds_session i P P1" if "cfgSessionPeer s \<noteq> i" for i using held.evolvesD [OF held_config [OF that] r] .
  have keyed: "sessions_keyed P1" using one [of "cfgSessionPeer s @ ''x''"] Cons.prems(2) by (simp add: holds_session_def)
  have new: "mget (pendingSessions P1) (cfgSessionPeer s) = Some s" if "\<forall>p \<in> set peers. cfgPeerId p \<noteq> cfgSessionPeer s"
  proof -
    have "find (\<lambda>candidate. cfgPeerId candidate = cfgSessionPeer s) peers = None" using that by (simp add: find_None_iff)
    then show ?thesis using r by (auto simp: config_session_def)
  qed
  have IH: "sessions_keyed P'" "\<And>i. i \<notin> cfgSessionPeer ` set ss \<Longrightarrow> mget (pendingSessions P') i = mget (pendingSessions P1) i"
    "\<And>s. s \<in> set ss \<Longrightarrow> \<forall>p \<in> set peers. cfgPeerId p \<noteq> cfgSessionPeer s \<Longrightarrow> mget (pendingSessions P') (cfgSessionPeer s) = Some s"
    using Cons.IH [OF rest keyed] Cons.prems(3) by simp_all
  have "cfgSessionPeer s \<notin> cfgSessionPeer ` set ss" using Cons.prems(3) by simp
  moreover have "mget (pendingSessions P1) i = mget (pendingSessions P) i" if "cfgSessionPeer s \<noteq> i" for i
    using one [OF that] Cons.prems(2) by (simp add: holds_session_def)
  ultimately show ?case using IH new by (intro conjI allI ballI impI) (simp, force, force)
qed simp

lemma launched:
  assumes "launch L bind t (Some config) = Inr P"
  shows "\<exists>P0 P1 ev. configure_node t config P0 = (Inr (), P1) \<and> pendingSessions P0 = [] \<and> P = snd (emit ev P1)"
proof -
  obtain U where U: "new_udp (cfgId config) \<lparr>optUnit = None, optReliability = None\<rparr> = Inr U"
    using assms by (cases "new_udp (cfgId config) \<lparr>optUnit = None, optReliability = None\<rparr>")
      (auto simp: launch_def rbind_def Let_def split: if_splits)
  let ?b = "bind (case cfgNodeHost config of None \<Rightarrow> ''127.0.0.1'' | Some h \<Rightarrow> h) (case cfgNodePort config of None \<Rightarrow> Num 0 | Some p \<Rightarrow> p)"
  obtain host port where b: "?b = Inr (host, port)"
    using assms U by (cases ?b) (auto simp: launch_def rbind_def Let_def split: if_splits)
  let ?sk = "buffer_hex (cfgPrivateKey config)"
  let ?P = "\<lparr>relay = new_relay L \<lparr>publicKey = ed_public L ?sk, privateKey = ?sk\<rparr>, udp = udp_onReceive U, pendingSessions = [],
    emitted = [], exited = False\<rparr>"
  obtain r P1 where r: "configure_node t config ?P = (r, P1)" by (cases "configure_node t config ?P")
  have "r = Inr () \<and> P = snd (emit (Ready (cfgId config) host port (bytesToHex (ed_public L ?sk))) P1)"
    using assms U b r by (cases r) (auto simp: launch_def rbind_def Let_def split: if_splits)
  with r show ?thesis
    by (intro exI [of _ ?P] exI [of _ P1] exI [of _ "Ready (cfgId config) host port (bytesToHex (ed_public L ?sk))"]) simp
qed

lemma launch_sessions:
  assumes "launch L bind t (Some config) = Inr P" "distinct (map cfgSessionPeer ss)" "cfgSessions config = Some ss" "s \<in> set ss"
    and "\<forall>ps. cfgPeers config = Some ps \<longrightarrow> (\<forall>p \<in> set ps. cfgPeerId p \<noteq> cfgSessionPeer s)"
  shows "sessions_keyed P \<and> mget (pendingSessions P) (cfgSessionPeer s) = Some s"
proof -
  let ?peers = "case cfgPeers config of None \<Rightarrow> [] | Some ps \<Rightarrow> ps"
  obtain P0 P1 ev where P: "configure_node t config P0 = (Inr (), P1)" "pendingSessions P0 = []" "P = snd (emit ev P1)"
    using launched [OF assms(1)] by blast
  obtain r P2 where r: "each (configurePeer t) ?peers P0 = (r, P2)" by (cases "each (configurePeer t) ?peers P0")
  then have 2: "each (config_session t ?peers) ss P2 = (Inr (), P1)"
    using P(1) assms(3) by (cases r) (simp_all add: configure_node_def chain_def Let_def)
  have "pendingSessions P2 = []" using configure_all_none [OF P(2), of t ?peers] r by simp
  then have "sessions_keyed P2" by (simp add: sessions_keyed_def)
  note config = config_sessions [OF 2 this assms(2)]
  have "\<forall>p \<in> set ?peers. cfgPeerId p \<noteq> cfgSessionPeer s"
  proof
    fix p assume "p \<in> set ?peers"
    then show "cfgPeerId p \<noteq> cfgSessionPeer s" using assms(5) by (cases "cfgPeers config") simp_all
  qed
  with config assms(4) have held: "mget (pendingSessions P1) (cfgSessionPeer s) = Some s" by meson
  have "sessions_keyed P = sessions_keyed P1" "pendingSessions P = pendingSessions P1"
    unfolding P(3) by (simp_all add: emit_def sessions_keyed_def)
  then show ?thesis using held config by simp
qed

text \<open>What a valid session gives the relay.\<close>

definition session_of :: "SessionConfig \<Rightarrow> SyncSession" where
  "session_of s = \<lparr>syncSessionId = cfgSessionId s, syncSendKey = buffer_hex (cfgSendKey s), syncReceiveKey = buffer_hex (cfgReceiveKey s)\<rparr>"

definition valid_session :: "SessionConfig \<Rightarrow> bool" where
  "valid_session s \<longleftrightarrow> length (buffer_hex (cfgSendKey s)) = 32 \<and> length (buffer_hex (cfgReceiveKey s)) = 32 \<and> cfgSessionId s \<noteq> []"

definition valid_peer :: "PeerConfig \<Rightarrow> bool" where
  "valid_peer p \<longleftrightarrow> cfgPeerId p \<noteq> [] \<and> (\<exists>q. cfgPort p = Num q \<and> 1 \<le> q \<and> q \<le> 65535) \<and> length (buffer_hex (cfgPublicKey p)) = 32"

lemma addPeer_valid: "valid_peer p \<Longrightarrow> \<exists>U'. addPeer (cfgPeerId p) (cfgHost p) (cfgPort p) U = (Inr (), U')"
  by (auto simp: valid_peer_def addPeer_def is_integer_def)

lemma configure_valid:
  assumes "valid_peer p" "mget (pendingSessions P) (cfgPeerId p) = Some s" "valid_session s" "cfgSessionPeer s = cfgPeerId p"
  shows "\<exists>P'. configurePeer t p P = (Inr (), P') \<and> emitted P' = emitted P \<and> mget (pendingSessions P') (cfgPeerId p) = None \<and>
    mget (authenticatedPeers (relay P')) (cfgPeerId p)
      = Some \<lparr>peerIdentityKey = buffer_hex (cfgPublicKey p), establishedAt = t, peerSession = Some (session_of s)\<rparr>"
proof -
  obtain U where U: "addPeer (cfgPeerId p) (cfgHost p) (cfgPort p) (udp P) = (Inr (), U)" using addPeer_valid [OF assms(1)] by blast
  with assms show ?thesis
    by (simp add: configurePeer_def chain_def on_part_res_def registerAuthenticatedPeer_def registerSession_def registerAuthenticatedSession_def
        valid_peer_def valid_session_def session_of_def)
qed

section \<open>Commands and peers\<close>

text \<open>C35: A session may be configured before its peer. A valid session of the configuration whose peer is not in it
  stays pending whatever the process is told and receives, until that peer is added; then the peer is
  authenticated with this session, the session is no longer pending, and the command is answered.\<close>

theorem pending_session_applied:
  assumes "launch L bind t0 (Some config) = Inr P0" "cfgSessions config = Some ss" "distinct (map cfgSessionPeer ss)" "s \<in> set ss"
    and "\<forall>ps. cfgPeers config = Some ps \<longrightarrow> (\<forall>p \<in> set ps. cfgPeerId p \<noteq> cfgSessionPeer s)"
    and "P = fold (process_step L throws depth config) inputs P0" "\<forall>x \<in> set inputs. \<not> adds_peer (cfgSessionPeer s) x"
    and "\<not> exited P" "valid_peer peer" "cfgPeerId peer = cfgSessionPeer s" "valid_session s"
    and "P' = process_step L throws depth config (Stdin t (CommandLine (AddPeerCommand peer))) P"
  shows "mget (pendingSessions P) (cfgPeerId peer) = Some s \<and> mget (pendingSessions P') (cfgPeerId peer) = None \<and>
    mget (authenticatedPeers (relay P')) (cfgPeerId peer)
      = Some \<lparr>peerIdentityKey = buffer_hex (cfgPublicKey peer), establishedAt = t, peerSession = Some (session_of s)\<rparr> \<and>
    emitted P' = emitted P @ [PeerAdded (cfgPeerId peer)]"
proof -
  have 0: "sessions_keyed P0" "mget (pendingSessions P0) (cfgSessionPeer s) = Some s"
    using launch_sessions [OF assms(1,3,2,4)] assms(5) by blast+
  from held_steps [OF assms(7), of P0 L throws depth config] 0
  have P: "mget (pendingSessions P) (cfgPeerId peer) = Some s" by (simp add: holds_session_def assms(6,10))
  obtain P1 where P1: "configurePeer t peer P = (Inr (), P1)" "emitted P1 = emitted P" "mget (pendingSessions P1) (cfgPeerId peer) = None"
    "mget (authenticatedPeers (relay P1)) (cfgPeerId peer)
      = Some \<lparr>peerIdentityKey = buffer_hex (cfgPublicKey peer), establishedAt = t, peerSession = Some (session_of s)\<rparr>"
    using configure_valid [OF assms(9) P assms(11)] assms(10) by metis
  then have "P' = P1\<lparr>emitted := emitted P @ [PeerAdded (cfgPeerId peer)]\<rparr>"
    using assms(8,12) by (simp add: process_step.simps on_line_def run_command_def chain_def emit_def)
  with P P1 show ?thesis by simp
qed

text \<open>The operations of the process report nothing themselves.\<close>

interpretation silent: evolution "\<lambda>P P'. emitted P' = emitted P"
  by unfold_locales simp_all

lemma silent_parts:
  "silent.evolves (on_node m)" "silent.evolves (on_udp g)" "silent.evolves (with_transport throws w)" "silent.evolves (configurePeer t p)"
proof -
  show n: "silent.evolves (on_node m)" for m :: "'x relay"
    unfolding silent.evolves_def by (simp add: on_part_res_def split: prod.split)
  show u: "silent.evolves (on_udp g)" for g :: "UdpTransport \<Rightarrow> 'x res \<times> UdpTransport"
    unfolding silent.evolves_def by (simp add: on_part_res_def split: prod.split)
  show "silent.evolves (with_transport throws w)"
    unfolding silent.evolves_def by (simp add: with_transport_def split: prod.split)
  have d: "silent.evolves (change (\<lambda>P. P\<lparr>pendingSessions := mdel i (pendingSessions P)\<rparr>))" for i
    by (rule silent.evolves_change) simp
  show "silent.evolves (configurePeer t p)"
    unfolding configurePeer_def registerSession_def by (intro silent.evolves_intros n u d)
qed

lemma answered:
  assumes "silent.evolves m" "\<And>x msg. f x \<noteq> ErrorEvent msg"
  shows "case chain m (\<lambda>x. emit (f x)) P of (r, P') \<Rightarrow>
    (case r of Inl e \<Rightarrow> emitted P' = emitted P | Inr _ \<Rightarrow> (\<exists>ev. emitted P' = emitted P @ [ev] \<and> (\<forall>msg. ev \<noteq> ErrorEvent msg)))"
proof -
  obtain r P1 where r: "m P = (r, P1)" by (cases "m P")
  with silent.evolvesD [OF assms(1)] have "emitted P1 = emitted P" by blast
  with r assms(2) show ?thesis by (cases r) (simp_all add: chain_def emit_def)
qed

lemma chain_assoc: "chain (chain m g) h = chain m (\<lambda>x. chain (g x) h)"
  by (auto simp: chain_def fun_eq_iff split: prod.splits sum.splits)

lemma command_answered:
  assumes "command \<noteq> Shutdown"
  shows "case run_command L throws t config command P of (r, P') \<Rightarrow>
    (case r of Inl e \<Rightarrow> emitted P' = emitted P | Inr _ \<Rightarrow> (\<exists>ev. emitted P' = emitted P @ [ev] \<and> (\<forall>msg. ev \<noteq> ErrorEvent msg)))"
proof (cases command)
  case (SendEnvelope encoded)
  have "silent.evolves (chain (lift_res (decodeEnvelope L (buffer_hex encoded))) (\<lambda>e. with_transport throws (\<lambda>T. sendEnvelope L T t e)))"
    by (intro silent.evolves_intros silent_parts)
  from answered [OF this, of SendResult] show ?thesis by (simp add: SendEnvelope run_command_def chain_assoc)
next
  case (AddPeerCommand p)
  then show ?thesis using answered [OF silent_parts(4), of "\<lambda>_. PeerAdded (cfgPeerId p)"] by (simp add: run_command_def)
next
  case (AuthPeer i pk)
  then show ?thesis using answered [OF silent_parts(1), of "\<lambda>_. PeerAuthenticated i"] by (simp add: run_command_def)
next
  case (Advertise i adv)
  then show ?thesis using answered [OF silent_parts(3), of "\<lambda>_. AdvertisementProcessed i"] by (simp add: run_command_def)
next
  case (InitiateSync i)
  then show ?thesis using answered [OF silent_parts(3), of "SyncResult i"] by (simp add: run_command_def)
next
  case Status
  then show ?thesis using answered [OF silent_parts(1), of "\<lambda>size. StatusEvent (cfgId config) size [''status'']"] by (simp add: run_command_def)
qed (use assms in simp)

text \<open>Every command but a shutdown is answered with exactly one event, an error exactly when the command threw.\<close>

theorem one_answer_per_command:
  assumes "\<not> exited P" "command \<noteq> Shutdown"
  shows "\<exists>ev. emitted (process_step L throws depth config (Stdin t (CommandLine command)) P) = emitted P @ [ev] \<and>
    ((\<exists>m. ev = ErrorEvent m) \<longleftrightarrow> (\<exists>e. fst (run_command L throws t config command P) = Inl e))"
proof -
  obtain r P' where r: "run_command L throws t config command P = (r, P')" by (cases "run_command L throws t config command P")
  with command_answered [OF assms(2), where L = L and throws = throws and t = t and config = config and P = P] assms(1) show ?thesis
    by (cases r) (auto simp: process_step.simps on_line_def emit_def)
qed

lemma key_of_mset_at: "k \<in> fst ` set (mset_at k v m)"
  by (induction m) auto

text \<open>A refused peer stays half registered. When the key of an added peer has the wrong length the command is
  answered with an error and the relay is unchanged, but the UDP transport has the peer: it is listed as a
  neighbour and its datagrams are handed up.\<close>

theorem refused_peer_half_registered:
  assumes "\<not> exited P" "addPeer (cfgPeerId peer) (cfgHost peer) (cfgPort peer) (udp P) = (Inr (), U)"
    "length (buffer_hex (cfgPublicKey peer)) \<noteq> 32" "P' = process_step L throws depth config (Stdin t (CommandLine (AddPeerCommand peer))) P"
  shows "emitted P' = emitted P @ [ErrorEvent ''INVALID_PEER_IDENTITY_KEY''] \<and> relay P' = relay P \<and>
    cfgPeerId peer \<in> set (udp_discoverNeighbors (udp P')) \<and>
    (\<exists>q. cfgPort peer = Num q \<and> (udpReceiver (udp P) \<and> int (length f) \<le> udpUnit (udp P) \<longrightarrow>
       udp_message (cfgHost peer) q f (udp P') = Some (cfgPeerId peer, f)))"
proof -
  have ok: "cfgPeerId peer \<noteq> []" "is_integer (cfgPort peer)" "\<not> cfgPort peer < Num 1" using assms(2) by (auto simp: addPeer_def split: if_splits)
  then obtain q where q: "cfgPort peer = Num q" by (cases "cfgPort peer") (auto simp: is_integer_def)
  have U: "U = (udp P)\<lparr>udpPeers := mset_at (cfgPeerId peer) \<lparr>udpHost = cfgHost peer, udpPort = q\<rparr> (udpPeers (udp P)),
      neighborByEndpoint := mset_at (endpointKey (cfgHost peer) q) (cfgPeerId peer) (neighborByEndpoint (udp P))\<rparr>"
    using assms(2) by (simp add: addPeer_def q num_trunc_def split: if_splits)
  have "P' = P\<lparr>udp := U, emitted := emitted P @ [ErrorEvent ''INVALID_PEER_IDENTITY_KEY'']\<rparr>"
    using assms by (simp add: process_step.simps on_line_def run_command_def configurePeer_def chain_def on_part_res_def
        registerAuthenticatedPeer_def emit_def thrown_message_def)
  moreover have "cfgPeerId peer \<in> fst ` set (mset_at (cfgPeerId peer) \<lparr>udpHost = cfgHost peer, udpPort = q\<rparr> (udpPeers (udp P)))"
    by (rule key_of_mset_at)
  ultimately show ?thesis using q ok(1) by (simp add: U udp_message_def udp_discoverNeighbors_def)
qed

definition session_config :: SessionConfig where
  "session_config = \<lparr>cfgSessionPeer = ''b'', cfgSessionId = ''s1'', cfgSendKey = bytesToHex (replicate 32 1), cfgReceiveKey = bytesToHex (replicate 32 2)\<rparr>"

definition peer_config :: PeerConfig where
  "peer_config = \<lparr>cfgPeerId = ''b'', cfgHost = ''127.0.0.1'', cfgPort = Num 4001, cfgPublicKey = bytesToHex (publicKey bob)\<rparr>"

definition waiting_config :: NodeConfig where
  "waiting_config = test_config\<lparr>cfgPrivateKey := bytesToHex (replicate 32 7), cfgSessions := Some [session_config]\<rparr>"

theorem pending_session_applied_witness:
  "\<exists>P P'. launch ref_lib (\<lambda>h p. Inr (h, 4000)) 1700000040000 (Some waiting_config) = Inr P \<and>
    P' = process_step ref_lib (\<lambda>_ _. False) 1 waiting_config (Stdin 1700000050000 (CommandLine (AddPeerCommand peer_config)))
      (process_step ref_lib (\<lambda>_ _. False) 1 waiting_config (Stdin 1700000050000 UnknownOp) P) \<and>
    mget (authenticatedPeers (relay P')) ''b'' = Some \<lparr>peerIdentityKey = publicKey bob, establishedAt = 1700000050000,
      peerSession = Some (session_of session_config)\<rparr>"
proof -
  obtain P where P: "launch ref_lib (\<lambda>h p. Inr (h, 4000)) 1700000040000 (Some waiting_config) = Inr P" "\<not> exited P"
    using test_udp_new
    by (auto simp: launch_def waiting_config_def test_config_def configure_node_def config_session_def emit_def Let_def)
  have c: "cfgSessions waiting_config = Some [session_config]" "distinct (map cfgSessionPeer [session_config])" "session_config \<in> set [session_config]"
    "\<forall>ps. cfgPeers waiting_config = Some ps \<longrightarrow> (\<forall>p \<in> set ps. cfgPeerId p \<noteq> cfgSessionPeer session_config)"
    by (simp_all add: waiting_config_def test_config_def)
  have v: "valid_peer peer_config" "cfgPeerId peer_config = cfgSessionPeer session_config" "valid_session session_config"
    by (simp_all add: valid_peer_def peer_config_def session_config_def valid_session_def bob_def)
  let ?x = "Stdin 1700000050000 UnknownOp"
  have i: "\<forall>x \<in> set [?x]. \<not> adds_peer (cfgSessionPeer session_config) x" by (simp add: adds_peer_def)
  have x: "\<not> exited (process_step ref_lib (\<lambda>_ _. False) 1 waiting_config ?x P)" using P(2) by (simp add: process_step.simps on_line_def)
  have fold: "process_step ref_lib (\<lambda>_ _. False) 1 waiting_config ?x P = fold (process_step ref_lib (\<lambda>_ _. False) 1 waiting_config) [?x] P" by simp
  have "mget (authenticatedPeers (relay (process_step ref_lib (\<lambda>_ _. False) 1 waiting_config (Stdin 1700000050000 (CommandLine (AddPeerCommand peer_config)))
      (process_step ref_lib (\<lambda>_ _. False) 1 waiting_config ?x P)))) (cfgPeerId peer_config)
    = Some \<lparr>peerIdentityKey = buffer_hex (cfgPublicKey peer_config), establishedAt = 1700000050000, peerSession = Some (session_of session_config)\<rparr>"
    using pending_session_applied [OF P(1) c fold i x v refl] by blast
  with P(1) show ?thesis by (simp add: peer_config_def)
qed

theorem one_answer_per_command_witness:
  "\<exists>ev. emitted (process_step ref_lib (\<lambda>_ _. False) 1 test_config (Stdin 1700000050000 (CommandLine Status)) node_a) = [ev]"
  using one_answer_per_command [of node_a Status ref_lib "\<lambda>_ _. False" 1 test_config 1700000050000] by (auto simp: node_a_def)

theorem refused_peer_half_registered_witness:
  "\<exists>P'. P' = process_step ref_lib (\<lambda>_ _. False) 1 test_config (Stdin 1700000050000 (CommandLine (AddPeerCommand (peer_config\<lparr>cfgPublicKey := ''00''\<rparr>)))) node_b \<and>
    emitted P' = [ErrorEvent ''INVALID_PEER_IDENTITY_KEY''] \<and> udp_message ''127.0.0.1'' 4001 [7] (udp P') = Some (''b'', [7])"
proof -
  let ?p = "peer_config\<lparr>cfgPublicKey := ''00''\<rparr>"
  obtain U where U: "addPeer (cfgPeerId ?p) (cfgHost ?p) (cfgPort ?p) (udp node_b) = (Inr (), U)"
    by (simp add: peer_config_def addPeer_def is_integer_def)
  have k: "\<not> exited node_b" "length (buffer_hex (cfgPublicKey ?p)) \<noteq> 32" "emitted node_b = []" "udpReceiver (udp node_b)"
      "1 \<le> udpUnit (udp node_b)" "cfgPort ?p = Num 4001" "cfgHost ?p = ''127.0.0.1''" "cfgPeerId ?p = ''b''"
    by (simp_all add: node_b_def hex_value_def peer_config_def udp_step_add udp_onReceive_def test_udp_def del: udp_step.simps(1) split: option.split)
  from refused_peer_half_registered [OF k(1) U k(2) refl, of ref_lib "\<lambda>_ _. False" 1 test_config 1700000050000 "[7]"] k(3-8) show ?thesis by simp
qed

end
