(* ===== verification/Automaton.thy ===== *)
theory Automaton
  imports Prelude
begin

text \<open>
  State kept per key. A component that is driven by events and keeps a table of keys is described by one small
  automaton per key; \<open>keyed_automaton\<close> lifts the agreement of a single step to every history. The trust
  store and the Bluetooth adapters are instances.
\<close>

locale keyed_automaton =
  fixes at :: "'s \<Rightarrow> 'k \<Rightarrow> 'a" and step :: "'e \<Rightarrow> 's \<Rightarrow> 's" and rule :: "'k \<Rightarrow> 'e \<Rightarrow> 'a \<Rightarrow> 'a"
    and admitted :: "'e \<Rightarrow> bool" and ok :: "'s \<Rightarrow> bool"
  assumes step_ok: "ok s \<Longrightarrow> admitted e \<Longrightarrow> ok (step e s)"
    and step_rule: "ok s \<Longrightarrow> admitted e \<Longrightarrow> at (step e s) k = rule k e (at s k)"
begin

lemma run_ok: "ok s \<Longrightarrow> list_all admitted es \<Longrightarrow> ok (fold step es s)"
  by (induction es arbitrary: s) (simp_all add: step_ok)

lemma run_rule: "ok s \<Longrightarrow> list_all admitted es \<Longrightarrow> at (fold step es s) k = fold (rule k) es (at s k)"
  by (induction es arbitrary: s) (simp_all add: step_ok step_rule)

end

end
