(* ===== verification/PeerTrust.thy ===== *)
theory PeerTrust
  imports Introduction Automaton
begin

text \<open>
  \<open>src/identity/peer-trust.ts\<close>: the store that keeps introduced and verified peers apart. Keys are
  lower-case hexadecimal identity keys; the records are in insertion order. The current time in seconds,
  used where a call gives none, is an argument.
\<close>

section \<open>The store\<close>

datatype PeerTrustState = Introduced | Verified

record PeerTrustRecord =
  recIdentityPublicKey :: string
  recNodeId :: string
  recCapabilities :: "string list"
  introducedAt :: jsnum
  trust :: PeerTrustState
  verifiedAt :: "jsnum option"
  sessionHash :: "string option"
  lastFailure :: "string option"

datatype PeerTrustErrorCode = PEER_NOT_INTRODUCED | PEER_ALREADY_VERIFIED

record VerificationEvidence =
  evSessionHash :: bytes
  evAt :: "jsnum option"

record PeerTrustStore =
  peerRecords :: "(string, PeerTrustRecord) jsmap"

definition new_trust_store :: PeerTrustStore where
  "new_trust_store = \<lparr>peerRecords = []\<rparr>"

text \<open>A peer is named by its key in bytes or in hexadecimal.\<close>

datatype peer_key = KeyBytes bytes | KeyHex string

definition normalize_key :: "string \<Rightarrow> string" where
  "normalize_key keyHex = to_lower keyHex"

definition key_of :: "peer_key \<Rightarrow> string" where
  "key_of k = normalize_key (case k of KeyHex s \<Rightarrow> s | KeyBytes b \<Rightarrow> bytesToHex b)"

definition introduce :: "NodeIntroduction \<Rightarrow> jsnum \<Rightarrow> PeerTrustStore \<Rightarrow> PeerTrustRecord \<times> PeerTrustStore" where
  "introduce introduction at S =
     (let key = normalize_key (introPublicKey introduction);
          r = (case mget (peerRecords S) key of
              Some existing \<Rightarrow> existing\<lparr>recNodeId := nodeId introduction,
                recCapabilities := capabilities introduction, introducedAt := at\<rparr>
            | None \<Rightarrow> \<lparr>recIdentityPublicKey = key, recNodeId = nodeId introduction,
                recCapabilities = capabilities introduction, introducedAt = at, trust = Introduced,
                verifiedAt = None, sessionHash = None, lastFailure = None\<rparr>)
      in (r, S\<lparr>peerRecords := mset_at key r (peerRecords S)\<rparr>))"

definition markVerified ::
    "jsnum \<Rightarrow> peer_key \<Rightarrow> VerificationEvidence \<Rightarrow> PeerTrustStore \<Rightarrow> (PeerTrustErrorCode + PeerTrustRecord) \<times> PeerTrustStore" where
  "markVerified now k evidence S =
     (let key = key_of k
      in case mget (peerRecords S) key of
           None \<Rightarrow> (Inl PEER_NOT_INTRODUCED, S)
         | Some r \<Rightarrow>
             (let r1 = r\<lparr>trust := Verified, verifiedAt := Some (case evAt evidence of None \<Rightarrow> now | Some t \<Rightarrow> t),
                  sessionHash := Some (bytesToHex (evSessionHash evidence)), lastFailure := None\<rparr>
              in (Inr r1, S\<lparr>peerRecords := mset_at key r1 (peerRecords S)\<rparr>)))"

definition markFailed :: "peer_key \<Rightarrow> string \<Rightarrow> PeerTrustStore \<Rightarrow> PeerTrustStore" where
  "markFailed k reason S =
     (let key = key_of k
      in case mget (peerRecords S) key of
           None \<Rightarrow> S
         | Some r \<Rightarrow> S\<lparr>peerRecords := mset_at key (r\<lparr>trust := Introduced, verifiedAt := None, sessionHash := None,
             lastFailure := Some reason\<rparr>) (peerRecords S)\<rparr>)"

definition isVerified :: "peer_key \<Rightarrow> PeerTrustStore \<Rightarrow> bool" where
  "isVerified k S \<longleftrightarrow> map_option trust (mget (peerRecords S) (key_of k)) = Some Verified"

definition get_record :: "peer_key \<Rightarrow> PeerTrustStore \<Rightarrow> PeerTrustRecord option" where
  "get_record k S = mget (peerRecords S) (key_of k)"

text \<open>\<open>sort((a, b) => b.introducedAt - a.introducedAt)\<close>: stable, the latest introduction first.\<close>

fun insert_newest :: "PeerTrustRecord \<Rightarrow> PeerTrustRecord list \<Rightarrow> PeerTrustRecord list" where
  "insert_newest r [] = [r]"
| "insert_newest r (x # xs) = (if introducedAt r < introducedAt x then x # insert_newest r xs else r # x # xs)"

definition list_records :: "PeerTrustStore \<Rightarrow> PeerTrustRecord list" where
  "list_records S = foldr insert_newest (map snd (peerRecords S)) []"

definition verified_records :: "PeerTrustStore \<Rightarrow> PeerTrustRecord list" where
  "verified_records S = filter (\<lambda>r. trust r = Verified) (list_records S)"

definition forget :: "peer_key \<Rightarrow> PeerTrustStore \<Rightarrow> PeerTrustStore" where
  "forget k S = S\<lparr>peerRecords := mdel (key_of k) (peerRecords S)\<rparr>"

definition clear_records :: "PeerTrustStore \<Rightarrow> PeerTrustStore" where
  "clear_records S = S\<lparr>peerRecords := []\<rparr>"

definition toJSON :: "PeerTrustStore \<Rightarrow> PeerTrustRecord list" where
  "toJSON S = list_records S"

text \<open>
  What is loaded is a list of parsed values. A value without a textual key is skipped (\<open>null\<close> and the like
  are falsy, a primitive has no members); the other fields have defaults. The node id of an object that cannot
  be converted to text throws. Capabilities, times and hashes are kept as they are; a value of another type
  than the record's is shown here as its default.
\<close>

definition member :: "jsval \<Rightarrow> string \<Rightarrow> jsval" where
  "member v k = (case v of JObj fs \<Rightarrow> obj_get fs k | _ \<Rightarrow> JUndef)"

definition or_else :: "jsval \<Rightarrow> jsval \<Rightarrow> jsval" where
  "or_else v d = (if v = JUndef \<or> v = JNull then d else v)"

definition string_list :: "jsval \<Rightarrow> string list" where
  "string_list v = (case v of JArr vs \<Rightarrow> concat (map (\<lambda>v. case v of JStr s \<Rightarrow> [s] | _ \<Rightarrow> []) vs) | _ \<Rightarrow> [])"

definition load_one :: "jsval \<Rightarrow> PeerTrustStore \<Rightarrow> PeerTrustStore res" where
  "load_one v S = (case member v ''identityPublicKey'' of
     JStr s \<Rightarrow> rbind (js_string (or_else (member v ''nodeId'') (JStr []))) (\<lambda>nid.
       Inr (S\<lparr>peerRecords := mset_at (normalize_key s)
         \<lparr>recIdentityPublicKey = normalize_key s, recNodeId = nid, recCapabilities = string_list (member v ''capabilities''),
          introducedAt = to_number (or_else (member v ''introducedAt'') (JNum (Num 0))),
          trust = (if member v ''trust'' = JStr ''verified'' then Verified else Introduced),
          verifiedAt = (case member v ''verifiedAt'' of JNum n \<Rightarrow> Some n | _ \<Rightarrow> None),
          sessionHash = (case member v ''sessionHash'' of JStr h \<Rightarrow> Some h | _ \<Rightarrow> None),
          lastFailure = (case member v ''lastFailure'' of JStr h \<Rightarrow> Some h | _ \<Rightarrow> None)\<rparr> (peerRecords S)\<rparr>))
   | _ \<Rightarrow> Inr S)"

fun load_records :: "jsval list \<Rightarrow> PeerTrustStore \<Rightarrow> PeerTrustStore res" where
  "load_records [] S = Inr S"
| "load_records (v # vs) S = rbind (load_one v S) (load_records vs)"

definition load_trust :: "jsval list \<Rightarrow> PeerTrustStore res" where
  "load_trust records = load_records records new_trust_store"

section \<open>Histories and the abstract trust automaton\<close>

datatype trust_op = Introduce NodeIntroduction jsnum | MarkVerified jsnum peer_key VerificationEvidence
  | MarkFailed peer_key string | Forget peer_key | ClearAll

fun trust_step :: "trust_op \<Rightarrow> PeerTrustStore \<Rightarrow> PeerTrustStore" where
  "trust_step (Introduce n at) S = snd (introduce n at S)"
| "trust_step (MarkVerified now k ev) S = snd (markVerified now k ev S)"
| "trust_step (MarkFailed k reason) S = markFailed k reason S"
| "trust_step (Forget k) S = forget k S"
| "trust_step ClearAll S = clear_records S"

definition trust_run :: "trust_op list \<Rightarrow> PeerTrustStore" where
  "trust_run ops = fold trust_step ops new_trust_store"

text \<open>The standing of one key: unknown, introduced, or trusted on the ground of a session.\<close>

datatype standing = Unknown | Known | Trusted string

definition standing_of :: "string \<Rightarrow> PeerTrustStore \<Rightarrow> standing" where
  "standing_of key S = (case mget (peerRecords S) key of
     None \<Rightarrow> Unknown
   | Some r \<Rightarrow> if trust r = Verified then Trusted (the (sessionHash r)) else Known)"

fun trust_rule :: "string \<Rightarrow> trust_op \<Rightarrow> standing \<Rightarrow> standing" where
  "trust_rule key (Introduce n at) s = (if normalize_key (introPublicKey n) = key \<and> s = Unknown then Known else s)"
| "trust_rule key (MarkVerified now k ev) s =
     (if key_of k = key \<and> s \<noteq> Unknown then Trusted (bytesToHex (evSessionHash ev)) else s)"
| "trust_rule key (MarkFailed k reason) s = (if key_of k = key \<and> s \<noteq> Unknown then Known else s)"
| "trust_rule key (Forget k) s = (if key_of k = key then Unknown else s)"
| "trust_rule key ClearAll s = Unknown"

text \<open>The operations that take trust in a key away.\<close>

fun revokes :: "string \<Rightarrow> trust_op \<Rightarrow> bool" where
  "revokes key (MarkFailed k reason) \<longleftrightarrow> key_of k = key"
| "revokes key (Forget k) \<longleftrightarrow> key_of k = key"
| "revokes key ClearAll \<longleftrightarrow> True"
| "revokes key _ \<longleftrightarrow> False"

lemma to_lower_idem [simp]: "to_lower (to_lower s) = to_lower s"
proof -
  have "to_lower (to_lower [c]) = to_lower [c]" for c
  proof -
    define n where "n = (of_char c :: nat)"
    have "c = char_of n" "n < 256" by (simp_all add: n_def)
    then show ?thesis by (auto simp: to_lower_def Let_def)
  qed
  then show ?thesis by (auto simp: to_lower_def)
qed

lemma key_of_idem [simp]: "key_of (KeyHex (key_of k)) = key_of k" "normalize_key (key_of k) = key_of k"
  by (simp_all add: key_of_def normalize_key_def)

interpretation peer_records: keyed_automaton "\<lambda>S key. standing_of key S" trust_step trust_rule "\<lambda>_. True" "\<lambda>_. True"
proof (unfold_locales, goal_cases)
  case (2 S x key)
  show ?case
    by (cases x) (auto simp: standing_of_def introduce_def markVerified_def markFailed_def forget_def clear_records_def
      Let_def split: option.splits)
qed simp

lemma standing_run: "standing_of key (trust_run ops) = fold (trust_rule key) ops Unknown"
  using peer_records.run_rule [where s = new_trust_store and es = ops and k = key]
  by (simp add: trust_run_def standing_of_def new_trust_store_def list.pred_True)

lemma isVerified_standing: "isVerified k S \<longleftrightarrow> (\<exists>h. standing_of (key_of k) S = Trusted h)"
  by (auto simp: isVerified_def standing_of_def split: option.splits)

text \<open>The trust of a key goes back to one promotion after its introduction, and nothing has revoked it since.\<close>

lemma trusted_history:
  "fold (trust_rule key) ops Unknown = Trusted h \<Longrightarrow>
    \<exists>pre now k ev post. ops = pre @ MarkVerified now k ev # post \<and> key_of k = key \<and> bytesToHex (evSessionHash ev) = h \<and>
      list_all (\<lambda>x. \<not> revokes key x) post \<and> fold (trust_rule key) pre Unknown \<noteq> Unknown"
proof (induction ops arbitrary: h rule: rev_induct)
  case (snoc x ops)
  let ?s = "fold (trust_rule key) ops Unknown"
  show ?case
  proof (cases "\<exists>now k ev. x = MarkVerified now k ev \<and> key_of k = key \<and> bytesToHex (evSessionHash ev) = h \<and> ?s \<noteq> Unknown")
    case True
    then show ?thesis by fastforce
  next
    case False
    with snoc.prems have "?s = Trusted h" "\<not> revokes key x" by (cases x; auto split: if_splits)+
    with snoc.IH obtain pre now k ev post where "ops = pre @ MarkVerified now k ev # post" "key_of k = key"
      "bytesToHex (evSessionHash ev) = h" "list_all (\<lambda>x. \<not> revokes key x) post" "fold (trust_rule key) pre Unknown \<noteq> Unknown"
      by blast
    with \<open>\<not> revokes key x\<close> show ?thesis by (intro exI [of _ pre]) force
  qed
qed simp

lemma known_history:
  "fold (trust_rule key) ops Unknown \<noteq> Unknown \<Longrightarrow> \<exists>n at. Introduce n at \<in> set ops \<and> normalize_key (introPublicKey n) = key"
proof (induction ops rule: rev_induct)
  case (snoc x ops)
  then show ?case by (cases x) (auto split: if_splits)
qed simp

text \<open>Every record is stored under the key it names, in lower case.\<close>

definition keyed_records :: "PeerTrustStore \<Rightarrow> bool" where
  "keyed_records S \<longleftrightarrow> wf_map (peerRecords S) \<and> (\<forall>(k, r) \<in> set (peerRecords S). recIdentityPublicKey r = k \<and> normalize_key k = k \<and> (trust r = Verified \<longrightarrow> sessionHash r \<noteq> None))"

lemma keyed_records_set:
  "keyed_records S \<Longrightarrow> recIdentityPublicKey r = k \<Longrightarrow> normalize_key k = k \<Longrightarrow> (trust r = Verified \<Longrightarrow> sessionHash r \<noteq> None) \<Longrightarrow>
    keyed_records (S\<lparr>peerRecords := mset_at k r (peerRecords S)\<rparr>)"
  using set_mset_at_subset [of k r "peerRecords S"] by (auto simp: keyed_records_def)

lemma keyed_records_get: "keyed_records S \<Longrightarrow> mget (peerRecords S) k = Some r \<Longrightarrow> recIdentityPublicKey r = k \<and> normalize_key k = k \<and>
    (trust r = Verified \<longrightarrow> sessionHash r \<noteq> None)"
  by (auto simp: keyed_records_def dest: map_of_SomeD)

lemma keyed_records_step: "keyed_records S \<Longrightarrow> keyed_records (trust_step x S)"
proof (cases x)
  case (Introduce n at)
  moreover assume "keyed_records S"
  moreover have "normalize_key (normalize_key s) = normalize_key s" for s by (simp add: normalize_key_def)
  ultimately show ?thesis
    by (auto simp: introduce_def Let_def split: option.splits dest: keyed_records_get intro!: keyed_records_set)
next
  case (Forget k)
  moreover assume "keyed_records S"
  ultimately show ?thesis by (auto simp: keyed_records_def forget_def in_set_mdel)
qed (auto simp: markVerified_def markFailed_def clear_records_def Let_def keyed_records_def [of "S\<lparr>peerRecords := []\<rparr>"]
    split: option.splits dest: keyed_records_get intro!: keyed_records_set)

lemma keyed_records_run: "keyed_records (trust_run ops)"
proof -
  have "keyed_records S \<Longrightarrow> keyed_records (fold trust_step ops S)" for S
    by (induction ops arbitrary: S) (simp_all add: keyed_records_step)
  moreover have "keyed_records new_trust_store" by (simp add: new_trust_store_def keyed_records_def)
  ultimately show ?thesis by (simp add: trust_run_def)
qed

section \<open>The sorted list\<close>

lemma set_list_records: "set (list_records S) = snd ` set (peerRecords S)"
proof -
  have ins: "set (insert_newest r xs) = insert r (set xs)" for r xs by (induction xs) auto
  have "set (foldr insert_newest rs []) = set rs" for rs by (induction rs) (simp_all add: ins)
  then show ?thesis by (simp add: list_records_def)
qed

lemma verified_records_verified:
  assumes "keyed_records S"
  shows "r \<in> set (verified_records S) \<longleftrightarrow>
    get_record (KeyHex (recIdentityPublicKey r)) S = Some r \<and> isVerified (KeyHex (recIdentityPublicKey r)) S"
proof
  assume "r \<in> set (verified_records S)"
  then obtain k where k: "(k, r) \<in> set (peerRecords S)" "trust r = Verified"
    by (auto simp: verified_records_def set_list_records)
  with assms have "recIdentityPublicKey r = k" "normalize_key k = k" "mget (peerRecords S) k = Some r"
    by (auto simp: keyed_records_def mget_Some_iff)
  with k show "get_record (KeyHex (recIdentityPublicKey r)) S = Some r \<and> isVerified (KeyHex (recIdentityPublicKey r)) S"
    by (simp add: get_record_def isVerified_def key_of_def)
next
  assume "get_record (KeyHex (recIdentityPublicKey r)) S = Some r \<and> isVerified (KeyHex (recIdentityPublicKey r)) S"
  then have "mget (peerRecords S) (key_of (KeyHex (recIdentityPublicKey r))) = Some r" "trust r = Verified"
    by (auto simp: get_record_def isVerified_def)
  then show "r \<in> set (verified_records S)"
    by (force simp: verified_records_def set_list_records dest: map_of_SomeD)
qed

section \<open>Properties\<close>

text \<open>C29: The store refines the trust automaton. After any history the standing of every key is what the automaton
  of that key alone reaches: introduced by a scan, trusted only from there, back on a failure.\<close>

theorem trust_refines:
  "standing_of key (trust_run ops) = fold (trust_rule key) ops Unknown"
  by (rule standing_run)

text \<open>A verified peer was introduced and then authenticated. Whoever the store lists as verified after any
  history has a promotion in it whose evidence is the recorded session hash, made after an introduction of the
  same key and not followed by a failure, a removal or a reset.\<close>

theorem verified_needs_evidence:
  assumes "r \<in> set (verified_records (trust_run ops))"
  shows "\<exists>pre now k ev post n at. ops = pre @ MarkVerified now k ev # post \<and> key_of k = recIdentityPublicKey r \<and>
    sessionHash r = Some (bytesToHex (evSessionHash ev)) \<and> list_all (\<lambda>x. \<not> revokes (recIdentityPublicKey r) x) post \<and>
    Introduce n at \<in> set pre \<and> normalize_key (introPublicKey n) = recIdentityPublicKey r"
proof -
  let ?k = "recIdentityPublicKey r" and ?S = "trust_run ops"
  have r: "mget (peerRecords ?S) (key_of (KeyHex ?k)) = Some r" "trust r = Verified"
    using assms verified_records_verified [OF keyed_records_run] by (auto simp: get_record_def isVerified_def)
  then have k: "key_of (KeyHex ?k) = ?k" "sessionHash r \<noteq> None"
    using keyed_records_get [OF keyed_records_run r(1)] by (auto simp: key_of_def)
  with r have "standing_of ?k ?S = Trusted (the (sessionHash r))" by (simp add: standing_of_def)
  then have "fold (trust_rule ?k) ops Unknown = Trusted (the (sessionHash r))" by (simp add: standing_run)
  from trusted_history [OF this] obtain pre now key ev post where h:
    "ops = pre @ MarkVerified now key ev # post" "key_of key = ?k" "bytesToHex (evSessionHash ev) = the (sessionHash r)"
    "list_all (\<lambda>x. \<not> revokes ?k x) post" "fold (trust_rule ?k) pre Unknown \<noteq> Unknown" by blast
  from known_history [OF h(5)] obtain n at where "Introduce n at \<in> set pre" "normalize_key (introPublicKey n) = ?k" by blast
  moreover have "sessionHash r = Some (bytesToHex (evSessionHash ev))" using h(3) k(2) by auto
  ultimately show ?thesis using h(1,2,4) by blast
qed

definition trust_story :: "trust_op list" where
  "trust_story = [Introduce alice_introduction (Num 5),
     MarkVerified (Num 7) (KeyBytes (publicKey alice)) \<lparr>evSessionHash = [1, 2], evAt = None\<rparr>, Introduce alice_introduction (Num 9)]"

lemma hex_12: "bytesToHex [1, 2] = ''0102''"
  by code_simp

theorem verified_needs_evidence_witness:
  "\<exists>r. verified_records (trust_run trust_story) = [r] \<and> verifiedAt r = Some (Num 7) \<and> introducedAt r = Num 9 \<and>
    sessionHash r = Some ''0102'' \<and> (\<exists>pre now k ev post. trust_story = pre @ MarkVerified now k ev # post)"
proof -
  obtain r where r: "verified_records (trust_run trust_story) = [r]" "verifiedAt r = Some (Num 7)" "introducedAt r = Num 9"
    "sessionHash r = Some ''0102''"
    by (simp add: trust_run_def trust_story_def new_trust_store_def introduce_def markVerified_def key_of_def normalize_key_def
        alice_introduction_def verified_records_def list_records_def Let_def hex_12 del: bytesToHex_Cons)
  from verified_needs_evidence [of r trust_story] r show ?thesis by fastforce
qed

end
