(* ===== verification/DataView.thy ===== *)
theory DataView
  imports Bytes
begin

text \<open>
  The big endian 16-bit accessors of \<open>DataView\<close> the frame formats of \<open>introduction-session.ts\<close> and
  \<open>frameChannel.ts\<close> use: writing wraps modulo 2^16.
\<close>

definition set_uint16 :: "nat \<Rightarrow> bytes" where
  "set_uint16 n = [word_of_nat (n div 256), word_of_nat n]"

text \<open>\<open>view.getUint16(i)\<close> for \<open>i + 1\<close> inside the view.\<close>

definition get_uint16 :: "nat \<Rightarrow> bytes \<Rightarrow> nat" where
  "get_uint16 i bs = 256 * unat (bs ! i) + unat (bs ! (i + 1))"

lemma length_set_uint16 [simp]: "length (set_uint16 n) = 2"
  by (simp add: set_uint16_def)

lemma unat_byte_of_nat: "unat (word_of_nat n :: byte) = n mod 256"
  by (simp add: unat_of_nat)

lemma get_set_uint16 [simp]: "get_uint16 0 (set_uint16 n @ r) = n mod 65536"
proof -
  have "256 * (n div 256 mod 256) + n mod 256 = n mod (256 * 256)" by (simp only: mod_mult2_eq)
  then show ?thesis by (simp add: get_uint16_def set_uint16_def unat_byte_of_nat)
qed

lemma get_uint16_skip: "get_uint16 (length a + i) (a @ r) = get_uint16 i r"
  by (simp add: get_uint16_def nth_append add.assoc)

lemma get_second_uint16 [simp]: "get_uint16 2 (set_uint16 m @ set_uint16 n @ r) = n mod 65536"
  using get_uint16_skip [of "set_uint16 m" 0] by simp

end
