(* ===== verification/IntroductionSession.thy ===== *)
theory IntroductionSession
  imports Introduction DataView
begin

text \<open>
  \<open>src/identity/introduction-session.ts\<close>: from a scanned introduction to an authenticated session. Both
  roles run over a channel whose incoming frames are given in order; a \<open>receive\<close> that never completes is
  the outcome \<open>Waiting\<close>. Thrown errors are kept with their class and message, since the caller searches
  the message; the messages of engine and library errors, which name none of the program's codes, are
  left empty. Nonces and ephemeral keys are consecutive random draws from index \<open>i\<close>.
\<close>

section \<open>Channel, outcomes and sequencing\<close>

text \<open>
  \<open>refuses\<close>: the error of \<open>send\<close> for a frame the channel does not take; \<open>sendFailures\<close>: what the next calls
  of \<open>send\<close> do otherwise, beyond its end they succeed.
\<close>

record Wire =
  inbox :: "bytes res list"
  outbox :: "bytes list"
  sendFailures :: "js_error option list"
  refuses :: "bytes \<Rightarrow> js_error option"

datatype 'a outcome = Done 'a | Thrown string string | Waiting

type_synonym 'a session_run = "Wire \<Rightarrow> 'a outcome \<times> Wire"

definition finish :: "'a \<Rightarrow> 'a session_run" where
  "finish x w = (Done x, w)"

definition fail :: "string \<Rightarrow> string \<Rightarrow> 'a session_run" where
  "fail cls msg w = (Thrown cls msg, w)"

definition andThen :: "'a session_run \<Rightarrow> ('a \<Rightarrow> 'b session_run) \<Rightarrow> 'b session_run" where
  "andThen m f w = (case m w of
     (Done x, w1) \<Rightarrow> f x w1 | (Thrown c s, w1) \<Rightarrow> (Thrown c s, w1) | (Waiting, w1) \<Rightarrow> (Waiting, w1))"

datatype IntroductionSessionErrorCode = INTRODUCTION_NOT_USABLE | PEER_INTRODUCTION_MISMATCH | HANDSHAKE_FAILED | CHANNEL_FAILED

definition session_code :: "IntroductionSessionErrorCode \<Rightarrow> string" where
  "session_code c = (case c of INTRODUCTION_NOT_USABLE \<Rightarrow> ''INTRODUCTION_NOT_USABLE''
     | PEER_INTRODUCTION_MISMATCH \<Rightarrow> ''PEER_INTRODUCTION_MISMATCH'' | HANDSHAKE_FAILED \<Rightarrow> ''HANDSHAKE_FAILED''
     | CHANNEL_FAILED \<Rightarrow> ''CHANNEL_FAILED'')"

definition session_error :: "IntroductionSessionErrorCode \<Rightarrow> string \<Rightarrow> 'a session_run" where
  "session_error c msg = fail ''IntroductionSessionError'' (session_code c @ '': '' @ msg)"

definition throw_js :: "js_error \<Rightarrow> 'a session_run" where
  "throw_js e = (case e of Err s \<Rightarrow> fail ''Error'' s | TypeErr \<Rightarrow> fail ''TypeError'' []
     | RangeErr \<Rightarrow> fail ''RangeError'' [] | LibErr \<Rightarrow> fail ''Error'' [])"

definition of_res :: "'a res \<Rightarrow> 'a session_run" where
  "of_res r = (case r of Inl e \<Rightarrow> throw_js e | Inr x \<Rightarrow> finish x)"

definition of_intro :: "'a intro \<Rightarrow> 'a session_run" where
  "of_intro r = (case r of Inr x \<Rightarrow> finish x | Inl (IntroductionError c msg) \<Rightarrow> fail ''IntroductionError'' msg
     | Inl (OtherError e) \<Rightarrow> throw_js e)"

text \<open>\<open>try { m } catch (error) { throw new IntroductionSessionError(c, lead + String(error)) }\<close>, or the message only.\<close>

definition wrap_error :: "IntroductionSessionErrorCode \<Rightarrow> string \<Rightarrow> 'a session_run \<Rightarrow> 'a session_run" where
  "wrap_error c lead m w = (case m w of
     (Thrown cls msg, w1) \<Rightarrow> session_error c (lead @ cls @ '': '' @ msg) w1 | r \<Rightarrow> r)"

definition wrap_message :: "IntroductionSessionErrorCode \<Rightarrow> string \<Rightarrow> 'a session_run \<Rightarrow> 'a session_run" where
  "wrap_message c lead m w = (case m w of (Thrown cls msg, w1) \<Rightarrow> session_error c (lead @ msg) w1 | r \<Rightarrow> r)"

definition send_frame :: "bytes \<Rightarrow> unit session_run" where
  "send_frame f w = (case refuses w f of
     Some e \<Rightarrow> throw_js e w
   | None \<Rightarrow> (case sendFailures w of
        [] \<Rightarrow> (Done (), w\<lparr>outbox := outbox w @ [f]\<rparr>)
      | None # rest \<Rightarrow> (Done (), w\<lparr>outbox := outbox w @ [f], sendFailures := rest\<rparr>)
      | Some e # rest \<Rightarrow> throw_js e (w\<lparr>sendFailures := rest\<rparr>)))"

definition receive_frame :: "bytes session_run" where
  "receive_frame w = (case inbox w of [] \<Rightarrow> (Waiting, w) | r # rest \<Rightarrow> of_res r (w\<lparr>inbox := rest\<rparr>))"

section \<open>Frames\<close>

definition packFields :: "bytes list \<Rightarrow> bytes" where
  "packFields parts = concatBytes (concat (map (\<lambda>field. [set_uint16 (length field), field]) parts))"

fun unpack_loop :: "bytes \<Rightarrow> nat \<Rightarrow> nat \<Rightarrow> bytes list option" where
  "unpack_loop frame 0 offset = Some []"
| "unpack_loop frame (Suc k) offset =
     (if length frame < offset + 2 then None
      else let len = get_uint16 offset frame; offset1 = offset + 2
      in if length frame < offset1 + len then None
         else map_option ((#) (slice offset1 (offset1 + len) frame)) (unpack_loop frame k (offset1 + len)))"

definition unpackFields :: "bytes \<Rightarrow> nat \<Rightarrow> bytes list session_run" where
  "unpackFields frame count = (case unpack_loop frame count 0 of
     None \<Rightarrow> session_error HANDSHAKE_FAILED ''Truncated frame.'' | Some parts \<Rightarrow> finish parts)"

definition encodeIdentityMessage :: "NodeIntroduction \<Rightarrow> bytes \<Rightarrow> bytes" where
  "encodeIdentityMessage introduction bnd = packFields [text_encode (encodeNodeIntroduction introduction), bnd]"

definition decodeIdentityMessage :: "lib \<Rightarrow> bytes \<Rightarrow> (NodeIntroduction \<times> bytes) session_run" where
  "decodeIdentityMessage L frame =
     andThen (unpackFields frame 2) (\<lambda>parts.
     andThen (wrap_message PEER_INTRODUCTION_MISMATCH ''Peer sent an unusable introduction: ''
               (of_intro (decodeNodeIntroduction L (text_decode (parts ! 0))))) (\<lambda>introduction.
       finish (introduction, parts ! 1)))"

text \<open>The binding travels as a CBOR map with the field names of the interface.\<close>

definition binding_value :: "SessionIdentityBinding \<Rightarrow> jsval" where
  "binding_value b = JObj [(''identityPublicKey'', JBytes (identityPublicKey b)), (''x25519PublicKey'', JBytes (x25519PublicKey b)),
     (''handshakeHash'', JBytes (bindingHash b)), (''role'', JStr (role_name (bindingRole b))), (''signature'', JBytes (bindingSignature b))]"

definition encodeBinding :: "lib \<Rightarrow> SessionIdentityBinding \<Rightarrow> bytes" where
  "encodeBinding L b = cbor_encode L (binding_value b)"

definition decodeBinding :: "lib \<Rightarrow> bytes \<Rightarrow> jsval res" where
  "decodeBinding L bs = of_lib (cbor_decode L bs)"

section \<open>The gate on a decoded bnd\<close>

text \<open>
  The peer's binding is whatever the frame decodes to. These are \<open>equalBytes\<close>, \<open>verifySessionIdentityBinding\<close>
  and \<open>establishAuthenticatedSession\<close> at such a value: reading a member of \<open>undefined\<close> throws, anything with
  the right length and elements compares equal, and the signature check throws on what is not bytes.
\<close>

definition js_length :: "jsval \<Rightarrow> jsval res" where
  "js_length v = (case v of
     JBytes bs \<Rightarrow> Inr (JNum (Num (int (length bs)))) | JArr vs \<Rightarrow> Inr (JNum (Num (int (length vs))))
   | JStr s \<Rightarrow> Inr (JNum (Num (int (length s)))) | _ \<Rightarrow> js_prop v ''length'')"

definition same_length :: "jsval \<Rightarrow> bytes \<Rightarrow> bool res" where
  "same_length v bs = rbind (js_length v) (\<lambda>n. Inr (strict_number n = Num (int (length bs))))"

definition same_elements :: "jsval \<Rightarrow> bytes \<Rightarrow> bool" where
  "same_elements v bs \<longleftrightarrow> list_all (\<lambda>i. case js_index v i of
     Inr x \<Rightarrow> strict_number x = Num (uint (bs ! i)) | Inl _ \<Rightarrow> False) [0..<length bs]"

definition equal_decoded :: "jsval \<Rightarrow> bytes \<Rightarrow> bool res" where
  "equal_decoded v bs = rbind (same_length v bs) (\<lambda>ok. Inr (ok \<and> same_elements v bs))"

definition verify_decoded :: "lib \<Rightarrow> jsval \<Rightarrow> bytes \<Rightarrow> bytes \<Rightarrow> role \<Rightarrow> bool res" where
  "verify_decoded L v xpk hash r =
     rbind (js_prop v ''role'') (\<lambda>claimed.
     if claimed \<noteq> JStr (role_name r) then Inr False
     else rbind (js_prop v ''x25519PublicKey'') (\<lambda>vx. rbind (same_length vx xpk) (\<lambda>ok1.
     if \<not> ok1 then Inr False
     else rbind (js_prop v ''handshakeHash'') (\<lambda>vh. rbind (same_length vh hash) (\<lambda>ok2.
     if \<not> ok2 \<or> \<not> same_elements vx xpk \<or> \<not> same_elements vh hash then Inr False
     else rbind (js_prop v ''signature'') (\<lambda>vs. rbind (js_prop v ''identityPublicKey'') (\<lambda>vk.
       case (vs, vk) of
         (JBytes sig, JBytes pk) \<Rightarrow> verifySignature L sig (buildSessionBindingMessage xpk hash r) pk
       | _ \<Rightarrow> Inl LibErr)))))))"

definition establish_decoded ::
    "lib \<Rightarrow> Identity \<Rightarrow> bytes \<Rightarrow> bytes \<Rightarrow> bytes \<Rightarrow> jsval \<Rightarrow> HandshakeResult \<Rightarrow> role \<Rightarrow> SessionIdentityBinding \<Rightarrow>
     AuthenticatedSession res" where
  "establish_decoded L identity localX peerX expected v handshake r localBinding =
     (let hash = handshakeHash handshake
      in if \<not> equalBytes (identityPublicKey localBinding) (publicKey identity)
         then Inl (Err ''SESSION_IDENTITY_MISMATCH'')
         else rbind (verifySessionIdentityBinding L localBinding localX hash r)
           (\<lambda>local_ok. if \<not> local_ok then Inl (Err ''LOCAL_SESSION_BINDING_INVALID'')
            else rbind (js_prop v ''identityPublicKey'') (\<lambda>vk. rbind (equal_decoded vk expected) (\<lambda>same.
            if \<not> same then Inl (Err ''PEER_IDENTITY_MISMATCH'')
            else rbind (verify_decoded L v peerX hash (opposite r))
              (\<lambda>peer_ok. if \<not> peer_ok then Inl (Err ''PEER_SESSION_BINDING_INVALID'')
               else Inr \<lparr>as_sendKey = sendKey handshake, as_receiveKey = receiveKey handshake,
                         as_rootKey = rootKey handshake, as_handshakeHash = hash,
                         localIdentityPublicKey = publicKey identity, peerIdentityPublicKey = expected,
                         localX25519PublicKey = localX, peerX25519PublicKey = peerX, sessionRole = r\<rparr>)))))"

section \<open>The two roles\<close>

record LocalNodeKeys =
  nodeIdentity :: Identity
  nodeStaticKeyPair :: X25519KeyPair

definition assertUsable :: "NodeIntroduction \<Rightarrow> string \<Rightarrow> unit session_run" where
  "assertUsable introduction requiredCapability =
     (if introducesCapability introduction requiredCapability then finish ()
      else session_error INTRODUCTION_NOT_USABLE
        (''Peer introduction does not advertise the '' @ [CHR 0x22] @ requiredCapability @ [CHR 0x22] @ '' transport.''))"

definition localIntroduction :: "lib \<Rightarrow> nat \<Rightarrow> LocalNodeKeys \<Rightarrow> NodeIntroduction session_run" where
  "localIntroduction L i own =
     of_intro (createNodeIntroduction L i (nodeIdentity own) (xPublicKey (nodeStaticKeyPair own)) None None)"

definition authenticateScannedPeer ::
    "lib \<Rightarrow> nat \<Rightarrow> LocalNodeKeys \<Rightarrow> NodeIntroduction \<Rightarrow> string \<Rightarrow> AuthenticatedSession session_run" where
  "authenticateScannedPeer L i own introduction required =
     andThen (assertUsable introduction required) (\<lambda>_.
     let expectedPeerIdentity = introducedIdentityPublicKey introduction;
         peerStaticPublicKey = introducedStaticPublicKey introduction;
         keys = nodeStaticKeyPair own
     in andThen (localIntroduction L i own) (\<lambda>intro.
     andThen (of_res (initiatorWriteMessage1 L (i + 1) keys peerStaticPublicKey (text_encode (encodeNodeIntroduction intro))))
       (\<lambda>(message, state, initiatorEphemeral).
     andThen (wrap_error CHANNEL_FAILED ''Handshake send failed: '' (send_frame
       (packFields [m1_ephemeralPublicKey message, m1_encryptedStaticKey message, m1_encryptedPayload message]))) (\<lambda>_.
     andThen (wrap_error CHANNEL_FAILED ''Handshake receive failed: '' (andThen receive_frame (\<lambda>frame. unpackFields frame 2))) (\<lambda>parts.
     andThen (wrap_error HANDSHAKE_FAILED ''Handshake failed: '' (of_res (initiatorReadMessage2 L state keys initiatorEphemeral
       \<lparr>m2_ephemeralPublicKey = parts ! 0, m2_encryptedPayload = parts ! 1\<rparr>))) (\<lambda>handshake.
     andThen (of_res (createLocalSessionBinding L (nodeIdentity own) (xPublicKey keys) handshake Initiator)) (\<lambda>localBinding.
     andThen (send_frame (encodeIdentityMessage intro (encodeBinding L localBinding))) (\<lambda>_.
     andThen (andThen receive_frame (decodeIdentityMessage L)) (\<lambda>(responderIntroduction, responderBindingBytes).
     if introPublicKey responderIntroduction \<noteq> introPublicKey introduction
     then session_error PEER_INTRODUCTION_MISMATCH ''Authenticated peer does not match the scanned introduction.''
     else andThen (of_res (decodeBinding L responderBindingBytes)) (\<lambda>peerBinding.
       of_res (establish_decoded L (nodeIdentity own) (xPublicKey keys) peerStaticPublicKey expectedPeerIdentity peerBinding
         handshake Initiator localBinding)))))))))))"

text \<open>\<open>!binding\<close> and \<open>instanceof Uint8Array\<close>.\<close>

definition falsy :: "jsval \<Rightarrow> bool" where
  "falsy v \<longleftrightarrow> v \<in> {JUndef, JNull, JBool False, JNum (Num 0), JNum NaN, JStr []}"

definition readBindingIdentity :: "jsval \<Rightarrow> NodeIntroduction \<Rightarrow> bytes session_run" where
  "readBindingIdentity bnd introduction =
     (let fromIntroduction = introducedIdentityPublicKey introduction
      in if falsy bnd then session_error PEER_INTRODUCTION_MISMATCH ''Peer sent no usable session binding.''
         else case js_prop bnd ''identityPublicKey'' of
           Inr (JBytes pk) \<Rightarrow>
             (if bytesToHex pk \<noteq> bytesToHex fromIntroduction
              then session_error PEER_INTRODUCTION_MISMATCH ''Peer session binding does not correspond to its introduction.''
              else finish fromIntroduction)
         | _ \<Rightarrow> session_error PEER_INTRODUCTION_MISMATCH ''Peer sent no usable session binding.'')"

definition respondToScannedPeer ::
    "lib \<Rightarrow> nat \<Rightarrow> LocalNodeKeys \<Rightarrow> NodeIntroduction option \<Rightarrow> string \<Rightarrow> AuthenticatedSession session_run" where
  "respondToScannedPeer L i own expectedIntroduction required =
     (let keys = nodeStaticKeyPair own
      in andThen (andThen receive_frame (\<lambda>frame. unpackFields frame 3)) (\<lambda>parts.
     andThen (wrap_error HANDSHAKE_FAILED ''Handshake failed: '' (of_res (responderReadMessage1 L keys
       \<lparr>m1_ephemeralPublicKey = parts ! 0, m1_encryptedStaticKey = parts ! 1, m1_encryptedPayload = parts ! 2\<rparr>)))
       (\<lambda>(state, initiatorStaticPublicKey, payload).
     andThen (of_intro (decodeNodeIntroduction L (text_decode payload))) (\<lambda>peerIntroduction.
     andThen (assertUsable peerIntroduction required) (\<lambda>_.
     if (case expectedIntroduction of None \<Rightarrow> False | Some e \<Rightarrow> introPublicKey e \<noteq> introPublicKey peerIntroduction)
     then session_error PEER_INTRODUCTION_MISMATCH ''Session peer does not match the introduction this device scanned.''
     else andThen (localIntroduction L i own) (\<lambda>intro.
     andThen (of_res (responderWriteMessage2 L (i + 1) state (parts ! 0) initiatorStaticPublicKey
       (text_encode (encodeNodeIntroduction intro)))) (\<lambda>(message, handshake, _).
     andThen (wrap_error CHANNEL_FAILED ''Handshake send failed: '' (send_frame
       (packFields [m2_ephemeralPublicKey message, m2_encryptedPayload message]))) (\<lambda>_.
     andThen (of_res (createLocalSessionBinding L (nodeIdentity own) (xPublicKey keys) handshake Responder)) (\<lambda>localBinding.
     andThen (andThen receive_frame (decodeIdentityMessage L)) (\<lambda>(claimedIntroduction, peerBindingBytes).
     andThen (of_res (decodeBinding L peerBindingBytes)) (\<lambda>peerBinding.
     andThen (readBindingIdentity peerBinding claimedIntroduction) (\<lambda>expectedPeerIdentity.
     andThen (of_res (establish_decoded L (nodeIdentity own) (xPublicKey keys) initiatorStaticPublicKey expectedPeerIdentity
         peerBinding handshake Responder localBinding)) (\<lambda>session.
     andThen (send_frame (encodeIdentityMessage intro (encodeBinding L localBinding))) (\<lambda>_.
       finish session))))))))))))))"

section \<open>Running the steps\<close>

lemma andThen_run [simp]:
  "andThen (finish x) f = f x" "andThen (fail c s) f = fail c s"
  "andThen (andThen m f) g = andThen m (\<lambda>x. andThen (f x) g)"
  by (auto simp: andThen_def finish_def fail_def fun_eq_iff split: prod.splits outcome.splits)

lemma of_res_run [simp]:
  "of_res (Inr x) = finish x" "of_res (Inl e) = throw_js e" "of_intro (Inr y) = finish y"
  "wrap_error c l (finish z) = finish z" "wrap_message c l (finish z) = finish z"
  by (auto simp: of_res_def of_intro_def wrap_error_def wrap_message_def finish_def fun_eq_iff)

lemma finish_run: "finish x w = (Done x, w)"
  by (simp add: finish_def)

lemma receive_run: "inbox w = Inr f # rest \<Longrightarrow> andThen receive_frame k w = k f (w\<lparr>inbox := rest\<rparr>)"
  by (simp add: andThen_def receive_frame_def finish_run)

lemma send_run: "refuses w f = None \<Longrightarrow> sendFailures w = [] \<Longrightarrow> andThen (send_frame f) k w = k () (w\<lparr>outbox := outbox w @ [f]\<rparr>)"
  by (simp add: andThen_def send_frame_def)

lemma wrapped_send_run:
  "refuses w f = None \<Longrightarrow> sendFailures w = [] \<Longrightarrow> andThen (wrap_error c l (send_frame f)) k w = k () (w\<lparr>outbox := outbox w @ [f]\<rparr>)"
  by (simp add: andThen_def send_frame_def wrap_error_def)

lemma wrapped_receive_run:
  "inbox w = Inr f # rest \<Longrightarrow> g f = finish x \<Longrightarrow>
    andThen (wrap_error c l (andThen receive_frame g)) k w = k x (w\<lparr>inbox := rest\<rparr>)"
  by (simp add: andThen_def [of "wrap_error c l (andThen receive_frame g)"] wrap_error_def receive_run finish_run)

subsection \<open>What a completed run has done\<close>

lemma andThen_Done: "andThen m f w = (Done y, w') \<longleftrightarrow> (\<exists>x w1. m w = (Done x, w1) \<and> f x w1 = (Done y, w'))"
  by (auto simp: andThen_def split: prod.splits outcome.splits)

lemma fail_Done [simp]: "fail c s w \<noteq> (Done x, w')"
  by (simp add: fail_def)

lemma session_error_Done [simp]: "session_error c s w \<noteq> (Done x, w')"
  by (simp add: session_error_def)

lemma throw_js_Done [simp]: "throw_js e w \<noteq> (Done x, w')"
  by (cases e) (simp_all add: throw_js_def)

lemma of_res_Done: "of_res r w = (Done x, w') \<longleftrightarrow> r = Inr x \<and> w' = w"
  by (cases r) (auto simp: of_res_def finish_run)

lemma of_intro_Done: "of_intro r w = (Done x, w') \<longleftrightarrow> r = Inr x \<and> w' = w"
  by (auto simp: of_intro_def finish_run split: sum.splits intro_error.splits)

lemma wrap_Done:
  "wrap_error c l m w = (Done x, w') \<longleftrightarrow> m w = (Done x, w')" "wrap_message c l m w = (Done x, w') \<longleftrightarrow> m w = (Done x, w')"
  by (auto simp: wrap_error_def wrap_message_def split: prod.splits outcome.splits)

lemma if_error_Done: "(if b then session_error c s else m) w = (Done x, w') \<longleftrightarrow> \<not> b \<and> m w = (Done x, w')"
  by simp

lemmas run_Done = andThen_Done of_res_Done of_intro_Done wrap_Done if_error_Done

section \<open>Frames come back\<close>

lemma packFields_simps [simp]: "packFields [] = []" "packFields (f # fs) = set_uint16 (length f) @ f @ packFields fs"
  by (simp_all add: packFields_def)

lemma unpack_loop_pack:
  "list_all (\<lambda>f. length f < 65536) fs \<Longrightarrow> unpack_loop (pre @ packFields fs @ r) (length fs) (length pre) = Some fs"
proof (induction fs arbitrary: pre)
  case (Cons f fs)
  have u: "get_uint16 (length pre) (pre @ set_uint16 (length f) @ f @ packFields fs @ r) = length f"
    using get_uint16_skip [of pre 0] Cons.prems by simp
  have sl: "slice (length pre + 2) (length pre + 2 + length f) (pre @ set_uint16 (length f) @ f @ packFields fs @ r) = f"
    by (simp add: slice_def)
  from Cons.IH [of "pre @ set_uint16 (length f) @ f"] Cons.prems u sl show ?case
    by (simp add: Let_def add.assoc)
qed simp

lemma unpack_pack [simp]:
  "list_all (\<lambda>f. length f < 65536) fs \<Longrightarrow> n = length fs \<Longrightarrow> unpackFields (packFields fs) n = finish fs"
  using unpack_loop_pack [of fs "[]" "[]"] by (simp add: unpackFields_def)

text \<open>The message of the peer's identity, decoded.\<close>

lemma decode_identity:
  assumes "decodeNodeIntroduction L (encodeNodeIntroduction n) = Inr n"
    and "length (encodeNodeIntroduction n) < 65536" "length b < 65536"
  shows "decodeIdentityMessage L (encodeIdentityMessage n b) = finish (n, b)"
proof -
  have "unpackFields (packFields [text_encode (encodeNodeIntroduction n), b]) 2 = finish [text_encode (encodeNodeIntroduction n), b]"
    using assms(2,3) by (intro unpack_pack) simp_all
  then show ?thesis using assms(1) by (simp add: decodeIdentityMessage_def encodeIdentityMessage_def)
qed

section \<open>The gate on decoded bindings\<close>

lemma same_bytes [simp]:
  "same_length (JBytes a) b = Inr (length a = length b)"
  "length a = length b \<Longrightarrow> same_elements (JBytes a) b \<longleftrightarrow> a = b"
  "equal_decoded (JBytes a) b = Inr (a = b)"
proof -
  show len: "same_length (JBytes a) b = Inr (length a = length b)" by (simp add: same_length_def js_length_def)
  have el: "same_elements (JBytes a) b \<longleftrightarrow> a = b" if "length a = length b"
  proof -
    have "same_elements (JBytes a) b \<longleftrightarrow> (\<forall>i < length b. uint (a ! i) = uint (b ! i))"
      using that by (auto simp: same_elements_def js_index_def list_all_iff)
    also have "\<dots> \<longleftrightarrow> (\<forall>i < length b. a ! i = b ! i)" by (simp only: word_uint_eq_iff)
    finally show ?thesis using that by (auto intro: nth_equalityI)
  qed
  then show "length a = length b \<Longrightarrow> same_elements (JBytes a) b \<longleftrightarrow> a = b" .
  show "equal_decoded (JBytes a) b = Inr (a = b)"
    using el by (cases "length a = length b") (auto simp: equal_decoded_def len)
qed

lemma bytes_pair: "(case vs of JBytes sig \<Rightarrow> (case vk of JBytes pk \<Rightarrow> check sig pk | _ \<Rightarrow> Inl LibErr) | _ \<Rightarrow> Inl LibErr) = Inr b \<longleftrightarrow>
    (\<exists>sig pk. vs = JBytes sig \<and> vk = JBytes pk \<and> check sig pk = Inr b)"
  by (cases vs; cases vk) simp_all

lemma establish_decoded_typed:
  assumes "identityPublicKey lb = publicKey idn" "verifySessionIdentityBinding L lb lx (handshakeHash hs) r = Inr True"
    and "identityPublicKey b = expected" "verifySessionIdentityBinding L b px (handshakeHash hs) (opposite r) = Inr True"
  shows "establish_decoded L idn lx px expected (binding_value b) hs r lb =
    Inr \<lparr>as_sendKey = sendKey hs, as_receiveKey = receiveKey hs, as_rootKey = rootKey hs, as_handshakeHash = handshakeHash hs,
         localIdentityPublicKey = publicKey idn, peerIdentityPublicKey = expected,
         localX25519PublicKey = lx, peerX25519PublicKey = px, sessionRole = r\<rparr>"
proof -
  have "verify_decoded L (binding_value b) px (handshakeHash hs) (opposite r) = Inr True"
    using assms(4) by (simp add: verifySessionIdentityBinding_True verify_decoded_def binding_value_def js_prop_def obj_get_def
        verifySignature_def)
  with assms(1-3) show ?thesis
    by (simp add: establish_decoded_def Let_def binding_value_def js_prop_def obj_get_def)
qed

lemma establish_decoded_Inr:
  assumes "establish_decoded L idn lx px expected v hs r lb = Inr s"
  shows "\<exists>sig. ed_verify L sig (buildSessionBindingMessage px (handshakeHash hs) (opposite r)) expected = Some True"
    and "s = \<lparr>as_sendKey = sendKey hs, as_receiveKey = receiveKey hs, as_rootKey = rootKey hs, as_handshakeHash = handshakeHash hs,
         localIdentityPublicKey = publicKey idn, peerIdentityPublicKey = expected,
         localX25519PublicKey = lx, peerX25519PublicKey = px, sessionRole = r\<rparr>"
proof -
  obtain vk where vk: "js_prop v ''identityPublicKey'' = Inr vk" "equal_decoded vk expected = Inr True"
    "verify_decoded L v px (handshakeHash hs) (opposite r) = Inr True"
    and s: "s = \<lparr>as_sendKey = sendKey hs, as_receiveKey = receiveKey hs, as_rootKey = rootKey hs, as_handshakeHash = handshakeHash hs,
         localIdentityPublicKey = publicKey idn, peerIdentityPublicKey = expected,
         localX25519PublicKey = lx, peerX25519PublicKey = px, sessionRole = r\<rparr>"
    using assms by (auto simp: establish_decoded_def Let_def res_simps split: if_splits)
  from vk(3) obtain sig pk where "vk = JBytes pk"
    "verifySignature L sig (buildSessionBindingMessage px (handshakeHash hs) (opposite r)) pk = Inr True"
    using vk(1) by (auto simp: verify_decoded_def res_simps bytes_pair split: if_splits)
  with vk(2) show "\<exists>sig. ed_verify L sig (buildSessionBindingMessage px (handshakeHash hs) (opposite r)) expected = Some True"
    by (auto simp: verifySignature_def)
  show "s = \<lparr>as_sendKey = sendKey hs, as_receiveKey = receiveKey hs, as_rootKey = rootKey hs, as_handshakeHash = handshakeHash hs,
         localIdentityPublicKey = publicKey idn, peerIdentityPublicKey = expected,
         localX25519PublicKey = lx, peerX25519PublicKey = px, sessionRole = r\<rparr>" by (rule s)
qed

section \<open>Sizes\<close>

text \<open>CBOR adds a few bytes per field: the encoded binding of 32-byte keys and hash and a 64-byte signature is small.\<close>

definition small_bindings :: "lib \<Rightarrow> bool" where
  "small_bindings L \<longleftrightarrow> (\<forall>b. length (identityPublicKey b) = 32 \<and> length (x25519PublicKey b) = 32 \<and> length (bindingHash b) = 32 \<and>
     length (bindingSignature b) = 64 \<longrightarrow> length (encodeBinding L b) < 1024)"

lemma quote_length: "length (json_quote s) \<le> 6 * length s + 2"
proof -
  have c: "length (quote_char c) \<le> 6" for c by (simp add: quote_char_def Let_def split: option.splits)
  have "length (concat (map quote_char s)) \<le> 6 * length s"
  proof (induction s)
    case (Cons x s)
    then show ?case using c [of x] by simp
  qed simp
  then show ?thesis by (simp add: json_quote_def)
qed

definition own_introduction :: "lib \<Rightarrow> nat \<Rightarrow> LocalNodeKeys \<Rightarrow> NodeIntroduction" where
  "own_introduction L i own = \<lparr>introScheme = ''zaycomm'', introVersion = 1, nodeId = deriveNodeId L (publicKey (nodeIdentity own)),
     introPublicKey = bytesToHex (publicKey (nodeIdentity own)), introStaticKey = bytesToHex (xPublicKey (nodeStaticKeyPair own)),
     capabilities = [''ble''], introNonce = bytesToHex (random_bytes L i 16)\<rparr>"

definition honest_node :: "lib \<Rightarrow> LocalNodeKeys \<Rightarrow> bool" where
  "honest_node L own \<longleftrightarrow> honest_identity L (nodeIdentity own) \<and> honest_xkey L (nodeStaticKeyPair own)"

lemma honest_lengths:
  assumes "x25519_commutes L" "honest_xkey L kp"
  shows "length (xPublicKey kp) = 32"
  using assms unfolding x25519_commutes_def honest_xkey_def by metis

lemma honest_public:
  assumes "ed25519_correct L" "honest_identity L idn"
  shows "length (publicKey idn) = 32"
  using honest_sign [OF assms] by metis

lemma own_introduction_ok:
  assumes "x25519_commutes L" "hash_sizes L" "ed25519_correct L" "honest_node L own"
  shows "localIntroduction L i own = finish (own_introduction L i own)"
    and "decodeNodeIntroduction L (encodeNodeIntroduction (own_introduction L i own)) = Inr (own_introduction L i own)"
    and "introducedIdentityPublicKey (own_introduction L i own) = publicKey (nodeIdentity own)"
    and "introducedStaticPublicKey (own_introduction L i own) = xPublicKey (nodeStaticKeyPair own)"
    and "length (encodeNodeIntroduction (own_introduction L i own)) < 4000"
    and "introducesCapability (own_introduction L i own) ''ble''"
proof -
  have len: "length (publicKey (nodeIdentity own)) = 32" "length (xPublicKey (nodeStaticKeyPair own)) = 32"
    using honest_public [OF assms(3)] honest_lengths [OF assms(1)] assms(4) by (auto simp: honest_node_def)
  show "localIntroduction L i own = finish (own_introduction L i own)"
    by (simp add: localIntroduction_def createNodeIntroduction_def len introduction_constants own_introduction_def)
  have "well_formed L (own_introduction L i own)"
    using len hash_sizesD(4) [OF assms(2), of i 16] by (auto simp: well_formed_def own_introduction_def)
  with decode_encoded [OF assms(2)]
  show "decodeNodeIntroduction L (encodeNodeIntroduction (own_introduction L i own)) = Inr (own_introduction L i own)" by blast
  show "introducedIdentityPublicKey (own_introduction L i own) = publicKey (nodeIdentity own)"
    "introducedStaticPublicKey (own_introduction L i own) = xPublicKey (nodeStaticKeyPair own)"
    "introducesCapability (own_introduction L i own) ''ble''"
    by (simp_all add: introducedIdentityPublicKey_def introducedStaticPublicKey_def introducesCapability_def own_introduction_def)
  have v: "num_string (Num 1) = ''1''" by code_simp
  have sizes: "length (deriveNodeId L k) = 16" "length (random_bytes L i 16) = 16" for k
    using assms(2) by (simp_all add: deriveNodeId_even hash_sizesD)
  note q = quote_length [of "''scheme''"] quote_length [of "''zaycomm''"] quote_length [of "''version''"] quote_length [of "''nodeId''"]
    quote_length [of "''publicKey''"] quote_length [of "''staticKey''"] quote_length [of "''capabilities''"] quote_length [of "''nonce''"]
    quote_length [of "''ble''"] quote_length [of "bytesToHex (publicKey (nodeIdentity own))"]
    quote_length [of "bytesToHex (xPublicKey (nodeStaticKeyPair own))"] quote_length [of "bytesToHex (random_bytes L i 16)"]
    quote_length [of "deriveNodeId L (publicKey (nodeIdentity own))"]
  then show "length (encodeNodeIntroduction (own_introduction L i own)) < 4000"
    by (simp add: encodeNodeIntroduction_def own_introduction_def v len sizes)
qed

lemma encryptAndHash_length:
  assumes "aead_correct L" "Handshake.keyed s" "encryptAndHash L p s = Inr (c, s')"
  shows "length c = length p + 16"
proof -
  obtain k where k: "ss_k s = Some k" "length k = 32" using assms(2) by (auto simp: Handshake.keyed_def)
  let ?nonce = "replicate 16 0 @ le_bytes 8 (word_of_int (ss_n s) :: 64 word)"
  have "length ?nonce = 24" by simp
  then obtain c' where "aead_encrypt L k ?nonce (ss_h s) p = Some c'" "length c' = length p + 16"
    using aead_correctE [OF assms(1) k(2)] by blast
  with k assms(3) show ?thesis by (simp add: encryptAndHash_def)
qed

lemma message1_lengths:
  assumes "aead_correct L" "x25519_commutes L" "hash_sizes L" "initiatorWriteMessage1 L i kp rpk payload = Inr (m, st, e)"
  shows "length (m1_ephemeralPublicKey m) = 32" "length (m1_encryptedStaticKey m) = length (xPublicKey kp) + 16"
    "length (m1_encryptedPayload m) = length payload + 16"
  using assms(4) honest_lengths [OF assms(2) honest_generate [OF assms(3), of i]]
  by (auto simp: initiatorWriteMessage1_def Let_def res_simps
      dest!: encryptAndHash_length [OF assms(1) keyed_mixKey [OF assms(3)]])

lemma message2_parts:
  assumes "responderWriteMessage2 L i st ie ik payload = Inr (m, rr, e)"
  obtains ee se s2 where "m2_ephemeralPublicKey m = xPublicKey (generateX25519KeyPair L i)"
    "encryptAndHash L payload (mixKey L se (mixKey L ee (mixHash L (xPublicKey (generateX25519KeyPair L i)) st)))
      = Inr (m2_encryptedPayload m, s2)" "handshakeHash rr = ss_h s2"
proof -
  let ?e = "generateX25519KeyPair L i"
  obtain ee se cs where cs: "encryptAndHash L payload (mixKey L se (mixKey L ee (mixHash L (xPublicKey ?e) st))) = Inr cs"
    "m2_ephemeralPublicKey m = xPublicKey ?e" "m2_encryptedPayload m = fst cs" "handshakeHash rr = ss_h (snd cs)"
    using assms by (auto simp: responderWriteMessage2_def Let_def rbind_Inr_iff case_prod_beta split_keys_def)
  from that [OF cs(2), of se ee "snd cs"] cs show thesis by simp
qed

lemma message2_lengths:
  assumes "aead_correct L" "x25519_commutes L" "hash_sizes L" "responderWriteMessage2 L i st ie ik payload = Inr (m, rr, e)"
  shows "length (m2_ephemeralPublicKey m) = 32" "length (m2_encryptedPayload m) = length payload + 16"
  using message2_parts [OF assms(4)] honest_lengths [OF assms(2) honest_generate [OF assms(3), of i]]
    encryptAndHash_length [OF assms(1) keyed_mixKey [OF assms(3)]] by metis+

text \<open>The transcript hash of a handshake has 32 bytes.\<close>

lemma handshakeHash_length:
  assumes "hash_sizes L" "responderWriteMessage2 L i st ie ik payload = Inr (m, rr, e)"
  shows "length (handshakeHash rr) = 32"
proof -
  have "length (ss_h s') = 32" if "encryptAndHash L p s = Inr (c, s')" for p s c s'
    using that by (auto simp: encryptAndHash_def mixHash_def hash_sizesD [OF assms(1)] res_simps split: option.splits)
  with message2_parts [OF assms(2)] show ?thesis by metis
qed

lemma binding_lengths:
  assumes "ed25519_correct L" "honest_identity L idn" "createLocalSessionBinding L idn xpk hs r = Inr b"
  shows "length (identityPublicKey b) = 32" "x25519PublicKey b = xpk" "bindingHash b = handshakeHash hs" "length (bindingSignature b) = 64"
    "identityPublicKey b = publicKey idn" "verifySessionIdentityBinding L b xpk (handshakeHash hs) r = Inr True"
proof -
  obtain sig where s: "signMessage L (buildSessionBindingMessage xpk (handshakeHash hs) r) (privateKey idn) = Inr sig" "length sig = 64"
    "length (publicKey idn) = 32" "ed_verify L sig (buildSessionBindingMessage xpk (handshakeHash hs) r) (publicKey idn) = Some True"
    using honest_sign [OF assms(1,2)] by metis
  with assms(3) show "length (identityPublicKey b) = 32" "x25519PublicKey b = xpk" "bindingHash b = handshakeHash hs"
    "length (bindingSignature b) = 64" "identityPublicKey b = publicKey idn"
    "verifySessionIdentityBinding L b xpk (handshakeHash hs) r = Inr True"
    by (auto simp: createLocalSessionBinding_def createSessionIdentityBinding_def verifySessionIdentityBinding_True)
qed

lemma local_binding:
  assumes "ed25519_correct L" "honest_identity L idn"
  obtains b where "createLocalSessionBinding L idn xpk hs r = Inr b"
  using createSessionIdentityBinding_ok [OF assms] by (metis createLocalSessionBinding_def)

lemma decode_binding: "cbor_roundtrips L \<Longrightarrow> decodeBinding L (encodeBinding L b) = Inr (binding_value b)"
  by (simp add: decodeBinding_def encodeBinding_def binding_value_def cbor_roundtripsD)

lemma read_binding:
  "introducedIdentityPublicKey n = identityPublicKey b \<Longrightarrow> readBindingIdentity (binding_value b) n = finish (identityPublicKey b)"
  by (simp add: readBindingIdentity_def binding_value_def falsy_def js_prop_def obj_get_def)

section \<open>Complete runs\<close>

text \<open>
  The four frames of an exchange whose initiator shows the introduction \<open>shown\<close> inside the first message
  and sends \<open>claimed\<close> with its binding; an honest initiator uses its own for both.
\<close>

definition frame1 :: "HandshakeMessage1 \<Rightarrow> bytes" where
  "frame1 m = packFields [m1_ephemeralPublicKey m, m1_encryptedStaticKey m, m1_encryptedPayload m]"

definition frame2 :: "HandshakeMessage2 \<Rightarrow> bytes" where
  "frame2 m = packFields [m2_ephemeralPublicKey m, m2_encryptedPayload m]"

definition wire :: "bytes list \<Rightarrow> Wire" where
  "wire frames = \<lparr>inbox = map Inr frames, outbox = [], sendFailures = [], refuses = (\<lambda>_. None)\<rparr>"

definition session_laws :: "lib \<Rightarrow> bool" where
  "session_laws L \<longleftrightarrow> aead_correct L \<and> x25519_commutes L \<and> hash_sizes L \<and> cbor_roundtrips L \<and> ed25519_correct L \<and> small_bindings L"

lemma session_lawsD:
  assumes "session_laws L"
  shows "aead_correct L" "x25519_commutes L" "hash_sizes L" "cbor_roundtrips L" "ed25519_correct L" "small_bindings L"
  using assms by (simp_all add: session_laws_def)

definition shows_introduction :: "lib \<Rightarrow> NodeIntroduction \<Rightarrow> bool" where
  "shows_introduction L n \<longleftrightarrow> decodeNodeIntroduction L (encodeNodeIntroduction n) = Inr n \<and> length (encodeNodeIntroduction n) < 4000"

lemma own_shown:
  assumes "session_laws L" "honest_node L own"
  shows "shows_introduction L (own_introduction L i own)"
  using own_introduction_ok [OF session_lawsD(2,3,5) [OF assms(1)] assms(2)] by (simp add: shows_introduction_def)

lemma encoded_binding_small:
  assumes "session_laws L" "honest_identity L idn" "length xpk = 32" "length (handshakeHash hs) = 32"
    and "createLocalSessionBinding L idn xpk hs r = Inr b"
  shows "length (encodeBinding L b) < 1024"
  using binding_lengths [OF session_lawsD(5) [OF assms(1)] assms(2,5)] session_lawsD(6) [OF assms(1)] assms(3,4)
  by (simp add: small_bindings_def)

lemma m1_eta: "\<lparr>m1_ephemeralPublicKey = m1_ephemeralPublicKey m, m1_encryptedStaticKey = m1_encryptedStaticKey m,
    m1_encryptedPayload = m1_encryptedPayload m\<rparr> = m" by simp

lemma m2_eta: "\<lparr>m2_ephemeralPublicKey = m2_ephemeralPublicKey m, m2_encryptedPayload = m2_encryptedPayload m\<rparr> = m" by simp

text \<open>The responder's run, step by step.\<close>

lemma responder_steps:
  assumes "responderReadMessage1 L (nodeStaticKeyPair own) m1 = Inr (st, ipk, text_encode (encodeNodeIntroduction shown))"
    and "length (m1_ephemeralPublicKey m1) < 65536" "length (m1_encryptedStaticKey m1) < 65536" "length (m1_encryptedPayload m1) < 65536"
    and "decodeNodeIntroduction L (encodeNodeIntroduction shown) = Inr shown" "introducesCapability shown required"
    and "\<forall>e. expected = Some e \<longrightarrow> introPublicKey e = introPublicKey shown"
    and "localIntroduction L i own = finish intro"
    and "responderWriteMessage2 L (Suc i) st (m1_ephemeralPublicKey m1) ipk (text_encode (encodeNodeIntroduction intro)) = Inr (m2, rr, e2)"
    and "createLocalSessionBinding L (nodeIdentity own) (xPublicKey (nodeStaticKeyPair own)) rr Responder = Inr bR"
    and "decodeIdentityMessage L f3 = finish (claimed, encodeBinding L bI)" "decodeBinding L (encodeBinding L bI) = Inr (binding_value bI)"
    and "readBindingIdentity (binding_value bI) claimed = finish pk"
    and "establish_decoded L (nodeIdentity own) (xPublicKey (nodeStaticKeyPair own)) ipk pk (binding_value bI) rr Responder bR = Inr s"
  shows "respondToScannedPeer L i own expected required (wire [frame1 m1, f3])
    = (Done s, \<lparr>inbox = [], outbox = [frame2 m2, encodeIdentityMessage intro (encodeBinding L bR)], sendFailures = [], refuses = (\<lambda>_. None)\<rparr>)"
proof -
  have u: "unpackFields (frame1 m1) 3 = finish [m1_ephemeralPublicKey m1, m1_encryptedStaticKey m1, m1_encryptedPayload m1]"
    unfolding frame1_def using assms(2-4) by (intro unpack_pack) simp_all
  have exp: "\<not> (case expected of None \<Rightarrow> False | Some e \<Rightarrow> introPublicKey e \<noteq> introPublicKey shown)"
    using assms(7) by (cases expected) simp_all
  have use: "assertUsable shown required = finish ()" using assms(6) by (simp add: assertUsable_def)
  show ?thesis
    unfolding respondToScannedPeer_def Let_def wire_def
    by (simp add: receive_run u m1_eta assms(1,5,8-14) use exp wrapped_send_run send_run frame2_def [symmetric] finish_run
        del: packFields_simps)
qed

text \<open>The initiator's run, step by step, on any channel that takes its two frames.\<close>

definition takes :: "Wire \<Rightarrow> bytes list \<Rightarrow> bool" where
  "takes w fs \<longleftrightarrow> sendFailures w = [] \<and> (\<forall>f \<in> set fs. refuses w f = None)"

lemma initiator_steps:
  assumes "introducesCapability target required" "localIntroduction L i own = finish intro"
    and "initiatorWriteMessage1 L (Suc i) (nodeStaticKeyPair own) (introducedStaticPublicKey target) (text_encode (encodeNodeIntroduction intro))
      = Inr (m1, st, e1)"
    and "length (m2_ephemeralPublicKey m2) < 65536" "length (m2_encryptedPayload m2) < 65536"
    and "initiatorReadMessage2 L st (nodeStaticKeyPair own) e1 m2 = Inr ir"
    and "createLocalSessionBinding L (nodeIdentity own) (xPublicKey (nodeStaticKeyPair own)) ir Initiator = Inr bI"
    and "decodeIdentityMessage L f4 = finish (named, encodeBinding L bR)" "introPublicKey named = introPublicKey target"
    and "decodeBinding L (encodeBinding L bR) = Inr (binding_value bR)"
    and "establish_decoded L (nodeIdentity own) (xPublicKey (nodeStaticKeyPair own)) (introducedStaticPublicKey target)
      (introducedIdentityPublicKey target) (binding_value bR) ir Initiator bI = Inr s"
    and "inbox w = [Inr (frame2 m2), Inr f4]" "takes w [frame1 m1, encodeIdentityMessage intro (encodeBinding L bI)]"
  shows "authenticateScannedPeer L i own target required w
    = (Done s, w\<lparr>inbox := [], outbox := outbox w @ [frame1 m1, encodeIdentityMessage intro (encodeBinding L bI)]\<rparr>)"
proof -
  have u: "unpackFields (frame2 m2) 2 = finish [m2_ephemeralPublicKey m2, m2_encryptedPayload m2]"
    unfolding frame2_def using assms(4,5) by (intro unpack_pack) simp_all
  have use: "assertUsable target required = finish ()" using assms(1) by (simp add: assertUsable_def)
  have t: "sendFailures w = []" "refuses w (frame1 m1) = None" "refuses w (encodeIdentityMessage intro (encodeBinding L bI)) = None"
    using assms(13) by (simp_all add: takes_def)
  show ?thesis
    unfolding authenticateScannedPeer_def Let_def
    by (simp add: use assms(2,3,6-12) t wrapped_send_run wrapped_receive_run [where g = "\<lambda>frame. unpackFields frame 2", OF _ u] m2_eta
        send_run receive_run frame1_def [symmetric] finish_run del: packFields_simps)
qed

text \<open>Frames the link layer can cut into its 256 chunks.\<close>

definition link_sized :: "bytes \<Rightarrow> bool" where
  "link_sized f \<longleftrightarrow> f \<noteq> [] \<and> length f \<le> 45056"

lemma link_sized_frames:
  assumes "length (m1_ephemeralPublicKey m1) = 32" "length (m1_encryptedStaticKey m1) = 48" "length (m1_encryptedPayload m1) < 4016"
    and "length (m2_ephemeralPublicKey m2) = 32" "length (m2_encryptedPayload m2) < 4016"
    and "length (encodeNodeIntroduction n) < 4000" "length b < 1024"
  shows "link_sized (frame1 m1)" "link_sized (frame2 m2)" "link_sized (encodeIdentityMessage n b)"
  using assms by (auto simp: link_sized_def frame1_def frame2_def encodeIdentityMessage_def set_uint16_def)

lemma responder_accepts:
  assumes laws: "session_laws L" and own: "honest_node L own" and ikp: "honest_xkey L ikp" and idI: "honest_identity L idI"
    and introductions: "shows_introduction L shown" "shows_introduction L claimed" "introducesCapability shown required"
      "\<forall>e. expected = Some e \<longrightarrow> introPublicKey e = introPublicKey shown" "introducedIdentityPublicKey claimed = publicKey idI"
  obtains m1 st e m2 rr ir bI bR where
    "initiatorWriteMessage1 L j ikp (xPublicKey (nodeStaticKeyPair own)) (text_encode (encodeNodeIntroduction shown)) = Inr (m1, st, e)"
    "initiatorReadMessage2 L st ikp e m2 = Inr ir" "createLocalSessionBinding L idI (xPublicKey ikp) ir Initiator = Inr bI"
    "createLocalSessionBinding L (nodeIdentity own) (xPublicKey (nodeStaticKeyPair own)) rr Responder = Inr bR"
    "length (m2_ephemeralPublicKey m2) = 32" "length (m2_encryptedPayload m2) < 4016"
    "length (encodeBinding L bI) < 1024" "length (encodeBinding L bR) < 1024"
    "length (m1_ephemeralPublicKey m1) = 32" "length (m1_encryptedStaticKey m1) = 48" "length (m1_encryptedPayload m1) < 4016"
    "sendKey ir = receiveKey rr" "receiveKey ir = sendKey rr" "handshakeHash ir = handshakeHash rr" "rootKey ir = rootKey rr"
    "respondToScannedPeer L i own expected required (wire [frame1 m1, encodeIdentityMessage claimed (encodeBinding L bI)]) =
      (Done \<lparr>as_sendKey = sendKey rr, as_receiveKey = receiveKey rr, as_rootKey = rootKey rr, as_handshakeHash = handshakeHash rr,
         localIdentityPublicKey = publicKey (nodeIdentity own), peerIdentityPublicKey = publicKey idI,
         localX25519PublicKey = xPublicKey (nodeStaticKeyPair own), peerX25519PublicKey = xPublicKey ikp, sessionRole = Responder\<rparr>,
       \<lparr>inbox = [], outbox = [frame2 m2, encodeIdentityMessage (own_introduction L i own) (encodeBinding L bR)], sendFailures = [], refuses = (\<lambda>_. None)\<rparr>)"
proof -
  note L = session_lawsD [OF laws]
  have keys: "honest_identity L (nodeIdentity own)" "honest_xkey L (nodeStaticKeyPair own)" using own by (simp_all add: honest_node_def)
  note self = own_introduction_ok [OF L(2,3,5) own, of i]
  obtain m1 st e rst m2 rr kp ir where run:
    "initiatorWriteMessage1 L j ikp (xPublicKey (nodeStaticKeyPair own)) (text_encode (encodeNodeIntroduction shown)) = Inr (m1, st, e)"
    "responderReadMessage1 L (nodeStaticKeyPair own) m1 = Inr (rst, xPublicKey ikp, text_encode (encodeNodeIntroduction shown))"
    "responderWriteMessage2 L (Suc i) rst (m1_ephemeralPublicKey m1) (xPublicKey ikp)
      (text_encode (encodeNodeIntroduction (own_introduction L i own))) = Inr (m2, rr, kp)"
    "initiatorReadMessage2 L st ikp e m2 = Inr ir"
    "sendKey ir = receiveKey rr" "receiveKey ir = sendKey rr" "handshakeHash ir = handshakeHash rr" "rootKey ir = rootKey rr"
    using handshake_run [OF L(1-3) ikp keys(2)] .
  obtain bI where bI: "createLocalSessionBinding L idI (xPublicKey ikp) ir Initiator = Inr bI" using local_binding [OF L(5) idI] .
  obtain bR where bR: "createLocalSessionBinding L (nodeIdentity own) (xPublicKey (nodeStaticKeyPair own)) rr Responder = Inr bR"
    using local_binding [OF L(5) keys(1)] .
  note l1 = message1_lengths [OF L(1-3) run(1)] and l2 = message2_lengths [OF L(1-3) run(3)]
  note x = honest_lengths [OF L(2) ikp] honest_lengths [OF L(2) keys(2)] handshakeHash_length [OF L(3) run(3)]
  note bi = binding_lengths [OF L(5) idI bI] and br = binding_lengths [OF L(5) keys(1) bR]
  have small: "length (encodeBinding L bI) < 1024" "length (encodeBinding L bR) < 1024"
    using encoded_binding_small [OF laws idI x(1) _ bI] encoded_binding_small [OF laws keys(1) x(2) _ bR] x(3) run(7) by simp_all
  have d: "decodeIdentityMessage L (encodeIdentityMessage claimed (encodeBinding L bI)) = finish (claimed, encodeBinding L bI)"
    using introductions(2) small(1) by (intro decode_identity) (simp_all add: shows_introduction_def)
  have read: "readBindingIdentity (binding_value bI) claimed = finish (publicKey idI)"
    using read_binding [of claimed bI] introductions(5) bi(5) by simp
  have est: "establish_decoded L (nodeIdentity own) (xPublicKey (nodeStaticKeyPair own)) (xPublicKey ikp) (publicKey idI)
      (binding_value bI) rr Responder bR = Inr \<lparr>as_sendKey = sendKey rr, as_receiveKey = receiveKey rr, as_rootKey = rootKey rr,
         as_handshakeHash = handshakeHash rr, localIdentityPublicKey = publicKey (nodeIdentity own), peerIdentityPublicKey = publicKey idI,
         localX25519PublicKey = xPublicKey (nodeStaticKeyPair own), peerX25519PublicKey = xPublicKey ikp, sessionRole = Responder\<rparr>"
    using br(5,6) bi(5,6) run(7) by (intro establish_decoded_typed) (simp_all add: opposite_def)
  have s: "decodeNodeIntroduction L (encodeNodeIntroduction shown) = Inr shown" "length (encodeNodeIntroduction shown) < 4000"
    using introductions(1) by (simp_all add: shows_introduction_def)
  show thesis
    by (rule that [OF run(1,4) bI bR _ _ small _ _ _ run(5-8)
          responder_steps [OF run(2) _ _ _ s(1) introductions(3,4) self(1) run(3) bR d decode_binding [OF L(4)] read est]])
      (use l1 l2 x s(2) self(5) in simp_all)
qed

lemma initiator_accepts:
  assumes laws: "session_laws L" and a: "honest_node L a" and b: "honest_node L b"
    and target: "introPublicKey target = introPublicKey (own_introduction L j b)" "introStaticKey target = introStaticKey (own_introduction L j b)"
      "introducesCapability target required"
    and m1: "initiatorWriteMessage1 L (Suc i) (nodeStaticKeyPair a) (xPublicKey (nodeStaticKeyPair b))
      (text_encode (encodeNodeIntroduction (own_introduction L i a))) = Inr (m1, st, e)"
    and ir: "initiatorReadMessage2 L st (nodeStaticKeyPair a) e m2 = Inr ir" "handshakeHash ir = handshakeHash rr"
    and bI: "createLocalSessionBinding L (nodeIdentity a) (xPublicKey (nodeStaticKeyPair a)) ir Initiator = Inr bI"
    and bR: "createLocalSessionBinding L (nodeIdentity b) (xPublicKey (nodeStaticKeyPair b)) rr Responder = Inr bR"
    and small: "length (m2_ephemeralPublicKey m2) = 32" "length (m2_encryptedPayload m2) < 4016" "length (encodeBinding L bR) < 1024"
    and w: "inbox w = [Inr (frame2 m2), Inr (encodeIdentityMessage (own_introduction L j b) (encodeBinding L bR))]"
      "takes w [frame1 m1, encodeIdentityMessage (own_introduction L i a) (encodeBinding L bI)]"
  shows "authenticateScannedPeer L i a target required w =
    (Done \<lparr>as_sendKey = sendKey ir, as_receiveKey = receiveKey ir, as_rootKey = rootKey ir, as_handshakeHash = handshakeHash ir,
       localIdentityPublicKey = publicKey (nodeIdentity a), peerIdentityPublicKey = publicKey (nodeIdentity b),
       localX25519PublicKey = xPublicKey (nodeStaticKeyPair a), peerX25519PublicKey = xPublicKey (nodeStaticKeyPair b), sessionRole = Initiator\<rparr>,
     w\<lparr>inbox := [], outbox := outbox w @ [frame1 m1, encodeIdentityMessage (own_introduction L i a) (encodeBinding L bI)]\<rparr>)"
proof -
  note L = session_lawsD [OF laws]
  have ids: "honest_identity L (nodeIdentity a)" "honest_identity L (nodeIdentity b)" using a b by (simp_all add: honest_node_def)
  note sa = own_introduction_ok [OF L(2,3,5) a, of i] and sb = own_introduction_ok [OF L(2,3,5) b, of j]
  note bi = binding_lengths [OF L(5) ids(1) bI] and br = binding_lengths [OF L(5) ids(2) bR]
  have t: "introducedStaticPublicKey target = xPublicKey (nodeStaticKeyPair b)" "introducedIdentityPublicKey target = publicKey (nodeIdentity b)"
    using sb(3,4) target(1,2) by (simp_all add: introducedStaticPublicKey_def introducedIdentityPublicKey_def)
  have d: "decodeIdentityMessage L (encodeIdentityMessage (own_introduction L j b) (encodeBinding L bR))
      = finish (own_introduction L j b, encodeBinding L bR)"
    using sb(2,5) small(3) by (intro decode_identity) simp_all
  have est: "establish_decoded L (nodeIdentity a) (xPublicKey (nodeStaticKeyPair a)) (introducedStaticPublicKey target)
      (introducedIdentityPublicKey target) (binding_value bR) ir Initiator bI = Inr \<lparr>as_sendKey = sendKey ir, as_receiveKey = receiveKey ir,
         as_rootKey = rootKey ir, as_handshakeHash = handshakeHash ir, localIdentityPublicKey = publicKey (nodeIdentity a),
         peerIdentityPublicKey = publicKey (nodeIdentity b), localX25519PublicKey = xPublicKey (nodeStaticKeyPair a),
         peerX25519PublicKey = xPublicKey (nodeStaticKeyPair b), sessionRole = Initiator\<rparr>"
    unfolding t using bi(5,6) br(5,6) ir(2) by (intro establish_decoded_typed) (simp_all add: opposite_def)
  show ?thesis
    by (rule initiator_steps [OF target(3) sa(1) m1 [folded t(1)] _ _ ir(1) bI d target(1) [symmetric]
        decode_binding [OF L(4)] est w]) (use small in simp_all)
qed

lemma honest_exchange:
  assumes "session_laws L" "honest_node L a" "honest_node L b"
    and "expected = None \<or> expected = Some (own_introduction L k' a)"
  obtains f1 f2 f3 f4 sa sb where
    "\<And>w. inbox w = [Inr f2, Inr f4] \<Longrightarrow> takes w [f1, f3] \<Longrightarrow>
      authenticateScannedPeer L i a (own_introduction L k b) ''ble'' w = (Done sa, w\<lparr>inbox := [], outbox := outbox w @ [f1, f3]\<rparr>)"
    "respondToScannedPeer L j b expected ''ble'' (wire [f1, f3])
      = (Done sb, \<lparr>inbox = [], outbox = [f2, f4], sendFailures = [], refuses = (\<lambda>_. None)\<rparr>)"
    "peerIdentityPublicKey sa = publicKey (nodeIdentity b)" "peerIdentityPublicKey sb = publicKey (nodeIdentity a)"
    "as_sendKey sa = as_receiveKey sb" "as_receiveKey sa = as_sendKey sb" "as_rootKey sa = as_rootKey sb"
    "as_handshakeHash sa = as_handshakeHash sb" "list_all link_sized [f1, f2, f3, f4]"
proof -
  note L = session_lawsD [OF assms(1)]
  have a: "honest_xkey L (nodeStaticKeyPair a)" "honest_identity L (nodeIdentity a)" using assms(2) by (simp_all add: honest_node_def)
  note sa = own_introduction_ok [OF L(2,3,5) assms(2), of i] and sb = own_introduction_ok [OF L(2,3,5) assms(3), of j]
  have shown: "shows_introduction L (own_introduction L i a)" by (rule own_shown [OF assms(1,2)])
  have exp: "\<forall>e. expected = Some e \<longrightarrow> introPublicKey e = introPublicKey (own_introduction L i a)"
    using assms(4) by (auto simp: own_introduction_def)
  have t: "introPublicKey (own_introduction L k b) = introPublicKey (own_introduction L j b)"
    "introStaticKey (own_introduction L k b) = introStaticKey (own_introduction L j b)"
    "introducesCapability (own_introduction L k b) ''ble''"
    by (simp_all add: own_introduction_def introducesCapability_def)
  show thesis
  proof (rule responder_accepts [OF assms(1,3) a shown shown sa(6) exp sa(3), of "Suc i" j], goal_cases)
    case (1 m1 st e m2 rr ir bI bR)
    show thesis
      by (rule that [OF initiator_accepts [OF assms(1-3) t 1(1,2,14,3,4,5,6,8)] 1(16)])
        (use 1 link_sized_frames [OF 1(9-11) 1(5,6) sa(5) 1(7)] link_sized_frames(3) [OF 1(9-11) 1(5,6) sb(5) 1(8)] in simp_all)
  qed
qed

lemma session_with_target:
  assumes "authenticateScannedPeer L i own target required w = (Done s, w')"
  shows "peerIdentityPublicKey s = introducedIdentityPublicKey target \<and> peerX25519PublicKey s = introducedStaticPublicKey target \<and>
    sessionRole s = Initiator \<and> required \<in> set (capabilities target) \<and>
    (\<exists>sig. ed_verify L sig (buildSessionBindingMessage (introducedStaticPublicKey target) (as_handshakeHash s) Responder)
       (introducedIdentityPublicKey target) = Some True)"
proof -
  obtain hs v lb where e: "establish_decoded L (nodeIdentity own) (xPublicKey (nodeStaticKeyPair own)) (introducedStaticPublicKey target)
      (introducedIdentityPublicKey target) v hs Initiator lb = Inr s" "required \<in> set (capabilities target)"
    using assms by (auto simp: authenticateScannedPeer_def run_Done assertUsable_def introducesCapability_def Let_def
        split: if_splits prod.splits)
  from establish_decoded_Inr [OF e(1)] e(2) show ?thesis by (auto simp: opposite_def)
qed

section \<open>Properties\<close>

text \<open>C12: Two honest nodes authenticate. The one that scanned the other's code and the one that showed it, with or
  without having scanned back, reach sessions with each other's identity and with matching keys, over one
  exchange of four frames in which each reads exactly what the other sent.\<close>

theorem introduction_agreement:
  assumes "session_laws L" "honest_node L a" "honest_node L b"
    and "expected = None \<or> expected = Some (own_introduction L k' a)"
  shows "\<exists>f1 f2 f3 f4 sa sb.
    authenticateScannedPeer L i a (own_introduction L k b) ''ble'' (wire [f2, f4])
      = (Done sa, \<lparr>inbox = [], outbox = [f1, f3], sendFailures = [], refuses = (\<lambda>_. None)\<rparr>) \<and>
    respondToScannedPeer L j b expected ''ble'' (wire [f1, f3])
      = (Done sb, \<lparr>inbox = [], outbox = [f2, f4], sendFailures = [], refuses = (\<lambda>_. None)\<rparr>) \<and>
    peerIdentityPublicKey sa = publicKey (nodeIdentity b) \<and> peerIdentityPublicKey sb = publicKey (nodeIdentity a) \<and>
    as_sendKey sa = as_receiveKey sb \<and> as_receiveKey sa = as_sendKey sb \<and> as_rootKey sa = as_rootKey sb \<and>
    as_handshakeHash sa = as_handshakeHash sb"
proof -
  obtain f1 f2 f3 f4 sa sb where "\<And>w. inbox w = [Inr f2, Inr f4] \<Longrightarrow> takes w [f1, f3] \<Longrightarrow>
      authenticateScannedPeer L i a (own_introduction L k b) ''ble'' w = (Done sa, w\<lparr>inbox := [], outbox := outbox w @ [f1, f3]\<rparr>)"
    and r: "respondToScannedPeer L j b expected ''ble'' (wire [f1, f3])
      = (Done sb, \<lparr>inbox = [], outbox = [f2, f4], sendFailures = [], refuses = (\<lambda>_. None)\<rparr>)"
    "peerIdentityPublicKey sa = publicKey (nodeIdentity b)" "peerIdentityPublicKey sb = publicKey (nodeIdentity a)"
    "as_sendKey sa = as_receiveKey sb" "as_receiveKey sa = as_sendKey sb" "as_rootKey sa = as_rootKey sb"
    "as_handshakeHash sa = as_handshakeHash sb"
    using honest_exchange [OF assms] by metis
  from this(1) [of "wire [f2, f4]"] r show ?thesis
    by (intro exI [of _ f1] exI [of _ f2] exI [of _ f3] exI [of _ f4] exI [of _ sa] exI [of _ sb]) (simp add: wire_def takes_def)
qed

lemma ref_small_bindings [simp]: "small_bindings ref_lib"
proof -
  have "length (role_name r) = 9" for r by (cases r) (simp_all add: role_name_def)
  then show ?thesis
    by (simp add: small_bindings_def encodeBinding_def binding_value_def ref_lib_def enc_bytes_def leb.simps)
qed

lemma ref_session_laws [simp]: "session_laws ref_lib"
  by (simp add: session_laws_def)

definition alice_node :: LocalNodeKeys where
  "alice_node = \<lparr>nodeIdentity = alice, nodeStaticKeyPair = initiator_key\<rparr>"

definition bob_node :: LocalNodeKeys where
  "bob_node = \<lparr>nodeIdentity = bob, nodeStaticKeyPair = responder_key\<rparr>"

definition mallory_node :: LocalNodeKeys where
  "mallory_node = \<lparr>nodeIdentity = \<lparr>publicKey = replicate 32 66, privateKey = replicate 32 66\<rparr>,
     nodeStaticKeyPair = \<lparr>xPrivateKey = replicate 32 67, xPublicKey = replicate 32 67\<rparr>\<rparr>"

lemma honest_test_nodes [simp]: "honest_node ref_lib alice_node" "honest_node ref_lib bob_node" "honest_node ref_lib mallory_node"
  by (simp_all add: honest_node_def alice_node_def bob_node_def)
    (simp add: mallory_node_def honest_identity_def honest_xkey_def ref_lib_def)

theorem introduction_agreement_witness:
  "\<exists>f1 f2 f3 f4 sa sb w w'.
    authenticateScannedPeer ref_lib 3 alice_node (own_introduction ref_lib 9 bob_node) ''ble'' (wire [f2, f4]) = (Done sa, w) \<and>
    respondToScannedPeer ref_lib 5 bob_node None ''ble'' (wire [f1, f3]) = (Done sb, w') \<and>
    peerIdentityPublicKey sa = publicKey bob \<and> as_sendKey sa = as_receiveKey sb"
  using introduction_agreement [OF ref_session_laws honest_test_nodes(1,2), of None 0 3 9 5]
  by (simp add: bob_node_def) blast

text \<open>C9: Whoever the scanner authenticates is the peer of the code. Whatever frames arrive, a session comes about
  only when the transport is advertised, the peer names the scanned key, and a signature under the scanned Ed25519
  key covers the scanned X25519 key and this very handshake in the role of the responder.\<close>

theorem scanned_peer_pinned:
  assumes "authenticateScannedPeer L i own target required w = (Done s, w')"
  shows "peerIdentityPublicKey s = introducedIdentityPublicKey target \<and> peerX25519PublicKey s = introducedStaticPublicKey target \<and>
    sessionRole s = Initiator \<and> required \<in> set (capabilities target) \<and>
    (\<exists>sig. ed_verify L sig (buildSessionBindingMessage (introducedStaticPublicKey target) (as_handshakeHash s) Responder)
       (introducedIdentityPublicKey target) = Some True)"
  by (rule session_with_target [OF assms])

theorem scanned_peer_pinned_witness:
  "\<exists>w s w'. authenticateScannedPeer ref_lib 3 alice_node (own_introduction ref_lib 9 bob_node) ''ble'' w = (Done s, w') \<and>
    peerX25519PublicKey s = xPublicKey responder_key"
proof -
  obtain f1 f2 f3 f4 sa where "\<And>w. inbox w = [Inr f2, Inr f4] \<Longrightarrow> takes w [f1, f3] \<Longrightarrow>
      authenticateScannedPeer ref_lib 3 alice_node (own_introduction ref_lib 9 bob_node) ''ble'' w
        = (Done sa, w\<lparr>inbox := [], outbox := outbox w @ [f1, f3]\<rparr>)"
    using honest_exchange [OF ref_session_laws honest_test_nodes(1,2), of None _ 3 9] by metis
  then have run: "authenticateScannedPeer ref_lib 3 alice_node (own_introduction ref_lib 9 bob_node) ''ble'' (wire [f2, f4])
      = (Done sa, (wire [f2, f4])\<lparr>inbox := [], outbox := outbox (wire [f2, f4]) @ [f1, f3]\<rparr>)"
    by (simp add: wire_def takes_def)
  from scanned_peer_pinned [OF run] run show ?thesis
    by (auto simp: own_introduction_def introducedStaticPublicKey_def bob_node_def)
qed

text \<open>C30: A responder's expectation can be bypassed. A node that itself scanned a victim's code and expects the victim
  completes a session with any other node that copies the victim's public introduction into its first message and
  sends its own with its binding: the two introductions are never compared.\<close>

theorem expectation_bypassed:
  assumes "session_laws L" "honest_node L own" "honest_node L mallory"
    and "shows_introduction L victim" "introducesCapability victim ''ble''"
  shows "\<exists>m1 st e f3 s w'. initiatorWriteMessage1 L j (nodeStaticKeyPair mallory) (xPublicKey (nodeStaticKeyPair own))
      (text_encode (encodeNodeIntroduction victim)) = Inr (m1, st, e) \<and>
    respondToScannedPeer L i own (Some victim) ''ble'' (wire [frame1 m1, f3]) = (Done s, w') \<and>
    peerIdentityPublicKey s = publicKey (nodeIdentity mallory)"
proof -
  have m: "honest_xkey L (nodeStaticKeyPair mallory)" "honest_identity L (nodeIdentity mallory)"
    using assms(3) by (simp_all add: honest_node_def)
  note L = session_lawsD [OF assms(1)]
  have claimed: "shows_introduction L (own_introduction L 0 mallory)" by (rule own_shown [OF assms(1,3)])
  have "\<forall>e. Some victim = Some e \<longrightarrow> introPublicKey e = introPublicKey victim" by simp
  from responder_accepts [OF assms(1,2) m assms(4) claimed assms(5) this own_introduction_ok(3) [OF L(2,3,5) assms(3)], of j i]
  show ?thesis by (metis AuthenticatedSession.select_convs(6))
qed

theorem expectation_bypassed_witness:
  "\<exists>w s w'. respondToScannedPeer ref_lib 5 bob_node (Some (own_introduction ref_lib 9 alice_node)) ''ble'' w = (Done s, w') \<and>
    peerIdentityPublicKey s \<noteq> publicKey alice"
proof -
  have victim: "shows_introduction ref_lib (own_introduction ref_lib 9 alice_node)"
    "introducesCapability (own_introduction ref_lib 9 alice_node) ''ble''"
    by (rule own_shown) (simp_all add: introducesCapability_def own_introduction_def)
  from expectation_bypassed [OF ref_session_laws honest_test_nodes(2,3) victim] obtain w s w' where
    "respondToScannedPeer ref_lib 5 bob_node (Some (own_introduction ref_lib 9 alice_node)) ''ble'' w = (Done s, w')"
    "peerIdentityPublicKey s = publicKey (nodeIdentity mallory_node)" by blast
  moreover have "publicKey (nodeIdentity mallory_node) \<noteq> publicKey alice" by (simp add: mallory_node_def alice_def)
  ultimately show ?thesis by metis
qed

end
