(* ===== verification/FrameChannel.thy ===== *)
theory FrameChannel
  imports Collector DataView
begin

text \<open>
  \<open>mobile/src/frameChannel.ts\<close>: messages cut into chunks with an index and a count, and put together
  again per sender. A \<open>receive\<close> that finds no message waits; \<open>handed\<close> records the messages given to
  waiting calls, so \<open>arrived\<close>, what was handed out while waiting and what is still queued, is the order in
  which messages came in.
\<close>

section \<open>Chunks\<close>

definition DEFAULT_FRAME_MTU :: int where
  "DEFAULT_FRAME_MTU = 180"

definition HEADER_LENGTH :: nat where
  "HEADER_LENGTH = 4"

definition MAX_CHUNKS :: nat where
  "MAX_CHUNKS = 256"

lemmas frame_constants = DEFAULT_FRAME_MTU_def HEADER_LENGTH_def MAX_CHUNKS_def

definition frame_chunk_size :: "int \<Rightarrow> nat" where
  "frame_chunk_size mtu = nat (max 1 (mtu - int HEADER_LENGTH))"

text \<open>One chunk: index and count are written into its header, the slice behind it.\<close>

definition make_chunk :: "nat \<Rightarrow> nat \<Rightarrow> bytes \<Rightarrow> bytes" where
  "make_chunk index count part = set_uint16 index @ set_uint16 count @ part"

definition chunkFrame :: "bytes \<Rightarrow> int \<Rightarrow> bytes list res" where
  "chunkFrame frame mtu =
     (if frame = [] then Inl (Err ''Refusing to send an empty frame'')
      else let chunkSize = frame_chunk_size mtu; count = ceil_div (length frame) chunkSize
      in if MAX_CHUNKS < count then Inl (Err (''Frame requires too many chunks: '' @ nat_string count))
         else Inr (map (\<lambda>index. make_chunk index count (slice (index * chunkSize) ((index + 1) * chunkSize) frame)) [0..<count]))"

section \<open>The channel\<close>

record PendingFrame =
  frameCount :: nat
  frameParts :: "bytes option list"

record FrameChannel =
  channelPeer :: string
  channelMtu :: int
  pendingFrames :: "(string, PendingFrame) jsmap"
  completeFrames :: "bytes list"
  waiters :: nat
  handed :: "bytes list"

definition new_channel :: "string \<Rightarrow> FrameChannel" where
  "new_channel peerId = \<lparr>channelPeer = peerId, channelMtu = DEFAULT_FRAME_MTU, pendingFrames = [], completeFrames = [],
     waiters = 0, handed = []\<rparr>"

text \<open>\<open>send\<close>: chunk after chunk to the channel's peer, until the transport throws; \<open>snd_chunk\<close> is the transport's \<open>send\<close>.\<close>

fun send_each :: "(bytes \<Rightarrow> 't \<Rightarrow> unit res \<times> 't) \<Rightarrow> bytes list \<Rightarrow> 't \<Rightarrow> unit res \<times> 't" where
  "send_each snd_chunk [] T = (Inr (), T)"
| "send_each snd_chunk (c # cs) T = (case snd_chunk c T of (Inl e, T') \<Rightarrow> (Inl e, T') | (Inr _, T') \<Rightarrow> send_each snd_chunk cs T')"

definition channel_send :: "(string \<Rightarrow> bytes \<Rightarrow> 't \<Rightarrow> unit res \<times> 't) \<Rightarrow> bytes \<Rightarrow> FrameChannel \<Rightarrow> 't \<Rightarrow> unit res \<times> 't" where
  "channel_send snd_to frame C T = (case chunkFrame frame (channelMtu C) of
     Inl e \<Rightarrow> (Inl e, T) | Inr chunks \<Rightarrow> send_each (snd_to (channelPeer C)) chunks T)"

definition channel_receive :: "FrameChannel \<Rightarrow> bytes option \<times> FrameChannel" where
  "channel_receive C = (case completeFrames C of
      ready # rest \<Rightarrow> (Some ready, C\<lparr>completeFrames := rest\<rparr>)
    | [] \<Rightarrow> (None, C\<lparr>waiters := waiters C + 1\<rparr>))"

text \<open>A complete message goes to the longest waiting call, or into the queue.\<close>

definition deliver_frame :: "bytes \<Rightarrow> FrameChannel \<Rightarrow> FrameChannel" where
  "deliver_frame message C =
     (if 0 < waiters C then C\<lparr>waiters := waiters C - 1, handed := handed C @ [message]\<rparr>
      else C\<lparr>completeFrames := completeFrames C @ [message]\<rparr>)"

text \<open>\<open>peerId\<close> is the sender of the chunk; the channel does not compare it with its own peer.\<close>

definition accept_chunk :: "string \<Rightarrow> bytes \<Rightarrow> FrameChannel \<Rightarrow> FrameChannel" where
  "accept_chunk peerId chunk C =
     (if length chunk < HEADER_LENGTH then C
      else let index = get_uint16 0 chunk; count = get_uint16 2 chunk
      in if count = 0 \<or> MAX_CHUNKS < count \<or> count \<le> index then C
         else let fresh = \<lparr>frameCount = count, frameParts = replicate count None\<rparr>;
                  entry = (case mget (pendingFrames C) peerId of
                      None \<Rightarrow> fresh | Some e \<Rightarrow> if frameCount e \<noteq> count then fresh else e);
                  entry1 = entry\<lparr>frameParts := (frameParts entry)[index := Some (drop HEADER_LENGTH chunk)]\<rparr>
         in case those (frameParts entry1) of
              None \<Rightarrow> C\<lparr>pendingFrames := mset_at peerId entry1 (pendingFrames C)\<rparr>
            | Some parts \<Rightarrow> deliver_frame (concatBytes parts) (C\<lparr>pendingFrames := mdel peerId (pendingFrames C)\<rparr>))"

definition reset_channel :: "FrameChannel \<Rightarrow> FrameChannel" where
  "reset_channel C = C\<lparr>pendingFrames := []\<rparr>"

section \<open>Reassembly\<close>

definition arrived :: "FrameChannel \<Rightarrow> bytes list" where
  "arrived C = handed C @ completeFrames C"

text \<open>A channel in use: calls wait only while no message is queued.\<close>

definition fair :: "FrameChannel \<Rightarrow> bool" where
  "fair C \<longleftrightarrow> 0 < waiters C \<longrightarrow> completeFrames C = []"

lemma deliver_arrived: "fair C \<Longrightarrow> arrived (deliver_frame m C) = arrived C @ [m]"
  by (auto simp: deliver_frame_def arrived_def fair_def)

lemma fair_steps:
  "fair (new_channel p)" "fair C \<Longrightarrow> fair (accept_chunk p ch C)" "fair C \<Longrightarrow> fair (snd (channel_receive C))"
  "fair C \<Longrightarrow> fair (reset_channel C)"
  by (auto simp: fair_def new_channel_def accept_chunk_def deliver_frame_def channel_receive_def reset_channel_def Let_def
      split: option.splits list.splits)

lemma get_uint16_chunk [simp]:
  "get_uint16 0 (make_chunk i n part) = i mod 65536" "get_uint16 2 (make_chunk i n part) = n mod 65536"
  "drop 4 (make_chunk i n part) = part" "length (make_chunk i n part) = 4 + length part"
  by (simp_all add: make_chunk_def)

text \<open>The parts of one message as one sender's entry holds them.\<close>

definition masked :: "bytes list \<Rightarrow> nat set \<Rightarrow> bytes option list" where
  "masked parts A = map (\<lambda>i. if i \<in> A then Some (parts ! i) else None) [0..<length parts]"

lemma length_masked [simp]: "length (masked parts A) = length parts"
  by (simp add: masked_def)

lemma masked_empty: "masked parts {} = replicate (length parts) None"
  by (simp add: masked_def map_replicate_const)

lemma masked_update: "i < length parts \<Longrightarrow> (masked parts A)[i := Some (parts ! i)] = masked parts (insert i A)"
  by (rule nth_equalityI) (auto simp: masked_def nth_list_update)

lemma those_masked: "A \<subseteq> {..<length parts} \<Longrightarrow> those (masked parts A) = (if A = {..<length parts} then Some parts else None)"
proof -
  assume A: "A \<subseteq> {..<length parts}"
  have all: "masked parts {..<length parts} = map Some parts" by (rule nth_equalityI) (simp_all add: masked_def)
  show ?thesis
  proof (cases "A = {..<length parts}")
    case True
    then show ?thesis by (simp add: all those_Some_iff)
  next
    case False
    with A obtain i where "i < length parts" "i \<notin> A" by auto
    then have "None \<in> set (masked parts A)" by (force simp: masked_def)
    then have "those (masked parts A) \<noteq> Some ys" for ys by (auto simp: those_Some_iff)
    then have "those (masked parts A) = None" by (meson not_None_eq)
    with False show ?thesis by simp
  qed
qed

text \<open>\<open>C\<close> after the parts numbered in \<open>A\<close> from sender \<open>p\<close>, everything else as in \<open>C0\<close>.\<close>

fun frame_holds :: "FrameChannel \<times> string \<times> bytes list \<Rightarrow> nat set \<Rightarrow> FrameChannel \<Rightarrow> bool" where
  "frame_holds (C0, p, parts) A C \<longleftrightarrow> parts \<noteq> [] \<and> length parts \<le> 256 \<and> fair C0 \<and> mget (pendingFrames C0) p = None \<and>
     (\<exists>m. C = C0\<lparr>pendingFrames := m\<rparr> \<and> (\<forall>q. q \<noteq> p \<longrightarrow> mget m q = mget (pendingFrames C0) q) \<and>
        mget m p = (if A = {} then None else Some \<lparr>frameCount = length parts, frameParts = masked parts A\<rparr>))"

fun frame_done :: "FrameChannel \<times> string \<times> bytes list \<Rightarrow> FrameChannel \<Rightarrow> bool" where
  "frame_done (C0, p, parts) C \<longleftrightarrow> arrived C = arrived C0 @ [concat parts] \<and>
     (\<forall>q. mget (pendingFrames C) q = mget (pendingFrames C0) q)"

definition feed_chunk :: "string \<Rightarrow> bytes list \<Rightarrow> nat \<Rightarrow> FrameChannel \<Rightarrow> bytes option \<times> FrameChannel" where
  "feed_chunk p parts i C =
     (let C1 = accept_chunk p (make_chunk i (length parts) (parts ! i)) C
      in (if length (arrived C) < length (arrived C1) then Some (last (arrived C1)) else None, C1))"

lemma accept_part:
  assumes "frame_holds (C0, p, parts) A C" "i < length parts" "A \<subseteq> {..<length parts}" "A \<noteq> {..<length parts}"
  shows "accept_chunk p (make_chunk i (length parts) (parts ! i)) C =
    (if insert i A = {..<length parts} then deliver_frame (concat parts) (C\<lparr>pendingFrames := mdel p (pendingFrames C)\<rparr>)
     else C\<lparr>pendingFrames := mset_at p \<lparr>frameCount = length parts, frameParts = masked parts (insert i A)\<rparr> (pendingFrames C)\<rparr>)"
proof -
  have n: "length parts < 65536" "i < 65536" "0 < length parts" "length parts \<le> 256" using assms(1,2) by auto
  define entry where "entry = (case mget (pendingFrames C) p of
      None \<Rightarrow> \<lparr>frameCount = length parts, frameParts = replicate (length parts) None\<rparr>
    | Some e \<Rightarrow> if frameCount e \<noteq> length parts then \<lparr>frameCount = length parts, frameParts = replicate (length parts) None\<rparr> else e)"
  have "entry = \<lparr>frameCount = length parts, frameParts = masked parts A\<rparr>"
    using assms(1) by (auto simp: entry_def masked_empty)
  moreover have "those (masked parts (insert i A)) = (if insert i A = {..<length parts} then Some parts else None)"
    using assms(2,3) by (intro those_masked) auto
  ultimately show ?thesis
    using n assms(2) by (simp add: accept_chunk_def frame_constants entry_def [symmetric] Let_def masked_update)
qed

interpretation frame_channel: collector "\<lambda>(C0, p, parts). feed_chunk p parts" "\<lambda>(C0, p, parts). length parts"
  "\<lambda>(C0, p, parts). concat parts" frame_holds frame_done
proof (unfold_locales, goal_cases)
  case (1 c A C i)
  obtain C0 p parts where c: "c = (C0, p, parts)" by (cases c) auto
  have "A \<noteq> {..<length parts}" using 1 c by auto
  with 1 c accept_part [of C0 p parts A C i] show ?case
    by (auto simp: feed_chunk_def Let_def arrived_def)
next
  case (2 c A C i)
  obtain C0 p parts where c: "c = (C0, p, parts)" by (cases c) auto
  let ?C1 = "deliver_frame (concat parts) (C\<lparr>pendingFrames := mdel p (pendingFrames C)\<rparr>)"
  have eq: "accept_chunk p (make_chunk i (length parts) (parts ! i)) C = ?C1"
    using 2 c accept_part [of C0 p parts A C i] by auto
  have "fair (C\<lparr>pendingFrames := mdel p (pendingFrames C)\<rparr>)" using 2(1) c by (auto simp: fair_def)
  then have new: "arrived ?C1 = arrived C @ [concat parts]" by (simp add: deliver_arrived) (simp add: arrived_def)
  moreover have "arrived C = arrived C0" using 2(1) c by (auto simp: arrived_def)
  moreover have "pendingFrames ?C1 = mdel p (pendingFrames C)" by (simp add: deliver_frame_def)
  ultimately have "frame_done (C0, p, parts) ?C1" using 2(1) c by auto
  moreover have "feed_chunk p parts i C = (Some (concat parts), ?C1)" by (simp add: feed_chunk_def eq new)
  ultimately show ?case using c by simp
qed

lemma feed_chunks_fold:
  "snd (feed_parts (feed_chunk p parts) is C) = fold (\<lambda>i. accept_chunk p (make_chunk i (length parts) (parts ! i))) is C"
  by (induction "is" arbitrary: C) (simp_all add: feed_chunk_def Let_def case_prod_beta)

lemma chunkFrame_parts:
  assumes "chunkFrame frame mtu = Inr chunks"
  shows "\<exists>parts. chunks = map (\<lambda>i. make_chunk i (length parts) (parts ! i)) [0..<length parts] \<and> concat parts = frame \<and>
    parts \<noteq> [] \<and> length parts \<le> 256 \<and> (\<forall>x \<in> set parts. length x \<le> frame_chunk_size mtu)"
proof -
  let ?c = "frame_chunk_size mtu" let ?n = "ceil_div (length frame) ?c"
  have c: "0 < ?c" by (simp add: frame_chunk_size_def)
  have f: "frame \<noteq> []" "?n \<le> 256"
    "chunks = map (\<lambda>i. make_chunk i ?n (slice (i * ?c) ((i + 1) * ?c) frame)) [0..<?n]"
    using assms by (auto simp: chunkFrame_def Let_def MAX_CHUNKS_def split: if_splits)
  have "concat (slices ?c ?n frame) = frame" using ceil_div_bounds(1) [OF c] by (intro concat_slices)
  moreover have "chunks = map (\<lambda>i. make_chunk i (length (slices ?c ?n frame)) (slices ?c ?n frame ! i)) [0..<length (slices ?c ?n frame)]"
    unfolding f(3) by (simp add: slices_def)
  ultimately show ?thesis
    using f(1,2) by (intro exI [of _ "slices ?c ?n frame"]) (auto dest: slices_length_le)
qed

lemma fold_chunks:
  "set is \<subseteq> {..<length parts} \<Longrightarrow>
    fold (accept_chunk p) (map ((!) (map (\<lambda>i. make_chunk i (length parts) (parts ! i)) [0..<length parts])) is) C
    = fold (\<lambda>i. accept_chunk p (make_chunk i (length parts) (parts ! i))) is C"
  by (induction "is" arbitrary: C) auto

lemma chunks_arrive:
  assumes "chunkFrame frame mtu = Inr chunks" "fair C" "mget (pendingFrames C) sender = None"
    and "set (js @ [i]) = {..<length chunks}" "i \<notin> set js"
    and "C' = fold (accept_chunk sender) (map ((!) chunks) (js @ [i])) C"
  shows "arrived C' = arrived C @ [frame] \<and> (\<forall>q. mget (pendingFrames C') q = mget (pendingFrames C) q)"
proof -
  from chunkFrame_parts [OF assms(1)] obtain parts where parts:
    "chunks = map (\<lambda>i. make_chunk i (length parts) (parts ! i)) [0..<length parts]" "concat parts = frame" "parts \<noteq> []"
    "length parts \<le> 256" by blast
  have n: "length chunks = length parts" by (simp add: parts(1))
  have "frame_holds (C, sender, parts) {} C" using parts(3,4) assms(2,3) by (auto intro: exI [of _ "pendingFrames C"])
  moreover have "set js \<subset> {..<length parts}" using assms(4,5) n by auto
  ultimately obtain C2 where "feed_parts (feed_chunk sender parts) (js @ [i]) C = (replicate (length js) None @ [Some frame], C2)"
    "frame_done (C, sender, parts) C2"
    using frame_channel.collect_all [of "(C, sender, parts)" C js i] assms(4) n parts(2) by auto
  moreover have "C' = snd (feed_parts (feed_chunk sender parts) (js @ [i]) C)"
    unfolding feed_chunks_fold assms(6) parts(1) using assms(4) n by (intro fold_chunks) simp
  ultimately show ?thesis using parts(2) by simp
qed

lemma chunks_nonempty: "chunkFrame f mtu = Inr c \<Longrightarrow> 0 < length c"
  using chunkFrame_parts by fastforce

text \<open>Chunks in an order whose last one completes the set.\<close>

definition completing :: "nat \<Rightarrow> nat list \<Rightarrow> bool" where
  "completing n is \<longleftrightarrow> (\<exists>js i. is = js @ [i] \<and> set is = {..<n} \<and> i \<notin> set js)"

lemma completing_upt [simp]: "0 < n \<Longrightarrow> completing n [0..<n]"
  unfolding completing_def by (rule exI [of _ "[0..<n - 1]"]) (cases n; auto)

lemma message_arrives:
  assumes "chunkFrame frame mtu = Inr chunks" "fair C" "mget (pendingFrames C) p = None" "completing (length chunks) is"
  shows "arrived (fold (\<lambda>(s, c). accept_chunk s c) (map (Pair p) (map ((!) chunks) is)) C) = arrived C @ [frame]"
    and "mget (pendingFrames (fold (\<lambda>(s, c). accept_chunk s c) (map (Pair p) (map ((!) chunks) is)) C)) q = mget (pendingFrames C) q"
proof -
  obtain js i where "is = js @ [i]" "set (js @ [i]) = {..<length chunks}" "i \<notin> set js"
    using assms(4) by (auto simp: completing_def)
  note arrive = chunks_arrive [OF assms(1-3) this(2,3) refl]
  have single: "fold (\<lambda>(s, c). accept_chunk s c) (map (Pair p) cs) C = fold (accept_chunk p) cs C" for cs
    by (induction cs arbitrary: C) simp_all
  show "arrived (fold (\<lambda>(s, c). accept_chunk s c) (map (Pair p) (map ((!) chunks) is)) C) = arrived C @ [frame]"
    "mget (pendingFrames (fold (\<lambda>(s, c). accept_chunk s c) (map (Pair p) (map ((!) chunks) is)) C)) q = mget (pendingFrames C) q"
    unfolding single using arrive \<open>is = js @ [i]\<close> by simp_all
qed

lemma fair_fold: "fair C \<Longrightarrow> fair (fold (\<lambda>(s, c). accept_chunk s c) xs C)"
  by (induction xs arbitrary: C) (auto simp: fair_steps)

section \<open>Properties\<close>

text \<open>A message survives the small transport unit. The chunks of a frame, delivered in any order and with any
  repetitions up to the one that completes the set, make exactly this frame arrive, once, and leave no partial
  state. The sender need not be the channel's peer.\<close>

theorem frames_any_order:
  assumes "chunkFrame frame mtu = Inr chunks" "fair C" "mget (pendingFrames C) sender = None"
    and "set (js @ [i]) = {..<length chunks}" "i \<notin> set js"
    and "C' = fold (accept_chunk sender) (map ((!) chunks) (js @ [i])) C"
  shows "arrived C' = arrived C @ [frame] \<and> (\<forall>q. mget (pendingFrames C') q = mget (pendingFrames C) q)"
  by (rule chunks_arrive [OF assms])

theorem frames_any_order_witness:
  "arrived (fold (accept_chunk ''mallory'') (map ((!) [make_chunk 0 2 [1, 2], make_chunk 1 2 [3]]) ([1] @ [0])) (new_channel ''bob''))
    = [[1, 2, 3]]"
proof -
  have c: "chunkFrame [1, 2, 3] 6 = Inr [make_chunk 0 2 [1, 2], make_chunk 1 2 [3]]"
    by (simp add: chunkFrame_def frame_chunk_size_def frame_constants ceil_div_def slice_def upt_rec)
  have "set ([1 :: nat] @ [0]) = {..<length [make_chunk 0 2 [1, 2], make_chunk 1 2 [3]]}" by auto
  from frames_any_order [OF c fair_steps(1) _ this _ refl, of "''bob''" "''mallory''"] show ?thesis
    by (simp add: new_channel_def arrived_def)
qed

end
