(* ===== verification/Ble.thy ===== *)
theory Ble
  imports FrameChannel Automaton
begin

text \<open>
  The Bluetooth adapters of the mobile application: \<open>mobile/src/transport.ts\<close>, \<open>androidBleTransport.ts\<close>,
  \<open>iosBleTransport.ts\<close> and the bridges to the native modules \<open>nativeBle.ts\<close> and \<open>nativeIosBle.ts\<close>. The native
  module is a parameter: what its promises do is an argument of each operation, what it reports is an event,
  and the calls made to it are recorded in order. Callbacks are recorded when one is installed.
\<close>

section \<open>\<open>mobile/src/transport.ts\<close>\<close>

record MobilePeer =
  mobilePeerId :: string
  address :: string
  mobilePublicKey :: "string option"

record MobileLinkCharacteristics =
  mobileUnit :: int
  mobileReliability :: jsnum

section \<open>The native module and its bridge\<close>

text \<open>Frames cross the bridge as arrays of numbers; what comes back is taken modulo 256.\<close>

datatype NativeEvent =
    ZaycommBleAdvertisement MobilePeer
  | ZaycommBleFrame string "int list"
  | ZaycommBleConnectionChanged string bool

datatype NativeCall = StartScan | StopScan | NativeConnect string | NativeDisconnect string | NativeWrite string "int list"

datatype BridgeEvent = OnAdvertisement MobilePeer | OnFrame string bytes | OnConnectionChanged string bool

definition bridge_event :: "NativeEvent \<Rightarrow> BridgeEvent" where
  "bridge_event e = (case e of
     ZaycommBleAdvertisement p \<Rightarrow> OnAdvertisement p
   | ZaycommBleFrame a ns \<Rightarrow> OnFrame a (map word_of_int ns)
   | ZaycommBleConnectionChanged a c \<Rightarrow> OnConnectionChanged a c)"

definition bridge_write :: "string \<Rightarrow> bytes \<Rightarrow> NativeCall" where
  "bridge_write a frame = NativeWrite a (map uint frame)"

text \<open>Both factories throw when the application was built without the native module.\<close>

definition create_bridge :: "bool \<Rightarrow> unit res" where
  "create_bridge available = (if available then Inr () else Inl (Err ''ZaycommBle native module is unavailable''))"

section \<open>The adapters' state\<close>

record BleTransport =
  blePeers :: "(string, MobilePeer) jsmap"
  bleConnected :: "string set"
  hasReceiver :: bool
  receivedFrames :: "(string \<times> bytes) list"
  hasPeerListener :: bool
  peerChanges :: "(MobilePeer \<times> bool) list"
  nativeCalls :: "NativeCall list"

definition new_ble :: BleTransport where
  "new_ble = \<lparr>blePeers = [], bleConnected = {}, hasReceiver = False, receivedFrames = [], hasPeerListener = False,
     peerChanges = [], nativeCalls = []\<rparr>"

definition call_native :: "NativeCall \<Rightarrow> BleTransport \<Rightarrow> BleTransport" where
  "call_native c T = T\<lparr>nativeCalls := nativeCalls T @ [c]\<rparr>"

definition call_receiver :: "string \<Rightarrow> bytes \<Rightarrow> BleTransport \<Rightarrow> BleTransport" where
  "call_receiver pid frame T = (if hasReceiver T then T\<lparr>receivedFrames := receivedFrames T @ [(pid, frame)]\<rparr> else T)"

definition change_link :: "string \<Rightarrow> MobilePeer \<Rightarrow> bool \<Rightarrow> BleTransport \<Rightarrow> BleTransport" where
  "change_link pid peer up T =
     (let T1 = T\<lparr>bleConnected := if up then insert pid (bleConnected T) else bleConnected T - {pid}\<rparr>
      in if hasPeerListener T1 then T1\<lparr>peerChanges := peerChanges T1 @ [(peer, up)]\<rparr> else T1)"

definition ble_start :: "BleTransport \<Rightarrow> BleTransport" where
  "ble_start T = call_native StartScan T"

definition ble_stop :: "BleTransport \<Rightarrow> BleTransport" where
  "ble_stop T = call_native StopScan T"

definition ble_discover :: "BleTransport \<Rightarrow> MobilePeer list" where
  "ble_discover T = map snd (blePeers T)"

definition ble_on_receive :: "BleTransport \<Rightarrow> BleTransport" where
  "ble_on_receive T = T\<lparr>hasReceiver := True\<rparr>"

definition ble_on_peer_changed :: "BleTransport \<Rightarrow> BleTransport" where
  "ble_on_peer_changed T = T\<lparr>hasPeerListener := True\<rparr>"

text \<open>The common part of the two \<open>send\<close>s: the peer must be connected and the frame fit the link's unit.\<close>

definition checked_write :: "string \<Rightarrow> string \<Rightarrow> int \<Rightarrow> bytes \<Rightarrow> unit res \<Rightarrow> BleTransport \<Rightarrow> unit res \<times> BleTransport" where
  "checked_write pid target unit_size frame r T =
     (if pid \<notin> bleConnected T then (Inl (Err (''BLE peer is not connected: '' @ pid)), T)
      else if unit_size < int (length frame)
      then (Inl (Err (''BLE frame exceeds transport MTU: '' @ nat_string (length frame) @ '' > '' @ nat_string (nat unit_size))), T)
      else (r, call_native (bridge_write target frame) T))"

section \<open>\<open>AndroidBleTransport\<close>: peers are found by their address\<close>

definition peer_at :: "string \<Rightarrow> BleTransport \<Rightarrow> MobilePeer option" where
  "peer_at a T = find (\<lambda>p. address p = a) (map snd (blePeers T))"

definition android_event :: "BridgeEvent \<Rightarrow> BleTransport \<Rightarrow> BleTransport" where
  "android_event e T = (case e of
     OnAdvertisement p \<Rightarrow> T\<lparr>blePeers := mset_at (mobilePeerId p) p (blePeers T)\<rparr>
   | OnFrame a frame \<Rightarrow> (case peer_at a T of None \<Rightarrow> T | Some p \<Rightarrow> call_receiver (mobilePeerId p) frame T)
   | OnConnectionChanged a up \<Rightarrow> (case peer_at a T of None \<Rightarrow> T | Some p \<Rightarrow> change_link (mobilePeerId p) p up T))"

definition android_connect :: "MobilePeer \<Rightarrow> unit res \<Rightarrow> BleTransport \<Rightarrow> unit res \<times> BleTransport" where
  "android_connect p r T = (r, call_native (NativeConnect (address p)) T)"

definition android_disconnect :: "string \<Rightarrow> unit res \<Rightarrow> BleTransport \<Rightarrow> unit res \<times> BleTransport" where
  "android_disconnect pid r T = (case mget (blePeers T) pid of
     None \<Rightarrow> (Inr (), T) | Some p \<Rightarrow> (r, call_native (NativeDisconnect (address p)) T))"

definition android_link :: "string \<Rightarrow> BleTransport \<Rightarrow> MobileLinkCharacteristics option" where
  "android_link pid T = (if mhas (blePeers T) pid then Some \<lparr>mobileUnit = 200, mobileReliability = Frac 0\<rparr> else None)"

definition android_send :: "string \<Rightarrow> bytes \<Rightarrow> unit res \<Rightarrow> BleTransport \<Rightarrow> unit res \<times> BleTransport" where
  "android_send pid frame r T = (case mget (blePeers T) pid of
     None \<Rightarrow> (Inl (Err (''BLE peer is not connected: '' @ pid)), T)
   | Some p \<Rightarrow> checked_write pid (address p)
       (case android_link pid T of None \<Rightarrow> 200 | Some c \<Rightarrow> mobileUnit c) frame r T)"

section \<open>\<open>IosBleTransport\<close>: peers are named by the system's identifier\<close>

definition ios_event :: "BridgeEvent \<Rightarrow> BleTransport \<Rightarrow> BleTransport" where
  "ios_event e T = (case e of
     OnAdvertisement p \<Rightarrow> T\<lparr>blePeers := mset_at (mobilePeerId p) p (blePeers T)\<rparr>
   | OnFrame pid frame \<Rightarrow> call_receiver pid frame T
   | OnConnectionChanged pid up \<Rightarrow> (case mget (blePeers T) pid of None \<Rightarrow> T | Some p \<Rightarrow> change_link pid p up T))"

definition ios_connect :: "MobilePeer \<Rightarrow> unit res \<Rightarrow> BleTransport \<Rightarrow> unit res \<times> BleTransport" where
  "ios_connect p r T = (r, call_native (NativeConnect (mobilePeerId p)) T)"

definition ios_disconnect :: "string \<Rightarrow> unit res \<Rightarrow> BleTransport \<Rightarrow> unit res \<times> BleTransport" where
  "ios_disconnect pid r T =
     (if \<not> mhas (blePeers T) pid then (Inr (), T)
      else let T1 = call_native (NativeDisconnect pid) T
           in (r, if r = Inr () then T1\<lparr>bleConnected := bleConnected T1 - {pid}\<rparr> else T1))"

text \<open>\<open>cap\<close> is \<open>getMaximumWriteLength\<close>, which a bridge may lack.\<close>

definition ios_link :: "(string \<Rightarrow> int) option \<Rightarrow> string \<Rightarrow> BleTransport \<Rightarrow> MobileLinkCharacteristics option" where
  "ios_link cap pid T =
     (if mhas (blePeers T) pid
      then let nativeCapacity = (case cap of None \<Rightarrow> 200 | Some f \<Rightarrow> f pid)
           in Some \<lparr>mobileUnit = min 200 (max 0 nativeCapacity), mobileReliability = Frac 0\<rparr>
      else None)"

definition ios_send :: "(string \<Rightarrow> int) option \<Rightarrow> string \<Rightarrow> bytes \<Rightarrow> unit res \<Rightarrow> BleTransport \<Rightarrow> unit res \<times> BleTransport" where
  "ios_send cap pid frame r T = (case mget (blePeers T) pid of
     None \<Rightarrow> (Inl (Err (''BLE peer is not connected: '' @ pid)), T)
   | Some p \<Rightarrow> checked_write pid pid (case ios_link cap pid T of None \<Rightarrow> 200 | Some c \<Rightarrow> mobileUnit c) frame r T)"

section \<open>One peer's link\<close>

text \<open>
  What an adapter knows of one peer: nothing, that it was advertised, or that its link is up. Native events
  name a peer by its address, \<open>addr\<close> of its id; an adapter is consistent when all it stored agrees.
\<close>

datatype link_standing = Unseen | Seen | Linked

definition ble_standing :: "BleTransport \<Rightarrow> string \<Rightarrow> link_standing" where
  "ble_standing T i = (if \<not> mhas (blePeers T) i then Unseen else if i \<in> bleConnected T then Linked else Seen)"

fun link_rule :: "(string \<Rightarrow> string) \<Rightarrow> string \<Rightarrow> BridgeEvent \<Rightarrow> link_standing \<Rightarrow> link_standing" where
  "link_rule addr i (OnAdvertisement p) s = (if mobilePeerId p = i \<and> s = Unseen then Seen else s)"
| "link_rule addr i (OnFrame a frame) s = s"
| "link_rule addr i (OnConnectionChanged a up) s = (if a = addr i \<and> s \<noteq> Unseen then if up then Linked else Seen else s)"

fun advertises :: "(string \<Rightarrow> string) \<Rightarrow> BridgeEvent \<Rightarrow> bool" where
  "advertises addr (OnAdvertisement p) \<longleftrightarrow> address p = addr (mobilePeerId p)"
| "advertises addr _ \<longleftrightarrow> True"

definition known_by_id :: "BleTransport \<Rightarrow> bool" where
  "known_by_id T \<longleftrightarrow> (\<forall>i \<in> bleConnected T. mhas (blePeers T) i)"

definition known_by_address :: "(string \<Rightarrow> string) \<Rightarrow> BleTransport \<Rightarrow> bool" where
  "known_by_address addr T \<longleftrightarrow> inj addr \<and> known_by_id T \<and> wf_map (blePeers T) \<and>
     (\<forall>(i, p) \<in> set (blePeers T). mobilePeerId p = i \<and> address p = addr i)"

lemma known_new: "known_by_id new_ble" "inj addr \<Longrightarrow> known_by_address addr new_ble"
  by (simp_all add: known_by_address_def known_by_id_def new_ble_def)

lemma known_peer: "known_by_address addr T \<Longrightarrow> mget (blePeers T) i = Some p \<Longrightarrow> mobilePeerId p = i \<and> address p = addr i"
  by (auto simp: known_by_address_def dest: map_of_SomeD)

lemma find_SomeD: "find P xs = Some x \<Longrightarrow> x \<in> set xs \<and> P x"
  by (induction xs) (auto split: if_splits)

lemma peer_at_Some:
  assumes "known_by_address addr T" "peer_at a T = Some q"
  shows "a = addr (mobilePeerId q) \<and> mget (blePeers T) (mobilePeerId q) = Some q"
proof -
  have "q \<in> snd ` set (blePeers T)" "address q = a" using find_SomeD [OF assms(2) [unfolded peer_at_def]] by auto
  then obtain i where i: "(i, q) \<in> set (blePeers T)" "address q = a" by force
  moreover have "wf_map (blePeers T)" "mobilePeerId q = i \<and> address q = addr i"
    using assms(1) i(1) by (auto simp: known_by_address_def)
  ultimately show ?thesis by (metis mget_Some_iff)
qed

lemma peer_at_known:
  assumes "known_by_address addr T"
  shows "peer_at a T = Some p \<longleftrightarrow> a = addr (mobilePeerId p) \<and> mget (blePeers T) (mobilePeerId p) = Some p"
proof (rule iffI, rule peer_at_Some [OF assms], assumption, elim conjE)
  assume a: "a = addr (mobilePeerId p)" and m: "mget (blePeers T) (mobilePeerId p) = Some p"
  have "(mobilePeerId p, p) \<in> set (blePeers T)" using m by (rule map_of_SomeD)
  then have "snd (mobilePeerId p, p) \<in> set (map snd (blePeers T))" unfolding set_map by (rule imageI)
  moreover have "address p = a" using known_peer [OF assms m] a by simp
  ultimately have "peer_at a T \<noteq> None" unfolding peer_at_def find_None_iff snd_conv by blast
  then obtain q where q: "peer_at a T = Some q" by blast
  have "inj addr" using assms by (simp add: known_by_address_def)
  moreover have "addr (mobilePeerId q) = addr (mobilePeerId p)" using peer_at_Some [OF assms q] a by simp
  ultimately have "mobilePeerId q = mobilePeerId p" by (rule injD)
  then have "mget (blePeers T) (mobilePeerId p) = Some q" using peer_at_Some [OF assms q] by simp
  then have "q = p" using m by simp
  with q show "peer_at a T = Some p" by (rule subst [where P = "\<lambda>x. peer_at a T = Some x", rotated])
qed

lemma peer_at_none:
  assumes "known_by_address addr T" "peer_at a T = None"
  shows "addr i \<noteq> a \<or> \<not> mhas (blePeers T) i"
proof (rule ccontr)
  assume "\<not> ?thesis"
  then obtain p where "addr i = a" "mget (blePeers T) i = Some p" by (auto simp: mhas_def)
  with peer_at_known [OF assms(1), of a p] known_peer [OF assms(1)] assms(2) show False by auto
qed

lemma change_link_simps [simp]:
  "blePeers (change_link i p up T) = blePeers T" "blePeers (call_receiver i f T) = blePeers T"
  "bleConnected (change_link i p up T) = (if up then insert i (bleConnected T) else bleConnected T - {i})"
  "bleConnected (call_receiver i f T) = bleConnected T"
  by (simp_all add: change_link_def call_receiver_def Let_def)

interpretation ios_links: keyed_automaton ble_standing ios_event "link_rule id" "\<lambda>_. True" known_by_id
proof (unfold_locales, goal_cases)
  case (1 T e)
  then show ?case by (cases e) (auto simp: ios_event_def known_by_id_def mhas_def split: option.splits if_splits)
next
  case (2 T e i)
  then show ?case by (cases e) (auto simp: ios_event_def known_by_id_def ble_standing_def mhas_def split: option.splits)
qed

interpretation android_links: keyed_automaton ble_standing android_event "link_rule addr" "advertises addr" "known_by_address addr"
  for addr
proof (unfold_locales, goal_cases)
  case (1 T e)
  have "known_by_id (android_event e T)"
    using 1 peer_at_known [OF 1(1)] by (cases e) (auto simp: android_event_def known_by_id_def known_by_address_def mhas_def split: option.splits if_splits)
  with 1 show ?case
    by (cases e) (auto simp: android_event_def known_by_address_def in_set_mset_at split: option.splits dest!: set_mset_at_subset [THEN subsetD])
next
  case (2 T e i)
  show ?case
  proof (cases e)
    case (OnAdvertisement p)
    with 2 show ?thesis by (auto simp: android_event_def known_by_address_def known_by_id_def ble_standing_def mhas_def)
  next
    case (OnFrame a f)
    then show ?thesis by (auto simp: android_event_def ble_standing_def split: option.splits)
  next
    case (OnConnectionChanged a up)
    show ?thesis
    proof (cases "peer_at a T")
      case None
      with OnConnectionChanged peer_at_none [OF 2(1) None, of i] show ?thesis by (auto simp: android_event_def ble_standing_def)
    next
      case (Some p)
      then have p: "a = addr (mobilePeerId p)" "mhas (blePeers T) (mobilePeerId p)" using peer_at_known [OF 2(1)] by (auto simp: mhas_def)
      have "a = addr i \<longleftrightarrow> i = mobilePeerId p" using p(1) 2(1) by (auto simp: known_by_address_def dest: injD)
      with OnConnectionChanged Some p(2) show ?thesis by (auto simp: android_event_def ble_standing_def)
    qed
  qed
qed

text \<open>A link is up after the last report about it said so, made when the peer had been advertised.\<close>

definition link_up_after :: "(string \<Rightarrow> string) \<Rightarrow> string \<Rightarrow> BridgeEvent list \<Rightarrow> bool" where
  "link_up_after addr i es \<longleftrightarrow> (\<exists>pre post. es = pre @ OnConnectionChanged (addr i) True # post \<and>
     (\<exists>p. OnAdvertisement p \<in> set pre \<and> mobilePeerId p = i) \<and> OnConnectionChanged (addr i) False \<notin> set post)"

lemma seen_history: "fold (link_rule addr i) es Unseen \<noteq> Unseen \<longleftrightarrow> (\<exists>p. OnAdvertisement p \<in> set es \<and> mobilePeerId p = i)"
proof (induction es rule: rev_induct)
  case (snoc e es)
  then show ?case by (cases e) auto
qed simp

lemma linked_history: "fold (link_rule addr i) es Unseen = Linked \<longleftrightarrow> link_up_after addr i es"
proof (induction es rule: rev_induct)
  case (snoc e es)
  let ?s = "fold (link_rule addr i) es Unseen"
  show ?case
  proof (cases "\<exists>up. e = OnConnectionChanged (addr i) up")
    case True
    then obtain up where e: "e = OnConnectionChanged (addr i) up" by blast
    have "link_up_after addr i (es @ [e]) \<longleftrightarrow> up \<and> (\<exists>p. OnAdvertisement p \<in> set es \<and> mobilePeerId p = i)"
    proof
      assume "link_up_after addr i (es @ [e])"
      then obtain pre post p where h: "es @ [e] = pre @ OnConnectionChanged (addr i) True # post" "OnAdvertisement p \<in> set pre"
        "mobilePeerId p = i" "OnConnectionChanged (addr i) False \<notin> set post" unfolding link_up_after_def by blast
      have "set pre \<subseteq> set es" using h(1) by (cases post rule: rev_cases) auto
      moreover have up using h(1,4) e by (cases post rule: rev_cases) auto
      ultimately show "up \<and> (\<exists>p. OnAdvertisement p \<in> set es \<and> mobilePeerId p = i)" using h(2,3) by blast
    next
      assume "up \<and> (\<exists>p. OnAdvertisement p \<in> set es \<and> mobilePeerId p = i)"
      with e show "link_up_after addr i (es @ [e])"
        unfolding link_up_after_def by (intro exI [of _ es] exI [of _ "[]"]) auto
    qed
    moreover have "fold (link_rule addr i) (es @ [e]) Unseen = Linked \<longleftrightarrow> up \<and> ?s \<noteq> Unseen \<or> False" using e by auto
    ultimately show ?thesis by (simp add: seen_history)
  next
    case False
    then have "fold (link_rule addr i) (es @ [e]) Unseen = Linked \<longleftrightarrow> ?s = Linked" by (cases e) auto
    moreover have "link_up_after addr i (es @ [e]) \<longleftrightarrow> link_up_after addr i es"
      unfolding link_up_after_def
    proof (intro iffI; elim exE conjE)
      fix pre post p
      assume h: "es @ [e] = pre @ OnConnectionChanged (addr i) True # post"
      then obtain post' where "post = post' @ [e]" "es = pre @ OnConnectionChanged (addr i) True # post'"
        using False by (cases post rule: rev_cases) auto
      moreover assume "OnAdvertisement p \<in> set pre" "mobilePeerId p = i" "OnConnectionChanged (addr i) False \<notin> set post"
      ultimately show "\<exists>pre post. es = pre @ OnConnectionChanged (addr i) True # post \<and>
          (\<exists>p. OnAdvertisement p \<in> set pre \<and> mobilePeerId p = i) \<and> OnConnectionChanged (addr i) False \<notin> set post" by auto
    next
      fix pre post p
      assume "es = pre @ OnConnectionChanged (addr i) True # post" "OnAdvertisement p \<in> set pre" "mobilePeerId p = i"
        "OnConnectionChanged (addr i) False \<notin> set post"
      then show "\<exists>pre post. es @ [e] = pre @ OnConnectionChanged (addr i) True # post \<and>
          (\<exists>p. OnAdvertisement p \<in> set pre \<and> mobilePeerId p = i) \<and> OnConnectionChanged (addr i) False \<notin> set post"
        using False by (intro exI [of _ pre] exI [of _ "post @ [e]"]) auto
    qed
    ultimately show ?thesis using snoc.IH by simp
  qed
qed (simp add: link_up_after_def)

section \<open>Sending\<close>

lemma android_send_cases:
  assumes "known_by_address addr T"
  shows "android_send i frame r T =
    (if ble_standing T i \<noteq> Linked then (Inl (Err (''BLE peer is not connected: '' @ i)), T)
     else if 200 < length frame
     then (Inl (Err (''BLE frame exceeds transport MTU: '' @ nat_string (length frame) @ '' > '' @ nat_string 200)), T)
     else (r, call_native (NativeWrite (addr i) (map uint frame)) T))"
  using known_peer [OF assms, of i]
  by (auto simp: android_send_def checked_write_def android_link_def ble_standing_def mhas_def bridge_write_def split: option.splits)

lemma call_native_simps [simp]:
  "blePeers (call_native c T) = blePeers T" "bleConnected (call_native c T) = bleConnected T"
  "ble_standing (call_native c T) = ble_standing T" "nativeCalls (call_native c T) = nativeCalls T @ [c]"
  "known_by_address addr (call_native c T) \<longleftrightarrow> known_by_address addr T"
  by (auto simp: call_native_def ble_standing_def known_by_address_def known_by_id_def fun_eq_iff)

lemma send_each_android:
  assumes "known_by_address addr T" "ble_standing T i = Linked" "\<forall>c \<in> set cs. length c \<le> 200"
  shows "\<exists>T'. send_each (\<lambda>c. android_send i c (Inr ())) cs T = (Inr (), T') \<and>
    nativeCalls T' = nativeCalls T @ map (\<lambda>c. NativeWrite (addr i) (map uint c)) cs"
  using assms
proof (induction cs arbitrary: T)
  case (Cons c cs)
  then have "android_send i c (Inr ()) T = (Inr (), call_native (NativeWrite (addr i) (map uint c)) T)"
    by (simp add: android_send_cases)
  with Cons.IH [of "call_native (NativeWrite (addr i) (map uint c)) T"] Cons.prems show ?case by simp
qed simp

text \<open>What the receiving adapter hands on: the chunks as they were, under the id it knows the sender by.\<close>

definition signed_byte :: "int \<Rightarrow> int" where
  "signed_byte n = (if n < 128 then n else n - 256)"

lemma signed_byte [simp]: "word_of_int (signed_byte (uint (b :: byte))) = b"
proof -
  have "(word_of_int (uint b - 256) :: byte) = word_of_int (uint b) - word_of_int 256" by simp
  also have "word_of_int 256 = (0 :: byte)" by simp
  finally show ?thesis by (simp add: signed_byte_def)
qed

lemma receive_chunks_android:
  assumes "known_by_address addr T" "ble_standing T j \<noteq> Unseen" "hasReceiver T"
  shows "receivedFrames (fold (\<lambda>c. android_event (bridge_event (ZaycommBleFrame (addr j) (map (signed_byte \<circ> uint) c)))) cs T)
    = receivedFrames T @ map (Pair j) cs"
  using assms
proof (induction cs arbitrary: T)
  case (Cons c cs)
  obtain p where p: "mget (blePeers T) j = Some p" using Cons.prems(2) by (auto simp: ble_standing_def mhas_def split: if_splits)
  then have "peer_at (addr j) T = Some p" using peer_at_known [OF Cons.prems(1)] known_peer [OF Cons.prems(1) p] by simp
  then have e: "android_event (bridge_event (ZaycommBleFrame (addr j) (map (signed_byte \<circ> uint) c))) T = call_receiver j c T"
    using known_peer [OF Cons.prems(1) p] by (simp add: android_event_def bridge_event_def comp_def)
  have "ble_standing (call_receiver j c T) = ble_standing T" "known_by_address addr (call_receiver j c T) = known_by_address addr T"
    by (simp_all add: ble_standing_def known_by_address_def known_by_id_def fun_eq_iff)
  moreover have "hasReceiver (call_receiver j c T)" "receivedFrames (call_receiver j c T) = receivedFrames T @ [(j, c)]"
    using Cons.prems(3) by (simp_all add: call_receiver_def)
  ultimately show ?case using Cons.IH [of "call_receiver j c T"] Cons.prems(1,2) e by (simp add: comp_def)
qed simp

lemma chunk_lengths: "chunkFrame frame mtu = Inr chunks \<Longrightarrow> \<forall>c \<in> set chunks. length c \<le> 4 + frame_chunk_size mtu"
  using chunkFrame_parts [of frame mtu chunks] by (fastforce simp: in_set_conv_nth)

section \<open>Properties\<close>

text \<open>C32: The adapters track links. After any events, what the Android adapter knows of a peer is what the automaton of
  that peer says, when advertisements pair ids and addresses one to one; what the iOS adapter knows is so without
  any condition. A link reported before the peer was advertised does not count.\<close>

theorem links_refine:
  assumes "inj addr" "list_all (advertises addr) es"
  shows "ble_standing (fold android_event es new_ble) i = fold (link_rule addr i) es Unseen \<and>
    ble_standing (fold ios_event es' new_ble) i' = fold (link_rule id i') es' Unseen \<and>
    (ble_standing (fold android_event es new_ble) i = Linked \<longleftrightarrow> link_up_after addr i es)"
proof -
  have "ble_standing new_ble k = Unseen" for k by (simp add: ble_standing_def new_ble_def)
  with android_links.run_rule [OF known_new(2) [OF assms(1)] assms(2), of i]
    ios_links.run_rule [OF known_new(1), of es' i'] show ?thesis
    by (simp add: linked_history list.pred_True)
qed

theorem links_refine_witness:
  "\<not> link_up_after id ''a'' [OnConnectionChanged ''a'' True, OnAdvertisement \<lparr>mobilePeerId = ''a'', address = ''a'', mobilePublicKey = None\<rparr>]"
  using links_refine [of id "[OnConnectionChanged ''a'' True, OnAdvertisement \<lparr>mobilePeerId = ''a'', address = ''a'', mobilePublicKey = None\<rparr>]" "''a''" "[]" "''a''"]
  by simp (elim conjE, simp)

text \<open>Where a native module that writes is given. When every native write resolves, sending a message over a link that
  is up writes all its chunks to the peer's address; when the other device knows the sender and its native module
  reports the chunks as signed numbers, in an order that completes the message, it arrives at the channel they are
  handed to. The Kotlin module exports no write, so on Android the answer of the write is an error.\<close>

theorem frame_over_ble:
  assumes "chunkFrame frame DEFAULT_FRAME_MTU = Inr chunks" "known_by_address addrA A" "ble_standing A i = Linked"
    and "known_by_address addrB B" "ble_standing B j \<noteq> Unseen" "hasReceiver B" "receivedFrames B = []"
    and "fair C" "mget (pendingFrames C) j = None" "completing (length chunks) order"
  shows "\<exists>A' written. channel_send (\<lambda>pid c. android_send pid c (Inr ())) frame (new_channel i) A = (Inr (), A') \<and>
    nativeCalls A' = nativeCalls A @ map (NativeWrite (addrA i)) written \<and>
    arrived (fold (\<lambda>(pid, c). accept_chunk pid c) (receivedFrames
      (fold (\<lambda>k. android_event (bridge_event (ZaycommBleFrame (addrB j) (map signed_byte (written ! k))))) order B)) C) = arrived C @ [frame]"
proof -
  let ?written = "map (map uint) chunks"
  have "\<forall>c \<in> set chunks. length c \<le> 200"
    using chunk_lengths [OF assms(1)] by (auto simp: frame_chunk_size_def frame_constants)
  from send_each_android [OF assms(2,3) this] obtain A' where A':
    "send_each (\<lambda>c. android_send i c (Inr ())) chunks A = (Inr (), A')"
    "nativeCalls A' = nativeCalls A @ map (NativeWrite (addrA i)) ?written" by (auto simp: comp_def)
  have o: "set order \<subseteq> {..<length chunks}" using assms(10) by (auto simp: completing_def)
  have "fold (\<lambda>k. android_event (bridge_event (ZaycommBleFrame (addrB j) (map signed_byte (?written ! k))))) order B
    = fold (\<lambda>c. android_event (bridge_event (ZaycommBleFrame (addrB j) (map (signed_byte \<circ> uint) c)))) (map ((!) chunks) order) B"
    using o by (induction order arbitrary: B) (simp_all add: comp_def)
  with receive_chunks_android [OF assms(4-6)] assms(7) message_arrives(1) [OF assms(1,8-10)] A'
  show ?thesis by (intro exI [of _ A'] exI [of _ ?written]) (simp add: channel_send_def new_channel_def assms(1))
qed

definition linked_adapter :: BleTransport where
  "linked_adapter = ble_on_receive (fold android_event [OnAdvertisement \<lparr>mobilePeerId = ''b'', address = ''b'', mobilePublicKey = None\<rparr>,
     OnConnectionChanged ''b'' True] new_ble)"

theorem frame_over_ble_witness:
  "\<exists>A' written. channel_send (\<lambda>pid c. android_send pid c (Inr ())) [1, 255] (new_channel ''b'') linked_adapter = (Inr (), A') \<and>
    arrived (fold (\<lambda>(pid, c). accept_chunk pid c) (receivedFrames
      (fold (\<lambda>k. android_event (bridge_event (ZaycommBleFrame ''b'' (map signed_byte (written ! k))))) [0] linked_adapter)) (new_channel ''a''))
      = [[1, 255]]"
proof -
  have c: "chunkFrame [1, 255] DEFAULT_FRAME_MTU = Inr [make_chunk 0 1 [1, 255]]"
    by (simp add: chunkFrame_def frame_chunk_size_def frame_constants ceil_div_def slice_def)
  have l: "known_by_address id linked_adapter" "ble_standing linked_adapter ''b'' = Linked" "hasReceiver linked_adapter"
    "receivedFrames linked_adapter = []" "ble_standing linked_adapter ''b'' \<noteq> Unseen"
    by (auto simp: linked_adapter_def ble_on_receive_def android_event_def new_ble_def peer_at_def change_link_def
        known_by_address_def known_by_id_def ble_standing_def mhas_def)
  have n: "completing (length [make_chunk 0 1 [1, 255]]) [0]"
    unfolding completing_def by (rule exI [of _ "[]"]) auto
  from frame_over_ble [OF c l(1,2,1,5,3,4) fair_steps(1) _ n, of "''a''"] show ?thesis
    by (auto simp: new_channel_def arrived_def)
qed

text \<open>A message is not cut to the link it is sent on: the channel of the authentication flow always makes chunks of
  up to 180 bytes, so on an iOS link with a smaller unit a message of at least 176 bytes is refused with its
  first chunk and nothing is written.\<close>

theorem small_ios_link_refuses:
  assumes "176 \<le> length frame" "length frame \<le> 45056" "ble_standing T i = Linked" "f i < 180"
  shows "\<exists>msg. channel_send (\<lambda>pid c. ios_send (Some f) pid c (Inr ())) frame (new_channel i) T = (Inl (Err msg), T)"
proof -
  define n where "n = ceil_div (length frame) 176"
  have n: "0 < n" "n \<le> 256" using assms(1,2) by (simp_all add: ceil_div_def n_def)
  let ?chunk = "\<lambda>i. make_chunk i n (slice (i * 176) ((i + 1) * 176) frame)"
  define chunks where "chunks = map ?chunk [0..<n]"
  have "frame \<noteq> []" using assms(1) by auto
  then have chunkFrame: "chunkFrame frame DEFAULT_FRAME_MTU = Inr chunks"
    using n by (simp add: chunkFrame_def frame_chunk_size_def frame_constants Let_def chunks_def n_def)
  have "chunks = ?chunk 0 # map ?chunk [1..<n]" unfolding chunks_def using n(1) by (subst upt_conv_Cons) simp_all
  moreover have "length (?chunk 0) = 180" using assms(1) by (simp add: slice_def)
  ultimately have c: "length (hd chunks) = 180" "chunks \<noteq> []" by (simp_all only: list.sel) simp
  obtain p where p: "mget (blePeers T) i = Some p" "i \<in> bleConnected T"
    using assms(3) by (auto simp: ble_standing_def mhas_def split: if_splits)
  obtain first rest where chunks: "chunks = first # rest" using c(2) by (cases chunks) simp_all
  moreover have "first \<noteq> []" using c(1) chunks by auto
  ultimately obtain msg where "ios_send (Some f) i first (Inr ()) T = (Inl (Err msg), T)"
    using p c(1) assms(4) by (simp add: ios_send_def checked_write_def ios_link_def mhas_def)
  with chunks show ?thesis by (simp add: channel_send_def new_channel_def chunkFrame chunks)
qed

end
