(* ===== verification/PeerAuth.thy ===== *)
theory PeerAuth
  imports PeerTrust IntroductionSession Ble
begin

text \<open>
  \<open>mobile/src/peerAuth.ts\<close>: from scanned text to a trusted peer. The frames that arrive before the time limit
  are given with their senders; they are reassembled by the frame channel and read by the session in the order
  they complete, and a session that still waits then ends with \<open>AUTHENTICATION_TIMEOUT\<close>. \<open>onStage\<close> calls are
  recorded. The module's variable \<open>receiverInstalled\<close> is the transport object its callback was given to.
\<close>

section \<open>Data\<close>

datatype PeerAuthStage = Idle | Scanning | Captured | Validating | Authenticating | StageVerified | StageFailed

record PeerAuthResult =
  authOk :: bool
  stage :: PeerAuthStage
  failureCode :: "string option"
  authMessage :: "string option"
  authPeer :: "PeerTrustRecord option"

text \<open>
  What one call meets: its options, the clock, and what the link does. \<open>arrivals\<close> are the frames reported while
  the session runs, each with the transport object whose callback is called and the sender it names.
\<close>

record PeerAuthInput =
  transportId :: nat
  peers :: "MobilePeer list"
  localKeys :: LocalNodeKeys
  clock :: jsnum
  connectResult :: "unit res"
  linkFailures :: "js_error option list"
  arrivals :: "(nat \<times> string \<times> bytes) list"

record PeerAuthState =
  trustStore :: PeerTrustStore
  receiverInstalled :: "nat option"
  stages :: "PeerAuthStage list"

section \<open>Helpers\<close>

definition toHex :: "bytes \<Rightarrow> string" where
  "toHex bs = concat (map (\<lambda>b. padStart 2 (CHR ''0'') (toString16 (unat b))) bs)"

definition findNearbyPeer :: "MobilePeer list \<Rightarrow> string \<Rightarrow> MobilePeer option" where
  "findNearbyPeer ps nid = find (\<lambda>p. to_lower (mobilePeerId p) = to_lower nid) ps"

fun contains_text :: "string \<Rightarrow> string \<Rightarrow> bool" where
  "contains_text needle [] = (needle = [])"
| "contains_text needle (c # s) = (after needle (c # s) \<noteq> None \<or> contains_text needle s)"

definition known_codes :: "string list" where
  "known_codes = [''PEER_IDENTITY_MISMATCH'', ''PEER_SESSION_BINDING_INVALID'', ''LOCAL_SESSION_BINDING_INVALID'',
     ''SESSION_IDENTITY_MISMATCH'', ''PEER_INTRODUCTION_MISMATCH'', ''HANDSHAKE_FAILED'', ''CHANNEL_FAILED'',
     ''INTRODUCTION_NOT_USABLE'', ''AUTHENTICATION_TIMEOUT'']"

text \<open>The first known code the message contains.\<close>

definition errorCode :: "string \<Rightarrow> string" where
  "errorCode message = (case find (\<lambda>code. contains_text code message) known_codes of
     None \<Rightarrow> ''AUTHENTICATION_FAILED'' | Some code \<Rightarrow> code)"

definition failureMessage :: "string \<Rightarrow> string" where
  "failureMessage code =
     (if code = ''PEER_IDENTITY_MISMATCH'' \<or> code = ''PEER_SESSION_BINDING_INVALID''
      then ''The other device could not prove it holds the identity in that code. Peer not trusted.''
      else if code = ''PEER_INTRODUCTION_MISMATCH''
      then ''The device that answered is not the device that code introduced. Peer not trusted.''
      else if code = ''AUTHENTICATION_TIMEOUT'' then ''Authentication timed out. Peer not trusted.''
      else ''Authentication failed. Peer not trusted.'')"

definition describe :: "js_error \<Rightarrow> string" where
  "describe e = (case e of Err s \<Rightarrow> s | _ \<Rightarrow> [])"

definition installReceiver :: "nat \<Rightarrow> PeerAuthState \<Rightarrow> PeerAuthState" where
  "installReceiver t S = (if receiverInstalled S \<noteq> None then S else S\<lparr>receiverInstalled := Some t\<rparr>)"

definition onStage :: "PeerAuthStage \<Rightarrow> PeerAuthState \<Rightarrow> PeerAuthState" where
  "onStage g S = S\<lparr>stages := stages S @ [g]\<rparr>"

definition failed_result :: "string \<Rightarrow> string \<Rightarrow> PeerTrustRecord option \<Rightarrow> PeerAuthResult" where
  "failed_result code msg peer =
     \<lparr>authOk = False, stage = StageFailed, failureCode = Some code, authMessage = Some msg, authPeer = peer\<rparr>"

text \<open>The messages the session can read: the module hears only the transport object it installed its callback on.\<close>

definition session_wire :: "PeerAuthInput \<Rightarrow> string \<Rightarrow> PeerAuthState \<Rightarrow> Wire" where
  "session_wire inp peerId S =
     (let heardFrames = map snd (filter (\<lambda>(t, _). receiverInstalled S = Some t) (arrivals inp));
          channel = fold (\<lambda>(sender, chunk). accept_chunk sender chunk) heardFrames (new_channel peerId)
      in \<lparr>inbox = map Inr (arrived channel), outbox = [], sendFailures = linkFailures inp,
          refuses = (\<lambda>frame. case chunkFrame frame DEFAULT_FRAME_MTU of Inl e \<Rightarrow> Some e | Inr _ \<Rightarrow> None)\<rparr>)"

section \<open>The flow\<close>

text \<open>\<open>withTimeout\<close>: a session that waits is ended with an error.\<close>

definition with_timeout :: "'a outcome \<Rightarrow> string + 'a" where
  "with_timeout r = (case r of Done x \<Rightarrow> Inr x | Thrown cls msg \<Rightarrow> Inl msg | Waiting \<Rightarrow> Inl ''AUTHENTICATION_TIMEOUT'')"

definition run_session :: "lib \<Rightarrow> nat \<Rightarrow> PeerAuthInput \<Rightarrow> NodeIntroduction \<Rightarrow> MobilePeer \<Rightarrow> PeerAuthState \<Rightarrow> PeerAuthResult \<times> PeerAuthState" where
  "run_session L i inp introduction peer S =
     (let key = KeyHex (introPublicKey introduction);
          attempt_failed = (\<lambda>code. (let S1 = onStage StageFailed (S\<lparr>trustStore := markFailed key code (trustStore S)\<rparr>)
            in (failed_result code (failureMessage code) (get_record key (trustStore S1)), S1)))
      in case with_timeout (fst (authenticateScannedPeer L i (localKeys inp) introduction ''ble''
             (session_wire inp (mobilePeerId peer) S))) of
           Inl msg \<Rightarrow> attempt_failed (errorCode msg)
         | Inr session \<Rightarrow>
             (case markVerified (clock inp) key \<lparr>evSessionHash = as_handshakeHash session, evAt = None\<rparr> (trustStore S) of
                (Inl c, _) \<Rightarrow> attempt_failed (errorCode ''Refusing to verify a peer that was never introduced by a QR scan.'')
              | (Inr r, T) \<Rightarrow> (\<lparr>authOk = True, stage = StageVerified, failureCode = None, authMessage = None, authPeer = Some r\<rparr>,
                  onStage StageVerified (S\<lparr>trustStore := T\<rparr>))))"

definition authenticateScannedPayload :: "lib \<Rightarrow> nat \<Rightarrow> string \<Rightarrow> PeerAuthInput \<Rightarrow> PeerAuthState \<Rightarrow> PeerAuthResult \<times> PeerAuthState" where
  "authenticateScannedPayload L i raw inp S =
     (let S1 = onStage Validating S
      in case tryDecodeNodeIntroduction L raw of
           Inl (c, msg) \<Rightarrow> (failed_result (code_string c) msg None, onStage StageFailed S1)
         | Inr introduction \<Rightarrow>
             if introPublicKey introduction = toHex (publicKey (nodeIdentity (localKeys inp)))
             then (failed_result ''QR_SELF'' ''That is this device's own code.'' None, onStage StageFailed S1)
             else case findNearbyPeer (peers inp) (nodeId introduction) of
                None \<Rightarrow> (failed_result ''PEER_NOT_NEARBY''
                    ''That node is not visible over Bluetooth yet. Start its transport and keep both devices close.'' None,
                  onStage StageFailed S1)
              | Some peer \<Rightarrow>
                  (let S2 = S1\<lparr>trustStore := snd (introduce introduction (clock inp) (trustStore S1))\<rparr>;
                       S3 = installReceiver (transportId inp) (onStage Authenticating S2)
                   in case connectResult inp of
                        Inl e \<Rightarrow> (failed_result ''CONNECT_FAILED'' (''Could not open a link to that node: '' @ describe e) None,
                          onStage StageFailed (S3\<lparr>trustStore :=
                            markFailed (KeyHex (introPublicKey introduction)) ''CONNECT_FAILED'' (trustStore S3)\<rparr>))
                      | Inr _ \<Rightarrow> run_session L i inp introduction peer S3))"

section \<open>Lemmas\<close>

lemma toHex_eq [simp]: "toHex bs = bytesToHex bs"
  by (simp add: toHex_def bytesToHex_def)

lemma onStage_simps [simp]:
  "trustStore (onStage g S) = trustStore S" "receiverInstalled (onStage g S) = receiverInstalled S"
  "trustStore (installReceiver t S) = trustStore S"
  "receiverInstalled (installReceiver t S) = (if receiverInstalled S = None then Some t else receiverInstalled S)"
  by (simp_all add: onStage_def installReceiver_def)

lemma after_introduce: "mget (peerRecords (snd (introduce n t T))) (normalize_key (introPublicKey n)) \<noteq> None"
  by (simp add: introduce_def Let_def)

lemma introduce_other: "normalize_key (introPublicKey n) \<noteq> key_of k \<Longrightarrow> get_record k (snd (introduce n t T)) = get_record k T"
  by (simp add: introduce_def get_record_def Let_def)

lemma markFailed_effect:
  "\<not> isVerified k (markFailed k reason T)"
  "key_of k' \<noteq> key_of k \<Longrightarrow> get_record k' (markFailed k reason T) = get_record k' T"
  by (auto simp: markFailed_def isVerified_def get_record_def Let_def split: option.splits)

lemma markVerified_effect:
  assumes "mget (peerRecords T) (key_of k) \<noteq> None"
  obtains r where "markVerified now k ev T = (Inr r, T\<lparr>peerRecords := mset_at (key_of k) r (peerRecords T)\<rparr>)"
    "trust r = Verified" "sessionHash r = Some (bytesToHex (evSessionHash ev))"
  using assms by (auto simp: markVerified_def Let_def)

text \<open>What one attempt does after the introduction was recorded.\<close>

lemma run_session_cases:
  assumes "run_session L i inp n peer S = (res, S')" "mget (peerRecords (trustStore S)) (normalize_key (introPublicKey n)) \<noteq> None"
  obtains s w where "authOk res" "authenticateScannedPeer L i (localKeys inp) n ''ble'' (session_wire inp (mobilePeerId peer) S) = (Done s, w)"
      "get_record (KeyHex (introPublicKey n)) (trustStore S') = authPeer res" "map_option trust (authPeer res) = Some Verified"
      "map_option sessionHash (authPeer res) = Some (Some (bytesToHex (as_handshakeHash s)))"
      "\<And>k. key_of k \<noteq> normalize_key (introPublicKey n) \<Longrightarrow> get_record k (trustStore S') = get_record k (trustStore S)"
    | code where "\<not> authOk res" "failureCode res = Some code" "trustStore S' = markFailed (KeyHex (introPublicKey n)) code (trustStore S)"
proof -
  let ?key = "KeyHex (introPublicKey n)"
  have key: "key_of ?key = normalize_key (introPublicKey n)" by (simp add: key_of_def)
  obtain out w where run: "authenticateScannedPeer L i (localKeys inp) n ''ble'' (session_wire inp (mobilePeerId peer) S) = (out, w)"
    by (cases "authenticateScannedPeer L i (localKeys inp) n ''ble'' (session_wire inp (mobilePeerId peer) S)")
  show thesis
  proof (cases "with_timeout out")
    case (Inl msg)
    with assms(1) run show thesis
      by (intro that(2) [of "errorCode msg"]) (auto simp: run_session_def Let_def failed_result_def onStage_def)
  next
    case (Inr s)
    then have out: "out = Done s" by (cases out) (simp_all add: with_timeout_def)
    obtain r where r: "markVerified (clock inp) ?key \<lparr>evSessionHash = as_handshakeHash s, evAt = None\<rparr> (trustStore S)
        = (Inr r, (trustStore S)\<lparr>peerRecords := mset_at (key_of ?key) r (peerRecords (trustStore S))\<rparr>)"
      "trust r = Verified" "sessionHash r = Some (bytesToHex (as_handshakeHash s))"
      using markVerified_effect [of "trustStore S" ?key] assms(2) key by (metis VerificationEvidence.select_convs(1))
    with assms(1) run out have res: "res = \<lparr>authOk = True, stage = StageVerified, failureCode = None, authMessage = None, authPeer = Some r\<rparr>"
      "trustStore S' = (trustStore S)\<lparr>peerRecords := mset_at (key_of ?key) r (peerRecords (trustStore S))\<rparr>"
      by (auto simp: run_session_def Let_def with_timeout_def onStage_def)
    show thesis
      by (rule that(1) [of s w]) (use res r run out key in \<open>auto simp: get_record_def\<close>)
  qed
qed

text \<open>The outcomes of the whole flow: refused early with the trust untouched, or attempted.\<close>

lemma payload_cases:
  assumes "authenticateScannedPayload L i raw inp S = (res, S')"
  obtains "\<not> authOk res" "trustStore S' = trustStore S"
      "\<forall>n. decodeNodeIntroduction L raw = Inr n \<longrightarrow>
         failureCode res = Some ''QR_SELF'' \<and> introPublicKey n = bytesToHex (publicKey (nodeIdentity (localKeys inp))) \<or>
         failureCode res = Some ''PEER_NOT_NEARBY'' \<and> findNearbyPeer (peers inp) (nodeId n) = None"
    | n where "decodeNodeIntroduction L raw = Inr n" "\<not> authOk res" "connectResult inp \<noteq> Inr ()" "failureCode res = Some ''CONNECT_FAILED''"
      "findNearbyPeer (peers inp) (nodeId n) \<noteq> None"
      "trustStore S' = markFailed (KeyHex (introPublicKey n)) ''CONNECT_FAILED'' (snd (introduce n (clock inp) (trustStore S)))"
    | n peer S3 where "decodeNodeIntroduction L raw = Inr n" "introPublicKey n \<noteq> bytesToHex (publicKey (nodeIdentity (localKeys inp)))"
      "findNearbyPeer (peers inp) (nodeId n) = Some peer" "trustStore S3 = snd (introduce n (clock inp) (trustStore S))"
      "receiverInstalled S3 = (if receiverInstalled S = None then Some (transportId inp) else receiverInstalled S)"
      "run_session L i inp n peer S3 = (res, S')"
proof (cases "decodeNodeIntroduction L raw")
  case (Inl e)
  then have "tryDecodeNodeIntroduction L raw = Inl (case e of IntroductionError c msg \<Rightarrow> (c, msg)
      | OtherError e \<Rightarrow> (QR_MALFORMED, ''Unreadable QR payload.''))"
    by (simp add: tryDecodeNodeIntroduction_def split: intro_error.split)
  with assms Inl show thesis
    by (intro that(1)) (auto simp: authenticateScannedPayload_def failed_result_def Let_def split: prod.splits)
next
  case (Inr n)
  then have dec: "tryDecodeNodeIntroduction L raw = Inr n" by (simp add: tryDecodeNodeIntroduction_def)
  show thesis
  proof (cases "introPublicKey n = bytesToHex (publicKey (nodeIdentity (localKeys inp))) \<or> findNearbyPeer (peers inp) (nodeId n) = None")
    case True
    with assms dec Inr show thesis
      by (intro that(1)) (auto simp: authenticateScannedPayload_def failed_result_def Let_def split: if_splits)
  next
    case False
    then obtain peer where peer: "findNearbyPeer (peers inp) (nodeId n) = Some peer" by auto
    show thesis
    proof (cases "connectResult inp")
      case (Inl e)
      with assms dec Inr False peer show thesis
        by (intro that(2) [of n]) (auto simp: authenticateScannedPayload_def failed_result_def Let_def onStage_def)
    next
      case con: (Inr u)
      let ?S3 = "installReceiver (transportId inp) (onStage Authenticating
        ((onStage Validating S)\<lparr>trustStore := snd (introduce n (clock inp) (trustStore (onStage Validating S)))\<rparr>))"
      have "run_session L i inp n peer ?S3 = (res, S')"
        using assms dec False peer con by (simp add: authenticateScannedPayload_def Let_def)
      then show thesis using False peer Inr
        by (intro that(3) [of n peer ?S3]) (simp_all add: onStage_def installReceiver_def)
    qed
  qed
qed

lemma isVerified_markFailed: "isVerified k' (markFailed k reason T) \<Longrightarrow> isVerified k' T"
  by (auto simp: markFailed_def isVerified_def Let_def split: option.splits if_splits)

lemma isVerified_get: "isVerified k T \<longleftrightarrow> map_option trust (get_record k T) = Some Verified"
  by (simp add: isVerified_def get_record_def)

lemma introduce_trust: "isVerified k (snd (introduce n t T)) \<longleftrightarrow> isVerified k T"
  by (auto simp: isVerified_def introduce_def Let_def split: option.splits)

text \<open>Decoded keys are in lower case already.\<close>

lemma decoded_key:
  assumes "decodeNodeIntroduction L raw = Inr n"
  shows "normalize_key (introPublicKey n) = introPublicKey n" "key_of (KeyHex (introPublicKey n)) = introPublicKey n"
proof -
  have "introPublicKey n = bytesToHex (introducedIdentityPublicKey n)" using accepted_introduction [OF assms] by blast
  then show "normalize_key (introPublicKey n) = introPublicKey n" by (metis normalize_key_def to_lower_hex)
  then show "key_of (KeyHex (introPublicKey n)) = introPublicKey n" by (simp add: key_of_def)
qed

lemma link_sized_chunks: "link_sized f \<Longrightarrow> \<exists>chunks. chunkFrame f DEFAULT_FRAME_MTU = Inr chunks \<and> chunks \<noteq> []"
  by (cases f) (auto simp: link_sized_def chunkFrame_def frame_constants frame_chunk_size_def ceil_div_def Let_def)

text \<open>Two messages of one sender, chunk by chunk, are what the session reads.\<close>

lemma session_reads:
  assumes "chunkFrame f2 mtu = Inr c2" "chunkFrame f4 mtu' = Inr c4" "completing (length c2) o2" "completing (length c4) o4"
    and "arrivals inp = map (\<lambda>c. (t, p, c)) (map ((!) c2) o2 @ map ((!) c4) o4)"
    and "receiverInstalled S = Some t"
  shows "inbox (session_wire inp peerId S) = [Inr f2, Inr f4]"
proof -
  let ?C = "new_channel peerId"
  let ?C1 = "fold (\<lambda>(s, c). accept_chunk s c) (map (Pair p) (map ((!) c2) o2)) ?C"
  have new: "fair ?C" "mget (pendingFrames ?C) p = None" "arrived ?C = []"
    by (simp_all add: fair_steps) (simp_all add: new_channel_def arrived_def)
  have one: "arrived ?C1 = [f2]" "mget (pendingFrames ?C1) p = None" "fair ?C1"
    using message_arrives [OF assms(1) new(1,2) assms(3)] new fair_fold by simp_all
  have "arrived (fold (\<lambda>(s, c). accept_chunk s c) (map (Pair p) (map ((!) c4) o4)) ?C1) = [f2, f4]"
    using message_arrives(1) [OF assms(2) one(3,2) assms(4)] one(1) by simp
  moreover have "map snd (filter (\<lambda>(t', _). t = t') (arrivals inp)) = map (Pair p) (map ((!) c2) o2) @ map (Pair p) (map ((!) c4) o4)"
    by (simp add: assms(5) filter_map comp_def)
  ultimately show ?thesis by (simp add: session_wire_def assms(6) Let_def case_prod_unfold)
qed

text \<open>The run of the flow against an honest peer.\<close>

lemma run_session_ok:
  assumes "authenticateScannedPeer L i (localKeys inp) n ''ble'' (session_wire inp (mobilePeerId peer) S) = (Done s, w)"
    and "mget (peerRecords (trustStore S)) (normalize_key (introPublicKey n)) \<noteq> None" "run_session L i inp n peer S = (res, S')"
  shows "authOk res \<and> isVerified (KeyHex (introPublicKey n)) (trustStore S')"
proof -
  let ?key = "KeyHex (introPublicKey n)" and ?ev = "\<lparr>evSessionHash = as_handshakeHash s, evAt = None\<rparr>"
  have "mget (peerRecords (trustStore S)) (key_of ?key) \<noteq> None" using assms(2) by (simp add: key_of_def)
  then obtain r where r: "markVerified (clock inp) ?key ?ev (trustStore S)
      = (Inr r, (trustStore S)\<lparr>peerRecords := mset_at (key_of ?key) r (peerRecords (trustStore S))\<rparr>)" "trust r = Verified"
    by (rule markVerified_effect)
  show ?thesis
    using assms(3) r by (auto simp: run_session_def assms(1) with_timeout_def Let_def isVerified_def)
qed

lemma honest_pairing:
  assumes "session_laws L" "honest_node L (localKeys inp)" "honest_node L b"
    and "publicKey (nodeIdentity b) \<noteq> publicKey (nodeIdentity (localKeys inp))"
    and "findNearbyPeer (peers inp) (nodeId (own_introduction L k b)) = Some peer"
    and "connectResult inp = Inr ()" "linkFailures inp = []"
    and "receiverInstalled S \<in> {None, Some (transportId inp)}"
  shows "\<exists>f1 f2 f3 f4 c2 c4 sb.
    respondToScannedPeer L j b None ''ble'' (wire [f1, f3])
      = (Done sb, \<lparr>inbox = [], outbox = [f2, f4], sendFailures = [], refuses = (\<lambda>_. None)\<rparr>) \<and>
    chunkFrame f2 DEFAULT_FRAME_MTU = Inr c2 \<and> chunkFrame f4 DEFAULT_FRAME_MTU = Inr c4 \<and>
    (\<forall>o2 o4 res S'. completing (length c2) o2 \<longrightarrow> completing (length c4) o4 \<longrightarrow>
      authenticateScannedPayload L i (encodeNodeIntroduction (own_introduction L k b))
        (inp\<lparr>arrivals := map (\<lambda>c. (transportId inp, mobilePeerId peer, c)) (map ((!) c2) o2 @ map ((!) c4) o4)\<rparr>) S = (res, S') \<longrightarrow>
      authOk res \<and> isVerified (KeyBytes (publicKey (nodeIdentity b))) (trustStore S'))"
proof -
  let ?n = "own_introduction L k b" and ?raw = "encodeNodeIntroduction (own_introduction L k b)"
  note n = own_introduction_ok(2) [OF session_lawsD(2,3,5) [OF assms(1)] assms(3), of k]
  have key: "introPublicKey ?n = bytesToHex (publicKey (nodeIdentity b))" by (simp add: own_introduction_def)
  obtain f1 f2 f3 f4 sa sb where
    run: "\<And>w. inbox w = [Inr f2, Inr f4] \<Longrightarrow> takes w [f1, f3] \<Longrightarrow>
      authenticateScannedPeer L i (localKeys inp) ?n ''ble'' w = (Done sa, w\<lparr>inbox := [], outbox := outbox w @ [f1, f3]\<rparr>)"
    and resp: "respondToScannedPeer L j b None ''ble'' (wire [f1, f3])
      = (Done sb, \<lparr>inbox = [], outbox = [f2, f4], sendFailures = [], refuses = (\<lambda>_. None)\<rparr>)"
    and sized: "list_all link_sized [f1, f2, f3, f4]"
    using honest_exchange [OF assms(1-3), of None] by metis
  from sized obtain c1 c2 c3 c4 where c: "chunkFrame f1 DEFAULT_FRAME_MTU = Inr c1" "chunkFrame f2 DEFAULT_FRAME_MTU = Inr c2"
    "chunkFrame f3 DEFAULT_FRAME_MTU = Inr c3" "chunkFrame f4 DEFAULT_FRAME_MTU = Inr c4"
    using link_sized_chunks by (metis list.pred_inject(2))
  have "authOk res \<and> isVerified (KeyBytes (publicKey (nodeIdentity b))) (trustStore S')"
    if o: "completing (length c2) o2" "completing (length c4) o4"
      and r: "authenticateScannedPayload L i ?raw (inp\<lparr>arrivals := map (\<lambda>c. (transportId inp, mobilePeerId peer, c)) (map ((!) c2) o2 @ map ((!) c4) o4)\<rparr>) S = (res, S')"
    for o2 o4 res S'
    using r
  proof (cases rule: payload_cases)
    case 1
    then show ?thesis using n assms(4,5) key by (auto simp: authenticateScannedPayload_def)
  next
    case (2 m)
    then show ?thesis using n assms(4,5,6) key by auto
  next
    case (3 m p S3)
    let ?inp = "inp\<lparr>arrivals := map (\<lambda>c. (transportId inp, mobilePeerId peer, c)) (map ((!) c2) o2 @ map ((!) c4) o4)\<rparr>"
    have m: "m = ?n" "p = peer" using 3(1,3) n assms(5) by simp_all
    have "inbox (session_wire ?inp (mobilePeerId peer) S3) = [Inr f2, Inr f4]"
      using 3(5) assms(8) by (intro session_reads [OF c(2,4) o]) auto
    moreover have "takes (session_wire ?inp (mobilePeerId peer) S3) [f1, f3]"
      using c(1,3) assms(7) by (simp add: takes_def session_wire_def Let_def)
    ultimately have "authenticateScannedPeer L i (localKeys ?inp) ?n ''ble'' (session_wire ?inp (mobilePeerId peer) S3)
        = (Done sa, (session_wire ?inp (mobilePeerId peer) S3)\<lparr>inbox := [],
            outbox := outbox (session_wire ?inp (mobilePeerId peer) S3) @ [f1, f3]\<rparr>)"
      using run by simp
    moreover have "mget (peerRecords (trustStore S3)) (normalize_key (introPublicKey ?n)) \<noteq> None"
      using 3(4) after_introduce m by simp
    ultimately have "authOk res \<and> isVerified (KeyHex (introPublicKey ?n)) (trustStore S')"
      using run_session_ok 3(6) unfolding m by blast
    then show ?thesis by (simp add: key isVerified_def key_of_def)
  qed
  with resp c(2,4) show ?thesis by blast
qed

section \<open>Properties\<close>

text \<open>C11: Pairing trusts only a proven peer. When the flow reports success, the scanned text was a valid introduction
  of another device, and its key is recorded as verified with the hash of a session in which a signature under the
  scanned Ed25519 key covers the scanned X25519 key and that hash; and however the flow ends, no key but the one
  it reports success for is verified that was not before.\<close>

theorem pairing_outcome:
  assumes "authenticateScannedPayload L i raw inp S = (res, S')"
  shows "(authOk res \<longrightarrow> (\<exists>n r hash sig. decodeNodeIntroduction L raw = Inr n \<and>
      introPublicKey n \<noteq> bytesToHex (publicKey (nodeIdentity (localKeys inp))) \<and>
      authPeer res = Some r \<and> get_record (KeyHex (introPublicKey n)) (trustStore S') = Some r \<and>
      trust r = Verified \<and> sessionHash r = Some (bytesToHex hash) \<and>
      ed_verify L sig (buildSessionBindingMessage (introducedStaticPublicKey n) hash Responder) (introducedIdentityPublicKey n) = Some True)) \<and>
    (\<forall>k. isVerified k (trustStore S') \<longrightarrow> isVerified k (trustStore S) \<or>
      authOk res \<and> (\<exists>n. decodeNodeIntroduction L raw = Inr n \<and> key_of k = introPublicKey n))"
  using assms
proof (cases rule: payload_cases)
  case 1
  then show ?thesis by simp
next
  case (2 n)
  then show ?thesis by (auto dest: isVerified_markFailed simp: introduce_trust)
next
  case (3 n peer S3)
  have some: "mget (peerRecords (trustStore S3)) (normalize_key (introPublicKey n)) \<noteq> None"
    using 3(4) after_introduce by simp
  from 3(6) some show ?thesis
  proof (cases rule: run_session_cases)
    case (1 s w)
    obtain r where r: "authPeer res = Some r" "trust r = Verified" "sessionHash r = Some (bytesToHex (as_handshakeHash s))"
      using 1(4,5) by auto
    have "isVerified k (trustStore S)" if "isVerified k (trustStore S')" "key_of k \<noteq> introPublicKey n" for k
      using that 1(6) [of k] 3(4) introduce_trust decoded_key(1) [OF 3(1)] by (metis isVerified_get)
    with 1(1,3) r 3(1,2) session_with_target [OF 1(2)] show ?thesis by simp blast
  next
    case (2 code)
    then show ?thesis using 3(4) by (auto dest: isVerified_markFailed simp: introduce_trust)
  qed
qed

definition pairing_input :: PeerAuthInput where
  "pairing_input = \<lparr>transportId = 1,
     peers = [\<lparr>mobilePeerId = nodeId (own_introduction ref_lib 9 bob_node), address = ''aa:bb'', mobilePublicKey = None\<rparr>],
     localKeys = alice_node, clock = Num 5, connectResult = Inr (), linkFailures = [], arrivals = []\<rparr>"

definition pairing_state :: PeerAuthState where
  "pairing_state = \<lparr>trustStore = new_trust_store, receiverInstalled = None, stages = []\<rparr>"

lemma test_pairing:
  "honest_node ref_lib (localKeys pairing_input)"
  "publicKey (nodeIdentity bob_node) \<noteq> publicKey (nodeIdentity (localKeys pairing_input))"
  "findNearbyPeer (peers pairing_input) (nodeId (own_introduction ref_lib 9 bob_node))
    = Some \<lparr>mobilePeerId = nodeId (own_introduction ref_lib 9 bob_node), address = ''aa:bb'', mobilePublicKey = None\<rparr>"
  "connectResult pairing_input = Inr ()" "linkFailures pairing_input = []"
  "receiverInstalled pairing_state \<in> {None, Some (transportId pairing_input)}"
  by (simp_all add: pairing_input_def pairing_state_def findNearbyPeer_def) (simp add: bob_node_def alice_node_def bob_def alice_def)

theorem pairing_outcome_witness:
  "\<exists>inp res S' r. authenticateScannedPayload ref_lib 3 (encodeNodeIntroduction (own_introduction ref_lib 9 bob_node)) inp pairing_state
      = (res, S') \<and> authOk res \<and> authPeer res = Some r \<and> trust r = Verified"
proof -
  note E = honest_pairing [OF ref_session_laws test_pairing(1) honest_test_nodes(2) test_pairing(2-6), of 5 3]
  from E obtain inp res S' where r: "authenticateScannedPayload ref_lib 3 (encodeNodeIntroduction (own_introduction ref_lib 9 bob_node)) inp
      pairing_state = (res, S')" "authOk res"
    by (elim exE conjE) (metis chunks_nonempty completing_upt surj_pair)
  with pairing_outcome [OF r(1)] show ?thesis by blast
qed

text \<open>C31: Pairing with an honest peer succeeds. When the scanned node is in reach and answers, and the chunks of its
  two messages arrive, each message's in any order, the flow ends with success and the peer's key verified.\<close>

theorem pairing_succeeds:
  assumes "session_laws L" "honest_node L (localKeys inp)" "honest_node L b"
    and "publicKey (nodeIdentity b) \<noteq> publicKey (nodeIdentity (localKeys inp))"
    and "findNearbyPeer (peers inp) (nodeId (own_introduction L k b)) = Some peer"
    and "connectResult inp = Inr ()" "linkFailures inp = []"
    and "receiverInstalled S \<in> {None, Some (transportId inp)}"
  shows "\<exists>f1 f2 f3 f4 c2 c4 sb.
    respondToScannedPeer L j b None ''ble'' (wire [f1, f3])
      = (Done sb, \<lparr>inbox = [], outbox = [f2, f4], sendFailures = [], refuses = (\<lambda>_. None)\<rparr>) \<and>
    chunkFrame f2 DEFAULT_FRAME_MTU = Inr c2 \<and> chunkFrame f4 DEFAULT_FRAME_MTU = Inr c4 \<and>
    (\<forall>o2 o4 res S'. completing (length c2) o2 \<longrightarrow> completing (length c4) o4 \<longrightarrow>
      authenticateScannedPayload L i (encodeNodeIntroduction (own_introduction L k b))
        (inp\<lparr>arrivals := map (\<lambda>c. (transportId inp, mobilePeerId peer, c)) (map ((!) c2) o2 @ map ((!) c4) o4)\<rparr>) S = (res, S') \<longrightarrow>
      authOk res \<and> isVerified (KeyBytes (publicKey (nodeIdentity b))) (trustStore S'))"
  by (rule honest_pairing [OF assms])

theorem pairing_succeeds_witness:
  "\<exists>inp res S'. authenticateScannedPayload ref_lib 3 (encodeNodeIntroduction (own_introduction ref_lib 9 bob_node)) inp pairing_state
      = (res, S') \<and> authOk res \<and> isVerified (KeyBytes (publicKey bob)) (trustStore S')"
proof -
  have "publicKey (nodeIdentity bob_node) = publicKey bob" by (simp add: bob_node_def)
  with pairing_succeeds [OF ref_session_laws test_pairing(1) honest_test_nodes(2) test_pairing(2-6), of 5 3] show ?thesis
    by (elim exE conjE) (metis chunks_nonempty completing_upt surj_pair)
qed

text \<open>C33: The identifiers of the radio never match. Both native modules report a peer under an identifier of the system,
  an Android device address of 17 characters or an iOS UUID of 36; the flow looks for the 16 characters of the
  node id. With such peers only, it ends before any connection, every valid code of another device is answered
  with \<open>PEER_NOT_NEARBY\<close>, and nothing is recorded.\<close>

theorem native_ids_never_pair:
  assumes "hash_sizes L" "\<forall>p \<in> set (peers inp). length (mobilePeerId p) \<noteq> 16"
    and "authenticateScannedPayload L i raw inp S = (res, S')"
  shows "\<not> authOk res \<and> trustStore S' = trustStore S \<and> receiverInstalled S' = receiverInstalled S \<and>
    (\<forall>n. decodeNodeIntroduction L raw = Inr n \<and> introPublicKey n \<noteq> bytesToHex (publicKey (nodeIdentity (localKeys inp))) \<longrightarrow>
      failureCode res = Some ''PEER_NOT_NEARBY'')"
proof (cases "decodeNodeIntroduction L raw")
  case (Inl e)
  with assms(3) show ?thesis
    by (auto simp: authenticateScannedPayload_def tryDecodeNodeIntroduction_def failed_result_def Let_def split: intro_error.splits)
next
  case (Inr n)
  have "length (nodeId n) = 16"
    using accepted_introduction [OF Inr] assms(1) by (simp add: hash_sizesD)
  then have "findNearbyPeer (peers inp) (nodeId n) = None"
    using assms(2) unfolding findNearbyPeer_def find_None_iff by (metis length_to_lower)
  moreover have "tryDecodeNodeIntroduction L raw = Inr n" using Inr by (simp add: tryDecodeNodeIntroduction_def)
  ultimately show ?thesis
    using assms(3) Inr by (auto simp: authenticateScannedPayload_def failed_result_def Let_def split: if_splits)
qed

theorem native_ids_never_pair_witness:
  "failureCode (fst (authenticateScannedPayload ref_lib 3 (encodeNodeIntroduction (own_introduction ref_lib 9 bob_node))
     (pairing_input\<lparr>peers := [\<lparr>mobilePeerId = ''AA:BB:CC:DD:EE:FF'', address = ''AA:BB:CC:DD:EE:FF'', mobilePublicKey = None\<rparr>]\<rparr>)
     pairing_state)) = Some ''PEER_NOT_NEARBY''"
proof -
  let ?inp = "pairing_input\<lparr>peers := [\<lparr>mobilePeerId = ''AA:BB:CC:DD:EE:FF'', address = ''AA:BB:CC:DD:EE:FF'', mobilePublicKey = None\<rparr>]\<rparr>"
  let ?run = "authenticateScannedPayload ref_lib 3 (encodeNodeIntroduction (own_introduction ref_lib 9 bob_node)) ?inp pairing_state"
  have "\<forall>p \<in> set (peers ?inp). length (mobilePeerId p) \<noteq> 16" by simp
  from native_ids_never_pair [OF ref_hash_sizes this, of 3 "encodeNodeIntroduction (own_introduction ref_lib 9 bob_node)" pairing_state "fst ?run" "snd ?run"]
  show ?thesis
    using own_introduction_ok(2) [OF session_lawsD(2,3,5) [OF ref_session_laws] honest_test_nodes(2), of 9] test_pairing(2)
    by (simp add: own_introduction_def pairing_input_def)
qed

text \<open>The receiver stays with the transport object it was first installed on: frames that only another object reports
  are not heard, and the attempt cannot succeed.\<close>

lemma send_Done: "send_frame f w = (Done x, w') \<Longrightarrow> inbox w' = inbox w"
  by (auto simp: send_frame_def split: option.splits list.splits)

lemma receive_Done: "receive_frame w = (Done x, w') \<Longrightarrow> inbox w \<noteq> []"
  by (auto simp: receive_frame_def split: list.splits)

lemma waits_for_message:
  assumes "authenticateScannedPeer L i own target required w = (Done s, w')"
  shows "inbox w \<noteq> []"
proof -
  obtain f u w1 frame w2 where "send_frame f w = (Done u, w1)" "receive_frame w1 = (Done frame, w2)"
    using assms by (auto simp: authenticateScannedPeer_def assertUsable_def localIntroduction_def run_Done Let_def finish_run
        split: if_splits prod.splits)
  with send_Done receive_Done show ?thesis by metis
qed

theorem other_transport_not_heard:
  assumes "receiverInstalled S = Some t" "\<forall>(t', x) \<in> set (arrivals inp). t' \<noteq> t"
    and "authenticateScannedPayload L i raw inp S = (res, S')"
  shows "\<not> authOk res"
  using assms(3)
proof (cases rule: payload_cases)
  case (3 n peer S3)
  have "filter (\<lambda>(t', _). receiverInstalled S3 = Some t') (arrivals inp) = []"
    using assms(1,2) 3(5) by (auto simp: filter_empty_conv)
  then have "inbox (session_wire inp (mobilePeerId peer) S3) = []"
    by (simp add: session_wire_def new_channel_def arrived_def Let_def)
  moreover have "mget (peerRecords (trustStore S3)) (normalize_key (introPublicKey n)) \<noteq> None"
    using 3(4) after_introduce by simp
  ultimately show ?thesis using run_session_cases [OF 3(6)] waits_for_message by metis
qed

end
