(* ===== verification/MobileApp.thy ===== *)
theory MobileApp
  imports PeerAuth
begin

text \<open>
  The mobile application: the scanner of \<open>mobile/src/ScanQrScreen.tsx\<close> and the state and handlers of
  \<open>mobile/AppV2.tsx\<close>. What the platform answers (permissions, the native module, stored text, the link) is an
  argument of the handler that asks. A component's state changes between two renderings, so a handler sees the
  state the last one left. Screens are lists of the elements a user sees or taps; layout and colours are left
  out. The symbols of the interface that are not ASCII are constructors.
\<close>

section \<open>\<open>ScanQrScreen\<close>\<close>

datatype PermissionAnswer = Granted | Denied | NeverAskAgain

datatype CameraAnswer = AndroidAnswer PermissionAnswer | OtherAnswer bool | RequestThrew

record ScanScreen =
  hasPermission :: bool
  blocked :: bool
  captured :: bool
  manual :: string
  showManual :: bool

definition new_scan :: ScanScreen where
  "new_scan = \<lparr>hasPermission = False, blocked = False, captured = False, manual = [], showManual = False\<rparr>"

definition requestPermission :: "CameraAnswer \<Rightarrow> ScanScreen \<Rightarrow> ScanScreen" where
  "requestPermission answer s = (case answer of
     AndroidAnswer r \<Rightarrow> s\<lparr>hasPermission := (r = Granted), blocked := (r = NeverAskAgain)\<rparr>
   | OtherAnswer b \<Rightarrow> s\<lparr>hasPermission := b, blocked := False\<rparr>
   | RequestThrew \<Rightarrow> s\<lparr>hasPermission := False\<rparr>)"

text \<open>The first code with text in it, handed up by \<open>onCaptured\<close>. A code may lack its value.\<close>

definition onCodeScanned :: "string option list \<Rightarrow> ScanScreen \<Rightarrow> string option \<times> ScanScreen" where
  "onCodeScanned codes s =
     (if captured s then (None, s)
      else case find (\<lambda>v. case v of Some t \<Rightarrow> t \<noteq> [] | None \<Rightarrow> False) codes of
             Some (Some v) \<Rightarrow> (Some v, s\<lparr>captured := True\<rparr>)
           | _ \<Rightarrow> (None, s))"

definition trim :: "string \<Rightarrow> string" where
  "trim s = rev (dropWhile is_space (rev (dropWhile is_space s)))"

definition submit_manual :: "ScanScreen \<Rightarrow> string option \<times> ScanScreen" where
  "submit_manual s = (if trim (manual s) = [] then (None, s) else (Some (trim (manual s)), s\<lparr>captured := True\<rparr>))"

definition STAGE_LABEL :: "PeerAuthStage \<Rightarrow> string" where
  "STAGE_LABEL g = (case g of Idle \<Rightarrow> ''SCANNER READY'' | Scanning \<Rightarrow> ''POINT AT A ZAYCOMM CODE'' | Captured \<Rightarrow> ''CODE CAPTURED''
     | Validating \<Rightarrow> ''VALIDATING IDENTITY'' | Authenticating \<Rightarrow> ''AUTHENTICATING DEVICE'' | StageVerified \<Rightarrow> ''AUTHENTICATED''
     | StageFailed \<Rightarrow> ''NOT AUTHENTICATED'')"

datatype Tap = CloseTap | RetryTap | OpenSettingsTap | AllowCameraTap | SubmitTap | ShowManualTap

datatype Mark = Tick | Cross | Target

datatype Widget = Viewfinder | Spinner | Symbol Mark | Label string | Note string | Button string Tap | Input string

definition is_scanning :: "PeerAuthStage \<Rightarrow> ScanScreen \<Rightarrow> bool" where
  "is_scanning g s \<longleftrightarrow> \<not> captured s \<and> (g = Idle \<or> g = Scanning)"

definition is_busy :: "PeerAuthStage \<Rightarrow> bool" where
  "is_busy g \<longleftrightarrow> g = Captured \<or> g = Validating \<or> g = Authenticating"

definition optional_note :: "string option \<Rightarrow> Widget list" where
  "optional_note t = (case t of None \<Rightarrow> [] | Some [] \<Rightarrow> [] | Some m \<Rightarrow> [Note m])"

definition viewport :: "PeerAuthStage \<Rightarrow> PeerAuthResult option \<Rightarrow> ScanScreen \<Rightarrow> Widget list" where
  "viewport g result s =
     (if is_scanning g s \<and> hasPermission s then [Viewfinder]
      else if is_scanning g s then
        [Label ''CAMERA PERMISSION NEEDED'',
         Note (if blocked s then ''Android will not ask again. Enable Camera in Settings to scan.''
               else ''Zaycomm needs the camera to read a node code.''),
         if blocked s then Button ''OPEN SETTINGS'' OpenSettingsTap else Button ''ALLOW CAMERA'' AllowCameraTap]
      else [if is_busy g then Spinner
            else Symbol (if g = StageVerified then Tick else if g = StageFailed then Cross else Target),
            Label (STAGE_LABEL g)] @
        optional_note (Option.bind result authMessage) @ optional_note (Option.bind result failureCode))"

definition manual_entry :: "ScanScreen \<Rightarrow> Widget list" where
  "manual_entry s =
     (if showManual s
      then [Note ''For devices without a working camera. Paste a node code exactly as scanned.'', Input (manual s),
            Button ''AUTHENTICATE FROM CODE'' SubmitTap]
      else [Button ''ENTER CODE MANUALLY'' ShowManualTap])"

definition ScanQrScreen :: "PeerAuthStage \<Rightarrow> PeerAuthResult option \<Rightarrow> ScanScreen \<Rightarrow> Widget list" where
  "ScanQrScreen g result s =
     [Label ''NEARBY / SCAN'', Label ''Scan QR Code'', Button ''CLOSE'' CloseTap] @ viewport g result s @
     (if g = StageFailed then [Button ''SCAN AGAIN'' RetryTap] else []) @
     (if g = StageVerified then [Button ''DONE'' CloseTap] else []) @
     (if g = Idle \<or> g = Scanning then manual_entry s else [])"

section \<open>\<open>AppV2\<close>: state\<close>

datatype Theme = Dark | Light

datatype TransportState = IDLE | SCANNING | CONNECTED

datatype LogEntry =
    BootError
  | LinkUp string
  | LinkDown string
  | IdentityReady string
  | BridgeUnavailable
  | BleActive
  | BleError string
  | BleIdle
  | PeerAuthenticatedEntry string
  | AuthFailed string
  | IdentityReset

text \<open>\<open>scanner\<close> is the state of the mounted scanner, \<open>builtTransports\<close> counts the transport objects made.\<close>

record App =
  theme :: Theme
  nodeName :: string
  appIdentity :: "Identity option"
  appPair :: "NodeIntroduction option"
  nearbyPeers :: "MobilePeer list"
  linkedAddresses :: "string list"
  transportState :: TransportState
  errorText :: string
  activity :: "LogEntry list"
  appStaticKeys :: "X25519KeyPair option"
  scanOpen :: bool
  scanStage :: PeerAuthStage
  scanResult :: "PeerAuthResult option"
  auth :: PeerAuthState
  scanner :: "ScanScreen option"
  storage :: "(string, string) jsmap"
  appDraws :: nat
  builtTransports :: nat

definition IDENTITY_KEY :: string where "IDENTITY_KEY = ''zaycomm.identity''"
definition NAME_KEY :: string where "NAME_KEY = ''zaycomm.nodeName''"
definition THEME_KEY :: string where "THEME_KEY = ''zaycomm.theme''"

lemmas storage_keys = IDENTITY_KEY_def NAME_KEY_def THEME_KEY_def

definition new_app :: "(string, string) jsmap \<Rightarrow> nat \<Rightarrow> App" where
  "new_app stored i = \<lparr>theme = Dark, nodeName = ''Zaycomm Node'', appIdentity = None, appPair = None, nearbyPeers = [], linkedAddresses = [],
     transportState = IDLE, errorText = [], activity = [], appStaticKeys = None, scanOpen = False, scanStage = Idle, scanResult = None,
     auth = \<lparr>trustStore = new_trust_store, receiverInstalled = None, stages = []\<rparr>, scanner = None, storage = stored, appDraws = i,
     builtTransports = 0\<rparr>"

definition append_log :: "LogEntry \<Rightarrow> App \<Rightarrow> App" where
  "append_log x A = A\<lparr>activity := take 8 (x # activity A)\<rparr>"

section \<open>\<open>AppV2\<close>: identity\<close>

definition app_hex :: "bytes \<Rightarrow> string" where
  "app_hex b = concat (map (\<lambda>x. padStart 2 (CHR ''0'') (toString16 (unat x))) b)"

definition app_bytes :: "string \<Rightarrow> bytes" where
  "app_bytes s = map (\<lambda>i. parse_hex_byte (slice (i * 2) (i * 2 + 2) s)) [0..<length s div 2]"

text \<open>\<open>JSON.stringify\<close> of an object whose members are strings.\<close>

definition json_object :: "(string \<times> string) list \<Rightarrow> string" where
  "json_object ms = CHR ''{'' # join '','' (map (\<lambda>(k, v). json_quote k @ CHR '':'' # json_quote v) ms) @ ''}''"

text \<open>What the application reads back is what it stored: the members are strings.\<close>

definition text_member :: "(string \<times> jsval) list \<Rightarrow> string \<Rightarrow> string option" where
  "text_member fs k = (case obj_get fs k of JStr s \<Rightarrow> Some s | _ \<Rightarrow> None)"

definition text_members :: "(string \<times> jsval) list \<Rightarrow> (string \<times> string) list" where
  "text_members fs = concat (map (\<lambda>(k, v). case v of JStr s \<Rightarrow> [(k, s)] | _ \<Rightarrow> []) fs)"

definition restore_identity :: "lib \<Rightarrow> jsval \<Rightarrow> App \<Rightarrow> App" where
  "restore_identity L p A = (case p of
     JObj fs \<Rightarrow> (case (text_member fs ''publicKey'', text_member fs ''privateKey'') of
         (Some pk, Some sk) \<Rightarrow>
           (let idn = \<lparr>publicKey = app_bytes pk, privateKey = app_bytes sk\<rparr>;
                (keys, A1) = (case (truthy (text_member fs ''staticPrivate''), truthy (text_member fs ''staticPublic'')) of
                    (Some sp, Some su) \<Rightarrow> (\<lparr>xPrivateKey = app_bytes sp, xPublicKey = app_bytes su\<rparr>, A)
                  | _ \<Rightarrow> (let k = generateX25519KeyPair L (appDraws A)
                      in (k, A\<lparr>appDraws := appDraws A + 1, storage := mset_at IDENTITY_KEY (json_object
                            (mset_at ''staticPublic'' (app_hex (xPublicKey k)) (mset_at ''staticPrivate'' (app_hex (xPrivateKey k))
                              (text_members fs)))) (storage A)\<rparr>)));
                A2 = A1\<lparr>appIdentity := Some idn, appStaticKeys := Some keys\<rparr>
            in case createNodeIntroduction L (appDraws A2) idn (xPublicKey keys) None None of
                 Inl _ \<Rightarrow> append_log BootError A2
               | Inr n \<Rightarrow> A2\<lparr>appPair := Some n, appDraws := appDraws A2 + 1\<rparr>)
       | _ \<Rightarrow> append_log BootError A)
   | _ \<Rightarrow> append_log BootError A)"

definition boot :: "lib \<Rightarrow> App \<Rightarrow> App" where
  "boot L A =
     (let A1 = (if mget (storage A) THEME_KEY = Some ''light'' then A\<lparr>theme := Light\<rparr>
                else if mget (storage A) THEME_KEY = Some ''dark'' then A\<lparr>theme := Dark\<rparr> else A);
          A2 = (case truthy (mget (storage A) NAME_KEY) of None \<Rightarrow> A1 | Some n \<Rightarrow> A1\<lparr>nodeName := n\<rparr>)
      in case truthy (mget (storage A) IDENTITY_KEY) of
           None \<Rightarrow> A2
         | Some i \<Rightarrow> (case json_parse i of None \<Rightarrow> append_log BootError A2 | Some p \<Rightarrow> restore_identity L p A2))"

definition configure :: "lib \<Rightarrow> App \<Rightarrow> App" where
  "configure L A =
     (let idn = createIdentity L (appDraws A); sk = generateX25519KeyPair L (appDraws A + 1)
      in case createNodeIntroduction L (appDraws A + 2) idn (xPublicKey sk) None None of
           Inl _ \<Rightarrow> A\<lparr>appDraws := appDraws A + 2\<rparr>
         | Inr p \<Rightarrow> append_log (IdentityReady (nodeId p))
             (A\<lparr>appIdentity := Some idn, appStaticKeys := Some sk, appPair := Some p, appDraws := appDraws A + 3,
                storage := mset_at IDENTITY_KEY (json_object
                  [(''publicKey'', introPublicKey p), (''privateKey'', app_hex (privateKey idn)), (''nonce'', introNonce p),
                   (''staticPrivate'', app_hex (xPrivateKey sk)), (''staticPublic'', app_hex (xPublicKey sk))]) (storage A)\<rparr>))"

definition set_node_name :: "string \<Rightarrow> App \<Rightarrow> App" where
  "set_node_name v A = A\<lparr>nodeName := v, storage := mset_at NAME_KEY v (storage A)\<rparr>"

definition set_theme :: "Theme \<Rightarrow> App \<Rightarrow> App" where
  "set_theme t A = A\<lparr>theme := t, storage := mset_at THEME_KEY (case t of Dark \<Rightarrow> ''dark'' | Light \<Rightarrow> ''light'') (storage A)\<rparr>"

section \<open>\<open>AppV2\<close>: transport\<close>

text \<open>The version of Android, \<open>None\<close> elsewhere, and the answers to the three requests.\<close>

definition permissions :: "nat option \<Rightarrow> PermissionAnswer list \<Rightarrow> bool" where
  "permissions android answers = (case android of
     None \<Rightarrow> True | Some v \<Rightarrow> if v < 31 then True else list_all (\<lambda>r. r = Granted) answers)"

text \<open>\<open>String(e)\<close> of an error.\<close>

definition error_string :: "js_error \<Rightarrow> string" where
  "error_string e = (case e of Err s \<Rightarrow> ''Error: '' @ s | _ \<Rightarrow> [])"

definition start_transport :: "lib \<Rightarrow> bool \<Rightarrow> bool \<Rightarrow> unit res \<Rightarrow> App \<Rightarrow> App" where
  "start_transport L available permitted started A =
     (let A0 = A\<lparr>errorText := []\<rparr>
      in if appIdentity A0 = None \<or> appPair A0 = None then configure L A0
         else if \<not> available then append_log BridgeUnavailable A0
         else if \<not> permitted then A0\<lparr>errorText := ''Bluetooth permissions are required.''\<rparr>
         else case started of
           Inr _ \<Rightarrow> append_log BleActive (A0\<lparr>transportState := SCANNING\<rparr>)
         | Inl e \<Rightarrow> append_log (BleError (error_string e)) (A0\<lparr>transportState := IDLE, errorText := error_string e\<rparr>))"

definition stop_transport :: "App \<Rightarrow> App" where
  "stop_transport A = append_log BleIdle (A\<lparr>transportState := IDLE\<rparr>)"

definition on_advertisement :: "MobilePeer \<Rightarrow> App \<Rightarrow> App" where
  "on_advertisement p A =
     (if list_ex (\<lambda>x. address x = address p) (nearbyPeers A) then A else A\<lparr>nearbyPeers := nearbyPeers A @ [p]\<rparr>)"

text \<open>\<open>[...new Set(xs)]\<close> keeps the first of equal elements.\<close>

definition distinct_values :: "'a list \<Rightarrow> 'a list" where
  "distinct_values xs = rev (remdups (rev xs))"

definition on_connection :: "string \<Rightarrow> bool \<Rightarrow> App \<Rightarrow> App" where
  "on_connection addr up A =
     append_log (if up then LinkUp addr else LinkDown addr)
       (A\<lparr>linkedAddresses := if up then distinct_values (linkedAddresses A @ [addr]) else filter (\<lambda>x. x \<noteq> addr) (linkedAddresses A),
          transportState := if up then CONNECTED else IDLE\<rparr>)"

section \<open>\<open>AppV2\<close>: pairing\<close>

definition open_scan :: "App \<Rightarrow> App" where
  "open_scan A =
     (if appIdentity A = None \<or> appStaticKeys A = None \<or> appPair A = None
      then A\<lparr>errorText := ''Create this device's identity before scanning.''\<rparr>
      else A\<lparr>scanStage := Idle, scanResult := None, scanOpen := True,
             scanner := (case scanner A of None \<Rightarrow> Some new_scan | Some s \<Rightarrow> Some s)\<rparr>)"

definition close_scan :: "App \<Rightarrow> App" where
  "close_scan A = A\<lparr>scanOpen := False, scanStage := Idle, scanner := None\<rparr>"

definition retry_scan :: "App \<Rightarrow> App" where
  "retry_scan A = A\<lparr>scanStage := Idle, scanResult := None\<rparr>"

text \<open>What the device and the link do during one attempt.\<close>

record ScanInput =
  bridgeAvailable :: bool
  cameraGranted :: bool
  scanClock :: jsnum
  scanConnect :: "unit res"
  scanLinkFailures :: "js_error option list"
  scanArrivals :: "(nat \<times> string \<times> bytes) list"

definition run_scan :: "lib \<Rightarrow> string \<Rightarrow> ScanInput \<Rightarrow> App \<Rightarrow> App" where
  "run_scan L raw inp A = (case (appIdentity A, appStaticKeys A) of
     (Some idn, Some sk) \<Rightarrow>
       (if \<not> bridgeAvailable inp
        then A\<lparr>scanStage := StageFailed,
               scanResult := Some (failed_result ''NO_TRANSPORT'' ''Bluetooth bridge unavailable on this device.'' None)\<rparr>
        else if \<not> cameraGranted inp
        then A\<lparr>builtTransports := builtTransports A + 1, scanStage := StageFailed,
               scanResult := Some (failed_result ''NO_CAMERA_PERMISSION'' ''Camera permission is required to read a node code.'' None)\<rparr>
        else case authenticateScannedPayload L (appDraws A) raw
               \<lparr>transportId = builtTransports A, peers = nearbyPeers A, localKeys = \<lparr>nodeIdentity = idn, nodeStaticKeyPair = sk\<rparr>,
                clock = scanClock inp, connectResult = scanConnect inp, linkFailures = scanLinkFailures inp, arrivals = scanArrivals inp\<rparr>
               (auth A) of
             (out, S) \<Rightarrow> append_log (case (authOk out, authPeer out) of
                   (True, Some r) \<Rightarrow> PeerAuthenticatedEntry (recNodeId r)
                 | _ \<Rightarrow> AuthFailed (case failureCode out of None \<Rightarrow> ''UNKNOWN'' | Some c \<Rightarrow> c))
               (A\<lparr>auth := S, builtTransports := builtTransports A + 1, appDraws := appDraws A + 2,
                  scanStage := last (stages S), scanResult := Some out\<rparr>))
   | _ \<Rightarrow> A)"

text \<open>The scanner of the open screen: what the camera and the text field do, with \<open>onCaptured\<close> being \<open>run_scan\<close>.\<close>

datatype ScanAction = PermissionAnswered CameraAnswer | CodeScanned "string option list" | ManualChanged string
  | ManualShown | ManualSubmitted

definition scan_action :: "ScanAction \<Rightarrow> ScanScreen \<Rightarrow> string option \<times> ScanScreen" where
  "scan_action x s = (case x of
     PermissionAnswered a \<Rightarrow> (None, requestPermission a s)
   | CodeScanned codes \<Rightarrow> onCodeScanned codes s
   | ManualChanged t \<Rightarrow> (None, s\<lparr>manual := t\<rparr>)
   | ManualShown \<Rightarrow> (None, s\<lparr>showManual := True\<rparr>)
   | ManualSubmitted \<Rightarrow> submit_manual s)"

definition on_scanner :: "lib \<Rightarrow> ScanAction \<Rightarrow> ScanInput \<Rightarrow> App \<Rightarrow> App" where
  "on_scanner L x inp A = (case scanner A of
     None \<Rightarrow> A
   | Some s \<Rightarrow> (case scan_action x s of
       (None, s') \<Rightarrow> A\<lparr>scanner := Some s'\<rparr>
     | (Some raw, s') \<Rightarrow> run_scan L raw inp (A\<lparr>scanner := Some s'\<rparr>)))"

definition scan_widgets :: "App \<Rightarrow> Widget list" where
  "scan_widgets A = (case scanner A of None \<Rightarrow> [] | Some s \<Rightarrow> ScanQrScreen (scanStage A) (scanResult A) s)"

text \<open>The label of a nearby peer.\<close>

definition trust_label :: "App \<Rightarrow> MobilePeer \<Rightarrow> string option" where
  "trust_label A p = (case map_option trust (get_record (KeyHex (mobilePeerId p)) (trustStore (auth A))) of
     Some Verified \<Rightarrow> Some ''AUTHENTICATED'' | Some Introduced \<Rightarrow> Some ''NOT AUTHENTICATED'' | None \<Rightarrow> None)"

text \<open>The confirmed \<open>Regenerate identity?\<close>.\<close>

definition regenerate :: "App \<Rightarrow> App" where
  "regenerate A =
     (let A1 = stop_transport A
      in append_log IdentityReset (A1\<lparr>storage := mdel IDENTITY_KEY (storage A1), appIdentity := None, appPair := None\<rparr>))"

datatype AppEvent =
    Advertisement MobilePeer
  | Connection string bool
  | Start bool bool "unit res"
  | Stop
  | OpenScan
  | CloseScan
  | RetryScan
  | Scanner ScanAction ScanInput
  | Regenerate
  | ChangeName string
  | ChangeTheme Theme

fun app_step :: "lib \<Rightarrow> AppEvent \<Rightarrow> App \<Rightarrow> App" where
  "app_step L (Advertisement p) A = on_advertisement p A"
| "app_step L (Connection addr up) A = on_connection addr up A"
| "app_step L (Start available permitted started) A = start_transport L available permitted started A"
| "app_step L Stop A = stop_transport A"
| "app_step L OpenScan A = open_scan A"
| "app_step L CloseScan A = close_scan A"
| "app_step L RetryScan A = retry_scan A"
| "app_step L (Scanner x inp) A = on_scanner L x inp A"
| "app_step L Regenerate A = regenerate A"
| "app_step L (ChangeName v) A = set_node_name v A"
| "app_step L (ChangeTheme t) A = set_theme t A"

section \<open>The scanner after a capture\<close>

definition has_captured :: "App \<Rightarrow> bool" where
  "has_captured A \<longleftrightarrow> (\<exists>s. scanner A = Some s \<and> captured s)"

lemma append_log_simps [simp]:
  "scanner (append_log x A) = scanner A" "auth (append_log x A) = auth A" "linkedAddresses (append_log x A) = linkedAddresses A"
  "transportState (append_log x A) = transportState A" "storage (append_log x A) = storage A" "scanStage (append_log x A) = scanStage A"
  "appIdentity (append_log x A) = appIdentity A" "appStaticKeys (append_log x A) = appStaticKeys A" "appPair (append_log x A) = appPair A"
  by (simp_all add: append_log_def)

lemma configure_simps [simp]:
  "scanner (configure L A) = scanner A" "auth (configure L A) = auth A" "linkedAddresses (configure L A) = linkedAddresses A"
  by (simp_all add: configure_def Let_def split: sum.split)

lemma start_simps [simp]:
  "scanner (start_transport L a b c A) = scanner A" "auth (start_transport L a b c A) = auth A"
  "linkedAddresses (start_transport L a b c A) = linkedAddresses A"
  by (simp_all add: start_transport_def Let_def split: sum.split)

lemma run_scan_scanner [simp]: "scanner (run_scan L raw inp A) = scanner A"
  by (simp add: run_scan_def split: option.split prod.split)

lemma run_scan_links [simp]: "linkedAddresses (run_scan L raw inp A) = linkedAddresses A"
  by (simp add: run_scan_def split: option.split prod.split)

lemma action_keeps_capture: "captured s \<Longrightarrow> captured (snd (scan_action x s))"
  by (cases x) (simp_all add: scan_action_def requestPermission_def onCodeScanned_def submit_manual_def split: CameraAnswer.split)

lemma step_keeps_capture:
  assumes "has_captured A" "x \<noteq> CloseScan"
  shows "has_captured (app_step L x A)"
proof (cases x)
  case (Scanner act inp)
  obtain s where s: "scanner A = Some s" "captured s" using assms(1) by (auto simp: has_captured_def)
  obtain r s' where r: "scan_action act s = (r, s')" by (cases "scan_action act s")
  with action_keeps_capture [OF s(2), of act] have "captured s'" by simp
  with s r show ?thesis by (cases r) (simp_all add: Scanner on_scanner_def has_captured_def)
qed (use assms in \<open>auto simp: has_captured_def on_advertisement_def on_connection_def stop_transport_def open_scan_def retry_scan_def
    regenerate_def set_node_name_def set_theme_def Let_def\<close>)

lemma steps_keep_capture: "has_captured A \<Longrightarrow> CloseScan \<notin> set evs \<Longrightarrow> has_captured (fold (app_step L) evs A)"
  by (induction evs arbitrary: A) (auto simp: step_keeps_capture simp del: app_step.simps)

lemma no_viewfinder: "captured s \<Longrightarrow> Viewfinder \<notin> set (ScanQrScreen g r s)"
  by (auto simp: ScanQrScreen_def viewport_def is_scanning_def manual_entry_def optional_note_def split: option.splits list.splits)

section \<open>Links and labels\<close>

fun link_follows :: "string \<Rightarrow> AppEvent \<Rightarrow> bool \<Rightarrow> bool" where
  "link_follows addr (Connection a up) b = (if a = addr then up else b)"
| "link_follows addr _ b = b"

lemma set_distinct_values [simp]: "set (distinct_values xs) = set xs"
  by (simp add: distinct_values_def)

lemma step_links:
  "addr \<in> set (linkedAddresses (app_step L x A)) \<longleftrightarrow> link_follows addr x (addr \<in> set (linkedAddresses A))"
  by (cases x) (auto simp: on_advertisement_def on_connection_def stop_transport_def open_scan_def close_scan_def retry_scan_def
      regenerate_def set_node_name_def set_theme_def on_scanner_def Let_def split: option.split prod.split)

interpretation app_links: keyed_automaton "\<lambda>A addr. addr \<in> set (linkedAddresses A)" "app_step L" link_follows "\<lambda>_. True" "\<lambda>_. True" for L
  by unfold_locales (simp_all add: step_links del: app_step.simps)

text \<open>Records are kept under identity keys in hexadecimal.\<close>

definition keys_long :: "PeerTrustStore \<Rightarrow> bool" where
  "keys_long T \<longleftrightarrow> (\<forall>k. get_record k T \<noteq> None \<longrightarrow> length (key_of k) = 64)"

lemma keys_long_markFailed: "keys_long T \<Longrightarrow> keys_long (markFailed k reason T)"
  by (auto simp: keys_long_def get_record_def markFailed_def Let_def split: option.splits if_splits)

lemma decoded_length:
  assumes "decodeNodeIntroduction L raw = Inr n"
  shows "length (introPublicKey n) = 64"
proof -
  have "introPublicKey n = bytesToHex (introducedIdentityPublicKey n)" "length (introducedIdentityPublicKey n) = 32"
    using accepted_introduction [OF assms] by blast+
  then show ?thesis by (metis length_bytesToHex mult_2 numeral_Bit0)
qed

lemma keys_long_introduce:
  assumes "keys_long T" "decodeNodeIntroduction L raw = Inr n"
  shows "keys_long (snd (introduce n t T))"
proof -
  have "length (introPublicKey n) = 64" by (rule decoded_length [OF assms(2)])
  with assms(1) show ?thesis by (auto simp: keys_long_def get_record_def introduce_def Let_def normalize_key_def to_lower_def)
qed

lemma keys_long_payload:
  assumes "keys_long (trustStore S)" "authenticateScannedPayload L i raw inp S = (res, S')"
  shows "keys_long (trustStore S')"
  using assms(2)
proof (cases rule: payload_cases)
  case 1
  with assms(1) show ?thesis by simp
next
  case (2 n)
  with keys_long_markFailed [OF keys_long_introduce [OF assms(1) 2(1)]] show ?thesis by simp
next
  case (3 n peer S3)
  have S3: "keys_long (trustStore S3)" using keys_long_introduce [OF assms(1) 3(1)] 3(4) by simp
  have "mget (peerRecords (trustStore S3)) (normalize_key (introPublicKey n)) \<noteq> None" using after_introduce 3(4) by simp
  from run_session_cases [OF 3(6) this] show ?thesis
  proof cases
    case (1 s w)
    have len: "length (normalize_key (introPublicKey n)) = 64" using decoded_length [OF 3(1)] by (simp add: normalize_key_def to_lower_def)
    show ?thesis
      unfolding keys_long_def
    proof (intro allI impI)
      fix k assume "get_record k (trustStore S') \<noteq> None"
      then show "length (key_of k) = 64"
        using 1(6) [of k] S3 len unfolding keys_long_def by (cases "key_of k = normalize_key (introPublicKey n)") auto
    qed
  next
    case (2 code)
    with keys_long_markFailed [OF S3] show ?thesis by simp
  qed
qed

section \<open>Stored identities\<close>

abbreviation member_text :: "string \<times> string \<Rightarrow> string" where
  "member_text m \<equiv> json_quote (fst m) @ CHR '':'' # json_quote (snd m)"

abbreviation text_values :: "(string \<times> string) list \<Rightarrow> (string \<times> jsval) list" where
  "text_values ms \<equiv> map (\<lambda>(k, v). (k, JStr v)) ms"

lemma join_Cons: "xs \<noteq> [] \<Longrightarrow> join s (x # xs) = x @ s @ join s xs"
  by (cases xs) simp_all

lemma json_members_texts:
  assumes "ms \<noteq> []" "distinct (map fst acc @ map fst ms)"
  shows "json_members (length ms + Suc f) acc (join '','' (map member_text ms) @ CHR ''}'' # r) = Some (acc @ text_values ms, r)"
  using assms
proof (induction ms arbitrary: acc)
  case (Cons m ms)
  obtain k v where m: "m = (k, v)" by (cases m)
  have new: "mset_at k (JStr v) acc = acc @ [(k, JStr v)]"
    using Cons.prems(2) by (intro mset_at_append_new) (force simp: m mhas_def dest: map_of_SomeD)
  show ?case
  proof (cases "ms = []")
    case True
    then show ?thesis by (simp add: m new)
  next
    case False
    have "json_members (length ms + Suc f) (acc @ [(k, JStr v)]) (join '','' (map member_text ms) @ CHR ''}'' # r)
        = Some ((acc @ [(k, JStr v)]) @ text_values ms, r)"
      using Cons.prems(2) False by (intro Cons.IH) (auto simp: m)
    moreover obtain g where "length ms + Suc f = Suc g" by auto
    ultimately show ?thesis using False by (simp add: m new join_Cons)
  qed
qed simp

lemma json_object_parse:
  assumes "ms \<noteq> []" "distinct (map fst ms)"
  shows "json_parse (json_object ms) = Some (JObj (text_values ms))"
proof -
  let ?s = "json_object ms" and ?body = "join '','' (map member_text ms) @ ''}''"
  have s: "?s = CHR ''{'' # ?body" by (simp add: json_object_def case_prod_beta')
  define f where "f = json_fuel ?s"
  have "json_members (length ms + Suc f) [] ?body = Some (text_values ms, [])"
    using json_members_texts [OF assms(1), of "[]" f "[]"] assms(2) by simp
  moreover obtain k t where t: "?body = json_quote k @ t" using assms(1) by (cases ms; cases "tl ms") auto
  ultimately show ?thesis
    using json_parse_members [of "length ms + Suc f" k t "text_values ms"] unfolding s by (simp add: f_def s del: json_members.simps)
qed

lemma app_hex_eq [simp]: "app_hex b = bytesToHex b"
  by (simp add: app_hex_def bytesToHex_def)

lemma app_bytes_hex [simp]: "app_bytes (bytesToHex b) = b"
  using hexToBytes_hex [of b] by (simp only: app_bytes_def hexToBytes_def)

lemma boot_restores:
  assumes "mget (storage A) IDENTITY_KEY = Some i" "truthy (Some i) = Some i" "json_parse i = Some p"
  shows "\<exists>A2. boot L A = restore_identity L p A2 \<and> storage A2 = storage A"
proof -
  let ?A1 = "if mget (storage A) THEME_KEY = Some ''light'' then A\<lparr>theme := Light\<rparr>
      else if mget (storage A) THEME_KEY = Some ''dark'' then A\<lparr>theme := Dark\<rparr> else A"
  let ?A2 = "case truthy (mget (storage A) NAME_KEY) of None \<Rightarrow> ?A1 | Some n \<Rightarrow> ?A1\<lparr>nodeName := n\<rparr>"
  have "storage ?A2 = storage A" by (cases "truthy (mget (storage A) NAME_KEY)") simp_all
  moreover have "boot L A = restore_identity L p ?A2" by (simp only: boot_def Let_def assms option.case)
  ultimately show ?thesis by blast
qed

lemma restore_members:
  assumes "text_member fs ''publicKey'' = Some pk" "text_member fs ''privateKey'' = Some sk"
    and "truthy (text_member fs ''staticPrivate'') = Some sp" "truthy (text_member fs ''staticPublic'') = Some su"
    and "createNodeIntroduction L (appDraws A) \<lparr>publicKey = app_bytes pk, privateKey = app_bytes sk\<rparr> (app_bytes su) None None = Inr n"
  shows "restore_identity L (JObj fs) A = A\<lparr>appIdentity := Some \<lparr>publicKey = app_bytes pk, privateKey = app_bytes sk\<rparr>,
    appStaticKeys := Some \<lparr>xPrivateKey = app_bytes sp, xPublicKey = app_bytes su\<rparr>, appPair := Some n, appDraws := appDraws A + 1\<rparr>"
  using assms by (simp add: restore_identity_def Let_def)

text \<open>The introduction the application makes for an identity, and what it stores of it.\<close>

definition own_introduction :: "lib \<Rightarrow> nat \<Rightarrow> Identity \<Rightarrow> X25519KeyPair \<Rightarrow> NodeIntroduction" where
  "own_introduction L i idn sk = \<lparr>introScheme = INTRODUCTION_SCHEME, introVersion = INTRODUCTION_VERSION,
     nodeId = deriveNodeId L (publicKey idn), introPublicKey = bytesToHex (publicKey idn), introStaticKey = bytesToHex (xPublicKey sk),
     capabilities = [''ble''], introNonce = bytesToHex (random_bytes L i NONCE_LENGTH)\<rparr>"

definition identity_text :: "Identity \<Rightarrow> X25519KeyPair \<Rightarrow> string \<Rightarrow> string" where
  "identity_text idn sk nonce = json_object [(''publicKey'', bytesToHex (publicKey idn)), (''privateKey'', bytesToHex (privateKey idn)),
     (''nonce'', nonce), (''staticPrivate'', bytesToHex (xPrivateKey sk)), (''staticPublic'', bytesToHex (xPublicKey sk))]"

definition usable_keys :: "Identity \<Rightarrow> X25519KeyPair \<Rightarrow> bool" where
  "usable_keys idn sk \<longleftrightarrow> length (publicKey idn) = 32 \<and> length (xPrivateKey sk) = 32 \<and> length (xPublicKey sk) = 32"

lemma new_introduction:
  "length (xPublicKey sk) = 32 \<Longrightarrow> createNodeIntroduction L i idn (xPublicKey sk) None None = Inr (own_introduction L i idn sk)"
  by (simp add: createNodeIntroduction_def introduction_constants own_introduction_def)

lemma fresh_static_keys:
  assumes "hash_sizes L" "x25519_commutes L"
  shows "length (xPrivateKey (generateX25519KeyPair L i)) = 32" "length (xPublicKey (generateX25519KeyPair L i)) = 32"
proof -
  have "length (x_public L a) = 32" if "length a = 32" for a using assms(2) that unfolding x25519_commutes_def by blast
  then show "length (xPrivateKey (generateX25519KeyPair L i)) = 32" "length (xPublicKey (generateX25519KeyPair L i)) = 32"
    using hash_sizesD(4) [OF assms(1)] by (simp_all add: generateX25519KeyPair_def Let_def)
qed

lemma configured_app:
  assumes "hash_sizes L" "x25519_commutes L"
  defines "idn A \<equiv> createIdentity L (appDraws A)" and "sk A \<equiv> generateX25519KeyPair L (appDraws A + 1)"
  shows "appIdentity (configure L A) = Some (idn A)" "appStaticKeys (configure L A) = Some (sk A)"
    "appPair (configure L A) = Some (own_introduction L (appDraws A + 2) (idn A) (sk A))"
    "storage (configure L A) = mset_at IDENTITY_KEY
      (identity_text (idn A) (sk A) (bytesToHex (random_bytes L (appDraws A + 2) NONCE_LENGTH))) (storage A)"
  using new_introduction [OF fresh_static_keys(2) [OF assms(1,2)]]
  by (simp_all add: configure_def Let_def append_log_def idn_def sk_def identity_text_def) (simp_all add: own_introduction_def)

lemma boot_stored:
  assumes "length (xPrivateKey sk) = 32" "length (xPublicKey sk) = 32" "mget stored IDENTITY_KEY = Some (identity_text idn sk nonce)"
  shows "\<exists>j. appIdentity (boot L (new_app stored i)) = Some idn \<and> appStaticKeys (boot L (new_app stored i)) = Some sk \<and>
    appPair (boot L (new_app stored i)) = Some (own_introduction L j idn sk) \<and> storage (boot L (new_app stored i)) = stored"
proof -
  let ?ms = "[(''publicKey'', bytesToHex (publicKey idn)), (''privateKey'', bytesToHex (privateKey idn)), (''nonce'', nonce),
    (''staticPrivate'', bytesToHex (xPrivateKey sk)), (''staticPublic'', bytesToHex (xPublicKey sk))]"
  have parse: "json_parse (identity_text idn sk nonce) = Some (JObj (text_values ?ms))"
    unfolding identity_text_def by (rule json_object_parse) simp_all
  have obj: "truthy (Some (identity_text idn sk nonce)) = Some (identity_text idn sk nonce)"
    by (simp add: truthy_def identity_text_def json_object_def)
  have "mget (storage (new_app stored i)) IDENTITY_KEY = Some (identity_text idn sk nonce)" by (simp add: new_app_def assms(3))
  from boot_restores [OF this obj parse, of L] obtain A2
    where A2: "boot L (new_app stored i) = restore_identity L (JObj (text_values ?ms)) A2" "storage A2 = stored"
    by (auto simp: new_app_def)
  have some: "truthy (Some (bytesToHex b)) = Some (bytesToHex b)" if "length b = 32" for b
    using that by (cases b) (simp_all add: truthy_def)
  have members: "text_member (text_values ?ms) ''publicKey'' = Some (bytesToHex (publicKey idn))"
    "text_member (text_values ?ms) ''privateKey'' = Some (bytesToHex (privateKey idn))"
    "truthy (text_member (text_values ?ms) ''staticPrivate'') = Some (bytesToHex (xPrivateKey sk))"
    "truthy (text_member (text_values ?ms) ''staticPublic'') = Some (bytesToHex (xPublicKey sk))"
    using some assms(1,2) by (simp_all add: text_member_def obj_get_def)
  have again: "\<lparr>publicKey = app_bytes (bytesToHex (publicKey idn)), privateKey = app_bytes (bytesToHex (privateKey idn))\<rparr> = idn"
    "app_bytes (bytesToHex (xPublicKey sk)) = xPublicKey sk" "\<lparr>xPrivateKey = app_bytes (bytesToHex (xPrivateKey sk)), xPublicKey = xPublicKey sk\<rparr> = sk"
    by simp_all
  show ?thesis
    using restore_members [OF members, of L A2 "own_introduction L (appDraws A2) idn sk"] new_introduction [OF assms(2)]
    unfolding A2(1) again by (intro exI [of _ "appDraws A2"]) (simp add: A2(2))
qed

lemma boot_auth [simp]: "auth (boot L A) = auth A"
proof -
  have r: "auth (restore_identity L p A) = auth A" for p A
    by (simp add: restore_identity_def Let_def case_prod_beta split: jsval.split option.split sum.split)
  show ?thesis by (simp add: boot_def Let_def r split: option.split)
qed

lemma run_scan_keys:
  assumes "keys_long (trustStore (auth A))"
  shows "keys_long (trustStore (auth (run_scan L raw inp A)))"
proof (cases "appIdentity A = None \<or> appStaticKeys A = None \<or> \<not> bridgeAvailable inp \<or> \<not> cameraGranted inp")
  case True
  with assms show ?thesis by (auto simp: run_scan_def split: option.split)
next
  case False
  then obtain idn sk where k: "appIdentity A = Some idn" "appStaticKeys A = Some sk" by auto
  let ?inp = "\<lparr>transportId = builtTransports A, peers = nearbyPeers A, localKeys = \<lparr>nodeIdentity = idn, nodeStaticKeyPair = sk\<rparr>,
    clock = scanClock inp, connectResult = scanConnect inp, linkFailures = scanLinkFailures inp, arrivals = scanArrivals inp\<rparr>"
  obtain out S where o: "authenticateScannedPayload L (appDraws A) raw ?inp (auth A) = (out, S)"
    by (cases "authenticateScannedPayload L (appDraws A) raw ?inp (auth A)")
  with keys_long_payload [OF assms o] False k show ?thesis by (simp add: run_scan_def)
qed

lemma step_keys:
  assumes "keys_long (trustStore (auth A))"
  shows "keys_long (trustStore (auth (app_step L x A)))"
proof (cases x)
  case (Scanner act inp)
  with assms show ?thesis by (auto simp: on_scanner_def intro: run_scan_keys split: option.split prod.split)
qed (use assms in \<open>simp_all add: on_advertisement_def on_connection_def stop_transport_def open_scan_def close_scan_def retry_scan_def
    regenerate_def set_node_name_def set_theme_def Let_def\<close>)

section \<open>The identity in use\<close>

definition keeps_identity :: "App \<Rightarrow> App \<Rightarrow> bool" where
  "keeps_identity A B \<longleftrightarrow> appIdentity B = appIdentity A \<and> appStaticKeys B = appStaticKeys A \<and> appPair B = appPair A \<and>
     mget (storage B) IDENTITY_KEY = mget (storage A) IDENTITY_KEY"

lemma run_scan_keeps: "keeps_identity A (run_scan L raw inp A)"
  by (simp add: run_scan_def keeps_identity_def split: option.split prod.split)

lemma keeps_identity_step:
  assumes "x \<noteq> Regenerate" "\<forall>a b r. x \<noteq> Start a b r"
  shows "keeps_identity A (app_step L x A)"
proof (cases x)
  case (Scanner act inp)
  obtain s where "scanner A = None \<or> scanner A = Some s" by (cases "scanner A") auto
  moreover obtain r s' where "scan_action act s = (r, s')" by (cases "scan_action act s")
  ultimately show ?thesis
    using run_scan_keeps [of "A\<lparr>scanner := Some s'\<rparr>" L _ inp]
    by (cases r) (auto simp: Scanner on_scanner_def keeps_identity_def)
qed (use assms in \<open>auto simp: keeps_identity_def on_advertisement_def on_connection_def stop_transport_def open_scan_def
    close_scan_def retry_scan_def set_node_name_def set_theme_def storage_keys Let_def\<close>)

lemma step_keeps_identity:
  assumes "x \<noteq> Regenerate" "appIdentity A \<noteq> None" "appPair A \<noteq> None"
  shows "keeps_identity A (app_step L x A)"
proof (cases "\<exists>a b r. x = Start a b r")
  case True
  with assms show ?thesis by (auto simp: keeps_identity_def start_transport_def Let_def split: sum.split)
next
  case False
  with assms(1) show ?thesis by (intro keeps_identity_step) auto
qed

lemma steps_keep_identity:
  assumes "Regenerate \<notin> set evs" "appIdentity A \<noteq> None" "appPair A \<noteq> None"
  shows "keeps_identity A (fold (app_step L) evs A)"
  using assms
proof (induction evs arbitrary: A)
  case (Cons x evs)
  have "keeps_identity A (app_step L x A)" using Cons.prems by (intro step_keeps_identity) auto
  with Cons.IH [of "app_step L x A"] Cons.prems show ?case by (simp add: keeps_identity_def del: app_step.simps)
qed (simp add: keeps_identity_def)

section \<open>Properties\<close>

text \<open>C36: An identity survives a restart. Whatever happens after the application created its identity, unless it is
  regenerated, the application keeps it, and a later start on the storage it left has the same identity and static
  keys and shows the same introduction but for a new nonce.\<close>

theorem identity_survives_restart:
  assumes "hash_sizes L" "x25519_commutes L" "B = configure L A" "Regenerate \<notin> set evs" "D = fold (app_step L) evs B"
    and "C = boot L (new_app (storage D) i)"
  shows "appIdentity C = appIdentity B \<and> appStaticKeys C = appStaticKeys B \<and> appIdentity B \<noteq> None \<and>
    appIdentity D = appIdentity B \<and> appPair D = appPair B \<and>
    (\<exists>p nonce. appPair B = Some p \<and> appPair C = Some (p\<lparr>introNonce := nonce\<rparr>))"
proof -
  let ?idn = "createIdentity L (appDraws A)" and ?sk = "generateX25519KeyPair L (appDraws A + 1)"
  note B = configured_app [OF assms(1,2), of A, folded assms(3)]
  have D: "keeps_identity B D" unfolding assms(5) using assms(4) B by (intro steps_keep_identity) simp_all
  then have "mget (storage D) IDENTITY_KEY = Some (identity_text ?idn ?sk (bytesToHex (random_bytes L (appDraws A + 2) NONCE_LENGTH)))"
    by (simp add: keeps_identity_def B)
  from boot_stored [OF fresh_static_keys [OF assms(1,2)] this, of L i, folded assms(6)]
  obtain j where C: "appIdentity C = Some ?idn" "appStaticKeys C = Some ?sk" "appPair C = Some (own_introduction L j ?idn ?sk)" by blast
  have "own_introduction L j ?idn ?sk = (own_introduction L (appDraws A + 2) ?idn ?sk)\<lparr>introNonce := introNonce (own_introduction L j ?idn ?sk)\<rparr>"
    by (simp add: own_introduction_def)
  with B C D show ?thesis by (simp add: keeps_identity_def) metis
qed

theorem identity_survives_restart_witness:
  "\<exists>B C. B = configure ref_lib (new_app [] 0) \<and>
    C = boot ref_lib (new_app (storage (fold (app_step ref_lib) [ChangeName ''n'', Start True True (Inr ())] B)) 7) \<and>
    appIdentity C = Some (createIdentity ref_lib 0) \<and> appIdentity C = appIdentity B"
  using identity_survives_restart [OF ref_hash_sizes ref_x25519_commutes refl _ refl refl, of "[ChangeName ''n'', Start True True (Inr ())]" "new_app [] 0" 7]
  by (auto simp: configure_def Let_def new_app_def append_log_def split: sum.splits)

text \<open>Scanning again does not work. Once the scanner has captured a code, tapping \<open>SCAN AGAIN\<close> takes the stage
  back to the start, but whatever happens until the screen is closed, the camera view is not shown again and a code
  before the camera is ignored.\<close>

theorem scan_again_dead_end:
  assumes "scanner A = Some s" "captured s" "CloseScan \<notin> set evs" "B = fold (app_step L) evs (app_step L RetryScan A)"
  shows "scanStage (app_step L RetryScan A) = Idle \<and> scan_widgets B \<noteq> [] \<and> Viewfinder \<notin> set (scan_widgets B) \<and>
    app_step L (Scanner (CodeScanned codes) inp) B = B"
proof -
  have "has_captured (app_step L RetryScan A)" using assms(1,2) by (intro step_keeps_capture) (auto simp: has_captured_def)
  then have "has_captured B" unfolding assms(4) using assms(3) by (rule steps_keep_capture)
  then obtain s' where s': "scanner B = Some s'" "captured s'" by (auto simp: has_captured_def)
  have "B\<lparr>scanner := Some s'\<rparr> = B" using s'(1) by (metis App.surjective App.update_convs(15))
  with s' no_viewfinder [OF s'(2)] show ?thesis
    by (simp add: scan_widgets_def on_scanner_def scan_action_def onCodeScanned_def retry_scan_def) (simp add: ScanQrScreen_def)
qed

definition scan_input :: ScanInput where
  "scan_input = \<lparr>bridgeAvailable = True, cameraGranted = True, scanClock = Num 0, scanConnect = Inr (), scanLinkFailures = [], scanArrivals = []\<rparr>"

lemma configured:
  assumes "hash_sizes L" "x25519_commutes L"
  shows "appIdentity (configure L A) \<noteq> None \<and> appStaticKeys (configure L A) \<noteq> None \<and> appPair (configure L A) \<noteq> None"
  by (simp add: configured_app [OF assms])

lemma blank_capture:
  assumes "appIdentity A \<noteq> None \<and> appStaticKeys A \<noteq> None \<and> appPair A \<noteq> None" "scanner A = None"
    and "B = fold (app_step L) [OpenScan, Scanner (PermissionAnswered (AndroidAnswer Granted)) scan_input,
      Scanner (CodeScanned [Some '' '']) scan_input] A"
  shows "scanner B = Some (new_scan\<lparr>hasPermission := True, blocked := False, captured := True\<rparr>) \<and> scanStage B = StageFailed"
proof -
  obtain idn sk p where A: "appIdentity A = Some idn" "appStaticKeys A = Some sk" "appPair A = Some p" using assms(1) by auto
  have "decodeNodeIntroduction L '' '' = introduction_error QR_EMPTY ''No QR payload was captured.''"
    by (simp add: decodeNodeIntroduction_def is_space_def)
  then obtain c msg where d: "tryDecodeNodeIntroduction L '' '' = Inl (c, msg)"
    by (simp add: tryDecodeNodeIntroduction_def introduction_error_def)
  let ?A2 = "A\<lparr>scanStage := Idle, scanResult := None, scanOpen := True, scanner := Some (new_scan\<lparr>hasPermission := True, blocked := False\<rparr>)\<rparr>"
  have 2: "fold (app_step L) [OpenScan, Scanner (PermissionAnswered (AndroidAnswer Granted)) scan_input] A = ?A2"
    using A assms(2) by (simp add: open_scan_def on_scanner_def scan_action_def requestPermission_def)
  have "B = run_scan L '' '' scan_input (?A2\<lparr>scanner := Some (new_scan\<lparr>hasPermission := True, blocked := False, captured := True\<rparr>)\<rparr>)"
    using 2 unfolding assms(3) by (simp add: on_scanner_def scan_action_def onCodeScanned_def new_scan_def)
  with A d show ?thesis
    by (simp add: run_scan_def scan_input_def authenticateScannedPayload_def Let_def onStage_def)
qed

text \<open>The user opens the scanner, allows the camera, scans a code that is no introduction and tries again.\<close>

theorem scan_again_dead_end_witness:
  "\<exists>A s. A = fold (app_step ref_lib) [OpenScan, Scanner (PermissionAnswered (AndroidAnswer Granted)) scan_input,
      Scanner (CodeScanned [Some '' '']) scan_input] (configure ref_lib (new_app [] 0)) \<and>
    scanner A = Some s \<and> scanStage A = StageFailed \<and> Viewfinder \<notin> set (scan_widgets (app_step ref_lib RetryScan A))"
proof -
  let ?start = "configure ref_lib (new_app [] 0)"
  define A where "A = fold (app_step ref_lib) [OpenScan, Scanner (PermissionAnswered (AndroidAnswer Granted)) scan_input,
      Scanner (CodeScanned [Some '' '']) scan_input] ?start"
  have "scanner ?start = None" by (simp add: new_app_def)
  note c = blank_capture [OF configured [OF ref_hash_sizes ref_x25519_commutes, of "new_app [] 0"] this A_def]
  have "Viewfinder \<notin> set (scan_widgets (app_step ref_lib RetryScan A))"
    using scan_again_dead_end [OF c [THEN conjunct1] _ _ refl, of "[]" ref_lib] by (simp del: app_step.simps)
  with c show ?thesis unfolding A_def by (intro exI conjI) (rule refl, rule conjunct1, assumption, rule conjunct2, assumption, assumption)
qed

text \<open>The trust of a nearby peer is never shown. The records are kept under identity keys of 64 hexadecimal digits
  while the list of nearby peers looks them up under the id the radio reports: for any id of another length no
  label is shown, whoever was authenticated.\<close>

theorem trust_label_never_shown:
  assumes "A = fold (app_step L) evs (boot L (new_app stored i))" "length (mobilePeerId p) \<noteq> 64"
  shows "trust_label A p = None"
proof -
  have "keys_long (trustStore (auth (fold (app_step L) evs A)))" if "keys_long (trustStore (auth A))" for evs A
    using that by (induction evs arbitrary: A) (simp_all add: step_keys del: app_step.simps)
  from this [of "boot L (new_app stored i)" evs] have "keys_long (trustStore (auth A))"
    unfolding assms(1) by (simp add: new_app_def keys_long_def new_trust_store_def get_record_def)
  then have "get_record (KeyHex (mobilePeerId p)) (trustStore (auth A)) = None"
    using assms(2) by (auto simp: keys_long_def key_of_def normalize_key_def to_lower_def)
  then show ?thesis by (simp add: trust_label_def)
qed

theorem trust_label_never_shown_witness:
  "trust_label (fold (app_step ref_lib) [Start True True (Inr ()), OpenScan] (boot ref_lib (new_app [] 0)))
    \<lparr>mobilePeerId = ''AA:BB:CC:DD:EE:FF'', address = ''AA:BB:CC:DD:EE:FF'', mobilePublicKey = None\<rparr> = None"
  by (rule trust_label_never_shown [OF refl]) simp

text \<open>A transport made for one scan cannot send until it hears the peer itself. Whatever frames and connection
  events reach it, a new adapter refuses every frame while no advertisement came after its construction, although
  the application already knows the peer from earlier advertisements.\<close>

theorem fresh_transport_refuses:
  assumes "\<forall>p. OnAdvertisement p \<notin> set es" "T = fold android_event es new_ble"
  shows "android_send pid frame r T = (Inl (Err (''BLE peer is not connected: '' @ pid)), T)"
proof -
  have "blePeers (fold android_event es T0) = []" if "blePeers T0 = []" for T0
    using that assms(1)
  proof (induction es arbitrary: T0)
    case (Cons e es)
    then have "blePeers (android_event e T0) = []" by (cases e) (auto simp: android_event_def peer_at_def)
    with Cons show ?case by simp
  qed simp
  then show ?thesis by (simp add: assms(2) new_ble_def android_send_def)
qed

theorem fresh_transport_refuses_witness:
  "fst (android_send ''b'' [1] (Inr ()) (fold android_event [OnConnectionChanged ''AA:BB'' True] new_ble))
    = Inl (Err ''BLE peer is not connected: b'')"
  using fresh_transport_refuses [of "[OnConnectionChanged ''AA:BB'' True]" _ "''b''" "[1]" "Inr ()"] by simp

text \<open>The screen reports an idle transport although a link is up: the state follows the last connection event alone.\<close>

theorem idle_while_linked:
  assumes "a \<noteq> b" "A = fold (app_step L) [Connection a True, Connection b True, Connection b False] A0"
  shows "a \<in> set (linkedAddresses A) \<and> transportState A = IDLE"
  using assms(1) app_links.run_rule [where s = A0 and es = "[Connection a True, Connection b True, Connection b False]" and L = L and k = a]
  unfolding assms(2) by (simp add: on_connection_def append_log_def)

text \<open>Regenerating the identity drops no trust: what was verified for the old identity is verified for the new one.\<close>

theorem regenerate_keeps_trust:
  "isVerified k (trustStore (auth (configure L (regenerate A)))) \<longleftrightarrow> isVerified k (trustStore (auth A))"
  by (simp add: regenerate_def stop_transport_def Let_def append_log_def)

end
