(* ===== verification/AppScreens.thy ===== *)
theory AppScreens
  imports MobileApp
begin

text \<open>
  What \<open>mobile/AppV2.tsx\<close> shows and what its buttons do. A screen is the list of its elements, top to bottom; of the
  colours only the tone of a lamp is kept, layout, fonts and the drawings of logo and icons are left out. Rendering a
  screen may throw: the result is then the name the screen refers to and nothing declares.
\<close>

section \<open>Elements\<close>

datatype Tab = Home | Chats | PairTab | Nearby | Settings

datatype UiTap = GoTab Tab | ConfigureTap | TransportTap | StopTap | OpenScanTap | ThemeTap Theme | RegenerateTap

datatype Tone = DimTone | SuccessTone | WarningTone

datatype Element =
    Words string
  | Lamp Tone bool
  | Cells "(int \<times> int) list"
  | CodeOf string
  | Press UiTap string
  | Field string
  | Logged LogEntry
  | TabItem Tab bool string
  | Switch bool
  | Overlay "Widget list"

text \<open>The middle dot of Latin-1.\<close>

definition dotted :: "string \<Rightarrow> string \<Rightarrow> string" where
  "dotted a b = a @ '' '' @ [char_of (0xB7 :: nat)] @ '' '' @ b"

definition last_eight :: "string \<Rightarrow> string" where
  "last_eight x = drop (length x - 8) x"

definition StatusBadge :: "TransportState \<Rightarrow> Element list" where
  "StatusBadge st =
     [Lamp (if st = IDLE then DimTone else if st = CONNECTED then SuccessTone else WarningTone) False,
      Words (if st = IDLE then ''IDLE'' else if st = CONNECTED then ''CONNECTED'' else ''SCANNING'')]"

text \<open>The second argument of a lamp: whether it pulses.\<close>

definition SignalLight :: "TransportState \<Rightarrow> Element list" where
  "SignalLight st =
     [Lamp (if st = CONNECTED then SuccessTone else if st = SCANNING then WarningTone else DimTone) (st \<noteq> IDLE)]"

definition Dot :: "TransportState \<Rightarrow> Element list" where
  "Dot st =
     [Lamp (if st = IDLE then DimTone else if st = CONNECTED then SuccessTone else WarningTone) (st \<noteq> IDLE)]"

section \<open>\<open>Identicon\<close>\<close>

text \<open>\<open>h = (h * 31 + charCodeAt) | 0\<close> is exact before it wraps to 32 bits.\<close>

definition icon_hash :: "string \<Rightarrow> 32 word" where
  "icon_hash seed = foldl (\<lambda>h c. h * 31 + word_of_nat (of_char c)) 0 seed"

definition icon_bit :: "int \<Rightarrow> int \<Rightarrow> bool" where
  "icon_bit h k \<longleftrightarrow> \<bar>h + k * 997\<bar> mod 10 > 4"

definition Identicon :: "string \<Rightarrow> (int \<times> int) list" where
  "Identicon seed =
     (let h = sint (icon_hash seed)
      in concat (map (\<lambda>(x, y). if icon_bit h (y * 2 + x) then [(x, y), (3 - x, y)] else [])
           [(0, 0), (1, 0), (0, 1), (1, 1), (0, 2), (1, 2), (0, 3), (1, 3)]))"

section \<open>Screens\<close>

definition Empty :: "string \<Rightarrow> string \<Rightarrow> string \<Rightarrow> UiTap \<Rightarrow> Element list" where
  "Empty title text button tap = [Words title, Words text, Press tap button]"

text \<open>The name of the own node where there is one, or a word in its place.\<close>

definition own_id :: "App \<Rightarrow> string \<Rightarrow> string" where
  "own_id A alt = (case truthy (map_option nodeId (appPair A)) of None \<Rightarrow> alt | Some i \<Rightarrow> i)"

definition transport_tap :: "App \<Rightarrow> UiTap" where
  "transport_tap A = (if transportState A = IDLE then TransportTap else StopTap)"

definition home_screen :: "App \<Rightarrow> Element list" where
  "home_screen A =
     [Words ''LOCAL NODE'', Words ''Zaycomm Node'', Words ''offline mesh communication network'',
      Words ''NODE IDENTITY'', Words (nodeName A), Words (dotted ''Ed25519'' ''generated locally'')] @
     SignalLight (transportState A) @
     [Cells (Identicon (own_id A ''unconfigured'')), Words ''NODE ID'', Words (own_id A ''UNCONFIGURED''),
      Words (nat_string (length (nearbyPeers A))), Words ''NEARBY'',
      Words (nat_string (length (linkedAddresses A))), Words ''LINKED'', Words ''BLE'', Words ''TRANSPORT''] @
     (if appIdentity A = None
      then [Words ''FIRST BOOT'', Words ''Create your local node'',
            Words ''Generate the Ed25519 identity that anchors this device.'', Press ConfigureTap ''CREATE NODE'']
      else [Words ''OFFLINE NETWORK'', Words ''Bluetooth LE ready''] @ SignalLight (transportState A) @
           [Words ''Bluetooth LE is the local transport. QR pairing does not route mesh traffic.'',
            Press (transport_tap A) (if transportState A = IDLE then ''START OFFLINE TRANSPORT'' else ''STOP TRANSPORT'')]) @
     [Words ''Recent activity''] @
     (if linkedAddresses A \<noteq> []
      then concat (map (\<lambda>x. [Cells (Identicon x), Words (dotted ''Node'' (last_eight x)), Words ''Mesh link active'', Lamp SuccessTone False])
             (linkedAddresses A))
      else [Words ''No linked activity yet.'']) @
     map Logged (activity A)"

text \<open>Parts of a screen in the order they are evaluated, up to the first that throws.\<close>

fun in_order :: "(string + Element list) list \<Rightarrow> string + Element list" where
  "in_order [] = Inr []"
| "in_order (Inl x # ps) = Inl x"
| "in_order (Inr es # ps) = (case in_order ps of Inl x \<Rightarrow> Inl x | Inr es' \<Rightarrow> Inr (es @ es'))"

definition undeclared :: "string \<Rightarrow> string + Element list" where
  "undeclared name = Inl name"

text \<open>The demonstration on the chats screen reads five names that no module declares; what is shown around them
  is here, each name where it is read first.\<close>

definition chats_screen :: "App \<Rightarrow> string + Element list" where
  "chats_screen A =
     (let n = length (linkedAddresses A)
      in in_order
        [Inr [Words ''SECURE MESSAGING'', Words ''Chats'', Words (nat_string n @ '' THREAD'' @ (if n = 1 then [] else ''S'')),
              Words ''OFFLINE PROTOCOL DEMO'', Words ''Encrypted message path'', Words ''REAL CRYPTO'',
              Words ''This uses Zaycomm's actual TextMessage and DoubleRatchet implementations. No network transport is used in this demo.'',
              Words ''PLAINTEXT''],
         undeclared ''demoPlain'', undeclared ''demoCipher'', undeclared ''demoPhase'', undeclared ''demoOpened'',
         undeclared ''runProtocolDemo'',
         Inr (if linkedAddresses A \<noteq> []
              then concat (map (\<lambda>x. [Cells (Identicon x), Words (dotted ''Node'' (last_eight x)), Words ''Secure link established'']) (linkedAddresses A))
              else Empty ''No secure conversations yet'' ''Pair with a nearby node first.'' ''OPEN PAIRING'' (GoTab PairTab))])"

definition pair_screen :: "App \<Rightarrow> Element list" where
  "pair_screen A =
     [Words ''SECURE BOOTSTRAP'', Words ''Your Node'',
      Words ''Let another device scan this to connect. You don't need to do anything else here.''] @
     (case appPair A of
        None \<Rightarrow> Empty ''Create a node first'' ''Generate this device's identity to create a pairing QR.'' ''CREATE NODE'' ConfigureTap
      | Some p \<Rightarrow> [Words ''SCAN THIS NODE'', CodeOf (encodeNodeIntroduction p), Words (nodeId p),
                    Words (dotted ''Ed25519'' ''generated locally'')])"

definition peer_row :: "App \<Rightarrow> MobilePeer \<Rightarrow> Element list" where
  "peer_row A p =
     (let i = mobilePeerId p; a = address p
      in [Cells (Identicon (if i = [] then a else i)), Words (if i = [] then ''ZAYCOMM NODE'' else i), Words a] @
         (case trust_label A p of None \<Rightarrow> [] | Some t \<Rightarrow> [Words t]))"

definition nearby_screen :: "App \<Rightarrow> Element list" where
  "nearby_screen A =
     [Words ''BLE DISCOVERY'', Words ''Nearby''] @ StatusBadge (transportState A) @ [Press OpenScanTap ''SCAN QR CODE''] @
     Dot (transportState A) @
     [Words (if transportState A = SCANNING then ''Scanning nearby'' else ''Scanner idle''),
      Words ''Discovery reacts to BLE advertisements.''] @
     (if nearbyPeers A = []
      then Empty ''No nodes detected'' ''Run Zaycomm on another device nearby and start its BLE transport.''
             (if transportState A = IDLE then ''START DISCOVERY'' else ''STOP DISCOVERY'') (transport_tap A)
      else concat (map (peer_row A) (nearbyPeers A)))"

definition settings_screen :: "lib \<Rightarrow> App \<Rightarrow> Element list" where
  "settings_screen L A =
     [Words ''SYSTEM'', Words ''Settings'', Words ''Appearance'', Words ''Theme'', Words ''Light / Dark'',
      Press (ThemeTap Dark) ''DARK'', Press (ThemeTap Light) ''LIGHT'',
      Words ''Identity'', Words ''Fingerprint'',
      Words (case appIdentity A of None \<Rightarrow> ''Not configured'' | Some idn \<Rightarrow> computeFingerprint L (publicKey idn)),
      Words ''Node name'', Words ''Displayed to nearby devices'', Field (nodeName A)] @
     (if appIdentity A = None then [] else [Press RegenerateTap ''REGENERATE IDENTITY'']) @
     [Words ''Transport'', Words ''Bluetooth LE'', Words ''Primary transport'', Switch True,
      Words ''Internet bridge'', Words ''Sync when available'', Switch False]"

section \<open>The application\<close>

record Ui =
  uiLoading :: bool
  uiTab :: Tab
  uiApp :: App

definition tabs :: "Tab list" where
  "tabs = [Home, Chats, PairTab, Nearby, Settings]"

definition tab_label :: "Tab \<Rightarrow> string" where
  "tab_label t = (case t of Home \<Rightarrow> ''HOME'' | Chats \<Rightarrow> ''CHATS'' | PairTab \<Rightarrow> ''PAIR'' | Nearby \<Rightarrow> ''NEARBY'' | Settings \<Rightarrow> ''SETTINGS'')"

text \<open>All five screens are evaluated before the chosen one is taken.\<close>

definition render :: "lib \<Rightarrow> Ui \<Rightarrow> string + Element list" where
  "render L U =
     (let A = uiApp U
      in if uiLoading U then Inr [Words ''ZAYCOMM'', Words ''OFFLINE MESH / INITIALIZING'']
         else case chats_screen A of
           Inl x \<Rightarrow> Inl x
         | Inr chats \<Rightarrow> Inr ((case uiTab U of Home \<Rightarrow> home_screen A | Chats \<Rightarrow> chats | PairTab \<Rightarrow> pair_screen A
               | Nearby \<Rightarrow> nearby_screen A | Settings \<Rightarrow> settings_screen L A) @
             map (\<lambda>t. TabItem t (uiTab U = t) (tab_label t)) tabs @
             (if scanOpen A then [Overlay (scan_widgets A)] else [])))"

text \<open>What the platform answers when the transport is started.\<close>

record StartAnswer =
  bleAvailable :: bool
  blePermitted :: bool
  bleStarted :: "unit res"

definition on_tap :: "lib \<Rightarrow> UiTap \<Rightarrow> StartAnswer \<Rightarrow> Ui \<Rightarrow> Ui" where
  "on_tap L tap r U = (case tap of
     GoTab t \<Rightarrow> U\<lparr>uiTab := t\<rparr>
   | ConfigureTap \<Rightarrow> U\<lparr>uiApp := configure L (uiApp U)\<rparr>
   | TransportTap \<Rightarrow> U\<lparr>uiApp := start_transport L (bleAvailable r) (blePermitted r) (bleStarted r) (uiApp U)\<rparr>
   | StopTap \<Rightarrow> U\<lparr>uiApp := stop_transport (uiApp U)\<rparr>
   | OpenScanTap \<Rightarrow> U\<lparr>uiApp := open_scan (uiApp U)\<rparr>
   | ThemeTap t \<Rightarrow> U\<lparr>uiApp := set_theme t (uiApp U)\<rparr>
   | RegenerateTap \<Rightarrow> U\<lparr>uiApp := regenerate (uiApp U)\<rparr>)"

text \<open>What is drawn decides what can be touched: a button or a tab, the field of the name, the scanner above the screen.\<close>

definition offers_tap :: "Element list \<Rightarrow> UiTap \<Rightarrow> bool" where
  "offers_tap es tap \<longleftrightarrow> list_ex (\<lambda>el. case el of Press t _ \<Rightarrow> t = tap | TabItem t _ _ \<Rightarrow> GoTab t = tap | _ \<Rightarrow> False) es"

definition offers_event :: "Element list \<Rightarrow> AppEvent \<Rightarrow> bool" where
  "offers_event es e \<longleftrightarrow> list_ex (\<lambda>el. case el of
     Field _ \<Rightarrow> (case e of ChangeName _ \<Rightarrow> True | _ \<Rightarrow> False)
   | Overlay _ \<Rightarrow> (case e of CloseScan \<Rightarrow> True | RetryScan \<Rightarrow> True | Scanner _ _ \<Rightarrow> True | _ \<Rightarrow> False)
   | _ \<Rightarrow> False) es"

definition reported :: "AppEvent \<Rightarrow> bool" where
  "reported e \<longleftrightarrow> (case e of Advertisement _ \<Rightarrow> True | Connection _ _ \<Rightarrow> True | _ \<Rightarrow> False)"

text \<open>What happens to the application; a start reads what the last run stored. The native module reports at any time.\<close>

datatype UiEvent = Tapped UiTap StartAnswer | Happens AppEvent | Loaded | Started nat

definition shown :: "lib \<Rightarrow> Ui \<Rightarrow> Element list" where
  "shown L U = (case render L U of Inl _ \<Rightarrow> [] | Inr es \<Rightarrow> es)"

fun ui_step :: "lib \<Rightarrow> UiEvent \<Rightarrow> Ui \<Rightarrow> Ui" where
  "ui_step L (Tapped tap r) U = (if offers_tap (shown L U) tap then on_tap L tap r U else U)"
| "ui_step L (Happens e) U =
     (if reported e \<or> offers_event (shown L U) e then U\<lparr>uiApp := app_step L e (uiApp U)\<rparr> else U)"
| "ui_step L Loaded U = U\<lparr>uiLoading := False\<rparr>"
| "ui_step L (Started i) U = \<lparr>uiLoading = True, uiTab = Home, uiApp = boot L (new_app (storage (uiApp U)) i)\<rparr>"

definition new_ui :: "nat \<Rightarrow> Ui" where
  "new_ui i = \<lparr>uiLoading = True, uiTab = Home, uiApp = new_app [] i\<rparr>"

section \<open>The own code\<close>

definition stored_well :: "App \<Rightarrow> bool" where
  "stored_well A \<longleftrightarrow> (\<forall>t. mget (storage A) IDENTITY_KEY = Some t \<longrightarrow> (\<exists>idn sk nonce. usable_keys idn sk \<and> t = identity_text idn sk nonce))"

definition own_code :: "lib \<Rightarrow> App \<Rightarrow> bool" where
  "own_code L A \<longleftrightarrow> stored_well A \<and> (\<forall>p. appPair A = Some p \<longrightarrow>
     (\<exists>idn sk j. appIdentity A = Some idn \<and> appStaticKeys A = Some sk \<and> usable_keys idn sk \<and> p = own_introduction L j idn sk))"

lemma own_code_kept: "keeps_identity A B \<Longrightarrow> own_code L A \<Longrightarrow> own_code L B"
  by (simp add: own_code_def stored_well_def keeps_identity_def)

lemma own_code_configure:
  assumes "hash_sizes L" "x25519_commutes L" "ed25519_correct L"
  shows "own_code L (configure L A)"
proof -
  have "length (publicKey (createIdentity L i)) = 32" for i
    using assms(3) hash_sizesD(4) [OF assms(1)] by (simp add: createIdentity_def generateEd25519KeyPair_def Let_def ed25519_correct_def)
  then have "usable_keys (createIdentity L (appDraws A)) (generateX25519KeyPair L (appDraws A + 1))"
    using fresh_static_keys [OF assms(1,2)] by (simp add: usable_keys_def)
  then show ?thesis unfolding own_code_def stored_well_def configured_app [OF assms(1,2)] by auto
qed

lemma own_code_start_transport:
  assumes "hash_sizes L" "x25519_commutes L" "ed25519_correct L" "own_code L A"
  shows "own_code L (start_transport L a b r A)"
proof (cases "appIdentity A = None \<or> appPair A = None")
  case True
  with own_code_configure [OF assms(1-3)] show ?thesis by (simp add: start_transport_def Let_def)
next
  case False
  then show ?thesis using assms(4) by (cases r) (auto simp: start_transport_def Let_def own_code_def stored_well_def)
qed

lemma own_code_regenerate: "own_code L (regenerate A)"
  by (simp add: own_code_def stored_well_def regenerate_def Let_def)

lemma own_code_boot:
  assumes "own_code L A"
  shows "own_code L (boot L (new_app (storage A) i))"
proof (cases "mget (storage A) IDENTITY_KEY")
  case None
  then have "appPair (boot L (new_app (storage A) i)) = None \<and> mget (storage (boot L (new_app (storage A) i))) IDENTITY_KEY = None"
    by (simp add: boot_def Let_def new_app_def truthy_def split: option.split)
  then show ?thesis by (simp add: own_code_def stored_well_def)
next
  case (Some t)
  then obtain idn sk nonce where k: "usable_keys idn sk" "mget (storage A) IDENTITY_KEY = Some (identity_text idn sk nonce)"
    using assms by (auto simp: own_code_def stored_well_def)
  then have len: "length (xPrivateKey sk) = 32" "length (xPublicKey sk) = 32" by (simp_all add: usable_keys_def)
  from boot_stored [OF len k(2), of L i] k show ?thesis unfolding own_code_def stored_well_def by auto
qed

text \<open>What the handlers do over the life of an installation.\<close>

datatype AppLife = Did AppEvent | Configured | Restarted nat

fun app_life :: "lib \<Rightarrow> AppLife \<Rightarrow> App \<Rightarrow> App" where
  "app_life L (Did e) A = app_step L e A"
| "app_life L Configured A = configure L A"
| "app_life L (Restarted i) A = boot L (new_app (storage A) i)"

lemma own_code_life:
  assumes "hash_sizes L" "x25519_commutes L" "ed25519_correct L" "own_code L A"
  shows "own_code L (app_life L e A)"
proof (cases e)
  case (Did x)
  show ?thesis
  proof (cases "x = Regenerate \<or> (\<exists>a b r. x = Start a b r)")
    case True
    with Did assms(4) own_code_start_transport [OF assms] show ?thesis by (auto simp: own_code_regenerate)
  next
    case False
    then have "own_code L (app_step L x A)" by (intro own_code_kept [OF keeps_identity_step assms(4)]) auto
    then show ?thesis by (simp add: Did)
  qed
qed (use assms(4) in \<open>simp_all add: own_code_configure [OF assms(1-3)] own_code_boot\<close>)

section \<open>Pictures of nodes\<close>

text \<open>Where the sum changes its sign among the eight cells.\<close>

definition sign_change :: "int \<Rightarrow> int" where
  "sign_change h = (if 0 \<le> h then 0 else if - 997 \<le> h then 1 else if - 1994 \<le> h then 2 else if - 2991 \<le> h then 3
     else if - 3988 \<le> h then 4 else if - 4985 \<le> h then 5 else if - 5982 \<le> h then 6 else if - 6979 \<le> h then 7 else 8)"

definition picture_bit :: "int \<Rightarrow> int \<Rightarrow> int \<Rightarrow> bool" where
  "picture_bit r k0 k \<longleftrightarrow> (if k < k0 then (- r - 7 * k) mod 10 else (r + 7 * k) mod 10) > 4"

lemma icon_bit_picture:
  assumes "0 \<le> k" "k < 8"
  shows "icon_bit h k = picture_bit (h mod 10) (sign_change h) k"
proof -
  have "k \<in> {0, 1, 2, 3, 4, 5, 6, 7}" using assms by auto
  then have "h + k * 997 < 0 \<longleftrightarrow> k < sign_change h" by (elim insertE) (simp_all add: sign_change_def)
  moreover have "h + k * 997 = (h mod 10 + 7 * k) + (h div 10 + 99 * k) * 10" by presburger
  then have "(h + k * 997) mod 10 = (h mod 10 + 7 * k) mod 10" by (metis mod_mult_self1)
  moreover have "- (h + k * 997) = (- (h mod 10) - 7 * k) + (- (h div 10) - 99 * k) * 10" by presburger
  then have "(- (h + k * 997)) mod 10 = (- (h mod 10) - 7 * k) mod 10" by (metis mod_mult_self1)
  ultimately show ?thesis by (simp add: icon_bit_def picture_bit_def abs_if del: minus_add_distrib)
qed

definition picture :: "int \<times> int \<Rightarrow> (int \<times> int) list" where
  "picture = (\<lambda>(r, k0). concat (map (\<lambda>(x, y). if picture_bit r k0 (y * 2 + x) then [(x, y), (3 - x, y)] else [])
     [(0, 0), (1, 0), (0, 1), (1, 1), (0, 2), (1, 2), (0, 3), (1, 3)]))"

lemma Identicon_picture:
  "Identicon s = picture (sint (icon_hash s) mod 10, sign_change (sint (icon_hash s)))"
  unfolding Identicon_def picture_def Let_def prod.case
  by (intro arg_cong [where f = concat] map_cong refl) (auto simp: icon_bit_picture)

lemma sign_change_range: "sign_change h \<in> {0..8}"
  by (simp add: sign_change_def)

lemma few_pictures:
  assumes "\<And>s. s \<in> X \<Longrightarrow> sign_change (sint (icon_hash s)) \<in> K" "finite K"
  shows "card (Identicon ` X) \<le> 10 * card K"
proof -
  have "Identicon ` X \<subseteq> picture ` ({0..<10} \<times> K)" using assms(1) by (auto simp: Identicon_picture)
  then have "card (Identicon ` X) \<le> card (picture ` ({0..<10 :: int} \<times> K))" using assms(2) by (intro card_mono) simp_all
  also have "\<dots> \<le> card ({0..<10 :: int} \<times> K)" using assms(2) by (intro card_image_le) simp
  finally show ?thesis by (simp add: card_cartesian_product)
qed

section \<open>Properties\<close>

text \<open>C18: The own code is accepted. Whatever handlers ran since the first start, over any number of restarts, the text
  the application has made of its introduction for the QR code is decoded by the scanner of any node to an
  introduction with the identity key and the static key in use at that moment. This is a property of the handlers and
  of the text they prepare; that \<open>AppV2\<close> as it stands never draws the screen with it is \<open>app_unusable\<close> below.\<close>

theorem own_code_accepted:
  assumes "hash_sizes L" "x25519_commutes L" "ed25519_correct L" "A = fold (app_life L) evs (new_app [] i)" "appPair A = Some p"
  shows "\<exists>idn sk n. appIdentity A = Some idn \<and> appStaticKeys A = Some sk \<and> tryDecodeNodeIntroduction L (encodeNodeIntroduction p) = Inr n \<and>
    introducedIdentityPublicKey n = publicKey idn \<and> introducedStaticPublicKey n = xPublicKey sk \<and> introducesCapability n ''ble''"
proof -
  have "own_code L (fold (app_life L) evs B)" if "own_code L B" for B
    using that by (induction evs arbitrary: B) (simp_all add: own_code_life [OF assms(1-3)] del: app_life.simps)
  moreover have "own_code L (new_app [] i)" by (simp add: own_code_def stored_well_def new_app_def)
  ultimately have own: "own_code L A" unfolding assms(4) by blast
  obtain idn sk j where k: "appIdentity A = Some idn" "appStaticKeys A = Some sk" "usable_keys idn sk" "p = own_introduction L j idn sk"
    using own assms(5) by (auto simp: own_code_def)
  then have len: "length (publicKey idn) = 32" "length (xPublicKey sk) = 32" by (simp_all add: usable_keys_def)
  have "decodeNodeIntroduction L (encodeNodeIntroduction p) = Inr p \<and> introducedIdentityPublicKey p = publicKey idn \<and>
      introducedStaticPublicKey p = xPublicKey sk"
    by (rule introduction_roundtrip [OF assms(1) len(1) _ _ new_introduction [OF len(2), of L j idn, folded k(4)]]) simp_all
  then show ?thesis using k by (simp add: tryDecodeNodeIntroduction_def introducesCapability_def own_introduction_def)
qed

theorem own_code_accepted_witness:
  "\<exists>p n. appPair (fold (app_life ref_lib) [Configured, Did (ChangeName ''n''), Restarted 7] (new_app [] 0)) = Some p \<and>
    tryDecodeNodeIntroduction ref_lib (encodeNodeIntroduction p) = Inr n \<and> introducesCapability n ''ble''"
proof -
  define A where "A = fold (app_life ref_lib) [Configured, Did (ChangeName ''n''), Restarted 7] (new_app [] 0)"
  note c = configured_app [OF ref_hash_sizes ref_x25519_commutes, of "new_app [] 0"] and k = fresh_static_keys [OF ref_hash_sizes ref_x25519_commutes]
  have st: "mget (storage (set_node_name ''n'' (configure ref_lib (new_app [] 0)))) IDENTITY_KEY = Some (identity_text (createIdentity ref_lib (appDraws (new_app [] 0)))
      (generateX25519KeyPair ref_lib (appDraws (new_app [] 0) + 1)) (bytesToHex (random_bytes ref_lib (appDraws (new_app [] 0) + 2) NONCE_LENGTH)))"
    by (simp add: set_node_name_def storage_keys c)
  from boot_stored [OF k(1) k(2) st, of ref_lib 7] obtain p where p: "appPair A = Some p" by (auto simp: A_def)
  with own_code_accepted [OF ref_hash_sizes ref_x25519_commutes ref_ed25519_correct A_def p] show ?thesis
    unfolding A_def by blast
qed

text \<open>Few pictures. The picture that stands for a node is drawn from a 32-bit hash of its name, but over all
  names there are at most ninety pictures, and at most twenty over the names whose hash is not between -6979 and -1.\<close>

theorem identicon_few:
  "card (range Identicon) \<le> 90 \<and>
   card (Identicon ` {s. sint (icon_hash s) < - 6979 \<or> 0 \<le> sint (icon_hash s)}) \<le> 20"
proof
  show "card (range Identicon) \<le> 90" using few_pictures [of UNIV "{0..8}"] sign_change_range by simp
  have "sign_change h \<in> {0, 8}" if "h < - 6979 \<or> 0 \<le> h" for h
    using that by (auto simp: sign_change_def)
  then have "sign_change (sint (icon_hash s)) \<in> {0, 8}" if "s \<in> {s. sint (icon_hash s) < - 6979 \<or> 0 \<le> sint (icon_hash s)}" for s
    using that by blast
  from few_pictures [where X = "{s. sint (icon_hash s) < - 6979 \<or> 0 \<le> sint (icon_hash s)}" and K = "{0, 8}", OF this] show "card (Identicon ` {s. sint (icon_hash s) < - 6979 \<or> 0 \<le> sint (icon_hash s)}) \<le> 20"
    by simp
qed

text \<open>No screen shows the text of an error: what \<open>setError\<close> stores is never rendered.\<close>

lemma error_never_shown:
  "render L (U\<lparr>uiApp := (uiApp U)\<lparr>errorText := e\<rparr>\<rparr>) = render L U"
proof -
  have same: "home_screen (A\<lparr>errorText := e\<rparr>) = home_screen A" "chats_screen (A\<lparr>errorText := e\<rparr>) = chats_screen A"
    "pair_screen (A\<lparr>errorText := e\<rparr>) = pair_screen A" "settings_screen L (A\<lparr>errorText := e\<rparr>) = settings_screen L A"
    "peer_row (A\<lparr>errorText := e\<rparr>) = peer_row A" "transport_tap (A\<lparr>errorText := e\<rparr>) = transport_tap A"
    "scan_widgets (A\<lparr>errorText := e\<rparr>) = scan_widgets A" for A
    by (simp_all add: home_screen_def own_id_def transport_tap_def chats_screen_def pair_screen_def settings_screen_def scan_widgets_def
        peer_row_def trust_label_def fun_eq_iff cong: option.case_cong)
  moreover from this have "nearby_screen (A\<lparr>errorText := e\<rparr>) = nearby_screen A" for A by (simp add: nearby_screen_def)
  ultimately show ?thesis by (simp add: render_def Let_def cong: sum.case_cong Tab.case_cong)
qed

text \<open>Once the splash screen is gone, rendering throws: the chats screen is evaluated whatever tab is chosen.\<close>

lemma rendering_throws:
  "render L U = (if uiLoading U then Inr [Words ''ZAYCOMM'', Words ''OFFLINE MESH / INITIALIZING''] else Inl ''demoPlain'')"
  by (simp add: render_def chats_screen_def undeclared_def Let_def)

text \<open>C38: The application cannot be used. The splash screen has no button, and what is drawn after it refers to a name
  that is not declared, so whatever the user tries and the native module reports, over any number of starts, a new
  installation stores nothing, has no identity and no code, never scans and never opens the scanner.\<close>

theorem app_unusable:
  assumes "U = fold (ui_step L) evs (new_ui i)"
  shows "storage (uiApp U) = [] \<and> appIdentity (uiApp U) = None \<and> appPair (uiApp U) = None \<and> transportState (uiApp U) \<noteq> SCANNING \<and>
    \<not> scanOpen (uiApp U)"
proof -
  let ?idle = "\<lambda>U. storage (uiApp U) = [] \<and> appIdentity (uiApp U) = None \<and> appPair (uiApp U) = None \<and>
    transportState (uiApp U) \<noteq> SCANNING \<and> \<not> scanOpen (uiApp U)"
  have none: "\<not> offers_tap (shown L V) tap" "\<not> offers_event (shown L V) e" for V tap e
    by (simp_all add: shown_def rendering_throws offers_tap_def offers_event_def)
  have "?idle (ui_step L e V)" if "?idle V" for e V
  proof (cases e)
    case (Happens x)
    then show ?thesis using that none by (cases x) (auto simp: reported_def on_advertisement_def on_connection_def append_log_def)
  next
    case (Started j)
    then show ?thesis using that by (simp add: boot_def Let_def new_app_def truthy_def)
  qed (use that none in auto)
  then have "?idle (fold (ui_step L) evs V)" if "?idle V" for V
    using that by (induction evs arbitrary: V) simp_all
  from this [of "new_ui i"] show ?thesis unfolding assms by (simp add: new_ui_def new_app_def)
qed

theorem app_unusable_witness:
  "let r = \<lparr>bleAvailable = True, blePermitted = True, bleStarted = Inr ()\<rparr>;
       evs = [Loaded, Tapped ConfigureTap r, Happens (Connection ''peer'' True), Started 1, Loaded, Tapped OpenScanTap r];
       U = fold (ui_step ref_lib) evs (new_ui 0)
   in appIdentity (uiApp U) = None \<and> \<not> scanOpen (uiApp U) \<and> appIdentity (uiApp (on_tap ref_lib ConfigureTap r (new_ui 0))) \<noteq> None"
  unfolding Let_def using app_unusable [OF refl, of ref_lib _ 0] configured_app(1) [OF ref_hash_sizes ref_x25519_commutes]
  by (simp add: on_tap_def del: fold.simps fold_simps)

end
