(* ===== verification/FirstApp.thy ===== *)
theory FirstApp
  imports AppScreens
begin

text \<open>
  \<open>mobile/App.tsx\<close>, the first version of the application: its state and handlers, the screens and the code it shows.
  \<open>index.js\<close> registers \<open>AppV2\<close> in its place. Screens are lists of elements as in \<open>AppScreens\<close>; the symbols that are
  not Latin-1 are constructors; layout, colours and the two animations are left out.
\<close>

section \<open>State\<close>

record PairingPayload =
  payVersion :: int
  payNodeId :: string
  payPublicKey :: string
  payCapabilities :: "string list"
  payNonce :: string

datatype FirstTab = FirstHome | FirstPair | FirstNearby | FirstSettings

datatype FirstLog =
    FirstLinkUp string
  | FirstLinkDown string
  | FirstIdentityReady string
  | FirstBlocked
  | FirstActive
  | FirstBleError string
  | Connecting string
  | LinkRequestSent string
  | ConnectError string
  | QrError string

record FirstApp =
  firstLoading :: bool
  firstTab :: FirstTab
  firstName :: string
  firstIdentity :: "Identity option"
  pairing :: "PairingPayload option"
  firstPeers :: "MobilePeer list"
  connected :: "string list"
  firstStatus :: string
  transportActive :: bool
  firstLog :: "FirstLog list"
  firstDraws :: nat

definition new_first_app :: "nat \<Rightarrow> FirstApp" where
  "new_first_app i = \<lparr>firstLoading = True, firstTab = FirstHome, firstName = ''Zaycomm Node'', firstIdentity = None, pairing = None,
     firstPeers = [], connected = [], firstStatus = ''Not configured'', transportActive = False, firstLog = [], firstDraws = i\<rparr>"

definition first_append :: "FirstLog \<Rightarrow> FirstApp \<Rightarrow> FirstApp" where
  "first_append line A = A\<lparr>firstLog := take 30 (line # firstLog A)\<rparr>"

section \<open>Handlers\<close>

text \<open>\<open>len\<close> hexadecimal digits of \<open>ceil (len / 2)\<close> random bytes, whichever source of randomness there is.\<close>

definition randomHex :: "lib \<Rightarrow> nat \<Rightarrow> nat \<Rightarrow> string" where
  "randomHex L i len = slice 0 len (bytesToHex (random_bytes L i ((len + 1) div 2)))"

definition createNodeId :: "lib \<Rightarrow> bytes \<Rightarrow> string" where
  "createNodeId L pk = slice 0 16 (strip_spaces (computeFingerprint L pk))"

definition requestAndroidBlePermissions :: "nat option \<Rightarrow> PermissionAnswer list \<Rightarrow> bool" where
  "requestAndroidBlePermissions android answers = (case android of
     None \<Rightarrow> True | Some v \<Rightarrow> if v < 31 then True else list_all (\<lambda>r. r = Granted) answers)"

definition first_loaded :: "FirstApp \<Rightarrow> FirstApp" where
  "first_loaded A = A\<lparr>firstLoading := False\<rparr>"

definition first_advertisement :: "MobilePeer \<Rightarrow> FirstApp \<Rightarrow> FirstApp" where
  "first_advertisement p A =
     (if list_ex (\<lambda>q. address q = address p) (firstPeers A) then A else A\<lparr>firstPeers := firstPeers A @ [p]\<rparr>)"

definition first_connection :: "string \<Rightarrow> bool \<Rightarrow> FirstApp \<Rightarrow> FirstApp" where
  "first_connection addr up A =
     first_append (if up then FirstLinkUp addr else FirstLinkDown addr)
       (A\<lparr>connected := if up then distinct_values (connected A @ [addr]) else filter (\<lambda>a. a \<noteq> addr) (connected A)\<rparr>)"

definition configureNode :: "lib \<Rightarrow> FirstApp \<Rightarrow> FirstApp" where
  "configureNode L A =
     (let idn = createIdentity L (firstDraws A);
          payload = \<lparr>payVersion = 1, payNodeId = createNodeId L (publicKey idn), payPublicKey = bytesToHex (publicKey idn),
                     payCapabilities = [''ble''], payNonce = randomHex L (firstDraws A + 1) 32\<rparr>
      in (first_append (FirstIdentityReady (payNodeId payload))
           (A\<lparr>firstIdentity := Some idn, pairing := Some payload, firstStatus := ''Node configured'', firstDraws := firstDraws A + 2\<rparr>))
         \<lparr>firstTab := FirstHome\<rparr>)"

text \<open>\<open>begun\<close>: what \<open>startAdvertising\<close> and the call of \<open>startScan\<close> give.\<close>

definition first_start :: "bool \<Rightarrow> bool \<Rightarrow> unit res \<Rightarrow> FirstApp \<Rightarrow> FirstApp" where
  "first_start bridge permitted begun A =
     (if firstIdentity A = None \<or> pairing A = None then A\<lparr>firstStatus := ''Configure this node first'', firstTab := FirstHome\<rparr>
      else if \<not> bridge then A\<lparr>firstStatus := ''Native BLE bridge unavailable''\<rparr>
      else if \<not> permitted then first_append FirstBlocked (A\<lparr>firstStatus := ''Bluetooth permissions denied''\<rparr>)
      else case begun of
        Inr _ \<Rightarrow> first_append FirstActive (A\<lparr>transportActive := True, firstStatus := ''Discovering Zaycomm nodes''\<rparr>)
      | Inl e \<Rightarrow> first_append (FirstBleError (error_string e))
          (A\<lparr>transportActive := False, firstStatus := ''Bluetooth transport failed''\<rparr>))"

text \<open>\<open>linked\<close>: what the native module's \<open>connect\<close> gives; without a module the call throws.\<close>

definition first_connect :: "MobilePeer \<Rightarrow> unit res \<Rightarrow> FirstApp \<Rightarrow> FirstApp" where
  "first_connect p linked A =
     (let A1 = first_append (Connecting (if mobilePeerId p = [] then address p else mobilePeerId p)) A
      in case linked of
           Inr _ \<Rightarrow> first_append (LinkRequestSent (address p)) A1
         | Inl e \<Rightarrow> first_append (ConnectError (error_string e)) A1)"

definition qr_failed :: "js_error \<Rightarrow> FirstApp \<Rightarrow> FirstApp" where
  "qr_failed e A = first_append (QrError (error_string e)) A"

section \<open>Screens\<close>

datatype Glyph = HouseGlyph | LinkGlyph | TargetGlyph | GearGlyph | ArrowGlyph | DashGlyph | BarGlyph | FullDot | HollowDot | Ellipsis

datatype Piece = Plain string | Special Glyph

datatype FirstTap = FirstGo FirstTab | ConfigureNodeTap | FirstStartTap | FirstConnectTap MobilePeer

datatype FirstElement =
    Line "Piece list"
  | FirstPulse bool
  | FirstPress FirstTap "Piece list"
  | FirstCode string
  | FirstField string
  | FirstLogged FirstLog
  | FirstDot bool
  | FirstNav FirstTab bool Glyph string

abbreviation line :: "string \<Rightarrow> FirstElement" where
  "line s \<equiv> Line [Plain s]"

text \<open>\<open>JSON.stringify\<close> of a pairing payload.\<close>

definition encodePairing :: "PairingPayload \<Rightarrow> string" where
  "encodePairing p =
     ''{'' @ json_quote ''scheme'' @ '':'' @ json_quote ''zaycomm''
     @ '','' @ json_quote ''version'' @ '':'' @ num_string (Num (payVersion p))
     @ '','' @ json_quote ''nodeId'' @ '':'' @ json_quote (payNodeId p)
     @ '','' @ json_quote ''publicKey'' @ '':'' @ json_quote (payPublicKey p)
     @ '','' @ json_quote ''capabilities'' @ '':['' @ join '','' (map json_quote (payCapabilities p)) @ '']''
     @ '','' @ json_quote ''nonce'' @ '':'' @ json_quote (payNonce p) @ ''}''"

definition NavIcon :: "FirstTab \<Rightarrow> Glyph" where
  "NavIcon t = (case t of FirstHome \<Rightarrow> HouseGlyph | FirstPair \<Rightarrow> LinkGlyph | FirstNearby \<Rightarrow> TargetGlyph | FirstSettings \<Rightarrow> GearGlyph)"

definition peerCount :: "FirstApp \<Rightarrow> nat" where
  "peerCount A = length (firstPeers A)"

definition first_splash :: "FirstElement list" where
  "first_splash = [line ''Z'', line ''ZAYCOMM'', line ''OFFLINE MESH / INITIALIZING'']"

definition first_home :: "bool \<Rightarrow> FirstApp \<Rightarrow> FirstElement list" where
  "first_home bridge A =
     (let on = transportActive A; n = nat_string (peerCount A); k = nat_string (length (connected A))
      in [line ''LOCAL NODE'', line ''ZAYCOMM'', line ''IDENTITY-FIRST / OFFLINE'', FirstPulse on, line (if on then ''LIVE'' else ''IDLE''),
          line ''NODE STATUS'', line (firstName A), FirstDot on,
          line (case pairing A of None \<Rightarrow> ''UNCONFIGURED'' | Some p \<Rightarrow> payNodeId p),
          line n, line ''NEARBY'', line k, line ''LINKED'', Line [if bridge then Plain ''BLE'' else Special DashGlyph], line ''BRIDGE''] @
         (if firstIdentity A = None
          then [line ''FIRST BOOT'', line ''Create local identity'',
                line ''Generate the Ed25519 identity that anchors this node. Private material stays on-device.'',
                FirstPress ConfigureNodeTap [Plain ''CREATE NODE'', Special ArrowGlyph]]
          else [line ''TRANSPORT'', line (if on then ''SCANNING'' else ''READY''),
                line (if on then ''Listening for nearby nodes'' else ''Start the offline network''),
                line ''Bluetooth LE is the transport. Internet is not required.'',
                FirstPress FirstStartTap [Plain (if on then ''TRANSPORT ACTIVE'' else ''START OFFLINE TRANSPORT''), Special ArrowGlyph]]) @
         (if on
          then [line ''LIVE ACTIVITY'', Line [Special FullDot, Plain '' RADIO ACTIVE''],
                Line [Special BarGlyph, Plain '' listening / advertisements''],
                Line [Special BarGlyph, Plain ('' peers in range / '' @ n)],
                Line [Special BarGlyph, Plain ('' authenticated links / '' @ k)]]
          else []) @
         [line ''Quick access'',
          FirstPress (FirstGo FirstPair) [Special LinkGlyph, Plain ''PAIR'', Plain ''Public QR bootstrap''],
          FirstPress (FirstGo FirstNearby) [Special TargetGlyph, Plain ''NEARBY'',
            Plain (n @ '' live discovery result'' @ (if peerCount A = 1 then [] else ''s''))]])"

definition first_pair :: "FirstApp \<Rightarrow> FirstElement list" where
  "first_pair A =
     [line ''SECURE BOOTSTRAP'', line ''Pairing'', line ''Exchange public data first. Trust and transport remain device-local.''] @
     (case pairing A of
        None \<Rightarrow> [line ''No node identity'', line ''Create this device's identity to generate a pairing QR.'',
                 FirstPress ConfigureNodeTap [Plain ''CREATE NODE'', Special ArrowGlyph]]
      | Some p \<Rightarrow> [line ''SCAN THIS NODE'', FirstCode (encodePairing p), line (payNodeId p),
                    line (''ZAYCOMM / BLE / V'' @ num_string (Num (payVersion p))),
                    line ''PUBLIC BOOTSTRAP'', line ''scheme :: zaycomm'', line ''capability :: ble'',
                    Line [Plain (''key :: '' @ slice 0 24 (payPublicKey p)), Special Ellipsis]])"

definition first_nearby :: "FirstApp \<Rightarrow> FirstElement list" where
  "first_nearby A =
     (let on = transportActive A
      in [line ''BLE DISCOVERY'', line ''Nearby'', line (nat_string (peerCount A)),
          (if on then Line [Special FullDot, Plain '' SCANNING''] else Line [Special HollowDot, Plain '' SCANNER IDLE'']),
          line (nat_string (length (connected A)) @ '' LINKED''),
          line (if on then ''Discovery reacts to advertisements as they arrive.'' else ''Start transport to discover nearby Zaycomm nodes.'')] @
         (if firstPeers A = []
          then [Line [Special LinkGlyph], line ''No nodes detected'',
                line ''Run Zaycomm on another device nearby and start its BLE transport.'']
          else concat (map (\<lambda>p. [FirstPulse on, line (if mobilePeerId p = [] then ''ZAYCOMM NODE'' else mobilePeerId p), line (address p),
                                FirstPress (FirstConnectTap p) [Plain ''LINK'']]) (firstPeers A))) @
         (if firstLog A \<noteq> [] then line ''NODE ACTIVITY'' # map FirstLogged (take 8 (firstLog A)) else []))"

definition first_settings :: "lib \<Rightarrow> bool \<Rightarrow> FirstApp \<Rightarrow> FirstElement list" where
  "first_settings L bridge A =
     [line ''SYSTEM'', line ''Settings'', line ''Node profile'', line ''NODE NAME'', FirstField (firstName A),
      line ''Used when this device advertises over BLE.'', line ''Identity'', line ''Status'',
      line (if firstIdentity A = None then ''NOT CONFIGURED'' else ''CONFIGURED'')] @
     (case firstIdentity A of None \<Rightarrow> []
      | Some idn \<Rightarrow> [line ''NODE ID'', line (case pairing A of None \<Rightarrow> [] | Some p \<Rightarrow> payNodeId p), line ''FINGERPRINT'',
                      line (computeFingerprint L (publicKey idn))]) @
     [line ''Runtime'', line ''Protocol v1'', line (if bridge then ''Native BLE bridge loaded'' else ''Native BLE bridge unavailable''),
      line ''Internet dependency: none'']"

definition first_tabs :: "FirstTab list" where
  "first_tabs = [FirstHome, FirstPair, FirstNearby, FirstSettings]"

definition first_label :: "FirstTab \<Rightarrow> string" where
  "first_label t = (case t of FirstHome \<Rightarrow> ''HOME'' | FirstPair \<Rightarrow> ''PAIR'' | FirstNearby \<Rightarrow> ''NEARBY'' | FirstSettings \<Rightarrow> ''SETTINGS'')"

definition first_render :: "lib \<Rightarrow> bool \<Rightarrow> FirstApp \<Rightarrow> FirstElement list" where
  "first_render L bridge A =
     (if firstLoading A then first_splash
      else [line ''ZAYCOMM'', line (if firstIdentity A = None then ''INITIAL SETUP'' else ''PRIVATE OFFLINE NODE''), line ''LOCAL''] @
        (case firstTab A of FirstHome \<Rightarrow> first_home bridge A | FirstPair \<Rightarrow> first_pair A | FirstNearby \<Rightarrow> first_nearby A
         | FirstSettings \<Rightarrow> first_settings L bridge A) @
        map (\<lambda>t. FirstNav t (firstTab A = t) (NavIcon t) (first_label t)) first_tabs)"

section \<open>Histories\<close>

datatype FirstEvent = SplashOver | Heard MobilePeer | LinkChanged string bool | FirstTapped FirstTap bool bool "unit res" | Renamed string
  | QrThrew js_error

fun first_step :: "lib \<Rightarrow> FirstEvent \<Rightarrow> FirstApp \<Rightarrow> FirstApp" where
  "first_step L SplashOver A = first_loaded A"
| "first_step L (Heard p) A = first_advertisement p A"
| "first_step L (LinkChanged addr up) A = first_connection addr up A"
| "first_step L (FirstTapped (FirstGo t) b p r) A = A\<lparr>firstTab := t\<rparr>"
| "first_step L (FirstTapped ConfigureNodeTap b p r) A = configureNode L A"
| "first_step L (FirstTapped FirstStartTap b p r) A = first_start b p r A"
| "first_step L (FirstTapped (FirstConnectTap peer) b p r) A = first_connect peer r A"
| "first_step L (Renamed v) A = A\<lparr>firstName := v\<rparr>"
| "first_step L (QrThrew e) A = qr_failed e A"

text \<open>A payload the application made.\<close>

definition made_payload :: "PairingPayload \<Rightarrow> bool" where
  "made_payload p \<longleftrightarrow> payVersion p = 1 \<and> payCapabilities p = [''ble''] \<and> (\<exists>pk. length pk = 32 \<and> payPublicKey p = bytesToHex pk)"

lemma made_step:
  assumes "hash_sizes L" "ed25519_correct L" "\<forall>p. pairing A = Some p \<longrightarrow> made_payload p"
  shows "\<forall>p. pairing (first_step L e A) = Some p \<longrightarrow> made_payload p"
proof -
  have "length (publicKey (createIdentity L i)) = 32" for i
    using assms(2) hash_sizesD(4) [OF assms(1)] by (simp add: createIdentity_def generateEd25519KeyPair_def Let_def ed25519_correct_def)
  then have "\<forall>p. pairing (configureNode L A) = Some p \<longrightarrow> made_payload p"
    by (auto simp: configureNode_def first_append_def made_payload_def Let_def)
  with assms(3) show ?thesis
    by (cases "(L, e, A)" rule: first_step.cases)
      (auto simp: first_loaded_def first_advertisement_def first_connection_def first_start_def first_connect_def qr_failed_def
        first_append_def Let_def split: sum.splits)
qed

lemma parse_pairing:
  assumes "payVersion p = 1" "payCapabilities p \<noteq> []"
  shows "json_parse (encodePairing p) = Some (JObj [(''scheme'', JStr ''zaycomm''), (''version'', JNum (Num 1)), (''nodeId'', JStr (payNodeId p)),
     (''publicKey'', JStr (payPublicKey p)), (''capabilities'', JArr (map JStr (payCapabilities p))), (''nonce'', JStr (payNonce p))])"
proof -
  let ?s = "encodePairing p" and ?caps = "join '','' (map json_quote (payCapabilities p))"
  define f where "f = json_fuel ?s + length (payCapabilities p)"
  have v: "num_string (Num 1) = ''1''" by code_simp
  have s: "?s = CHR ''{'' # json_quote ''scheme'' @ CHR '':'' # json_quote ''zaycomm'' @ CHR '','' #
      json_quote ''version'' @ CHR '':'' # CHR ''1'' # CHR '','' # json_quote ''nodeId'' @ CHR '':'' # json_quote (payNodeId p) @ CHR '','' #
      json_quote ''publicKey'' @ CHR '':'' # json_quote (payPublicKey p) @ CHR '','' #
      json_quote ''capabilities'' @ CHR '':'' # (CHR ''['' # ?caps @ CHR '']'' # CHR '','' #
      json_quote ''nonce'' @ CHR '':'' # json_quote (payNonce p) @ CHR ''}'' # [])"
    by (simp add: encodePairing_def assms(1) v)
  have caps: "json_value (Suc (Suc (Suc f))) (CHR ''['' # ?caps @ CHR '']'' # r) = Some (JArr (map JStr (payCapabilities p)), r)" for r
    using json_value_array [of "payCapabilities p" "Suc (Suc f)" r] assms(2) by (simp add: f_def)
  have "json_members (Suc (Suc (Suc (Suc (Suc (Suc (Suc (Suc f)))))))) [] (tl ?s) = Some ([(''scheme'', JStr ''zaycomm''),
      (''version'', JNum (Num 1)), (''nodeId'', JStr (payNodeId p)), (''publicKey'', JStr (payPublicKey p)),
      (''capabilities'', JArr (map JStr (payCapabilities p))), (''nonce'', JStr (payNonce p))], [])"
    by (simp add: s json_members_value [OF json_value_one] json_members_value [OF caps])
  then show ?thesis unfolding s list.sel by (rule json_parse_members) (simp only: s [symmetric], simp add: f_def)
qed

section \<open>Properties\<close>

text \<open>C37: The code of the first application is refused. Whatever was tapped and whatever happened, the scanner of the present
  application refuses the code that the pairing screen of the first one shows, for the lack of a static key.\<close>

theorem first_code_refused:
  assumes "hash_sizes L" "ed25519_correct L" "A = fold (first_step L) evs (new_first_app i)" "FirstCode s \<in> set (first_pair A)"
  shows "tryDecodeNodeIntroduction L s =
    Inl (QR_INVALID_STATIC_KEY, ''QR_INVALID_STATIC_KEY: Introduction carries no usable X25519 static key.'')"
proof -
  have kept: "\<forall>p. pairing (fold (first_step L) evs B) = Some p \<longrightarrow> made_payload p" if "\<forall>p. pairing B = Some p \<longrightarrow> made_payload p" for B
    using that
  proof (induction evs arbitrary: B)
    case (Cons e evs)
    show ?case unfolding fold.simps comp_def by (rule Cons.IH [OF made_step [OF assms(1,2) Cons.prems]])
  qed simp
  have made: "\<forall>p. pairing A = Some p \<longrightarrow> made_payload p" unfolding assms(3) by (rule kept) (simp add: new_first_app_def)
  obtain p where p: "pairing A = Some p" "s = encodePairing p" using assms(4) by (cases "pairing A") (simp_all add: first_pair_def)
  then obtain pk where pk: "payVersion p = 1" "payCapabilities p = [''ble'']" "length pk = 32" "payPublicKey p = bytesToHex pk"
    using made by (auto simp: made_payload_def)
  then have hex: "is_hex (JStr (bytesToHex pk)) 64 = Some (bytesToHex pk)" using pk(3) hex_text_hex [of pk] by (cases pk) (simp_all add: is_hex_Some)
  let ?o = "[(''scheme'', JStr ''zaycomm''), (''version'', JNum (Num 1)), (''nodeId'', JStr (payNodeId p)),
     (''publicKey'', JStr (payPublicKey p)), (''capabilities'', JArr (map JStr (payCapabilities p))), (''nonce'', JStr (payNonce p))]"
  have get: "obj_get ?o ''publicKey'' = JStr (bytesToHex pk)" "obj_get ?o ''staticKey'' = JUndef" "obj_get ?o ''scheme'' = JStr ''zaycomm''"
    "obj_get ?o ''version'' = JNum (Num 1)" by (simp_all add: obj_get_def pk(4))
  have len: "ED25519_PUBLIC_KEY_LENGTH * 2 = 64" by (simp add: introduction_constants)
  have none: "is_hex JUndef 64 = None" by (simp add: is_hex_def)
  have refused: "checkFields L ?o = introduction_error QR_INVALID_STATIC_KEY ''Introduction carries no usable X25519 static key.''"
    unfolding checkFields_def get len hex none by simp
  have parse: "json_parse s = Some (JObj ?o)" unfolding p(2) by (rule parse_pairing) (simp_all add: pk)
  have full: "\<not> list_all is_space s" unfolding p(2) by (simp add: encodePairing_def is_space_def)
  have "decodeNodeIntroduction L s = introduction_error QR_INVALID_STATIC_KEY ''Introduction carries no usable X25519 static key.''"
    unfolding decodeNodeIntroduction_def parse option.case jsval.case get refused using full
    by (simp add: INTRODUCTION_SCHEME_def INTRODUCTION_VERSION_def)
  then show ?thesis by (simp add: tryDecodeNodeIntroduction_def introduction_error_def code_string_def)
qed

theorem first_code_refused_witness:
  "\<exists>s. FirstCode s \<in> set (first_pair (fold (first_step ref_lib) [SplashOver, FirstTapped ConfigureNodeTap True True (Inr ())] (new_first_app 0))) \<and>
    fst (projl (tryDecodeNodeIntroduction ref_lib s)) = QR_INVALID_STATIC_KEY"
proof -
  define A where "A = fold (first_step ref_lib) [SplashOver, FirstTapped ConfigureNodeTap True True (Inr ())] (new_first_app 0)"
  obtain p where "pairing A = Some p" by (simp add: A_def configureNode_def first_append_def Let_def)
  then have "FirstCode (encodePairing p) \<in> set (first_pair A)" by (simp add: first_pair_def)
  with first_code_refused [OF ref_hash_sizes ref_ed25519_correct A_def this] show ?thesis unfolding A_def by auto
qed

end
