(* ===== verification/Spec2Isabelle.thy ===== *)
theory Spec2Isabelle
  imports AckPath LargeEnvelope SyncExchange UdpSocket Message NodeProcess FirstApp
begin

text \<open>
  Zaycomm, an offline mesh messenger written in TypeScript: the protocol core under \<open>src/\<close>, the headless node
  process under \<open>src/node\<close> and the mobile application under \<open>mobile/\<close>.

  \<^bold>\<open>How the parts interact.\<close> Two devices meet by a QR code (\<open>introduction.ts\<close>) that one shows and the other
  scans (\<open>ScanQrScreen.tsx\<close>, \<open>AppV2.tsx\<close>). \<open>peerAuth.ts\<close> finds the peer among the Bluetooth advertisements, opens
  a frame channel over the Bluetooth adapter, and runs \<open>introduction-session.ts\<close>: a Noise IK handshake
  (\<open>handshake.ts\<close>) whose session is bound to both identities (\<open>identity.ts\<close>, \<open>session.ts\<close>). Success is recorded in
  the trust store (\<open>peer-trust.ts\<close>). A session feeds a double ratchet (\<open>ratchet.ts\<close>) that encrypts messages
  (\<open>message.ts\<close>, \<open>file.ts\<close>, \<open>voice.ts\<close>); they travel in envelopes (\<open>envelope.ts\<close>). A \<open>RelayNode\<close> (\<open>routing.ts\<close>)
  routes envelopes by signed advertisements, keeps what it cannot deliver (\<open>store.ts\<close>), hands it over by encrypted
  sync packets (\<open>session-sync.ts\<close>), floods emergency broadcasts (\<open>broadcast.ts\<close>), and cuts envelopes into fragments
  (\<open>fragment.ts\<close>) for transports with a small unit (\<open>transport.ts\<close>, \<open>udp.ts\<close>). \<open>node-process.ts\<close> runs such a node on
  UDP.

  \<^bold>\<open>Theories.\<close>
  \<^item> \<open>Prelude\<close>: results \<open>js_error + 'a\<close>, JavaScript maps as insertion-ordered association lists, slices, and the
    locales \<open>ledger\<close>, \<open>expiring_store\<close> and \<open>wire_format\<close>. \<open>JsValues\<close>, \<open>Bytes\<close> (\<open>util.ts\<close>), \<open>DataView\<close>, \<open>Json\<close>: the values and
    functions of the language. \<open>Effects\<close>: operations that change a state and may throw, with the locale \<open>evolution\<close>.
    \<open>Collector\<close> and \<open>Automaton\<close>: the contracts \<open>collector\<close> (reassembly in any order) and \<open>keyed_automaton\<close> (one small
    automaton per key).
  \<^item> \<open>Lib\<close>: the third-party functions as a record \<open>lib\<close>, their laws, and \<open>keys.ts\<close>. \<open>RefLib\<close>: a concrete \<open>lib\<close> that
    satisfies all laws, for the witnesses only.
  \<^item> \<open>Handshake\<close> (\<open>handshake.ts\<close>), \<open>Identity\<close> (\<open>identity.ts\<close>, \<open>seal.ts\<close>, \<open>session.ts\<close>), \<open>Ratchet\<close> (\<open>ratchet.ts\<close>), \<open>Envelope\<close>
    (\<open>envelope.ts\<close>), \<open>Message\<close> (\<open>src/message\<close>), \<open>Fragment\<close> (\<open>fragment.ts\<close>), \<open>Store\<close> (\<open>store.ts\<close>), \<open>Broadcast\<close>
    (\<open>broadcast.ts\<close>), \<open>Sync\<close> (\<open>session-sync.ts\<close> and the packing in \<open>routing.ts\<close>).
  \<^item> \<open>Routing\<close> (\<open>route-provenance.ts\<close>, the routing table of \<open>routing.ts\<close>), \<open>Relay\<close> (the class \<open>RelayNode\<close>),
    \<open>RelayInvariants\<close> (the locales \<open>handlers\<close>: what every handler preserves when the elementary steps do, and
    \<open>relay_field\<close>: which handlers leave a field alone),
    \<open>RelayNodes\<close>, \<open>RelaySync\<close>, \<open>RelayDelivery\<close>, \<open>RelayLinks\<close> (its properties).
  \<^item> \<open>Transport\<close> (\<open>transport.ts\<close>, the neighbours and datagrams of \<open>udp.ts\<close>), \<open>UdpSocket\<close> (how \<open>udp.ts\<close> opens and closes its
    socket), \<open>RelayNetwork\<close> (relay nodes on these transports, locale \<open>unit_transport\<close>), \<open>NodeProcess\<close> (\<open>node-process.ts\<close>).
  \<^item> Runs of several parts: \<open>EndToEnd\<close> (handshake, ratchets, envelope, two nodes and a transport), \<open>LargeEnvelope\<close>
    (envelopes at and above the limit of the reassembly table), \<open>MeshPath\<close> (an envelope along a path of relays, copies of
    a packet), \<open>AckPath\<close> (the acknowledgement on the way back), \<open>SyncExchange\<close> (a whole round of the sync protocol between two nodes).
  \<^item> \<open>Introduction\<close> (\<open>introduction.ts\<close>), \<open>IntroductionSession\<close> (\<open>introduction-session.ts\<close>), \<open>PeerTrust\<close>
    (\<open>peer-trust.ts\<close>), \<open>FrameChannel\<close> (\<open>frameChannel.ts\<close>), \<open>Ble\<close> (the Android and iOS adapters and bridges), \<open>PeerAuth\<close>
    (\<open>peerAuth.ts\<close>), \<open>MobileApp\<close> (\<open>ScanQrScreen.tsx\<close>, the state of \<open>AppV2.tsx\<close>), \<open>AppScreens\<close> (the screens of \<open>AppV2.tsx\<close>
    and what a touch on them does), \<open>FirstApp\<close> (\<open>mobile/App.tsx\<close>).

  A class is a record of its fields, a method a function of the record with the names of the source; where a
  name clashes, the record field carries a prefix. A method that throws returns the error and the state it left.
\<close>

text \<open>
  \<^bold>\<open>What the lemmas show.\<close>
  \<^item> Cryptographic protocols: both ends of the handshake, of the introduction session and of the ratchet agree,
    in any order of arrival; a failed decryption changes nothing, a key is used once; no session without both
    identity proofs; whoever the scanner accepts proved the scanned identity for this very handshake.
  \<^item> Reassembly: fragments, file chunks and link frames give back what was sent in any order with repetitions
    (\<open>collector\<close>, interpreted by the frame channel and the file reassembler), within the limits of each table.
  \<^item> Store and routing: the queue keeps what it accepted until it is acknowledged or expires (\<open>store_forward\<close>,
    interpreted by the queue), counters are exact (\<open>ledger\<close>), purging is complete (\<open>expiring_store\<close>).
  \<^item> Relay node: its tables are bounded under any history, what forwarding, delivery, sync and broadcasts do
    and when; trust is earned only by acknowledgements that verify, one point each, whatever carried them; a copied sync
    packet is refused while its record lasts, over any run of the node (\<open>evolution\<close>, \<open>handlers\<close> and \<open>relay_field\<close>,
    interpreted for each preserved relation; \<open>RelayNodes.relay_step\<close> is one step of a node's life).
  \<^item> Transports and processes: UDP attributes a datagram to the neighbour whose endpoint sent it; a relay on any
    \<open>unit_transport\<close> (simulated or UDP) gets every frame of an envelope through; the first message after a handshake is
    opened at the other node; two node processes deliver an envelope end to end; a waiting session is applied when its peer is added.
    What a UDP transport's promises, socket and uncaught errors are is a function of the order of the events it saw.
  \<^item> Mesh: along any path the routing tables describe, shorter than the hop counter, a message reaches the addressee, who
    opens it as if it came from the sender; its acknowledgement crosses the path back and earns every neighbour on it trust
    and a validated route; one sync round asks for and delivers exactly what the asking node lacked.
  \<^item> Trust and pairing: the trust store refines the automaton of one peer, as do the Bluetooth adapters and the
    application's list of links (\<open>keyed_automaton\<close>, four interpretations); pairing verifies only the scanned peer, and
    succeeds with an honest one; the stored identity survives a restart; the code the application makes is accepted by
    the scanner, after any history of its handlers.
  \<^item> Where the code misses its intention the theorem states what it does: the starving route, the window of a
    copied sync packet, the expectation of a responder, ids of the native modules, the scanner after a capture and
    the trust label, an envelope above 256 KiB, copies of a packet, the code of the first application (refused by the
    scanner of the second), and the application itself: line 62 of \<open>mobile/AppV2.tsx\<close> names variables that are declared
    nowhere, so every rendering after the splash screen throws and nothing can be touched (\<open>AppScreens.app_unusable\<close>;
    the theorems on its handlers say what they do where they run); \<open>Transport.udp_stale_endpoint\<close>, \<open>NodeProcess.refused_peer_half_registered\<close>,
    \<open>RelayLinks.forged_broadcast_suppresses\<close>, \<open>Ratchet.skipped_cache_unbounded\<close> and the lemmas beside them.

  \<^bold>\<open>Assumptions about code outside.\<close> The laws of \<open>Lib\<close> are hypotheses where used: \<open>cbor_roundtrips\<close>, \<open>cbor_compact\<close>
  and \<open>RelayNetwork.cbor_tight\<close> (decoding after encoding, and the size of CBOR items), \<open>hash_sizes\<close>, \<open>aead_correct\<close>,
  \<open>aead_exact\<close>, \<open>ed25519_correct\<close>, \<open>x25519_commutes\<close>. No law says that forging is hard; safety theorems speak of
  signatures that verify. Each has a witness over \<open>RefLib\<close>.

  \<^bold>\<open>Bounds and fuel.\<close> The depth argument of \<open>Relay.receiveEnvelope\<close> is the call stack the engine has left; one level is
  used per sync transfer nested in another, and theorems about packets hold from depth one on. \<open>Json.json_value\<close> takes
  a step bound; \<open>Json.json_parse\<close> supplies the one that \<open>Introduction.json_parse_total\<close> proves sufficient. All other loops are
  structural recursion or folds.

  \<^bold>\<open>Conventions.\<close> Strings are 8-bit characters. Numbers are exact; a number that is not an integer is known by the
  integer below it. \<open>Date.now()\<close> is an argument read once per operation. Random draws are numbered. The messages of
  engine and library errors are empty. A transport delivers nothing to a node while a handler of it runs;
  listeners run when the handler is done. Configuration and commands of the node process are parsed, well-typed
  objects. The answer of a native Bluetooth call is an argument; the Kotlin module defines no \<open>write\<close>, so on Android only the
  answer that it failed occurs. One pairing runs at a time, and the application's state changes between two renderings.

  \<^bold>\<open>Not modelled.\<close> Of the screens the layout, colours, icons and animation: a screen is the texts it shows, the QR code and
  the controls that can be touched; \<open>mobile/App.tsx\<close> is modelled although nothing imports it. Also left out are a
  datagram sent on a socket that was never started, which the system would bind by itself, the decoding of texts that are
  not ASCII, and a storage that refuses to store. The entry, bundler and crash-reporting files, the native modules in Swift
  and Kotlin, the datagrams of the operating system, the signals and standard streams of the node process, the tests and
  the build scripts are calls of libraries and systems, or code in another language, whose effects are inputs here.
\<close>

end
